(* ===== verification/Go_Strings.thy ===== *)
theory Go_Strings
  imports Main "HOL-Library.Sublist"
begin

text \<open>
  The parts of Go's string handling the program relies on.  A Go string is a sequence of
  bytes, so it is a \<^typ>\<open>string\<close> (each \<^typ>\<open>char\<close> one byte) and \<open>len(s)\<close> is
  \<^const>\<open>length\<close>.  Modelled here: \<open>strings.TrimSpace\<close> with Unicode white space in its UTF-8
  encodings, \<open>strings.HasPrefix\<close> (the library's \<^const>\<open>prefix\<close>), \<open>strings.Split\<close> at one
  byte, \<open>utf8.ValidString\<close>, the replacement of invalid bytes by \<open>encoding/json\<close>,
  \<open>strconv.Itoa\<close> and \<open>strconv.Atoi\<close> on a 64-bit \<open>int\<close>.
  The lemmas give the laws the components use: trimming is idempotent, UTF-8 validity is kept
  by concatenation, decimal printing and parsing are inverse, joining at an absent separator
  byte is injective.
\<close>

section \<open>White space\<close>

text \<open>The UTF-8 encodings of the runes for which \<open>unicode.IsSpace\<close> holds.\<close>

definition space_runes :: "string list" where
  "space_runes =
     [[CHR 0x20], [CHR 0x09], [CHR 0x0A], [CHR 0x0B], [CHR 0x0C], [CHR 0x0D],
      [CHR 0xC2, CHR 0x85], [CHR 0xC2, CHR 0xA0], [CHR 0xE1, CHR 0x9A, CHR 0x80],
      [CHR 0xE2, CHR 0x80, CHR 0x80], [CHR 0xE2, CHR 0x80, CHR 0x81],
      [CHR 0xE2, CHR 0x80, CHR 0x82], [CHR 0xE2, CHR 0x80, CHR 0x83],
      [CHR 0xE2, CHR 0x80, CHR 0x84], [CHR 0xE2, CHR 0x80, CHR 0x85],
      [CHR 0xE2, CHR 0x80, CHR 0x86], [CHR 0xE2, CHR 0x80, CHR 0x87],
      [CHR 0xE2, CHR 0x80, CHR 0x88], [CHR 0xE2, CHR 0x80, CHR 0x89],
      [CHR 0xE2, CHR 0x80, CHR 0x8A], [CHR 0xE2, CHR 0x80, CHR 0xA8],
      [CHR 0xE2, CHR 0x80, CHR 0xA9], [CHR 0xE2, CHR 0x80, CHR 0xAF],
      [CHR 0xE2, CHR 0x81, CHR 0x9F], [CHR 0xE3, CHR 0x80, CHR 0x80]]"

definition leading :: "string list \<Rightarrow> string \<Rightarrow> string option" where
  "leading ps s = find (\<lambda>p. p \<noteq> [] \<and> prefix p s) ps"

lemma leading_Some:
  assumes "leading ps s = Some p"
  shows "p \<noteq> []" and "prefix p s" and "p \<in> set ps"
  using assms by (auto simp: leading_def find_Some_iff)

lemma leading_None: "leading ps s = None \<longleftrightarrow> (\<forall>p \<in> set ps. p = [] \<or> \<not> prefix p s)"
  by (auto simp: leading_def find_None_iff)

function trim_left :: "string list \<Rightarrow> string \<Rightarrow> string" where
  "trim_left ps s =
     (case leading ps s of None \<Rightarrow> s | Some p \<Rightarrow> trim_left ps (drop (length p) s))"
  by pat_completeness auto
termination
proof (relation "measure (\<lambda>(ps, s). length s)", goal_cases)
  case 1
  show ?case by simp
next
  case (2 ps s p)
  then have "p \<noteq> []" and "prefix p s" by (simp_all add: leading_Some)
  then have "0 < length p" and "length p \<le> length s"
    by (simp_all add: prefix_length_le)
  then show ?case by (simp add: diff_less_mono2 del: length_greater_0_conv)
qed

declare trim_left.simps [simp del]

definition TrimSpace :: "string \<Rightarrow> string" where
  "TrimSpace s = rev (trim_left (map rev space_runes) (rev (trim_left space_runes s)))"

lemma trim_left_suffix: "suffix (trim_left ps s) s"
proof (induction ps s rule: trim_left.induct)
  case (1 ps s)
  show ?case
  proof (cases "leading ps s")
    case None
    then show ?thesis by (simp add: trim_left.simps [of ps s])
  next
    case (Some p)
    then have "suffix (trim_left ps (drop (length p) s)) (drop (length p) s)"
      by (rule "1.IH")
    then show ?thesis
      using Some by (simp add: trim_left.simps [of ps s] suffix_order.trans [OF _ suffix_drop])
  qed
qed

lemma leading_trim_left: "leading ps (trim_left ps s) = None"
proof (induction ps s rule: trim_left.induct)
  case (1 ps s)
  show ?case
  proof (cases "leading ps s")
    case None
    then show ?thesis by (simp add: trim_left.simps [of ps s])
  next
    case (Some p)
    then have "leading ps (trim_left ps (drop (length p) s)) = None"
      by (rule "1.IH")
    then show ?thesis using Some by (simp add: trim_left.simps [of ps s])
  qed
qed

lemma trim_left_id: "leading ps s = None \<Longrightarrow> trim_left ps s = s"
  by (simp add: trim_left.simps)

lemma leading_None_mono: "prefix t s \<Longrightarrow> leading ps s = None \<Longrightarrow> leading ps t = None"
  unfolding leading_None by (meson prefix_order.trans)

text \<open>Trimming a trimmed string changes nothing.\<close>

lemma TrimSpace_idem: "TrimSpace (TrimSpace s) = TrimSpace s"
proof -
  let ?l = "trim_left space_runes s"
  let ?r = "trim_left (map rev space_runes) (rev ?l)"
  have "prefix (rev ?r) ?l"
    using trim_left_suffix [of "map rev space_runes" "rev ?l"]
    by (simp add: suffix_to_prefix)
  then have left: "leading space_runes (rev ?r) = None"
    by (rule leading_None_mono) (rule leading_trim_left)
  have right: "leading (map rev space_runes) ?r = None"
    by (rule leading_trim_left)
  show ?thesis
    unfolding TrimSpace_def using left right by (simp add: trim_left_id)
qed

lemma TrimSpace_Nil [simp]: "TrimSpace [] = []"
  by (simp add: TrimSpace_def trim_left_id leading_None)

lemma TrimSpace_length: "length (TrimSpace s) \<le> length s"
  unfolding TrimSpace_def
  by (metis (no_types) length_rev suffix_length_le trim_left_suffix order_trans)

text \<open>
  A string is its own trimming as soon as its first byte starts no white-space rune and its
  last byte ends none: the test that evaluates a concrete identifier.
\<close>

definition no_space_byte :: "char \<Rightarrow> bool" where
  "no_space_byte c \<longleftrightarrow> c \<notin> set (map hd space_runes) \<and> c \<notin> set (map last space_runes)"

lemma space_runes_nonempty: "[] \<notin> set space_runes"
  by (simp add: space_runes_def)

lemma TrimSpace_id:
  assumes "s \<noteq> []" and "no_space_byte (hd s)" and "no_space_byte (last s)"
  shows "TrimSpace s = s"
proof -
  have fst: "leading space_runes s = None"
    unfolding leading_None
  proof (intro ballI disjCI notI)
    fix p assume p: "p \<in> set space_runes" and np: "\<not> \<not> prefix p s"
    then have "p \<noteq> []" using space_runes_nonempty by metis
    then have "hd s = hd p" using np by (auto simp: prefix_def)
    then show "p = []" using p assms(2) by (simp add: no_space_byte_def)
  qed
  have snd: "leading (map rev space_runes) (rev s) = None"
    unfolding leading_None
  proof (intro ballI disjCI notI)
    fix q assume q: "q \<in> set (map rev space_runes)" and np: "\<not> \<not> prefix q (rev s)"
    then obtain p where p: "p \<in> set space_runes" "q = rev p" by auto
    then have ne: "p \<noteq> []" using space_runes_nonempty by metis
    have "suffix p s" using np p(2) by (simp add: suffix_to_prefix)
    then have "last s = last p" using ne by (auto simp: suffix_def)
    then have "last s \<in> set (map last space_runes)" using p(1) by simp
    then show "q = []" using assms(3) by (simp add: no_space_byte_def)
  qed
  show ?thesis
    unfolding TrimSpace_def using fst snd by (simp add: trim_left_id)
qed

section \<open>UTF-8\<close>

definition byte :: "char \<Rightarrow> nat" where
  "byte c = of_char c"

definition cont_byte :: "char \<Rightarrow> bool" where
  "cont_byte c \<longleftrightarrow> 0x80 \<le> byte c \<and> byte c \<le> 0xBF"

text \<open>
  \<open>utf8.DecodeRuneInString\<close>: the number of bytes of the rune at the head of a string,
  0 when the head is not a valid encoding (the decoder's \<open>RuneError\<close>).  \<open>rune_need\<close> is the
  length the first byte announces, \<open>second_lo\<close> and \<open>second_hi\<close> the range of the second
  byte, which excludes overlong forms, surrogates and runes above U+10FFFF.
\<close>

definition rune_need :: "nat \<Rightarrow> nat" where
  "rune_need b =
     (if b < 0x80 then 1
      else if 0xC2 \<le> b \<and> b \<le> 0xDF then 2
      else if 0xE0 \<le> b \<and> b \<le> 0xEF then 3
      else if 0xF0 \<le> b \<and> b \<le> 0xF4 then 4 else 0)"

definition second_lo :: "nat \<Rightarrow> nat" where
  "second_lo b = (if b = 0xE0 then 0xA0 else if b = 0xF0 then 0x90 else 0x80)"

definition second_hi :: "nat \<Rightarrow> nat" where
  "second_hi b = (if b = 0xED then 0x9F else if b = 0xF4 then 0x8F else 0xBF)"

definition rune_len :: "string \<Rightarrow> nat" where
  "rune_len s =
     (case s of
        [] \<Rightarrow> 0
      | c # cs \<Rightarrow>
          let b = byte c; n = rune_need b in
          if n = 0 \<or> length s < n then 0
          else if n = 1 then 1
          else if second_lo b \<le> byte (hd cs) \<and> byte (hd cs) \<le> second_hi b
                  \<and> list_all cont_byte (take (n - 2) (tl cs))
          then n else 0)"

lemma rune_len_le: "rune_len s \<le> length s"
  by (simp add: rune_len_def Let_def split: list.split)

lemma rune_len_append: "0 < rune_len s \<Longrightarrow> rune_len (s @ t) = rune_len s"
proof (cases s)
  case (Cons c cs)
  assume pos: "0 < rune_len s"
  let ?n = "rune_need (byte c)"
  from pos Cons have n: "?n \<noteq> 0" "?n \<le> Suc (length cs)"
    by (auto simp: rune_len_def Let_def split: if_splits)
  show ?thesis
  proof (cases "?n = 1")
    case True
    then show ?thesis using Cons by (simp add: rune_len_def)
  next
    case False
    with n have ne: "cs \<noteq> []" by (cases cs) auto
    moreover have "take (?n - 2) (tl (cs @ t)) = take (?n - 2) (tl cs)"
      using n ne by (cases cs) auto
    ultimately show ?thesis using Cons n by (simp add: rune_len_def Let_def)
  qed
qed (simp add: rune_len_def)

function ValidString :: "string \<Rightarrow> bool" where
  "ValidString s =
     (if s = [] then True
      else if rune_len s = 0 then False
      else ValidString (drop (rune_len s) s))"
  by pat_completeness auto
termination
  by (relation "measure length") auto

declare ValidString.simps [simp del]

lemma ValidString_Nil [simp]: "ValidString []"
  by (simp add: ValidString.simps)

lemma ValidString_append: "ValidString s \<Longrightarrow> ValidString t \<Longrightarrow> ValidString (s @ t)"
proof (induction s rule: ValidString.induct)
  case (1 s)
  show ?case
  proof (cases "s = []")
    case True
    then show ?thesis using "1.prems" by simp
  next
    case False
    then have pos: "0 < rune_len s" and rest: "ValidString (drop (rune_len s) s)"
      using "1.prems"(1) by (simp_all add: ValidString.simps [of s] split: if_splits)
    have "ValidString (drop (rune_len s) s @ t)"
      using False pos rest "1.prems"(2) by (intro "1.IH") simp_all
    moreover have "drop (rune_len (s @ t)) (s @ t) = drop (rune_len s) s @ t"
      using pos rune_len_le [of s] by (simp add: rune_len_append)
    ultimately show ?thesis
      using pos by (simp add: ValidString.simps [of "s @ t"] rune_len_append)
  qed
qed

lemma ValidString_ascii: "list_all (\<lambda>c. byte c < 0x80) s \<Longrightarrow> ValidString s"
proof (induction s)
  case Nil
  show ?case by simp
next
  case (Cons c cs)
  then have "rune_len (c # cs) = 1" by (simp add: rune_len_def rune_need_def)
  with Cons show ?case by (subst ValidString.simps) simp
qed

text \<open>
  What \<open>encoding/json\<close> writes for a Go string: every byte that starts no valid rune becomes
  U+FFFD (three bytes), everything else is kept.  Decoding the file gives this string back.
\<close>

function json_coerce :: "string \<Rightarrow> string" where
  "json_coerce s =
     (if s = [] then []
      else if rune_len s = 0 then [CHR 0xEF, CHR 0xBF, CHR 0xBD] @ json_coerce (tl s)
      else take (rune_len s) s @ json_coerce (drop (rune_len s) s))"
  by pat_completeness auto
termination
  by (relation "measure length") auto

declare json_coerce.simps [simp del]

lemma json_coerce_Nil [simp]: "json_coerce [] = []"
  by (simp add: json_coerce.simps)

lemma json_coerce_valid: "ValidString s \<Longrightarrow> json_coerce s = s"
proof (induction s rule: ValidString.induct)
  case (1 s)
  show ?case
  proof (cases "s = []")
    case False
    then have pos: "0 < rune_len s" and rest: "ValidString (drop (rune_len s) s)"
      using "1.prems" by (simp_all add: ValidString.simps [of s] split: if_splits)
    have "json_coerce (drop (rune_len s) s) = drop (rune_len s) s"
      using False pos rest by (intro "1.IH") simp_all
    then show ?thesis
      using False pos by (subst json_coerce.simps) simp
  qed simp
qed

text \<open>
  The loop \<open>for cut > 0 && !utf8.ValidString(value[:cut]) { cut-- }\<close> the program uses to
  shorten a string without cutting a rune.
\<close>

fun valid_cut :: "string \<Rightarrow> nat \<Rightarrow> nat" where
  "valid_cut v 0 = 0"
| "valid_cut v (Suc n) = (if ValidString (take (Suc n) v) then Suc n else valid_cut v n)"

lemma valid_cut_le: "valid_cut v n \<le> n"
  by (induction n) auto

lemma valid_cut_valid: "ValidString (take (valid_cut v n) v)"
  by (induction n) auto

lemma valid_cut_greatest: "m \<le> n \<Longrightarrow> ValidString (take m v) \<Longrightarrow> m \<le> valid_cut v n"
  by (induction n) (auto simp: le_Suc_eq)

section \<open>Splitting and joining\<close>

text \<open>\<open>strings.Split(s, sep)\<close> for a separator of one byte.\<close>

fun split_at :: "char \<Rightarrow> string \<Rightarrow> string list" where
  "split_at c [] = [[]]"
| "split_at c (x # xs) =
     (if x = c then [] # split_at c xs
      else (case split_at c xs of [] \<Rightarrow> [[x]] | y # ys \<Rightarrow> (x # y) # ys))"

lemma split_at_nonempty [simp]: "split_at c xs \<noteq> []"
  by (induction xs) (auto split: list.splits)

lemma split_at_absent: "c \<notin> set xs \<Longrightarrow> split_at c xs = [xs]"
  by (induction xs) auto

lemma split_at_join:
  "c \<notin> set xs \<Longrightarrow> split_at c (xs @ c # ys) = xs # split_at c ys"
  by (induction xs) auto

lemma split_at_parts: "split_at c s = ps \<Longrightarrow> p \<in> set ps \<Longrightarrow> c \<notin> set p"
  by (induction s arbitrary: ps p) (force split: list.splits if_splits)+

lemma split_at_two: "split_at c s = [a, b] \<Longrightarrow> s = a @ c # b"
proof (induction s arbitrary: a)
  case Nil
  then show ?case by simp
next
  case (Cons x xs)
  show ?case
  proof (cases "x = c")
    case True
    with Cons.prems have "split_at c xs = [b]" and "a = []" by auto
    moreover have "xs = b" if "split_at c xs = [b]" for xs b
      using that
    proof (induction xs arbitrary: b)
      case (Cons y ys)
      then show ?case by (auto split: if_splits list.splits)
    qed simp
    ultimately show ?thesis using True by simp
  next
    case False
    with Cons.prems obtain a' where "split_at c xs = [a', b]" and "a = x # a'"
      by (auto split: list.splits)
    with Cons.IH show ?thesis by simp
  qed
qed

lemma join_inject:
  assumes "c \<notin> set a" and "c \<notin> set a'" and "a @ c # b = a' @ c # b'"
  shows "a = a' \<and> b = b'"
  using assms
proof (induction a arbitrary: a')
  case Nil
  then show ?case by (cases a') auto
next
  case (Cons x a)
  then show ?case by (cases a') auto
qed

section \<open>Decimal numbers\<close>

definition digit_char :: "nat \<Rightarrow> char" where
  "digit_char d = char_of (48 + d)"

definition is_digit :: "char \<Rightarrow> bool" where
  "is_digit c \<longleftrightarrow> 48 \<le> byte c \<and> byte c \<le> 57"

fun nat_digits :: "nat \<Rightarrow> string" where
  "nat_digits n =
     (if n < 10 then [digit_char n] else nat_digits (n div 10) @ [digit_char (n mod 10)])"

declare nat_digits.simps [simp del]

definition digits_val :: "string \<Rightarrow> nat" where
  "digits_val ds = foldl (\<lambda>n c. 10 * n + (byte c - 48)) 0 ds"

text \<open>\<open>strconv.Itoa\<close> and \<open>strconv.Atoi\<close>; \<open>int\<close> has 64 bits on the supported hosts.\<close>

definition Itoa :: "int \<Rightarrow> string" where
  "Itoa i = (if i < 0 then CHR ''-'' # nat_digits (nat (- i)) else nat_digits (nat i))"

definition int_range :: "int \<Rightarrow> bool" where
  "int_range v \<longleftrightarrow> - (2 ^ 63) \<le> v \<and> v < 2 ^ 63"

definition Atoi :: "string \<Rightarrow> int option" where
  "Atoi s =
     (let (neg, ds) =
        (case s of
           [] \<Rightarrow> (False, [])
         | c # r \<Rightarrow> if c = CHR ''-'' then (True, r)
                    else if c = CHR ''+'' then (False, r) else (False, s))
      in if ds = [] \<or> \<not> list_all is_digit ds then None
         else (let v = (if neg then - int (digits_val ds) else int (digits_val ds))
               in if int_range v then Some v else None))"

lemma byte_digit_char: "d < 10 \<Longrightarrow> byte (digit_char d) = 48 + d"
  by (simp add: byte_def digit_char_def)

lemma is_digit_digit_char: "d < 10 \<Longrightarrow> is_digit (digit_char d)"
  by (simp add: is_digit_def byte_digit_char)

lemma nat_digits_nonempty [simp]: "nat_digits n \<noteq> []"
  by (subst nat_digits.simps) simp

lemma nat_digits_digits: "list_all is_digit (nat_digits n)"
proof (induction n rule: nat_digits.induct)
  case (1 n)
  then show ?case by (subst nat_digits.simps) (auto simp: is_digit_digit_char)
qed

lemma digits_val_snoc: "digits_val (ds @ [c]) = 10 * digits_val ds + (byte c - 48)"
  by (simp add: digits_val_def)

lemma digits_val_nat_digits: "digits_val (nat_digits n) = n"
proof (induction n rule: nat_digits.induct)
  case (1 n)
  show ?case
  proof (cases "n < 10")
    case True
    then show ?thesis
      by (subst nat_digits.simps) (simp add: digits_val_def byte_digit_char)
  next
    case False
    then have "digits_val (nat_digits (n div 10)) = n div 10" by (rule "1.IH")
    with False show ?thesis
      by (subst nat_digits.simps) (simp add: digits_val_snoc byte_digit_char)
  qed
qed

lemma digit_not: "is_digit c \<Longrightarrow> c \<noteq> CHR ''-'' \<and> c \<noteq> CHR ''+'' \<and> c \<noteq> CHR ''.''"
  by (auto simp: is_digit_def byte_def)

lemma Atoi_Itoa: "0 \<le> i \<Longrightarrow> int_range i \<Longrightarrow> Atoi (Itoa i) = Some i"
proof -
  assume pos: "0 \<le> i" and rng: "int_range i"
  obtain c r where cr: "nat_digits (nat i) = c # r"
    by (cases "nat_digits (nat i)") auto
  then have "is_digit c" and "is_digit c \<and> list_all is_digit r"
    using nat_digits_digits [of "nat i"] by auto
  moreover have "digits_val (c # r) = nat i"
    using digits_val_nat_digits [of "nat i"] cr by simp
  ultimately show ?thesis
    using pos rng cr digit_not [of c] by (simp add: Itoa_def Atoi_def)
qed

lemma Itoa_no_dot: "0 \<le> i \<Longrightarrow> CHR ''.'' \<notin> set (Itoa i)"
  using nat_digits_digits [of "nat i"] digit_not
  by (auto simp: Itoa_def list_all_iff)

section \<open>Lower case\<close>

text \<open>
  \<open>strings.ToLower\<close>, as far as a comparison of its result with an ASCII word can tell: ASCII
  capitals become small letters, and the two other characters whose lower case is ASCII are
  \<open>U+0130\<close> (to \<open>i\<close>) and \<open>U+212A\<close> (to \<open>k\<close>).  Other non-ASCII characters stay outside ASCII and are kept.
\<close>

definition lower_char :: "char \<Rightarrow> char" where
  "lower_char c = (if 65 \<le> byte c \<and> byte c \<le> 90 then char_of (byte c + 32) else c)"

fun ToLower :: "string \<Rightarrow> string" where
  "ToLower [] = []"
| "ToLower (c # s) =
     (if take 2 (c # s) = [CHR 0xC4, CHR 0xB0] then CHR ''i'' # ToLower (drop 1 s)
      else if take 3 (c # s) = [CHR 0xE2, CHR 0x84, CHR 0xAA] then CHR ''k'' # ToLower (drop 2 s)
      else lower_char c # ToLower s)"

end
