(* ===== verification/Prelude.thy ===== *)
theory Prelude
  imports Go_Strings "HOL-Library.AList" "HOL-Library.Multiset" "HOL-Library.Word"
begin

text \<open>
  What the components share.

  A Go map is an association list with distinct keys (\<open>gomap\<close>): reading is \<^const>\<open>map_of\<close>,
  storing \<^const>\<open>AList.update\<close>, deleting \<^const>\<open>AList.delete\<close>, \<open>len\<close> the length.  The order
  of the list stands for the order in which a \<open>range\<close> loop of that run visits the map, which
  Go leaves open; a theorem that holds for every list holds for every iteration order.

  A file that is rewritten as a whole (the journals and the queue of the daemon) is a
  \<open>durable\<close> value: what the process holds in memory, and what a restart would read.
  \<open>commit\<close> is the code's idiom \<open>persist(next)\<close>, return on error, then expose \<open>next\<close>.

  The locales are the contracts several components share: a set of states closed under the
  steps of a machine (\<open>step_invariant\<close>) and the write-before-expose discipline
  (\<open>write_ahead\<close>).
\<close>

section \<open>Collections of proof rules\<close>

named_theorems gomap_intros \<open>operations that keep the keys of a map distinct\<close>
named_theorems inv_defs \<open>the components' invariants, unfolded\<close>

type_synonym ('k, 'v) gomap = "('k \<times> 'v) list"
type_synonym nanos = int
type_synonym seconds = int
type_synonym uint64 = "64 word"

section \<open>Go maps\<close>

definition gomap :: "('k, 'v) gomap \<Rightarrow> bool" where
  "gomap m \<longleftrightarrow> distinct (map fst m)"

lemma gomap_Nil [simp, gomap_intros]: "gomap []"
  by (simp add: gomap_def)

lemma gomap_update [gomap_intros]: "gomap m \<Longrightarrow> gomap (AList.update k v m)"
  by (simp add: gomap_def distinct_update)

lemma gomap_delete [gomap_intros]: "gomap m \<Longrightarrow> gomap (AList.delete k m)"
  by (simp add: gomap_def distinct_delete)

lemma gomap_filter [gomap_intros]: "gomap m \<Longrightarrow> gomap (filter P m)"
  by (simp add: gomap_def distinct_map_filter)

lemma gomap_map_value [gomap_intros]: "gomap m \<Longrightarrow> gomap (map (\<lambda>(k, v). (k, f k v)) m)"
  by (simp add: gomap_def comp_def case_prod_beta)

lemma gomap_mem: "gomap m \<Longrightarrow> (k, v) \<in> set m \<longleftrightarrow> map_of m k = Some v"
  by (simp add: gomap_def)

lemma gomap_key_inject: "gomap m \<Longrightarrow> (k, v) \<in> set m \<Longrightarrow> (k, w) \<in> set m \<Longrightarrow> v = w"
  by (simp add: gomap_mem)

lemma map_of_update [simp]: "map_of (AList.update k v m) = (map_of m)(k \<mapsto> v)"
  by (simp add: AList.update_conv')

lemma map_of_delete_fun [simp]: "map_of (AList.delete k m) = (map_of m)(k := None)"
  by (simp add: AList.delete_conv')

lemma set_update_gomap:
  "gomap m \<Longrightarrow> set (AList.update k v m) = insert (k, v) {p \<in> set m. fst p \<noteq> k}"
proof -
  assume m: "gomap m"
  then have u: "gomap (AList.update k v m)" by (rule gomap_update)
  have "(a, b) \<in> set (AList.update k v m)
        \<longleftrightarrow> (a, b) \<in> insert (k, v) {p \<in> set m. fst p \<noteq> k}" for a b
    using gomap_mem [OF u, of a b] gomap_mem [OF m, of a b] by auto
  then show ?thesis by auto
qed

lemma set_delete_gomap: "set (AList.delete k m) = {p \<in> set m. fst p \<noteq> k}"
  by (auto simp: AList.delete_eq)

lemma length_update:
  "length (AList.update k v m) = (if k \<in> fst ` set m then length m else Suc (length m))"
  by (induction m) auto

lemma length_update_le: "length (AList.update k v m) \<le> Suc (length m)"
  by (simp add: length_update)

lemma length_delete:
  assumes "gomap m"
  shows "length (AList.delete k m) = (if k \<in> fst ` set m then length m - 1 else length m)"
proof -
  have "map fst (AList.delete k m) = removeAll k (map fst m)"
    by (rule AList.delete_keys)
  also have "\<dots> = remove1 k (map fst m)"
    using assms by (simp add: gomap_def distinct_remove1_removeAll)
  finally have "length (AList.delete k m) = length (remove1 k (map fst m))"
    by (metis length_map)
  then show ?thesis by (auto simp: length_remove1)
qed

lemma dom_gomap: "dom (map_of m) = fst ` set m"
  by (rule dom_map_of_conv_image_fst)

lemma map_of_in_set: "map_of m k = Some v \<Longrightarrow> (k, v) \<in> set m"
  by (rule map_of_SomeD)

lemma gomap_same_set:
  "gomap m \<Longrightarrow> gomap m' \<Longrightarrow> map_of m = map_of m' \<Longrightarrow> set m = set m'"
  by (simp add: gomap_def map_of_inject_set)

text \<open>Filtering and counting the values of a map.\<close>

lemma length_filter_update:
  "length (filter (\<lambda>p. P (snd p)) (AList.update k v m))
         \<le> length (filter (\<lambda>p. P (snd p)) m) + (if P v then 1 else 0)"
  by (induction m) auto

lemma length_filter_update_mono:
  assumes "map_of m k = Some w" and "P v \<Longrightarrow> P w"
  shows "length (filter (\<lambda>p. P (snd p)) (AList.update k v m))
         \<le> length (filter (\<lambda>p. P (snd p)) m)"
  using assms by (induction m) (auto split: if_splits)

definition count_items :: "('v \<Rightarrow> bool) \<Rightarrow> ('k, 'v) gomap \<Rightarrow> nat" where
  "count_items P m = length (filter (\<lambda>p. P (snd p)) m)"

lemma count_update_le: "count_items P (AList.update k v m) \<le> count_items P m + (if P v then 1 else 0)"
  unfolding count_items_def by (rule length_filter_update)

lemma count_update_mono:
  "map_of m k = Some w \<Longrightarrow> (P v \<Longrightarrow> P w) \<Longrightarrow> count_items P (AList.update k v m) \<le> count_items P m"
  unfolding count_items_def by (rule length_filter_update_mono)

lemma count_filter_le: "count_items P (filter Q m) \<le> count_items P m"
  by (induction m) (auto simp: count_items_def)

lemma count_map_mono:
  "(\<And>k v. P (f k v) \<Longrightarrow> P v) \<Longrightarrow> count_items P (map (\<lambda>(k, v). (k, f k v)) m) \<le> count_items P m"
  by (induction m) (auto simp: count_items_def le_Suc_eq)

lemma count_zero: "count_items P m = 0 \<longleftrightarrow> (\<forall>(k, v) \<in> set m. \<not> P v)"
  by (auto simp: count_items_def filter_empty_conv)

lemma count_one_inject:
  assumes "count_items P m \<le> 1" and "(k, v) \<in> set m" "P v" and "(k', v') \<in> set m" "P v'"
  shows "(k, v) = (k', v')"
proof -
  obtain x where "set (filter (\<lambda>p. P (snd p)) m) \<subseteq> {x}"
    using assms(1) by (cases "filter (\<lambda>p. P (snd p)) m") (auto simp: count_items_def)
  moreover have "{(k, v), (k', v')} \<subseteq> set (filter (\<lambda>p. P (snd p)) m)"
    using assms(2-) by simp
  ultimately have "{(k, v), (k', v')} \<subseteq> {x}" by blast
  then show ?thesis by simp
qed

lemma map_of_map_value:
  "map_of (map (\<lambda>(k, v). (k, f k v)) m) k = map_option (f k) (map_of m k)"
  by (induction m) auto

lemma filter_delete: "AList.delete k (filter P m) = filter P (AList.delete k m)"
  by (simp add: AList.delete_eq conj_commute)

lemma find_unique:
  assumes "x \<in> set xs" and "P x" and "\<And>y. y \<in> set xs \<Longrightarrow> P y \<Longrightarrow> y = x"
  shows "List.find P xs = Some x"
proof (cases "List.find P xs")
  case None
  then show ?thesis using assms(1,2) by (auto simp: find_None_iff)
next
  case (Some y)
  then have "y \<in> set xs" "P y" by (auto simp: find_Some_iff)
  then show ?thesis using Some assms(3) by simp
qed

lemma filter_length_mono: "(\<And>x. x \<in> set xs \<Longrightarrow> P x \<Longrightarrow> Q x) \<Longrightarrow> length (filter P xs) \<le> length (filter Q xs)"
  by (induction xs) (auto simp: le_Suc_eq)

lemma find_mem: "List.find P xs = Some x \<Longrightarrow> x \<in> set xs \<and> P x"
  by (auto simp: find_Some_iff set_conv_nth)

lemma find_snoc:
  "List.find P (xs @ [x]) = (case List.find P xs of Some y \<Rightarrow> Some y
     | None \<Rightarrow> if P x then Some x else None)"
  by (induction xs) auto

text \<open>Sorting the values of a map.\<close>

lemma distinct_map_sort_key [simp]:
  "distinct (map f (sort_key g xs)) \<longleftrightarrow> distinct (map f xs)"
  by (rule mset_eq_imp_distinct_iff) (metis mset_map mset_sort)

lemma keys_of_values:
  assumes "gomap m" and "\<forall>(k, v) \<in> set m. key v = k"
  shows "distinct (map key (map snd m))"
proof -
  have "map key (map snd m) = map fst m" using assms(2) by (induction m) auto
  then show ?thesis using assms(1) by (simp only: gomap_def)
qed

text \<open>Writing the values of a map in some sorted order and indexing them again.\<close>

lemma map_of_sorted:
  assumes "gomap m" and "\<forall>(k, v) \<in> set m. key v = k"
  shows "map_of (map (\<lambda>v. (key v, f v)) (sort_key g (map snd m))) k = map_option f (map_of m k)"
proof -
  let ?l = "map (\<lambda>v. (key v, v)) (sort_key g (map snd m))"
  have "gomap ?l" using keys_of_values [OF assms] by (simp add: gomap_def comp_def)
  moreover have "set ?l = set m" using assms(2) by force
  ultimately have "map_of ?l = map_of m"
    using assms(1) by (simp add: gomap_def map_of_inject_set)
  moreover have "map_of (map (\<lambda>v. (key v, f v)) xs) k
      = map_option f (map_of (map (\<lambda>v. (key v, v)) xs) k)" for xs
    by (induction xs) auto
  ultimately show ?thesis by simp
qed

lemma nth_upd: "xs[i := x] ! j = (if i = j \<and> i < length xs then x else xs ! j)"
  by (cases "i < length xs") (auto simp: nth_list_update list_update_beyond)

lemma update_new: "map_of m k = None \<Longrightarrow> AList.update k v m = m @ [(k, v)]"
  by (induction m) (auto split: if_splits)

text \<open>The separator the code puts between the parts of a composite key.\<close>

definition NUL :: char where
  "NUL = CHR 0x00"

section \<open>Files that are replaced as a whole\<close>

text \<open>
  The steps of \<open>writeFileAtomic\<close> and of the encoding before it.  A fault is the first step
  that fails.  Every step up to the rename leaves the old file; the permission change after
  the rename can still fail when the new file is in place.
\<close>

datatype persist_step =
    Marshal | SizeLimit | MkdirAll | CreateTemp | ChmodTemp | WriteTemp | SyncTemp | CloseTemp
  | RenameTemp | ChmodFinal

fun leaves_old_file :: "persist_step \<Rightarrow> bool" where
  "leaves_old_file ChmodFinal = False"
| "leaves_old_file _ = True"

definition persist :: "persist_step option \<Rightarrow> 'd \<Rightarrow> 'd \<Rightarrow> 'd \<times> persist_step option" where
  "persist fault new old =
     (case fault of
        None \<Rightarrow> (new, None)
      | Some f \<Rightarrow> (if leaves_old_file f then old else new, Some f))"

text \<open>
  What the operating system shows of a path when a component starts: no file, a file whose
  status, size, permissions or bytes cannot be used, bytes that are not JSON of the right
  shape, or a decoded document.
\<close>

datatype 'f file_source = NoFile | Unreadable | NotJSON | Decoded 'f

record ('m, 'f) durable =
  mem :: 'm
  disk :: 'f

definition commit ::
  "('m \<Rightarrow> 'f) \<Rightarrow> persist_step option \<Rightarrow> 'm \<Rightarrow> ('m, 'f) durable
   \<Rightarrow> ('m, 'f) durable \<times> persist_step option" where
  "commit encode fault new d =
     (let (content, err) = persist fault (encode new) (disk d)
      in (case err of
            Some e \<Rightarrow> (d\<lparr>disk := content\<rparr>, Some e)
          | None \<Rightarrow> (d\<lparr>mem := new, disk := content\<rparr>, None)))"

lemma commit_ok [simp]:
  "commit enc None new d = (d\<lparr>mem := new, disk := enc new\<rparr>, None)"
  by (simp add: commit_def persist_def)

lemma commit_fault:
  "commit enc (Some f) new d
   = (d\<lparr>disk := if leaves_old_file f then disk d else enc new\<rparr>, Some f)"
  by (simp add: commit_def persist_def)

lemma commit_error [simp]: "snd (commit enc fault new d) = fault"
  by (cases fault) (simp_all add: commit_fault)

lemma commit_cases:
  obtains (ok) "fault = None"
      "commit enc fault new d = (d\<lparr>mem := new, disk := enc new\<rparr>, None)"
  | (kept) f where "fault = Some f" "commit enc fault new d = (d, Some f)"
  | (replaced) "fault = Some ChmodFinal"
      "commit enc fault new d = (d\<lparr>disk := enc new\<rparr>, Some ChmodFinal)"
proof (cases fault)
  case None
  then show ?thesis using ok by simp
next
  case (Some f)
  show ?thesis
  proof (cases "leaves_old_file f")
    case True
    then show ?thesis using Some kept [of f] by (simp add: commit_fault)
  next
    case False
    then have "f = ChmodFinal" by (cases f) auto
    then show ?thesis using Some replaced by (simp add: commit_fault)
  qed
qed

section \<open>Results\<close>

text \<open>A Go function that returns a value and an error: \<open>Inl\<close> the error, \<open>Inr\<close> the value.\<close>

definition and_then :: "'e + 'a \<Rightarrow> ('a \<Rightarrow> 'e + 'b) \<Rightarrow> 'e + 'b" where
  "and_then r f = (case r of Inl e \<Rightarrow> Inl e | Inr x \<Rightarrow> f x)"

lemma and_then_simps [simp]:
  "and_then (Inl e) f = Inl e"
  "and_then (Inr x) f = f x"
  by (simp_all add: and_then_def)

lemma and_then_Inr: "and_then r f = Inr y \<longleftrightarrow> (\<exists>x. r = Inr x \<and> f x = Inr y)"
  by (cases r) auto

definition guard :: "bool \<Rightarrow> 'e \<Rightarrow> 'e + unit" where
  "guard b e = (if b then Inr () else Inl e)"

lemma guard_Inr [simp]: "guard b e = Inr u \<longleftrightarrow> b"
  by (simp add: guard_def)

section \<open>Machines and their invariants\<close>

locale step_invariant =
  fixes step :: "'s \<Rightarrow> 's \<Rightarrow> bool"
    and inv :: "'s \<Rightarrow> bool"
  assumes step_keeps: "inv s \<Longrightarrow> step s t \<Longrightarrow> inv t"
begin

lemma steps_keep: "step\<^sup>*\<^sup>* s t \<Longrightarrow> inv s \<Longrightarrow> inv t"
proof (induction rule: rtranclp_induct)
  case base
  then show ?case .
next
  case (step y z)
  then show ?case using step_keeps by blast
qed

end

text \<open>
  The write-before-expose discipline of the durable components: \<open>content\<close> reads the durable
  part of a state, \<open>step\<close> is one call of an operation (with whatever the file system does),
  \<open>encode\<close> is the file format, \<open>ok_mem\<close> and \<open>ok_file\<close> say what memory and file must satisfy.
  A call changes memory only together with the file, and it writes the encoding of a good
  memory; so memory and file stay good after any sequence of calls, at whatever point a crash
  interrupts it.
\<close>

locale write_ahead =
  fixes content :: "'s \<Rightarrow> ('m, 'f) durable"
    and step :: "'s \<Rightarrow> 's \<Rightarrow> bool"
    and encode :: "'m \<Rightarrow> 'f"
    and ok_mem :: "'m \<Rightarrow> bool"
    and ok_file :: "'f \<Rightarrow> bool"
  assumes ahead:
      "ok_mem (mem (content s)) \<Longrightarrow> step s t \<Longrightarrow>
       \<exists>new. ok_mem new
         \<and> (mem (content t) = mem (content s)
            \<or> mem (content t) = new \<and> disk (content t) = encode new)
         \<and> (disk (content t) = disk (content s) \<or> disk (content t) = encode new)"
    and encode_ok: "ok_mem m \<Longrightarrow> ok_file (encode m)"
begin

definition both_ok :: "'s \<Rightarrow> bool" where
  "both_ok s \<longleftrightarrow> ok_mem (mem (content s)) \<and> ok_file (disk (content s))"

lemma both_ok_step: "both_ok s \<Longrightarrow> step s t \<Longrightarrow> both_ok t"
proof -
  assume ok: "both_ok s" and st: "step s t"
  from ok have "ok_mem (mem (content s))" by (simp add: both_ok_def)
  then obtain new where new: "ok_mem new"
    and m: "mem (content t) = mem (content s) \<or> mem (content t) = new"
    and f: "disk (content t) = disk (content s) \<or> disk (content t) = encode new"
    using ahead [OF _ st] by blast
  show "both_ok t"
    using ok new m f encode_ok [OF new] unfolding both_ok_def by auto
qed

end

sublocale write_ahead \<subseteq> durable_inv: step_invariant step both_ok
  by unfold_locales (rule both_ok_step)

context write_ahead
begin

lemma crash_safe:
  assumes "step\<^sup>*\<^sup>* s t" and "ok_mem (mem (content s))" and "ok_file (disk (content s))"
  shows "ok_mem (mem (content t)) \<and> ok_file (disk (content t))"
  using durable_inv.steps_keep [OF assms(1)] assms(2,3) by (simp add: both_ok_def)

end

end
