(* ===== verification/Prompt_State.thy ===== *)
theory Prompt_State
  imports Prelude
begin

text \<open>
  The daemon's in-memory prompt state, \<open>daemon/cmd/daemon/prompt_state.go\<close>: the bounded
  acceptance cache (a ring buffer of keys with a map beside it) and the per-session locks that
  serialize sends.  The cache is shown to refine a plain first-in-first-out list; the locks
  are a step relation over threads, with mutual exclusion and absence of leaks as invariants.
\<close>

section \<open>The acceptance cache\<close>

record acceptedPrompt =
  ap_prompt :: string

record promptAcceptanceCache =
  pc_max :: int
  pc_entries :: "(string, acceptedPrompt) gomap"
  pc_order :: "string list"
  pc_next :: nat

datatype prompt_status_error = StatusClientMsgIDRequired | PromptOutcomeIndeterminate

definition maxAcceptedPromptIDs :: int where
  "maxAcceptedPromptIDs = 4096"

definition maxAcceptedPromptEchoBytes :: nat where
  "maxAcceptedPromptEchoBytes = 4096"

definition newPromptAcceptanceCache :: "int \<Rightarrow> promptAcceptanceCache" where
  "newPromptAcceptanceCache mx =
     \<lparr>pc_max = (if mx \<le> 0 then maxAcceptedPromptIDs else mx), pc_entries = [], pc_order = [],
      pc_next = 0\<rparr>"

definition promptCacheKey :: "(string \<Rightarrow> string) \<Rightarrow> string \<Rightarrow> string \<Rightarrow> string" where
  "promptCacheKey h sessionID clientMsgID = h (sessionID @ NUL # clientMsgID)"

definition boundedPromptEcho :: "string \<Rightarrow> string" where
  "boundedPromptEcho prompt =
     (if length prompt \<le> maxAcceptedPromptEchoBytes then prompt
      else take (valid_cut prompt (maxAcceptedPromptEchoBytes - 3)) prompt @ ''...'')"

definition cache_get ::
  "(string \<Rightarrow> string) \<Rightarrow> promptAcceptanceCache \<Rightarrow> string \<Rightarrow> string \<Rightarrow> acceptedPrompt option" where
  "cache_get h c sessionID clientMsgID =
     (if clientMsgID = [] then None
      else map_of (pc_entries c) (promptCacheKey h sessionID clientMsgID))"

definition cache_add ::
  "(string \<Rightarrow> string) \<Rightarrow> string \<Rightarrow> string \<Rightarrow> acceptedPrompt \<Rightarrow> promptAcceptanceCache
   \<Rightarrow> promptAcceptanceCache" where
  "cache_add h sessionID clientMsgID r c =
     (if clientMsgID = [] then c
      else (let key = promptCacheKey h sessionID clientMsgID
            in if map_of (pc_entries c) key \<noteq> None then c
               else (let r = r\<lparr>ap_prompt := boundedPromptEcho (ap_prompt r)\<rparr>;
                         c = (if int (length (pc_order c)) < pc_max c
                              then c\<lparr>pc_order := pc_order c @ [key]\<rparr>
                              else c\<lparr>pc_entries := AList.delete (pc_order c ! pc_next c) (pc_entries c),
                                     pc_order := (pc_order c)[pc_next c := key],
                                     pc_next := nat ((int (pc_next c) + 1) mod pc_max c)\<rparr>)
                     in c\<lparr>pc_entries := AList.update key r (pc_entries c)\<rparr>)))"

definition promptStatus ::
  "(string \<Rightarrow> string) \<Rightarrow> promptAcceptanceCache \<Rightarrow> string \<Rightarrow> string
   \<Rightarrow> prompt_status_error + acceptedPrompt" where
  "promptStatus h c sessionID clientMsgID =
     (if clientMsgID = [] then Inl StatusClientMsgIDRequired
      else (case cache_get h c sessionID clientMsgID of
              Some accepted \<Rightarrow> Inr accepted
            | None \<Rightarrow> Inl PromptOutcomeIndeterminate))"

section \<open>The cache as a list\<close>

text \<open>
  The specification: entries in order of arrival, the oldest first, at most \<open>mx\<close> of them.
\<close>

definition fifo_add :: "nat \<Rightarrow> 'k \<Rightarrow> 'v \<Rightarrow> ('k \<times> 'v) list \<Rightarrow> ('k \<times> 'v) list" where
  "fifo_add mx key v xs =
     (if key \<in> fst ` set xs then xs
      else (if length xs < mx then xs else tl xs) @ [(key, v)])"

definition arrival :: "promptAcceptanceCache \<Rightarrow> string list" where
  "arrival c = drop (pc_next c) (pc_order c) @ take (pc_next c) (pc_order c)"

definition cache_abs :: "promptAcceptanceCache \<Rightarrow> (string \<times> acceptedPrompt) list" where
  "cache_abs c = map (\<lambda>k. (k, the (map_of (pc_entries c) k))) (arrival c)"

definition cache_inv :: "promptAcceptanceCache \<Rightarrow> bool" where
  "cache_inv c \<longleftrightarrow>
     0 < pc_max c \<and> int (length (pc_order c)) \<le> pc_max c \<and> distinct (pc_order c)
     \<and> gomap (pc_entries c) \<and> set (pc_order c) = fst ` set (pc_entries c)
     \<and> int (pc_next c) < pc_max c \<and> (int (length (pc_order c)) < pc_max c \<longrightarrow> pc_next c = 0)"

lemma length_arrival [simp]: "length (arrival c) = length (pc_order c)"
  by (simp add: arrival_def)

lemma distinct_arrival: "distinct (pc_order c) \<Longrightarrow> distinct (arrival c)"
  unfolding arrival_def by (metis append_take_drop_id distinct_append inf_commute)

lemma cache_inv_new: "cache_inv (newPromptAcceptanceCache mx)"
  by (simp add: cache_inv_def newPromptAcceptanceCache_def maxAcceptedPromptIDs_def)

lemma map_of_keys_None: "map_of m k = None \<longleftrightarrow> k \<notin> fst ` set m"
  by (rule map_of_eq_None_iff)

lemma rotate_ring:
  assumes "n < length xs"
  shows "drop (Suc n mod length xs) (xs[n := x]) @ take (Suc n mod length xs) (xs[n := x])
         = drop (Suc n) xs @ take n xs @ [x]"
proof (cases "Suc n = length xs")
  case True
  then show ?thesis
    using assms by (simp add: take_Suc_conv_app_nth upd_conv_take_nth_drop)
next
  case False
  then have "Suc n < length xs" using assms by simp
  then show ?thesis
    using assms by (simp add: take_Suc_conv_app_nth)
qed

lemma ring_full:
  assumes "cache_inv c" and "\<not> int (length (pc_order c)) < pc_max c"
  shows "pc_next c < length (pc_order c)" and "pc_max c = int (length (pc_order c))"
    and "arrival c = pc_order c ! pc_next c # drop (Suc (pc_next c)) (pc_order c) @ take (pc_next c) (pc_order c)"
proof -
  show m: "pc_max c = int (length (pc_order c))" and n: "pc_next c < length (pc_order c)"
    using assms by (auto simp: cache_inv_def)
  show "arrival c = pc_order c ! pc_next c # drop (Suc (pc_next c)) (pc_order c) @ take (pc_next c) (pc_order c)"
    using n by (simp add: arrival_def Cons_nth_drop_Suc)
qed

lemma add_full_inv:
  assumes inv: "cache_inv c" and full: "\<not> int (length (pc_order c)) < pc_max c"
    and new: "map_of (pc_entries c) key = None"
    and c': "c' = c\<lparr>pc_order := (pc_order c)[pc_next c := key],
              pc_next := nat ((int (pc_next c) + 1) mod pc_max c),
              pc_entries := AList.update key r (AList.delete (pc_order c ! pc_next c) (pc_entries c))\<rparr>"
  shows "cache_inv c'" and "cache_abs c' = tl (cache_abs c) @ [(key, r)]"
proof -
  note ring = ring_full [OF inv full]
  let ?old = "pc_order c ! pc_next c"
  have dist: "distinct (pc_order c)" and keys: "set (pc_order c) = fst ` set (pc_entries c)"
    and gm: "gomap (pc_entries c)"
    using inv by (simp_all add: cache_inv_def)
  have fresh: "key \<notin> set (pc_order c)" using new keys by (simp add: map_of_keys_None)
  have old: "?old \<in> set (pc_order c)" using ring(1) by simp
  have nx: "nat ((int (pc_next c) + 1) mod pc_max c) = Suc (pc_next c) mod length (pc_order c)"
    unfolding ring(2) by (metis Suc_eq_plus1 nat_int of_nat_Suc of_nat_mod of_nat_1 of_nat_add)
  have set': "set ((pc_order c)[pc_next c := key]) = insert key (set (pc_order c) - {?old})"
    using set_update_distinct [OF dist ring(1)] by simp
  have ks: "fst ` set (AList.update key r (AList.delete ?old (pc_entries c)))
      = insert key (fst ` set (pc_entries c) - {?old})"
    by (simp flip: dom_map_of_conv_image_fst)
  show "cache_inv c'"
    using inv dist fresh ring set' ks keys nx
    by (simp add: cache_inv_def c' gomap_intros gm distinct_list_update)
  have "arrival c' = tl (arrival c) @ [key]"
    using rotate_ring [OF ring(1), of key] ring(3) by (simp add: arrival_def c' nx)
  moreover have "the (map_of (pc_entries c') k) = the (map_of (pc_entries c) k)"
    if "k \<in> set (tl (arrival c))" for k
  proof -
    have "k \<in> set (pc_order c)"
      using that ring(3) by (auto dest!: in_set_dropD in_set_takeD)
    moreover have "k \<noteq> ?old" using that ring(3) distinct_arrival [OF dist] by auto
    ultimately have "k \<noteq> key" "k \<noteq> ?old" using fresh by auto
    then show ?thesis by (simp add: c')
  qed
  moreover have "the (map_of (pc_entries c') key) = r" by (simp add: c')
  ultimately show "cache_abs c' = tl (cache_abs c) @ [(key, r)]"
    by (simp add: cache_abs_def flip: map_tl)
qed

lemma add_room_inv:
  assumes inv: "cache_inv c" and room: "int (length (pc_order c)) < pc_max c"
    and new: "map_of (pc_entries c) key = None"
    and c': "c' = c\<lparr>pc_order := pc_order c @ [key], pc_entries := AList.update key r (pc_entries c)\<rparr>"
  shows "cache_inv c'" and "cache_abs c' = cache_abs c @ [(key, r)]"
proof -
  have keys: "set (pc_order c) = fst ` set (pc_entries c)" and gm: "gomap (pc_entries c)"
    and nx: "pc_next c = 0" using inv room by (simp_all add: cache_inv_def)
  have fresh: "key \<notin> set (pc_order c)" using new keys by (simp add: map_of_keys_None)
  have "fst ` set (AList.update key r (pc_entries c)) = insert key (fst ` set (pc_entries c))"
    by (simp flip: dom_map_of_conv_image_fst)
  then show "cache_inv c'"
    using inv room fresh keys nx by (simp add: cache_inv_def c' gomap_intros gm)
  show "cache_abs c' = cache_abs c @ [(key, r)]"
    using nx fresh by (auto simp: cache_abs_def arrival_def c')
qed

lemma cache_add_cases:
  assumes "cache_inv c"
  obtains (same) "cache_add h s m r c = c"
      "m = [] \<or> promptCacheKey h s m \<in> fst ` set (cache_abs c)"
  | (added) "m \<noteq> []" "promptCacheKey h s m \<notin> fst ` set (cache_abs c)"
      "cache_inv (cache_add h s m r c)"
      "cache_abs (cache_add h s m r c) =
         (if int (length (cache_abs c)) < pc_max c then cache_abs c else tl (cache_abs c))
         @ [(promptCacheKey h s m, r\<lparr>ap_prompt := boundedPromptEcho (ap_prompt r)\<rparr>)]"
      "pc_max (cache_add h s m r c) = pc_max c"
proof -
  let ?key = "promptCacheKey h s m"
  have "set (arrival c) = set (pc_order c)"
    unfolding arrival_def by (metis append_take_drop_id set_append sup_commute)
  then have keys: "fst ` set (cache_abs c) = fst ` set (pc_entries c)"
    using assms by (auto simp: cache_abs_def cache_inv_def image_image)
  have len: "length (cache_abs c) = length (pc_order c)"
    by (simp add: cache_abs_def arrival_def)
  show thesis
  proof (cases "m = [] \<or> map_of (pc_entries c) ?key \<noteq> None")
    case True
    then show thesis
    proof (intro same)
      show "cache_add h s m r c = c" using True by (cases "m = []") (simp_all add: cache_add_def)
      show "m = [] \<or> ?key \<in> fst ` set (cache_abs c)"
        using True by (auto simp: keys map_of_keys_None)
    qed
  next
    case False
    then have new: "map_of (pc_entries c) ?key = None" and m: "m \<noteq> []" by auto
    show thesis
    proof (cases "int (length (pc_order c)) < pc_max c")
      case True
      note a = add_room_inv [OF assms True new refl, of "r\<lparr>ap_prompt := boundedPromptEcho (ap_prompt r)\<rparr>"]
      show thesis
        by (rule added) (use m new a True keys len in
            \<open>simp_all add: cache_add_def Let_def map_of_keys_None\<close>)
    next
      case False
      note a = add_full_inv [OF assms False new refl, of "r\<lparr>ap_prompt := boundedPromptEcho (ap_prompt r)\<rparr>"]
      show thesis
        by (rule added) (use m new a False keys len in
            \<open>simp_all add: cache_add_def Let_def map_of_keys_None\<close>)
    qed
  qed
qed

text \<open>C35. The ring buffer is a bounded first-in-first-out cache: adding a prompt acts on the
  list of entries in arrival order as the specification says.  A known id and an empty id change
  nothing, a new id goes to the end, and only a full cache evicts, always its oldest entry; the
  cache never exceeds its size.\<close>

theorem cache_add_refines:
  assumes "cache_inv c"
  shows "cache_inv (cache_add h s m r c)
    \<and> cache_abs (cache_add h s m r c) =
        (if m = [] then cache_abs c
         else fifo_add (nat (pc_max c)) (promptCacheKey h s m)
                (r\<lparr>ap_prompt := boundedPromptEcho (ap_prompt r)\<rparr>) (cache_abs c))
    \<and> int (length (cache_abs (cache_add h s m r c))) \<le> pc_max c"
  using assms
proof (cases rule: cache_add_cases [of c h s m r])
  case same
  have "int (length (cache_abs c)) \<le> pc_max c"
    using assms by (simp add: cache_abs_def cache_inv_def)
  then show ?thesis using same assms by (auto simp: fifo_add_def)
next
  case added
  have "int (length (cache_abs (cache_add h s m r c))) \<le> pc_max c"
    using added(3,5) by (simp add: cache_abs_def cache_inv_def)
  then show ?thesis using added by (auto simp: fifo_add_def zless_nat_eq_int_zless)
qed

lemma cache_get_abs:
  assumes "cache_inv c"
  shows "cache_get h c s m = (if m = [] then None else map_of (cache_abs c) (promptCacheKey h s m))"
proof -
  have keys: "set (arrival c) = fst ` set (pc_entries c)"
    using assms unfolding arrival_def cache_inv_def
    by (metis append_take_drop_id set_append sup_commute)
  have "map_of (map (\<lambda>k. (k, the (map_of e k))) xs) k = (if k \<in> set xs then map_of e k else None)"
    if "set xs \<subseteq> dom (map_of e)" for e :: "(string, acceptedPrompt) gomap" and xs k
    using that by (induction xs) auto
  from this [of "arrival c" "pc_entries c"] show ?thesis
    using keys by (auto simp: cache_get_def cache_abs_def dom_map_of_conv_image_fst map_of_keys_None)
qed

text \<open>An accepted prompt can be acknowledged again: right after it was added it is found with
  its bounded echo, and it stays found while at most \<open>max - 1\<close> further prompts are added.\<close>

theorem cache_keeps_recent:
  assumes "cache_inv c" and "m \<noteq> []" and "cache_get h c s m = None"
    and "int (length adds) < pc_max c"
  shows "promptStatus h (fold (\<lambda>(s', m', r'). cache_add h s' m' r') adds (cache_add h s m r c)) s m
         = Inr (r\<lparr>ap_prompt := boundedPromptEcho (ap_prompt r)\<rparr>)"
proof -
  let ?key = "promptCacheKey h s m"
  let ?e = "(?key, r\<lparr>ap_prompt := boundedPromptEcho (ap_prompt r)\<rparr>)"
  have step: "\<exists>pre post. cache_abs (fold (\<lambda>(s', m', r'). cache_add h s' m' r') adds c') = pre @ ?e # post
        \<and> cache_inv (fold (\<lambda>(s', m', r'). cache_add h s' m' r') adds c')"
    if "cache_inv c'" "cache_abs c' = pre @ ?e # post" "int (length post) + int (length adds) < pc_max c'"
    for c' adds pre post
    using that
  proof (induction adds arbitrary: c' pre post)
    case (Cons a adds)
    obtain s' m' r' where a: "a = (s', m', r')" by (cases a)
    show ?case
      using Cons.prems(1)
    proof (cases rule: cache_add_cases [of c' h s' m' r'])
      case same
      then show ?thesis using Cons.IH [OF Cons.prems(1,2)] Cons.prems(3) a by simp
    next
      case added
      let ?c = "cache_add h s' m' r' c'"
      have "\<exists>pre' x. cache_abs ?c = pre' @ ?e # post @ [x]"
      proof (cases "int (length (cache_abs c')) < pc_max c'")
        case True
        then show ?thesis using added(4) Cons.prems(2) by auto
      next
        case False
        then have "pre \<noteq> []" using Cons.prems(2,3) by auto
        then show ?thesis using added(4) Cons.prems(2) False by auto
      qed
      then obtain pre' x where "cache_abs ?c = pre' @ ?e # post @ [x]" by blast
      from Cons.IH [OF added(3) this] show ?thesis using Cons.prems(3) added(5) a by simp
    qed
  qed auto
  from assms(1) have "\<exists>pre. cache_abs (cache_add h s m r c) = pre @ [?e]"
    and "cache_inv (cache_add h s m r c) \<and> pc_max (cache_add h s m r c) = pc_max c"
    using assms(2,3) cache_get_abs [OF assms(1), of h s m]
    by (cases rule: cache_add_cases [of c h s m r]; auto simp: map_of_keys_None)+
  then obtain pre where p: "cache_abs (cache_add h s m r c) = pre @ ?e # []"
    and i: "cache_inv (cache_add h s m r c)" "pc_max (cache_add h s m r c) = pc_max c" by auto
  obtain pre' post' where fin: "cache_abs (fold (\<lambda>(s', m', r'). cache_add h s' m' r') adds (cache_add h s m r c)) = pre' @ ?e # post'"
    and finv: "cache_inv (fold (\<lambda>(s', m', r'). cache_add h s' m' r') adds (cache_add h s m r c))"
    using step [OF i(1) p, of adds] i(2) assms(4) by auto
  let ?f = "fold (\<lambda>(s', m', r'). cache_add h s' m' r') adds (cache_add h s m r c)"
  have "distinct (map fst (cache_abs ?f))"
    using finv distinct_arrival [of ?f] by (simp add: cache_abs_def cache_inv_def comp_def)
  moreover have "(?key, snd ?e) \<in> set (cache_abs ?f)" using fin by simp
  ultimately have "map_of (cache_abs ?f) ?key = Some (snd ?e)" by simp
  then show ?thesis using assms(2) cache_get_abs [OF finv] by (simp add: promptStatus_def)
qed

text \<open>A full cache of size two, so the next add evicts.\<close>

definition demo_cache :: promptAcceptanceCache where
  "demo_cache =
     fold (\<lambda>m. cache_add id ''s'' m \<lparr>ap_prompt = m\<rparr>) [''a'', ''b''] (newPromptAcceptanceCache 2)"

lemma demo_cache_inv: "cache_inv demo_cache"
  by code_simp

theorem cache_add_refines_witness:
  "cache_abs (cache_add id ''s'' ''c'' \<lparr>ap_prompt = ''c''\<rparr> demo_cache)
   = fifo_add 2 (promptCacheKey id ''s'' ''c'') \<lparr>ap_prompt = boundedPromptEcho ''c''\<rparr> (cache_abs demo_cache)
   \<and> int (length (cache_abs (cache_add id ''s'' ''c'' \<lparr>ap_prompt = ''c''\<rparr> demo_cache))) \<le> 2"
proof -
  have "pc_max demo_cache = 2" by code_simp
  then show ?thesis
    using cache_add_refines [OF demo_cache_inv, of id "''s''" "''c''" "\<lparr>ap_prompt = ''c''\<rparr>"] by force
qed

theorem cache_keeps_recent_witness:
  "promptStatus id (cache_add id ''s'' ''d'' \<lparr>ap_prompt = ''d''\<rparr>
      (cache_add id ''s'' ''c'' \<lparr>ap_prompt = ''c''\<rparr> demo_cache)) ''s'' ''c''
   = Inr \<lparr>ap_prompt = boundedPromptEcho ''c''\<rparr>"
proof -
  have "cache_get id demo_cache ''s'' ''c'' = None" "pc_max demo_cache = 2" by code_simp+
  then show ?thesis
    using cache_keeps_recent [OF demo_cache_inv, of "''c''" id "''s''"
        "[(''s'', ''d'', \<lparr>ap_prompt = ''d''\<rparr>)]" "\<lparr>ap_prompt = ''c''\<rparr>"] by simp
qed

section \<open>Session locks\<close>

text \<open>
  \<open>sessionLockMap.lock\<close> and the function it returns, interleaved.  The map holds lock objects
  by identity (\<open>lm_locks\<close> maps a session id to an object), because an entry that is deleted and
  created again is a different mutex.  A thread is idle, waits for the mutex of an entry whose
  reference it has counted, holds it, or has unlocked it and still has to drop its reference.
  Each constructor of \<open>thread_pc\<close> carries the object and the session id; each section under
  \<open>m.mu\<close> is one step.
\<close>

record sessionLock =
  sl_refs :: nat
  sl_holder :: "nat option"

datatype thread_pc = Idle | Waiting nat string | Holding nat string | Dropping nat string

record sessionLockMap =
  lm_locks :: "string \<Rightarrow> nat option"
  lm_heap :: "nat \<Rightarrow> sessionLock"
  lm_next :: nat
  lm_pcs :: "thread_pc list"

definition newSessionLockMap :: "nat \<Rightarrow> sessionLockMap" where
  "newSessionLockMap threads =
     \<lparr>lm_locks = (\<lambda>_. None), lm_heap = (\<lambda>_. \<lparr>sl_refs = 0, sl_holder = None\<rparr>), lm_next = 0,
      lm_pcs = replicate threads Idle\<rparr>"

text \<open>The section under \<open>m.mu\<close> of \<open>lock\<close>: find or create the entry and count the reference.\<close>

definition lock_enter :: "nat \<Rightarrow> string \<Rightarrow> sessionLockMap \<Rightarrow> sessionLockMap" where
  "lock_enter t s m =
     (case lm_locks m s of
        Some e \<Rightarrow>
          m\<lparr>lm_heap := (lm_heap m)(e := (lm_heap m e)\<lparr>sl_refs := sl_refs (lm_heap m e) + 1\<rparr>),
            lm_pcs := (lm_pcs m)[t := Waiting e s]\<rparr>
      | None \<Rightarrow>
          m\<lparr>lm_locks := (lm_locks m)(s \<mapsto> lm_next m),
            lm_heap := (lm_heap m)(lm_next m := \<lparr>sl_refs = 1, sl_holder = None\<rparr>),
            lm_next := lm_next m + 1,
            lm_pcs := (lm_pcs m)[t := Waiting (lm_next m) s]\<rparr>)"

definition lock_take :: "nat \<Rightarrow> nat \<Rightarrow> string \<Rightarrow> sessionLockMap \<Rightarrow> sessionLockMap" where
  "lock_take t e s m =
     m\<lparr>lm_heap := (lm_heap m)(e := (lm_heap m e)\<lparr>sl_holder := Some t\<rparr>),
       lm_pcs := (lm_pcs m)[t := Holding e s]\<rparr>"

definition lock_release :: "nat \<Rightarrow> nat \<Rightarrow> string \<Rightarrow> sessionLockMap \<Rightarrow> sessionLockMap" where
  "lock_release t e s m =
     m\<lparr>lm_heap := (lm_heap m)(e := (lm_heap m e)\<lparr>sl_holder := None\<rparr>),
       lm_pcs := (lm_pcs m)[t := Dropping e s]\<rparr>"

definition lock_drop :: "nat \<Rightarrow> nat \<Rightarrow> string \<Rightarrow> sessionLockMap \<Rightarrow> sessionLockMap" where
  "lock_drop t e s m =
     (let refs = sl_refs (lm_heap m e) - 1;
          m = m\<lparr>lm_heap := (lm_heap m)(e := (lm_heap m e)\<lparr>sl_refs := refs\<rparr>),
                lm_pcs := (lm_pcs m)[t := Idle]\<rparr>
      in if refs = 0 then m\<lparr>lm_locks := (lm_locks m)(s := None)\<rparr> else m)"

inductive lock_step :: "sessionLockMap \<Rightarrow> sessionLockMap \<Rightarrow> bool" where
  enter: "t < length (lm_pcs m) \<Longrightarrow> lm_pcs m ! t = Idle \<Longrightarrow> lock_step m (lock_enter t s m)"
| take: "t < length (lm_pcs m) \<Longrightarrow> lm_pcs m ! t = Waiting e s \<Longrightarrow> sl_holder (lm_heap m e) = None
    \<Longrightarrow> lock_step m (lock_take t e s m)"
| release: "t < length (lm_pcs m) \<Longrightarrow> lm_pcs m ! t = Holding e s \<Longrightarrow> lock_step m (lock_release t e s m)"
| drop: "t < length (lm_pcs m) \<Longrightarrow> lm_pcs m ! t = Dropping e s \<Longrightarrow> lock_step m (lock_drop t e s m)"

fun uses :: "nat \<Rightarrow> string \<Rightarrow> thread_pc \<Rightarrow> bool" where
  "uses e s Idle = False"
| "uses e s (Waiting e' s') = (e' = e \<and> s' = s)"
| "uses e s (Holding e' s') = (e' = e \<and> s' = s)"
| "uses e s (Dropping e' s') = (e' = e \<and> s' = s)"

definition users :: "nat \<Rightarrow> string \<Rightarrow> thread_pc list \<Rightarrow> nat" where
  "users e s pcs = length (filter (uses e s) pcs)"

text \<open>
  An entry is in the map exactly as long as some thread uses it, with the number of its users
  as its reference count; no thread uses an object that is not the current entry of its
  session; the holder is the thread that holds.
\<close>

definition lock_inv :: "sessionLockMap \<Rightarrow> bool" where
  "lock_inv m \<longleftrightarrow>
     (\<forall>s e. lm_locks m s = Some e \<longrightarrow>
        e < lm_next m \<and> sl_refs (lm_heap m e) = users e s (lm_pcs m) \<and> 0 < users e s (lm_pcs m)
        \<and> (\<forall>s'. lm_locks m s' = Some e \<longrightarrow> s' = s))
     \<and> (\<forall>t < length (lm_pcs m). \<forall>e s. uses e s (lm_pcs m ! t) \<longrightarrow> lm_locks m s = Some e)
     \<and> (\<forall>t < length (lm_pcs m). \<forall>e s. lm_pcs m ! t = Holding e s \<longrightarrow>
          sl_holder (lm_heap m e) = Some t)"

lemma users_update:
  "t < length pcs \<Longrightarrow>
   users e s (pcs[t := x]) + (if uses e s (pcs ! t) then 1 else 0)
   = users e s pcs + (if uses e s x then 1 else 0)"
proof (induction pcs arbitrary: t)
  case (Cons p pcs)
  then show ?case by (cases t) (auto simp: users_def)
qed simp

lemma users_pos: "t < length pcs \<Longrightarrow> uses e s (pcs ! t) \<Longrightarrow> 0 < users e s pcs"
  unfolding users_def by (metis filter_empty_conv length_greater_0_conv nth_mem)

lemma users_zero: "users e s pcs = 0 \<longleftrightarrow> (\<forall>t < length pcs. \<not> uses e s (pcs ! t))"
  unfolding users_def by (auto simp: filter_empty_conv all_set_conv_all_nth)

lemma uses_pc:
  "uses e s p \<longleftrightarrow> p = Waiting e s \<or> p = Holding e s \<or> p = Dropping e s"
  by (cases p) auto

lemma lock_inv_new: "lock_inv (newSessionLockMap n)"
  by (simp add: lock_inv_def newSessionLockMap_def)

lemma lock_invD:
  assumes "lock_inv m"
  shows "lm_locks m s = Some e \<Longrightarrow> e < lm_next m"
    and "lm_locks m s = Some e \<Longrightarrow> sl_refs (lm_heap m e) = users e s (lm_pcs m)"
    and "lm_locks m s = Some e \<Longrightarrow> 0 < users e s (lm_pcs m)"
    and "lm_locks m s = Some e \<Longrightarrow> lm_locks m s' = Some e \<Longrightarrow> s' = s"
    and "t < length (lm_pcs m) \<Longrightarrow> uses e s (lm_pcs m ! t) \<Longrightarrow> lm_locks m s = Some e"
    and "t < length (lm_pcs m) \<Longrightarrow> lm_pcs m ! t = Holding e s \<Longrightarrow> sl_holder (lm_heap m e) = Some t"
  using assms unfolding lock_inv_def by blast+

text \<open>
  The steps that only move a thread along one entry keep the users of every entry.
\<close>

lemma lock_move:
  assumes inv: "lock_inv m" and t: "t < length (lm_pcs m)" and u: "uses e s (lm_pcs m ! t)"
    and p: "uses e s p"
    and h: "\<And>t' s'. t' < length (lm_pcs m) \<Longrightarrow> t' \<noteq> t \<Longrightarrow> lm_pcs m ! t' \<noteq> Holding e s'"
    and hold: "\<And>s'. p = Holding e s' \<Longrightarrow> holder = Some t"
    and m': "m' = m\<lparr>lm_heap := (lm_heap m)(e := (lm_heap m e)\<lparr>sl_holder := holder\<rparr>),
                    lm_pcs := (lm_pcs m)[t := p]\<rparr>"
  shows "lock_inv m'"
proof -
  have only: "uses e' s' (lm_pcs m ! t) \<longleftrightarrow> e' = e \<and> s' = s"
    "uses e' s' p \<longleftrightarrow> e' = e \<and> s' = s" for e' s'
    using u p by (auto simp: uses_pc)
  have us: "users e' s' (lm_pcs m') = users e' s' (lm_pcs m)" for e' s'
    using users_update [OF t, of e' s' p] only [of e' s'] m' by (auto split: if_splits)
  have f: "lm_locks m' = lm_locks m" "lm_next m' = lm_next m"
    "sl_refs (lm_heap m' e') = sl_refs (lm_heap m e')" "length (lm_pcs m') = length (lm_pcs m)" for e'
    using m' by simp_all
  have "lm_locks m' s' = Some e'" if "t' < length (lm_pcs m')" "uses e' s' (lm_pcs m' ! t')" for t' e' s'
  proof (cases "t' = t")
    case True
    then have "e' = e \<and> s' = s" using that m' t only(2) by simp
    then show ?thesis using lock_invD(5) [OF inv t u] f(1) by simp
  next
    case False
    then show ?thesis using that m' lock_invD(5) [OF inv, of t'] f(1) by simp
  qed
  moreover have "sl_holder (lm_heap m' e') = Some t'"
    if "t' < length (lm_pcs m')" "lm_pcs m' ! t' = Holding e' s'" for t' e' s'
  proof (cases "t' = t")
    case True
    then have "p = Holding e' s'" "e' = e" using that m' t only(2) [of e' s'] by auto
    then show ?thesis using m' True hold by simp
  next
    case False
    then have hp: "lm_pcs m ! t' = Holding e' s'" and t': "t' < length (lm_pcs m)" using that m' by auto
    then have "e' \<noteq> e" using h [OF t' False] by auto
    then show ?thesis using m' lock_invD(6) [OF inv t' hp] by simp
  qed
  ultimately show ?thesis
    unfolding lock_inv_def us f using lock_invD(1-4) [OF inv] by blast
qed

lemma users_enter:
  assumes "t < length pcs" and "pcs ! t = Idle"
  shows "users e' s' (pcs[t := Waiting e s]) = users e' s' pcs + (if e' = e \<and> s' = s then 1 else 0)"
  using users_update [OF assms(1), of e' s' "Waiting e s"] assms(2) by auto

lemma users_drop:
  assumes "t < length pcs" and "pcs ! t = Dropping e s"
  shows "users e' s' (pcs[t := Idle]) = users e' s' pcs - (if e' = e \<and> s' = s then 1 else 0)"
  using users_update [OF assms(1), of e' s' Idle] assms(2) by (auto split: if_splits)

lemma lock_inv_enter:
  assumes inv: "lock_inv m" and t: "t < length (lm_pcs m)" and idle: "lm_pcs m ! t = Idle"
  shows "lock_inv (lock_enter t s m)"
proof (cases "lm_locks m s")
  case (Some e)
  let ?m = "lock_enter t s m"
  have m': "lm_locks ?m = lm_locks m" "lm_next ?m = lm_next m"
    "lm_heap ?m = (lm_heap m)(e := (lm_heap m e)\<lparr>sl_refs := sl_refs (lm_heap m e) + 1\<rparr>)"
    "lm_pcs ?m = (lm_pcs m)[t := Waiting e s]"
    using Some by (simp_all add: lock_enter_def)
  note us = users_enter [OF t idle, of _ _ e s]
  show ?thesis
    unfolding lock_inv_def m' length_list_update
  proof (intro conjI allI impI)
    fix s1 e1
    assume l: "lm_locks m s1 = Some e1"
    have eq: "e1 = e \<longleftrightarrow> s1 = s" using lock_invD(4) [OF inv] Some l by auto
    show "e1 < lm_next m" by (rule lock_invD(1) [OF inv l])
    show "sl_refs (((lm_heap m)(e := (lm_heap m e)\<lparr>sl_refs := sl_refs (lm_heap m e) + 1\<rparr>)) e1)
        = users e1 s1 ((lm_pcs m)[t := Waiting e s])"
      using lock_invD(2) [OF inv l] eq us by auto
    show "0 < users e1 s1 ((lm_pcs m)[t := Waiting e s])"
      using lock_invD(3) [OF inv l] us by simp
    show "s2 = s1" if "lm_locks m s2 = Some e1" for s2 using lock_invD(4) [OF inv l that] by simp
  next
    fix t1 e1 s1
    assume "t1 < length (lm_pcs m)" "uses e1 s1 ((lm_pcs m)[t := Waiting e s] ! t1)"
    then show "lm_locks m s1 = Some e1"
      using lock_invD(5) [OF inv] Some t by (cases "t1 = t") auto
  next
    fix t1 e1 s1
    assume "t1 < length (lm_pcs m)" "(lm_pcs m)[t := Waiting e s] ! t1 = Holding e1 s1"
    then show "sl_holder (((lm_heap m)(e := (lm_heap m e)\<lparr>sl_refs := sl_refs (lm_heap m e) + 1\<rparr>)) e1) = Some t1"
      using lock_invD(6) [OF inv] t by (cases "t1 = t") auto
  qed
next
  case None
  let ?m = "lock_enter t s m"
  let ?n = "lm_next m"
  have m': "lm_locks ?m = (lm_locks m)(s \<mapsto> ?n)" "lm_next ?m = ?n + 1"
    "lm_heap ?m = (lm_heap m)(?n := \<lparr>sl_refs = 1, sl_holder = None\<rparr>)"
    "lm_pcs ?m = (lm_pcs m)[t := Waiting ?n s]"
    using None by (simp_all add: lock_enter_def)
  note us = users_enter [OF t idle, of _ _ ?n s]
  have un: "\<not> uses ?n s1 (lm_pcs m ! t1)" if "t1 < length (lm_pcs m)" for t1 s1
    using lock_invD(5) [OF inv that, of ?n s1] lock_invD(1) [OF inv, of s1 ?n] by auto
  then have zero: "users ?n s1 (lm_pcs m) = 0" for s1 by (simp add: users_zero)
  have old: "e1 \<noteq> ?n" if "lm_locks m s1 = Some e1" for s1 e1 using lock_invD(1) [OF inv that] by simp
  show ?thesis
    unfolding lock_inv_def m' length_list_update
  proof (intro conjI allI impI)
    fix s1 e1
    assume l: "((lm_locks m)(s \<mapsto> ?n)) s1 = Some e1"
    show "e1 < ?n + 1" using l lock_invD(1) [OF inv, of s1 e1] by (auto split: if_splits)
    show "sl_refs (((lm_heap m)(?n := \<lparr>sl_refs = 1, sl_holder = None\<rparr>)) e1)
        = users e1 s1 ((lm_pcs m)[t := Waiting ?n s])"
      using l us zero old lock_invD(2) [OF inv, of s1 e1] by (auto split: if_splits)
    show "0 < users e1 s1 ((lm_pcs m)[t := Waiting ?n s])"
      using l us lock_invD(3) [OF inv, of s1 e1] by (auto split: if_splits)
    show "s2 = s1" if "((lm_locks m)(s \<mapsto> ?n)) s2 = Some e1" for s2
      using l that old lock_invD(4) [OF inv, of s1 e1 s2] by (auto split: if_splits)
  next
    fix t1 e1 s1
    assume t1: "t1 < length (lm_pcs m)" and u: "uses e1 s1 ((lm_pcs m)[t := Waiting ?n s] ! t1)"
    show "((lm_locks m)(s \<mapsto> ?n)) s1 = Some e1"
    proof (cases "t1 = t")
      case True
      then show ?thesis using u t by simp
    next
      case False
      then have "lm_locks m s1 = Some e1" using u lock_invD(5) [OF inv t1] by simp
      then show ?thesis using None by auto
    qed
  next
    fix t1 e1 s1
    assume t1: "t1 < length (lm_pcs m)" and h: "(lm_pcs m)[t := Waiting ?n s] ! t1 = Holding e1 s1"
    then have "t1 \<noteq> t" using t by auto
    then have h': "lm_pcs m ! t1 = Holding e1 s1" using h by simp
    then have "e1 \<noteq> ?n" using un [OF t1, of s1] by auto
    then show "sl_holder (((lm_heap m)(?n := \<lparr>sl_refs = 1, sl_holder = None\<rparr>)) e1) = Some t1"
      using lock_invD(6) [OF inv t1 h'] by simp
  qed
qed

lemma lock_inv_drop:
  assumes inv: "lock_inv m" and t: "t < length (lm_pcs m)" and d: "lm_pcs m ! t = Dropping e s"
  shows "lock_inv (lock_drop t e s m)"
proof -
  let ?m = "lock_drop t e s m"
  let ?r = "sl_refs (lm_heap m e) - 1"
  have l: "lm_locks m s = Some e" using lock_invD(5) [OF inv t, of e s] d by simp
  note us = users_drop [OF t d]
  have refs: "?r = users e s ((lm_pcs m)[t := Idle])" using lock_invD(2) [OF inv l] us by simp
  have m': "lm_locks ?m = (if ?r = 0 then (lm_locks m)(s := None) else lm_locks m)"
    "lm_next ?m = lm_next m" "lm_heap ?m = (lm_heap m)(e := (lm_heap m e)\<lparr>sl_refs := ?r\<rparr>)"
    "lm_pcs ?m = (lm_pcs m)[t := Idle]"
    by (simp_all add: lock_drop_def Let_def)
  have sub: "lm_locks m s1 = Some e1 \<and> (s1 = s \<longrightarrow> 0 < ?r)" if "lm_locks ?m s1 = Some e1" for s1 e1
    using that m'(1) by (auto split: if_splits)
  show ?thesis
    unfolding lock_inv_def m'(2-4) length_list_update
  proof (intro conjI allI impI)
    fix s1 e1
    assume l1: "lm_locks ?m s1 = Some e1"
    note o = sub [OF l1, THEN conjunct1]
    have eq: "e1 = e \<longleftrightarrow> s1 = s" using lock_invD(4) [OF inv] l o by auto
    show "e1 < lm_next m" by (rule lock_invD(1) [OF inv o])
    show "sl_refs (((lm_heap m)(e := (lm_heap m e)\<lparr>sl_refs := ?r\<rparr>)) e1)
        = users e1 s1 ((lm_pcs m)[t := Idle])"
      using lock_invD(2) [OF inv o] eq us refs by auto
    show "0 < users e1 s1 ((lm_pcs m)[t := Idle])"
      using lock_invD(3) [OF inv o] eq us refs sub [OF l1] by (cases "s1 = s") auto
    show "s2 = s1" if "lm_locks ?m s2 = Some e1" for s2
      using lock_invD(4) [OF inv o] sub [OF that] by simp
  next
    fix t1 e1 s1
    assume t1: "t1 < length (lm_pcs m)" and u: "uses e1 s1 ((lm_pcs m)[t := Idle] ! t1)"
    then have "t1 \<noteq> t" using t by auto
    then have u': "uses e1 s1 (lm_pcs m ! t1)" using u by simp
    have "?r \<noteq> 0" if "s1 = s"
    proof -
      have "e1 = e" using lock_invD(5) [OF inv t1 u'] l that by simp
      then show ?thesis using refs users_pos [of t1 "(lm_pcs m)[t := Idle]" e s] t1 u that by simp
    qed
    then show "lm_locks ?m s1 = Some e1" using m'(1) lock_invD(5) [OF inv t1 u'] by auto
  next
    fix t1 e1 s1
    assume t1: "t1 < length (lm_pcs m)" and h: "(lm_pcs m)[t := Idle] ! t1 = Holding e1 s1"
    then have "t1 \<noteq> t" using t by auto
    then show "sl_holder (((lm_heap m)(e := (lm_heap m e)\<lparr>sl_refs := ?r\<rparr>)) e1) = Some t1"
      using h lock_invD(6) [OF inv t1] by auto
  qed
qed

lemma lock_step_inv: "lock_inv m \<Longrightarrow> lock_step m m' \<Longrightarrow> lock_inv m'"
proof (erule lock_step.cases)
  fix m'' t e s
  assume inv: "lock_inv m" and m: "m = m''" "m' = lock_take t e s m''"
    and t: "t < length (lm_pcs m'')" "lm_pcs m'' ! t = Waiting e s" "sl_holder (lm_heap m'' e) = None"
  show "lock_inv m'"
    by (rule lock_move [of m t e s "Holding e s" "Some t"])
      (use inv m t lock_invD(6) [OF inv] in \<open>auto simp: lock_take_def\<close>)
next
  fix m'' t e s
  assume inv: "lock_inv m" and m: "m = m''" "m' = lock_release t e s m''"
    and t: "t < length (lm_pcs m'')" "lm_pcs m'' ! t = Holding e s"
  have mine: "sl_holder (lm_heap m e) = Some t"
    by (rule lock_invD(6) [OF inv]) (use m(1) t in simp_all)
  have "lm_pcs m ! t' \<noteq> Holding e s'" if "t' < length (lm_pcs m)" "t' \<noteq> t" for t' s'
  proof
    assume "lm_pcs m ! t' = Holding e s'"
    then have "sl_holder (lm_heap m e) = Some t'" by (rule lock_invD(6) [OF inv that(1)])
    then show False using mine that(2) by simp
  qed
  moreover have "m' = m\<lparr>lm_heap := (lm_heap m)(e := (lm_heap m e)\<lparr>sl_holder := None\<rparr>),
                    lm_pcs := (lm_pcs m)[t := Dropping e s]\<rparr>"
    using m by (simp add: lock_release_def)
  moreover have "t < length (lm_pcs m)" "uses e s (lm_pcs m ! t)" using m(1) t by simp_all
  ultimately show "lock_inv m'"
    using lock_move [OF inv, of t e s "Dropping e s" None m'] by simp
qed (auto intro: lock_inv_enter lock_inv_drop)

interpretation locks: step_invariant lock_step lock_inv
  by unfold_locales (rule lock_step_inv)

text \<open>C33. Sends of one session are serialized.  In every interleaving of the locking steps of any
  number of threads, two threads inside the critical section of the same session are the same
  thread, although entries are deleted and created again while others wait.\<close>

theorem session_lock_exclusive:
  assumes "lock_step\<^sup>*\<^sup>* (newSessionLockMap n) m"
    and "t < length (lm_pcs m)" "lm_pcs m ! t = Holding e s"
    and "t' < length (lm_pcs m)" "lm_pcs m ! t' = Holding e' s"
  shows "t = t'"
proof -
  have inv: "lock_inv m" by (rule locks.steps_keep [OF assms(1) lock_inv_new])
  have "lm_locks m s = Some e" "lm_locks m s = Some e'"
    using lock_invD(5) [OF inv assms(2), of e s] lock_invD(5) [OF inv assms(4), of e' s] assms(3,5)
    by simp_all
  then have "e = e'" by simp
  then show ?thesis
    using lock_invD(6) [OF inv assms(2,3)] lock_invD(6) [OF inv assms(4,5)] by simp
qed

text \<open>The lock map does not leak: it holds an entry for a session only while some thread waits
  for, holds or is dropping that session's lock.\<close>

theorem session_lock_no_leak:
  assumes "lock_step\<^sup>*\<^sup>* (newSessionLockMap n) m" and "lm_locks m s = Some e"
  shows "\<exists>t < length (lm_pcs m). uses e s (lm_pcs m ! t)"
proof -
  have inv: "lock_inv m" by (rule locks.steps_keep [OF assms(1) lock_inv_new])
  show ?thesis using lock_invD(3) [OF inv assms(2)] users_zero [of e s "lm_pcs m"] by auto
qed

definition demo_locked :: sessionLockMap where
  "demo_locked = lock_take 0 0 ''s'' (lock_enter 1 ''s'' (lock_enter 0 ''s'' (newSessionLockMap 2)))"

lemma demo_locked_reach: "lock_step\<^sup>*\<^sup>* (newSessionLockMap 2) demo_locked"
proof -
  let ?a = "newSessionLockMap 2"
  let ?b = "lock_enter 0 ''s'' ?a"
  let ?c = "lock_enter 1 ''s'' ?b"
  have "lock_step ?a ?b" by (rule enter) (simp_all add: newSessionLockMap_def)
  moreover have "lock_step ?b ?c"
    by (rule enter) (simp_all add: newSessionLockMap_def lock_enter_def)
  moreover have "lock_step ?c demo_locked"
    unfolding demo_locked_def
    by (rule take) (simp_all add: newSessionLockMap_def lock_enter_def)
  ultimately show ?thesis by (meson converse_rtranclp_into_rtranclp rtranclp.rtrancl_refl)
qed

lemma demo_locked_pcs: "lm_pcs demo_locked = [Holding 0 ''s'', Waiting 0 ''s'']" "lm_locks demo_locked ''s'' = Some 0"
  by (simp_all add: demo_locked_def newSessionLockMap_def lock_enter_def lock_take_def numeral_2_eq_2)

theorem session_lock_exclusive_witness:
  "lm_pcs demo_locked ! 0 = Holding 0 ''s'' \<and> lm_pcs demo_locked ! 1 \<noteq> Holding 0 ''s''"
  using session_lock_exclusive [OF demo_locked_reach, of 0 0 "''s''" 1 0] demo_locked_pcs(1) by auto

theorem session_lock_no_leak_witness:
  "\<exists>t < length (lm_pcs demo_locked). uses 0 ''s'' (lm_pcs demo_locked ! t)"
  by (rule session_lock_no_leak [OF demo_locked_reach demo_locked_pcs(2)])

end
