(* ===== verification/Prompt_Journal.thy ===== *)
theory Prompt_Journal
  imports Prompt_State "HOL-Library.Char_ord" "HOL-Library.List_Lexorder"
    "HOL-Library.Product_Lexorder"
begin

text \<open>
  The daemon's durable prompt journal, \<open>daemon/cmd/daemon/prompt_journal.go\<close>: the source of
  truth for whether a prompt may be handed to a native agent.

  \<open>promptJournal\<close> is the Go struct; its map and its file are the two halves of a
  \<^typ>\<open>('m, 'f) durable\<close>.  Every operation takes the clock reading it makes and the fault the
  file system shows for its one write.  SHA-256 is the parameter \<open>sha\<close> (the hexadecimal
  digest of a string).  The theorems: the invariant \<open>pj_wf\<close> of memory and file under every
  operation and every fault, reading back what was written, and at-most-once dispatch of a
  command across crashes and restarts.
\<close>

section \<open>Data\<close>

datatype promptJournalStatus =
    promptJournalDispatching | promptJournalAccepted | promptJournalCommitted
  | promptJournalIndeterminate | promptJournalOther string

record promptJournalRecord =
  jr_Key :: string
  jr_SessionID :: string
  jr_ClientMsgID :: string
  jr_LegacyOpaque :: bool
  jr_Status :: promptJournalStatus
  jr_PromptEcho :: string
  jr_UpdatedAt :: nanos

record promptJournalDisk =
  jd_Version :: int
  jd_DeviceHash :: string
  jd_Records :: "promptJournalRecord list"

type_synonym journal_map = "(string, promptJournalRecord) gomap"

record promptJournal =
  pj_deviceHash :: string
  pj_max :: int
  pj_data :: "(journal_map, promptJournalDisk) durable"

datatype journal_error =
    SessionIDRequired | ClientMsgIDRequired | SessionIDInvalid | ClientMsgIDInvalid
  | AlreadyRecorded promptJournalStatus | RecordNotFound
  | CannotRollBack promptJournalStatus
  | CannotTransition promptJournalStatus promptJournalStatus
  | InvalidTransition promptJournalStatus
  | JournalFull | TooManyUnresolved | PersistFailed persist_step
  | ReadFailed | ParseFailed | UnsupportedVersion int | OtherDevice
  | InvalidKey | PartialIdentifiers | InvalidIdentifiers journal_error | KeyMismatch
  | InvalidStatus string | DuplicateKey

definition promptJournalVersion :: int where
  "promptJournalVersion = 2"

definition maxPromptJournalEchoBytes :: int where
  "maxPromptJournalEchoBytes = 512"

definition maxJournalSessionIDBytes :: nat where
  "maxJournalSessionIDBytes = 512"

definition maxJournalClientMsgIDBytes :: nat where
  "maxJournalClientMsgIDBytes = 256"

section \<open>Keys and identifiers\<close>

definition deviceHash :: "(string \<Rightarrow> string) \<Rightarrow> string \<Rightarrow> string" where
  "deviceHash sha deviceID = sha deviceID"

definition is_hex :: "char \<Rightarrow> bool" where
  "is_hex c \<longleftrightarrow> (48 \<le> byte c \<and> byte c \<le> 57) \<or> (97 \<le> byte c \<and> byte c \<le> 102)
             \<or> (65 \<le> byte c \<and> byte c \<le> 70)"

definition validJournalKey :: "string \<Rightarrow> bool" where
  "validJournalKey key \<longleftrightarrow> length key = 64 \<and> list_all is_hex key"

definition promptJournalKeyFromHash ::
  "(string \<Rightarrow> string) \<Rightarrow> string \<Rightarrow> string \<Rightarrow> string \<Rightarrow> string" where
  "promptJournalKeyFromHash sha deviceIDHash sessionID clientMsgID =
     sha (deviceIDHash @ NUL # sessionID @ NUL # clientMsgID)"

definition boundedUTF8 :: "string \<Rightarrow> int \<Rightarrow> string" where
  "boundedUTF8 v maxBytes =
     (if maxBytes \<le> 0 then []
      else if int (length v) \<le> maxBytes then v
      else (let suffix = ''...''; cut = maxBytes - int (length suffix)
            in if cut \<le> 0 then take (nat maxBytes) suffix
               else take (valid_cut v (nat cut)) v @ suffix))"

definition validateJournalIdentifiers :: "string \<Rightarrow> string \<Rightarrow> journal_error option" where
  "validateJournalIdentifiers sessionID clientMsgID =
     (if TrimSpace sessionID = [] then Some SessionIDRequired
      else if TrimSpace clientMsgID = [] then Some ClientMsgIDRequired
      else if length sessionID > maxJournalSessionIDBytes \<or> \<not> ValidString sessionID
      then Some SessionIDInvalid
      else if length clientMsgID > maxJournalClientMsgIDBytes \<or> \<not> ValidString clientMsgID
      then Some ClientMsgIDInvalid
      else None)"

section \<open>The file\<close>

text \<open>
  \<open>persistRecords\<close> writes the records sorted by time and key; the strings go through
  \<open>encoding/json\<close>.
\<close>

definition json_record :: "promptJournalRecord \<Rightarrow> promptJournalRecord" where
  "json_record r =
     r\<lparr>jr_Key := json_coerce (jr_Key r), jr_SessionID := json_coerce (jr_SessionID r),
       jr_ClientMsgID := json_coerce (jr_ClientMsgID r),
       jr_PromptEcho := json_coerce (jr_PromptEcho r)\<rparr>"

definition encodeRecords :: "string \<Rightarrow> journal_map \<Rightarrow> promptJournalDisk" where
  "encodeRecords hash records =
     \<lparr>jd_Version = promptJournalVersion, jd_DeviceHash = json_coerce hash,
      jd_Records =
        map json_record (sort_key (\<lambda>r. (jr_UpdatedAt r, jr_Key r)) (map snd records))\<rparr>"

definition persistRecords ::
  "persist_step option \<Rightarrow> journal_map \<Rightarrow> promptJournal \<Rightarrow> promptJournal \<times> journal_error option" where
  "persistRecords fault next j =
     (let (d, err) = commit (encodeRecords (pj_deviceHash j)) fault next (pj_data j)
      in (j\<lparr>pj_data := d\<rparr>, map_option PersistFailed err))"

section \<open>Evicting committed records\<close>

text \<open>The loop of \<open>evictOldestCommitted\<close>: the first committed record with the least time.\<close>

fun oldestCommitted ::
  "journal_map \<Rightarrow> promptJournalRecord option \<Rightarrow> promptJournalRecord option" where
  "oldestCommitted [] oldest = oldest"
| "oldestCommitted ((k, record) # rest) oldest =
     (if jr_Status record \<noteq> promptJournalCommitted then oldestCommitted rest oldest
      else (case oldest of
              None \<Rightarrow> oldestCommitted rest (Some record)
            | Some old \<Rightarrow>
                if jr_UpdatedAt record < jr_UpdatedAt old
                then oldestCommitted rest (Some record)
                else oldestCommitted rest (Some old)))"

definition evictOldestCommitted :: "journal_map \<Rightarrow> journal_error + journal_map" where
  "evictOldestCommitted records =
     (case oldestCommitted records None of
        None \<Rightarrow> Inl JournalFull
      | Some oldest \<Rightarrow> Inr (AList.delete (jr_Key oldest) records))"

text \<open>
  \<open>trimCommitted\<close> evicts until the limit holds.  The loop ends because each round deletes an
  entry; the guard on the length stands for that progress and is proved below to be true for
  every map whose records carry their own keys (\<open>trimCommitted_progress\<close>).
\<close>

function trimCommitted :: "int \<Rightarrow> journal_map \<Rightarrow> journal_error + journal_map" where
  "trimCommitted mx records =
     (if int (length records) > mx then
        (case evictOldestCommitted records of
           Inl _ \<Rightarrow> Inl TooManyUnresolved
         | Inr next \<Rightarrow>
             if length next < length records then trimCommitted mx next
             else Inl TooManyUnresolved)
      else Inr records)"
  by pat_completeness auto
termination
  by (relation "measure (\<lambda>(mx, records). length records)") auto

declare trimCommitted.simps [simp del]

section \<open>Loading\<close>

text \<open>
  The checks a load makes on one record, in the order of the loop body: its identifiers, its
  status (a dispatch that a crash interrupted becomes indeterminate), its echo.  The flag says
  whether the file has to be rewritten.
\<close>

definition normalize_identifiers ::
  "(string \<Rightarrow> string) \<Rightarrow> string \<Rightarrow> bool \<Rightarrow> promptJournalRecord
   \<Rightarrow> journal_error + promptJournalRecord" where
  "normalize_identifiers sha hash legacyV1 r =
     (if \<not> validJournalKey (jr_Key r) then Inl InvalidKey
      else if legacyV1 then Inr (r\<lparr>jr_LegacyOpaque := True\<rparr>)
      else if jr_LegacyOpaque r then
        (if jr_SessionID r \<noteq> [] \<or> jr_ClientMsgID r \<noteq> [] then Inl PartialIdentifiers else Inr r)
      else (case validateJournalIdentifiers (jr_SessionID r) (jr_ClientMsgID r) of
              Some e \<Rightarrow> Inl (InvalidIdentifiers e)
            | None \<Rightarrow>
                if jr_Key r \<noteq>
                   promptJournalKeyFromHash sha hash (jr_SessionID r) (jr_ClientMsgID r)
                then Inl KeyMismatch else Inr r))"

definition normalize_status ::
  "promptJournalRecord \<Rightarrow> journal_error + (promptJournalRecord \<times> bool)" where
  "normalize_status r =
     (case jr_Status r of
        promptJournalDispatching \<Rightarrow> Inr (r\<lparr>jr_Status := promptJournalIndeterminate\<rparr>, True)
      | promptJournalOther s \<Rightarrow> Inl (InvalidStatus s)
      | _ \<Rightarrow> Inr (r, False))"

definition normalize_echo :: "promptJournalRecord \<times> bool \<Rightarrow> promptJournalRecord \<times> bool" where
  "normalize_echo = (\<lambda>(r, changed).
     let boundedEcho = boundedUTF8 (jr_PromptEcho r) maxPromptJournalEchoBytes
     in if boundedEcho \<noteq> jr_PromptEcho r
        then (r\<lparr>jr_PromptEcho := boundedEcho\<rparr>, True) else (r, changed))"

definition normalizeRecord ::
  "(string \<Rightarrow> string) \<Rightarrow> string \<Rightarrow> bool \<Rightarrow> promptJournalRecord
   \<Rightarrow> journal_error + (promptJournalRecord \<times> bool)" where
  "normalizeRecord sha hash legacyV1 r =
     and_then (normalize_identifiers sha hash legacyV1 r) (\<lambda>r.
     and_then (normalize_status r) (\<lambda>rc. Inr (normalize_echo rc)))"

fun loadRecords ::
  "(string \<Rightarrow> string) \<Rightarrow> string \<Rightarrow> bool \<Rightarrow> promptJournalRecord list \<Rightarrow> journal_map \<Rightarrow> bool
   \<Rightarrow> journal_error + (journal_map \<times> bool)" where
  "loadRecords sha hash legacyV1 [] records changed = Inr (records, changed)"
| "loadRecords sha hash legacyV1 (r # rs) records changed =
     (case normalizeRecord sha hash legacyV1 r of
        Inl e \<Rightarrow> Inl e
      | Inr (record, changed1) \<Rightarrow>
          if map_of records (jr_Key record) \<noteq> None then Inl DuplicateKey
          else loadRecords sha hash legacyV1 rs
                 (AList.update (jr_Key record) record records) (changed \<or> changed1))"

type_synonym journal_source = "promptJournalDisk file_source"

text \<open>
  \<open>loadPromptJournal\<close>.  Its result is the journal or the error, and in both cases what the
  file holds afterwards, because a load can rewrite the file and still fail.
\<close>

definition loadPromptJournal ::
  "(string \<Rightarrow> string) \<Rightarrow> string \<Rightarrow> int \<Rightarrow> journal_source \<Rightarrow> persist_step option
   \<Rightarrow> (journal_error + promptJournal) \<times> journal_source" where
  "loadPromptJournal sha deviceID mx src fault =
     (let mx = (if mx \<le> 0 then maxAcceptedPromptIDs else mx);
          hash = deviceHash sha deviceID;
          write = (\<lambda>records.
            (case persist fault (Decoded (encodeRecords hash records)) src of
               (now, Some e) \<Rightarrow> (Inl (PersistFailed e), now)
             | (now, None) \<Rightarrow>
                 (Inr \<lparr>pj_deviceHash = hash, pj_max = mx,
                       pj_data = \<lparr>mem = records, disk = encodeRecords hash records\<rparr>\<rparr>,
                  now)))
      in (case src of
            NoFile \<Rightarrow> write []
          | Unreadable \<Rightarrow> (Inl ReadFailed, src)
          | NotJSON \<Rightarrow> (Inl ParseFailed, src)
          | Decoded d \<Rightarrow>
              if jd_Version d \<noteq> 1 \<and> jd_Version d \<noteq> promptJournalVersion
              then (Inl (UnsupportedVersion (jd_Version d)), src)
              else if jd_DeviceHash d \<noteq> hash then (Inl OtherDevice, src)
              else (case and_then
                         (loadRecords sha hash (jd_Version d = 1) (jd_Records d) []
                            (jd_Version d = 1)) (\<lambda>(records, changed).
                         and_then (trimCommitted mx records) (\<lambda>trimmed.
                         Inr (trimmed,
                              changed \<or> length trimmed \<noteq> length (jd_Records d)))) of
                      Inl e \<Rightarrow> (Inl e, src)
                    | Inr (records, changed) \<Rightarrow>
                        if changed then write records
                        else (Inr \<lparr>pj_deviceHash = hash, pj_max = mx,
                                   pj_data = \<lparr>mem = records, disk = d\<rparr>\<rparr>, src))))"

section \<open>Operations\<close>

definition journal_state ::
  "(string \<Rightarrow> string) \<Rightarrow> promptJournal \<Rightarrow> string \<Rightarrow> string \<Rightarrow> promptJournalRecord option" where
  "journal_state sha j sessionID clientMsgID =
     (if clientMsgID = [] then None
      else map_of (mem (pj_data j))
             (promptJournalKeyFromHash sha (pj_deviceHash j) sessionID clientMsgID))"

definition markDispatching ::
  "(string \<Rightarrow> string) \<Rightarrow> nanos \<Rightarrow> persist_step option \<Rightarrow> string \<Rightarrow> string \<Rightarrow> string
   \<Rightarrow> promptJournal \<Rightarrow> promptJournal \<times> journal_error option" where
  "markDispatching sha now fault sessionID clientMsgID prompt j =
     (case validateJournalIdentifiers sessionID clientMsgID of
        Some e \<Rightarrow> (j, Some e)
      | None \<Rightarrow>
          let key = promptJournalKeyFromHash sha (pj_deviceHash j) sessionID clientMsgID;
              records = mem (pj_data j)
          in (case map_of records key of
                Some existing \<Rightarrow> (j, Some (AlreadyRecorded (jr_Status existing)))
              | None \<Rightarrow>
                  (case (if int (length records) \<ge> pj_max j
                         then evictOldestCommitted records else Inr records) of
                     Inl e \<Rightarrow> (j, Some e)
                   | Inr next \<Rightarrow>
                       persistRecords fault
                         (AList.update key
                            \<lparr>jr_Key = key, jr_SessionID = sessionID, jr_ClientMsgID = clientMsgID,
                             jr_LegacyOpaque = False, jr_Status = promptJournalDispatching,
                             jr_PromptEcho = boundedUTF8 prompt maxPromptJournalEchoBytes,
                             jr_UpdatedAt = now\<rparr> next) j)))"

definition rollbackDispatching ::
  "(string \<Rightarrow> string) \<Rightarrow> persist_step option \<Rightarrow> string \<Rightarrow> string
   \<Rightarrow> promptJournal \<Rightarrow> promptJournal \<times> journal_error option" where
  "rollbackDispatching sha fault sessionID clientMsgID j =
     (case validateJournalIdentifiers sessionID clientMsgID of
        Some e \<Rightarrow> (j, Some e)
      | None \<Rightarrow>
          let key = promptJournalKeyFromHash sha (pj_deviceHash j) sessionID clientMsgID
          in (case map_of (mem (pj_data j)) key of
                None \<Rightarrow> (j, Some RecordNotFound)
              | Some current \<Rightarrow>
                  if jr_Status current \<noteq> promptJournalDispatching
                  then (j, Some (CannotRollBack (jr_Status current)))
                  else persistRecords fault (AList.delete key (mem (pj_data j))) j))"

text \<open>The guards of \<open>transition\<close>: which status may follow which.\<close>

definition transition_guard ::
  "promptJournalStatus \<Rightarrow> promptJournalStatus \<Rightarrow> journal_error option" where
  "transition_guard current status =
     (case status of
        promptJournalAccepted \<Rightarrow>
          if current \<noteq> promptJournalDispatching
          then Some (CannotTransition current status) else None
      | promptJournalIndeterminate \<Rightarrow>
          if current \<noteq> promptJournalDispatching
          then Some (CannotTransition current status) else None
      | promptJournalCommitted \<Rightarrow>
          if current \<noteq> promptJournalAccepted
          then Some (CannotTransition current status) else None
      | _ \<Rightarrow> Some (InvalidTransition status))"

definition transition ::
  "(string \<Rightarrow> string) \<Rightarrow> nanos \<Rightarrow> persist_step option \<Rightarrow> string \<Rightarrow> string \<Rightarrow> promptJournalStatus
   \<Rightarrow> promptJournal \<Rightarrow> promptJournal \<times> journal_error option" where
  "transition sha now fault sessionID clientMsgID status j =
     (case validateJournalIdentifiers sessionID clientMsgID of
        Some e \<Rightarrow> (j, Some e)
      | None \<Rightarrow>
          let key = promptJournalKeyFromHash sha (pj_deviceHash j) sessionID clientMsgID
          in (case map_of (mem (pj_data j)) key of
                None \<Rightarrow> (j, Some RecordNotFound)
              | Some current \<Rightarrow>
                  if jr_Status current = status then (j, None)
                  else (case transition_guard (jr_Status current) status of
                          Some e \<Rightarrow> (j, Some e)
                        | None \<Rightarrow>
                            let filled = (if jr_LegacyOpaque current
                                  then current\<lparr>jr_SessionID := sessionID,
                                               jr_ClientMsgID := clientMsgID,
                                               jr_LegacyOpaque := False\<rparr>
                                  else current)
                            in persistRecords fault
                                 (AList.update key
                                    (filled\<lparr>jr_Status := status, jr_UpdatedAt := now\<rparr>)
                                    (mem (pj_data j))) j)))"

definition markAccepted where
  "markAccepted sha now fault sessionID clientMsgID =
     transition sha now fault sessionID clientMsgID promptJournalAccepted"

definition markIndeterminate where
  "markIndeterminate sha now fault sessionID clientMsgID =
     transition sha now fault sessionID clientMsgID promptJournalIndeterminate"

definition markCommitted where
  "markCommitted sha now fault sessionID clientMsgID =
     transition sha now fault sessionID clientMsgID promptJournalCommitted"

definition uncommittedAccepted :: "promptJournal \<Rightarrow> promptJournalRecord list" where
  "uncommittedAccepted j =
     sort_key (\<lambda>r. (jr_UpdatedAt r, jr_Key r))
       (filter (\<lambda>r. jr_Status r = promptJournalAccepted \<and> \<not> jr_LegacyOpaque r)
          (map snd (mem (pj_data j))))"

section \<open>Bounded echoes\<close>

lemma dots_valid: "ValidString ''...''"
  by (rule ValidString_ascii) (simp add: byte_def)

text \<open>The echo a journal record keeps never exceeds its bound, and it is valid UTF-8
  whenever the prompt is: shortening never cuts a rune in two.\<close>

theorem boundedUTF8_correct:
  "length (boundedUTF8 v n) \<le> nat n \<and> (ValidString v \<longrightarrow> ValidString (boundedUTF8 v n))
   \<and> (int (length v) \<le> n \<longrightarrow> boundedUTF8 v n = v)"
proof -
  have "valid_cut v (nat (n - 3)) \<le> nat (n - 3)" by (rule valid_cut_le)
  then have len: "length (boundedUTF8 v n) \<le> nat n"
    by (auto simp: boundedUTF8_def Let_def)
  have dots: "ValidString (take k ''...'')" for k
    by (rule ValidString_ascii)
      (auto simp: byte_def list_all_iff dest: in_set_takeD)
  have "ValidString (boundedUTF8 v n)" if "ValidString v"
    using that dots [of "nat n"] dots_valid valid_cut_valid [of v "nat (n - 3)"]
    by (auto simp: boundedUTF8_def Let_def intro: ValidString_append)
  moreover have "boundedUTF8 v n = v" if "int (length v) \<le> n"
    using that by (cases v) (auto simp: boundedUTF8_def)
  ultimately show ?thesis using len by blast
qed

theorem boundedUTF8_correct_witness:
  "ValidString ''abcdef'' \<and> ValidString (boundedUTF8 ''abcdef'' 5)
   \<and> length (boundedUTF8 ''abcdef'' 5) \<le> 5"
proof -
  have v: "ValidString ''abcdef''" by (rule ValidString_ascii) (simp add: byte_def)
  then show ?thesis using boundedUTF8_correct [of "''abcdef''" 5] by simp
qed

section \<open>Invariant\<close>

text \<open>The documented shape of the parameter: a digest is 64 hexadecimal digits.\<close>

definition hex_digest :: "(string \<Rightarrow> string) \<Rightarrow> bool" where
  "hex_digest sha \<longleftrightarrow> (\<forall>x. validJournalKey (sha x))"

lemma hex_ascii: "is_hex c \<Longrightarrow> byte c < 0x80"
  by (auto simp: is_hex_def)

lemma validJournalKey_coerce: "validJournalKey k \<Longrightarrow> json_coerce k = k"
  by (rule json_coerce_valid, rule ValidString_ascii)
    (auto simp: validJournalKey_def list_all_iff dest: hex_ascii)

definition known_status :: "promptJournalStatus \<Rightarrow> bool" where
  "known_status st \<longleftrightarrow> (\<forall>s. st \<noteq> promptJournalOther s)"

definition pj_record_ok :: "(string \<Rightarrow> string) \<Rightarrow> string \<Rightarrow> promptJournalRecord \<Rightarrow> bool" where
  "pj_record_ok sha hash r \<longleftrightarrow>
     validJournalKey (jr_Key r) \<and> known_status (jr_Status r) \<and>
     (if jr_LegacyOpaque r then jr_SessionID r = [] \<and> jr_ClientMsgID r = []
      else validateJournalIdentifiers (jr_SessionID r) (jr_ClientMsgID r) = None
           \<and> jr_Key r = promptJournalKeyFromHash sha hash (jr_SessionID r) (jr_ClientMsgID r))"

definition keyed :: "journal_map \<Rightarrow> bool" where
  "keyed m \<longleftrightarrow> gomap m \<and> (\<forall>(k, r) \<in> set m. jr_Key r = k)"

definition pj_map_ok :: "(string \<Rightarrow> string) \<Rightarrow> string \<Rightarrow> int \<Rightarrow> journal_map \<Rightarrow> bool" where
  "pj_map_ok sha hash mx m \<longleftrightarrow>
     hex_digest sha \<and> validJournalKey hash \<and> 0 < mx \<and> int (length m) \<le> mx \<and> keyed m \<and>
     (\<forall>(k, r) \<in> set m. pj_record_ok sha hash r \<and> length (jr_PromptEcho r) \<le> 512)"

definition pj_file_ok :: "(string \<Rightarrow> string) \<Rightarrow> string \<Rightarrow> int \<Rightarrow> promptJournalDisk \<Rightarrow> bool" where
  "pj_file_ok sha hash mx d \<longleftrightarrow>
     jd_Version d = promptJournalVersion \<and> jd_DeviceHash d = hash \<and>
     int (length (jd_Records d)) \<le> mx \<and> distinct (map jr_Key (jd_Records d)) \<and>
     (\<forall>r \<in> set (jd_Records d). pj_record_ok sha hash r)"

lemma validateJournalIdentifiers_None:
  "validateJournalIdentifiers s c = None \<Longrightarrow> ValidString s \<and> ValidString c"
  by (auto simp: validateJournalIdentifiers_def split: if_splits)

lemma keyed_update: "keyed m \<Longrightarrow> jr_Key r = k \<Longrightarrow> keyed (AList.update k r m)"
  by (auto simp: keyed_def gomap_intros set_update_gomap)

lemma keyed_delete: "keyed m \<Longrightarrow> keyed (AList.delete k m)"
  by (auto simp: keyed_def gomap_intros set_delete_gomap)

lemma keyed_lookup: "keyed m \<Longrightarrow> map_of m k = Some r \<Longrightarrow> jr_Key r = k"
  by (auto simp: keyed_def dest: map_of_SomeD)

lemma json_record_ok:
  assumes "pj_record_ok sha hash r"
  shows "pj_record_ok sha hash (json_record r)" and "jr_Key (json_record r) = jr_Key r"
proof -
  have k: "json_coerce (jr_Key r) = jr_Key r"
    using assms by (simp add: pj_record_ok_def validJournalKey_coerce)
  have ids: "json_coerce (jr_SessionID r) = jr_SessionID r"
    "json_coerce (jr_ClientMsgID r) = jr_ClientMsgID r"
    using assms validateJournalIdentifiers_None [of "jr_SessionID r" "jr_ClientMsgID r"]
    by (auto simp: pj_record_ok_def json_coerce_valid split: if_splits)
  show "pj_record_ok sha hash (json_record r)"
    using assms k ids by (simp add: json_record_def pj_record_ok_def)
  show "jr_Key (json_record r) = jr_Key r"
    using k by (simp add: json_record_def)
qed

lemma keyed_distinct: "keyed m \<Longrightarrow> distinct (map jr_Key (map snd m))"
  by (rule keys_of_values) (auto simp: keyed_def)

lemma encode_keys:
  assumes "pj_map_ok sha hash mx m"
  shows "distinct (map jr_Key (jd_Records (encodeRecords hash m)))"
proof -
  let ?rs = "sort_key (\<lambda>r. (jr_UpdatedAt r, jr_Key r)) (map snd m)"
  have ok: "\<forall>r \<in> set ?rs. pj_record_ok sha hash r"
    using assms by (auto simp: pj_map_ok_def)
  then have "map jr_Key (map json_record ?rs) = map jr_Key ?rs"
    by (auto intro: json_record_ok(2))
  moreover have "distinct (map jr_Key ?rs)"
    using assms keyed_distinct [of m] by (simp add: pj_map_ok_def del: map_map)
  ultimately show ?thesis by (simp add: encodeRecords_def del: map_map)
qed

lemma encodeRecords_ok: "pj_map_ok sha hash mx m \<Longrightarrow> pj_file_ok sha hash mx (encodeRecords hash m)"
  using encode_keys [of sha hash mx m]
  by (auto simp: pj_file_ok_def pj_map_ok_def encodeRecords_def validJournalKey_coerce
      json_record_ok)

lemma oldestCommitted_Some:
  "oldestCommitted m acc = Some r \<Longrightarrow>
   (acc = Some r \<or> (\<exists>k. (k, r) \<in> set m \<and> jr_Status r = promptJournalCommitted))"
  by (induction m acc rule: oldestCommitted.induct) (auto split: if_splits option.splits)

lemma evict_Inr:
  assumes "evictOldestCommitted m = Inr m'"
  obtains k r where "m' = AList.delete (jr_Key r) m" and "(k, r) \<in> set m"
    and "jr_Status r = promptJournalCommitted"
  using assms oldestCommitted_Some [of m None]
  by (auto simp: evictOldestCommitted_def split: option.splits)

lemma evict_length:
  assumes "evictOldestCommitted m = Inr m'" and "keyed m"
  shows "length m' < length m"
proof -
  obtain k r where m': "m' = AList.delete (jr_Key r) m" and r: "(k, r) \<in> set m"
    using evict_Inr [OF assms(1)] by metis
  then have "k = jr_Key r" and "k \<in> fst ` set m"
    using assms(2) by (force simp: keyed_def)+
  moreover have "m \<noteq> []" using r by auto
  ultimately show ?thesis
    using m' assms(2) by (simp add: keyed_def length_delete)
qed

text \<open>The progress guard in \<open>trimCommitted\<close> always holds on a journal map.\<close>

lemma trimCommitted_progress:
  "keyed m \<Longrightarrow> evictOldestCommitted m = Inr m' \<Longrightarrow> length m' < length m \<and> keyed m'"
  by (metis evict_Inr evict_length keyed_delete)

section \<open>One call of an operation\<close>

text \<open>
  The map an operation tries to persist.  Every operation is \<open>persistRecords\<close> of such a map,
  or it returns without touching the journal (\<open>journal_call_cases\<close>).
\<close>

inductive pj_step :: "(string \<Rightarrow> string) \<Rightarrow> promptJournal \<Rightarrow> promptJournal \<Rightarrow> bool"
  for sha where
  dispatch: "pj_step sha j (fst (markDispatching sha now fault s c p j))"
| accept: "pj_step sha j (fst (markAccepted sha now fault s c j))"
| indeterminate: "pj_step sha j (fst (markIndeterminate sha now fault s c j))"
| commit: "pj_step sha j (fst (markCommitted sha now fault s c j))"
| rollback: "pj_step sha j (fst (rollbackDispatching sha fault s c j))"

lemma persistRecords_fields:
  "pj_deviceHash (fst (persistRecords fault next j)) = pj_deviceHash j"
  "pj_max (fst (persistRecords fault next j)) = pj_max j"
  "snd (persistRecords fault next j) = map_option PersistFailed fault"
  by (cases fault; simp add: persistRecords_def commit_fault)+

lemma persistRecords_data:
  "pj_data (fst (persistRecords fault next j))
   = fst (commit (encodeRecords (pj_deviceHash j)) fault next (pj_data j))"
  by (simp add: persistRecords_def case_prod_beta)

lemma markDispatching_cases:
  assumes "markDispatching sha now fault s c p j = (j', e)"
  obtains (refused) err where "j' = j" "e = Some err"
  | (written) key nxt where
      "validateJournalIdentifiers s c = None"
      "key = promptJournalKeyFromHash sha (pj_deviceHash j) s c"
      "map_of (mem (pj_data j)) key = None"
      "nxt = mem (pj_data j) \<and> int (length (mem (pj_data j))) < pj_max j
       \<or> evictOldestCommitted (mem (pj_data j)) = Inr nxt"
      "(j', e) = persistRecords fault
         (AList.update key
            \<lparr>jr_Key = key, jr_SessionID = s, jr_ClientMsgID = c,
             jr_LegacyOpaque = False, jr_Status = promptJournalDispatching,
             jr_PromptEcho = boundedUTF8 p maxPromptJournalEchoBytes,
             jr_UpdatedAt = now\<rparr> nxt) j"
proof (cases "validateJournalIdentifiers s c")
  case (Some err)
  then show thesis using assms refused [of err] by (simp add: markDispatching_def)
next
  case ids: None
  let ?m = "mem (pj_data j)"
  let ?key = "promptJournalKeyFromHash sha (pj_deviceHash j) s c"
  show thesis
  proof (cases "map_of ?m ?key")
    case (Some r)
    then show thesis using assms ids refused by (auto simp: markDispatching_def)
  next
    case new: None
    show thesis
    proof (cases "int (length ?m) < pj_max j")
      case True
      then show thesis
        using assms ids new written [of ?key ?m] by (simp add: markDispatching_def Let_def)
    next
      case False
      then show thesis
        using assms ids new refused written [of ?key]
        by (cases "evictOldestCommitted ?m") (auto simp: markDispatching_def Let_def)
    qed
  qed
qed

lemma transition_cases:
  assumes "transition sha now fault s c st j = (j', e)"
  obtains (refused) "j' = j"
  | (written) key current r where
      "validateJournalIdentifiers s c = None"
      "key = promptJournalKeyFromHash sha (pj_deviceHash j) s c"
      "map_of (mem (pj_data j)) key = Some current"
      "transition_guard (jr_Status current) st = None"
      "r = (if jr_LegacyOpaque current
            then current\<lparr>jr_SessionID := s, jr_ClientMsgID := c, jr_LegacyOpaque := False\<rparr>
            else current)\<lparr>jr_Status := st, jr_UpdatedAt := now\<rparr>"
      "(j', e) = persistRecords fault (AList.update key r (mem (pj_data j))) j"
  using assms
  by (auto simp: transition_def Let_def split: option.splits if_splits)

lemma rollback_cases:
  assumes "rollbackDispatching sha fault s c j = (j', e)"
  obtains (refused) "j' = j"
  | (written) key current where
      "key = promptJournalKeyFromHash sha (pj_deviceHash j) s c"
      "map_of (mem (pj_data j)) key = Some current"
      "jr_Status current = promptJournalDispatching"
      "(j', e) = persistRecords fault (AList.delete key (mem (pj_data j))) j"
  using assms
  by (auto simp: rollbackDispatching_def Let_def split: option.splits if_splits)

lemma transition_guard_known: "transition_guard cur st = None \<Longrightarrow> known_status st"
  by (auto simp: transition_guard_def known_status_def split: promptJournalStatus.splits)

section \<open>Every operation keeps the invariant\<close>

lemma pj_map_ok_delete: "pj_map_ok sha hash mx m \<Longrightarrow> pj_map_ok sha hash mx (AList.delete k m)"
  using length_delete_le [of k m]
  by (auto simp: pj_map_ok_def keyed_delete set_delete_gomap)

lemma pj_map_ok_evict:
  assumes "pj_map_ok sha hash mx m" and "evictOldestCommitted m = Inr m'"
  shows "pj_map_ok sha hash mx m'" and "int (length m') < mx"
proof -
  have k: "keyed m" using assms(1) by (simp add: pj_map_ok_def)
  show "pj_map_ok sha hash mx m'"
    using assms(1) evict_Inr [OF assms(2)] pj_map_ok_delete by metis
  show "int (length m') < mx"
    using trimCommitted_progress [OF k assms(2)] assms(1) by (simp add: pj_map_ok_def)
qed

lemma pj_map_ok_insert:
  assumes "pj_map_ok sha hash mx m" and "int (length m) < mx \<or> k \<in> fst ` set m"
    and "jr_Key r = k" and "pj_record_ok sha hash r" and "length (jr_PromptEcho r) \<le> 512"
  shows "pj_map_ok sha hash mx (AList.update k r m)"
proof -
  have g: "gomap m" and k: "keyed m" using assms(1) by (simp_all add: pj_map_ok_def keyed_def)
  have "int (length (AList.update k r m)) \<le> mx"
    using assms(1,2) by (auto simp: length_update pj_map_ok_def)
  then show ?thesis
    using assms keyed_update [OF k] g by (auto simp: pj_map_ok_def set_update_gomap)
qed

lemma bounded_echo: "length (boundedUTF8 p maxPromptJournalEchoBytes) \<le> 512"
  using valid_cut_le [of p 509] by (auto simp: boundedUTF8_def maxPromptJournalEchoBytes_def Let_def)

lemma markDispatching_next_ok:
  assumes ok: "pj_map_ok sha hash mx m" and ids: "validateJournalIdentifiers s c = None"
    and key: "key = promptJournalKeyFromHash sha hash s c"
    and nx: "nxt = m \<and> int (length m) < mx \<or> evictOldestCommitted m = Inr nxt"
  shows "pj_map_ok sha hash mx
    (AList.update key
       \<lparr>jr_Key = key, jr_SessionID = s, jr_ClientMsgID = c, jr_LegacyOpaque = False,
        jr_Status = promptJournalDispatching,
        jr_PromptEcho = boundedUTF8 p maxPromptJournalEchoBytes, jr_UpdatedAt = now\<rparr> nxt)"
proof (rule pj_map_ok_insert)
  show "pj_map_ok sha hash mx nxt" and "int (length nxt) < mx \<or> key \<in> fst ` set nxt"
    using nx ok pj_map_ok_evict [OF ok] by auto
  have "validJournalKey key"
    using ok key by (simp add: pj_map_ok_def hex_digest_def promptJournalKeyFromHash_def)
  then show "pj_record_ok sha hash \<lparr>jr_Key = key, jr_SessionID = s, jr_ClientMsgID = c,
      jr_LegacyOpaque = False, jr_Status = promptJournalDispatching,
      jr_PromptEcho = boundedUTF8 p maxPromptJournalEchoBytes, jr_UpdatedAt = now\<rparr>"
    using ids key by (simp add: pj_record_ok_def known_status_def)
qed (simp_all add: bounded_echo)

lemma transition_next_ok:
  assumes ok: "pj_map_ok sha hash mx m" and ids: "validateJournalIdentifiers s c = None"
    and key: "key = promptJournalKeyFromHash sha hash s c"
    and cur: "map_of m key = Some current" and st: "known_status (jr_Status r)"
    and r: "r = (if jr_LegacyOpaque current
            then current\<lparr>jr_SessionID := s, jr_ClientMsgID := c, jr_LegacyOpaque := False\<rparr>
            else current)\<lparr>jr_Status := st, jr_UpdatedAt := now\<rparr>"
  shows "pj_map_ok sha hash mx (AList.update key r m)"
proof (rule pj_map_ok_insert [OF ok])
  have mem: "(key, current) \<in> set m" using cur by (rule map_of_SomeD)
  then show "int (length m) < mx \<or> key \<in> fst ` set m" by force
  have "jr_Key current = key"
    using ok cur by (auto simp: pj_map_ok_def intro: keyed_lookup)
  then show "jr_Key r = key" using r by simp
  have "pj_record_ok sha hash current" and e: "length (jr_PromptEcho current) \<le> 512"
    using ok mem by (auto simp: pj_map_ok_def)
  then show "pj_record_ok sha hash r"
    using r st ids key \<open>jr_Key current = key\<close> by (auto simp: pj_record_ok_def split: if_splits)
  show "length (jr_PromptEcho r) \<le> 512" using e r by simp
qed

lemma persist_ahead:
  assumes "pj_deviceHash j = hash" and "pj_map_ok sha hash mx m'"
    and "(j', e) = persistRecords fault m' j"
  shows "\<exists>new. pj_map_ok sha hash mx new
    \<and> (mem (pj_data j') = mem (pj_data j)
       \<or> mem (pj_data j') = new \<and> disk (pj_data j') = encodeRecords hash new)
    \<and> (disk (pj_data j') = disk (pj_data j) \<or> disk (pj_data j') = encodeRecords hash new)"
proof -
  have "pj_data j' = fst (commit (encodeRecords hash) fault m' (pj_data j))"
    using assms(1,3) persistRecords_data [of fault m' j] by (metis fst_conv)
  then show ?thesis
    using assms(2)
    by (cases rule: commit_cases [of fault "encodeRecords hash" m' "pj_data j"]) auto
qed

lemma persisted_fields:
  "(j', e) = persistRecords fault m j \<Longrightarrow>
   pj_deviceHash j' = pj_deviceHash j \<and> pj_max j' = pj_max j"
  using persistRecords_fields [of fault m j] by (metis fst_conv)

lemma markDispatching_fields:
  "markDispatching sha now fault s c p j = (j', e) \<Longrightarrow>
   pj_deviceHash j' = pj_deviceHash j \<and> pj_max j' = pj_max j"
  by (erule markDispatching_cases) (simp, rule persisted_fields)

lemma transition_fields:
  "transition sha now fault s c st j = (j', e) \<Longrightarrow>
   pj_deviceHash j' = pj_deviceHash j \<and> pj_max j' = pj_max j"
  by (erule transition_cases) (simp, rule persisted_fields)

lemma rollback_fields:
  "rollbackDispatching sha fault s c j = (j', e) \<Longrightarrow>
   pj_deviceHash j' = pj_deviceHash j \<and> pj_max j' = pj_max j"
  by (erule rollback_cases) (simp, rule persisted_fields)

lemma pj_step_fields:
  "pj_step sha j j' \<Longrightarrow> pj_deviceHash j' = pj_deviceHash j \<and> pj_max j' = pj_max j"
  by (induction rule: pj_step.induct)
    (metis markDispatching_fields transition_fields rollback_fields prod.collapse
      markAccepted_def markIndeterminate_def markCommitted_def)+

definition pj_call ::
  "(string \<Rightarrow> string) \<Rightarrow> string \<Rightarrow> int \<Rightarrow> promptJournal \<Rightarrow> promptJournal \<Rightarrow> bool" where
  "pj_call sha hash mx j j' \<longleftrightarrow> pj_deviceHash j = hash \<and> pj_max j = mx \<and> pj_step sha j j'"

lemma transition_ahead:
  assumes "pj_map_ok sha (pj_deviceHash j) mx (mem (pj_data j))"
    and "transition sha now fault s c st j = (j', e)"
  shows "\<exists>new. pj_map_ok sha (pj_deviceHash j) mx new
    \<and> (mem (pj_data j') = mem (pj_data j)
       \<or> mem (pj_data j') = new \<and> disk (pj_data j') = encodeRecords (pj_deviceHash j) new)
    \<and> (disk (pj_data j') = disk (pj_data j)
       \<or> disk (pj_data j') = encodeRecords (pj_deviceHash j) new)"
  using assms(2)
proof (cases rule: transition_cases)
  case refused
  then show ?thesis using assms(1) by blast
next
  case (written key current r)
  have "pj_map_ok sha (pj_deviceHash j) mx (AList.update key r (mem (pj_data j)))"
    using transition_next_ok [OF assms(1) written(1-3)] transition_guard_known written(4,5)
    by simp
  then show ?thesis using persist_ahead [OF refl _ written(6)] by blast
qed

lemma pj_step_ahead:
  assumes "pj_map_ok sha (pj_deviceHash j) (pj_max j) (mem (pj_data j))" and "pj_step sha j j'"
  shows "\<exists>new. pj_map_ok sha (pj_deviceHash j) (pj_max j) new
    \<and> (mem (pj_data j') = mem (pj_data j)
       \<or> mem (pj_data j') = new \<and> disk (pj_data j') = encodeRecords (pj_deviceHash j) new)
    \<and> (disk (pj_data j') = disk (pj_data j)
       \<or> disk (pj_data j') = encodeRecords (pj_deviceHash j) new)"
  using assms(2)
proof cases
  case (dispatch now fault s c p)
  have "markDispatching sha now fault s c p j
        = (j', snd (markDispatching sha now fault s c p j))"
    using dispatch by simp
  then show ?thesis
  proof (cases rule: markDispatching_cases)
    case (refused err)
    then show ?thesis using assms(1) by blast
  next
    case (written key nxt)
    show ?thesis
      by (rule persist_ahead [OF refl markDispatching_next_ok [OF assms(1) written(1,2,4)]
            written(5)])
  qed
next
  case (rollback fault s c)
  have "rollbackDispatching sha fault s c j = (j', snd (rollbackDispatching sha fault s c j))"
    using rollback by simp
  then show ?thesis
  proof (cases rule: rollback_cases)
    case refused
    then show ?thesis using assms(1) by blast
  next
    case (written key current)
    show ?thesis by (rule persist_ahead [OF refl pj_map_ok_delete [OF assms(1)] written(4)])
  qed
qed (unfold markAccepted_def markIndeterminate_def markCommitted_def,
    (rule transition_ahead [OF assms(1)], erule ssubst, rule surjective_pairing)+)

interpretation pj: write_ahead pj_data "pj_call sha hash mx" "encodeRecords hash"
  "pj_map_ok sha hash mx" "pj_file_ok sha hash mx" for sha hash mx
  by unfold_locales (use pj_step_ahead encodeRecords_ok in \<open>auto simp: pj_call_def\<close>)

lemma pj_steps_call:
  "(pj_step sha)\<^sup>*\<^sup>* j j' \<Longrightarrow>
   (pj_call sha (pj_deviceHash j) (pj_max j))\<^sup>*\<^sup>* j j'
   \<and> pj_deviceHash j' = pj_deviceHash j \<and> pj_max j' = pj_max j"
proof (induction rule: rtranclp_induct)
  case (step y z)
  then have "pj_call sha (pj_deviceHash j) (pj_max j) y z" by (simp add: pj_call_def)
  then show ?case using step pj_step_fields [OF step(2)] by (auto intro: rtranclp.rtrancl_into_rtrancl)
qed simp

definition pj_wf :: "(string \<Rightarrow> string) \<Rightarrow> promptJournal \<Rightarrow> bool" where
  "pj_wf sha j \<longleftrightarrow>
     pj_map_ok sha (pj_deviceHash j) (pj_max j) (mem (pj_data j))
     \<and> pj_file_ok sha (pj_deviceHash j) (pj_max j) (disk (pj_data j))"

text \<open>C19. The journal's invariant survives every sequence of operations under every file
  system fault: memory and file hold at most \<open>max\<close> records, one per key, each with a digest
  key that matches its identifiers (or an opaque record without identifiers), a known status
  and a bounded echo.\<close>

theorem journal_invariant:
  assumes "(pj_step sha)\<^sup>*\<^sup>* j j'" and "pj_wf sha j"
  shows "pj_wf sha j'"
proof -
  note steps = pj_steps_call [OF assms(1)]
  show ?thesis
    using pj.crash_safe [OF steps [THEN conjunct1]] steps assms(2) by (simp add: pj_wf_def)
qed

section \<open>Loading a journal\<close>

definition recovered_status :: "promptJournalStatus \<Rightarrow> promptJournalStatus" where
  "recovered_status st =
     (if st = promptJournalDispatching then promptJournalIndeterminate else st)"

lemma normalize_identifiers_Inr:
  "normalize_identifiers sha hash v r = Inr r1 \<Longrightarrow>
   r1 = (if v then r\<lparr>jr_LegacyOpaque := True\<rparr> else r) \<and>
   (\<not> v \<longrightarrow> pj_record_ok sha hash (r\<lparr>jr_Status := promptJournalAccepted\<rparr>))"
  by (auto simp: normalize_identifiers_def pj_record_ok_def known_status_def
      split: if_splits option.splits)

lemma normalize_status_Inr:
  "normalize_status r = Inr (r2, c) \<longleftrightarrow>
   known_status (jr_Status r) \<and> r2 = r\<lparr>jr_Status := recovered_status (jr_Status r)\<rparr>
   \<and> c = (jr_Status r = promptJournalDispatching)"
  by (cases "jr_Status r")
    (auto simp: normalize_status_def known_status_def recovered_status_def)

lemma normalize_echo_eq:
  "normalize_echo (r, c) =
   (r\<lparr>jr_PromptEcho := boundedUTF8 (jr_PromptEcho r) maxPromptJournalEchoBytes\<rparr>,
    c \<or> boundedUTF8 (jr_PromptEcho r) maxPromptJournalEchoBytes \<noteq> jr_PromptEcho r)"
  by (simp add: normalize_echo_def Let_def)

lemma normalizeRecord_cases:
  assumes "normalizeRecord sha hash v r = Inr (r', ch)"
  obtains r1 where
    "r1 = (if v then r\<lparr>jr_LegacyOpaque := True\<rparr> else r)"
    "\<not> v \<longrightarrow> pj_record_ok sha hash (r\<lparr>jr_Status := promptJournalAccepted\<rparr>)"
    "known_status (jr_Status r)"
    "r' = r1\<lparr>jr_Status := recovered_status (jr_Status r),
             jr_PromptEcho := boundedUTF8 (jr_PromptEcho r) maxPromptJournalEchoBytes\<rparr>"
    "ch = (jr_Status r = promptJournalDispatching \<or> jr_PromptEcho r' \<noteq> jr_PromptEcho r)"
proof -
  from assms obtain r1 r2 c where ids: "normalize_identifiers sha hash v r = Inr r1"
    and st: "normalize_status r1 = Inr (r2, c)" and e: "normalize_echo (r2, c) = (r', ch)"
    by (auto simp: normalizeRecord_def and_then_Inr)
  note r1 = normalize_identifiers_Inr [OF ids]
  have "jr_Status r1 = jr_Status r" "jr_PromptEcho r1 = jr_PromptEcho r" using r1 by simp_all
  then show thesis
    using that [of r1] r1 st e by (auto simp: normalize_status_Inr normalize_echo_eq)
qed

lemma normalizeRecord_Inr:
  assumes "normalizeRecord sha hash v r = Inr (r', ch)"
  shows "jr_Key r' = jr_Key r" and "jr_Status r' = recovered_status (jr_Status r)"
    and "known_status (jr_Status r')" and "length (jr_PromptEcho r') \<le> 512"
    and "\<not> v \<Longrightarrow> pj_record_ok sha hash r'" and "\<not> ch \<Longrightarrow> \<not> v \<Longrightarrow> r' = r"
proof -
  obtain r1 where r1: "r1 = (if v then r\<lparr>jr_LegacyOpaque := True\<rparr> else r)"
    and ok: "\<not> v \<longrightarrow> pj_record_ok sha hash (r\<lparr>jr_Status := promptJournalAccepted\<rparr>)"
    and known: "known_status (jr_Status r)"
    and r': "r' = r1\<lparr>jr_Status := recovered_status (jr_Status r),
               jr_PromptEcho := boundedUTF8 (jr_PromptEcho r) maxPromptJournalEchoBytes\<rparr>"
    and ch: "ch = (jr_Status r = promptJournalDispatching \<or> jr_PromptEcho r' \<noteq> jr_PromptEcho r)"
    by (rule normalizeRecord_cases [OF assms]) blast
  show "jr_Key r' = jr_Key r" "jr_Status r' = recovered_status (jr_Status r)"
    "length (jr_PromptEcho r') \<le> 512"
    using bounded_echo by (simp_all add: r' r1)
  show k: "known_status (jr_Status r')"
    using known by (simp add: r' known_status_def recovered_status_def)
  show "pj_record_ok sha hash r'" if "\<not> v"
    using ok k that by (simp add: r' r1 pj_record_ok_def split: if_splits)
  show "r' = r" if "\<not> ch" "\<not> v"
  proof -
    have "boundedUTF8 (jr_PromptEcho r) maxPromptJournalEchoBytes = jr_PromptEcho r"
      "recovered_status (jr_Status r) = jr_Status r"
      using that ch by (simp_all add: r' recovered_status_def)
    then show ?thesis using that by (simp add: r' r1)
  qed
qed

lemma map_of_None_fst: "map_of m k = None \<longleftrightarrow> k \<notin> fst ` set m"
  by (rule map_of_eq_None_iff)

text \<open>A successful load keeps one entry per record of the file, in its order.\<close>

lemma loadRecords_Inr:
  "loadRecords sha hash v rs acc ch = Inr (m, ch') \<Longrightarrow> gomap acc \<Longrightarrow>
   \<exists>rs'. m = acc @ map (\<lambda>r. (jr_Key r, r)) rs' \<and> gomap m \<and>
     list_all2 (\<lambda>r r'. \<exists>c. normalizeRecord sha hash v r = Inr (r', c) \<and> (c \<longrightarrow> ch')) rs rs'
     \<and> (ch \<longrightarrow> ch')"
proof (induction sha hash v rs acc ch rule: loadRecords.induct)
  case (2 sha hash v r rs acc ch)
  from 2(2) obtain r1 c1 where n: "normalizeRecord sha hash v r = Inr (r1, c1)"
    and fresh: "map_of acc (jr_Key r1) = None"
    and rest: "loadRecords sha hash v rs (AList.update (jr_Key r1) r1 acc) (ch \<or> c1) = Inr (m, ch')"
    by (auto split: sum.splits prod.splits if_splits)
  from 2(1) [OF n refl _ rest gomap_update [OF 2(3)]] fresh obtain rs' where rs':
    "m = AList.update (jr_Key r1) r1 acc @ map (\<lambda>r. (jr_Key r, r)) rs'" "gomap m"
    "list_all2 (\<lambda>r r'. \<exists>c. normalizeRecord sha hash v r = Inr (r', c) \<and> (c \<longrightarrow> ch')) rs rs'"
    "ch \<or> c1 \<longrightarrow> ch'"
    by auto
  moreover have "AList.update (jr_Key r1) r1 acc = acc @ [(jr_Key r1, r1)]"
    using fresh by (rule update_new)
  ultimately show ?case using n by (intro exI [of _ "r1 # rs'"]) auto
qed auto

lemma loadRecords_keyed:
  assumes "loadRecords sha hash v rs [] ch = Inr (m, ch')"
  shows "keyed m" and "length m = length rs"
  using loadRecords_Inr [OF assms] by (auto simp: keyed_def dest: list_all2_lengthD)

lemma trimCommitted_Inr:
  "trimCommitted mx m = Inr m' \<Longrightarrow> keyed m \<Longrightarrow>
   keyed m' \<and> int (length m') \<le> mx \<and> set m' \<subseteq> set m
   \<and> (\<forall>(k, r) \<in> set m. jr_Status r \<noteq> promptJournalCommitted \<longrightarrow> (k, r) \<in> set m')
   \<and> length m' \<le> length m \<and> (length m' = length m \<longrightarrow> m' = m)"
proof (induction mx m rule: trimCommitted.induct)
  case (1 mx m)
  show ?case
  proof (cases "int (length m) > mx")
    case False
    then show ?thesis using 1(2,3) by (auto simp: trimCommitted.simps [of mx m])
  next
    case True
    with 1(2) obtain n where n: "evictOldestCommitted m = Inr n" and "length n < length m"
      and t: "trimCommitted mx n = Inr m'"
      by (auto simp: trimCommitted.simps [of mx m] split: sum.splits if_splits)
    obtain k r where d: "n = AList.delete (jr_Key r) m" and kr: "(k, r) \<in> set m"
      and c: "jr_Status r = promptJournalCommitted"
      using evict_Inr [OF n] by metis
    have kn: "keyed n" using trimCommitted_progress [OF 1(3) n] by simp
    have "jr_Key r = k" using 1(3) kr by (auto simp: keyed_def)
    then have sn: "set n = {p \<in> set m. fst p \<noteq> k}" using d by (simp add: set_delete_gomap)
    have only: "r' = r" if "(k, r') \<in> set m" for r'
      using that kr 1(3) by (auto simp: keyed_def dest: gomap_key_inject)
    note IH = 1(1) [OF True n \<open>length n < length m\<close> t kn]
    have "(k', r') \<in> set m'"
      if "(k', r') \<in> set m" "jr_Status r' \<noteq> promptJournalCommitted" for k' r'
    proof -
      have "(k', r') \<in> set n" using that sn only c by auto
      then show ?thesis using IH that(2) by blast
    qed
    then show ?thesis using IH sn \<open>length n < length m\<close> by auto
  qed
qed


text \<open>What a successful load returns, whichever of its two exits it takes.\<close>

definition limit_of :: "int \<Rightarrow> int" where
  "limit_of mx = (if mx \<le> 0 then maxAcceptedPromptIDs else mx)"

lemma load_Inr_cases:
  assumes "loadPromptJournal sha dev mx src fault = (Inr j, now)"
  obtains (fresh) "src = NoFile" "mem (pj_data j) = []" "now = Decoded (disk (pj_data j))"
      "disk (pj_data j) = encodeRecords (deviceHash sha dev) []"
      "pj_deviceHash j = deviceHash sha dev" "pj_max j = limit_of mx"
  | (loaded) d records ch where "src = Decoded d"
      "jd_Version d = 1 \<or> jd_Version d = promptJournalVersion"
      "jd_DeviceHash d = deviceHash sha dev"
      "loadRecords sha (deviceHash sha dev) (jd_Version d = 1) (jd_Records d) []
         (jd_Version d = 1) = Inr (records, ch)"
      "trimCommitted (limit_of mx) records = Inr (mem (pj_data j))"
      "now = Decoded (disk (pj_data j))"
      "disk (pj_data j) =
         (if ch \<or> length (mem (pj_data j)) \<noteq> length (jd_Records d)
          then encodeRecords (deviceHash sha dev) (mem (pj_data j)) else d)"
      "pj_deviceHash j = deviceHash sha dev" "pj_max j = limit_of mx"
proof (cases src)
  case NoFile
  with assms show ?thesis
    by (intro fresh)
      (auto simp: loadPromptJournal_def Let_def persist_def limit_of_def split: option.splits)
next
  case (Decoded d)
  let ?l = "loadRecords sha (deviceHash sha dev) (jd_Version d = 1) (jd_Records d) []
              (jd_Version d = 1)"
  from Decoded assms have v: "jd_Version d = 1 \<or> jd_Version d = promptJournalVersion"
    and h: "jd_DeviceHash d = deviceHash sha dev"
    by (auto simp: loadPromptJournal_def Let_def split: if_splits)
  with Decoded assms obtain records ch where l: "?l = Inr (records, ch)"
    by (cases ?l) (auto simp: loadPromptJournal_def Let_def)
  with Decoded assms v h obtain m where t: "trimCommitted (limit_of mx) records = Inr m"
    by (cases "trimCommitted (limit_of mx) records")
      (auto simp: loadPromptJournal_def Let_def limit_of_def)
  show ?thesis
    using Decoded assms v h l t
    by (intro loaded [OF Decoded v h l])
      (auto simp: loadPromptJournal_def Let_def limit_of_def persist_def
        split: if_splits option.splits)
qed (use assms in \<open>simp_all add: loadPromptJournal_def Let_def\<close>)

lemma loadRecords_record_ok:
  assumes "loadRecords sha hash False rs [] ch = Inr (m, ch')"
  shows "\<forall>(k, r) \<in> set m. pj_record_ok sha hash r \<and> length (jr_PromptEcho r) \<le> 512
           \<and> jr_Status r \<noteq> promptJournalDispatching"
    and "\<not> ch' \<Longrightarrow> map snd m = rs"
proof -
  obtain rs' where m: "m = map (\<lambda>r. (jr_Key r, r)) rs'"
    and l: "list_all2 (\<lambda>r r'. \<exists>c. normalizeRecord sha hash False r = Inr (r', c) \<and> (c \<longrightarrow> ch')) rs rs'"
    using loadRecords_Inr [OF assms] by auto
  have "pj_record_ok sha hash r \<and> length (jr_PromptEcho r) \<le> 512
        \<and> jr_Status r \<noteq> promptJournalDispatching" if r: "r \<in> set rs'" for r
  proof -
    obtain r0 c where "normalizeRecord sha hash False r0 = Inr (r, c)"
      using l r by (auto simp: list_all2_conv_all_nth in_set_conv_nth)
    from normalizeRecord_Inr [OF this] show ?thesis
      by (auto simp: recovered_status_def)
  qed
  then show "\<forall>(k, r) \<in> set m. pj_record_ok sha hash r \<and> length (jr_PromptEcho r) \<le> 512
           \<and> jr_Status r \<noteq> promptJournalDispatching"
    using m by auto
  show "map snd m = rs" if "\<not> ch'"
  proof -
    have "list_all2 (=) rs rs'"
      using l by (rule list_all2_mono) (use that in \<open>auto dest!: normalizeRecord_Inr(6)\<close>)
    then show ?thesis using m by (simp add: list.rel_eq comp_def)
  qed
qed

text \<open>A load that succeeds on a file of the current version (or on none) returns a
  well-formed journal for this device, whatever the file held: bad keys, statuses, duplicate
  or foreign records make the load fail instead.  No record is left in the dispatching state,
  and the file on disk is the one the journal believes in.\<close>

theorem load_establishes_invariant:
  assumes "hex_digest sha" and "loadPromptJournal sha dev mx src fault = (Inr j, now)"
    and "\<And>d. src = Decoded d \<Longrightarrow> jd_Version d \<noteq> 1"
  shows "pj_wf sha j \<and> pj_deviceHash j = deviceHash sha dev \<and> now = Decoded (disk (pj_data j))
    \<and> (\<forall>(k, r) \<in> set (mem (pj_data j)). jr_Status r \<noteq> promptJournalDispatching)"
proof -
  have hash: "validJournalKey (deviceHash sha dev)"
    using assms(1) by (simp add: hex_digest_def deviceHash_def)
  have mx: "0 < limit_of mx" by (simp add: limit_of_def maxAcceptedPromptIDs_def)
  from assms(2) show ?thesis
  proof (cases rule: load_Inr_cases)
    case fresh
    then have "pj_map_ok sha (pj_deviceHash j) (pj_max j) (mem (pj_data j))"
      using assms(1) hash mx by (simp add: pj_map_ok_def keyed_def)
    then show ?thesis using fresh encodeRecords_ok by (force simp: pj_wf_def)
  next
    case (loaded d records ch)
    have v: "jd_Version d \<noteq> 1" using assms(3) loaded(1) by blast
    note l = loaded(4) [simplified v]
    note rec = loadRecords_record_ok [OF l]
    note t = trimCommitted_Inr [OF loaded(5) loadRecords_keyed(1) [OF l]]
    have ok: "pj_map_ok sha (pj_deviceHash j) (pj_max j) (mem (pj_data j))"
      using t rec(1) assms(1) hash mx loaded(8,9) by (auto simp: pj_map_ok_def)
    moreover have "pj_file_ok sha (pj_deviceHash j) (pj_max j) (disk (pj_data j))"
    proof (cases "ch \<or> length (mem (pj_data j)) \<noteq> length (jd_Records d)")
      case True
      then show ?thesis using encodeRecords_ok [OF ok] loaded(7,8) by simp
    next
      case False
      then have same: "mem (pj_data j) = records" "map snd records = jd_Records d"
        "disk (pj_data j) = d"
        using t rec(2) loadRecords_keyed(2) [OF l] loaded(7) by auto
      have "distinct (map jr_Key (jd_Records d))"
        using keyed_distinct [OF loadRecords_keyed(1) [OF l]] same(2) by simp
      moreover have "\<forall>r \<in> set (jd_Records d). pj_record_ok sha (pj_deviceHash j) r"
        using rec(1) same(2) [symmetric] loaded(8) by auto
      moreover have "length (jd_Records d) = length records" using same(2) by (metis length_map)
      ultimately show ?thesis
        using same loaded(2,3,8) ok v by (simp add: pj_file_ok_def pj_map_ok_def)
    qed
    ultimately show ?thesis using rec(1) t loaded by (auto simp: pj_wf_def)
  qed
qed

section \<open>At most one dispatch\<close>

text \<open>
  The daemon process over time: it is up with a journal or down with a file.  An event is a
  call of an operation, with the fault its write meets, or a restart, which drops the memory
  and reads the file.  \<open>dispatches\<close> lists the keys for which \<open>markDispatching\<close> returned nil,
  which is what licenses the daemon to hand the prompt to an agent.
\<close>

datatype journal_op =
    JDispatch nanos string string string
  | JAccept nanos string string
  | JIndeterminate nanos string string
  | JCommit nanos string string
  | JRollback string string

fun run_op ::
  "(string \<Rightarrow> string) \<Rightarrow> journal_op \<Rightarrow> persist_step option \<Rightarrow> promptJournal
   \<Rightarrow> promptJournal \<times> journal_error option" where
  "run_op sha (JDispatch now s c p) fault j = markDispatching sha now fault s c p j"
| "run_op sha (JAccept now s c) fault j = markAccepted sha now fault s c j"
| "run_op sha (JIndeterminate now s c) fault j = markIndeterminate sha now fault s c j"
| "run_op sha (JCommit now s c) fault j = markCommitted sha now fault s c j"
| "run_op sha (JRollback s c) fault j = rollbackDispatching sha fault s c j"

fun dispatched_key :: "(string \<Rightarrow> string) \<Rightarrow> string \<Rightarrow> journal_op \<Rightarrow> string option" where
  "dispatched_key sha hash (JDispatch now s c p) = Some (promptJournalKeyFromHash sha hash s c)"
| "dispatched_key sha hash _ = None"

fun released_key :: "(string \<Rightarrow> string) \<Rightarrow> string \<Rightarrow> journal_op \<Rightarrow> string option" where
  "released_key sha hash (JCommit now s c) = Some (promptJournalKeyFromHash sha hash s c)"
| "released_key sha hash (JRollback s c) = Some (promptJournalKeyFromHash sha hash s c)"
| "released_key sha hash _ = None"

datatype journal_event =
    JCall journal_op "persist_step option"
  | JRestart "persist_step option"

datatype journal_proc = Up promptJournal | Down journal_source

fun proc_source :: "journal_proc \<Rightarrow> journal_source" where
  "proc_source (Up j) = Decoded (disk (pj_data j))"
| "proc_source (Down src) = src"

fun journal_run ::
  "(string \<Rightarrow> string) \<Rightarrow> string \<Rightarrow> int \<Rightarrow> journal_event \<Rightarrow> journal_proc
   \<Rightarrow> journal_proc \<times> string option" where
  "journal_run sha dev mx (JCall op fault) (Up j) =
     (case run_op sha op fault j of
        (j', Some e) \<Rightarrow> (Up j', None)
      | (j', None) \<Rightarrow> (Up j', dispatched_key sha (pj_deviceHash j) op))"
| "journal_run sha dev mx (JCall op fault) (Down src) = (Down src, None)"
| "journal_run sha dev mx (JRestart fault) p =
     (case loadPromptJournal sha dev mx (proc_source p) fault of
        (Inl e, now) \<Rightarrow> (Down now, None)
      | (Inr j, now) \<Rightarrow> (Up j, None))"

fun dispatches ::
  "(string \<Rightarrow> string) \<Rightarrow> string \<Rightarrow> int \<Rightarrow> journal_event list \<Rightarrow> journal_proc \<Rightarrow> string list" where
  "dispatches sha dev mx [] p = []"
| "dispatches sha dev mx (ev # evs) p =
     (case journal_run sha dev mx ev p of
        (p', None) \<Rightarrow> dispatches sha dev mx evs p'
      | (p', Some key) \<Rightarrow> key # dispatches sha dev mx evs p')"

definition guards :: "string \<Rightarrow> journal_map \<Rightarrow> bool" where
  "guards key m \<longleftrightarrow> (\<exists>r. map_of m key = Some r \<and> jr_Status r \<noteq> promptJournalCommitted)"

definition guards_file :: "string \<Rightarrow> promptJournalDisk \<Rightarrow> bool" where
  "guards_file key d \<longleftrightarrow>
     (\<exists>r \<in> set (jd_Records d). jr_Key r = key \<and> jr_Status r \<noteq> promptJournalCommitted)"

fun proc_ok :: "string \<Rightarrow> journal_proc \<Rightarrow> bool" where
  "proc_ok hash (Up j) \<longleftrightarrow> keyed (mem (pj_data j)) \<and> pj_deviceHash j = hash"
| "proc_ok hash (Down src) \<longleftrightarrow> True"

fun guarded :: "string \<Rightarrow> journal_proc \<Rightarrow> bool" where
  "guarded key (Up j) \<longleftrightarrow> guards key (mem (pj_data j)) \<and> guards_file key (disk (pj_data j))"
| "guarded key (Down (Decoded d)) \<longleftrightarrow> guards_file key d"
| "guarded key (Down _) \<longleftrightarrow> False"

lemma encode_guards:
  assumes "keyed m" and "guards key m" and "validJournalKey key"
  shows "guards_file key (encodeRecords hash m)"
proof -
  obtain r where r: "map_of m key = Some r" "jr_Status r \<noteq> promptJournalCommitted"
    using assms(2) by (auto simp: guards_def)
  then have "jr_Key r = key" "r \<in> set (map snd m)"
    using assms(1) map_of_SomeD [OF r(1)] by (auto intro: keyed_lookup rev_image_eqI)
  moreover from this have "json_record r \<in> set (jd_Records (encodeRecords hash m))"
    by (simp add: encodeRecords_def)
  ultimately have "json_record r \<in> set (jd_Records (encodeRecords hash m))"
    "jr_Key (json_record r) = key" "jr_Status (json_record r) = jr_Status r"
    using assms(3) by (simp_all add: json_record_def validJournalKey_coerce)
  then show ?thesis using r(2) unfolding guards_file_def by metis
qed

lemma persist_guards:
  assumes "(j', e) = persistRecords fault m' j" and "keyed m'" and "keyed (mem (pj_data j))"
    and "guards key m'" and "e \<noteq> None \<longrightarrow> guarded key (Up j)" and "validJournalKey key"
  shows "guarded key (Up j')"
proof -
  have d: "pj_data j' = fst (commit (encodeRecords (pj_deviceHash j)) fault m' (pj_data j))"
    using assms(1) persistRecords_data [of fault m' j] by (metis fst_conv)
  have e: "e = map_option PersistFailed fault"
    using assms(1) persistRecords_fields(3) [of fault m' j] by (metis snd_conv)
  show ?thesis
    using assms(4,5) d e encode_guards [OF assms(2,4,6)]
    by (cases rule: commit_cases [of fault "encodeRecords (pj_deviceHash j)" m' "pj_data j"]) auto
qed

lemma persist_keyed:
  assumes "(j', e) = persistRecords fault m' j" and "keyed m'" and "keyed (mem (pj_data j))"
  shows "keyed (mem (pj_data j'))"
proof -
  have d: "pj_data j' = fst (commit (encodeRecords (pj_deviceHash j)) fault m' (pj_data j))"
    using assms(1) persistRecords_data [of fault m' j] by (metis fst_conv)
  show ?thesis
    using assms(2,3) d
    by (cases rule: commit_cases [of fault "encodeRecords (pj_deviceHash j)" m' "pj_data j"]) auto
qed

lemma guards_evict:
  assumes "evictOldestCommitted m = Inr m'" and "keyed m" and "guards key m"
  shows "guards key m'"
proof -
  obtain k r where m': "m' = AList.delete (jr_Key r) m" and r: "(k, r) \<in> set m"
    "jr_Status r = promptJournalCommitted" using evict_Inr [OF assms(1)] by metis
  have "jr_Key r = k" using assms(2) r(1) by (auto simp: keyed_def)
  then have "map_of m (jr_Key r) = Some r"
    using assms(2) r(1) by (simp add: keyed_def gomap_mem)
  then show ?thesis using assms(3) m' r(2) by (auto simp: guards_def)
qed

text \<open>
  The one fact about the operations the argument needs: an operation either leaves the journal
  alone or persists a map \<open>m'\<close> that keeps every guarded key it does not release, and a
  successful dispatch was not guarded before and is afterwards.
\<close>

lemma transition_persists:
  assumes "transition sha now fault s c st j = (j', e)" and "keyed (mem (pj_data j))"
  shows "j' = j \<or> (\<exists>m'. (j', e) = persistRecords fault m' j \<and> keyed m' \<and>
    (\<forall>key. guards key (mem (pj_data j)) \<longrightarrow>
       (st = promptJournalCommitted \<longrightarrow>
          key \<noteq> promptJournalKeyFromHash sha (pj_deviceHash j) s c) \<longrightarrow> guards key m'))"
  using assms(1)
proof (cases rule: transition_cases)
  case (written key current r)
  have "jr_Key r = key" using written(3,5) keyed_lookup [OF assms(2)] by simp
  then have "keyed (AList.update key r (mem (pj_data j)))"
    using assms(2) by (simp add: keyed_update)
  moreover have "jr_Status r = st" using written(5) by simp
  ultimately show ?thesis
    using written(2,6) by (intro disjI2 exI conjI) (assumption, auto simp: guards_def)
qed simp

lemma markDispatching_persists:
  assumes "markDispatching sha now fault s c p j = (j', e)" and "keyed (mem (pj_data j))"
    and key: "key = promptJournalKeyFromHash sha (pj_deviceHash j) s c"
  shows "(j' = j \<and> e \<noteq> None) \<or> (\<exists>m'. (j', e) = persistRecords fault m' j \<and> keyed m' \<and>
    (\<forall>k. guards k (mem (pj_data j)) \<longrightarrow> guards k m')
    \<and> \<not> guards key (mem (pj_data j)) \<and> guards key m')"
  using assms(1)
proof (cases rule: markDispatching_cases)
  case (written key' nxt)
  have nxt: "keyed nxt" "\<forall>k. guards k (mem (pj_data j)) \<longrightarrow> guards k nxt"
    using written(4) assms(2) trimCommitted_progress guards_evict by blast+
  then show ?thesis
    using written(2,3,5) key
    by (intro disjI2 exI conjI) (assumption, auto simp: guards_def keyed_update)
qed simp

lemma rollback_persists:
  assumes "rollbackDispatching sha fault s c j = (j', e)" and "keyed (mem (pj_data j))"
  shows "j' = j \<or> (\<exists>m'. (j', e) = persistRecords fault m' j \<and> keyed m' \<and>
    (\<forall>key. guards key (mem (pj_data j)) \<longrightarrow>
       key \<noteq> promptJournalKeyFromHash sha (pj_deviceHash j) s c \<longrightarrow> guards key m'))"
  using assms(1)
proof (cases rule: rollback_cases)
  case (written key current)
  then show ?thesis
    using assms(2) by (intro disjI2 exI conjI) (assumption, auto simp: guards_def keyed_delete)
qed simp

lemma run_op_persists:
  assumes "run_op sha op fault j = (j', e)" and "keyed (mem (pj_data j))"
  shows "(j' = j \<and> (dispatched_key sha (pj_deviceHash j) op \<noteq> None \<longrightarrow> e \<noteq> None)) \<or>
    (\<exists>m'. (j', e) = persistRecords fault m' j \<and> keyed m' \<and>
      (\<forall>key. guards key (mem (pj_data j)) \<longrightarrow>
         released_key sha (pj_deviceHash j) op \<noteq> Some key \<longrightarrow> guards key m') \<and>
      (\<forall>key. dispatched_key sha (pj_deviceHash j) op = Some key \<longrightarrow>
         \<not> guards key (mem (pj_data j)) \<and> guards key m'))"
proof (cases op)
  case (JDispatch now s c p)
  then show ?thesis using markDispatching_persists [OF _ assms(2) refl] assms(1) by fastforce
next
  case (JAccept now s c)
  then show ?thesis
    using transition_persists [OF _ assms(2)] assms(1) by (fastforce simp: markAccepted_def)
next
  case (JIndeterminate now s c)
  then show ?thesis
    using transition_persists [OF _ assms(2)] assms(1) by (fastforce simp: markIndeterminate_def)
next
  case (JCommit now s c)
  then show ?thesis
    using transition_persists [OF _ assms(2)] assms(1) by (fastforce simp: markCommitted_def)
next
  case (JRollback s c)
  then show ?thesis using rollback_persists [OF _ assms(2)] assms(1) by fastforce
qed

lemma load_guards:
  assumes "loadRecords sha hash v rs [] ch = Inr (m, ch')" and "trimCommitted mx m = Inr m'"
  shows "keyed m'"
    and "\<exists>r \<in> set rs. jr_Key r = key \<and> jr_Status r \<noteq> promptJournalCommitted \<Longrightarrow> guards key m'"
proof -
  note k = loadRecords_keyed(1) [OF assms(1)]
  note t = trimCommitted_Inr [OF assms(2) k]
  show "keyed m'" using t by simp
  assume "\<exists>r \<in> set rs. jr_Key r = key \<and> jr_Status r \<noteq> promptJournalCommitted"
  then obtain r where r: "r \<in> set rs" "jr_Key r = key" "jr_Status r \<noteq> promptJournalCommitted"
    by blast
  obtain rs' where m: "m = map (\<lambda>r. (jr_Key r, r)) rs'"
    and l: "list_all2 (\<lambda>r r'. \<exists>c. normalizeRecord sha hash v r = Inr (r', c) \<and> (c \<longrightarrow> ch')) rs rs'"
    using loadRecords_Inr [OF assms(1)] by auto
  obtain i where i: "i < length rs" "r = rs ! i" using r(1) by (auto simp: in_set_conv_nth)
  then have "rs' ! i \<in> set rs'" using list_all2_lengthD [OF l] by simp
  with list_all2_nthD [OF l i(1)] i(2) obtain r' c where
    r': "r' \<in> set rs'" "normalizeRecord sha hash v r = Inr (r', c)" by blast
  then have "(key, r') \<in> set m" "jr_Status r' \<noteq> promptJournalCommitted"
    using normalizeRecord_Inr(1,2) [OF r'(2)] r m by (auto simp: recovered_status_def)
  then have "(key, r') \<in> set m'" using t by blast
  then show "guards key m'"
    using t \<open>jr_Status r' \<noteq> promptJournalCommitted\<close> by (auto simp: guards_def keyed_def gomap_mem)
qed

lemma load_error_cases:
  assumes "loadPromptJournal sha dev mx (Decoded d) fault = (Inl e, now)"
  obtains (kept) "now = Decoded d"
  | (replaced) records ch m where
      "loadRecords sha (deviceHash sha dev) (jd_Version d = 1) (jd_Records d) []
         (jd_Version d = 1) = Inr (records, ch)"
      "trimCommitted (limit_of mx) records = Inr m"
      "now = Decoded (encodeRecords (deviceHash sha dev) m)"
proof -
  let ?l = "loadRecords sha (deviceHash sha dev) (jd_Version d = 1) (jd_Records d) []
              (jd_Version d = 1)"
  show thesis
  proof (cases "now = Decoded d")
    case False
    with assms obtain records ch where l: "?l = Inr (records, ch)"
      by (cases ?l) (auto simp: loadPromptJournal_def Let_def split: if_splits)
    with assms False obtain m where t: "trimCommitted (limit_of mx) records = Inr m"
      by (cases "trimCommitted (limit_of mx) records")
        (auto simp: loadPromptJournal_def Let_def limit_of_def split: if_splits)
    show thesis
      using assms False l t
      by (intro replaced [OF l t])
        (auto simp: loadPromptJournal_def Let_def limit_of_def persist_def
          split: if_splits option.splits)
  qed (rule kept)
qed

lemma restart_keeps_guard:
  assumes "journal_run sha dev mx (JRestart fault) p = (p', out)" and "hex_digest sha"
  shows "proc_ok (deviceHash sha dev) p'" and "out = None"
    and "validJournalKey key \<Longrightarrow> guarded key p \<Longrightarrow> guarded key p'"
proof -
  let ?load = "loadPromptJournal sha dev mx (proc_source p) fault"
  obtain res now where load: "?load = (res, now)" by force
  show "out = None" using assms(1) load by (auto split: sum.splits)
  show "proc_ok (deviceHash sha dev) p'"
  proof (cases res)
    case (Inr j)
    then have "?load = (Inr j, now)" using load by simp
    then have "keyed (mem (pj_data j)) \<and> pj_deviceHash j = deviceHash sha dev"
    proof (cases rule: load_Inr_cases)
      case (loaded d records ch)
      then show ?thesis using load_guards(1) [OF loaded(4,5)] by simp
    qed (simp add: keyed_def)
    then show ?thesis using assms(1) load Inr by auto
  qed (use assms(1) load in auto)
  assume key: "validJournalKey key" and g: "guarded key p"
  then obtain d where d: "proc_source p = Decoded d" "guards_file key d"
    by (cases p rule: proc_source.cases; auto elim: guarded.elims)
  show "guarded key p'"
  proof (cases res)
    case (Inl e)
    then have "loadPromptJournal sha dev mx (Decoded d) fault = (Inl e, now)" using load d by simp
    then have "guarded key (Down now)"
    proof (cases rule: load_error_cases)
      case (replaced records ch m)
      then show ?thesis
        using load_guards [OF replaced(1,2)] d(2) encode_guards key by (auto simp: guards_file_def)
    qed (use d in simp)
    then show ?thesis using assms(1) load Inl by auto
  next
    case (Inr j)
    then have "?load = (Inr j, now)" using load by simp
    then have "guarded key (Up j)"
    proof (cases rule: load_Inr_cases)
      case (loaded d' records ch)
      then have "guards key (mem (pj_data j)) \<and> keyed (mem (pj_data j))"
        using load_guards [OF loaded(4,5)] d by (auto simp: guards_file_def)
      then show ?thesis using loaded(1,7) d encode_guards key by auto
    qed (use d in simp)
    then show ?thesis using assms(1) load Inr by auto
  qed
qed

lemma call_keeps_guard:
  assumes "journal_run sha dev mx (JCall op fault) p = (p', out)"
    and ok: "proc_ok (deviceHash sha dev) p"
  shows "proc_ok (deviceHash sha dev) p'"
    and "validJournalKey key \<Longrightarrow> guarded key p \<Longrightarrow>
         released_key sha (deviceHash sha dev) op \<noteq> Some key \<Longrightarrow> guarded key p'"
    and "out = Some key \<Longrightarrow> validJournalKey key \<Longrightarrow> \<not> guarded key p \<and> guarded key p'"
proof -
  have "proc_ok (deviceHash sha dev) p'
     \<and> (validJournalKey key \<longrightarrow> guarded key p \<longrightarrow>
         released_key sha (deviceHash sha dev) op \<noteq> Some key \<longrightarrow> guarded key p')
     \<and> (out = Some key \<longrightarrow> validJournalKey key \<longrightarrow> \<not> guarded key p \<and> guarded key p')"
  proof (cases p)
    case (Up j)
    obtain j' e where run: "run_op sha op fault j = (j', e)" by force
    have k: "keyed (mem (pj_data j))" and h: "pj_deviceHash j = deviceHash sha dev"
      using ok Up by simp_all
    have p': "p' = Up j'" and out: "out = (if e = None then dispatched_key sha (pj_deviceHash j) op else None)"
      using assms(1) Up run by (auto split: option.splits)
    consider (same) "j' = j" "dispatched_key sha (pj_deviceHash j) op \<noteq> None \<longrightarrow> e \<noteq> None"
      | (wrote) m' where "(j', e) = persistRecords fault m' j" "keyed m'"
        "guards key (mem (pj_data j)) \<longrightarrow>
         released_key sha (pj_deviceHash j) op \<noteq> Some key \<longrightarrow> guards key m'"
        "dispatched_key sha (pj_deviceHash j) op = Some key \<longrightarrow>
         \<not> guards key (mem (pj_data j)) \<and> guards key m'"
      using run_op_persists [OF run k] by blast
    then show ?thesis
    proof cases
      case same
      then show ?thesis using p' out Up ok by (auto split: if_splits)
    next
      case wrote
      note pg = persist_guards [OF wrote(1,2) k]
      have "proc_ok (deviceHash sha dev) p'"
        using p' h persist_keyed [OF wrote(1,2) k] persisted_fields [OF wrote(1)] by simp
      then show ?thesis using p' out Up h wrote(3,4) pg by (auto split: if_splits)
    qed
  qed (use assms(1) in auto)
  then show "proc_ok (deviceHash sha dev) p'"
    and "validJournalKey key \<Longrightarrow> guarded key p \<Longrightarrow>
         released_key sha (deviceHash sha dev) op \<noteq> Some key \<Longrightarrow> guarded key p'"
    and "out = Some key \<Longrightarrow> validJournalKey key \<Longrightarrow> \<not> guarded key p \<and> guarded key p'"
    by blast+
qed

lemma journal_run_keeps_guard:
  assumes "journal_run sha dev mx ev p = (p', out)" and "proc_ok (deviceHash sha dev) p"
    and "hex_digest sha" and "validJournalKey key"
    and "\<forall>op fault. ev = JCall op fault \<longrightarrow> released_key sha (deviceHash sha dev) op \<noteq> Some key"
  shows "proc_ok (deviceHash sha dev) p'" and "guarded key p \<Longrightarrow> guarded key p'"
    and "out = Some key \<Longrightarrow> \<not> guarded key p \<and> guarded key p'"
proof -
  have "proc_ok (deviceHash sha dev) p' \<and> (guarded key p \<longrightarrow> guarded key p')
    \<and> (out = Some key \<longrightarrow> \<not> guarded key p \<and> guarded key p')"
  proof (cases ev)
    case (JCall op fault)
    then show ?thesis
      using call_keeps_guard [of sha dev mx op fault p p' out] assms by auto
  next
    case (JRestart fault)
    then show ?thesis using restart_keeps_guard [of sha dev mx fault p p' out] assms by auto
  qed
  then show "proc_ok (deviceHash sha dev) p'" and "guarded key p \<Longrightarrow> guarded key p'"
    and "out = Some key \<Longrightarrow> \<not> guarded key p \<and> guarded key p'" by blast+
qed

lemma dispatches_bound:
  assumes "hex_digest sha" and "validJournalKey key"
  shows "proc_ok (deviceHash sha dev) p \<Longrightarrow>
    (\<forall>op fault. JCall op fault \<in> set evs \<longrightarrow>
       released_key sha (deviceHash sha dev) op \<noteq> Some key) \<Longrightarrow>
    count_list (dispatches sha dev mx evs p) key \<le> (if guarded key p then 0 else 1)"
proof (induction evs arbitrary: p)
  case (Cons ev evs)
  obtain p' out where run: "journal_run sha dev mx ev p = (p', out)" by force
  have "\<forall>op fault. ev = JCall op fault \<longrightarrow> released_key sha (deviceHash sha dev) op \<noteq> Some key"
    using Cons.prems(2) by simp
  note step = journal_run_keeps_guard [OF run Cons.prems(1) assms this]
  have "count_list (dispatches sha dev mx evs p') key \<le> (if guarded key p' then 0 else 1)"
    by (rule Cons.IH [OF step(1)]) (use Cons.prems(2) in auto)
  then show ?case
    using run step(2,3) by (auto split: option.splits if_splits)
qed simp

text \<open>C4. At most one dispatch.  Start the daemon on any file and let it run through any
  sequence of journal calls, restarts and file system faults.  As long as a command is neither
  rolled back nor committed, \<open>markDispatching\<close> succeeds for it at most once, so the prompt
  crosses the agent boundary at most once, even across crashes between the write and the
  answer.\<close>

theorem dispatch_at_most_once:
  assumes "hex_digest sha"
    and "\<forall>op fault. JCall op fault \<in> set evs \<longrightarrow>
           released_key sha (deviceHash sha dev) op
           \<noteq> Some (promptJournalKeyFromHash sha (deviceHash sha dev) s c)"
  shows "count_list (dispatches sha dev mx evs (Down src))
           (promptJournalKeyFromHash sha (deviceHash sha dev) s c) \<le> 1"
proof -
  let ?key = "promptJournalKeyFromHash sha (deviceHash sha dev) s c"
  have "validJournalKey ?key"
    using assms(1) by (simp add: hex_digest_def promptJournalKeyFromHash_def)
  from dispatches_bound [OF assms(1) this _ assms(2), of "Down src" mx] show ?thesis
    by (simp split: if_splits)
qed

section \<open>A digest for the witnesses\<close>

text \<open>
  A function with the shape of a digest, 64 hexadecimal digits, that tells short inputs apart.
  It shows that the hypothesis on SHA-256 can hold.
\<close>

definition hex_char :: "nat \<Rightarrow> char" where
  "hex_char n = char_of (if n < 10 then 48 + n else 87 + n)"

definition demo_sha :: "string \<Rightarrow> string" where
  "demo_sha x =
     take 64 (concat (map (\<lambda>c. [hex_char (byte c div 16), hex_char (byte c mod 16)]) (rev x))
              @ replicate 64 (CHR ''0''))"

lemma is_hex_char: "n < 16 \<Longrightarrow> is_hex (hex_char n)"
  by (simp add: hex_char_def is_hex_def byte_def)

lemma byte_lt: "byte c < 256"
  using nat_of_char_less_256 [of c] by (simp add: byte_def)

lemma hex_digest_demo: "hex_digest demo_sha"
proof -
  have "list_all is_hex (demo_sha x)" for x
  proof -
    have "list_all is_hex
        (concat (map (\<lambda>c. [hex_char (byte c div 16), hex_char (byte c mod 16)]) (rev x))
         @ replicate 64 (CHR ''0''))"
    proof -
      have "is_hex (hex_char (byte c div 16)) \<and> is_hex (hex_char (byte c mod 16))" for c
        using byte_lt [of c] by (simp add: is_hex_char less_mult_imp_div_less)
      moreover have "is_hex (CHR ''0'')" by (simp add: is_hex_def byte_def)
      ultimately show ?thesis by (auto simp: list_all_iff)
    qed
    then show ?thesis unfolding demo_sha_def list_all_iff by (meson in_set_takeD)
  qed
  moreover have "length (demo_sha x) = 64" for x by (simp add: demo_sha_def del: take_append)
  ultimately show ?thesis by (simp add: hex_digest_def validJournalKey_def)
qed

definition demo_journal :: promptJournal where
  "demo_journal =
     \<lparr>pj_deviceHash = deviceHash demo_sha ''dev'', pj_max = 2,
      pj_data = \<lparr>mem = [], disk = encodeRecords (deviceHash demo_sha ''dev'') []\<rparr>\<rparr>"

lemma demo_journal_wf: "pj_wf demo_sha demo_journal"
proof -
  have "pj_map_ok demo_sha (deviceHash demo_sha ''dev'') 2 []"
    using hex_digest_demo by (simp add: pj_map_ok_def keyed_def deviceHash_def hex_digest_def)
  then show ?thesis using encodeRecords_ok by (simp add: pj_wf_def demo_journal_def)
qed

theorem journal_invariant_witness:
  "pj_wf demo_sha
     (fst (markDispatching demo_sha 7 (Some ChmodFinal) ''s'' ''c'' ''hi'' demo_journal))"
  by (rule journal_invariant [OF r_into_rtranclp [of "pj_step demo_sha"] demo_journal_wf])
    (rule dispatch)

theorem load_establishes_invariant_witness:
  "loadPromptJournal demo_sha ''dev'' 2 NoFile None = (Inr demo_journal, Decoded (disk (pj_data demo_journal)))
   \<and> pj_wf demo_sha demo_journal"
proof -
  have l: "loadPromptJournal demo_sha ''dev'' 2 NoFile None
        = (Inr demo_journal, Decoded (disk (pj_data demo_journal)))"
    by (simp add: loadPromptJournal_def Let_def persist_def demo_journal_def)
  then show ?thesis using load_establishes_invariant [OF hex_digest_demo l] by simp
qed

definition demo_events :: "journal_event list" where
  "demo_events =
     [JRestart None, JCall (JDispatch 1 ''s'' ''c'' ''hi'') None, JRestart None,
      JCall (JDispatch 2 ''s'' ''c'' ''hi'') None]"

theorem dispatch_at_most_once_witness:
  "count_list (dispatches demo_sha ''dev'' 2 demo_events (Down NoFile))
     (promptJournalKeyFromHash demo_sha (deviceHash demo_sha ''dev'') ''s'' ''c'') \<le> 1"
  by (rule dispatch_at_most_once [OF hex_digest_demo]) (simp add: demo_events_def)

section \<open>Reading back what was written\<close>

definition recover :: "promptJournalRecord \<Rightarrow> promptJournalRecord" where
  "recover r =
     r\<lparr>jr_Status := recovered_status (jr_Status r),
       jr_PromptEcho := boundedUTF8 (json_coerce (jr_PromptEcho r)) maxPromptJournalEchoBytes\<rparr>"

lemma normalize_written:
  assumes "pj_record_ok sha hash r"
  shows "\<exists>c. normalizeRecord sha hash False (json_record r) = Inr (recover r, c)"
proof -
  have k: "json_coerce (jr_Key r) = jr_Key r"
    using assms by (simp add: pj_record_ok_def validJournalKey_coerce)
  have ids: "json_coerce (jr_SessionID r) = jr_SessionID r"
    "json_coerce (jr_ClientMsgID r) = jr_ClientMsgID r"
    using assms validateJournalIdentifiers_None [of "jr_SessionID r" "jr_ClientMsgID r"]
    by (auto simp: pj_record_ok_def json_coerce_valid split: if_splits)
  have j: "json_record r = r\<lparr>jr_PromptEcho := json_coerce (jr_PromptEcho r)\<rparr>"
    using k ids by (simp add: json_record_def)
  then have "normalize_identifiers sha hash False (json_record r) = Inr (json_record r)"
    using assms by (auto simp: normalize_identifiers_def pj_record_ok_def split: if_splits)
  moreover have "normalize_status (json_record r)
      = Inr (json_record r\<lparr>jr_Status := recovered_status (jr_Status r)\<rparr>,
             jr_Status r = promptJournalDispatching)"
    using assms j by (subst normalize_status_Inr) (simp add: pj_record_ok_def)
  ultimately show ?thesis
    using j by (simp add: normalizeRecord_def normalize_echo_eq recover_def)
qed

lemma loadRecords_written:
  assumes "\<forall>x \<in> set xs. \<exists>c. normalizeRecord sha hash v (g x) = Inr (f x, c)"
    and "distinct (map (\<lambda>x. jr_Key (f x)) xs)" and "\<forall>x \<in> set xs. jr_Key (f x) \<notin> fst ` set acc"
  shows "\<exists>ch'. loadRecords sha hash v (map g xs) acc ch
               = Inr (acc @ map (\<lambda>x. (jr_Key (f x), f x)) xs, ch')"
  using assms
proof (induction xs arbitrary: acc ch)
  case (Cons x xs)
  obtain c where n: "normalizeRecord sha hash v (g x) = Inr (f x, c)"
    using Cons.prems(1) by auto
  have fresh: "map_of acc (jr_Key (f x)) = None"
    "AList.update (jr_Key (f x)) (f x) acc = acc @ [(jr_Key (f x), f x)]"
    using Cons.prems(3) by (simp_all add: map_of_None_fst update_new)
  have "jr_Key (f y) \<noteq> jr_Key (f x)" if "y \<in> set xs" for y
    using Cons.prems(2) that by (auto simp: image_iff)
  then have "\<exists>ch'. loadRecords sha hash v (map g xs) (acc @ [(jr_Key (f x), f x)]) (ch \<or> c)
      = Inr ((acc @ [(jr_Key (f x), f x)]) @ map (\<lambda>x. (jr_Key (f x), f x)) xs, ch')"
    by (intro Cons.IH) (use Cons.prems in auto)
  then show ?case using n fresh by simp
qed simp

text \<open>C37. Round trip: restarting on the file that any operation wrote gives back exactly the
  records that were in memory, with an interrupted dispatch turned into indeterminate and the
  echo re-bounded after the JSON encoding; no record is lost and none appears.\<close>

theorem load_of_written_file:
  assumes "pj_map_ok sha (deviceHash sha dev) mx m"
  shows "\<exists>j now. loadPromptJournal sha dev mx
           (Decoded (encodeRecords (deviceHash sha dev) m)) None = (Inr j, now)
         \<and> (\<forall>k. map_of (mem (pj_data j)) k = map_option recover (map_of m k))
         \<and> now = Decoded (disk (pj_data j))"
proof -
  let ?hash = "deviceHash sha dev"
  let ?rs = "sort_key (\<lambda>r. (jr_UpdatedAt r, jr_Key r)) (map snd m)"
  let ?d = "encodeRecords ?hash m"
  have ok: "\<forall>r \<in> set ?rs. pj_record_ok sha ?hash r" using assms by (auto simp: pj_map_ok_def)
  have d: "jd_Version ?d \<noteq> 1" "jd_Version ?d = promptJournalVersion" "jd_DeviceHash ?d = ?hash"
    "jd_Records ?d = map json_record ?rs" "0 < mx"
    using assms by (simp_all add: encodeRecords_def promptJournalVersion_def pj_map_ok_def
        validJournalKey_coerce)
  have "\<exists>ch. loadRecords sha ?hash False (map json_record ?rs) [] False
           = Inr (map (\<lambda>r. (jr_Key r, recover r)) ?rs, ch)"
  proof -
    have "distinct (map jr_Key ?rs)"
      using keyed_distinct assms by (simp add: pj_map_ok_def del: map_map)
    then show ?thesis
      using loadRecords_written [of ?rs sha ?hash False json_record recover "[]" False]
        normalize_written ok by (simp add: recover_def)
  qed
  then obtain ch where l: "loadRecords sha ?hash False (map json_record ?rs) [] False
           = Inr (map (\<lambda>r. (jr_Key r, recover r)) ?rs, ch)" by blast
  have "trimCommitted mx (map (\<lambda>r. (jr_Key r, recover r)) ?rs)
        = Inr (map (\<lambda>r. (jr_Key r, recover r)) ?rs)"
    using assms by (subst trimCommitted.simps) (simp add: pj_map_ok_def)
  with d l have "\<exists>j now. loadPromptJournal sha dev mx (Decoded ?d) None = (Inr j, now)
      \<and> mem (pj_data j) = map (\<lambda>r. (jr_Key r, recover r)) ?rs \<and> now = Decoded (disk (pj_data j))"
    by (simp add: loadPromptJournal_def Let_def persist_def)
  moreover have "map_of (map (\<lambda>r. (jr_Key r, recover r)) ?rs) k = map_option recover (map_of m k)" for k
    by (rule map_of_sorted) (use assms in \<open>auto simp: pj_map_ok_def keyed_def\<close>)
  ultimately show ?thesis by metis
qed

definition demo_record :: promptJournalRecord where
  "demo_record =
     \<lparr>jr_Key = promptJournalKeyFromHash demo_sha (deviceHash demo_sha ''dev'') ''s'' ''c'',
      jr_SessionID = ''s'', jr_ClientMsgID = ''c'', jr_LegacyOpaque = False,
      jr_Status = promptJournalDispatching,
      jr_PromptEcho = boundedUTF8 ''hi'' maxPromptJournalEchoBytes, jr_UpdatedAt = 1\<rparr>"

theorem load_of_written_file_witness:
  "\<exists>j now. loadPromptJournal demo_sha ''dev'' 2
           (Decoded (encodeRecords (deviceHash demo_sha ''dev'')
              [(jr_Key demo_record, demo_record)])) None = (Inr j, now)
         \<and> map_of (mem (pj_data j)) (jr_Key demo_record) = Some (recover demo_record)
         \<and> jr_Status (recover demo_record) = promptJournalIndeterminate"
proof -
  have ok: "pj_map_ok demo_sha (deviceHash demo_sha ''dev'') 2 []"
    using demo_journal_wf by (simp add: pj_wf_def demo_journal_def)
  have "validateJournalIdentifiers ''s'' ''c'' = None" by code_simp
  from markDispatching_next_ok [OF ok this refl, of "[]" "''hi''" 1]
  have "pj_map_ok demo_sha (deviceHash demo_sha ''dev'') 2 [(jr_Key demo_record, demo_record)]"
    by (simp add: demo_record_def)
  from load_of_written_file [OF this] show ?thesis
    by (auto simp: recover_def recovered_status_def demo_record_def)
qed

end
