(* ===== verification/Prompt_Queue.thy ===== *)
theory Prompt_Queue
  imports Prelude
begin

text \<open>
  The daemon's durable prompt queue, \<open>daemon/cmd/daemon/prompt_queue.go\<close>: per session a FIFO
  of prompts that wait for the native agent, at most one of them running.

  Every mutation is \<open>persistQueue\<close> of a new map and, if that succeeds, the new map in memory.
  The order counter is a 64-bit word, so the overflow of \<open>nextID + 1\<close> to zero, which
  \<open>validatePromptQueueItem\<close> then rejects, is in the model.  Attachments are raw JSON: the
  model keeps the document and forgets white space, which \<open>json.MarshalIndent\<close> rewrites.
\<close>

section \<open>Data\<close>

datatype promptQueueStatus =
    promptQueueQueued | promptQueueRunning | promptQueueCompleted
  | promptQueueBlockedFailed | promptQueueBlockedInterrupted | promptQueueBlockedIndeterminate
  | promptQueueCancelled | promptQueueOther string

text \<open>A \<open>json.RawMessage\<close>: no bytes, a JSON document, or bytes that are not JSON.\<close>

datatype raw_message = NoBytes | Document string | NotADocument string

record promptQueueItem =
  qi_SessionID :: string
  qi_ClientMsgID :: string
  qi_AgentType :: string
  qi_Prompt :: string
  qi_Attachments :: raw_message
  qi_SealedEnvelope :: string
  qi_CollaborationMode :: string
  qi_CreatedAt :: nanos
  qi_Order :: uint64
  qi_Status :: promptQueueStatus

record promptQueueDisk =
  qd_Version :: int
  qd_Items :: "promptQueueItem list"

type_synonym queue_map = "(string, promptQueueItem) gomap"

record promptQueue =
  pq_data :: "(queue_map, promptQueueDisk) durable"
  pq_nextID :: uint64

abbreviation pq_items :: "promptQueue \<Rightarrow> queue_map" where
  "pq_items q \<equiv> mem (pq_data q)"

datatype queue_field = FieldSessionID | FieldClientMsgID | FieldAgentType

datatype queue_error =
    FieldRequired queue_field | FieldInvalid queue_field
  | OrderRequired | TerminalPayload | PromptInvalidUTF8 | AttachmentsNotJSON
  | SealedWithPlaintext | InvalidCollaborationMode string | PayloadRequired
  | InvalidQueueStatus promptQueueStatus
  | QueueFull | ItemNotFound | CannotComplete promptQueueStatus
  | CannotBlock promptQueueStatus promptQueueStatus | CannotCancel promptQueueStatus
  | CannotMove promptQueueStatus promptQueueStatus | InvalidBlocker promptQueueStatus
  | BlockerNotFound | QueuePersistFailed persist_step
  | QueueReadFailed | QueueParseFailed | QueueVersion int | DuplicateClientMsgID

definition promptQueueVersion :: int where
  "promptQueueVersion = 2"

definition promptQueueLegacyVersion :: int where
  "promptQueueLegacyVersion = 1"

definition maxPromptQueuePerSession :: nat where
  "maxPromptQueuePerSession = 20"

definition compactQueueTombstonesAt :: nat where
  "compactQueueTombstonesAt = 256"

definition retainQueueTombstones :: nat where
  "retainQueueTombstones = 128"

definition maxPromptQueueSessionIDBytes :: nat where
  "maxPromptQueueSessionIDBytes = 512"

definition maxPromptQueueClientMsgIDSize :: nat where
  "maxPromptQueueClientMsgIDSize = 256"

definition maxPromptQueueAgentTypeBytes :: nat where
  "maxPromptQueueAgentTypeBytes = 64"

section \<open>Keys, statuses and validation\<close>

definition promptQueueKey :: "string \<Rightarrow> string \<Rightarrow> string" where
  "promptQueueKey sessionID clientMsgID = sessionID @ NUL # clientMsgID"

abbreviation item_key :: "promptQueueItem \<Rightarrow> string" where
  "item_key i \<equiv> promptQueueKey (qi_SessionID i) (qi_ClientMsgID i)"

definition isPromptQueueTerminal :: "promptQueueStatus \<Rightarrow> bool" where
  "isPromptQueueTerminal status \<longleftrightarrow>
     status = promptQueueCompleted \<or> status = promptQueueCancelled"

definition isPromptQueueBlocked :: "promptQueueStatus \<Rightarrow> bool" where
  "isPromptQueueBlocked status \<longleftrightarrow>
     status = promptQueueBlockedFailed \<or> status = promptQueueBlockedInterrupted
     \<or> status = promptQueueBlockedIndeterminate"

definition validatePromptQueueString :: "queue_field \<Rightarrow> string \<Rightarrow> nat \<Rightarrow> queue_error option" where
  "validatePromptQueueString name v mx =
     (if TrimSpace v = [] then Some (FieldRequired name)
      else if length v > mx \<or> \<not> ValidString v then Some (FieldInvalid name)
      else None)"

definition validate_ids :: "promptQueueItem \<Rightarrow> queue_error option" where
  "validate_ids item =
     (case validatePromptQueueString FieldSessionID (qi_SessionID item) maxPromptQueueSessionIDBytes of
        Some e \<Rightarrow> Some e
      | None \<Rightarrow>
     (case validatePromptQueueString FieldClientMsgID (qi_ClientMsgID item) maxPromptQueueClientMsgIDSize of
        Some e \<Rightarrow> Some e
      | None \<Rightarrow> validatePromptQueueString FieldAgentType (qi_AgentType item) maxPromptQueueAgentTypeBytes))"

definition has_payload :: "promptQueueItem \<Rightarrow> bool" where
  "has_payload item \<longleftrightarrow>
     qi_Prompt item \<noteq> [] \<or> qi_Attachments item \<noteq> NoBytes \<or> qi_SealedEnvelope item \<noteq> []"

fun json_valid :: "raw_message \<Rightarrow> bool" where
  "json_valid (Document d) = True"
| "json_valid _ = False"

definition validatePromptQueueItem :: "promptQueueItem \<Rightarrow> queue_error option" where
  "validatePromptQueueItem item =
     (case validate_ids item of
        Some e \<Rightarrow> Some e
      | None \<Rightarrow>
          if qi_Order item = 0 \<or> qi_CreatedAt item \<le> 0 then Some OrderRequired
          else if isPromptQueueTerminal (qi_Status item)
          then (if has_payload item then Some TerminalPayload else None)
          else if qi_Prompt item \<noteq> [] \<and> \<not> ValidString (qi_Prompt item)
          then Some PromptInvalidUTF8
          else if qi_Attachments item \<noteq> NoBytes \<and> \<not> json_valid (qi_Attachments item)
          then Some AttachmentsNotJSON
          else if qi_SealedEnvelope item \<noteq> []
                  \<and> (qi_Prompt item \<noteq> [] \<or> qi_Attachments item \<noteq> NoBytes)
          then Some SealedWithPlaintext
          else if qi_CollaborationMode item \<noteq> [] \<and> qi_CollaborationMode item \<noteq> ''plan''
          then Some (InvalidCollaborationMode (qi_CollaborationMode item))
          else if \<not> has_payload item then Some PayloadRequired
          else if qi_Status item = promptQueueQueued \<or> qi_Status item = promptQueueRunning
                  \<or> isPromptQueueBlocked (qi_Status item) then None
          else Some (InvalidQueueStatus (qi_Status item)))"

definition clearPromptQueuePayload :: "promptQueueItem \<Rightarrow> promptQueueItem" where
  "clearPromptQueuePayload item =
     item\<lparr>qi_Prompt := [], qi_Attachments := NoBytes, qi_SealedEnvelope := [],
          qi_CollaborationMode := []\<rparr>"

section \<open>The file\<close>

definition json_item :: "promptQueueItem \<Rightarrow> promptQueueItem" where
  "json_item i =
     i\<lparr>qi_SessionID := json_coerce (qi_SessionID i),
       qi_ClientMsgID := json_coerce (qi_ClientMsgID i),
       qi_AgentType := json_coerce (qi_AgentType i),
       qi_Prompt := json_coerce (qi_Prompt i),
       qi_CollaborationMode := json_coerce (qi_CollaborationMode i)\<rparr>"

definition encodeQueue :: "queue_map \<Rightarrow> promptQueueDisk" where
  "encodeQueue items =
     \<lparr>qd_Version = promptQueueVersion,
      qd_Items = map json_item (sort_key qi_Order (map snd items))\<rparr>"

text \<open>\<open>json.MarshalIndent\<close> fails on a raw message that is not JSON.\<close>

fun encodable :: "raw_message \<Rightarrow> bool" where
  "encodable (NotADocument b) = False"
| "encodable _ = True"

definition queue_fault :: "queue_map \<Rightarrow> persist_step option \<Rightarrow> persist_step option" where
  "queue_fault items fault =
     (if list_all (\<lambda>(k, i). encodable (qi_Attachments i)) items then fault else Some Marshal)"

definition persistQueue ::
  "persist_step option \<Rightarrow> queue_map \<Rightarrow> promptQueue \<Rightarrow> promptQueue \<times> queue_error option" where
  "persistQueue fault items q =
     (let (d, err) = commit encodeQueue (queue_fault items fault) items (pq_data q)
      in (q\<lparr>pq_data := d\<rparr>, map_option QueuePersistFailed err))"

section \<open>Tombstones\<close>

definition terminalItems :: "queue_map \<Rightarrow> string \<Rightarrow> promptQueueItem list" where
  "terminalItems items sessionID =
     filter (\<lambda>i. qi_SessionID i = sessionID \<and> isPromptQueueTerminal (qi_Status i)) (map snd items)"

definition compactPromptQueueTombstones :: "queue_map \<Rightarrow> string \<Rightarrow> queue_map" where
  "compactPromptQueueTombstones items sessionID =
     (let terminal = terminalItems items sessionID
      in if length terminal < compactQueueTombstonesAt then items
         else fold (\<lambda>i. AList.delete (item_key i))
                (drop retainQueueTombstones (sort_key (\<lambda>i. - uint (qi_Order i)) terminal))
                items)"

section \<open>Loading\<close>

definition normalizeItem :: "int \<Rightarrow> promptQueueItem \<Rightarrow> promptQueueItem \<times> bool" where
  "normalizeItem version item =
     (let stale = qi_Status item = promptQueueRunning
                  \<or> version = promptQueueLegacyVersion
                    \<and> qi_Status item = promptQueueOther ''paused'';
          item1 = (if stale then item\<lparr>qi_Status := promptQueueBlockedIndeterminate\<rparr> else item);
          leaky = isPromptQueueTerminal (qi_Status item1) \<and> has_payload item1;
          item2 = (if leaky then item1\<lparr>qi_Prompt := [], qi_Attachments := NoBytes,
                                       qi_SealedEnvelope := []\<rparr> else item1)
      in (item2, stale \<or> leaky))"

fun loadItems ::
  "int \<Rightarrow> promptQueueItem list \<Rightarrow> queue_map \<Rightarrow> uint64 \<Rightarrow> bool
   \<Rightarrow> queue_error + (queue_map \<times> uint64 \<times> bool)" where
  "loadItems version [] items nextID changed = Inr (items, nextID, changed)"
| "loadItems version (d # ds) items nextID changed =
     (case normalizeItem version d of (item, changed1) \<Rightarrow>
        (case validatePromptQueueItem item of
           Some e \<Rightarrow> Inl e
         | None \<Rightarrow>
             if map_of items (item_key item) \<noteq> None then Inl DuplicateClientMsgID
             else loadItems version ds (AList.update (item_key item) item items)
                    (if qi_Order item > nextID then qi_Order item else nextID)
                    (changed \<or> changed1)))"

type_synonym queue_source = "promptQueueDisk file_source"

definition loadPromptQueue ::
  "queue_source \<Rightarrow> persist_step option \<Rightarrow> (queue_error + promptQueue) \<times> queue_source" where
  "loadPromptQueue src fault =
     (let write = (\<lambda>items nextID.
            (case persist (queue_fault items fault) (Decoded (encodeQueue items)) src of
               (now, Some e) \<Rightarrow> (Inl (QueuePersistFailed e), now)
             | (now, None) \<Rightarrow>
                 (Inr \<lparr>pq_data = \<lparr>mem = items, disk = encodeQueue items\<rparr>, pq_nextID = nextID\<rparr>, now)))
      in (case src of
            NoFile \<Rightarrow> write [] 0
          | Unreadable \<Rightarrow> (Inl QueueReadFailed, src)
          | NotJSON \<Rightarrow> (Inl QueueParseFailed, src)
          | Decoded d \<Rightarrow>
              if qd_Version d \<noteq> promptQueueVersion \<and> qd_Version d \<noteq> promptQueueLegacyVersion
              then (Inl (QueueVersion (qd_Version d)), src)
              else (case loadItems (qd_Version d) (qd_Items d) [] 0
                           (qd_Version d = promptQueueLegacyVersion) of
                      Inl e \<Rightarrow> (Inl e, src)
                    | Inr (items, nextID, changed) \<Rightarrow>
                        if changed then write items nextID
                        else (Inr \<lparr>pq_data = \<lparr>mem = items, disk = d\<rparr>, pq_nextID = nextID\<rparr>,
                              src))))"

section \<open>Operations\<close>

definition active :: "string \<Rightarrow> promptQueueItem \<Rightarrow> bool" where
  "active sessionID i \<longleftrightarrow>
     qi_SessionID i = sessionID \<and> \<not> isPromptQueueTerminal (qi_Status i)"

definition activeCount :: "promptQueue \<Rightarrow> string \<Rightarrow> nat" where
  "activeCount q sessionID = count_items (active sessionID) (pq_items q)"

definition enqueue ::
  "nanos \<Rightarrow> persist_step option \<Rightarrow> promptQueueItem \<Rightarrow> promptQueue
   \<Rightarrow> promptQueue \<times> (queue_error + promptQueueItem \<times> bool)" where
  "enqueue now fault item q =
     (case validate_ids item of
        Some e \<Rightarrow> (q, Inl e)
      | None \<Rightarrow>
          if qi_Prompt item \<noteq> [] \<and> \<not> ValidString (qi_Prompt item)
          then (q, Inl PromptInvalidUTF8)
          else if qi_Attachments item \<noteq> NoBytes \<and> \<not> json_valid (qi_Attachments item)
          then (q, Inl AttachmentsNotJSON)
          else if qi_SealedEnvelope item \<noteq> []
                  \<and> (qi_Prompt item \<noteq> [] \<or> qi_Attachments item \<noteq> NoBytes)
          then (q, Inl SealedWithPlaintext)
          else if \<not> has_payload item then (q, Inl PayloadRequired)
          else (let key = item_key item
                in (case map_of (pq_items q) key of
                      Some current \<Rightarrow> (q, Inr (current, False))
                    | None \<Rightarrow>
                        if activeCount q (qi_SessionID item) \<ge> maxPromptQueuePerSession
                        then (q, Inl QueueFull)
                        else (let item = item\<lparr>qi_Order := pq_nextID q + 1, qi_CreatedAt := now,
                                              qi_Status := promptQueueQueued\<rparr>
                              in (case validatePromptQueueItem item of
                                    Some e \<Rightarrow> (q, Inl e)
                                  | None \<Rightarrow>
                                      (case persistQueue fault
                                              (AList.update key item
                                                 (compactPromptQueueTombstones (pq_items q)
                                                    (qi_SessionID item))) q of
                                         (q', Some e) \<Rightarrow> (q', Inl e)
                                       | (q', None) \<Rightarrow>
                                           (q'\<lparr>pq_nextID := qi_Order item\<rparr>, Inr (item, True))))))))"

text \<open>The loops of \<open>next\<close> and \<open>claimNext\<close>: the first queued item with the least order;
  \<open>claimNext\<close> stops at a running or blocked item.\<close>

fun oldestQueued ::
  "string \<Rightarrow> queue_map \<Rightarrow> promptQueueItem option \<Rightarrow> promptQueueItem option" where
  "oldestQueued sessionID [] best = best"
| "oldestQueued sessionID ((k, item) # rest) best =
     (if qi_SessionID item \<noteq> sessionID \<or> qi_Status item \<noteq> promptQueueQueued
      then oldestQueued sessionID rest best
      else (case best of
              None \<Rightarrow> oldestQueued sessionID rest (Some item)
            | Some b \<Rightarrow>
                oldestQueued sessionID rest
                  (Some (if qi_Order item < qi_Order b then item else b))))"

definition queue_next :: "promptQueue \<Rightarrow> string \<Rightarrow> promptQueueItem option" where
  "queue_next q sessionID = oldestQueued sessionID (pq_items q) None"

fun claimCandidate ::
  "string \<Rightarrow> queue_map \<Rightarrow> promptQueueItem option \<Rightarrow> promptQueueItem option" where
  "claimCandidate sessionID [] best = best"
| "claimCandidate sessionID ((k, item) # rest) best =
     (if qi_SessionID item \<noteq> sessionID then claimCandidate sessionID rest best
      else if qi_Status item = promptQueueRunning \<or> isPromptQueueBlocked (qi_Status item)
      then None
      else if qi_Status item = promptQueueQueued
              \<and> (case best of None \<Rightarrow> True | Some b \<Rightarrow> qi_Order item < qi_Order b)
      then claimCandidate sessionID rest (Some item)
      else claimCandidate sessionID rest best)"

definition claimNext ::
  "persist_step option \<Rightarrow> string \<Rightarrow> promptQueue
   \<Rightarrow> promptQueue \<times> (queue_error + promptQueueItem option)" where
  "claimNext fault sessionID q =
     (case claimCandidate sessionID (pq_items q) None of
        None \<Rightarrow> (q, Inr None)
      | Some found \<Rightarrow>
          let candidate = found\<lparr>qi_Status := promptQueueRunning\<rparr>
          in (case persistQueue fault (AList.update (item_key candidate) candidate (pq_items q)) q of
                (q', Some e) \<Rightarrow> (q', Inl e)
              | (q', None) \<Rightarrow> (q', Inr (Some candidate))))"

definition queue_transition ::
  "persist_step option \<Rightarrow> string \<Rightarrow> string \<Rightarrow> promptQueueStatus \<Rightarrow> promptQueueStatus
   \<Rightarrow> promptQueue \<Rightarrow> promptQueue \<times> queue_error option" where
  "queue_transition fault sessionID clientMsgID frm to q =
     (let key = promptQueueKey sessionID clientMsgID
      in (case map_of (pq_items q) key of
            None \<Rightarrow> (q, Some ItemNotFound)
          | Some current \<Rightarrow>
              if qi_Status current = to then (q, None)
              else if qi_Status current \<noteq> frm
              then (q, Some (CannotMove (qi_Status current) to))
              else persistQueue fault
                     (AList.update key (current\<lparr>qi_Status := to\<rparr>) (pq_items q)) q))"

definition markRunning where
  "markRunning fault sessionID clientMsgID =
     queue_transition fault sessionID clientMsgID promptQueueQueued promptQueueRunning"

definition releaseClaim where
  "releaseClaim fault sessionID clientMsgID =
     queue_transition fault sessionID clientMsgID promptQueueRunning promptQueueQueued"

definition tombstone :: "promptQueueStatus \<Rightarrow> promptQueueItem \<Rightarrow> promptQueueItem" where
  "tombstone status current = clearPromptQueuePayload (current\<lparr>qi_Status := status\<rparr>)"

definition complete ::
  "persist_step option \<Rightarrow> string \<Rightarrow> string \<Rightarrow> promptQueue \<Rightarrow> promptQueue \<times> queue_error option" where
  "complete fault sessionID clientMsgID q =
     (let key = promptQueueKey sessionID clientMsgID
      in (case map_of (pq_items q) key of
            None \<Rightarrow> (q, Some ItemNotFound)
          | Some current \<Rightarrow>
              if qi_Status current \<noteq> promptQueueRunning
              then (q, Some (CannotComplete (qi_Status current)))
              else persistQueue fault
                     (compactPromptQueueTombstones
                        (AList.update key (tombstone promptQueueCompleted current) (pq_items q))
                        sessionID) q))"

definition block ::
  "persist_step option \<Rightarrow> string \<Rightarrow> string \<Rightarrow> promptQueueStatus \<Rightarrow> promptQueue
   \<Rightarrow> promptQueue \<times> queue_error option" where
  "block fault sessionID clientMsgID status q =
     (let key = promptQueueKey sessionID clientMsgID
      in (case map_of (pq_items q) key of
            None \<Rightarrow> (q, Some ItemNotFound)
          | Some current \<Rightarrow>
              if \<not> isPromptQueueBlocked status
                 \<or> qi_Status current \<noteq> promptQueueQueued \<and> qi_Status current \<noteq> promptQueueRunning
              then (q, Some (CannotBlock (qi_Status current) status))
              else persistQueue fault
                     (AList.update key (current\<lparr>qi_Status := status\<rparr>) (pq_items q)) q))"

definition cancel ::
  "persist_step option \<Rightarrow> string \<Rightarrow> string \<Rightarrow> promptQueue \<Rightarrow> promptQueue \<times> queue_error option" where
  "cancel fault sessionID clientMsgID q =
     (let key = promptQueueKey sessionID clientMsgID
      in (case map_of (pq_items q) key of
            None \<Rightarrow> (q, Some ItemNotFound)
          | Some current \<Rightarrow>
              if qi_Status current = promptQueueCancelled then (q, None)
              else if qi_Status current \<noteq> promptQueueQueued
                      \<and> \<not> isPromptQueueBlocked (qi_Status current)
              then (q, Some (CannotCancel (qi_Status current)))
              else persistQueue fault
                     (compactPromptQueueTombstones
                        (AList.update key (tombstone promptQueueCancelled current) (pq_items q))
                        sessionID) q))"

definition skipIndeterminate ::
  "persist_step option \<Rightarrow> string \<Rightarrow> string \<Rightarrow> promptQueue \<Rightarrow> promptQueue \<times> queue_error option" where
  "skipIndeterminate fault sessionID clientMsgID q =
     (let key = promptQueueKey sessionID clientMsgID
      in (case map_of (pq_items q) key of
            None \<Rightarrow> (q, Some BlockerNotFound)
          | Some current \<Rightarrow>
              if qi_Status current \<noteq> promptQueueBlockedIndeterminate
              then (q, Some BlockerNotFound)
              else persistQueue fault
                     (compactPromptQueueTombstones
                        (AList.update key (tombstone promptQueueCompleted current) (pq_items q))
                        sessionID) q))"

definition blockItem :: "string \<Rightarrow> promptQueueStatus \<Rightarrow> promptQueueItem \<Rightarrow> promptQueueItem" where
  "blockItem sessionID status item =
     (if qi_SessionID item = sessionID \<and> qi_Status item = promptQueueRunning
      then item\<lparr>qi_Status := status\<rparr> else item)"

definition blockSession ::
  "persist_step option \<Rightarrow> string \<Rightarrow> promptQueueStatus \<Rightarrow> promptQueue
   \<Rightarrow> promptQueue \<times> queue_error option" where
  "blockSession fault sessionID status q =
     (if \<not> isPromptQueueBlocked status then (q, Some (InvalidBlocker status))
      else if \<not> list_ex (\<lambda>(k, item). qi_SessionID item = sessionID
                                    \<and> qi_Status item = promptQueueRunning) (pq_items q)
      then (q, None)
      else persistQueue fault
             (map (\<lambda>(k, item). (k, blockItem sessionID status item)) (pq_items q)) q)"

definition resumable :: "string \<Rightarrow> promptQueueItem \<Rightarrow> bool" where
  "resumable sessionID item \<longleftrightarrow>
     qi_SessionID item = sessionID
     \<and> (qi_Status item = promptQueueBlockedFailed
        \<or> qi_Status item = promptQueueBlockedInterrupted)"

definition resumeItem :: "string \<Rightarrow> promptQueueItem \<Rightarrow> promptQueueItem" where
  "resumeItem sessionID item =
     (if resumable sessionID item then tombstone promptQueueCompleted item else item)"

definition resumeSession ::
  "persist_step option \<Rightarrow> string \<Rightarrow> promptQueue \<Rightarrow> promptQueue \<times> queue_error option" where
  "resumeSession fault sessionID q =
     (if \<not> list_ex (\<lambda>(k, item). resumable sessionID item) (pq_items q) then (q, None)
      else persistQueue fault
             (map (\<lambda>(k, item). (k, resumeItem sessionID item)) (pq_items q)) q)"

section \<open>Reading the queue\<close>

definition queue_list :: "promptQueue \<Rightarrow> string \<Rightarrow> promptQueueItem list" where
  "queue_list q sessionID =
     sort_key qi_Order
       (filter (\<lambda>i. sessionID = [] \<or> qi_SessionID i = sessionID) (map snd (pq_items q)))"

definition queue_item :: "promptQueue \<Rightarrow> string \<Rightarrow> string \<Rightarrow> promptQueueItem option" where
  "queue_item q sessionID clientMsgID = map_of (pq_items q) (promptQueueKey sessionID clientMsgID)"

definition hasActive :: "promptQueue \<Rightarrow> string \<Rightarrow> bool" where
  "hasActive q sessionID \<longleftrightarrow> list_ex (\<lambda>(k, i). active sessionID i) (pq_items q)"

definition running_item :: "string \<Rightarrow> promptQueueItem \<Rightarrow> bool" where
  "running_item sessionID i \<longleftrightarrow> qi_SessionID i = sessionID \<and> qi_Status i = promptQueueRunning"

definition queue_running :: "promptQueue \<Rightarrow> string \<Rightarrow> promptQueueItem option" where
  "queue_running q sessionID = List.find (running_item sessionID) (map snd (pq_items q))"

definition position :: "promptQueue \<Rightarrow> string \<Rightarrow> string \<Rightarrow> nat" where
  "position q sessionID clientMsgID =
     (case map_of (pq_items q) (promptQueueKey sessionID clientMsgID) of
        None \<Rightarrow> 0
      | Some item \<Rightarrow>
          if qi_Status item \<noteq> promptQueueQueued then 0
          else 1 + count_items (\<lambda>other. qi_SessionID other = sessionID
                      \<and> qi_Status other = promptQueueQueued
                      \<and> qi_Order other < qi_Order item) (pq_items q))"

section \<open>Invariant\<close>

definition item_valid :: "promptQueueItem \<Rightarrow> bool" where
  "item_valid i \<longleftrightarrow> validatePromptQueueItem i = None"

definition queue_map_ok :: "queue_map \<Rightarrow> bool" where
  "queue_map_ok m \<longleftrightarrow> gomap m \<and> (\<forall>(k, i) \<in> set m. item_key i = k \<and> item_valid i)"

definition queue_file_ok :: "promptQueueDisk \<Rightarrow> bool" where
  "queue_file_ok d \<longleftrightarrow>
     qd_Version d = promptQueueVersion \<and> distinct (map item_key (qd_Items d))
     \<and> list_all item_valid (qd_Items d)"

text \<open>What \<open>validatePromptQueueItem\<close> accepts, as one condition.\<close>

lemma item_valid_iff:
  "item_valid i \<longleftrightarrow>
     validate_ids i = None \<and> qi_Order i \<noteq> 0 \<and> 0 < qi_CreatedAt i \<and>
     (if isPromptQueueTerminal (qi_Status i) then \<not> has_payload i
      else (qi_Prompt i = [] \<or> ValidString (qi_Prompt i))
        \<and> (qi_Attachments i = NoBytes \<or> json_valid (qi_Attachments i))
        \<and> (qi_SealedEnvelope i = [] \<or> qi_Prompt i = [] \<and> qi_Attachments i = NoBytes)
        \<and> (qi_CollaborationMode i = [] \<or> qi_CollaborationMode i = ''plan'')
        \<and> has_payload i
        \<and> (qi_Status i = promptQueueQueued \<or> qi_Status i = promptQueueRunning
           \<or> isPromptQueueBlocked (qi_Status i)))"
  unfolding item_valid_def validatePromptQueueItem_def
  by (cases "validate_ids i") (auto split: if_splits)

lemmas status_defs = isPromptQueueTerminal_def isPromptQueueBlocked_def

lemma validate_ids_fields:
  "validate_ids (i\<lparr>qi_Status := st\<rparr>) = validate_ids i"
  "validate_ids (tombstone st i) = validate_ids i"
  by (simp_all add: validate_ids_def tombstone_def clearPromptQueuePayload_def
      split: option.splits)

lemma tombstone_fields [simp]:
  "qi_SessionID (tombstone st i) = qi_SessionID i"
  "qi_ClientMsgID (tombstone st i) = qi_ClientMsgID i"
  "qi_Order (tombstone st i) = qi_Order i"
  "qi_CreatedAt (tombstone st i) = qi_CreatedAt i"
  "qi_Status (tombstone st i) = st"
  "\<not> has_payload (tombstone st i)"
  by (simp_all add: tombstone_def clearPromptQueuePayload_def has_payload_def)

lemma valid_tombstone:
  "item_valid i \<Longrightarrow> isPromptQueueTerminal st \<Longrightarrow> item_valid (tombstone st i)"
  by (simp add: item_valid_iff validate_ids_fields)

lemma valid_status:
  assumes "item_valid i" and "\<not> isPromptQueueTerminal (qi_Status i)"
    and "st = promptQueueQueued \<or> st = promptQueueRunning \<or> isPromptQueueBlocked st"
  shows "item_valid (i\<lparr>qi_Status := st\<rparr>)"
  using assms by (auto simp: item_valid_iff validate_ids_fields has_payload_def status_defs)

lemma queue_map_ok_update:
  "queue_map_ok m \<Longrightarrow> item_key i = k \<Longrightarrow> item_valid i \<Longrightarrow> queue_map_ok (AList.update k i m)"
  by (auto simp: queue_map_ok_def gomap_intros set_update_gomap)

lemma queue_map_ok_lookup:
  "queue_map_ok m \<Longrightarrow> map_of m k = Some i \<Longrightarrow> item_key i = k \<and> item_valid i"
  by (auto simp: queue_map_ok_def dest: map_of_SomeD)

lemma queue_map_ok_filter: "queue_map_ok m \<Longrightarrow> queue_map_ok (filter P m)"
  by (auto simp: queue_map_ok_def gomap_intros)

lemma queue_map_ok_map:
  assumes "queue_map_ok m"
    and "\<And>i. item_valid i \<Longrightarrow> item_valid (f i) \<and> item_key (f i) = item_key i"
  shows "queue_map_ok (map (\<lambda>(k, i). (k, f i)) m)"
  using assms gomap_map_value [of m "\<lambda>_. f"] by (auto simp: queue_map_ok_def)

text \<open>Compaction only drops entries: old tombstones of the session.\<close>

lemma fold_delete:
  "fold (\<lambda>i. AList.delete (f i)) xs m = filter (\<lambda>(k, v). k \<notin> f ` set xs) m"
proof (induction xs arbitrary: m)
  case (Cons x xs)
  then show ?case
    by (auto simp: AList.delete_eq intro!: filter_cong)
qed simp

lemma compact_filter:
  obtains Q where "compactPromptQueueTombstones m s = filter Q m"
    and "\<And>k i. queue_map_ok m \<Longrightarrow> (k, i) \<in> set m \<Longrightarrow>
           \<not> (qi_SessionID i = s \<and> isPromptQueueTerminal (qi_Status i)) \<Longrightarrow> Q (k, i)"
proof (cases "length (terminalItems m s) < compactQueueTombstonesAt")
  case True
  then show thesis
    using that [of "\<lambda>_. True"] by (simp add: compactPromptQueueTombstones_def)
next
  case False
  let ?gone = "drop retainQueueTombstones
                 (sort_key (\<lambda>i. - uint (qi_Order i)) (terminalItems m s))"
  have gone: "set ?gone \<subseteq> set (terminalItems m s)" using set_drop_subset by fastforce
  show thesis
  proof (rule that [of "\<lambda>(k, v). k \<notin> (\<lambda>i. item_key i) ` set ?gone"])
    show "compactPromptQueueTombstones m s
          = filter (\<lambda>(k, v). k \<notin> (\<lambda>i. item_key i) ` set ?gone) m"
      using False by (simp add: compactPromptQueueTombstones_def Let_def fold_delete)
  next
    fix k i
    assume ok: "queue_map_ok m" and i: "(k, i) \<in> set m"
      and nt: "\<not> (qi_SessionID i = s \<and> isPromptQueueTerminal (qi_Status i))"
    have "item_key i' \<noteq> k" if g: "i' \<in> set ?gone" for i'
    proof
      assume "item_key i' = k"
      obtain k' where k': "(k', i') \<in> set m" "qi_SessionID i' = s"
        "isPromptQueueTerminal (qi_Status i')"
        using subsetD [OF gone g] by (auto simp: terminalItems_def)
      then have "(k, i') \<in> set m" using ok \<open>item_key i' = k\<close> by (auto simp: queue_map_ok_def)
      then have "i' = i" using ok i by (auto simp: queue_map_ok_def dest: gomap_key_inject)
      then show False using nt k' by simp
    qed
    then show "(\<lambda>(k, v). k \<notin> (\<lambda>i. item_key i) ` set ?gone) (k, i)" by auto
  qed
qed

lemma queue_map_ok_compact:
  "queue_map_ok m \<Longrightarrow> queue_map_ok (compactPromptQueueTombstones m s)"
  by (metis compact_filter queue_map_ok_filter)

lemma compact_count: "count_items P (compactPromptQueueTombstones m s) \<le> count_items P m"
  by (metis compact_filter count_filter_le)

lemma compact_subset: "set (compactPromptQueueTombstones m s) \<subseteq> set m"
  by (rule compact_filter [of m s]) auto

section \<open>Every operation is one write\<close>

lemma persistQueue_fields [simp]:
  "pq_nextID (fst (persistQueue fault m q)) = pq_nextID q"
  "pq_data (fst (persistQueue fault m q)) = fst (commit encodeQueue (queue_fault m fault) m (pq_data q))"
  "snd (persistQueue fault m q) = map_option QueuePersistFailed (queue_fault m fault)"
  by (simp_all add: persistQueue_def case_prod_beta)

lemma persistQueue_pair:
  assumes "persistQueue fault m q = (q1, e)"
  shows "pq_nextID q1 = pq_nextID q"
    and "pq_data q1 = fst (commit encodeQueue (queue_fault m fault) m (pq_data q))"
    and "e = map_option QueuePersistFailed (queue_fault m fault)"
  using assms by (auto simp: persistQueue_def case_prod_beta)

lemma claimCandidate_free:
  "claimCandidate s m best = Some c \<Longrightarrow> (k, i) \<in> set m \<Longrightarrow> qi_SessionID i = s \<Longrightarrow>
   qi_Status i \<noteq> promptQueueRunning \<and> \<not> isPromptQueueBlocked (qi_Status i)"
  by (induction s m best rule: claimCandidate.induct) (auto split: if_splits)

lemma claimCandidate_mem:
  "claimCandidate s m best = Some c \<Longrightarrow>
   best = Some c \<or> (\<exists>k. (k, c) \<in> set m \<and> qi_SessionID c = s \<and> qi_Status c = promptQueueQueued)"
  by (induction s m best rule: claimCandidate.induct) (auto split: if_splits)

lemma claimCandidate_best:
  "claimCandidate s m best = Some c \<Longrightarrow> best = Some b \<Longrightarrow> qi_Order c \<le> qi_Order b"
proof (induction s m best arbitrary: b rule: claimCandidate.induct)
  case (2 s k item rest best)
  then show ?case by (cases "qi_Order item < qi_Order b") (fastforce split: if_splits)+
qed simp

lemma claimCandidate_least:
  "claimCandidate s m best = Some c \<Longrightarrow> (k, i) \<in> set m \<Longrightarrow> qi_SessionID i = s \<Longrightarrow>
   qi_Status i = promptQueueQueued \<Longrightarrow> qi_Order c \<le> qi_Order i"
proof (induction s m best rule: claimCandidate.induct)
  case (2 s k' item rest best)
  show ?case
  proof (cases "(k, i) \<in> set rest")
    case True
    then show ?thesis using 2 by (auto split: if_splits)
  next
    case False
    then have i: "item = i" using 2(5) by simp
    show ?thesis
    proof (cases "case best of None \<Rightarrow> True | Some b \<Rightarrow> qi_Order item < qi_Order b")
      case True
      then have "claimCandidate s rest (Some i) = Some c"
        using 2(4,6,7) i by (auto split: if_splits simp: status_defs)
      then show ?thesis using claimCandidate_best by blast
    next
      case False
      then obtain b where b: "best = Some b" "qi_Order b \<le> qi_Order i"
        using i by (auto split: option.splits)
      have "claimCandidate s rest best = Some c"
        using 2(4,6,7) i False by (auto split: if_splits simp: status_defs)
      then show ?thesis using claimCandidate_best b by fastforce
    qed
  qed
qed simp

text \<open>
  Most operations only move items forward: they keep the map well formed, start no item and
  revive none, and introduce no new order.
\<close>

definition quiet :: "queue_map \<Rightarrow> queue_map \<Rightarrow> bool" where
  "quiet m m' \<longleftrightarrow>
     queue_map_ok m' \<and> (\<forall>s. count_items (running_item s) m' \<le> count_items (running_item s) m)
     \<and> (\<forall>s. count_items (active s) m' \<le> count_items (active s) m)
     \<and> (\<forall>n. count_items (\<lambda>i. qi_Order i = n) m' \<le> count_items (\<lambda>i. qi_Order i = n) m)"

lemma quiet_refl: "queue_map_ok m \<Longrightarrow> quiet m m"
  by (simp add: quiet_def)

lemma quiet_update:
  assumes "queue_map_ok m" and "map_of m k = Some i" and "item_valid i'"
    and "qi_SessionID i' = qi_SessionID i" and "qi_ClientMsgID i' = qi_ClientMsgID i"
    and "qi_Order i' = qi_Order i"
    and "qi_Status i' = promptQueueRunning \<Longrightarrow> qi_Status i = promptQueueRunning"
    and "\<not> isPromptQueueTerminal (qi_Status i') \<Longrightarrow> \<not> isPromptQueueTerminal (qi_Status i)"
  shows "quiet m (AList.update k i' m)"
proof -
  have "item_key i' = k" using queue_map_ok_lookup [OF assms(1,2)] assms(4,5) by simp
  then have "queue_map_ok (AList.update k i' m)"
    using assms(1,3) by (intro queue_map_ok_update)
  moreover have "count_items (running_item s) (AList.update k i' m) \<le> count_items (running_item s) m" for s
    by (rule count_update_mono [OF assms(2)]) (use assms(4,7) in \<open>auto simp: running_item_def\<close>)
  moreover have "count_items (active s) (AList.update k i' m) \<le> count_items (active s) m" for s
    by (rule count_update_mono [OF assms(2)]) (use assms(4,8) in \<open>auto simp: active_def\<close>)
  moreover have "count_items (\<lambda>i. qi_Order i = n) (AList.update k i' m)
                 \<le> count_items (\<lambda>i. qi_Order i = n) m" for n
    by (rule count_update_mono [OF assms(2)]) (use assms(6) in simp)
  ultimately show ?thesis by (simp add: quiet_def)
qed

lemma quiet_compact: "quiet m m' \<Longrightarrow> quiet m (compactPromptQueueTombstones m' s)"
  unfolding quiet_def
  using queue_map_ok_compact compact_count by (meson order_trans)

lemma quiet_map:
  assumes "queue_map_ok m"
    and "\<And>i. item_valid i \<Longrightarrow> item_valid (f i)"
    and "\<And>i. qi_SessionID (f i) = qi_SessionID i \<and> qi_ClientMsgID (f i) = qi_ClientMsgID i
           \<and> qi_Order (f i) = qi_Order i"
    and "\<And>i. qi_Status (f i) = promptQueueRunning \<Longrightarrow> qi_Status i = promptQueueRunning"
    and "\<And>i. \<not> isPromptQueueTerminal (qi_Status (f i)) \<Longrightarrow> \<not> isPromptQueueTerminal (qi_Status i)"
  shows "quiet m (map (\<lambda>(k, i). (k, f i)) m)"
proof -
  have "queue_map_ok (map (\<lambda>(k, i). (k, f i)) m)"
    by (rule queue_map_ok_map [OF assms(1)]) (use assms(2,3) in simp)
  moreover have "count_items (running_item s) (map (\<lambda>(k, i). (k, f i)) m)
                 \<le> count_items (running_item s) m" for s
    by (rule count_map_mono) (use assms(3,4) in \<open>auto simp: running_item_def\<close>)
  moreover have "count_items (active s) (map (\<lambda>(k, i). (k, f i)) m) \<le> count_items (active s) m" for s
    by (rule count_map_mono) (use assms(3,5) in \<open>auto simp: active_def\<close>)
  moreover have "count_items (\<lambda>i. qi_Order i = n) (map (\<lambda>(k, i). (k, f i)) m)
                 \<le> count_items (\<lambda>i. qi_Order i = n) m" for n
    by (rule count_map_mono) (use assms(3) in auto)
  ultimately show ?thesis by (simp add: quiet_def)
qed

definition quiet_result ::
  "promptQueue \<Rightarrow> promptQueue \<times> queue_error option \<Rightarrow> bool" where
  "quiet_result q res \<longleftrightarrow>
     fst res = q \<or> (\<exists>fault m'. res = persistQueue fault m' q \<and> quiet (pq_items q) m')"

lemma quiet_result_same [intro!]: "quiet_result q (q, e)"
  by (simp add: quiet_result_def)

lemma quiet_result_write [intro]:
  "quiet (pq_items q) m' \<Longrightarrow> quiet_result q (persistQueue fault m' q)"
  by (auto simp: quiet_result_def)

lemma quiet_tombstone:
  assumes "queue_map_ok m" and "map_of m k = Some i" and "isPromptQueueTerminal st"
  shows "quiet m (AList.update k (tombstone st i) m)"
  using assms queue_map_ok_lookup [OF assms(1,2)]
  by (intro quiet_update) (auto simp: valid_tombstone status_defs)

lemma terminal_statuses [simp]:
  "isPromptQueueTerminal promptQueueCompleted" "isPromptQueueTerminal promptQueueCancelled"
  "\<not> isPromptQueueTerminal promptQueueQueued" "\<not> isPromptQueueTerminal promptQueueRunning"
  "isPromptQueueBlocked st \<Longrightarrow> \<not> isPromptQueueTerminal st"
  by (auto simp: status_defs)

lemma quiet_complete: "queue_map_ok (pq_items q) \<Longrightarrow> quiet_result q (complete fault s c q)"
  by (auto simp: complete_def Let_def split: option.splits
      intro!: quiet_result_write quiet_compact quiet_tombstone)

lemma quiet_cancel: "queue_map_ok (pq_items q) \<Longrightarrow> quiet_result q (cancel fault s c q)"
  by (auto simp: cancel_def Let_def split: option.splits
      intro!: quiet_result_write quiet_compact quiet_tombstone)

lemma quiet_skip: "queue_map_ok (pq_items q) \<Longrightarrow> quiet_result q (skipIndeterminate fault s c q)"
  by (auto simp: skipIndeterminate_def Let_def split: option.splits
      intro!: quiet_result_write quiet_compact quiet_tombstone)

lemma quiet_status:
  assumes "queue_map_ok m" and "map_of m k = Some i" and "\<not> isPromptQueueTerminal (qi_Status i)"
    and "st = promptQueueQueued \<or> isPromptQueueBlocked st"
  shows "quiet m (AList.update k (i\<lparr>qi_Status := st\<rparr>) m)"
  using assms queue_map_ok_lookup [OF assms(1,2)]
  by (intro quiet_update) (auto simp: valid_status status_defs)

lemma quiet_block: "queue_map_ok (pq_items q) \<Longrightarrow> quiet_result q (block fault s c st q)"
  by (auto simp: block_def Let_def split: option.splits
      intro!: quiet_result_write quiet_status)

lemma quiet_release: "queue_map_ok (pq_items q) \<Longrightarrow> quiet_result q (releaseClaim fault s c q)"
  by (auto simp: releaseClaim_def queue_transition_def Let_def split: option.splits
      intro!: quiet_result_write quiet_status)

lemma quiet_blockSession:
  "queue_map_ok (pq_items q) \<Longrightarrow> quiet_result q (blockSession fault s st q)"
  by (auto simp: blockSession_def blockItem_def valid_status status_defs split: if_splits
      intro!: quiet_result_write quiet_map)

lemma quiet_resumeSession:
  "queue_map_ok (pq_items q) \<Longrightarrow> quiet_result q (resumeSession fault s q)"
  by (auto simp: resumeSession_def resumeItem_def valid_tombstone resumable_def status_defs
      split: if_splits intro!: quiet_result_write quiet_map)

lemma enqueue_cases:
  assumes "enqueue now fault item q = (q', res)"
  obtains (refused) "q' = q" "\<And>i. res \<noteq> Inr (i, True)"
  | (written) i m' where
      "i = item\<lparr>qi_Order := pq_nextID q + 1, qi_CreatedAt := now, qi_Status := promptQueueQueued\<rparr>"
      "item_valid i" "map_of (pq_items q) (item_key i) = None"
      "activeCount q (qi_SessionID i) < maxPromptQueuePerSession"
      "m' = AList.update (item_key i) i
              (compactPromptQueueTombstones (pq_items q) (qi_SessionID i))"
      "pq_data q' = fst (commit encodeQueue (queue_fault m' fault) m' (pq_data q))"
      "queue_fault m' fault = None \<and> pq_nextID q' = qi_Order i \<and> res = Inr (i, True)
       \<or> queue_fault m' fault \<noteq> None \<and> pq_nextID q' = pq_nextID q \<and> (\<exists>e. res = Inl e)"
proof -
  let ?i = "item\<lparr>qi_Order := pq_nextID q + 1, qi_CreatedAt := now, qi_Status := promptQueueQueued\<rparr>"
  let ?m = "AList.update (item_key ?i) ?i
              (compactPromptQueueTombstones (pq_items q) (qi_SessionID ?i))"
  consider (same) "q' = q" "\<And>i. res \<noteq> Inr (i, True)"
    | (go) "item_valid ?i" "map_of (pq_items q) (item_key ?i) = None"
      "activeCount q (qi_SessionID ?i) < maxPromptQueuePerSession"
      "(q', res) = (case persistQueue fault ?m q of
          (q1, Some e) \<Rightarrow> (q1, Inl e)
        | (q1, None) \<Rightarrow> (q1\<lparr>pq_nextID := qi_Order ?i\<rparr>, Inr (?i, True)))"
    using assms
    by (auto simp: enqueue_def Let_def item_valid_def split: option.splits if_splits prod.splits)
  then show thesis
  proof cases
    case same
    then show thesis by (rule refused)
  next
    case go
    obtain q1 e where p: "persistQueue fault ?m q = (q1, e)" by force
    note f = persistQueue_pair [OF p]
    show thesis
      by (rule written [OF refl go(1-3) refl]) (use go(4) p f in \<open>auto split: option.splits\<close>)
  qed
qed

lemma claimNext_cases:
  assumes "claimNext fault s q = (q', res)"
  obtains (refused) "q' = q" "res = Inr None" "claimCandidate s (pq_items q) None = None"
  | (written) c i m' where
      "claimCandidate s (pq_items q) None = Some c" "i = c\<lparr>qi_Status := promptQueueRunning\<rparr>"
      "m' = AList.update (item_key i) i (pq_items q)" "pq_nextID q' = pq_nextID q"
      "pq_data q' = fst (commit encodeQueue (queue_fault m' fault) m' (pq_data q))"
      "queue_fault m' fault = None \<and> res = Inr (Some i)
       \<or> queue_fault m' fault \<noteq> None \<and> (\<exists>e. res = Inl e)"
proof (cases "claimCandidate s (pq_items q) None")
  case None
  then show thesis using assms refused by (simp add: claimNext_def)
next
  case (Some c)
  let ?i = "c\<lparr>qi_Status := promptQueueRunning\<rparr>"
  let ?m = "AList.update (item_key ?i) ?i (pq_items q)"
  obtain q1 e where p: "persistQueue fault ?m q = (q1, e)" by force
  note f = persistQueue_pair [OF p]
  show thesis
    by (rule written [OF Some refl refl])
      (use assms Some p f in \<open>auto simp: claimNext_def Let_def split: option.splits\<close>)
qed

section \<open>The operations the daemon calls\<close>

inductive pq_step :: "promptQueue \<Rightarrow> promptQueue \<Rightarrow> bool" where
  enqueue: "pq_step q (fst (enqueue now fault item q))"
| claim: "pq_step q (fst (claimNext fault s q))"
| release: "pq_step q (fst (releaseClaim fault s c q))"
| complete: "pq_step q (fst (complete fault s c q))"
| block: "pq_step q (fst (block fault s c st q))"
| cancel: "pq_step q (fst (cancel fault s c q))"
| skip: "pq_step q (fst (skipIndeterminate fault s c q))"
| block_session: "pq_step q (fst (blockSession fault s st q))"
| resume_session: "pq_step q (fst (resumeSession fault s q))"

definition queue_mem_ok :: "queue_map \<Rightarrow> bool" where
  "queue_mem_ok m \<longleftrightarrow> queue_map_ok m
     \<and> (\<forall>s. count_items (running_item s) m \<le> 1)
     \<and> (\<forall>s. count_items (active s) m \<le> maxPromptQueuePerSession)"

definition queue_disk_ok :: "promptQueueDisk \<Rightarrow> bool" where
  "queue_disk_ok d \<longleftrightarrow> queue_file_ok d
     \<and> (\<forall>s. length (filter (running_item s) (qd_Items d)) \<le> 1)
     \<and> (\<forall>s. length (filter (active s) (qd_Items d)) \<le> maxPromptQueuePerSession)"

lemma quiet_mem_ok: "queue_mem_ok m \<Longrightarrow> quiet m m' \<Longrightarrow> queue_mem_ok m'"
  unfolding queue_mem_ok_def quiet_def by (meson order_trans)

lemma enqueue_mem_ok:
  assumes ok: "queue_mem_ok m" and i: "item_valid i" "qi_Status i = promptQueueQueued"
    and cap: "count_items (active (qi_SessionID i)) m < maxPromptQueuePerSession"
  shows "queue_mem_ok (AList.update (item_key i) i (compactPromptQueueTombstones m s))"
proof -
  let ?m = "AList.update (item_key i) i (compactPromptQueueTombstones m s)"
  have c: "count_items P ?m \<le> count_items P m + (if P i then 1 else 0)" for P
    using count_update_le [of P "item_key i" i "compactPromptQueueTombstones m s"]
      compact_count [of P m s] by linarith
  have "queue_map_ok ?m"
    using ok i by (intro queue_map_ok_update queue_map_ok_compact) (auto simp: queue_mem_ok_def)
  moreover have "count_items (running_item t) ?m \<le> 1" for t
    using c [of "running_item t"] ok i by (auto simp: running_item_def queue_mem_ok_def intro: order_trans)
  moreover have "count_items (active t) ?m \<le> maxPromptQueuePerSession" for t
  proof (cases "active t i")
    case True
    then have "t = qi_SessionID i" by (simp add: active_def)
    then show ?thesis using c [of "active t"] cap True by simp
  next
    case False
    then show ?thesis using c [of "active t"] ok by (simp add: queue_mem_ok_def) (meson order_trans)
  qed
  ultimately show ?thesis by (simp add: queue_mem_ok_def)
qed

lemma claim_mem_ok:
  assumes ok: "queue_mem_ok m" and c: "claimCandidate s m None = Some c"
    and i: "i = c\<lparr>qi_Status := promptQueueRunning\<rparr>"
  shows "queue_mem_ok (AList.update (item_key i) i m)"
proof -
  let ?m = "AList.update (item_key i) i m"
  have mo: "queue_map_ok m" using ok by (simp add: queue_mem_ok_def)
  obtain k where k: "(k, c) \<in> set m" "qi_SessionID c = s" "qi_Status c = promptQueueQueued"
    using claimCandidate_mem [OF c] by auto
  have key: "map_of m (item_key i) = Some c"
  proof -
    have "item_key i = k" "gomap m" using k(1) mo i by (auto simp: queue_map_ok_def)
    then show ?thesis using k(1) by (simp add: gomap_mem)
  qed
  have v: "item_valid i" using queue_map_ok_lookup [OF mo key] k(3) i by (simp add: valid_status)
  have "count_items (running_item t) ?m \<le> 1" for t
  proof (cases "t = s")
    case True
    have "count_items (running_item s) m = 0"
      unfolding count_zero using claimCandidate_free [OF c] by (auto simp: running_item_def)
    then show ?thesis
      using count_update_le [of "running_item s" "item_key i" i m] True by (simp split: if_splits)
  next
    case False
    then have "\<not> running_item t i" using i k(2) by (simp add: running_item_def)
    then show ?thesis
      using count_update_le [of "running_item t" "item_key i" i m] ok
      by (simp add: queue_mem_ok_def) (meson order_trans)
  qed
  moreover have "count_items (active t) ?m \<le> count_items (active t) m" for t
    by (rule count_update_mono [OF key]) (use k i in \<open>auto simp: active_def\<close>)
  moreover have "queue_map_ok ?m" by (rule queue_map_ok_update [OF mo refl v])
  ultimately show ?thesis using ok unfolding queue_mem_ok_def by (meson order_trans)
qed

section \<open>The file is as good as the memory\<close>

lemma validate_ids_valid:
  "validate_ids i = None \<Longrightarrow>
   ValidString (qi_SessionID i) \<and> ValidString (qi_ClientMsgID i) \<and> ValidString (qi_AgentType i)"
  by (auto simp: validate_ids_def validatePromptQueueString_def split: option.splits if_splits)

lemma json_coerce_mode:
  "json_coerce [] = []" "json_coerce ''plan'' = ''plan''"
  by (rule json_coerce_valid, rule ValidString_ascii, simp add: byte_def)+

lemma json_item_valid_eq:
  assumes "item_valid i"
  shows "json_item i = i\<lparr>qi_CollaborationMode := json_coerce (qi_CollaborationMode i)\<rparr>"
proof -
  have "ValidString (qi_SessionID i) \<and> ValidString (qi_ClientMsgID i) \<and> ValidString (qi_AgentType i)"
    using assms by (intro validate_ids_valid) (simp add: item_valid_iff)
  moreover have "json_coerce (qi_Prompt i) = qi_Prompt i"
    using assms json_coerce_mode(1)
    by (auto simp: item_valid_iff has_payload_def json_coerce_valid split: if_splits)
  ultimately show ?thesis by (simp add: json_item_def json_coerce_valid)
qed

lemma json_item_valid:
  assumes "item_valid i"
  shows "item_valid (json_item i)" and "item_key (json_item i) = item_key i"
    and "qi_Status (json_item i) = qi_Status i" and "qi_SessionID (json_item i) = qi_SessionID i"
proof -
  note eq = json_item_valid_eq [OF assms]
  have "validate_ids (i\<lparr>qi_CollaborationMode := x\<rparr>) = validate_ids i" for x
    by (simp add: validate_ids_def split: option.splits)
  then show "item_valid (json_item i)"
    using assms json_coerce_mode by (auto simp: eq item_valid_iff has_payload_def)
qed (simp_all add: json_item_valid_eq [OF assms])

lemma count_encode:
  assumes "queue_map_ok m" and "\<And>i. item_valid i \<Longrightarrow> P (json_item i) = P i"
  shows "length (filter P (qd_Items (encodeQueue m))) = count_items P m"
proof -
  have "filter P (map json_item xs) = map json_item (filter P xs)"
    if "list_all item_valid xs" for xs using that assms(2) by (induction xs) auto
  moreover have "list_all item_valid (sort_key qi_Order (map snd m))"
    using assms(1) by (auto simp: queue_map_ok_def list_all_iff)
  ultimately have "length (filter P (qd_Items (encodeQueue m)))
      = length (filter P (sort_key qi_Order (map snd m)))"
    by (simp add: encodeQueue_def)
  also have "\<dots> = size (filter_mset P (mset (map snd m)))"
    by (metis mset_filter mset_sort size_mset)
  also have "\<dots> = count_items P m"
    unfolding count_items_def by (induction m) auto
  finally show ?thesis .
qed

lemma queue_keys_distinct:
  "queue_map_ok m \<Longrightarrow> distinct (map item_key (map snd m))"
  by (rule keys_of_values) (auto simp: queue_map_ok_def)

lemma encodeQueue_file_ok: "queue_map_ok m \<Longrightarrow> queue_file_ok (encodeQueue m)"
proof -
  assume ok: "queue_map_ok m"
  let ?xs = "sort_key qi_Order (map snd m)"
  have v: "\<forall>i \<in> set ?xs. item_valid i" using ok by (auto simp: queue_map_ok_def)
  then have "map item_key (map json_item ?xs) = map item_key ?xs"
    by (auto simp: json_item_valid(2))
  moreover have "distinct (map item_key ?xs)"
    using queue_keys_distinct [OF ok] by (simp del: map_map)
  ultimately show "queue_file_ok (encodeQueue m)"
    using v unfolding queue_file_ok_def encodeQueue_def
    by (simp add: list_all_iff json_item_valid(1) del: map_map)
qed

lemma encodeQueue_disk_ok: "queue_mem_ok m \<Longrightarrow> queue_disk_ok (encodeQueue m)"
proof -
  assume "queue_mem_ok m"
  moreover have "length (filter (running_item s) (qd_Items (encodeQueue m)))
      = count_items (running_item s) m" if "queue_map_ok m" for s
    by (rule count_encode [OF that]) (simp add: running_item_def json_item_valid)
  moreover have "length (filter (active s) (qd_Items (encodeQueue m)))
      = count_items (active s) m" if "queue_map_ok m" for s
    by (rule count_encode [OF that]) (simp add: active_def json_item_valid)
  ultimately show ?thesis
    by (simp add: queue_mem_ok_def queue_disk_ok_def encodeQueue_file_ok)
qed

lemma commit_ahead:
  assumes "d' = fst (commit enc fault m' d)" and "ok m'"
  shows "\<exists>new. ok new \<and> (mem d' = mem d \<or> mem d' = new \<and> disk d' = enc new)
    \<and> (disk d' = disk d \<or> disk d' = enc new)"
  using assms by (cases rule: commit_cases [of fault enc m' d]) auto

lemma quiet_ahead:
  assumes "quiet_result q res" and "queue_mem_ok (pq_items q)"
  shows "\<exists>new. queue_mem_ok new
    \<and> (pq_items (fst res) = pq_items q
       \<or> pq_items (fst res) = new \<and> disk (pq_data (fst res)) = encodeQueue new)
    \<and> (disk (pq_data (fst res)) = disk (pq_data q) \<or> disk (pq_data (fst res)) = encodeQueue new)"
proof (cases "fst res = q")
  case False
  then obtain fault m' where "res = persistQueue fault m' q" "quiet (pq_items q) m'"
    using assms(1) by (auto simp: quiet_result_def)
  then show ?thesis
    using quiet_mem_ok [OF assms(2)] by (intro commit_ahead [of _ encodeQueue]) auto
qed (use assms(2) in auto)

lemma queue_quiet_ops:
  assumes "queue_map_ok (pq_items q)"
  shows "quiet_result q (releaseClaim fault s c q)" "quiet_result q (complete fault s c q)"
    "quiet_result q (block fault s c st q)" "quiet_result q (cancel fault s c q)"
    "quiet_result q (skipIndeterminate fault s c q)" "quiet_result q (blockSession fault s st q)"
    "quiet_result q (resumeSession fault s q)"
  using assms
  by (simp_all add: quiet_release quiet_complete quiet_block quiet_cancel quiet_skip
      quiet_blockSession quiet_resumeSession)

lemma pq_step_ahead:
  assumes "queue_mem_ok (pq_items q)" and "pq_step q q'"
  shows "\<exists>new. queue_mem_ok new
    \<and> (pq_items q' = pq_items q \<or> pq_items q' = new \<and> disk (pq_data q') = encodeQueue new)
    \<and> (disk (pq_data q') = disk (pq_data q) \<or> disk (pq_data q') = encodeQueue new)"
proof -
  have mo: "queue_map_ok (pq_items q)" using assms(1) by (simp add: queue_mem_ok_def)
  from assms(2) show ?thesis
  proof cases
    case (enqueue now fault item)
    then have "enqueue now fault item q = (q', snd (enqueue now fault item q))" by simp
    then show ?thesis
    proof (cases rule: enqueue_cases)
      case (written i m')
      have "queue_mem_ok m'"
        using enqueue_mem_ok [OF assms(1) written(2)] written(1,4,5) by (simp add: activeCount_def)
      then show ?thesis by (rule commit_ahead [OF written(6)])
    qed (use assms(1) in auto)
  next
    case (claim fault s)
    then have "claimNext fault s q = (q', snd (claimNext fault s q))" by simp
    then show ?thesis
    proof (cases rule: claimNext_cases)
      case (written c i m')
      then have "queue_mem_ok m'" using claim_mem_ok [OF assms(1) written(1,2)] by simp
      then show ?thesis by (rule commit_ahead [OF written(5)])
    qed (use assms(1) in auto)
  qed (auto intro!: quiet_ahead assms(1) queue_quiet_ops mo)
qed

interpretation pq: write_ahead pq_data pq_step encodeQueue queue_mem_ok queue_disk_ok
  by unfold_locales (auto intro: pq_step_ahead encodeQueue_disk_ok)


section \<open>First in, first out\<close>

lemma claim_lookup:
  assumes "queue_map_ok m" and "claimCandidate s m None = Some c"
  shows "map_of m (item_key c) = Some c" and "qi_SessionID c = s"
    and "qi_Status c = promptQueueQueued"
proof -
  obtain k where k: "(k, c) \<in> set m" "qi_SessionID c = s" "qi_Status c = promptQueueQueued"
    using claimCandidate_mem [OF assms(2)] by auto
  then have "item_key c = k" "gomap m" using assms(1) by (auto simp: queue_map_ok_def)
  then show "map_of m (item_key c) = Some c" using k(1) by (simp add: gomap_mem)
qed (use claimCandidate_mem [OF assms(2)] in auto)

lemma claimCandidate_found:
  "\<forall>(k, i) \<in> set m. qi_SessionID i = s \<longrightarrow>
     qi_Status i \<noteq> promptQueueRunning \<and> \<not> isPromptQueueBlocked (qi_Status i) \<Longrightarrow>
   best \<noteq> None \<or> (\<exists>(k, i) \<in> set m. qi_SessionID i = s \<and> qi_Status i = promptQueueQueued) \<Longrightarrow>
   claimCandidate s m best \<noteq> None"
proof (induction s m best rule: claimCandidate.induct)
  case (2 s k item rest best)
  then show ?case by (cases best) auto
qed auto

text \<open>C34. \<open>claimNext\<close> is FIFO and exclusive.  The item it returns was queued, now runs, and is
  the oldest queued item of its session (position one); the session had no running and no
  blocked item; every other entry of the map is untouched.\<close>

theorem claim_is_fifo:
  assumes "queue_map_ok (pq_items q)" and "claimNext fault s q = (q', Inr (Some i))"
  shows "queue_item q s (qi_ClientMsgID i) = Some (i\<lparr>qi_Status := promptQueueQueued\<rparr>)
    \<and> map_of (pq_items q') = (map_of (pq_items q))(item_key i \<mapsto> i)
    \<and> qi_Status i = promptQueueRunning \<and> qi_SessionID i = s
    \<and> position q s (qi_ClientMsgID i) = 1
    \<and> (\<forall>(k, j) \<in> set (pq_items q). qi_SessionID j = s \<longrightarrow>
         qi_Status j \<noteq> promptQueueRunning \<and> \<not> isPromptQueueBlocked (qi_Status j)
         \<and> (qi_Status j = promptQueueQueued \<longrightarrow> qi_Order i \<le> qi_Order j))"
  using assms(2)
proof (cases rule: claimNext_cases)
  case (written c i' m')
  note l = claim_lookup [OF assms(1) written(1)]
  have i: "i = c\<lparr>qi_Status := promptQueueRunning\<rparr>" and f: "queue_fault m' fault = None"
    using written(2,6) by auto
  have items: "map_of (pq_items q') = (map_of (pq_items q))(item_key i \<mapsto> i)"
    using written(3,5) f i written(2) by simp
  have ci: "i\<lparr>qi_Status := promptQueueQueued\<rparr> = c" using i l(3) by simp
  have "count_items (\<lambda>other. qi_SessionID other = s \<and> qi_Status other = promptQueueQueued
          \<and> qi_Order other < qi_Order c) (pq_items q) = 0"
    unfolding count_zero using claimCandidate_least [OF written(1)] by (auto simp: not_less)
  then have pos: "position q s (qi_ClientMsgID i) = 1"
    using l i by (simp add: position_def)
  have "qi_Status j \<noteq> promptQueueRunning \<and> \<not> isPromptQueueBlocked (qi_Status j)
      \<and> (qi_Status j = promptQueueQueued \<longrightarrow> qi_Order i \<le> qi_Order j)"
    if "(k, j) \<in> set (pq_items q)" "qi_SessionID j = s" for k j
    using claimCandidate_free [OF written(1) that] claimCandidate_least [OF written(1) that] i
    by simp
  then show ?thesis using items pos l i ci by (auto simp: queue_item_def)
qed simp


text \<open>
  Orders identify items and grow: the counter is above every order in memory, also at the end
  of its range, where the enqueue is refused.
\<close>

definition queue_ordered :: "promptQueue \<Rightarrow> bool" where
  "queue_ordered q \<longleftrightarrow>
     (\<forall>n. count_items (\<lambda>i. qi_Order i = n) (pq_items q) \<le> 1)
     \<and> (\<forall>n > pq_nextID q. count_items (\<lambda>i. qi_Order i = n) (pq_items q) = 0)"

lemma word_succ_greater:
  assumes "(w::uint64) + 1 \<noteq> 0"
  shows "w < w + 1"
proof -
  have sum: "unat (w + 1) = (unat w + 1) mod 2 ^ 64" by (simp add: unat_word_ariths)
  have "unat w < 2 ^ LENGTH(64)" by (rule unsigned_less)
  then have "unat w < 2 ^ 64" by simp
  moreover have "unat w + 1 \<noteq> 2 ^ 64"
  proof
    assume "unat w + 1 = 2 ^ 64"
    then have "unat (w + 1) = 0" using sum by simp
    then show False using assms by (simp add: unat_eq_zero)
  qed
  ultimately have "unat (w + 1) = unat w + 1" using sum by simp
  then show ?thesis by (simp add: word_less_nat_alt)
qed

lemma commit_mem:
  assumes "d' = fst (commit enc fault m' d)"
  shows "mem d' = mem d \<or> fault = None \<and> mem d' = m'"
  using assms by (cases rule: commit_cases [of fault enc m' d]) auto

lemma queue_ordered_mono:
  assumes "queue_ordered q" and "pq_nextID q' = pq_nextID q"
    and "\<And>n. count_items (\<lambda>i. qi_Order i = n) (pq_items q') \<le> count_items (\<lambda>i. qi_Order i = n) (pq_items q)"
  shows "queue_ordered q'"
  unfolding queue_ordered_def
proof (intro conjI allI impI)
  fix n
  have "count_items (\<lambda>i. qi_Order i = n) (pq_items q) \<le> 1"
    using assms(1) by (simp add: queue_ordered_def)
  then show "count_items (\<lambda>i. qi_Order i = n) (pq_items q') \<le> 1"
    using assms(3) [of n] by simp
  assume "pq_nextID q' < n"
  then have "count_items (\<lambda>i. qi_Order i = n) (pq_items q) = 0"
    using assms(1,2) by (simp add: queue_ordered_def)
  then show "count_items (\<lambda>i. qi_Order i = n) (pq_items q') = 0"
    using assms(3) [of n] by simp
qed

lemma quiet_ordered:
  assumes "quiet_result q res" and "queue_ordered q"
  shows "queue_ordered (fst res)"
proof (cases "fst res = q")
  case False
  then obtain fault m' where r: "res = persistQueue fault m' q" and m': "quiet (pq_items q) m'"
    using assms(1) by (auto simp: quiet_result_def)
  then have "pq_items (fst res) = pq_items q \<or> pq_items (fst res) = m'"
    using commit_mem [of "pq_data (fst res)"] by force
  then show ?thesis
    using assms(2) m' r by (auto simp: quiet_def intro!: queue_ordered_mono [OF assms(2)])
qed (use assms in simp)

lemma ordered_above:
  assumes "queue_ordered q" and "(k, j) \<in> set (pq_items q)"
  shows "qi_Order j \<le> pq_nextID q"
proof (rule ccontr)
  assume "\<not> qi_Order j \<le> pq_nextID q"
  then have "count_items (\<lambda>i. qi_Order i = qi_Order j) (pq_items q) = 0"
    using assms(1) by (simp add: queue_ordered_def)
  then show False using assms(2) by (auto simp: count_zero)
qed

lemma enqueue_ordered:
  assumes "enqueue now fault item q = (q', res)" and "queue_ordered q"
  shows "queue_ordered q'"
  using assms(1)
proof (cases rule: enqueue_cases)
  case (written i m')
  have i: "qi_Order i = pq_nextID q + 1" "pq_nextID q + 1 \<noteq> 0"
    using written(1,2) by (auto simp: item_valid_iff)
  then have gt: "pq_nextID q < qi_Order i" by (simp add: word_succ_greater)
  have c: "count_items (\<lambda>j. qi_Order j = n) m'
           \<le> count_items (\<lambda>j. qi_Order j = n) (pq_items q) + (if qi_Order i = n then 1 else 0)" for n
    unfolding written(5)
    using count_update_le [of "\<lambda>j. qi_Order j = n" "item_key i" i
        "compactPromptQueueTombstones (pq_items q) (qi_SessionID i)"]
      compact_count [of "\<lambda>j. qi_Order j = n" "pq_items q" "qi_SessionID i"] by linarith
  have z: "count_items (\<lambda>j. qi_Order j = n) (pq_items q) = 0" if "n > pq_nextID q" for n
    using assms(2) that by (simp add: queue_ordered_def)
  show ?thesis
  proof (cases "queue_fault m' fault")
    case None
    then have q': "pq_items q' = m'" "pq_nextID q' = qi_Order i" using written(6,7) by auto
    have "count_items (\<lambda>j. qi_Order j = n) m' \<le> 1" for n
    proof (cases "qi_Order i = n")
      case True
      then show ?thesis using c [of n] z [of n] gt by simp
    next
      case False
      have "count_items (\<lambda>j. qi_Order j = n) (pq_items q) \<le> 1"
        using assms(2) by (simp add: queue_ordered_def)
      then show ?thesis using c [of n] False by simp
    qed
    moreover have "count_items (\<lambda>j. qi_Order j = n) m' = 0" if "n > qi_Order i" for n
    proof -
      have "pq_nextID q < n" "qi_Order i \<noteq> n" using gt that by auto
      then show ?thesis using c [of n] z [of n] by simp
    qed
    ultimately show ?thesis using q' by (simp add: queue_ordered_def)
  next
    case (Some f)
    then have "pq_items q' = pq_items q" "pq_nextID q' = pq_nextID q"
      using written(6,7) commit_mem [OF written(6)] by auto
    then show ?thesis using assms(2) by (simp add: queue_ordered_def)
  qed
qed (use assms in simp)

lemma claim_ordered:
  assumes "claimNext fault s q = (q', res)" and "queue_ordered q" and "queue_map_ok (pq_items q)"
  shows "queue_ordered q'"
  using assms(1)
proof (cases rule: claimNext_cases)
  case (written c i m')
  have "count_items (\<lambda>j. qi_Order j = n) m' \<le> count_items (\<lambda>j. qi_Order j = n) (pq_items q)" for n
    unfolding written(3)
    by (rule count_update_mono [where w = c])
      (use claim_lookup(1) [OF assms(3) written(1)] written(2) in simp_all)
  then show ?thesis
    using commit_mem [OF written(5)] written(4) by (auto intro!: queue_ordered_mono [OF assms(2)])
qed (use assms in simp)

lemma pq_step_ordered:
  assumes "pq_step q q'" and "queue_mem_ok (pq_items q) \<and> queue_ordered q"
  shows "queue_mem_ok (pq_items q') \<and> queue_ordered q'"
proof
  have mo: "queue_map_ok (pq_items q)" and o: "queue_ordered q"
    using assms(2) by (simp_all add: queue_mem_ok_def)
  show "queue_mem_ok (pq_items q')" using pq_step_ahead [OF _ assms(1)] assms(2) by auto
  from assms(1) show "queue_ordered q'"
  proof cases
    case (enqueue now fault item)
    then show ?thesis using enqueue_ordered [OF _ o] by (metis prod.collapse)
  next
    case (claim fault s)
    then show ?thesis using claim_ordered [OF _ o mo] by (metis prod.collapse)
  qed (auto intro!: quiet_ordered o queue_quiet_ops mo)
qed

interpretation pq_order: step_invariant pq_step "\<lambda>q. queue_mem_ok (pq_items q) \<and> queue_ordered q"
  by unfold_locales (rule pq_step_ordered)

text \<open>Arrival order is queue order.  In every state the daemon can reach from a well-formed
  queue, an enqueue that adds an item gives it an order above every order in the queue, so it
  goes to the end of its session's FIFO, and no two items share an order.\<close>

theorem enqueue_appends:
  assumes "pq_step\<^sup>*\<^sup>* q0 q" and "queue_mem_ok (pq_items q0)" and "queue_ordered q0"
    and "enqueue now fault item q = (q', Inr (i, True))"
  shows "(\<forall>(k, j) \<in> set (pq_items q). qi_Order j < qi_Order i)
    \<and> queue_item q' (qi_SessionID item) (qi_ClientMsgID item) = Some i
    \<and> qi_Status i = promptQueueQueued \<and> queue_ordered q'"
proof -
  have o: "queue_ordered q" using pq_order.steps_keep [OF assms(1)] assms(2,3) by blast
  from assms(4) show ?thesis
  proof (cases rule: enqueue_cases)
    case (written i' m')
    have i': "i' = i" and f: "queue_fault m' fault = None" using written(7) by auto
    have "pq_nextID q < qi_Order i"
      using written(1,2) i' by (auto simp: item_valid_iff intro: word_succ_greater)
    then have "\<forall>(k, j) \<in> set (pq_items q). qi_Order j < qi_Order i"
      using ordered_above [OF o] by fastforce
    moreover have "pq_items q' = m'" using written(6) f by simp
    ultimately show ?thesis
      using written(1,5) i' enqueue_ordered [OF assms(4) o] by (simp add: queue_item_def)
  next
    case refused
    then show ?thesis by blast
  qed
qed

section \<open>Restarting\<close>

lemma normalizeItem_fields [simp]:
  "qi_SessionID (fst (normalizeItem v d)) = qi_SessionID d"
  "qi_ClientMsgID (fst (normalizeItem v d)) = qi_ClientMsgID d"
  "qi_Order (fst (normalizeItem v d)) = qi_Order d"
  "qi_Status (fst (normalizeItem v d)) \<noteq> promptQueueRunning"
  by (simp_all add: normalizeItem_def Let_def)

lemma normalizeItem_unchanged: "\<not> snd (normalizeItem v d) \<Longrightarrow> fst (normalizeItem v d) = d"
  by (auto simp: normalizeItem_def Let_def)

lemma loadItems_Inr:
  "loadItems v ds acc n ch = Inr (m, n', ch') \<Longrightarrow> gomap acc \<Longrightarrow>
   m = acc @ map (\<lambda>d. (item_key d, fst (normalizeItem v d))) ds \<and> gomap m
   \<and> (\<forall>d \<in> set ds. item_valid (fst (normalizeItem v d)) \<and> qi_Order d \<le> n')
   \<and> n \<le> n' \<and> ch' = (ch \<or> (\<exists>d \<in> set ds. snd (normalizeItem v d)))"
proof (induction v ds acc n ch rule: loadItems.induct)
  case (2 v d ds acc n ch)
  let ?i = "fst (normalizeItem v d)"
  let ?n = "if qi_Order ?i > n then qi_Order ?i else n"
  have valid: "validatePromptQueueItem ?i = None" and fresh: "map_of acc (item_key ?i) = None"
    and rest: "loadItems v ds (AList.update (item_key ?i) ?i acc) ?n (ch \<or> snd (normalizeItem v d))
               = Inr (m, n', ch')"
    using 2(2) by (auto simp: case_prod_beta split: option.splits if_splits)
  have up: "AList.update (item_key ?i) ?i acc = acc @ [(item_key ?i, ?i)]"
    using fresh by (rule update_new)
  have "\<not> map_of acc (item_key ?i) \<noteq> None" using fresh by simp
  from 2(1) [OF surjective_pairing [symmetric] valid this rest gomap_update [OF 2(3)]]
  show ?case using valid up by (auto simp: item_valid_def split: if_splits)
qed auto

lemma loadItems_ok:
  assumes "\<forall>d \<in> set ds. item_valid (fst (normalizeItem v d))" and "distinct (map item_key ds)"
    and "\<forall>d \<in> set ds. map_of acc (item_key d) = None"
  shows "\<exists>m n' ch'. loadItems v ds acc n ch = Inr (m, n', ch')"
  using assms
proof (induction ds arbitrary: acc n ch)
  case (Cons d ds)
  let ?i = "fst (normalizeItem v d)"
  have "\<exists>m n' ch'. loadItems v ds (AList.update (item_key ?i) ?i acc) n1 c1 = Inr (m, n', ch')" for n1 c1
    by (rule Cons.IH) (use Cons.prems in \<open>auto simp: image_iff\<close>)
  then show ?case using Cons.prems by (auto simp: case_prod_beta item_valid_def)
qed simp

lemma item_keys_map:
  "map snd (map (\<lambda>d. (item_key d, f d)) ds) = map f ds"
  by (simp add: comp_def)

lemma load_queue_cases:
  assumes "loadPromptQueue src fault = (Inr q, now)"
  obtains (fresh) "src = NoFile" "pq_items q = []" "pq_nextID q = 0"
      "disk (pq_data q) = encodeQueue []" "now = Decoded (disk (pq_data q))"
  | (loaded) d ch where "src = Decoded d"
      "loadItems (qd_Version d) (qd_Items d) [] 0 (qd_Version d = promptQueueLegacyVersion)
       = Inr (pq_items q, pq_nextID q, ch)"
      "qd_Version d = promptQueueVersion \<or> qd_Version d = promptQueueLegacyVersion"
      "disk (pq_data q) = (if ch then encodeQueue (pq_items q) else d)"
      "now = Decoded (disk (pq_data q))"
proof (cases src)
  case NoFile
  with assms show thesis
    by (intro fresh) (auto simp: loadPromptQueue_def Let_def persist_def split: option.splits)
next
  case (Decoded d)
  let ?l = "loadItems (qd_Version d) (qd_Items d) [] 0 (qd_Version d = promptQueueLegacyVersion)"
  from Decoded assms have v: "qd_Version d = promptQueueVersion \<or> qd_Version d = promptQueueLegacyVersion"
    by (auto simp: loadPromptQueue_def Let_def split: if_splits)
  with Decoded assms obtain m n ch where l: "?l = Inr (m, n, ch)"
    by (cases ?l) (auto simp: loadPromptQueue_def Let_def)
  show thesis
    by (rule loaded [OF Decoded, of ch])
      (use Decoded assms v l in \<open>auto simp: loadPromptQueue_def Let_def persist_def
         split: if_splits option.splits\<close>)
qed (use assms in \<open>simp_all add: loadPromptQueue_def Let_def\<close>)

text \<open>A restart never resumes a prompt by itself.  Whatever the file held, a load that
  succeeds gives a well-formed queue in memory and on disk in which no item runs (a running
  item became indeterminate and blocks its session), and whose counter is above every order.\<close>

theorem load_queue_safe:
  assumes "loadPromptQueue src fault = (Inr q, now)"
  shows "queue_map_ok (pq_items q) \<and> queue_file_ok (disk (pq_data q))
    \<and> now = Decoded (disk (pq_data q))
    \<and> (\<forall>(k, i) \<in> set (pq_items q). qi_Status i \<noteq> promptQueueRunning \<and> qi_Order i \<le> pq_nextID q)"
  using assms
proof (cases rule: load_queue_cases)
  case fresh
  then show ?thesis
    using encodeQueue_file_ok [of "[]"] by (simp add: queue_map_ok_def)
next
  case (loaded d ch)
  note l = loadItems_Inr [OF loaded(2) gomap_Nil]
  have ok: "queue_map_ok (pq_items q)" using l by (auto simp: queue_map_ok_def)
  have "queue_file_ok (disk (pq_data q))"
  proof (cases ch)
    case True
    then show ?thesis using loaded(4) encodeQueue_file_ok [OF ok] by simp
  next
    case False
    then have v: "qd_Version d = promptQueueVersion" and same: "map (\<lambda>i. fst (normalizeItem (qd_Version d) i)) (qd_Items d) = qd_Items d"
      using l loaded(3) by (auto intro!: map_idI normalizeItem_unchanged)
    have "map snd (pq_items q) = qd_Items d" using l same by (simp add: comp_def)
    moreover have "list_all item_valid (map snd (pq_items q))"
      using ok by (auto simp: queue_map_ok_def list_all_iff)
    ultimately show ?thesis
      using queue_keys_distinct [OF ok] v loaded(4) False by (simp add: queue_file_ok_def)
  qed
  then show ?thesis using ok l loaded(5) by auto
qed

definition recover_item :: "promptQueueItem \<Rightarrow> promptQueueItem" where
  "recover_item i =
     i\<lparr>qi_Status := (if qi_Status i = promptQueueRunning then promptQueueBlockedIndeterminate
                    else qi_Status i),
       qi_CollaborationMode := json_coerce (qi_CollaborationMode i)\<rparr>"

lemma normalize_written_item:
  assumes "item_valid i"
  shows "fst (normalizeItem promptQueueVersion (json_item i)) = recover_item i"
    and "item_valid (recover_item i)"
proof -
  have np: "has_payload (i\<lparr>qi_CollaborationMode := x, qi_Status := st\<rparr>) = has_payload i" for x st
    by (simp add: has_payload_def)
  have t: "isPromptQueueTerminal (qi_Status i) \<Longrightarrow> \<not> has_payload i"
    using assms by (simp add: item_valid_iff)
  show eq: "fst (normalizeItem promptQueueVersion (json_item i)) = recover_item i"
    unfolding json_item_valid_eq [OF assms] recover_item_def normalizeItem_def Let_def
    using t by (auto simp: has_payload_def status_defs promptQueueVersion_def promptQueueLegacyVersion_def)
  show "item_valid (recover_item i)"
  proof (cases "qi_Status i = promptQueueRunning")
    case True
    have "recover_item i = json_item i\<lparr>qi_Status := promptQueueBlockedIndeterminate\<rparr>"
      using True by (simp add: recover_item_def json_item_valid_eq [OF assms])
    then show ?thesis
      using True json_item_valid [OF assms] by (simp add: valid_status status_defs)
  next
    case False
    then have "recover_item i = json_item i"
      by (simp add: recover_item_def json_item_valid_eq [OF assms])
    then show ?thesis using json_item_valid(1) [OF assms] by simp
  qed
qed

lemma valid_encodable: "queue_map_ok m \<Longrightarrow> queue_fault m fault = fault"
proof -
  assume ok: "queue_map_ok m"
  have "encodable (qi_Attachments j)" if "item_valid j" for j
    using that
    by (cases "qi_Attachments j") (auto simp: item_valid_iff has_payload_def split: if_splits)
  then show ?thesis using ok by (auto simp: queue_fault_def queue_map_ok_def list_all_iff)
qed

text \<open>Round trip: restarting on the file the queue wrote succeeds and gives back exactly the
  items that were in memory, a running item as indeterminate.\<close>

theorem load_of_written_queue:
  assumes "queue_map_ok m"
  shows "\<exists>q now. loadPromptQueue (Decoded (encodeQueue m)) None = (Inr q, now)
    \<and> (\<forall>k. map_of (pq_items q) k = map_option recover_item (map_of m k))"
proof -
  let ?xs = "sort_key qi_Order (map snd m)"
  let ?d = "encodeQueue m"
  have d: "qd_Version ?d = promptQueueVersion" "qd_Items ?d = map json_item ?xs"
    "promptQueueVersion \<noteq> promptQueueLegacyVersion"
    by (simp_all add: encodeQueue_def promptQueueVersion_def promptQueueLegacyVersion_def)
  have v: "\<forall>i \<in> set ?xs. item_valid i" using assms by (auto simp: queue_map_ok_def)
  have nf: "\<forall>i \<in> set (qd_Items ?d). item_valid (fst (normalizeItem promptQueueVersion i))"
    using v d(2) by (auto simp: normalize_written_item)
  have keys: "distinct (map item_key (qd_Items ?d))"
    using encodeQueue_file_ok [OF assms] by (simp add: queue_file_ok_def)
  obtain m' n ch where l: "loadItems promptQueueVersion (qd_Items ?d) [] 0 False = Inr (m', n, ch)"
    using loadItems_ok [OF nf keys, of "[]" 0 False] by auto
  have m': "m' = map (\<lambda>i. (item_key i, fst (normalizeItem promptQueueVersion i))) (qd_Items ?d)"
    using loadItems_Inr [OF l] by simp
  have "m' = map (\<lambda>i. (item_key i, recover_item i)) ?xs"
    unfolding m' d(2) map_map
  proof (rule map_cong [OF refl])
    fix i
    assume "i \<in> set ?xs"
    then have "item_valid i" using v by blast
    from json_item_valid(2) [OF this] normalize_written_item(1) [OF this]
    show "((\<lambda>i. (item_key i, fst (normalizeItem promptQueueVersion i))) \<circ> json_item) i
          = (item_key i, recover_item i)" by simp
  qed
  then have look: "map_of m' k = map_option recover_item (map_of m k)" for k
    using assms map_of_sorted [of m item_key recover_item qi_Order k]
    by (auto simp: queue_map_ok_def split_beta)
  have "queue_map_ok m'" using loadItems_Inr [OF l] by (auto simp: queue_map_ok_def)
  then have "queue_fault m' None = None" by (rule valid_encodable)
  then have "\<exists>q now. loadPromptQueue (Decoded ?d) None = (Inr q, now) \<and> pq_items q = m'"
    using l d(1,3) by (simp add: loadPromptQueue_def Let_def persist_def)
  then show ?thesis using look by metis
qed

section \<open>Compaction\<close>

lemma terminal_compact:
  assumes ok: "queue_map_ok m" and big: "compactQueueTombstonesAt \<le> length (terminalItems m s)"
    and xs: "xs = sort_key (\<lambda>i. - uint (qi_Order i)) (terminalItems m s)"
  shows "mset (terminalItems (compactPromptQueueTombstones m s) s)
         = mset (take retainQueueTombstones xs)"
proof -
  let ?gone = "item_key ` set (drop retainQueueTombstones xs)"
  have c: "compactPromptQueueTombstones m s = filter (\<lambda>(k, v). k \<notin> ?gone) m"
    using big xs by (simp add: compactPromptQueueTombstones_def Let_def fold_delete)
  have "\<forall>(k, i) \<in> set m. item_key i = k" using ok by (auto simp: queue_map_ok_def)
  then have "terminalItems (filter (\<lambda>(k, v). k \<notin> ?gone) m) s
      = filter (\<lambda>i. item_key i \<notin> ?gone) (terminalItems m s)"
    unfolding terminalItems_def by (induction m) (auto simp: split_beta)
  then have "mset (terminalItems (compactPromptQueueTombstones m s) s)
      = filter_mset (\<lambda>i. item_key i \<notin> ?gone) (mset xs)"
    using c xs by simp
  also have "xs = take retainQueueTombstones xs @ drop retainQueueTombstones xs" by simp
  then have "mset xs = mset (take retainQueueTombstones xs) + mset (drop retainQueueTombstones xs)"
    by (metis mset_append)
  also have "filter_mset (\<lambda>i. item_key i \<notin> ?gone) \<dots>
      = mset (filter (\<lambda>i. item_key i \<notin> ?gone) (take retainQueueTombstones xs))"
    by (simp add: filter_mset_False)
  also have "filter (\<lambda>i. item_key i \<notin> ?gone) (take retainQueueTombstones xs)
      = take retainQueueTombstones xs"
  proof (rule filter_True, rule ballI, rule notI)
    fix i
    assume i: "i \<in> set (take retainQueueTombstones xs)" and "item_key i \<in> ?gone"
    then obtain j where j: "j \<in> set (drop retainQueueTombstones xs)" "item_key i = item_key j"
      by auto
    have "distinct (map item_key xs)"
    proof -
      have "distinct (map item_key (terminalItems m s))"
        unfolding terminalItems_def using queue_keys_distinct [OF ok] by (rule distinct_map_filter)
      then show ?thesis using xs by simp
    qed
    then have "distinct (map item_key (take retainQueueTombstones xs)
        @ map item_key (drop retainQueueTombstones xs))"
      by (metis append_take_drop_id map_append)
    then show False using i j by (auto simp: image_iff)
  qed
  finally show ?thesis .
qed

text \<open>Compaction drops only the oldest tombstones.  Items of other sessions and items that
  are not terminal stay; below 256 tombstones nothing happens; from 256 on, exactly the 128
  with the greatest orders remain.\<close>

theorem compaction_correct:
  assumes "queue_map_ok m"
  shows "(\<forall>(k, i) \<in> set m. qi_SessionID i \<noteq> s \<or> \<not> isPromptQueueTerminal (qi_Status i) \<longrightarrow>
            (k, i) \<in> set (compactPromptQueueTombstones m s))
    \<and> set (compactPromptQueueTombstones m s) \<subseteq> set m
    \<and> (length (terminalItems m s) < 256 \<longrightarrow> compactPromptQueueTombstones m s = m)
    \<and> (256 \<le> length (terminalItems m s) \<longrightarrow>
         length (terminalItems (compactPromptQueueTombstones m s) s) = 128
         \<and> (\<forall>i \<in> set (terminalItems (compactPromptQueueTombstones m s) s).
              \<forall>j \<in> set (terminalItems m s) - set (terminalItems (compactPromptQueueTombstones m s) s).
                qi_Order j \<le> qi_Order i))"
proof (intro conjI impI)
  show "\<forall>(k, i) \<in> set m. qi_SessionID i \<noteq> s \<or> \<not> isPromptQueueTerminal (qi_Status i) \<longrightarrow>
          (k, i) \<in> set (compactPromptQueueTombstones m s)"
    by (rule compact_filter [of m s]) (use assms in auto)
  show "set (compactPromptQueueTombstones m s) \<subseteq> set m" by (rule compact_subset)
  show "compactPromptQueueTombstones m s = m" if "length (terminalItems m s) < 256"
    using that by (simp add: compactPromptQueueTombstones_def Let_def compactQueueTombstonesAt_def)
  assume big: "256 \<le> length (terminalItems m s)"
  define xs where "xs = sort_key (\<lambda>i. - uint (qi_Order i)) (terminalItems m s)"
  let ?t = "terminalItems (compactPromptQueueTombstones m s) s"
  have ms: "mset ?t = mset (take 128 xs)"
    using terminal_compact [OF assms _ xs_def] big
    by (simp add: compactQueueTombstonesAt_def retainQueueTombstones_def)
  have len: "length xs = length (terminalItems m s)" by (simp add: xs_def)
  show "length ?t = 128" using mset_eq_length [OF ms] big len by simp
  show "\<forall>i \<in> set ?t. \<forall>j \<in> set (terminalItems m s) - set ?t. qi_Order j \<le> qi_Order i"
  proof (intro ballI)
    fix i j
    assume "i \<in> set ?t" and "j \<in> set (terminalItems m s) - set ?t"
    then have i: "i \<in> set (take 128 xs)" and j: "j \<in> set xs" "j \<notin> set (take 128 xs)"
      using mset_eq_setD [OF ms] by (auto simp: xs_def)
    have j2: "j \<in> set (drop 128 xs)"
      using j by (metis Un_iff append_take_drop_id set_append)
    have "sorted (map (\<lambda>i. - uint (qi_Order i)) (take 128 xs)
        @ map (\<lambda>i. - uint (qi_Order i)) (drop 128 xs))"
      unfolding map_append [symmetric] append_take_drop_id by (simp add: xs_def)
    then have "- uint (qi_Order i) \<le> - uint (qi_Order j)"
      using i j2 by (auto simp: sorted_append)
    then show "qi_Order j \<le> qi_Order i" by (simp add: word_le_def)
  qed
qed

section \<open>Witnesses\<close>

definition demo_item :: "string \<Rightarrow> uint64 \<Rightarrow> promptQueueStatus \<Rightarrow> promptQueueItem" where
  "demo_item c n st =
     \<lparr>qi_SessionID = ''s'', qi_ClientMsgID = c, qi_AgentType = ''codex'', qi_Prompt = ''hi'',
      qi_Attachments = NoBytes, qi_SealedEnvelope = [], qi_CollaborationMode = [],
      qi_CreatedAt = 1, qi_Order = n, qi_Status = st\<rparr>"

definition demo_queue :: "promptQueueItem list \<Rightarrow> uint64 \<Rightarrow> promptQueue" where
  "demo_queue is n =
     (let m = map (\<lambda>i. (item_key i, i)) is
      in \<lparr>pq_data = \<lparr>mem = m, disk = encodeQueue m\<rparr>, pq_nextID = n\<rparr>)"

abbreviation demo_two :: promptQueue where
  "demo_two \<equiv> demo_queue [demo_item ''b'' 2 promptQueueQueued, demo_item ''a'' 1 promptQueueQueued] 2"

lemma demo_two_ok: "queue_map_ok (pq_items demo_two)"
  by code_simp

lemma demo_empty_ok:
  "queue_mem_ok (pq_items (demo_queue [] 0))" "queue_disk_ok (disk (pq_data (demo_queue [] 0)))"
  "queue_ordered (demo_queue [] 0)"
proof -
  show m: "queue_mem_ok (pq_items (demo_queue [] 0))"
    by (simp add: demo_queue_def queue_mem_ok_def queue_map_ok_def count_items_def)
  then show "queue_disk_ok (disk (pq_data (demo_queue [] 0)))"
    using encodeQueue_disk_ok by (simp add: demo_queue_def)
  show "queue_ordered (demo_queue [] 0)"
    by (simp add: demo_queue_def queue_ordered_def count_items_def)
qed


theorem claim_is_fifo_witness:
  "claimNext None ''s'' demo_two
     = (fst (claimNext None ''s'' demo_two), Inr (Some (demo_item ''a'' 1 promptQueueRunning)))
   \<and> position demo_two ''s'' ''a'' = 1"
proof -
  have "snd (claimNext None ''s'' demo_two) = Inr (Some (demo_item ''a'' 1 promptQueueRunning))"
    by code_simp
  then have c: "claimNext None ''s'' demo_two
     = (fst (claimNext None ''s'' demo_two), Inr (Some (demo_item ''a'' 1 promptQueueRunning)))"
    by (simp add: prod_eq_iff)
  from claim_is_fifo [OF demo_two_ok c] c show ?thesis by (simp add: demo_item_def)
qed


theorem enqueue_appends_witness:
  "\<exists>q' i. enqueue 5 None (demo_item ''a'' 0 promptQueueRunning) (demo_queue [] 0) = (q', Inr (i, True))
     \<and> queue_item q' ''s'' ''a'' = Some i \<and> qi_Status i = promptQueueQueued"
proof -
  have "snd (enqueue 5 None (demo_item ''a'' 0 promptQueueRunning) (demo_queue [] 0))
        = Inr ((demo_item ''a'' 1 promptQueueQueued)\<lparr>qi_CreatedAt := 5\<rparr>, True)"
    by code_simp
  then obtain q' where e: "enqueue 5 None (demo_item ''a'' 0 promptQueueRunning) (demo_queue [] 0)
        = (q', Inr ((demo_item ''a'' 1 promptQueueQueued)\<lparr>qi_CreatedAt := 5\<rparr>, True))"
    by (metis prod.collapse)
  from enqueue_appends [OF rtranclp.rtrancl_refl demo_empty_ok(1,3) e] e
  show ?thesis by (simp add: demo_item_def)
qed

theorem load_of_written_queue_witness:
  "\<exists>q now. loadPromptQueue
      (Decoded (encodeQueue [(promptQueueKey ''s'' ''a'', demo_item ''a'' 1 promptQueueRunning)])) None
      = (Inr q, now)
    \<and> map_of (pq_items q) (promptQueueKey ''s'' ''a'')
      = Some (recover_item (demo_item ''a'' 1 promptQueueRunning))"
proof -
  have "queue_map_ok [(promptQueueKey ''s'' ''a'', demo_item ''a'' 1 promptQueueRunning)]"
    by code_simp
  from load_of_written_queue [OF this] show ?thesis by auto
qed

theorem load_queue_safe_witness:
  "loadPromptQueue NoFile None = (Inr (demo_queue [] 0), Decoded (encodeQueue []))
   \<and> queue_map_ok (pq_items (demo_queue [] 0))"
proof -
  have l: "loadPromptQueue NoFile None = (Inr (demo_queue [] 0), Decoded (encodeQueue []))"
    by (simp add: loadPromptQueue_def demo_queue_def persist_def queue_fault_def)
  then show ?thesis using load_queue_safe [OF l] by blast
qed

theorem compaction_correct_witness:
  "compactPromptQueueTombstones (pq_items demo_two) ''s'' = pq_items demo_two"
proof -
  have "length (terminalItems (pq_items demo_two) ''s'') < 256" by code_simp
  then show ?thesis using compaction_correct [OF demo_two_ok, of "''s''"] by blast
qed

end
