(* ===== verification/Start_Journal.thy ===== *)
theory Start_Journal
  imports Prompt_Journal
begin

text \<open>
  The daemon's thread-start journal, \<open>daemon/internal/startjournal/journal.go\<close>: it binds an
  operation id to one immutable request and records the outcome, so that a native thread is
  created at most once per operation, also across crashes.

  The file may be missing while the journal is in use (\<open>Load\<close> does not create it), so the
  durable part is a \<^typ>\<open>'f file_source\<close>.  \<open>FailClosed\<close> changes memory only.
\<close>

section \<open>Data\<close>

datatype start_Status =
    StatusStarting | StatusOwned | StatusFailed | StatusIndeterminate | StatusOther string

record start_Request =
  rq_AgentType :: string
  rq_ProjectDir :: string
  rq_PromptDigest :: string
  rq_AttachmentsDigest :: string

record start_Record =
  sr_Key :: string
  sr_OperationID :: string
  sr_AgentType :: string
  sr_ProjectDir :: string
  sr_PromptDigest :: string
  sr_AttachmentsDigest :: string
  sr_Status :: start_Status
  sr_SessionID :: string
  sr_PromptAccepted :: bool
  sr_Message :: string
  sr_UpdatedAt :: nanos

record diskJournal =
  dj_Version :: int
  dj_DeviceHash :: string
  dj_Records :: "start_Record list"

type_synonym start_map = "(string, start_Record) gomap"
type_synonym start_source = "diskJournal file_source"

record Journal =
  sj_deviceHash :: string
  sj_data :: "(start_map, start_source) durable"

abbreviation sj_records :: "Journal \<Rightarrow> start_map" where
  "sj_records j \<equiv> mem (sj_data j)"

datatype start_error =
    DeviceIDRequired | StartReadFailed | StartParseFailed | StartVersion int | StartOtherDevice
  | StartDuplicateKey | OperationIDRequired | OperationIDInvalid
  | AgentTypeInvalid | ProjectDirInvalid | PromptDigestInvalid | AttachmentsDigestInvalid
  | StartKeyMismatch | StartInvalidStatus start_Status | OwnedWithoutEvidence
  | StartSessionIDInvalid | StartMessageInvalid
  | Conflict string | NotTerminal start_Status | OperationNotFound
  | AlreadyFinished start_Status | InvalidStartTransition start_Status
  | OwnedNeedsSession | OwnedNeedsPrompt | StartPersistFailed persist_step

definition journalVersion :: int where
  "journalVersion = 1"

definition maxOperationIDBytes :: nat where
  "maxOperationIDBytes = 256"

definition maxSessionIDBytes :: nat where
  "maxSessionIDBytes = 512"

definition maxAgentTypeBytes :: nat where
  "maxAgentTypeBytes = 64"

definition maxProjectDirBytes :: nat where
  "maxProjectDirBytes = 4096"

definition maxTerminalMessageBytes :: nat where
  "maxTerminalMessageBytes = 2048"

definition RecoveredMessage :: string where
  "RecoveredMessage =
     ''thread start outcome is indeterminate after daemon restart; automatic retry is disabled to prevent duplicate native threads''"

section \<open>Validation\<close>

definition terminal :: "start_Status \<Rightarrow> bool" where
  "terminal status \<longleftrightarrow>
     status = StatusOwned \<or> status = StatusFailed \<or> status = StatusIndeterminate"

definition operationKey :: "(string \<Rightarrow> string) \<Rightarrow> string \<Rightarrow> string \<Rightarrow> string" where
  "operationKey sha hash operationID = sha (hash @ NUL # operationID)"

definition PromptDigest :: "(string \<Rightarrow> string) \<Rightarrow> string \<Rightarrow> string" where
  "PromptDigest sha prompt = sha prompt"

definition validateOperationID :: "string \<Rightarrow> start_error option" where
  "validateOperationID operationID =
     (if TrimSpace operationID = [] then Some OperationIDRequired
      else if length operationID > maxOperationIDBytes \<or> \<not> ValidString operationID
      then Some OperationIDInvalid else None)"

definition validateRequest :: "start_Request \<Rightarrow> start_error option" where
  "validateRequest request =
     (if TrimSpace (rq_AgentType request) = [] \<or> length (rq_AgentType request) > maxAgentTypeBytes
         \<or> \<not> ValidString (rq_AgentType request)
      then Some AgentTypeInvalid
      else if TrimSpace (rq_ProjectDir request) = []
              \<or> length (rq_ProjectDir request) > maxProjectDirBytes
              \<or> \<not> ValidString (rq_ProjectDir request)
      then Some ProjectDirInvalid
      else if length (rq_PromptDigest request) \<noteq> 64 then Some PromptDigestInvalid
      else if \<not> list_all is_hex (rq_PromptDigest request) then Some PromptDigestInvalid
      else if rq_AttachmentsDigest request \<noteq> [] then
        (if length (rq_AttachmentsDigest request) \<noteq> 64 then Some AttachmentsDigestInvalid
         else if \<not> list_all is_hex (rq_AttachmentsDigest request)
         then Some AttachmentsDigestInvalid else None)
      else None)"

definition request_of :: "start_Record \<Rightarrow> start_Request" where
  "request_of r =
     \<lparr>rq_AgentType = sr_AgentType r, rq_ProjectDir = sr_ProjectDir r,
      rq_PromptDigest = sr_PromptDigest r, rq_AttachmentsDigest = sr_AttachmentsDigest r\<rparr>"

definition sameRequest :: "start_Record \<Rightarrow> start_Request \<Rightarrow> bool" where
  "sameRequest r request \<longleftrightarrow>
     sr_AgentType r = rq_AgentType request \<and> sr_ProjectDir r = rq_ProjectDir request
     \<and> sr_PromptDigest r = rq_PromptDigest request
     \<and> sr_AttachmentsDigest r = rq_AttachmentsDigest request"

definition start_boundedUTF8 :: "string \<Rightarrow> nat \<Rightarrow> string" where
  "start_boundedUTF8 v maxBytes =
     (if length v \<le> maxBytes then v
      else take (valid_cut v (maxBytes - 3)) v @ ''...'')"

definition validateRecord ::
  "(string \<Rightarrow> string) \<Rightarrow> string \<Rightarrow> start_Record \<Rightarrow> start_error option" where
  "validateRecord sha hash r =
     (case validateOperationID (sr_OperationID r) of
        Some e \<Rightarrow> Some e
      | None \<Rightarrow>
     (case validateRequest (request_of r) of
        Some e \<Rightarrow> Some e
      | None \<Rightarrow>
          if sr_Key r \<noteq> operationKey sha hash (sr_OperationID r) then Some StartKeyMismatch
          else if sr_Status r \<noteq> StatusStarting \<and> \<not> terminal (sr_Status r)
          then Some (StartInvalidStatus (sr_Status r))
          else if sr_Status r = StatusOwned
                  \<and> (TrimSpace (sr_SessionID r) = [] \<or> \<not> sr_PromptAccepted r)
          then Some OwnedWithoutEvidence
          else if length (sr_SessionID r) > maxSessionIDBytes \<or> \<not> ValidString (sr_SessionID r)
          then Some StartSessionIDInvalid
          else if length (sr_Message r) > maxTerminalMessageBytes \<or> \<not> ValidString (sr_Message r)
          then Some StartMessageInvalid
          else None))"

section \<open>The file\<close>

definition json_start :: "start_Record \<Rightarrow> start_Record" where
  "json_start r =
     r\<lparr>sr_Key := json_coerce (sr_Key r), sr_OperationID := json_coerce (sr_OperationID r),
       sr_AgentType := json_coerce (sr_AgentType r), sr_ProjectDir := json_coerce (sr_ProjectDir r),
       sr_PromptDigest := json_coerce (sr_PromptDigest r),
       sr_AttachmentsDigest := json_coerce (sr_AttachmentsDigest r),
       sr_SessionID := json_coerce (sr_SessionID r), sr_Message := json_coerce (sr_Message r)\<rparr>"

definition encodeStart :: "string \<Rightarrow> start_map \<Rightarrow> start_source" where
  "encodeStart hash records =
     Decoded \<lparr>dj_Version = journalVersion, dj_DeviceHash = json_coerce hash,
              dj_Records = map json_start
                (sort_key (\<lambda>r. (sr_UpdatedAt r, sr_Key r)) (map snd records))\<rparr>"

definition persistStart ::
  "persist_step option \<Rightarrow> start_map \<Rightarrow> Journal \<Rightarrow> Journal \<times> start_error option" where
  "persistStart fault records j =
     (let (d, err) = commit (encodeStart (sj_deviceHash j)) fault records (sj_data j)
      in (j\<lparr>sj_data := d\<rparr>, map_option StartPersistFailed err))"

section \<open>Loading\<close>

fun loadStart ::
  "(string \<Rightarrow> string) \<Rightarrow> string \<Rightarrow> nanos \<Rightarrow> start_Record list \<Rightarrow> start_map \<Rightarrow> bool
   \<Rightarrow> start_error + (start_map \<times> bool)" where
  "loadStart sha hash now [] records changed = Inr (records, changed)"
| "loadStart sha hash now (r # rs) records changed =
     (case validateRecord sha hash r of
        Some e \<Rightarrow> Inl e
      | None \<Rightarrow>
          if map_of records (sr_Key r) \<noteq> None then Inl StartDuplicateKey
          else if sr_Status r = StatusStarting
          then loadStart sha hash now rs
                 (AList.update (sr_Key r)
                    (r\<lparr>sr_Status := StatusIndeterminate, sr_Message := RecoveredMessage,
                       sr_UpdatedAt := now\<rparr>) records) True
          else loadStart sha hash now rs (AList.update (sr_Key r) r records) changed)"

definition Load ::
  "(string \<Rightarrow> string) \<Rightarrow> nanos \<Rightarrow> persist_step option \<Rightarrow> string \<Rightarrow> start_source
   \<Rightarrow> (start_error + Journal) \<times> start_source" where
  "Load sha now fault deviceID src =
     (let hash = sha deviceID
      in if TrimSpace deviceID = [] then (Inl DeviceIDRequired, src)
         else (case src of
                 NoFile \<Rightarrow> (Inr \<lparr>sj_deviceHash = hash, sj_data = \<lparr>mem = [], disk = NoFile\<rparr>\<rparr>, src)
               | Unreadable \<Rightarrow> (Inl StartReadFailed, src)
               | NotJSON \<Rightarrow> (Inl StartParseFailed, src)
               | Decoded d \<Rightarrow>
                   if dj_Version d \<noteq> journalVersion then (Inl (StartVersion (dj_Version d)), src)
                   else if dj_DeviceHash d \<noteq> hash then (Inl StartOtherDevice, src)
                   else (case loadStart sha hash now (dj_Records d) [] False of
                           Inl e \<Rightarrow> (Inl e, src)
                         | Inr (records, changed) \<Rightarrow>
                             if \<not> changed
                             then (Inr \<lparr>sj_deviceHash = hash,
                                        sj_data = \<lparr>mem = records, disk = src\<rparr>\<rparr>, src)
                             else (case persist fault (encodeStart hash records) src of
                                     (file, Some e) \<Rightarrow> (Inl (StartPersistFailed e), file)
                                   | (file, None) \<Rightarrow>
                                       (Inr \<lparr>sj_deviceHash = hash,
                                             sj_data = \<lparr>mem = records, disk = file\<rparr>\<rparr>, file)))))"

section \<open>Operations\<close>

definition Begin ::
  "(string \<Rightarrow> string) \<Rightarrow> nanos \<Rightarrow> persist_step option \<Rightarrow> string \<Rightarrow> start_Request \<Rightarrow> Journal
   \<Rightarrow> Journal \<times> (start_error + start_Record \<times> bool)" where
  "Begin sha now fault operationID request j =
     (case validateOperationID operationID of
        Some e \<Rightarrow> (j, Inl e)
      | None \<Rightarrow>
     (case validateRequest request of
        Some e \<Rightarrow> (j, Inl e)
      | None \<Rightarrow>
          let key = operationKey sha (sj_deviceHash j) operationID
          in (case map_of (sj_records j) key of
                Some existing \<Rightarrow>
                  if sr_OperationID existing \<noteq> operationID \<or> \<not> sameRequest existing request
                  then (j, Inl (Conflict operationID))
                  else (j, Inr (existing, False))
              | None \<Rightarrow>
                  let r = \<lparr>sr_Key = key, sr_OperationID = operationID,
                           sr_AgentType = rq_AgentType request,
                           sr_ProjectDir = rq_ProjectDir request,
                           sr_PromptDigest = rq_PromptDigest request,
                           sr_AttachmentsDigest = rq_AttachmentsDigest request,
                           sr_Status = StatusStarting, sr_SessionID = [],
                           sr_PromptAccepted = False, sr_Message = [], sr_UpdatedAt = now\<rparr>
                  in (case persistStart fault (AList.update key r (sj_records j)) j of
                        (j', Some e) \<Rightarrow> (j', Inl e)
                      | (j', None) \<Rightarrow> (j', Inr (r, True))))))"

definition FinishWithPromptOutcome ::
  "(string \<Rightarrow> string) \<Rightarrow> nanos \<Rightarrow> persist_step option \<Rightarrow> string \<Rightarrow> start_Status \<Rightarrow> string \<Rightarrow> string
   \<Rightarrow> bool \<Rightarrow> Journal \<Rightarrow> Journal \<times> (start_error + start_Record)" where
  "FinishWithPromptOutcome sha now fault operationID status sessionID message promptAccepted j =
     (if \<not> terminal status then (j, Inl (NotTerminal status))
      else (case validateOperationID operationID of
        Some e \<Rightarrow> (j, Inl e)
      | None \<Rightarrow>
          if length sessionID > maxSessionIDBytes \<or> \<not> ValidString sessionID
          then (j, Inl StartSessionIDInvalid)
          else (let message = start_boundedUTF8 message maxTerminalMessageBytes;
                    key = operationKey sha (sj_deviceHash j) operationID
                in (case map_of (sj_records j) key of
                      None \<Rightarrow> (j, Inl OperationNotFound)
                    | Some current \<Rightarrow>
                        if terminal (sr_Status current) then
                          (if sr_Status current = status \<and> sr_SessionID current = sessionID
                              \<and> sr_Message current = message
                              \<and> sr_PromptAccepted current = promptAccepted
                           then (j, Inr current)
                           else (j, Inl (AlreadyFinished (sr_Status current))))
                        else if sr_Status current \<noteq> StatusStarting
                        then (j, Inl (InvalidStartTransition (sr_Status current)))
                        else if status = StatusOwned \<and> TrimSpace sessionID = []
                        then (j, Inl OwnedNeedsSession)
                        else if status = StatusOwned \<and> \<not> promptAccepted
                        then (j, Inl OwnedNeedsPrompt)
                        else (let r = current\<lparr>sr_Status := status, sr_SessionID := sessionID,
                                              sr_PromptAccepted := promptAccepted,
                                              sr_Message := message, sr_UpdatedAt := now\<rparr>
                              in (case persistStart fault (AList.update key r (sj_records j)) j of
                                    (j', Some e) \<Rightarrow> (j', Inl e)
                                  | (j', None) \<Rightarrow> (j', Inr r)))))))"

definition Finish where
  "Finish sha now fault operationID status sessionID message =
     FinishWithPromptOutcome sha now fault operationID status sessionID message False"

definition Lookup :: "(string \<Rightarrow> string) \<Rightarrow> Journal \<Rightarrow> string \<Rightarrow> start_Record option" where
  "Lookup sha j operationID =
     (if validateOperationID operationID \<noteq> None then None
      else map_of (sj_records j) (operationKey sha (sj_deviceHash j) operationID))"

definition FailClosed ::
  "(string \<Rightarrow> string) \<Rightarrow> nanos \<Rightarrow> string \<Rightarrow> string \<Rightarrow> Journal \<Rightarrow> Journal \<times> start_Record option" where
  "FailClosed sha now operationID message j =
     (if validateOperationID operationID \<noteq> None then (j, None)
      else (let key = operationKey sha (sj_deviceHash j) operationID
            in (case map_of (sj_records j) key of
                  None \<Rightarrow> (j, None)
                | Some record0 \<Rightarrow>
                    if sr_Status record0 = StatusStarting
                    then (let r = record0\<lparr>sr_Status := StatusIndeterminate,
                                          sr_Message := start_boundedUTF8 message maxTerminalMessageBytes,
                                          sr_UpdatedAt := now\<rparr>
                          in (j\<lparr>sj_data := (sj_data j)\<lparr>mem := AList.update key r (sj_records j)\<rparr>\<rparr>,
                              Some r))
                    else (j, Some record0))))"

section \<open>The file against the memory\<close>

definition start_keyed :: "start_map \<Rightarrow> bool" where
  "start_keyed m \<longleftrightarrow> gomap m \<and> (\<forall>(k, r) \<in> set m. sr_Key r = k)"

fun file_lookup :: "string \<Rightarrow> start_source \<Rightarrow> start_Record option" where
  "file_lookup key (Decoded d) = map_of (map (\<lambda>r. (sr_Key r, r)) (dj_Records d)) key"
| "file_lookup key _ = None"

lemma start_keyed_update: "start_keyed m \<Longrightarrow> sr_Key r = k \<Longrightarrow> start_keyed (AList.update k r m)"
  by (auto simp: start_keyed_def gomap_intros set_update_gomap)

lemma start_keyed_lookup: "start_keyed m \<Longrightarrow> map_of m k = Some r \<Longrightarrow> sr_Key r = k"
  by (auto simp: start_keyed_def dest: map_of_SomeD)

definition hex_keys :: "start_map \<Rightarrow> bool" where
  "hex_keys m \<longleftrightarrow> (\<forall>(k, r) \<in> set m. validJournalKey k)"

lemma hex_keys_update:
  "gomap m \<Longrightarrow> hex_keys m \<Longrightarrow> validJournalKey k \<Longrightarrow> hex_keys (AList.update k r m)"
  by (auto simp: hex_keys_def set_update_gomap)

lemma file_lookup_encode:
  assumes "start_keyed m" and "hex_keys m"
  shows "file_lookup key (encodeStart hash m) = map_option json_start (map_of m key)"
proof -
  let ?rs = "sort_key (\<lambda>r. (sr_UpdatedAt r, sr_Key r)) (map snd m)"
  have "validJournalKey (sr_Key r)" if "(k, r) \<in> set m" for k r
    using assms that by (auto simp: hex_keys_def start_keyed_def)
  then have "map (\<lambda>r. (sr_Key r, r)) (map json_start ?rs) = map (\<lambda>r. (sr_Key r, json_start r)) ?rs"
    by (auto simp: json_start_def intro!: validJournalKey_coerce)
  moreover have "map_of (map (\<lambda>r. (sr_Key r, json_start r)) ?rs) key = map_option json_start (map_of m key)"
    by (rule map_of_sorted) (use assms(1) in \<open>auto simp: start_keyed_def\<close>)
  ultimately show ?thesis by (simp add: encodeStart_def del: map_map)
qed

definition recover_start :: "nanos \<Rightarrow> start_Record \<Rightarrow> start_Record" where
  "recover_start now r =
     (if sr_Status r = StatusStarting
      then r\<lparr>sr_Status := StatusIndeterminate, sr_Message := RecoveredMessage, sr_UpdatedAt := now\<rparr>
      else r)"

lemma recover_start_key [simp]: "sr_Key (recover_start now r) = sr_Key r"
  by (simp add: recover_start_def)

lemma loadStart_Cons:
  assumes "loadStart sha hash now (r # rs) acc ch = Inr (m, ch')"
  shows "validateRecord sha hash r = None" and "map_of acc (sr_Key r) = None"
    and "loadStart sha hash now rs (acc @ [(sr_Key r, recover_start now r)])
           (ch \<or> sr_Status r = StatusStarting) = Inr (m, ch')"
  using assms
  by (auto simp: recover_start_def update_new split: option.splits if_splits)

lemma loadStart_Inr:
  "loadStart sha hash now rs acc ch = Inr (m, ch') \<Longrightarrow> gomap acc \<Longrightarrow>
   m = acc @ map (\<lambda>r. (sr_Key r, recover_start now r)) rs \<and> gomap m
   \<and> (\<forall>r \<in> set rs. validateRecord sha hash r = None)
   \<and> ch' = (ch \<or> (\<exists>r \<in> set rs. sr_Status r = StatusStarting))"
proof (induction rs arbitrary: acc ch)
  case (Cons r rs)
  note c = loadStart_Cons [OF Cons.prems(1)]
  have "gomap (acc @ [(sr_Key r, recover_start now r)])"
    using gomap_update [OF Cons.prems(2)] update_new [OF c(2)] by metis
  from Cons.IH [OF c(3) this] c(1) show ?case by auto
qed auto

lemma map_of_values:
  "map_of (map (\<lambda>r. (g r, f r)) xs) key = map_option f (map_of (map (\<lambda>r. (g r, r)) xs) key)"
  by (induction xs) auto

lemma loadStart_keyed:
  assumes "loadStart sha hash now rs [] ch = Inr (m, ch')"
  shows "start_keyed m"
    and "map_of m key = map_option (recover_start now) (map_of (map (\<lambda>r. (sr_Key r, r)) rs) key)"
proof -
  note l = loadStart_Inr [OF assms gomap_Nil]
  show "start_keyed m" using l by (auto simp: start_keyed_def)
  have "m = map (\<lambda>r. (sr_Key r, recover_start now r)) rs" using l by simp
  then show "map_of m key
      = map_option (recover_start now) (map_of (map (\<lambda>r. (sr_Key r, r)) rs) key)"
    by (simp only: map_of_values [of sr_Key "recover_start now"])
qed

lemma validateRecord_key: "validateRecord sha hash r = None \<Longrightarrow> sr_Key r = operationKey sha hash (sr_OperationID r)"
  by (auto simp: validateRecord_def split: option.splits if_splits)

lemma Load_cases:
  assumes "Load sha now fault dev src = (res, file)"
  obtains (kept) e where "res = Inl e" "file = src"
  | (replaced) d records where "src = Decoded d"
      "loadStart sha (sha dev) now (dj_Records d) [] False = Inr (records, True)"
      "fault = Some ChmodFinal" "\<exists>e. res = Inl e" "file = encodeStart (sha dev) records"
  | (fresh) "src = NoFile" "file = NoFile"
      "res = Inr \<lparr>sj_deviceHash = sha dev, sj_data = \<lparr>mem = [], disk = NoFile\<rparr>\<rparr>"
  | (loaded) d records ch where "src = Decoded d"
      "loadStart sha (sha dev) now (dj_Records d) [] False = Inr (records, ch)"
      "file = (if ch then encodeStart (sha dev) records else src)"
      "res = Inr \<lparr>sj_deviceHash = sha dev, sj_data = \<lparr>mem = records, disk = file\<rparr>\<rparr>"
proof (cases src)
  case (Decoded d)
  let ?l = "loadStart sha (sha dev) now (dj_Records d) [] False"
  show thesis
  proof (cases "\<exists>e. res = Inl e \<and> file = src")
    case False
    with assms Decoded obtain records ch where l: "?l = Inr (records, ch)"
      by (cases ?l) (auto simp: Load_def Let_def split: if_splits)
    have leave: "leaves_old_file f \<or> f = ChmodFinal" for f by (cases f) auto
    show thesis
    proof (cases "ch \<and> fault \<noteq> None")
      case True
      then obtain f where f: "fault = Some f" by auto
      then have "f = ChmodFinal"
        using assms Decoded False l True leave [of f]
        by (auto simp: Load_def Let_def persist_def split: if_splits)
      then show thesis
        using assms Decoded l True f False
        by (intro replaced [OF Decoded, of records])
          (auto simp: Load_def Let_def persist_def split: if_splits)
    next
      case False2: False
      show thesis
        by (rule loaded [OF Decoded l])
          (use assms Decoded l False False2 in
            \<open>auto simp: Load_def Let_def persist_def split: if_splits option.splits\<close>)
    qed
  qed (use kept in blast)
qed (use assms kept fresh in \<open>auto simp: Load_def Let_def split: if_splits\<close>)

section \<open>What one call does\<close>

lemma persistStart_pair:
  assumes "persistStart fault m j = (j', e)"
  shows "sj_deviceHash j' = sj_deviceHash j"
    and "sj_data j' = fst (commit (encodeStart (sj_deviceHash j)) fault m (sj_data j))"
    and "e = map_option StartPersistFailed fault"
  using assms by (auto simp: persistStart_def case_prod_beta)

lemma Begin_cases:
  assumes "Begin sha now fault op request j = (j', res)"
  obtains (refused) "j' = j" "\<And>r. res \<noteq> Inr (r, True)"
  | (written) key r where "validateOperationID op = None" "validateRequest request = None"
      "key = operationKey sha (sj_deviceHash j) op" "map_of (sj_records j) key = None"
      "r = \<lparr>sr_Key = key, sr_OperationID = op, sr_AgentType = rq_AgentType request,
            sr_ProjectDir = rq_ProjectDir request, sr_PromptDigest = rq_PromptDigest request,
            sr_AttachmentsDigest = rq_AttachmentsDigest request, sr_Status = StatusStarting,
            sr_SessionID = [], sr_PromptAccepted = False, sr_Message = [], sr_UpdatedAt = now\<rparr>"
      "(j', map_option StartPersistFailed fault)
       = persistStart fault (AList.update key r (sj_records j)) j"
      "res = (case fault of None \<Rightarrow> Inr (r, True) | Some f \<Rightarrow> Inl (StartPersistFailed f))"
proof (cases "validateOperationID op = None \<and> validateRequest request = None
     \<and> map_of (sj_records j) (operationKey sha (sj_deviceHash j) op) = None")
  case True
  let ?key = "operationKey sha (sj_deviceHash j) op"
  let ?r = "\<lparr>sr_Key = ?key, sr_OperationID = op, sr_AgentType = rq_AgentType request,
            sr_ProjectDir = rq_ProjectDir request, sr_PromptDigest = rq_PromptDigest request,
            sr_AttachmentsDigest = rq_AttachmentsDigest request, sr_Status = StatusStarting,
            sr_SessionID = [], sr_PromptAccepted = False, sr_Message = [], sr_UpdatedAt = now\<rparr>"
  obtain j1 e where p: "persistStart fault (AList.update ?key ?r (sj_records j)) j = (j1, e)" by force
  show thesis
    by (rule written [OF _ _ refl _ refl])
      (use True assms p persistStart_pair(3) [OF p] in
        \<open>auto simp: Begin_def Let_def split: option.splits\<close>)
next
  case False
  then show thesis
    using assms by (intro refused) (auto simp: Begin_def Let_def split: option.splits if_splits)
qed

lemma Finish_cases:
  assumes "FinishWithPromptOutcome sha now fault op status sid msg acc j = (j', res)"
  obtains (refused) "j' = j"
  | (written) key current r where "terminal status" "validateOperationID op = None"
      "length sid \<le> maxSessionIDBytes" "ValidString sid"
      "key = operationKey sha (sj_deviceHash j) op" "map_of (sj_records j) key = Some current"
      "sr_Status current = StatusStarting"
      "status = StatusOwned \<longrightarrow> TrimSpace sid \<noteq> [] \<and> acc"
      "r = current\<lparr>sr_Status := status, sr_SessionID := sid, sr_PromptAccepted := acc,
                   sr_Message := start_boundedUTF8 msg maxTerminalMessageBytes,
                   sr_UpdatedAt := now\<rparr>"
      "(j', map_option StartPersistFailed fault)
       = persistStart fault (AList.update key r (sj_records j)) j"
proof (cases "j' = j")
  case False
  let ?key = "operationKey sha (sj_deviceHash j) op"
  from False assms obtain current where c: "map_of (sj_records j) ?key = Some current"
    and g: "terminal status" "validateOperationID op = None" "length sid \<le> maxSessionIDBytes"
      "ValidString sid" "sr_Status current = StatusStarting"
      "status = StatusOwned \<longrightarrow> TrimSpace sid \<noteq> [] \<and> acc"
    by (auto simp: FinishWithPromptOutcome_def Let_def split: option.splits if_splits)
  let ?r = "current\<lparr>sr_Status := status, sr_SessionID := sid, sr_PromptAccepted := acc,
                   sr_Message := start_boundedUTF8 msg maxTerminalMessageBytes,
                   sr_UpdatedAt := now\<rparr>"
  obtain j1 e where p: "persistStart fault (AList.update ?key ?r (sj_records j)) j = (j1, e)" by force
  have "\<not> terminal StatusStarting" by (simp add: terminal_def)
  then show thesis
    by (intro written [OF g(1-4) refl c g(5,6) refl])
      (use c g assms p persistStart_pair(3) [OF p] in
        \<open>auto simp: FinishWithPromptOutcome_def Let_def split: option.splits\<close>)
qed (rule refused)

text \<open>
  Over one process a record is never removed, and a terminal record never changes.
\<close>

definition extends :: "start_map \<Rightarrow> start_map \<Rightarrow> bool" where
  "extends m m' \<longleftrightarrow> (\<forall>key r. map_of m key = Some r \<longrightarrow>
     (\<exists>r'. map_of m' key = Some r' \<and> (terminal (sr_Status r) \<longrightarrow> r' = r)))"

lemma extends_refl [simp]: "extends m m"
  by (simp add: extends_def)

lemma extends_in: "extends m m' \<Longrightarrow> map_of m key = Some r \<Longrightarrow> \<exists>r'. map_of m' key = Some r'"
  by (auto simp: extends_def)

lemma extends_update:
  "(\<And>r. map_of m key = Some r \<Longrightarrow> \<not> terminal (sr_Status r)) \<Longrightarrow> extends m (AList.update key r' m)"
  by (auto simp: extends_def)

datatype start_op =
    OBegin nanos string start_Request
  | OFinish nanos string start_Status string string bool
  | OFailClosed nanos string string

fun start_op_run ::
  "(string \<Rightarrow> string) \<Rightarrow> start_op \<Rightarrow> persist_step option \<Rightarrow> Journal \<Rightarrow> Journal \<times> string option" where
  "start_op_run sha (OBegin now op request) fault j =
     (case Begin sha now fault op request j of
        (j', Inr (r, True)) \<Rightarrow> (j', Some (sr_Key r))
      | (j', _) \<Rightarrow> (j', None))"
| "start_op_run sha (OFinish now op status sid msg acc) fault j =
     (fst (FinishWithPromptOutcome sha now fault op status sid msg acc j), None)"
| "start_op_run sha (OFailClosed now op msg) fault j = (fst (FailClosed sha now op msg j), None)"

definition start_mem_ok :: "start_map \<Rightarrow> bool" where
  "start_mem_ok m \<longleftrightarrow> start_keyed m \<and> hex_keys m"

lemma start_mem_ok_update:
  "start_mem_ok m \<Longrightarrow> validJournalKey k \<Longrightarrow> sr_Key r = k \<Longrightarrow> start_mem_ok (AList.update k r m)"
  using start_keyed_update [of m r k] hex_keys_update [of m k r]
  by (simp add: start_mem_ok_def start_keyed_def)

definition one_write ::
  "persist_step option \<Rightarrow> Journal \<Rightarrow> Journal \<Rightarrow> string option \<Rightarrow> bool" where
  "one_write fault j j' out \<longleftrightarrow>
     sj_deviceHash j' = sj_deviceHash j \<and>
     (\<exists>m'. start_mem_ok m' \<and> extends (sj_records j) m' \<and>
       (j' = j \<and> out = None
        \<or> sj_data j' = (sj_data j)\<lparr>mem := m'\<rparr> \<and> out = None
        \<or> sj_data j' = fst (commit (encodeStart (sj_deviceHash j)) fault m' (sj_data j))
          \<and> (\<forall>key. out = Some key \<longrightarrow>
               fault = None \<and> map_of (sj_records j) key = None \<and> map_of m' key \<noteq> None)))"

lemma one_write_same: "start_mem_ok (sj_records j) \<Longrightarrow> one_write fault j j None"
  unfolding one_write_def by (intro conjI exI [of _ "sj_records j"]) auto

lemma operationKey_hex: "hex_digest sha \<Longrightarrow> validJournalKey (operationKey sha hash op)"
  by (simp add: hex_digest_def operationKey_def)

lemma Begin_one_write:
  assumes "hex_digest sha" and "start_mem_ok (sj_records j)"
    and "start_op_run sha (OBegin now op request) fault j = (j', out)"
  shows "one_write fault j j' out"
proof -
  obtain res where b: "Begin sha now fault op request j = (j', res)"
    and out: "out = (case res of Inr (r, True) \<Rightarrow> Some (sr_Key r) | _ \<Rightarrow> None)"
    using assms(3) by (auto split: prod.splits sum.splits bool.splits)
  from b show ?thesis
  proof (cases rule: Begin_cases)
    case refused
    then have "out = None" using out by (auto split: sum.splits bool.splits)
    then show ?thesis using refused one_write_same [OF assms(2)] by simp
  next
    case (written key r)
    note p = persistStart_pair [OF written(6) [symmetric]]
    have "start_mem_ok (AList.update key r (sj_records j))"
      using assms(1,2) written(3,5) by (intro start_mem_ok_update) (simp_all add: operationKey_hex)
    moreover have "extends (sj_records j) (AList.update key r (sj_records j))"
      using written(4) by (intro extends_update) simp
    ultimately show ?thesis
      unfolding one_write_def using p written(4,5,7) out
      by (intro conjI exI [of _ "AList.update key r (sj_records j)"])
        (auto split: option.splits)
  qed
qed

lemma Finish_one_write:
  assumes "hex_digest sha" and "start_mem_ok (sj_records j)"
    and "FinishWithPromptOutcome sha now fault op status sid msg acc j = (j', res)"
  shows "one_write fault j j' None"
  using assms(3)
proof (cases rule: Finish_cases)
  case refused
  then show ?thesis using one_write_same [OF assms(2)] by simp
next
  case (written key current r)
  note p = persistStart_pair [OF written(10) [symmetric]]
  have "sr_Key current = key"
    using assms(2) written(6) by (auto simp: start_mem_ok_def intro: start_keyed_lookup)
  then have "start_mem_ok (AList.update key r (sj_records j))"
    using assms(1,2) written(5,9) by (intro start_mem_ok_update) (simp_all add: operationKey_hex)
  moreover have "extends (sj_records j) (AList.update key r (sj_records j))"
    using written(6,7) by (intro extends_update) (simp add: terminal_def)
  ultimately show ?thesis
    unfolding one_write_def using p
    by (intro conjI exI [of _ "AList.update key r (sj_records j)"]) auto
qed

lemma FailClosed_one_write:
  assumes "hex_digest sha" and "start_mem_ok (sj_records j)"
  shows "one_write fault j (fst (FailClosed sha now op msg j)) None"
proof (cases "map_of (sj_records j) (operationKey sha (sj_deviceHash j) op)")
  case None
  then show ?thesis using one_write_same [OF assms(2)] by (simp add: FailClosed_def Let_def)
next
  case (Some r)
  let ?key = "operationKey sha (sj_deviceHash j) op"
  let ?r = "r\<lparr>sr_Status := StatusIndeterminate,
              sr_Message := start_boundedUTF8 msg maxTerminalMessageBytes, sr_UpdatedAt := now\<rparr>"
  have "sr_Key r = ?key"
    using assms(2) Some by (auto simp: start_mem_ok_def intro: start_keyed_lookup)
  then have ok: "start_mem_ok (AList.update ?key ?r (sj_records j))"
    using assms by (intro start_mem_ok_update) (simp_all add: operationKey_hex)
  show ?thesis
  proof (cases "validateOperationID op = None \<and> sr_Status r = StatusStarting")
    case True
    then have "extends (sj_records j) (AList.update ?key ?r (sj_records j))"
      using Some by (intro extends_update) (simp add: terminal_def)
    then show ?thesis
      unfolding one_write_def using True Some ok
      by (intro conjI exI [of _ "AList.update ?key ?r (sj_records j)"])
        (auto simp: FailClosed_def Let_def)
  next
    case False
    then show ?thesis using Some one_write_same [OF assms(2)] by (auto simp: FailClosed_def Let_def)
  qed
qed

lemma start_op_one_write:
  assumes "hex_digest sha" and "start_mem_ok (sj_records j)"
    and "start_op_run sha op fault j = (j', out)"
  shows "one_write fault j j' out"
proof (cases op)
  case (OBegin now oid request)
  then show ?thesis using Begin_one_write assms by blast
next
  case (OFinish now oid status sid msg acc)
  then show ?thesis using Finish_one_write [OF assms(1,2)] assms(3) by (auto simp: prod_eq_iff)
next
  case (OFailClosed now oid msg)
  then show ?thesis using FailClosed_one_write [OF assms(1,2)] assms(3) by auto
qed

section \<open>The journal across restarts\<close>

datatype start_event =
    SCall start_op "persist_step option"
  | SRestart nanos "persist_step option"

datatype start_proc = SUp Journal | SDown start_source

fun start_file :: "start_proc \<Rightarrow> start_source" where
  "start_file (SUp j) = disk (sj_data j)"
| "start_file (SDown src) = src"

fun start_run ::
  "(string \<Rightarrow> string) \<Rightarrow> string \<Rightarrow> start_event \<Rightarrow> start_proc \<Rightarrow> start_proc \<times> string option" where
  "start_run sha dev (SCall op fault) (SUp j) =
     (case start_op_run sha op fault j of (j', out) \<Rightarrow> (SUp j', out))"
| "start_run sha dev (SCall op fault) (SDown src) = (SDown src, None)"
| "start_run sha dev (SRestart now fault) p =
     (case Load sha now fault dev (start_file p) of
        (Inl e, file) \<Rightarrow> (SDown file, None)
      | (Inr j, file) \<Rightarrow> (SUp j, None))"

fun starts :: "(string \<Rightarrow> string) \<Rightarrow> string \<Rightarrow> start_event list \<Rightarrow> start_proc \<Rightarrow> string list" where
  "starts sha dev [] p = []"
| "starts sha dev (ev # evs) p =
     (case start_run sha dev ev p of
        (p', None) \<Rightarrow> starts sha dev evs p'
      | (p', Some key) \<Rightarrow> key # starts sha dev evs p')"

fun start_final :: "(string \<Rightarrow> string) \<Rightarrow> string \<Rightarrow> start_event list \<Rightarrow> start_proc \<Rightarrow> start_proc" where
  "start_final sha dev [] p = p"
| "start_final sha dev (ev # evs) p = start_final sha dev evs (fst (start_run sha dev ev p))"

fun start_proc_ok :: "string \<Rightarrow> start_proc \<Rightarrow> bool" where
  "start_proc_ok hash (SUp j) \<longleftrightarrow> start_mem_ok (sj_records j) \<and> sj_deviceHash j = hash"
| "start_proc_ok hash (SDown src) \<longleftrightarrow> True"

definition bound :: "string \<Rightarrow> start_proc \<Rightarrow> bool" where
  "bound key p \<longleftrightarrow> file_lookup key (start_file p) \<noteq> None
     \<and> (case p of SUp j \<Rightarrow> map_of (sj_records j) key \<noteq> None | SDown _ \<Rightarrow> True)"

text \<open>What a restart would make of the file is the outcome \<open>t\<close>, and memory already says so.\<close>

definition recovered_outcome :: "start_Status \<Rightarrow> start_Status" where
  "recovered_outcome st = (if st = StatusStarting then StatusIndeterminate else st)"

definition settled :: "string \<Rightarrow> start_Status \<Rightarrow> start_proc \<Rightarrow> bool" where
  "settled key t p \<longleftrightarrow>
     (\<exists>f. file_lookup key (start_file p) = Some f \<and> recovered_outcome (sr_Status f) = t)
     \<and> (case p of SUp j \<Rightarrow> \<exists>r. map_of (sj_records j) key = Some r \<and> sr_Status r = t
        | SDown _ \<Rightarrow> True)"

lemma file_lookup_written:
  "start_mem_ok m \<Longrightarrow> file_lookup key (encodeStart hash m) = map_option json_start (map_of m key)"
  by (simp add: start_mem_ok_def file_lookup_encode)

lemma json_start_status [simp]: "sr_Status (json_start r) = sr_Status r"
  by (simp add: json_start_def)

lemma one_write_cases:
  assumes "one_write fault j j' out"
  obtains (same) "j' = j" "out = None"
    | (memory) m' where "start_mem_ok m'" "extends (sj_records j) m'"
        "sj_records j' = m'" "disk (sj_data j') = disk (sj_data j)" "out = None"
    | (ok) m' where "start_mem_ok m'" "extends (sj_records j) m'" "fault = None"
        "sj_records j' = m'" "disk (sj_data j') = encodeStart (sj_deviceHash j) m'"
        "\<forall>key. out = Some key \<longrightarrow> map_of (sj_records j) key = None \<and> map_of m' key \<noteq> None"
    | (kept) "sj_data j' = sj_data j" "out = None"
    | (replaced) m' where "start_mem_ok m'" "extends (sj_records j) m'"
        "fault = Some ChmodFinal" "sj_records j' = sj_records j"
        "disk (sj_data j') = encodeStart (sj_deviceHash j) m'" "out = None"
proof -
  obtain m' where m': "start_mem_ok m'" "extends (sj_records j) m'"
    and cs: "j' = j \<and> out = None \<or> sj_data j' = (sj_data j)\<lparr>mem := m'\<rparr> \<and> out = None
        \<or> sj_data j' = fst (commit (encodeStart (sj_deviceHash j)) fault m' (sj_data j))
          \<and> (\<forall>key. out = Some key \<longrightarrow>
               fault = None \<and> map_of (sj_records j) key = None \<and> map_of m' key \<noteq> None)"
    using assms unfolding one_write_def by blast
  then consider "j' = j" "out = None" | "sj_data j' = (sj_data j)\<lparr>mem := m'\<rparr>" "out = None"
    | (wrote) "sj_data j' = fst (commit (encodeStart (sj_deviceHash j)) fault m' (sj_data j))"
      "\<forall>key. out = Some key \<longrightarrow>
         fault = None \<and> map_of (sj_records j) key = None \<and> map_of m' key \<noteq> None" by blast
  then show thesis
  proof cases
    case wrote
    have none: "fault \<noteq> None \<Longrightarrow> out = None" using wrote(2) by (cases out) auto
    show thesis
      by (rule commit_cases [of fault "encodeStart (sj_deviceHash j)" m' "sj_data j"])
        (use wrote m' none ok kept replaced in auto)
  qed (use same memory [OF m'] in auto)
qed

lemma start_call_keeps:
  assumes "one_write fault j j' out" and "start_mem_ok (sj_records j)"
  shows "start_mem_ok (sj_records j')"
    and "bound key (SUp j) \<Longrightarrow> bound key (SUp j')"
    and "out = Some key \<Longrightarrow> \<not> bound key (SUp j) \<and> bound key (SUp j')"
    and "fault \<noteq> Some ChmodFinal \<Longrightarrow> terminal t \<Longrightarrow> settled key t (SUp j) \<Longrightarrow> settled key t (SUp j')"
proof -
  have ro: "terminal t \<Longrightarrow> recovered_outcome t = t"
    by (auto simp: recovered_outcome_def terminal_def)
  show "start_mem_ok (sj_records j')"
    using assms by (cases rule: one_write_cases) auto
  show "bound key (SUp j')" if "bound key (SUp j)"
    using assms(1) that
    by (cases rule: one_write_cases) (auto simp: bound_def file_lookup_written dest: extends_in)
  show "\<not> bound key (SUp j) \<and> bound key (SUp j')" if "out = Some key"
    using assms(1) that
    by (cases rule: one_write_cases) (auto simp: bound_def file_lookup_written)
  show "settled key t (SUp j')" if "fault \<noteq> Some ChmodFinal" "terminal t" "settled key t (SUp j)"
    using assms(1) that ro
    by (cases rule: one_write_cases) (fastforce simp: settled_def file_lookup_written extends_def)+
qed

lemma loadStart_hex:
  assumes "loadStart sha hash now rs [] ch = Inr (m, ch')" and "hex_digest sha"
  shows "start_mem_ok m"
proof -
  have "\<forall>r \<in> set rs. validJournalKey (sr_Key r)"
    using loadStart_Inr [OF assms(1) gomap_Nil] assms(2)
    by (auto dest!: validateRecord_key simp: operationKey_hex)
  moreover have "m = map (\<lambda>r. (sr_Key r, recover_start now r)) rs"
    using loadStart_Inr [OF assms(1) gomap_Nil] by simp
  ultimately show ?thesis
    using loadStart_keyed(1) [OF assms(1)] by (auto simp: start_mem_ok_def hex_keys_def)
qed

lemma restart_keeps:
  assumes "start_run sha dev (SRestart now fault) p = (p', out)" and "hex_digest sha"
  shows "start_proc_ok (sha dev) p'" and "out = None"
    and "bound key p \<Longrightarrow> bound key p'"
    and "terminal t \<Longrightarrow> settled key t p \<Longrightarrow> settled key t p'"
proof -
  obtain res fl where load: "Load sha now fault dev (start_file p) = (res, fl)" by force
  have p': "p' = (case res of Inl e \<Rightarrow> SDown fl | Inr j \<Rightarrow> SUp j)" and "out = None"
    using assms(1) load by (auto split: sum.splits)
  then show "out = None" by simp
  have rs: "recovered_outcome (sr_Status (recover_start now f)) = recovered_outcome (sr_Status f)"
    "sr_Status (recover_start now f) = recovered_outcome (sr_Status f)" for f
    by (simp_all add: recovered_outcome_def recover_start_def)
  have "start_proc_ok (sha dev) p' \<and> (bound key p \<longrightarrow> bound key p')
      \<and> (terminal t \<longrightarrow> settled key t p \<longrightarrow> settled key t p')"
    using load
  proof (cases rule: Load_cases)
    case (kept e)
    then show ?thesis using p' by (auto simp: bound_def settled_def)
  next
    case (replaced d records)
    note ok = loadStart_hex [OF replaced(2) assms(2)]
    show ?thesis
      using p' replaced(1,4,5) file_lookup_written [OF ok] loadStart_keyed(2) [OF replaced(2), of key] rs
      by (auto simp: bound_def settled_def)
  next
    case fresh
    then show ?thesis
      using p' by (auto simp: bound_def settled_def start_mem_ok_def start_keyed_def hex_keys_def)
  next
    case (loaded d records ch)
    note ok = loadStart_hex [OF loaded(2) assms(2)]
    show ?thesis
      using p' loaded(1,3,4) ok file_lookup_written [OF ok] loadStart_keyed(2) [OF loaded(2), of key] rs
      by (auto simp: bound_def settled_def)
  qed
  then show "start_proc_ok (sha dev) p'" and "bound key p \<Longrightarrow> bound key p'"
    and "terminal t \<Longrightarrow> settled key t p \<Longrightarrow> settled key t p'" by blast+
qed

lemma start_run_keeps:
  assumes "start_run sha dev ev p = (p', out)" and "hex_digest sha" and "start_proc_ok (sha dev) p"
  shows "start_proc_ok (sha dev) p'" and "bound key p \<Longrightarrow> bound key p'"
    and "out = Some key \<Longrightarrow> \<not> bound key p \<and> bound key p'"
    and "(\<And>op. ev \<noteq> SCall op (Some ChmodFinal)) \<Longrightarrow> terminal t \<Longrightarrow> settled key t p \<Longrightarrow> settled key t p'"
proof -
  have "start_proc_ok (sha dev) p' \<and> (bound key p \<longrightarrow> bound key p')
    \<and> (out = Some key \<longrightarrow> \<not> bound key p \<and> bound key p')
    \<and> ((\<forall>op. ev \<noteq> SCall op (Some ChmodFinal)) \<longrightarrow> terminal t \<longrightarrow> settled key t p \<longrightarrow> settled key t p')"
  proof (cases ev)
    case (SRestart now fault)
    then show ?thesis using restart_keeps [of sha dev now fault p p' out] assms(1,2) by auto
  next
    case (SCall op fault)
    show ?thesis
    proof (cases p)
      case (SUp j)
      obtain j' where run: "start_op_run sha op fault j = (j', out)" and p': "p' = SUp j'"
        using assms(1) SCall SUp by (auto split: prod.splits)
      have ok: "start_mem_ok (sj_records j)" using assms(3) SUp by simp
      note k = start_call_keeps [OF start_op_one_write [OF assms(2) ok run] ok]
      have "sj_deviceHash j' = sj_deviceHash j"
        using start_op_one_write [OF assms(2) ok run] by (simp add: one_write_def)
      then show ?thesis using k SUp p' SCall assms(3) by auto
    qed (use assms SCall in auto)
  qed
  then show "start_proc_ok (sha dev) p'" and "bound key p \<Longrightarrow> bound key p'"
    and "out = Some key \<Longrightarrow> \<not> bound key p \<and> bound key p'"
    and "(\<And>op. ev \<noteq> SCall op (Some ChmodFinal)) \<Longrightarrow> terminal t \<Longrightarrow> settled key t p \<Longrightarrow> settled key t p'"
    by blast+
qed

lemma starts_bound:
  assumes "hex_digest sha"
  shows "start_proc_ok (sha dev) p \<Longrightarrow>
    count_list (starts sha dev evs p) key \<le> (if bound key p then 0 else 1)"
proof (induction evs arbitrary: p)
  case (Cons ev evs)
  obtain p' out where run: "start_run sha dev ev p = (p', out)" by force
  note k = start_run_keeps [OF run assms Cons.prems]
  show ?case using Cons.IH [OF k(1)] k(2,3) run by (auto split: option.splits if_splits)
qed simp

text \<open>C7. One native thread per operation.  Over any sequence of calls, failures and restarts,
  starting from any file, \<open>Begin\<close> reports \<open>created = true\<close> at most once for each operation key:
  no operation ever starts two native threads.\<close>

theorem start_at_most_once:
  assumes "hex_digest sha"
  shows "count_list (starts sha dev evs (SDown src)) key \<le> 1"
  using starts_bound [OF assms, of dev "SDown src" evs key] by (simp split: if_splits)

theorem start_at_most_once_witness:
  "hex_digest demo_sha \<and> count_list (starts demo_sha ''d''
     [SRestart 1 None, SCall (OBegin 2 ''op''
        \<lparr>rq_AgentType = ''codex'', rq_ProjectDir = ''p'', rq_PromptDigest = demo_sha ''x'',
         rq_AttachmentsDigest = []\<rparr>) None, SRestart 3 None] (SDown NoFile))
     (operationKey demo_sha (demo_sha ''d'') ''op'') \<le> 1"
  by (rule conjI, rule hex_digest_demo) (rule start_at_most_once [OF hex_digest_demo])

text \<open>An outcome is final.  Once an operation has a terminal status in a state whose file
  agrees (\<open>settled\<close>), every later state of the journal, across calls, restarts and every failure
  except the one after the rename, shows the same status, in memory and after recovery.\<close>

theorem start_outcome_final:
  assumes "hex_digest sha" and "start_proc_ok (sha dev) p"
    and "\<forall>op. SCall op (Some ChmodFinal) \<notin> set evs" and "terminal t" and "settled key t p"
  shows "settled key t (start_final sha dev evs p)"
  using assms(2,3,5)
proof (induction evs arbitrary: p)
  case (Cons ev evs)
  obtain p' out where run: "start_run sha dev ev p = (p', out)" by force
  note k = start_run_keeps [OF run assms(1) Cons.prems(1)]
  have "ev \<noteq> SCall op (Some ChmodFinal)" for op using Cons.prems(2) by auto
  then have "settled key t p'" using k(4) assms(4) Cons.prems(3) by blast
  then show ?case using Cons.IH [OF k(1)] Cons.prems(2) run by simp
qed simp

section \<open>Records are valid\<close>

text \<open>
  What \<open>validateRecord\<close> accepts, for a map.  Messages are valid UTF-8 when the callers'
  messages are.
\<close>

definition start_records_ok :: "(string \<Rightarrow> string) \<Rightarrow> string \<Rightarrow> start_map \<Rightarrow> bool" where
  "start_records_ok sha hash m \<longleftrightarrow>
     gomap m \<and> (\<forall>(k, r) \<in> set m. sr_Key r = k \<and> validateRecord sha hash r = None)"

lemma validateRecord_None:
  "validateRecord sha hash r = None \<longleftrightarrow>
     validateOperationID (sr_OperationID r) = None \<and> validateRequest (request_of r) = None
     \<and> sr_Key r = operationKey sha hash (sr_OperationID r)
     \<and> (sr_Status r = StatusStarting \<or> terminal (sr_Status r))
     \<and> (sr_Status r = StatusOwned \<longrightarrow> TrimSpace (sr_SessionID r) \<noteq> [] \<and> sr_PromptAccepted r)
     \<and> length (sr_SessionID r) \<le> maxSessionIDBytes \<and> ValidString (sr_SessionID r)
     \<and> length (sr_Message r) \<le> maxTerminalMessageBytes \<and> ValidString (sr_Message r)"
  unfolding validateRecord_def
  by (cases "validateOperationID (sr_OperationID r)"; cases "validateRequest (request_of r)")
    (auto split: if_splits)

lemma start_bounded:
  assumes "3 \<le> n"
  shows "length (start_boundedUTF8 v n) \<le> n"
    and "ValidString v \<Longrightarrow> ValidString (start_boundedUTF8 v n)"
proof -
  show "length (start_boundedUTF8 v n) \<le> n"
    using valid_cut_le [of v "n - 3"] assms by (auto simp: start_boundedUTF8_def)
  show "ValidString (start_boundedUTF8 v n)" if "ValidString v"
    using that valid_cut_valid [of v "n - 3"] dots_valid
    by (auto simp: start_boundedUTF8_def intro: ValidString_append)
qed

lemma bounded_message:
  "length (start_boundedUTF8 v maxTerminalMessageBytes) \<le> maxTerminalMessageBytes"
  "ValidString v \<Longrightarrow> ValidString (start_boundedUTF8 v maxTerminalMessageBytes)"
  by (rule start_bounded, simp add: maxTerminalMessageBytes_def)+

fun op_messages_valid :: "start_op \<Rightarrow> bool" where
  "op_messages_valid (OBegin now op request) = True"
| "op_messages_valid (OFinish now op status sid msg acc) = ValidString msg"
| "op_messages_valid (OFailClosed now op msg) = ValidString msg"

lemma start_records_ok_update:
  "start_records_ok sha hash m \<Longrightarrow> validateRecord sha hash r = None \<Longrightarrow> sr_Key r = k \<Longrightarrow>
   start_records_ok sha hash (AList.update k r m)"
  by (auto simp: start_records_ok_def gomap_intros set_update_gomap)

lemma start_records_ok_lookup:
  "start_records_ok sha hash m \<Longrightarrow> map_of m k = Some r \<Longrightarrow>
   validateRecord sha hash r = None \<and> sr_Key r = k"
  by (auto simp: start_records_ok_def dest: map_of_SomeD)

lemma empty_valid: "ValidString []"
  by (rule ValidString_ascii) simp

lemma commit_mem_start:
  assumes "(j', e) = persistStart fault m j"
  shows "sj_records j' = sj_records j \<or> sj_records j' = m"
proof -
  note p = persistStart_pair(2) [OF assms [symmetric]]
  show ?thesis
    by (rule commit_cases [of fault "encodeStart (sj_deviceHash j)" m "sj_data j"]) (use p in auto)
qed

lemma start_op_records_ok:
  assumes "start_records_ok sha (sj_deviceHash j) (sj_records j)" and "op_messages_valid op"
  shows "start_records_ok sha (sj_deviceHash j) (sj_records (fst (start_op_run sha op fault j)))"
proof (cases op)
  case (OBegin now oid request)
  obtain j' res where b: "Begin sha now fault oid request j = (j', res)" by force
  have f: "fst (start_op_run sha op fault j) = j'"
    using OBegin b by (auto split: sum.splits prod.splits bool.splits)
  from b show ?thesis
  proof (cases rule: Begin_cases)
    case (written key r)
    have "request_of r = request" using written(5) by (simp add: request_of_def)
    then have "validateRecord sha (sj_deviceHash j) r = None"
      using written(1,2,3,5) empty_valid by (simp add: validateRecord_None)
    then have "start_records_ok sha (sj_deviceHash j) (AList.update key r (sj_records j))"
      using assms(1) written(5) by (intro start_records_ok_update) simp_all
    then show ?thesis using commit_mem_start [OF written(6)] assms(1) f by auto
  qed (use assms(1) f in simp)
next
  case (OFinish now oid status sid msg acc)
  obtain j' res where b: "FinishWithPromptOutcome sha now fault oid status sid msg acc j = (j', res)"
    by force
  from b show ?thesis
  proof (cases rule: Finish_cases)
    case (written key current r)
    note c = start_records_ok_lookup [OF assms(1) written(6)]
    have "request_of r = request_of current" using written(9) by (simp add: request_of_def)
    then have "validateRecord sha (sj_deviceHash j) r = None"
      using c written(1,3,4,8,9) bounded_message assms(2) OFinish by (simp add: validateRecord_None)
    then have "start_records_ok sha (sj_deviceHash j) (AList.update key r (sj_records j))"
      using assms(1) c written(9) by (intro start_records_ok_update) simp_all
    then show ?thesis using commit_mem_start [OF written(10)] assms(1) OFinish b by auto
  qed (use assms(1) OFinish b in simp)
next
  case (OFailClosed now oid msg)
  let ?key = "operationKey sha (sj_deviceHash j) oid"
  show ?thesis
  proof (cases "map_of (sj_records j) ?key")
    case None
    then show ?thesis using OFailClosed assms(1) by (simp add: FailClosed_def Let_def)
  next
    case (Some r)
    let ?r = "r\<lparr>sr_Status := StatusIndeterminate,
              sr_Message := start_boundedUTF8 msg maxTerminalMessageBytes, sr_UpdatedAt := now\<rparr>"
    note c = start_records_ok_lookup [OF assms(1) Some]
    have "request_of ?r = request_of r" by (simp add: request_of_def)
    then have "validateRecord sha (sj_deviceHash j) ?r = None"
      using c bounded_message assms(2) OFailClosed by (simp add: validateRecord_None terminal_def)
    then have "start_records_ok sha (sj_deviceHash j) (AList.update ?key ?r (sj_records j))"
      using assms(1) c by (intro start_records_ok_update) simp_all
    then show ?thesis using Some OFailClosed assms(1) by (simp add: FailClosed_def Let_def)
  qed
qed

inductive start_step :: "(string \<Rightarrow> string) \<Rightarrow> Journal \<Rightarrow> Journal \<Rightarrow> bool" for sha where
  call: "op_messages_valid op \<Longrightarrow> start_step sha j (fst (start_op_run sha op fault j))"

lemma start_op_hash: "sj_deviceHash (fst (start_op_run sha op fault j)) = sj_deviceHash j"
proof (cases op)
  case (OBegin now oid request)
  obtain j' res where b: "Begin sha now fault oid request j = (j', res)" by force
  then have "sj_deviceHash j' = sj_deviceHash j"
    by (cases rule: Begin_cases) (auto dest: persistStart_pair(1) [OF sym])
  then show ?thesis using OBegin b by (auto split: sum.splits prod.splits bool.splits)
next
  case (OFinish now oid status sid msg acc)
  obtain j' res where b: "FinishWithPromptOutcome sha now fault oid status sid msg acc j = (j', res)"
    by force
  then have "sj_deviceHash j' = sj_deviceHash j"
    by (cases rule: Finish_cases) (auto dest: persistStart_pair(1) [OF sym])
  then show ?thesis using OFinish b by simp
next
  case (OFailClosed now oid msg)
  then show ?thesis by (auto simp: FailClosed_def Let_def split: option.splits)
qed

interpretation start_inv: step_invariant "start_step sha"
  "\<lambda>j. start_records_ok sha (sj_deviceHash j) (sj_records j)" for sha
  by unfold_locales (auto elim!: start_step.cases simp: start_op_hash start_op_records_ok)

text \<open>Owned means owned.  After any sequence of calls with well-formed messages, every record
  passes the journal's own validation: its key is the digest of its operation id, and a record
  in state owned has a native session id and positive evidence that the first prompt was
  accepted.\<close>

theorem start_records_valid:
  assumes "(start_step sha)\<^sup>*\<^sup>* j j'" and "start_records_ok sha (sj_deviceHash j) (sj_records j)"
    and "Lookup sha j' op = Some r"
  shows "sr_Key r = operationKey sha (sj_deviceHash j') op
    \<and> validateRecord sha (sj_deviceHash j') r = None
    \<and> (sr_Status r = StatusOwned \<longrightarrow> TrimSpace (sr_SessionID r) \<noteq> [] \<and> sr_PromptAccepted r)"
proof -
  have ok: "start_records_ok sha (sj_deviceHash j') (sj_records j')"
    by (rule start_inv.steps_keep [OF assms(1,2)])
  have "map_of (sj_records j') (operationKey sha (sj_deviceHash j') op) = Some r"
    using assms(3) by (auto simp: Lookup_def split: if_splits)
  from start_records_ok_lookup [OF ok this] show ?thesis
    using validateRecord_None [of sha "sj_deviceHash j'" r] by blast
qed

text \<open>Duplicates are replayed and never re-bound.  For an operation that already has a
  record, \<open>Begin\<close> changes nothing; with the same request it returns the stored record, with any
  other request it reports a conflict.\<close>

theorem begin_duplicate:
  assumes "Lookup sha j op = Some r" and "sr_OperationID r = op" and "validateRequest request = None"
  shows "Begin sha now fault op request j =
    (j, if request_of r = request then Inr (r, False) else Inl (Conflict op))"
proof -
  have "sameRequest r request = (request_of r = request)"
    by (cases request) (auto simp: sameRequest_def request_of_def)
  then show ?thesis
    using assms by (auto simp: Lookup_def Begin_def Let_def split: if_splits)
qed

text \<open>
  A message that is not UTF-8 grows when it is written: each bad byte becomes the three bytes
  of the replacement character.
\<close>

lemma json_coerce_bad: "json_coerce (replicate n (CHR 0xFF)) = concat (replicate n [CHR 0xEF, CHR 0xBF, CHR 0xBD])"
proof (induction n)
  case (Suc n)
  have "rune_len (replicate (Suc n) (CHR 0xFF)) = 0"
    by (simp add: rune_len_def rune_need_def byte_def)
  then show ?case using Suc by (subst json_coerce.simps) simp
qed simp

text \<open>A terminal message of 683 to 2048 bytes that is not UTF-8 is accepted unshortened and
  written, but the file can then not be loaded again: the reloaded message is over the limit,
  and \<open>Load\<close> fails for the whole journal.\<close>

theorem bad_message_blocks_load:
  assumes "683 \<le> n" and "n \<le> 2048" and "sr_Message r = start_boundedUTF8 (replicate n (CHR 0xFF)) 2048"
    and "json_start r \<in> set (dj_Records d)" and "Load sha now fault dev (Decoded d) = (res, after)"
  shows "sr_Message r = replicate n (CHR 0xFF) \<and> (\<exists>e. res = Inl e)"
proof
  show m: "sr_Message r = replicate n (CHR 0xFF)"
    using assms(2,3) by (simp add: start_boundedUTF8_def)
  have len: "length (concat (replicate k [a, b, c :: char])) = 3 * k" for a b c k
    by (induction k) auto
  have "length (sr_Message (json_start r)) = 3 * n"
    by (simp add: json_start_def m json_coerce_bad len)
  then have bad: "validateRecord sha (sha dev) (json_start r) \<noteq> None"
    using assms(1) by (simp add: validateRecord_None maxTerminalMessageBytes_def)
  from assms(5) show "\<exists>e. res = Inl e"
  proof (cases rule: Load_cases)
    case (loaded d' records ch)
    then show ?thesis using loadStart_Inr [OF loaded(2) gomap_Nil] assms(4) bad by auto
  qed auto
qed

section \<open>Witnesses\<close>

definition demo_request :: start_Request where
  "demo_request = \<lparr>rq_AgentType = ''codex'', rq_ProjectDir = ''p'',
     rq_PromptDigest = replicate 64 (CHR ''0''), rq_AttachmentsDigest = []\<rparr>"

definition demo_start :: "start_Status \<Rightarrow> start_Record" where
  "demo_start st =
     \<lparr>sr_Key = operationKey demo_sha (demo_sha ''d'') ''op'', sr_OperationID = ''op'',
      sr_AgentType = ''codex'', sr_ProjectDir = ''p'',
      sr_PromptDigest = replicate 64 (CHR ''0''), sr_AttachmentsDigest = [], sr_Status = st,
      sr_SessionID = ''t1'', sr_PromptAccepted = True, sr_Message = [], sr_UpdatedAt = 1\<rparr>"

definition demo_start_journal :: Journal where
  "demo_start_journal =
     (let m = [(operationKey demo_sha (demo_sha ''d'') ''op'', demo_start StatusOwned)]
      in \<lparr>sj_deviceHash = demo_sha ''d'',
          sj_data = \<lparr>mem = m, disk = encodeStart (demo_sha ''d'') m\<rparr>\<rparr>)"

lemma demo_request_valid: "validateRequest demo_request = None" "validateOperationID ''op'' = None"
  by code_simp+

lemma demo_start_mem: "start_mem_ok (sj_records demo_start_journal)"
  using operationKey_hex [OF hex_digest_demo]
  by (simp add: demo_start_journal_def Let_def start_mem_ok_def start_keyed_def hex_keys_def
      gomap_def demo_start_def)

lemma demo_start_settled:
  "settled (operationKey demo_sha (demo_sha ''d'') ''op'') StatusOwned (SUp demo_start_journal)"
proof -
  have "start_mem_ok [(operationKey demo_sha (demo_sha ''d'') ''op'', demo_start StatusOwned)]"
    using demo_start_mem by (simp add: demo_start_journal_def Let_def)
  from file_lookup_written [OF this] show ?thesis
    by (simp add: settled_def demo_start_journal_def Let_def recovered_outcome_def)
      (simp add: demo_start_def)
qed

theorem start_outcome_final_witness:
  "settled (operationKey demo_sha (demo_sha ''d'') ''op'') StatusOwned
     (start_final demo_sha ''d''
        [SCall (OFailClosed 5 ''op'' ''late'') None, SCall (OFinish 6 ''op'' StatusFailed [] [] False) None,
         SRestart 7 (Some RenameTemp)] (SUp demo_start_journal))"
  by (rule start_outcome_final [OF hex_digest_demo _ _ _ demo_start_settled])
    (use demo_start_mem in \<open>simp_all add: terminal_def demo_start_journal_def Let_def\<close>)

lemma demo_start_records:
  "start_records_ok demo_sha (sj_deviceHash demo_start_journal) (sj_records demo_start_journal)"
proof -
  have "request_of (demo_start StatusOwned) = demo_request"
    by (simp add: request_of_def demo_start_def demo_request_def)
  moreover have "TrimSpace ''t1'' \<noteq> []" "ValidString ''t1''" by code_simp+
  ultimately have "validateRecord demo_sha (demo_sha ''d'') (demo_start StatusOwned) = None"
    using demo_request_valid empty_valid
    by (simp add: validateRecord_None terminal_def maxSessionIDBytes_def maxTerminalMessageBytes_def)
      (simp add: demo_start_def)
  then show ?thesis
    by (simp add: start_records_ok_def demo_start_journal_def Let_def gomap_def)
      (simp add: demo_start_def)
qed

lemma demo_start_lookup: "Lookup demo_sha demo_start_journal ''op'' = Some (demo_start StatusOwned)"
  by (simp add: Lookup_def demo_start_journal_def Let_def demo_request_valid)

theorem start_records_valid_witness:
  "Lookup demo_sha demo_start_journal ''op'' = Some (demo_start StatusOwned)
   \<and> TrimSpace (sr_SessionID (demo_start StatusOwned)) \<noteq> []"
  using start_records_valid [OF rtranclp.rtrancl_refl demo_start_records demo_start_lookup]
    demo_start_lookup by (simp add: demo_start_def)

theorem begin_duplicate_witness:
  "Begin demo_sha 9 None ''op'' demo_request demo_start_journal
   = (demo_start_journal, Inr (demo_start StatusOwned, False))"
proof -
  have "sr_OperationID (demo_start StatusOwned) = ''op''"
    "request_of (demo_start StatusOwned) = demo_request"
    by (simp_all add: demo_start_def demo_request_def request_of_def)
  then show ?thesis
    using begin_duplicate [OF demo_start_lookup _ demo_request_valid(1), of 9 None] by simp
qed

theorem bad_message_blocks_load_witness:
  "\<exists>e. fst (Load demo_sha 3 None ''d'' (Decoded \<lparr>dj_Version = 1, dj_DeviceHash = demo_sha ''d'',
     dj_Records = [json_start ((demo_start StatusFailed)
        \<lparr>sr_Message := start_boundedUTF8 (replicate 700 (CHR 0xFF)) 2048\<rparr>)]\<rparr>)) = Inl e"
proof -
  let ?r = "(demo_start StatusFailed)\<lparr>sr_Message := start_boundedUTF8 (replicate 700 (CHR 0xFF)) 2048\<rparr>"
  let ?d = "\<lparr>dj_Version = 1, dj_DeviceHash = demo_sha ''d'', dj_Records = [json_start ?r]\<rparr>"
  obtain res after where l: "Load demo_sha 3 None ''d'' (Decoded ?d) = (res, after)" by force
  have "\<exists>e. res = Inl e"
    using bad_message_blocks_load [of 700 ?r ?d demo_sha 3 None "''d''" res after] l by simp
  then show ?thesis using l by simp
qed

end
