(* ===== verification/Active_Turn.thy ===== *)
theory Active_Turn
  imports Complex_Main Prelude
begin

text \<open>
  The daemon's registry of active native turns, \<open>daemon/cmd/daemon/active_turn.go\<close>: one binding
  per session to an exact turn (generation and client message id), a gate that holds a terminal
  event until the journal has recorded acceptance, and the cleanup that has to work in whichever
  order acceptance and completion arrive.
\<close>

section \<open>Data\<close>

record ActiveTurnBinding =
  tb_Generation :: uint64
  tb_ClientMsgID :: string
  tb_NativeRequestID :: string

text \<open>Of a control event the registry reads the four identifying fields; the rest travels along.\<close>

record ControlEvent =
  ce_SessionID :: string
  ce_Generation :: uint64
  ce_ClientMsgID :: string
  ce_NativeRequestID :: string
  ce_EventID :: string
  ce_Class :: string
  ce_Lifecycle :: string

record activeTurnState =
  at_binding :: ActiveTurnBinding
  at_accepted :: bool
  at_indeterminate :: bool
  at_nativeComplete :: bool
  at_pendingTerminal :: "ControlEvent option"

type_synonym activeTurnRegistry = "(string, activeTurnState) gomap"

definition newActiveTurnRegistry :: activeTurnRegistry where
  "newActiveTurnRegistry = []"

definition is_turn :: "activeTurnState \<Rightarrow> uint64 \<Rightarrow> string \<Rightarrow> bool" where
  "is_turn st generation clientMsgID \<longleftrightarrow>
     tb_Generation (at_binding st) = generation \<and> tb_ClientMsgID (at_binding st) = clientMsgID"

section \<open>Operations\<close>

definition bind ::
  "string \<Rightarrow> uint64 \<Rightarrow> string \<Rightarrow> activeTurnRegistry \<Rightarrow> activeTurnRegistry \<times> bool" where
  "bind sessionID generation clientMsgID r =
     (let sessionID = TrimSpace sessionID; clientMsgID = TrimSpace clientMsgID
      in if sessionID = [] \<or> generation = 0 \<or> clientMsgID = [] then (r, False)
         else if map_of r sessionID \<noteq> None then (r, False)
         else (AList.update sessionID
                 \<lparr>at_binding = \<lparr>tb_Generation = generation, tb_ClientMsgID = clientMsgID,
                                tb_NativeRequestID = []\<rparr>,
                  at_accepted = False, at_indeterminate = False, at_nativeComplete = False,
                  at_pendingTerminal = None\<rparr> r, True))"

definition setNativeRequestID ::
  "string \<Rightarrow> uint64 \<Rightarrow> string \<Rightarrow> string \<Rightarrow> activeTurnRegistry \<Rightarrow> activeTurnRegistry \<times> bool" where
  "setNativeRequestID sessionID generation clientMsgID nativeRequestID r =
     (let nativeRequestID = TrimSpace nativeRequestID
      in if nativeRequestID = [] then (r, False)
         else (case map_of r sessionID of
                 None \<Rightarrow> (r, False)
               | Some st \<Rightarrow>
                   if \<not> is_turn st generation clientMsgID then (r, False)
                   else (AList.update sessionID
                           (st\<lparr>at_binding := (at_binding st)\<lparr>tb_NativeRequestID := nativeRequestID\<rparr>\<rparr>)
                           r, True)))"

definition current :: "activeTurnRegistry \<Rightarrow> string \<Rightarrow> ActiveTurnBinding option" where
  "current r sessionID = map_option at_binding (map_of r sessionID)"

text \<open>\<open>overlayActiveTurns\<close> on the sessions of a snapshot, a nil pointer being None.\<close>

record session_info =
  si_ID :: string
  si_ActiveTurn :: "ActiveTurnBinding option"

definition overlayActiveTurns ::
  "session_info option list \<Rightarrow> activeTurnRegistry \<Rightarrow> session_info option list" where
  "overlayActiveTurns sessions r =
     map (map_option (\<lambda>s. s\<lparr>si_ActiveTurn := current r (si_ID s)\<rparr>)) sessions"

definition matches :: "activeTurnRegistry \<Rightarrow> string \<Rightarrow> uint64 \<Rightarrow> string \<Rightarrow> bool" where
  "matches r sessionID generation clientMsgID \<longleftrightarrow>
     (case map_of r sessionID of None \<Rightarrow> False | Some st \<Rightarrow> is_turn st generation clientMsgID)"

definition clearMatching ::
  "string \<Rightarrow> uint64 \<Rightarrow> string \<Rightarrow> string \<Rightarrow> activeTurnRegistry \<Rightarrow> activeTurnRegistry \<times> bool" where
  "clearMatching sessionID generation clientMsgID nativeRequestID r =
     (case map_of r sessionID of
        None \<Rightarrow> (r, False)
      | Some st \<Rightarrow>
          if \<not> is_turn st generation clientMsgID then (r, False)
          else if nativeRequestID \<noteq> [] \<and> tb_NativeRequestID (at_binding st) \<noteq> nativeRequestID
          then (r, False)
          else (AList.delete sessionID r, True))"

definition accept ::
  "string \<Rightarrow> uint64 \<Rightarrow> string \<Rightarrow> activeTurnRegistry
   \<Rightarrow> activeTurnRegistry \<times> ControlEvent option \<times> bool" where
  "accept sessionID generation clientMsgID r =
     (case map_of r sessionID of
        None \<Rightarrow> (r, None, False)
      | Some st \<Rightarrow>
          if \<not> is_turn st generation clientMsgID then (r, None, False)
          else (let pending = at_pendingTerminal st;
                    st' = st\<lparr>at_accepted := True, at_pendingTerminal := None\<rparr>
                in if at_nativeComplete st \<and> pending = None
                   then (AList.delete sessionID r, None, True)
                   else (AList.update sessionID st' r, pending, False)))"

definition completeMatching ::
  "string \<Rightarrow> uint64 \<Rightarrow> string \<Rightarrow> activeTurnRegistry \<Rightarrow> activeTurnRegistry \<times> bool" where
  "completeMatching sessionID generation clientMsgID r =
     (case map_of r sessionID of
        None \<Rightarrow> (r, False)
      | Some st \<Rightarrow>
          if \<not> is_turn st generation clientMsgID then (r, False)
          else if \<not> at_accepted st \<and> \<not> at_indeterminate st
          then (AList.update sessionID (st\<lparr>at_nativeComplete := True\<rparr>) r, False)
          else (AList.delete sessionID r, True))"

definition abandonAcceptance ::
  "string \<Rightarrow> uint64 \<Rightarrow> string \<Rightarrow> activeTurnRegistry \<Rightarrow> activeTurnRegistry \<times> bool" where
  "abandonAcceptance sessionID generation clientMsgID r =
     (case map_of r sessionID of
        None \<Rightarrow> (r, False)
      | Some st \<Rightarrow>
          if \<not> is_turn st generation clientMsgID then (r, False)
          else if at_nativeComplete st then (AList.delete sessionID r, True)
          else (AList.update sessionID (st\<lparr>at_indeterminate := True, at_pendingTerminal := None\<rparr>) r,
                False))"

definition terminalForEvent ::
  "ControlEvent \<Rightarrow> activeTurnRegistry
   \<Rightarrow> activeTurnRegistry \<times> ActiveTurnBinding option \<times> bool \<times> bool" where
  "terminalForEvent event r =
     (case map_of r (ce_SessionID event) of
        None \<Rightarrow> (r, None, False, False)
      | Some st \<Rightarrow>
          let b = at_binding st
          in if ce_Generation event \<noteq> 0 \<and> ce_Generation event \<noteq> tb_Generation b
             then (r, None, False, False)
             else if ce_ClientMsgID event \<noteq> [] \<and> ce_ClientMsgID event \<noteq> tb_ClientMsgID b
             then (r, None, False, False)
             else if ce_NativeRequestID event \<noteq> [] \<and> ce_NativeRequestID event \<noteq> tb_NativeRequestID b
             then (r, None, False, False)
             else if \<not> at_accepted st
             then (AList.update (ce_SessionID event) (st\<lparr>at_pendingTerminal := Some event\<rparr>) r,
                   Some b, False, True)
             else (r, Some b, True, True))"

section \<open>Parsing a control command\<close>

text \<open>
  The dynamic value under \<open>generation\<close>: a JSON number is a float64, here its exact rational
  value; internal callers pass \<open>uint64\<close> or \<open>int\<close>.  Go leaves the conversion of a float64 outside
  the range of uint64 to the implementation, so it is the parameter \<open>conv\<close>.
\<close>

datatype payload_value =
    PFloat rat | PUint64 uint64 | PInt int | PString string | POther

datatype turn_error = BindingRequired | GenerationRequired | GenerationInvalid | TurnFieldsRequired

definition parseActiveTurnCommand ::
  "(rat \<Rightarrow> uint64) \<Rightarrow> (string, payload_value) gomap option \<Rightarrow> turn_error + (uint64 \<times> string)" where
  "parseActiveTurnCommand conv payload =
     (case payload of
        None \<Rightarrow> Inl BindingRequired
      | Some p \<Rightarrow>
          (case map_of p ''generation'' of
             None \<Rightarrow> Inl GenerationRequired
           | Some raw \<Rightarrow>
               if (case raw of PFloat v \<Rightarrow> v \<le> 0 \<or> v > 2 ^ 64 \<or> of_int \<lfloor>v\<rfloor> \<noteq> v | _ \<Rightarrow> False)
               then Inl GenerationInvalid
               else (let generation = (case raw of
                            PFloat v \<Rightarrow> conv v
                          | PUint64 v \<Rightarrow> v
                          | PInt v \<Rightarrow> if v > 0 then word_of_int v else 0
                          | _ \<Rightarrow> 0);
                         clientMsgID = (case map_of p ''client_msg_id'' of
                            Some (PString s) \<Rightarrow> TrimSpace s | _ \<Rightarrow> [])
                     in if generation = 0 \<or> clientMsgID = [] then Inl TurnFieldsRequired
                        else Inr (generation, clientMsgID))))"

section \<open>Only the current turn is touched\<close>

lemma matches_iff:
  "matches r s g c \<longleftrightarrow> (\<exists>st. map_of r s = Some st \<and> is_turn st g c)"
  by (simp add: matches_def split: option.splits)

text \<open>A callback of an older or foreign turn is a no-op: an operation whose generation and client
  message id are not those of the session's current binding leaves the registry as it is and
  reports failure.\<close>

theorem stale_turn_noop:
  assumes "\<not> matches r s g c"
  shows "setNativeRequestID s g c n r = (r, False) \<and> clearMatching s g c n r = (r, False)
    \<and> accept s g c r = (r, None, False) \<and> completeMatching s g c r = (r, False)
    \<and> abandonAcceptance s g c r = (r, False)"
  using assms
  by (cases "map_of r s")
    (auto simp: matches_iff setNativeRequestID_def clearMatching_def accept_def
      completeMatching_def abandonAcceptance_def Let_def)

theorem stale_turn_noop_witness:
  "\<not> matches (fst (bind ''s'' 2 ''m'' [])) ''s'' 1 ''m''
   \<and> completeMatching ''s'' 1 ''m'' (fst (bind ''s'' 2 ''m'' [])) = (fst (bind ''s'' 2 ''m'' []), False)"
proof -
  have "\<not> matches (fst (bind ''s'' 2 ''m'' [])) ''s'' 1 ''m''" by code_simp
  then show ?thesis using stale_turn_noop by blast
qed

section \<open>The gate\<close>

datatype turn_op =
    TBind string uint64 string
  | TNative string uint64 string string
  | TClear string uint64 string string
  | TAccept string uint64 string
  | TComplete string uint64 string
  | TAbandon string uint64 string
  | TTerminal ControlEvent

fun turn_run :: "turn_op \<Rightarrow> activeTurnRegistry \<Rightarrow> activeTurnRegistry" where
  "turn_run (TBind s g c) r = fst (bind s g c r)"
| "turn_run (TNative s g c n) r = fst (setNativeRequestID s g c n r)"
| "turn_run (TClear s g c n) r = fst (clearMatching s g c n r)"
| "turn_run (TAccept s g c) r = fst (accept s g c r)"
| "turn_run (TComplete s g c) r = fst (completeMatching s g c r)"
| "turn_run (TAbandon s g c) r = fst (abandonAcceptance s g c r)"
| "turn_run (TTerminal e) r = fst (terminalForEvent e r)"

definition turn_exec :: "turn_op list \<Rightarrow> activeTurnRegistry" where
  "turn_exec ops = fold turn_run ops newActiveTurnRegistry"

text \<open>
  One step: the state of a session afterwards has the same turn as before, and it is accepted
  only if it was, or if the step is its acceptance; a new binding is not accepted.
\<close>

lemma turn_run_accepted:
  assumes "map_of (turn_run op r) s = Some st" and "at_accepted st"
  shows "op = TAccept s (tb_Generation (at_binding st)) (tb_ClientMsgID (at_binding st))
    \<or> (\<exists>st0. map_of r s = Some st0 \<and> at_accepted st0
         \<and> tb_Generation (at_binding st0) = tb_Generation (at_binding st)
         \<and> tb_ClientMsgID (at_binding st0) = tb_ClientMsgID (at_binding st))"
proof (cases op)
  case (TBind s' g c)
  then show ?thesis using assms by (auto simp: bind_def Let_def split: if_splits)
next
  case (TNative s' g c n)
  then show ?thesis
    using assms by (auto simp: setNativeRequestID_def Let_def split: if_splits option.splits)
next
  case (TClear s' g c n)
  then show ?thesis using assms by (auto simp: clearMatching_def split: if_splits option.splits)
next
  case (TAccept s' g c)
  then show ?thesis
    using assms by (auto simp: accept_def Let_def is_turn_def split: if_splits option.splits)
next
  case (TComplete s' g c)
  then show ?thesis using assms by (auto simp: completeMatching_def split: if_splits option.splits)
next
  case (TAbandon s' g c)
  then show ?thesis using assms by (auto simp: abandonAcceptance_def split: if_splits option.splits)
next
  case (TTerminal e)
  then show ?thesis
    using assms by (auto simp: terminalForEvent_def Let_def split: if_splits option.splits)
qed

lemma accepted_was_accepted:
  "map_of (turn_exec ops) s = Some st \<Longrightarrow> at_accepted st \<Longrightarrow>
   TAccept s (tb_Generation (at_binding st)) (tb_ClientMsgID (at_binding st)) \<in> set ops"
proof (induction ops arbitrary: st rule: rev_induct)
  case Nil
  then show ?case by (simp add: turn_exec_def newActiveTurnRegistry_def)
next
  case (snoc op ops)
  have "map_of (turn_run op (turn_exec ops)) s = Some st"
    using snoc.prems(1) by (simp add: turn_exec_def)
  from turn_run_accepted [OF this snoc.prems(2)] show ?case using snoc.IH by fastforce
qed

text \<open>C32. No terminal event before acceptance.  Whatever the order of the callbacks, a terminal
  event is passed on for a turn only after the registry has accepted exactly that turn, which the
  daemon does after the journal has recorded it; and it carries the binding of the event's own
  session with matching generation, client message id and native request id.\<close>

theorem terminal_after_acceptance:
  assumes "terminalForEvent e (turn_exec ops) = (r', Some b, True, True)"
  shows "TAccept (ce_SessionID e) (tb_Generation b) (tb_ClientMsgID b) \<in> set ops
    \<and> r' = turn_exec ops
    \<and> (ce_Generation e = 0 \<or> ce_Generation e = tb_Generation b)
    \<and> (ce_ClientMsgID e = [] \<or> ce_ClientMsgID e = tb_ClientMsgID b)
    \<and> (ce_NativeRequestID e = [] \<or> ce_NativeRequestID e = tb_NativeRequestID b)"
proof -
  obtain st where st: "map_of (turn_exec ops) (ce_SessionID e) = Some st" "at_accepted st"
    "b = at_binding st" "r' = turn_exec ops"
    "ce_Generation e = 0 \<or> ce_Generation e = tb_Generation b"
    "ce_ClientMsgID e = [] \<or> ce_ClientMsgID e = tb_ClientMsgID b"
    "ce_NativeRequestID e = [] \<or> ce_NativeRequestID e = tb_NativeRequestID b"
    using assms by (auto simp: terminalForEvent_def Let_def split: option.splits if_splits)
  then show ?thesis using accepted_was_accepted [OF st(1,2)] by blast
qed

definition demo_event :: ControlEvent where
  "demo_event = \<lparr>ce_SessionID = ''s'', ce_Generation = 1, ce_ClientMsgID = ''m'',
     ce_NativeRequestID = [], ce_EventID = ''e'', ce_Class = ''turn'',
     ce_Lifecycle = ''terminal_success''\<rparr>"

theorem terminal_after_acceptance_witness:
  "\<exists>r' b. terminalForEvent demo_event (turn_exec [TBind ''s'' 1 ''m'', TAccept ''s'' 1 ''m''])
      = (r', Some b, True, True)
     \<and> TAccept ''s'' (tb_Generation b) (tb_ClientMsgID b) \<in> set [TBind ''s'' 1 ''m'', TAccept ''s'' 1 ''m'']"
proof -
  have "snd (terminalForEvent demo_event (turn_exec [TBind ''s'' 1 ''m'', TAccept ''s'' 1 ''m'']))
      = (Some \<lparr>tb_Generation = 1, tb_ClientMsgID = ''m'', tb_NativeRequestID = []\<rparr>, True, True)"
    by code_simp
  then obtain r' where t: "terminalForEvent demo_event (turn_exec [TBind ''s'' 1 ''m'', TAccept ''s'' 1 ''m''])
      = (r', Some \<lparr>tb_Generation = 1, tb_ClientMsgID = ''m'', tb_NativeRequestID = []\<rparr>, True, True)"
    by (metis prod.collapse)
  from terminal_after_acceptance [OF t] t show ?thesis by (auto simp: demo_event_def)
qed

section \<open>Races with acceptance\<close>

definition fresh_turn :: "activeTurnState \<Rightarrow> bool" where
  "fresh_turn st \<longleftrightarrow> \<not> at_accepted st \<and> \<not> at_indeterminate st \<and> \<not> at_nativeComplete st"

lemma delete_update_same: "AList.delete k (AList.update k v m) = AList.delete k m"
  by (induction m) auto



section \<open>Parsing\<close>

lemma two_checks:
  "((if b then Inl e else if d then Inl f else Inr (x, y)) = Inr (g, c))
   \<longleftrightarrow> \<not> b \<and> \<not> d \<and> x = g \<and> y = c"
  by auto

text \<open>A parsed command names a real turn: the generation is positive, the client message id is
  trimmed and not empty, and a number below \<open>2\<^sup>6\<^sup>4\<close> keeps its exact value.  The conversion of
  in-range float64 values is Go's.\<close>

theorem parse_active_turn:
  assumes "parseActiveTurnCommand conv (Some p) = Inr (g, c)"
    and "\<forall>v. 0 < v \<and> v < 2 ^ 64 \<longrightarrow> conv v = word_of_int \<lfloor>v\<rfloor>"
  shows "g \<noteq> 0 \<and> c \<noteq> [] \<and> TrimSpace c = c
    \<and> (\<forall>v. map_of p ''generation'' = Some (PFloat v) \<longrightarrow> 0 < v \<and> v \<le> 2 ^ 64
         \<and> (v < 2 ^ 64 \<longrightarrow> of_nat (unat g) = v))"
proof -
  obtain raw where raw: "map_of p ''generation'' = Some raw"
    using assms(1) by (cases "map_of p ''generation''") (simp_all add: parseActiveTurnCommand_def)
  let ?bad = "case raw of PFloat v \<Rightarrow> v \<le> 0 \<or> v > 2 ^ 64 \<or> of_int \<lfloor>v\<rfloor> \<noteq> v | _ \<Rightarrow> False"
  let ?gen = "case raw of PFloat v \<Rightarrow> conv v | PUint64 v \<Rightarrow> v
                | PInt v \<Rightarrow> if v > 0 then word_of_int v else 0 | _ \<Rightarrow> 0"
  let ?cid = "case map_of p ''client_msg_id'' of Some (PString s) \<Rightarrow> TrimSpace s | _ \<Rightarrow> []"
  have run: "parseActiveTurnCommand conv (Some p) =
      (if ?bad then Inl GenerationInvalid
       else if ?gen = 0 \<or> ?cid = [] then Inl TurnFieldsRequired else Inr (?gen, ?cid))"
    unfolding parseActiveTurnCommand_def Let_def option.case raw by (rule refl)
  note got = assms(1) [unfolded run two_checks]
  have nb: "\<not> ?bad" using got by (rule conjunct1)
  have gc: "g = ?gen" "c = ?cid" using got by blast+
  have gc': "g \<noteq> 0" "c \<noteq> []" using got unfolding gc [symmetric] by blast+
  have ok: "0 < v \<and> v \<le> 2 ^ 64 \<and> of_int \<lfloor>v\<rfloor> = v \<and> g = conv v" if "raw = PFloat v" for v
    using nb gc(1) that by (simp add: not_le)
  note g = gc' and c = gc(2)
  have "TrimSpace [] = []" by code_simp
  then have "TrimSpace c = c"
    using c by (auto simp: TrimSpace_idem split: option.splits payload_value.splits)
  moreover have "of_nat (unat g) = v" if "raw = PFloat v" "v < 2 ^ 64" for v
  proof -
    note k = ok [OF that(1)]
    have g': "g = word_of_int \<lfloor>v\<rfloor>" using k assms(2) that(2) by simp
    have "\<lfloor>v\<rfloor> < 2 ^ 64"
      using that(2) by (simp add: floor_less_iff)
    moreover have "0 \<le> \<lfloor>v\<rfloor>" using k by simp
    ultimately have "uint g = \<lfloor>v\<rfloor>" using g' by (simp add: uint_word_of_int)
    then have "of_nat (unat g) = (of_int \<lfloor>v\<rfloor> :: rat)" by (metis of_int_of_nat_eq uint_nat)
    then show ?thesis using k by simp
  qed
  ultimately show ?thesis using raw ok g by auto
qed

theorem parse_active_turn_witness:
  "parseActiveTurnCommand (\<lambda>v. word_of_int \<lfloor>v\<rfloor>)
     (Some [(''generation'', PFloat 7), (''client_msg_id'', PString ''m'')]) = Inr (7, ''m'')
   \<and> of_nat (unat (7 :: uint64)) = (7 :: rat)"
proof -
  have p: "parseActiveTurnCommand (\<lambda>v. word_of_int \<lfloor>v\<rfloor>)
     (Some [(''generation'', PFloat 7), (''client_msg_id'', PString ''m'')]) = Inr (7, ''m'')"
  proof -
    have "TrimSpace ''m'' = ''m''" by code_simp
    then show ?thesis by (simp add: parseActiveTurnCommand_def)
  qed
  from parse_active_turn [OF p] show ?thesis using p by simp
qed

end
