(* ===== verification/Protocol.thy ===== *)
theory Protocol
  imports Complex_Main Prelude
begin

text \<open>
  The wire protocol, \<open>relaycore/protocol/types.go\<close>: message types and their confidentiality
  policy, the envelope, protocol versions and the first-frame handshake.

  An enumeration of Go strings is a datatype with one constructor per declared constant and one
  for every other string; the wire texts are given by the functions \<open>..._wire\<close>.  A payload
  \<open>map[string]any\<close> is an optional list of named JSON values, \<open>None\<close> being nil.
\<close>

section \<open>Data\<close>

datatype json =
    JNull | JBool bool | JNumber rat | JString string | JArray "json list"
  | JObject "(string \<times> json) list"

datatype ServiceErrorCode =
    ServiceErrorDeviceCredentialInvalid | ServiceErrorPhoneCredentialInvalid
  | ServiceErrorAccessSuspended | ServiceErrorRegistrationDisabled
  | ServiceErrorDeviceCapacityExceeded | ServiceErrorDeviceIdentityConflict
  | ServiceErrorDeviceAlreadyConnected | ServiceErrorProtocolUpgradeRequired
  | ServiceErrorRegistrationRateLimited | ServiceErrorServiceProvisioning
  | ServiceErrorRouteUnavailable | ServiceErrorRegionUnavailable

record ServiceErrorPayload =
  se_ErrorCode :: ServiceErrorCode
  se_Message :: string
  se_Retryable :: bool
  se_RetryAfterSeconds :: int
  se_ActionURL :: string

datatype TransportMode = TransportSealed | TransportOpen | TransportOther string

datatype ConnectionState = ConnectionReady | ConnectionProvisioning

record DeviceRegistrationResponse =
  dr_DeviceID :: string
  dr_Token :: string
  dr_Name :: string
  dr_TransportMode :: TransportMode
  dr_ConnectionState :: ConnectionState
  dr_RetryAfterSeconds :: int

datatype MessageType =
    MsgDeviceOnline | MsgDeviceOffline | MsgDeviceList | MsgSessionList | MsgRefreshSessions
  | MsgSessionUpdate | MsgSessionMessage | MsgSendPrompt | MsgPromptStatusQuery | MsgPromptNotSeen
  | MsgPromptQueued | MsgPromptAccepted | MsgPromptCommitted | MsgPromptFailed | MsgPromptSent
  | MsgApprove | MsgDeny | MsgInterrupt | MsgSteer | MsgRespondUserInput | MsgUserInputResult
  | MsgQueueUpdate | MsgCancelPrompt | MsgPromptCancelled | MsgResumePromptQueue
  | MsgSkipPromptQueueItem | MsgStartThread | MsgThreadStarting | MsgThreadOwned
  | MsgThreadFailed | MsgThreadIndeterminate | MsgHeartbeat | MsgError | MsgRegisterDevice
  | MsgAuthResponse | MsgPairRequest | MsgPairConfirm | MsgPairReady | MsgPairFailed
  | MsgKeyPackage | MsgPhoneRevoked | MsgAttentionEvent | MsgSubscribe | MsgSubscribeAck
  | MsgFetchHistory | MsgSessionHistory
  | MsgOther string

definition message_types :: "(string \<times> MessageType) list" where
  "message_types =
     [(''device_online'', MsgDeviceOnline), (''device_offline'', MsgDeviceOffline),
      (''device_list'', MsgDeviceList), (''session_list'', MsgSessionList),
      (''refresh_sessions'', MsgRefreshSessions), (''session_update'', MsgSessionUpdate),
      (''session_message'', MsgSessionMessage), (''send_prompt'', MsgSendPrompt),
      (''prompt_status_query'', MsgPromptStatusQuery), (''prompt_not_seen'', MsgPromptNotSeen),
      (''prompt_queued'', MsgPromptQueued), (''prompt_accepted'', MsgPromptAccepted),
      (''prompt_committed'', MsgPromptCommitted), (''prompt_failed'', MsgPromptFailed),
      (''prompt_sent'', MsgPromptSent), (''approve'', MsgApprove), (''deny'', MsgDeny),
      (''interrupt'', MsgInterrupt), (''steer'', MsgSteer),
      (''respond_user_input'', MsgRespondUserInput), (''user_input_result'', MsgUserInputResult),
      (''queue_update'', MsgQueueUpdate), (''cancel_prompt'', MsgCancelPrompt),
      (''prompt_cancelled'', MsgPromptCancelled), (''resume_prompt_queue'', MsgResumePromptQueue),
      (''skip_prompt_queue_item'', MsgSkipPromptQueueItem), (''start_thread'', MsgStartThread),
      (''thread_starting'', MsgThreadStarting), (''thread_owned'', MsgThreadOwned),
      (''thread_failed'', MsgThreadFailed), (''thread_indeterminate'', MsgThreadIndeterminate),
      (''heartbeat'', MsgHeartbeat), (''error'', MsgError),
      (''register_device'', MsgRegisterDevice), (''auth_response'', MsgAuthResponse),
      (''pair_request'', MsgPairRequest), (''pair_confirm'', MsgPairConfirm),
      (''pair_ready'', MsgPairReady), (''pair_failed'', MsgPairFailed),
      (''key_package'', MsgKeyPackage), (''phone_revoked'', MsgPhoneRevoked),
      (''attention_event'', MsgAttentionEvent), (''subscribe'', MsgSubscribe),
      (''subscribe_ack'', MsgSubscribeAck), (''fetch_history'', MsgFetchHistory),
      (''session_history'', MsgSessionHistory)]"

definition message_type_of_wire :: "string \<Rightarrow> MessageType" where
  "message_type_of_wire s = (case map_of message_types s of Some t \<Rightarrow> t | None \<Rightarrow> MsgOther s)"

datatype handshake_code =
    NoError | ErrCodeVersionMismatch | ErrCodeTransportModeMismatch | ErrCodeInvalidEnvelope

datatype KeyScope = KeyScopeDeviceCatalog | KeyScopeSession | KeyScopeOther string

datatype ControlMode =
    ControlAppServer | ControlExecResume | ControlCompatibility | ControlOther string

datatype AttachmentMode =
    AttachmentNativeImageAndFile | AttachmentNativeImage | AttachmentPathBestEffort
  | AttachmentUnsupported | AttachmentOther string

record SealedPayload =
  sp_Alg :: string
  sp_Version :: int
  sp_KeyScope :: KeyScope
  sp_Epoch :: uint64
  sp_SenderID :: string
  sp_RecipientID :: string
  sp_Sequence :: uint64
  sp_Nonce :: string
  sp_Ciphertext :: string

record NekoMessage =
  nm_ProtocolVersion :: string
  nm_TransportMode :: TransportMode
  nm_Type :: MessageType
  nm_DeviceID :: string
  nm_SessionID :: string
  nm_ClientMsgID :: string
  nm_Outcome :: string
  nm_RetryAllowed :: "bool option"
  nm_Timestamp :: seconds
  nm_Payload :: "(string, json) gomap option"
  nm_SealedPayload :: "SealedPayload option"

record Device =
  dv_ID :: string
  dv_Name :: string
  dv_OS :: string
  dv_Status :: string
  dv_LastSeen :: seconds
  dv_ActiveAgents :: int
  dv_DaemonVersion :: string
  dv_Token :: string

datatype AgentStatus =
    AgentIdle | AgentRunning | AgentWaitingUser | AgentWaitingApproval | AgentError
  | AgentStatusOther string

datatype AgentType =
    AgentClaudeCode | AgentCodex | AgentKilo | AgentKimiCLI | AgentGrokBuild | AgentZCode
  | AgentCursor | AgentTypeOther string

record AgentStartCapability =
  ac_AgentType :: AgentType
  ac_Available :: bool
  ac_Spawn :: bool
  ac_Reason :: string
  ac_ControlPath :: string
  ac_ControlVersion :: string
  ac_AttachmentMode :: AttachmentMode

record SessionCapabilities =
  sc_ControlMode :: ControlMode
  sc_Send :: bool
  sc_Approve :: bool
  sc_Deny :: bool
  sc_Interrupt :: bool
  sc_Steer :: bool
  sc_Queue :: bool
  sc_Spawn :: bool
  sc_UserInput :: bool
  sc_AttachmentMode :: AttachmentMode
  sc_ControlPath :: string
  sc_ControlVersion :: string
  sc_UnavailableReasons :: "(string, string) gomap"

definition Normalize :: "SessionCapabilities option \<Rightarrow> SessionCapabilities option" where
  "Normalize c =
     map_option (\<lambda>c.
       let c = (if sc_AttachmentMode c = AttachmentOther []
                then c\<lparr>sc_AttachmentMode := AttachmentUnsupported\<rparr> else c)
       in if sc_ControlMode c = ControlOther []
          then c\<lparr>sc_ControlMode := ControlCompatibility\<rparr> else c) c"

definition CapabilityBool ::
  "SessionCapabilities option \<Rightarrow> (SessionCapabilities \<Rightarrow> bool) \<Rightarrow> bool" where
  "CapabilityBool caps get = (case caps of None \<Rightarrow> False | Some c \<Rightarrow> get c)"

section \<open>Versions\<close>

definition CurrentProtocolVersion :: string where
  "CurrentProtocolVersion = ''1.3''"

definition CurrentProtocolMajor :: int where
  "CurrentProtocolMajor = 1"

definition CurrentProtocolMinor :: int where
  "CurrentProtocolMinor = 3"

record VersionParts =
  vp_Major :: int
  vp_Minor :: int

datatype version_error =
    VersionRequired | NotMajorMinor | InvalidMajor | InvalidMinor | InvalidVersionFormat
  | VersionMismatch

definition ParseProtocolVersion :: "string \<Rightarrow> version_error + VersionParts" where
  "ParseProtocolVersion v =
     (let v = TrimSpace v
      in if v = [] then Inl VersionRequired
         else (case split_at (CHR ''.'') v of
                 [a, b] \<Rightarrow>
                   (case Atoi a of
                      None \<Rightarrow> Inl InvalidMajor
                    | Some major \<Rightarrow>
                        if major < 0 then Inl InvalidMajor
                        else (case Atoi b of
                                None \<Rightarrow> Inl InvalidMinor
                              | Some minor \<Rightarrow>
                                  if minor < 0 then Inl InvalidMinor
                                  else if a \<noteq> Itoa major \<or> b \<noteq> Itoa minor
                                  then Inl InvalidVersionFormat
                                  else Inr \<lparr>vp_Major = major, vp_Minor = minor\<rparr>))
               | _ \<Rightarrow> Inl NotMajorMinor))"

definition FormatProtocolVersion :: "int \<Rightarrow> int \<Rightarrow> string" where
  "FormatProtocolVersion major minor = Itoa major @ CHR ''.'' # Itoa minor"

datatype mode_error = ModeRequired | ModeInvalid

definition transport_of_wire :: "string \<Rightarrow> TransportMode" where
  "transport_of_wire s =
     (if s = ''sealed'' then TransportSealed else if s = ''open'' then TransportOpen
      else TransportOther s)"

definition ParseTransportMode :: "string \<Rightarrow> mode_error + TransportMode" where
  "ParseTransportMode raw =
     (case transport_of_wire (TrimSpace raw) of
        TransportSealed \<Rightarrow> Inr TransportSealed
      | TransportOpen \<Rightarrow> Inr TransportOpen
      | TransportOther s \<Rightarrow> if s = [] then Inl ModeRequired else Inl ModeInvalid)"

definition NegotiateProtocolVersion :: "string \<Rightarrow> int \<Rightarrow> int \<Rightarrow> version_error + string" where
  "NegotiateProtocolVersion clientVersion serverMajor serverMinor =
     and_then (ParseProtocolVersion clientVersion) (\<lambda>client.
       if vp_Major client \<noteq> serverMajor then Inl VersionMismatch
       else (let minor = vp_Minor client;
                 minor = (if serverMinor < minor then serverMinor else minor)
             in Inr (FormatProtocolVersion serverMajor minor)))"

section \<open>Frames\<close>

datatype frame_error =
    MessageRequired | BothPayloads | FrameModeMismatch | FrameVersionMismatch
  | UnknownMessageType MessageType | SealedPayloadRequired MessageType
  | SealedPayloadInOpen MessageType | InvalidNegotiatedMode

definition ValidateEnvelopeForm :: "NekoMessage option \<Rightarrow> frame_error option" where
  "ValidateEnvelopeForm msg =
     (case msg of
        None \<Rightarrow> Some MessageRequired
      | Some m \<Rightarrow>
          if nm_Payload m \<noteq> None \<and> nm_SealedPayload m \<noteq> None then Some BothPayloads else None)"

datatype MessageBodyPolicy = MessageBodyUnknown | MessageBodyRouting | MessageBodyApplication

definition BodyPolicy :: "MessageType \<Rightarrow> MessageBodyPolicy" where
  "BodyPolicy msgType =
     (if msgType \<in> {MsgDeviceOnline, MsgDeviceOffline, MsgDeviceList, MsgRefreshSessions,
          MsgPromptStatusQuery, MsgPromptNotSeen, MsgPromptCommitted, MsgHeartbeat, MsgError,
          MsgRegisterDevice, MsgAuthResponse, MsgPairRequest, MsgPairConfirm, MsgPairReady,
          MsgPairFailed, MsgKeyPackage, MsgPhoneRevoked, MsgAttentionEvent, MsgSubscribe,
          MsgSubscribeAck}
      then MessageBodyRouting
      else if msgType \<in> {MsgSessionList, MsgSessionUpdate, MsgSessionMessage, MsgSendPrompt,
          MsgPromptQueued, MsgPromptAccepted, MsgPromptFailed, MsgPromptSent, MsgApprove, MsgDeny,
          MsgInterrupt, MsgSteer, MsgRespondUserInput, MsgUserInputResult, MsgQueueUpdate,
          MsgCancelPrompt, MsgPromptCancelled, MsgResumePromptQueue, MsgSkipPromptQueueItem,
          MsgStartThread, MsgThreadStarting, MsgThreadOwned, MsgThreadFailed,
          MsgThreadIndeterminate, MsgFetchHistory, MsgSessionHistory}
      then MessageBodyApplication
      else MessageBodyUnknown)"

definition isSealedFailClosedRouting :: "NekoMessage \<Rightarrow> bool" where
  "isSealedFailClosedRouting m \<longleftrightarrow>
     \<not> (TrimSpace (nm_ClientMsgID m) = [] \<or> nm_Payload m \<noteq> None \<or> nm_SealedPayload m \<noteq> None)
     \<and> nm_Type m \<in> {MsgPromptFailed, MsgThreadFailed, MsgThreadIndeterminate}"

definition ValidateFrameForTransport ::
  "NekoMessage option \<Rightarrow> TransportMode \<Rightarrow> frame_error option" where
  "ValidateFrameForTransport msg mode =
     (case ValidateEnvelopeForm msg of
        Some e \<Rightarrow> Some e
      | None \<Rightarrow>
          (case msg of
             None \<Rightarrow> Some MessageRequired
           | Some m \<Rightarrow>
               if nm_TransportMode m \<noteq> mode then Some FrameModeMismatch
               else if (case ParseProtocolVersion (nm_ProtocolVersion m) of
                          Inl _ \<Rightarrow> True | Inr v \<Rightarrow> vp_Major v \<noteq> CurrentProtocolMajor)
               then Some FrameVersionMismatch
               else (let policy = BodyPolicy (nm_Type m)
                     in if policy = MessageBodyUnknown then Some (UnknownMessageType (nm_Type m))
                        else (case mode of
                                TransportSealed \<Rightarrow>
                                  if isSealedFailClosedRouting m then None
                                  else if policy = MessageBodyApplication
                                          \<and> nm_SealedPayload m = None
                                  then Some (SealedPayloadRequired (nm_Type m)) else None
                              | TransportOpen \<Rightarrow>
                                  if nm_SealedPayload m \<noteq> None
                                  then Some (SealedPayloadInOpen (nm_Type m)) else None
                              | TransportOther s \<Rightarrow> Some InvalidNegotiatedMode))))"

definition NewMessage :: "seconds \<Rightarrow> MessageType \<Rightarrow> string \<Rightarrow> NekoMessage" where
  "NewMessage now msgType deviceID =
     \<lparr>nm_ProtocolVersion = CurrentProtocolVersion, nm_TransportMode = TransportOther [],
      nm_Type = msgType, nm_DeviceID = deviceID, nm_SessionID = [], nm_ClientMsgID = [],
      nm_Outcome = [], nm_RetryAllowed = None, nm_Timestamp = now, nm_Payload = None,
      nm_SealedPayload = None\<rparr>"

definition NewMessageWithSession ::
  "seconds \<Rightarrow> MessageType \<Rightarrow> string \<Rightarrow> string \<Rightarrow> NekoMessage" where
  "NewMessageWithSession now msgType deviceID sessionID =
     (NewMessage now msgType deviceID)\<lparr>nm_SessionID := sessionID\<rparr>"

definition WithTransport :: "TransportMode \<Rightarrow> NekoMessage option \<Rightarrow> NekoMessage option" where
  "WithTransport mode m = map_option (\<lambda>m. m\<lparr>nm_TransportMode := mode\<rparr>) m"

section \<open>Handshake\<close>

text \<open>The message text of a result is left out; its code and values are what callers use.\<close>

record HandshakeResult =
  hr_NegotiatedVersion :: string
  hr_TransportMode :: TransportMode
  hr_ErrorCode :: handshake_code

definition handshake_error :: "handshake_code \<Rightarrow> HandshakeResult" where
  "handshake_error code =
     \<lparr>hr_NegotiatedVersion = [], hr_TransportMode = TransportOther [], hr_ErrorCode = code\<rparr>"

definition NegotiateHandshake ::
  "string \<Rightarrow> string \<Rightarrow> TransportMode \<Rightarrow> int \<Rightarrow> HandshakeResult" where
  "NegotiateHandshake clientVersion clientMode nestMode serverMinor =
     (let nestMode = (if nestMode = TransportOther [] then TransportSealed else nestMode)
      in (case ParseTransportMode clientMode of
            Inl _ \<Rightarrow> handshake_error ErrCodeTransportModeMismatch
          | Inr mode \<Rightarrow>
              if mode \<noteq> nestMode then handshake_error ErrCodeTransportModeMismatch
              else (case NegotiateProtocolVersion clientVersion CurrentProtocolMajor serverMinor of
                      Inl _ \<Rightarrow> handshake_error ErrCodeVersionMismatch
                    | Inr neg \<Rightarrow>
                        \<lparr>hr_NegotiatedVersion = neg, hr_TransportMode = mode,
                         hr_ErrorCode = NoError\<rparr>)))"

section \<open>Versions: properties\<close>

lemma digit_no_space: "is_digit c \<Longrightarrow> no_space_byte c"
  by (auto simp: no_space_byte_def space_runes_def is_digit_def byte_def)

lemma Itoa_ends:
  assumes "0 \<le> i"
  shows "Itoa i \<noteq> []" and "is_digit (hd (Itoa i))" and "is_digit (last (Itoa i))"
proof -
  show ne: "Itoa i \<noteq> []" using assms by (simp add: Itoa_def)
  have "list_all is_digit (Itoa i)" using assms nat_digits_digits by (simp add: Itoa_def)
  then show "is_digit (hd (Itoa i))" "is_digit (last (Itoa i))" using ne by (auto simp: list_all_iff)
qed

lemma version_not_space:
  assumes "0 \<le> i" and "0 \<le> j"
  shows "TrimSpace (FormatProtocolVersion i j) = FormatProtocolVersion i j"
  using Itoa_ends [OF assms(1)] Itoa_ends [OF assms(2)]
  by (intro TrimSpace_id) (simp_all add: FormatProtocolVersion_def digit_no_space)

text \<open>Versions survive a round trip: parsing what was formatted gives the two numbers back, and
  whatever parses is, up to surrounding white space, the canonical text of its two numbers, so
  there is one spelling per version.\<close>

theorem version_round_trip:
  "(0 \<le> i \<and> int_range i \<and> 0 \<le> j \<and> int_range j \<longrightarrow>
      ParseProtocolVersion (FormatProtocolVersion i j) = Inr \<lparr>vp_Major = i, vp_Minor = j\<rparr>)
   \<and> (ParseProtocolVersion v = Inr p \<longrightarrow>
        TrimSpace v = FormatProtocolVersion (vp_Major p) (vp_Minor p)
        \<and> 0 \<le> vp_Major p \<and> 0 \<le> vp_Minor p)"
proof (intro conjI impI)
  assume r: "0 \<le> i \<and> int_range i \<and> 0 \<le> j \<and> int_range j"
  have "split_at (CHR ''.'') (FormatProtocolVersion i j) = [Itoa i, Itoa j]"
    using r by (simp add: FormatProtocolVersion_def split_at_join split_at_absent Itoa_no_dot)
  moreover have "FormatProtocolVersion i j \<noteq> []" by (simp add: FormatProtocolVersion_def)
  ultimately show "ParseProtocolVersion (FormatProtocolVersion i j) = Inr \<lparr>vp_Major = i, vp_Minor = j\<rparr>"
    using r by (simp add: ParseProtocolVersion_def version_not_space Atoi_Itoa Let_def)
next
  assume p: "ParseProtocolVersion v = Inr p"
  show "TrimSpace v = FormatProtocolVersion (vp_Major p) (vp_Minor p)"
    using p split_at_two [of "CHR ''.''" "TrimSpace v"]
    by (auto simp: ParseProtocolVersion_def Let_def FormatProtocolVersion_def
        split: if_splits list.splits option.splits)
  show "0 \<le> vp_Major p" "0 \<le> vp_Minor p"
    using p by (auto simp: ParseProtocolVersion_def Let_def split: if_splits list.splits option.splits)
qed

theorem version_round_trip_witness:
  "ParseProtocolVersion (FormatProtocolVersion 1 3) = Inr \<lparr>vp_Major = 1, vp_Minor = 3\<rparr>"
  using version_round_trip [of 1 3] by (simp add: int_range_def)

lemma parse_canonical:
  assumes "ParseProtocolVersion v = Inr p"
  shows "0 \<le> vp_Minor p"
  using assms by (auto simp: ParseProtocolVersion_def Let_def split: if_splits list.splits option.splits)

text \<open>Negotiation: a handshake succeeds exactly when the client names the nest's transport mode
  (sealed when the nest has none configured) and a version with the server's major number; the
  result is then that mode and the smaller of the two minors, and otherwise an error code with no
  version.\<close>

theorem handshake_correct:
  "hr_ErrorCode (NegotiateHandshake cv cm nest sm) = NoError \<longleftrightarrow>
     (\<exists>p. ParseTransportMode cm
            = Inr (if nest = TransportOther [] then TransportSealed else nest)
        \<and> ParseProtocolVersion cv = Inr p \<and> vp_Major p = CurrentProtocolMajor
        \<and> hr_NegotiatedVersion (NegotiateHandshake cv cm nest sm)
          = FormatProtocolVersion CurrentProtocolMajor (min (vp_Minor p) sm)
        \<and> hr_TransportMode (NegotiateHandshake cv cm nest sm)
          = (if nest = TransportOther [] then TransportSealed else nest))"
proof -
  define n where "n = (if nest = TransportOther [] then TransportSealed else nest)"
  show ?thesis
    unfolding NegotiateHandshake_def n_def [symmetric] Let_def
    by (cases "ParseTransportMode cm"; cases "ParseProtocolVersion cv")
      (simp_all add: NegotiateProtocolVersion_def handshake_error_def and_then_def min_def Let_def)
qed

section \<open>Confidentiality\<close>

lemma declared_types_have_policy:
  "BodyPolicy t = MessageBodyUnknown \<longleftrightarrow> (\<exists>s. t = MsgOther s)"
  by (cases t) (simp_all add: BodyPolicy_def)

lemma frame_ok_cases:
  assumes "ValidateFrameForTransport (Some m) mode = None"
  shows "nm_TransportMode m = mode" and "nm_Payload m = None \<or> nm_SealedPayload m = None"
    and "BodyPolicy (nm_Type m) \<noteq> MessageBodyUnknown"
    and "mode = TransportSealed \<or> mode = TransportOpen"
    and "mode = TransportOpen \<Longrightarrow> nm_SealedPayload m = None"
    and "mode = TransportSealed \<Longrightarrow> BodyPolicy (nm_Type m) = MessageBodyApplication \<Longrightarrow>
         nm_SealedPayload m \<noteq> None \<or> isSealedFailClosedRouting m"
    and "\<exists>v. ParseProtocolVersion (nm_ProtocolVersion m) = Inr v \<and> vp_Major v = CurrentProtocolMajor"
  using assms
  by (auto simp: ValidateFrameForTransport_def ValidateEnvelopeForm_def Let_def
      split: if_splits TransportMode.splits sum.splits)

text \<open>C13. Sealed transport hides application data.  A frame that passes validation in sealed mode and
  whose type carries application data has no plaintext payload: either its body is sealed, or it
  is one of the three failure notices, which have no body at all.\<close>

theorem sealed_mode_confidential:
  assumes "ValidateFrameForTransport (Some m) TransportSealed = None"
    and "BodyPolicy (nm_Type m) = MessageBodyApplication"
  shows "nm_Payload m = None
    \<and> (nm_SealedPayload m \<noteq> None
       \<or> nm_Type m \<in> {MsgPromptFailed, MsgThreadFailed, MsgThreadIndeterminate}
         \<and> TrimSpace (nm_ClientMsgID m) \<noteq> [])"
  using frame_ok_cases(2) [OF assms(1)] frame_ok_cases(6) [OF assms(1) refl assms(2)]
  by (auto simp: isSealedFailClosedRouting_def)

text \<open>Every frame that passes validation has the negotiated mode, the current major version, a
  declared message type and at most one body, and an open-mode frame has no sealed body.\<close>

theorem valid_frame_shape:
  assumes "ValidateFrameForTransport (Some m) mode = None"
  shows "nm_TransportMode m = mode \<and> (mode = TransportSealed \<or> mode = TransportOpen)
    \<and> (\<exists>v. ParseProtocolVersion (nm_ProtocolVersion m) = Inr v \<and> vp_Major v = CurrentProtocolMajor)
    \<and> (\<forall>s. nm_Type m \<noteq> MsgOther s)
    \<and> (nm_Payload m = None \<or> nm_SealedPayload m = None)
    \<and> (mode = TransportOpen \<longrightarrow> nm_SealedPayload m = None)"
  using frame_ok_cases [OF assms] declared_types_have_policy [of "nm_Type m"] by auto

text \<open>The frames the relay builds itself.\<close>

lemma current_version_parses:
  "ParseProtocolVersion CurrentProtocolVersion = Inr \<lparr>vp_Major = 1, vp_Minor = 3\<rparr>"
  by code_simp

text \<open>The relay's own frames pass its own validation: a frame built by \<open>NewMessage\<close> and stamped
  with a mode is valid in open mode for every declared type, and in sealed mode exactly when its
  type is a routing type; a bodiless application frame is never valid in sealed mode.\<close>

theorem relay_frames_valid:
  "ValidateFrameForTransport (WithTransport mode (Some (NewMessage now t dev))) mode = None \<longleftrightarrow>
     mode = TransportOpen \<and> BodyPolicy t \<noteq> MessageBodyUnknown
     \<or> mode = TransportSealed \<and> BodyPolicy t = MessageBodyRouting"
proof -
  have trim: "TrimSpace [] = []" by code_simp
  show ?thesis
    using current_version_parses trim
    by (cases mode; cases "BodyPolicy t")
      (simp_all add: ValidateFrameForTransport_def ValidateEnvelopeForm_def WithTransport_def
        NewMessage_def isSealedFailClosedRouting_def CurrentProtocolMajor_def Let_def)
qed

definition demo_frame :: NekoMessage where
  "demo_frame = (NewMessage 0 MsgPromptFailed ''d'')
     \<lparr>nm_TransportMode := TransportSealed, nm_ClientMsgID := ''m''\<rparr>"

lemma demo_frame_ok: "ValidateFrameForTransport (Some demo_frame) TransportSealed = None"
  by code_simp

theorem sealed_mode_confidential_witness:
  "ValidateFrameForTransport (Some demo_frame) TransportSealed = None
   \<and> BodyPolicy (nm_Type demo_frame) = MessageBodyApplication \<and> nm_Payload demo_frame = None"
proof -
  have "BodyPolicy (nm_Type demo_frame) = MessageBodyApplication" by code_simp
  then show ?thesis using sealed_mode_confidential [OF demo_frame_ok] demo_frame_ok by simp
qed

theorem valid_frame_shape_witness:
  "nm_TransportMode demo_frame = TransportSealed \<and> (\<forall>s. nm_Type demo_frame \<noteq> MsgOther s)"
  using valid_frame_shape [OF demo_frame_ok] by blast

text \<open>The declared types have distinct wire texts, and each text reads back as its type.\<close>

lemma wire_types_distinct: "distinct (map fst message_types)" "distinct (map snd message_types)"
  by code_simp+

lemma wire_type_read: "(s, t) \<in> set message_types \<Longrightarrow> message_type_of_wire s = t"
  using wire_types_distinct(1) by (simp add: message_type_of_wire_def)

text \<open>A message type that is not declared is rejected: in either mode a frame whose type text is
  none of the declared ones never passes validation.\<close>

theorem unknown_type_rejected:
  assumes "s \<notin> fst ` set message_types"
  shows "ValidateFrameForTransport (Some (m\<lparr>nm_Type := message_type_of_wire s\<rparr>)) mode \<noteq> None"
proof
  assume ok: "ValidateFrameForTransport (Some (m\<lparr>nm_Type := message_type_of_wire s\<rparr>)) mode = None"
  have "message_type_of_wire s = MsgOther s"
    using assms map_of_eq_None_iff [of message_types s] by (simp add: message_type_of_wire_def)
  then show False using frame_ok_cases(3) [OF ok] declared_types_have_policy by auto
qed

theorem unknown_type_rejected_witness:
  "ValidateFrameForTransport (Some (demo_frame\<lparr>nm_Type := message_type_of_wire ''rm_rf''\<rparr>)) TransportSealed
   \<noteq> None"
  by (rule unknown_type_rejected) (simp add: message_types_def)

end
