(* ===== verification/Prompt_Commands.thy ===== *)
theory Prompt_Commands
  imports Prelude "HOL-Library.Char_ord" "HOL-Library.List_Lexorder" "HOL-Library.Product_Lexorder"
begin

text \<open>
  The server's durable table of phone prompts (\<open>server/internal/db/prompt_commands.go\<close>, schema in
  \<open>server/internal/db/db.go\<close>, record in \<open>relaycore/store/store.go\<close>).

  The table is a map from (device id, client message id), its primary key, to rows.  The unit of
  atomicity is one SQL statement; \<open>statement\<close> lists the statements that write and \<open>run_stmt\<close> is
  their effect with the number of affected rows.  The Go functions are sequences of such
  statements.  Between two of them other goroutines may run statements of their own, and every
  call to the database may fail: both are part of the argument \<open>db_run\<close>, so a theorem about
  an operation holds for every interleaving and every failure.  A statement that fails has no
  effect, which is what SQLite documents.
\<close>

section \<open>Rows and results\<close>

datatype prompt_status =
  PromptRegistered | PromptPending | PromptAccepted | PromptFailed | PromptIndeterminate

record PromptCommand =
  cmd_DeviceID :: string
  cmd_ClientMsgID :: string
  cmd_SessionID :: string
  cmd_Prompt :: string
  cmd_AttachmentsJSON :: string
  cmd_SealedEnvelopeJSON :: string
  cmd_Status :: prompt_status
  cmd_Error :: string
  cmd_Outcome :: string
  cmd_RetryAllowed :: bool
  cmd_CommitSent :: bool
  cmd_CreatedAt :: seconds
  cmd_UpdatedAt :: seconds

type_synonym command_key = "string \<times> string"
type_synonym command_table = "(command_key, PromptCommand) gomap"

datatype command_error =
  IdentifiersRequired | DatabaseFailed | NoRows | ErrPromptCommandConflict

type_synonym command_result = "PromptCommand option \<times> bool \<times> command_error option"

abbreviation command_key :: "PromptCommand \<Rightarrow> command_key" where
  "command_key c \<equiv> (cmd_DeviceID c, cmd_ClientMsgID c)"

section \<open>Statements\<close>

datatype statement =
    InsertOrIgnore seconds PromptCommand
  | ClaimRetry seconds command_key
  | SetPending seconds command_key
  | SetAccepted seconds command_key
  | SetCommitted seconds command_key
  | SetIndeterminate seconds string command_key
  | SetFailed seconds string string bool command_key

definition insert_or_ignore :: "seconds \<Rightarrow> PromptCommand \<Rightarrow> command_table \<Rightarrow> command_table \<times> nat" where
  "insert_or_ignore now c t =
     (if map_of t (command_key c) \<noteq> None then (t, 0)
      else (AList.update (command_key c)
              (c\<lparr>cmd_Status := PromptRegistered, cmd_Error := [], cmd_Outcome := [],
                 cmd_RetryAllowed := False, cmd_CommitSent := False,
                 cmd_CreatedAt := now, cmd_UpdatedAt := now\<rparr>) t, 1))"

definition update_where ::
  "(PromptCommand \<Rightarrow> bool) \<Rightarrow> (PromptCommand \<Rightarrow> PromptCommand) \<Rightarrow> command_key \<Rightarrow> command_table
   \<Rightarrow> command_table \<times> nat" where
  "update_where P f k t =
     (case map_of t k of
        Some r \<Rightarrow> if P r then (AList.update k (f r) t, 1) else (t, 0)
      | None \<Rightarrow> (t, 0))"

fun run_stmt :: "statement \<Rightarrow> command_table \<Rightarrow> command_table \<times> nat" where
  "run_stmt (InsertOrIgnore now c) t = insert_or_ignore now c t"
| "run_stmt (ClaimRetry now k) t =
     update_where (\<lambda>r. cmd_Status r = PromptFailed \<and> cmd_RetryAllowed r)
       (\<lambda>r. r\<lparr>cmd_Status := PromptRegistered, cmd_Error := [], cmd_Outcome := [],
              cmd_RetryAllowed := False, cmd_UpdatedAt := now\<rparr>) k t"
| "run_stmt (SetPending now k) t =
     update_where (\<lambda>r. cmd_Status r = PromptRegistered)
       (\<lambda>r. r\<lparr>cmd_Status := PromptPending, cmd_UpdatedAt := now\<rparr>) k t"
| "run_stmt (SetAccepted now k) t =
     update_where
       (\<lambda>r. cmd_Status r \<in> {PromptRegistered, PromptPending, PromptFailed, PromptIndeterminate})
       (\<lambda>r. r\<lparr>cmd_Status := PromptAccepted, cmd_Error := [], cmd_Outcome := ''accepted'',
              cmd_RetryAllowed := False, cmd_CommitSent := False, cmd_UpdatedAt := now\<rparr>) k t"
| "run_stmt (SetCommitted now k) t =
     update_where (\<lambda>r. cmd_Status r = PromptAccepted)
       (\<lambda>r. r\<lparr>cmd_CommitSent := True, cmd_UpdatedAt := now\<rparr>) k t"
| "run_stmt (SetIndeterminate now msg k) t =
     update_where (\<lambda>r. cmd_Status r \<in> {PromptRegistered, PromptPending, PromptFailed})
       (\<lambda>r. r\<lparr>cmd_Status := PromptIndeterminate, cmd_Error := msg,
              cmd_Outcome := ''indeterminate'', cmd_RetryAllowed := False, cmd_UpdatedAt := now\<rparr>) k t"
| "run_stmt (SetFailed now msg outcome retry k) t =
     update_where (\<lambda>r. cmd_Status r \<in> {PromptRegistered, PromptPending})
       (\<lambda>r. r\<lparr>cmd_Status := PromptFailed, cmd_Error := msg, cmd_Outcome := outcome,
              cmd_RetryAllowed := retry, cmd_UpdatedAt := now\<rparr>) k t"

definition run_stmts :: "statement list \<Rightarrow> command_table \<Rightarrow> command_table" where
  "run_stmts ss t = fold (\<lambda>s t. fst (run_stmt s t)) ss t"

text \<open>
  One call of an operation: the clock, which of its database calls fail (numbered in program
  order) and the statements of other goroutines that run before each of them.
\<close>

record db_run =
  dr_now :: "nat \<Rightarrow> seconds"
  dr_fails :: "nat \<Rightarrow> bool"
  dr_others :: "nat \<Rightarrow> statement list"

definition exec_stmt ::
  "db_run \<Rightarrow> nat \<Rightarrow> statement \<Rightarrow> command_table \<Rightarrow> command_table \<times> (command_error + nat)" where
  "exec_stmt run n s t =
     (let t = run_stmts (dr_others run n) t
      in if dr_fails run n then (t, Inl DatabaseFailed)
         else let (t', affected) = run_stmt s t
              in if dr_fails run (n + 1) then (t', Inl DatabaseFailed) else (t', Inr affected))"

section \<open>Operations\<close>

definition GetPromptCommand ::
  "db_run \<Rightarrow> nat \<Rightarrow> string \<Rightarrow> string \<Rightarrow> command_table
   \<Rightarrow> command_table \<times> (command_error + PromptCommand)" where
  "GetPromptCommand run n deviceID clientMsgID t =
     (let t = run_stmts (dr_others run n) t
      in (t, if dr_fails run n then Inl DatabaseFailed
             else (case map_of t (deviceID, clientMsgID) of None \<Rightarrow> Inl NoRows | Some r \<Rightarrow> Inr r)))"

definition same_payload :: "PromptCommand \<Rightarrow> PromptCommand \<Rightarrow> bool" where
  "same_payload a b \<longleftrightarrow>
     cmd_SessionID a = cmd_SessionID b \<and> cmd_Prompt a = cmd_Prompt b
     \<and> cmd_AttachmentsJSON a = cmd_AttachmentsJSON b
     \<and> cmd_SealedEnvelopeJSON a = cmd_SealedEnvelopeJSON b"

definition RegisterPromptCommand ::
  "db_run \<Rightarrow> PromptCommand option \<Rightarrow> bool \<Rightarrow> command_table \<Rightarrow> command_table \<times> command_result" where
  "RegisterPromptCommand run cmd retryFailed t =
     (case cmd of
        None \<Rightarrow> (t, None, False, Some IdentifiersRequired)
      | Some c \<Rightarrow>
          if cmd_DeviceID c = [] \<or> cmd_ClientMsgID c = [] \<or> cmd_SessionID c = []
          then (t, None, False, Some IdentifiersRequired)
          else (case exec_stmt run 0 (InsertOrIgnore (dr_now run 0) c) t of
                  (t, Inl e) \<Rightarrow> (t, None, False, Some e)
                | (t, Inr affected) \<Rightarrow>
          (case GetPromptCommand run 2 (cmd_DeviceID c) (cmd_ClientMsgID c) t of
             (t, Inl e) \<Rightarrow> (t, None, False, Some e)
           | (t, Inr stored) \<Rightarrow>
               if affected = 0 \<and> \<not> same_payload stored c
               then (t, Some stored, False, Some ErrPromptCommandConflict)
               else if affected = 1 then (t, Some stored, True, None)
               else if cmd_Status stored = PromptRegistered then (t, Some stored, True, None)
               else if cmd_Status stored \<noteq> PromptFailed \<or> \<not> cmd_RetryAllowed stored \<or> \<not> retryFailed
               then (t, Some stored, False, None)
               else (case exec_stmt run 3 (ClaimRetry (dr_now run 3) (command_key c)) t of
                       (t, Inl e) \<Rightarrow> (t, None, False, Some e)
                     | (t, Inr claimed) \<Rightarrow>
                         (case GetPromptCommand run 5 (cmd_DeviceID c) (cmd_ClientMsgID c) t of
                            (t, Inl e) \<Rightarrow> (t, None, False, Some e)
                          | (t, Inr stored) \<Rightarrow> (t, Some stored, claimed = 1, None))))))"

definition promptTransitionResult ::
  "db_run \<Rightarrow> string \<Rightarrow> string \<Rightarrow> command_table \<times> (command_error + nat) \<Rightarrow> command_table \<times> command_result" where
  "promptTransitionResult run deviceID clientMsgID res =
     (case res of
        (t, Inl e) \<Rightarrow> (t, None, False, Some e)
      | (t, Inr affected) \<Rightarrow>
          (case GetPromptCommand run 2 deviceID clientMsgID t of
             (t, Inl e) \<Rightarrow> (t, None, False, Some e)
           | (t, Inr c) \<Rightarrow> (t, Some c, affected = 1, None)))"

definition MarkPromptForwarded ::
  "db_run \<Rightarrow> string \<Rightarrow> string \<Rightarrow> command_table \<Rightarrow> command_table \<times> command_result" where
  "MarkPromptForwarded run deviceID clientMsgID t =
     promptTransitionResult run deviceID clientMsgID
       (exec_stmt run 0 (SetPending (dr_now run 0) (deviceID, clientMsgID)) t)"

definition MarkPromptAccepted ::
  "db_run \<Rightarrow> string \<Rightarrow> string \<Rightarrow> command_table \<Rightarrow> command_table \<times> command_result" where
  "MarkPromptAccepted run deviceID clientMsgID t =
     promptTransitionResult run deviceID clientMsgID
       (exec_stmt run 0 (SetAccepted (dr_now run 0) (deviceID, clientMsgID)) t)"

definition MarkPromptCommitted ::
  "db_run \<Rightarrow> string \<Rightarrow> string \<Rightarrow> command_table \<Rightarrow> command_table \<times> command_error option" where
  "MarkPromptCommitted run deviceID clientMsgID t =
     (let t = run_stmts (dr_others run 0) t
      in if dr_fails run 0 then (t, Some DatabaseFailed)
         else (fst (run_stmt (SetCommitted (dr_now run 0) (deviceID, clientMsgID)) t), None))"

definition MarkPromptFailed ::
  "db_run \<Rightarrow> string \<Rightarrow> string \<Rightarrow> string \<Rightarrow> string \<Rightarrow> bool \<Rightarrow> command_table
   \<Rightarrow> command_table \<times> command_result" where
  "MarkPromptFailed run deviceID clientMsgID message outcome retryAllowed t =
     (let indeterminate = (outcome = ''indeterminate'');
          retryAllowed = (retryAllowed \<and> \<not> indeterminate);
          outcome = (if outcome = [] then ''failed'' else outcome);
          key = (deviceID, clientMsgID)
      in promptTransitionResult run deviceID clientMsgID
           (exec_stmt run 0
              (if indeterminate then SetIndeterminate (dr_now run 0) message key
               else SetFailed (dr_now run 0) message outcome retryAllowed key) t))"

definition uncommitted :: "string \<Rightarrow> command_table \<Rightarrow> PromptCommand list" where
  "uncommitted deviceID t =
     filter (\<lambda>r. cmd_DeviceID r = deviceID \<and> cmd_Status r = PromptAccepted \<and> \<not> cmd_CommitSent r)
       (map snd t)"

definition ListUncommittedAcceptedPrompts ::
  "db_run \<Rightarrow> string \<Rightarrow> int \<Rightarrow> command_table \<Rightarrow> command_error + PromptCommand list" where
  "ListUncommittedAcceptedPrompts run deviceID limit t =
     (let limit = (if limit < 1 \<or> 500 < limit then 100 else limit)
      in if dr_fails run 0 \<or> dr_fails run 1 then Inl DatabaseFailed
         else Inr (take (nat limit)
                (sort_key (\<lambda>r. (cmd_UpdatedAt r, cmd_ClientMsgID r)) (uncommitted deviceID t))))"

definition PromptCommandCount ::
  "db_run \<Rightarrow> string \<Rightarrow> string \<Rightarrow> command_table \<Rightarrow> command_error + nat" where
  "PromptCommandCount run deviceID clientMsgID t =
     (if dr_fails run 0 then Inl DatabaseFailed
      else Inr (length (filter (\<lambda>r. cmd_DeviceID r = deviceID \<and> cmd_ClientMsgID r = clientMsgID)
                  (map snd t))))"

section \<open>What a statement does to a row\<close>

text \<open>
  \<open>row_ok\<close>: only a failed command may be retried, only an accepted one has been committed.
  \<open>later\<close>: how a row may evolve.  Its identity and payload never change, accepted is final,
  and an indeterminate command can only still become accepted.
\<close>

definition row_ok :: "command_key \<Rightarrow> PromptCommand \<Rightarrow> bool" where
  "row_ok k r \<longleftrightarrow> command_key r = k
     \<and> (cmd_RetryAllowed r \<longrightarrow> cmd_Status r = PromptFailed)
     \<and> (cmd_CommitSent r \<longrightarrow> cmd_Status r = PromptAccepted)"

definition table_ok :: "command_table \<Rightarrow> bool" where
  "table_ok t \<longleftrightarrow> gomap t \<and> (\<forall>(k, r) \<in> set t. row_ok k r)"

definition later :: "PromptCommand \<Rightarrow> PromptCommand \<Rightarrow> bool" where
  "later r r' \<longleftrightarrow> command_key r' = command_key r \<and> same_payload r' r
     \<and> cmd_CreatedAt r' = cmd_CreatedAt r
     \<and> (cmd_Status r = PromptAccepted \<longrightarrow>
          cmd_Status r' = PromptAccepted \<and> (cmd_CommitSent r \<longrightarrow> cmd_CommitSent r'))
     \<and> (cmd_Status r = PromptIndeterminate \<longrightarrow>
          cmd_Status r' = PromptIndeterminate \<or> cmd_Status r' = PromptAccepted)"

lemma later_refl [simp, intro]: "later r r"
  by (simp add: later_def same_payload_def)

lemma later_trans: "later a b \<Longrightarrow> later b c \<Longrightarrow> later a c"
  by (auto simp: later_def same_payload_def)

text \<open>Every statement leaves the table as it is, inserts one good row, or moves one row on.\<close>

definition one_row :: "command_table \<Rightarrow> command_table \<times> nat \<Rightarrow> bool" where
  "one_row t res \<longleftrightarrow> res = (t, 0) \<or>
     (\<exists>k r'. res = (AList.update k r' t, 1)
        \<and> (case map_of t k of None \<Rightarrow> row_ok k r'
           | Some r \<Rightarrow> later r r' \<and> (row_ok k r \<longrightarrow> row_ok k r')))"

lemma one_row_none: "one_row t (t, 0)"
  by (simp add: one_row_def)

lemma one_row_new: "map_of t k = None \<Longrightarrow> row_ok k r' \<Longrightarrow> one_row t (AList.update k r' t, Suc 0)"
  unfolding one_row_def by (rule disjI2, intro exI [of _ k] exI [of _ r']) simp

lemma one_row_move:
  "map_of t k = Some r \<Longrightarrow> later r r' \<Longrightarrow> (row_ok k r \<Longrightarrow> row_ok k r')
   \<Longrightarrow> one_row t (AList.update k r' t, Suc 0)"
  unfolding one_row_def by (rule disjI2, intro exI [of _ k] exI [of _ r']) simp

lemma one_row_insert: "one_row t (insert_or_ignore now c t)"
  by (simp add: insert_or_ignore_def one_row_none one_row_new row_ok_def)

lemma one_row_update:
  assumes "\<And>r. P r \<Longrightarrow> later r (f r)" and "\<And>r. P r \<Longrightarrow> row_ok k r \<Longrightarrow> row_ok k (f r)"
  shows "one_row t (update_where P f k t)"
  by (cases "map_of t k") (simp_all add: update_where_def one_row_none one_row_move assms)

lemma one_row_stmt: "one_row t (run_stmt s t)"
proof (cases s)
  case (InsertOrIgnore now c)
  then show ?thesis by (simp add: one_row_insert)
qed (simp_all, (rule one_row_update; auto simp: later_def same_payload_def row_ok_def)+)

lemma run_stmt_later:
  "map_of t k = Some r \<Longrightarrow> \<exists>r'. map_of (fst (run_stmt s t)) k = Some r' \<and> later r r'"
  using one_row_stmt [of t s] by (auto simp: one_row_def split: option.splits)

lemma table_ok_lookup: "table_ok t \<Longrightarrow> map_of t k = Some r \<Longrightarrow> row_ok k r"
  by (auto simp: table_ok_def dest: map_of_SomeD)

lemma table_okD:
  assumes "table_ok t"
  shows "gomap t" and "\<forall>(k, r) \<in> set t. command_key r = k"
  using assms by (simp_all add: table_ok_def) (auto simp: row_ok_def)

lemma run_stmt_table_ok: "table_ok t \<Longrightarrow> table_ok (fst (run_stmt s t))"
proof -
  assume ok: "table_ok t"
  then have upd: "table_ok (AList.update k r t)" if "row_ok k r" for k r
    using that by (auto simp: table_ok_def set_update_gomap gomap_update)
  show ?thesis
    using one_row_stmt [of t s] ok
    by (auto simp: one_row_def split: option.splits intro!: upd dest: table_ok_lookup)
qed

section \<open>Sequences of statements\<close>

lemma run_stmts_simps [simp]:
  "run_stmts [] t = t"
  "run_stmts (s # ss) t = run_stmts ss (fst (run_stmt s t))"
  "run_stmts (ss @ ss') t = run_stmts ss' (run_stmts ss t)"
  by (simp_all add: run_stmts_def)

lemma run_stmts_later:
  "map_of t k = Some r \<Longrightarrow> \<exists>r'. map_of (run_stmts ss t) k = Some r' \<and> later r r'"
proof (induction ss arbitrary: t r)
  case (Cons s ss)
  then show ?case using run_stmt_later [OF Cons.prems, of s] later_trans by fastforce
qed auto

lemma run_stmts_table_ok: "table_ok t \<Longrightarrow> table_ok (run_stmts ss t)"
  by (induction ss arbitrary: t) (simp_all add: run_stmt_table_ok)

text \<open>
  Every operation acts on the table as some sequence of statements, its own and those of the
  goroutines that interfere with it.
\<close>

definition reaches :: "command_table \<Rightarrow> command_table \<Rightarrow> bool" where
  "reaches t t' \<longleftrightarrow> (\<exists>ss. t' = run_stmts ss t)"

lemma reaches_refl [simp, intro]: "reaches t t"
  unfolding reaches_def by (rule exI [of _ "[]"]) simp

lemma reaches_trans [trans]: "reaches a b \<Longrightarrow> reaches b c \<Longrightarrow> reaches a c"
  unfolding reaches_def by (metis run_stmts_simps(3))

lemma reaches_stmt [intro]: "reaches t (fst (run_stmt s t))"
  unfolding reaches_def by (rule exI [of _ "[s]"]) simp

lemma reaches_others [intro]: "reaches t (run_stmts ss t)"
  unfolding reaches_def by blast

lemma reaches_later:
  "reaches t t' \<Longrightarrow> map_of t k = Some r \<Longrightarrow> \<exists>r'. map_of t' k = Some r' \<and> later r r'"
  unfolding reaches_def using run_stmts_later by blast

lemma reaches_table_ok: "reaches t t' \<Longrightarrow> table_ok t \<Longrightarrow> table_ok t'"
  unfolding reaches_def using run_stmts_table_ok by blast

lemma reaches_exec: "reaches t (fst (exec_stmt run n s t))"
proof -
  let ?u = "run_stmts (dr_others run n) t"
  have "reaches t ?u" by blast
  moreover have "fst (exec_stmt run n s t) \<in> {?u, fst (run_stmt s ?u)}"
    by (simp add: exec_stmt_def Let_def split: prod.split)
  moreover have "reaches t (fst (run_stmt s ?u))" by (rule reaches_trans [of t ?u]) blast+
  ultimately show ?thesis by (simp only: insert_iff empty_iff) metis
qed

lemma reaches_get: "reaches t (fst (GetPromptCommand run n d i t))"
  by (auto simp: GetPromptCommand_def Let_def)

lemma reaches_result:
  assumes "reaches t (fst x)"
  shows "reaches t (fst (promptTransitionResult run d i x))"
proof -
  have "fst (promptTransitionResult run d i x) \<in> {fst x, fst (GetPromptCommand run 2 d i (fst x))}"
    by (cases x) (auto simp: promptTransitionResult_def split: sum.split prod.split)
  moreover have "reaches t (fst (GetPromptCommand run 2 d i (fst x)))"
    by (rule reaches_trans [OF assms reaches_get])
  ultimately show ?thesis using assms by (elim insertE) simp_all
qed

lemma reaches_register: "reaches t (fst (RegisterPromptCommand run cmd retry t))"
proof (cases cmd)
  case (Some c)
  let ?e = "fst (exec_stmt run 0 (InsertOrIgnore (dr_now run 0) c) t)"
  let ?g = "fst (GetPromptCommand run 2 (cmd_DeviceID c) (cmd_ClientMsgID c) ?e)"
  let ?x = "fst (exec_stmt run 3 (ClaimRetry (dr_now run 3) (command_key c)) ?g)"
  let ?h = "fst (GetPromptCommand run 5 (cmd_DeviceID c) (cmd_ClientMsgID c) ?x)"
  have e: "reaches t ?e" by (rule reaches_exec)
  have g: "reaches t ?g" by (rule reaches_trans [OF e reaches_get])
  have x: "reaches t ?x" by (rule reaches_trans [OF g reaches_exec])
  have h: "reaches t ?h" by (rule reaches_trans [OF x reaches_get])
  have "fst (RegisterPromptCommand run cmd retry t) \<in> {t, ?e, ?g, ?x, ?h}"
    unfolding Some RegisterPromptCommand_def
    by (simp split: prod.split sum.split)
  then show ?thesis by (elim insertE) (simp_all add: e g x h)
qed (simp add: RegisterPromptCommand_def)

lemma reaches_committed: "reaches t (fst (MarkPromptCommitted run d i t))"
proof -
  let ?u = "run_stmts (dr_others run 0) t"
  let ?s = "SetCommitted (dr_now run 0) (d, i)"
  have "reaches t (fst (run_stmt ?s ?u))" by (rule reaches_trans [of t ?u]) blast+
  then show ?thesis unfolding MarkPromptCommitted_def Let_def
    by (cases "dr_fails run 0") (simp_all only: if_True if_False fst_conv reaches_others)
qed

inductive command_call :: "command_table \<Rightarrow> command_table \<Rightarrow> bool" where
  "command_call t (fst (RegisterPromptCommand run cmd retry t))"
| "command_call t (fst (MarkPromptForwarded run d i t))"
| "command_call t (fst (MarkPromptAccepted run d i t))"
| "command_call t (fst (MarkPromptCommitted run d i t))"
| "command_call t (fst (MarkPromptFailed run d i msg outcome retry t))"

lemma command_call_reaches: "command_call t t' \<Longrightarrow> reaches t t'"
  by (induction rule: command_call.induct)
    (simp_all only: MarkPromptForwarded_def MarkPromptAccepted_def MarkPromptFailed_def Let_def
      reaches_register reaches_committed reaches_result [OF reaches_exec])

interpretation cmd_table: step_invariant command_call table_ok
  by unfold_locales (rule reaches_table_ok [OF command_call_reaches])

interpretation cmd_row: step_invariant command_call
    "\<lambda>t. \<exists>r'. map_of t k = Some r' \<and> later r r'" for k r
  by unfold_locales (meson command_call_reaches reaches_later later_trans)

lemma count_key:
  assumes "gomap t" and "\<forall>(k, r) \<in> set t. f r = k"
  shows "length (filter (\<lambda>r. f r = k) (map snd t)) = (if map_of t k = None then 0 else 1)"
  using assms
proof (induction t)
  case (Cons p t)
  have "gomap t" "fst p \<notin> fst ` set t" using Cons.prems(1) by (simp_all add: gomap_def)
  then have "map_of t (fst p) = None" by (simp add: map_of_eq_None_iff)
  moreover have "f (snd p) = fst p" using Cons.prems(2) by (cases p) simp
  ultimately show ?case using Cons \<open>gomap t\<close> by (cases p) (auto simp: filter_map)
qed simp

text \<open>C18. The life of a prompt command.  Over any calls of the operations, interleaved with any
  statements of other goroutines and with any database failures, the table keeps one row per
  (device, client message id); a row never disappears and never changes its session or its
  payload; an accepted command stays accepted and a committed one committed; an indeterminate
  command can only become accepted; only failed commands are retryable, only accepted ones are
  committed.\<close>

theorem command_life:
  assumes "command_call\<^sup>*\<^sup>* t t'" and "table_ok t" and "map_of t (d, i) = Some r"
  shows "table_ok t' \<and> (\<exists>r'. map_of t' (d, i) = Some r' \<and> later r r' \<and> row_ok (d, i) r'
    \<and> (dr_fails run 0 \<or> PromptCommandCount run d i t' = Inr 1))"
proof -
  have ok: "table_ok t'" by (rule cmd_table.steps_keep [OF assms(1,2)])
  obtain r' where r': "map_of t' (d, i) = Some r'" "later r r'"
    using cmd_row.steps_keep [OF assms(1)] assms(3) later_refl by blast
  have "length (filter (\<lambda>x. command_key x = (d, i)) (map snd t')) = 1"
    using count_key [OF table_okD [OF ok], of "(d, i)"] r'(1) by simp
  then have "dr_fails run 0 \<or> PromptCommandCount run d i t' = Inr 1"
    by (simp add: PromptCommandCount_def)
  then show ?thesis using ok r' table_ok_lookup [OF ok r'(1)] by blast
qed

section \<open>Forwarding\<close>

lemma exec_Inr:
  assumes "exec_stmt run n s t = (u, Inr a)"
  shows "run_stmt s (run_stmts (dr_others run n) t) = (u, a)"
  using assms by (auto simp: exec_stmt_def Let_def split: if_splits prod.splits)

lemma get_Inr:
  assumes "GetPromptCommand run n d i t = (u, Inr r)"
  shows "map_of u (d, i) = Some r" and "reaches t u"
  using assms by (auto simp: GetPromptCommand_def Let_def split: if_splits option.splits)

lemma insert_affected:
  assumes "run_stmt (InsertOrIgnore now c) t = (u, a)"
  shows "map_of t (command_key c) = None \<and> a = 1
           \<and> (\<exists>r. map_of u (command_key c) = Some r \<and> same_payload r c)
       \<or> map_of t (command_key c) \<noteq> None \<and> a = 0 \<and> u = t"
  using assms by (auto simp: insert_or_ignore_def same_payload_def split: if_splits)

text \<open>The cases in which \<open>RegisterPromptCommand\<close> gives the forward to its caller.\<close>

lemma register_true_cases:
  assumes "RegisterPromptCommand run cmd retry t = (t', Some stored, True, err)"
  obtains (insert) c u where "cmd = Some c" "err = None"
      "exec_stmt run 0 (InsertOrIgnore (dr_now run 0) c) t = (u, Inr 1)"
      "GetPromptCommand run 2 (cmd_DeviceID c) (cmd_ClientMsgID c) u = (t', Inr stored)"
  | (again) c u where "cmd = Some c" "err = None"
      "exec_stmt run 0 (InsertOrIgnore (dr_now run 0) c) t = (u, Inr 0)"
      "GetPromptCommand run 2 (cmd_DeviceID c) (cmd_ClientMsgID c) u = (t', Inr stored)"
      "same_payload stored c" "cmd_Status stored = PromptRegistered"
  | (retry) c u v old w where "cmd = Some c" "err = None" retry
      "exec_stmt run 0 (InsertOrIgnore (dr_now run 0) c) t = (u, Inr 0)"
      "GetPromptCommand run 2 (cmd_DeviceID c) (cmd_ClientMsgID c) u = (v, Inr old)"
      "same_payload old c" "cmd_Status old = PromptFailed" "cmd_RetryAllowed old"
      "exec_stmt run 3 (ClaimRetry (dr_now run 3) (command_key c)) v = (w, Inr 1)"
      "GetPromptCommand run 5 (cmd_DeviceID c) (cmd_ClientMsgID c) w = (t', Inr stored)"
proof (cases cmd)
  case (Some c)
  obtain u a where e: "exec_stmt run 0 (InsertOrIgnore (dr_now run 0) c) t = (u, a)" by force
  obtain v g where g: "GetPromptCommand run 2 (cmd_DeviceID c) (cmd_ClientMsgID c) u = (v, g)" by force
  obtain w b where x: "exec_stmt run 3 (ClaimRetry (dr_now run 3) (command_key c)) v = (w, b)" by force
  obtain z h where h: "GetPromptCommand run 5 (cmd_DeviceID c) (cmd_ClientMsgID c) w = (z, h)" by force
  have a01: "n = 0 \<or> n = 1" if "a = Inr n" for n
    using e insert_affected [OF exec_Inr] that by fastforce
  note [simp] = Some e g x h
  show ?thesis
    using assms a01 insert [of c u] again [of c u] retry [of c u v _ w]
    unfolding RegisterPromptCommand_def by (auto split: sum.splits if_splits)
qed (use assms in \<open>simp add: RegisterPromptCommand_def\<close>)

lemma payload_later: "same_payload a c \<Longrightarrow> later a b \<Longrightarrow> same_payload b c"
  by (auto simp: later_def same_payload_def)

lemma payload_earlier: "same_payload b c \<Longrightarrow> later a b \<Longrightarrow> same_payload a c"
  by (auto simp: later_def same_payload_def)

text \<open>When the insert found a row, that row has only moved on since.\<close>

lemma insert_found:
  assumes "exec_stmt run 0 (InsertOrIgnore now c) t = (u, Inr 0)" and "reaches u v"
    and "map_of v (command_key c) = Some old" and "map_of t (command_key c) = Some r"
  shows "later r old"
proof -
  have "u = run_stmts (dr_others run 0) t"
    using insert_affected [OF exec_Inr [OF assms(1)]] by auto
  then have "reaches t u" by (simp add: reaches_others)
  then have "reaches t v" by (rule reaches_trans [OF _ assms(2)])
  then show ?thesis using reaches_later [OF _ assms(4)] assms(3) by fastforce
qed

lemma insert_fresh:
  assumes "exec_stmt run 0 (InsertOrIgnore now c) t = (u, Inr 1)"
  shows "map_of t (command_key c) = None"
    and "\<exists>r. map_of u (command_key c) = Some r \<and> same_payload r c"
proof -
  note ins = insert_affected [OF exec_Inr [OF assms]]
  then have "map_of (run_stmts (dr_others run 0) t) (command_key c) = None" by auto
  then show "map_of t (command_key c) = None"
    using run_stmts_later [of t "command_key c" _ "dr_others run 0"]
    by (cases "map_of t (command_key c)") fastforce+
  show "\<exists>r. map_of u (command_key c) = Some r \<and> same_payload r c" using ins by auto
qed

lemma register_granted:
  assumes "RegisterPromptCommand run (Some c) retry t = (t', Some stored, True, err)"
  shows "err = None \<and> map_of t' (command_key c) = Some stored \<and> same_payload stored c
    \<and> (\<forall>r. map_of t (command_key c) = Some r \<longrightarrow> same_payload r c
         \<and> cmd_Status r \<noteq> PromptAccepted \<and> cmd_Status r \<noteq> PromptIndeterminate)"
  using assms
proof (cases rule: register_true_cases)
  case (insert c' u)
  then obtain r where r: "map_of u (command_key c) = Some r" "same_payload r c"
    using insert_fresh(2) [OF insert(3)] by auto
  note g = get_Inr [OF insert(4)]
  have "same_payload stored c"
    using reaches_later [OF g(2) r(1)] g(1) insert(1) payload_later [OF r(2)] by auto
  then show ?thesis using insert insert_fresh(1) [OF insert(3)] g(1) by simp
next
  case (again c' u)
  note g = get_Inr [OF again(4)]
  have "later r stored" if "map_of t (command_key c) = Some r" for r
    using insert_found [OF again(3) g(2)] g(1) again(1) that by simp
  then have "same_payload r c \<and> cmd_Status r \<noteq> PromptAccepted \<and> cmd_Status r \<noteq> PromptIndeterminate"
    if "map_of t (command_key c) = Some r" for r
    using payload_earlier [of stored c r] again(1,5,6) that by (auto simp: later_def)
  then show ?thesis using again(1,2,5) g(1) by simp
next
  case (retry c' u v old w)
  note g = get_Inr [OF retry(5)] and h = get_Inr [OF retry(10)]
  have first: "later r old" if "map_of t (command_key c) = Some r" for r
    using insert_found [OF retry(4) g(2)] g(1) retry(1) that by simp
  have "reaches v w" using reaches_exec [of v run 3] retry(9) by (metis fst_conv)
  then have "later old stored"
    using reaches_later [OF reaches_trans [OF _ h(2)] g(1)] h(1) by auto
  then have "same_payload stored c" using payload_later retry(1,6) by simp
  moreover have "same_payload r c \<and> cmd_Status r \<noteq> PromptAccepted \<and> cmd_Status r \<noteq> PromptIndeterminate"
    if "map_of t (command_key c) = Some r" for r
    using first [OF that] payload_earlier [of old c r] retry(1,6,7) by (auto simp: later_def)
  ultimately show ?thesis using h(1) retry(1,2) by simp
qed

text \<open>C15. Who may forward.  When \<open>RegisterPromptCommand\<close> tells its caller to forward, then, whatever
  other goroutines and failures did in between, the stored row carries exactly the caller's
  session and payload, and a row that existed before the call had that payload too and was
  neither accepted nor indeterminate: such a command is never sent to a daemon again.\<close>

theorem register_forward_sound:
  assumes "RegisterPromptCommand run (Some c) retry t = (t', Some stored, True, err)"
  shows "err = None \<and> map_of t' (command_key c) = Some stored \<and> same_payload stored c
    \<and> (\<forall>r. map_of t (command_key c) = Some r \<longrightarrow> same_payload r c
         \<and> cmd_Status r \<noteq> PromptAccepted \<and> cmd_Status r \<noteq> PromptIndeterminate)"
  by (rule register_granted [OF assms])

section \<open>Retries\<close>

definition retryable :: "command_key \<Rightarrow> command_table \<Rightarrow> bool" where
  "retryable k t \<longleftrightarrow>
     (case map_of t k of None \<Rightarrow> False
      | Some r \<Rightarrow> cmd_Status r = PromptFailed \<and> cmd_RetryAllowed r)"

fun is_claim :: "command_key \<Rightarrow> statement \<Rightarrow> bool" where
  "is_claim k (ClaimRetry now k') \<longleftrightarrow> k' = k"
| "is_claim k _ \<longleftrightarrow> False"

fun is_retryable_failure :: "command_key \<Rightarrow> statement \<Rightarrow> bool" where
  "is_retryable_failure k (SetFailed now msg outcome retry k') \<longleftrightarrow> k' = k \<and> retry"
| "is_retryable_failure k _ \<longleftrightarrow> False"

text \<open>The rows that the statements of one kind changed in a run.\<close>

fun affected_by :: "(statement \<Rightarrow> bool) \<Rightarrow> statement list \<Rightarrow> command_table \<Rightarrow> nat" where
  "affected_by P [] t = 0"
| "affected_by P (s # ss) t =
     (if P s then snd (run_stmt s t) else 0) + affected_by P ss (fst (run_stmt s t))"

lemma claim_balance:
  "(if is_claim k s then snd (run_stmt s t) else 0) + of_bool (retryable k (fst (run_stmt s t)))
   \<le> (if is_retryable_failure k s then snd (run_stmt s t) else 0) + (of_bool (retryable k t) :: nat)"
proof (cases s)
  case (InsertOrIgnore now c)
  then show ?thesis by (auto simp: insert_or_ignore_def retryable_def split: option.split)
qed (auto simp: update_where_def retryable_def split: option.split)

text \<open>A failure is retried at most once.  In every interleaving of statements, the retries that
  were claimed for a command are at most as many as the retryable failures recorded for it, plus
  one if it was retryable at the start; two phones that press retry together get one forward.\<close>

theorem retry_claimed_once:
  "affected_by (is_claim k) ss t
   \<le> affected_by (is_retryable_failure k) ss t + of_bool (retryable k t)"
proof (induction ss arbitrary: t)
  case (Cons s ss)
  show ?case using claim_balance [of k s t] Cons [of "fst (run_stmt s t)"] by simp
qed simp

section \<open>The commits that are still to be sent\<close>

lemma uncommitted_distinct:
  assumes "table_ok t"
  shows "distinct (map cmd_ClientMsgID (uncommitted d t))"
proof -
  have "distinct (map command_key (map snd t))"
    by (rule keys_of_values [OF table_okD [OF assms]])
  then have "distinct (map command_key (uncommitted d t))"
    unfolding uncommitted_def by (rule distinct_map_filter)
  moreover have "map command_key (uncommitted d t) = map (Pair d) (map cmd_ClientMsgID (uncommitted d t))"
    by (simp add: uncommitted_def)
  ultimately show ?thesis by (metis distinct_map)
qed

lemma row_mem:
  assumes "table_ok t"
  shows "r \<in> snd ` set t \<longleftrightarrow> map_of t (command_key r) = Some r"
proof
  assume "r \<in> snd ` set t"
  then obtain k where k: "(k, r) \<in> set t" by auto
  then have "command_key r = k" using table_okD(2) [OF assms] by blast
  then show "map_of t (command_key r) = Some r" using k gomap_mem [OF table_okD(1) [OF assms]] by simp
next
  assume "map_of t (command_key r) = Some r"
  then have "(command_key r, r) \<in> set t" by (rule map_of_SomeD)
  then show "r \<in> snd ` set t" by force
qed

lemma uncommitted_mem:
  assumes "table_ok t"
  shows "r \<in> set (uncommitted d t) \<longleftrightarrow>
    map_of t (d, cmd_ClientMsgID r) = Some r \<and> cmd_Status r = PromptAccepted \<and> \<not> cmd_CommitSent r"
proof -
  have "cmd_DeviceID r = d" if "map_of t (d, cmd_ClientMsgID r) = Some r"
    using table_ok_lookup [OF assms that] by (simp add: row_ok_def)
  then show ?thesis
    unfolding uncommitted_def set_filter set_map row_mem [OF assms] mem_Collect_eq by metis
qed

text \<open>The replay list of a device is right: it has the accepted commands of that device whose
  commit was not yet sent, each once, oldest first; it is never longer than the limit, and when it
  is shorter it is complete.\<close>

theorem uncommitted_list_correct:
  assumes "table_ok t" and "ListUncommittedAcceptedPrompts run d limit t = Inr l"
  shows "set l \<subseteq> {r. map_of t (d, cmd_ClientMsgID r) = Some r \<and> cmd_Status r = PromptAccepted
                     \<and> \<not> cmd_CommitSent r}
    \<and> distinct (map cmd_ClientMsgID l)
    \<and> sorted (map (\<lambda>r. (cmd_UpdatedAt r, cmd_ClientMsgID r)) l)
    \<and> length l \<le> 500
    \<and> (length l < (if 1 \<le> limit \<and> limit \<le> 500 then nat limit else 100) \<longrightarrow>
         (\<forall>i r. map_of t (d, i) = Some r \<and> cmd_Status r = PromptAccepted \<and> \<not> cmd_CommitSent r \<longrightarrow>
            r \<in> set l))"
proof -
  let ?n = "if 1 \<le> limit \<and> limit \<le> 500 then nat limit else 100"
  let ?s = "sort_key (\<lambda>r. (cmd_UpdatedAt r, cmd_ClientMsgID r)) (uncommitted d t)"
  have l: "l = take ?n ?s"
    using assms(2) by (auto simp: ListUncommittedAcceptedPrompts_def Let_def split: if_splits)
  have mem: "r \<in> set ?s \<longleftrightarrow> map_of t (d, cmd_ClientMsgID r) = Some r \<and> cmd_Status r = PromptAccepted
                     \<and> \<not> cmd_CommitSent r" for r
    using uncommitted_mem [OF assms(1), of r d] by simp
  have sub: "set l \<subseteq> set ?s" unfolding l by (rule set_take_subset)
  have "distinct (map cmd_ClientMsgID ?s)" using uncommitted_distinct [OF assms(1)] by simp
  then have "distinct (map cmd_ClientMsgID l)" unfolding l by (simp flip: take_map)
  moreover have "sorted (map (\<lambda>r. (cmd_UpdatedAt r, cmd_ClientMsgID r)) l)"
    unfolding l take_map [symmetric] by (rule sorted_wrt_take) simp
  moreover have "length l \<le> 500" unfolding l by auto
  moreover have "r \<in> set l" if "length l < ?n" "map_of t (d, i) = Some r"
      "cmd_Status r = PromptAccepted" "\<not> cmd_CommitSent r" for i r
  proof -
    have "l = ?s" using that(1) unfolding l by auto
    moreover have "cmd_ClientMsgID r = i"
      using table_ok_lookup [OF assms(1) that(2)] by (simp add: row_ok_def)
    ultimately show ?thesis using mem that(2-4) by simp
  qed
  ultimately show ?thesis using sub mem by blast
qed

section \<open>The operations on concrete tables\<close>

definition demo_run :: db_run where
  "demo_run = \<lparr>dr_now = (\<lambda>n. 7 + int n), dr_fails = (\<lambda>n. False), dr_others = (\<lambda>n. [])\<rparr>"

definition demo_command :: "prompt_status \<Rightarrow> bool \<Rightarrow> PromptCommand" where
  "demo_command st retry =
     \<lparr>cmd_DeviceID = ''dev'', cmd_ClientMsgID = ''m1'', cmd_SessionID = ''s'', cmd_Prompt = ''hello'',
      cmd_AttachmentsJSON = ''[]'', cmd_SealedEnvelopeJSON = [], cmd_Status = st, cmd_Error = [],
      cmd_Outcome = [], cmd_RetryAllowed = retry, cmd_CommitSent = False,
      cmd_CreatedAt = 1, cmd_UpdatedAt = 1\<rparr>"

definition demo_table :: "prompt_status \<Rightarrow> bool \<Rightarrow> command_table" where
  "demo_table st retry = [((''dev'', ''m1''), demo_command st retry)]"

lemmas demo_command_defs = demo_run_def demo_command_def demo_table_def
  RegisterPromptCommand_def exec_stmt_def GetPromptCommand_def same_payload_def
  insert_or_ignore_def update_where_def run_stmts_def

lemma demo_table_ok: "table_ok (demo_table PromptAccepted False)"
  by (simp add: demo_command_defs table_ok_def row_ok_def gomap_def)

theorem command_life_witness:
  "\<exists>t' r'. command_call\<^sup>*\<^sup>* (demo_table PromptAccepted False) t'
     \<and> map_of t' (''dev'', ''m1'') = Some r' \<and> later (demo_command PromptAccepted False) r'
     \<and> PromptCommandCount demo_run ''dev'' ''m1'' t' = Inr 1"
proof -
  let ?t = "demo_table PromptAccepted False"
  let ?t' = "fst (MarkPromptCommitted demo_run ''dev'' ''m1'' ?t)"
  have st: "command_call\<^sup>*\<^sup>* ?t ?t'" by (rule r_into_rtranclp) (rule command_call.intros)
  have row: "map_of ?t (''dev'', ''m1'') = Some (demo_command PromptAccepted False)"
    by (simp add: demo_table_def)
  have "\<not> dr_fails demo_run 0" by (simp add: demo_run_def)
  then show ?thesis using command_life [OF st demo_table_ok row, of demo_run] st by blast
qed

theorem register_forward_sound_witness:
  "\<exists>t' stored. RegisterPromptCommand demo_run (Some (demo_command PromptPending False)) True
       (demo_table PromptFailed True) = (t', Some stored, True, None)
     \<and> map_of t' (''dev'', ''m1'') = Some stored \<and> cmd_Prompt stored = ''hello''"
proof -
  let ?c = "demo_command PromptPending False"
  obtain t' stored where r: "RegisterPromptCommand demo_run (Some ?c) True (demo_table PromptFailed True)
      = (t', Some stored, True, None)"
    by (simp add: demo_command_defs)
  then show ?thesis
    using register_forward_sound [OF r] by (auto simp: same_payload_def demo_command_def)
qed

theorem uncommitted_list_correct_witness:
  "ListUncommittedAcceptedPrompts demo_run ''dev'' 100 (demo_table PromptAccepted False)
     = Inr [demo_command PromptAccepted False] \<and> length [demo_command PromptAccepted False] \<le> 500"
proof -
  have l: "ListUncommittedAcceptedPrompts demo_run ''dev'' 100 (demo_table PromptAccepted False)
     = Inr [demo_command PromptAccepted False]"
    by (simp add: ListUncommittedAcceptedPrompts_def uncommitted_def demo_run_def demo_table_def
        demo_command_def)
  then show ?thesis using uncommitted_list_correct [OF demo_table_ok l] by blast
qed

end
