(* ===== verification/Phone_Outbound.thy ===== *)
theory Phone_Outbound
  imports Prelude "HOL-Library.Sublist"
begin

text \<open>
  The outbound queue of one phone socket (\<open>relaycore/connections.go\<close>, \<open>phoneOutbound\<close>,
  \<open>enqueuePhone\<close> and \<open>phoneWriter\<close>).

  Producers reserve bytes and append a frame, one writer goroutine takes frames, writes them and
  releases their bytes, and any goroutine may close the queue.  The operations are functions on
  the record \<open>phoneOutbound\<close>; \<open>out_step\<close> interleaves them with the writer, one step per critical
  section of \<open>stateMu\<close> or per channel operation.  The writer's position is a datatype.  The two
  lists \<open>or_accepted\<close> and \<open>or_written\<close> record what was accepted and what reached the socket; no
  operation reads them.

  \<open>done\<close> is closed exactly when \<open>closed\<close> is set, so one flag stands for both.  Where both
  cases of the writer's select are ready the model takes the frame; the invariant shows that
  a closed queue is empty, so this never decides anything.
\<close>

section \<open>State and operations\<close>

definition phoneOutboundQueueSize :: nat where
  "phoneOutboundQueueSize = 64"

definition maxPhoneOutboundBytes :: int where
  "maxPhoneOutboundBytes = 8388608"

datatype writer_pc =
    WriterSelect
  | WriterReceived string
  | WriterWriting string
  | WriterWrote string bool
  | WriterDropping
  | WriterReturned

record phoneOutbound =
  po_queue :: "string list"
  po_closed :: bool
  po_reservedBytes :: int

definition newPhoneOutbound :: phoneOutbound where
  "newPhoneOutbound = \<lparr>po_queue = [], po_closed = False, po_reservedBytes = 0\<rparr>"

definition releaseBytesLocked :: "int \<Rightarrow> phoneOutbound \<Rightarrow> phoneOutbound" where
  "releaseBytesLocked frameBytes out =
     (if frameBytes \<le> 0 then out
      else if po_reservedBytes out \<le> frameBytes then out\<lparr>po_reservedBytes := 0\<rparr>
      else out\<lparr>po_reservedBytes := po_reservedBytes out - frameBytes\<rparr>)"

definition releaseBytes :: "int \<Rightarrow> phoneOutbound option \<Rightarrow> phoneOutbound option" where
  "releaseBytes frameBytes out =
     (if frameBytes \<le> 0 then out else map_option (releaseBytesLocked frameBytes) out)"

fun drain :: "string list \<Rightarrow> phoneOutbound \<Rightarrow> phoneOutbound" where
  "drain [] out = out"
| "drain (data # queue) out =
     drain queue (releaseBytesLocked (int (length data)) (out\<lparr>po_queue := queue\<rparr>))"

definition out_close :: "phoneOutbound option \<Rightarrow> phoneOutbound option" where
  "out_close out =
     map_option (\<lambda>out. if po_closed out then out
                        else drain (po_queue out) (out\<lparr>po_closed := True\<rparr>)) out"

definition byteUsage :: "phoneOutbound option \<Rightarrow> int" where
  "byteUsage out = (case out of None \<Rightarrow> 0 | Some out \<Rightarrow> po_reservedBytes out)"

definition isClosed :: "phoneOutbound option \<Rightarrow> bool" where
  "isClosed out = (case out of None \<Rightarrow> True | Some out \<Rightarrow> po_closed out)"

definition enqueuePhone :: "phoneOutbound option \<Rightarrow> string \<Rightarrow> phoneOutbound option \<times> bool" where
  "enqueuePhone out data =
     (case out of
        None \<Rightarrow> (None, False)
      | Some out \<Rightarrow>
          let frameBytes = int (length data) in
          if maxPhoneOutboundBytes < frameBytes then (Some out, False)
          else if po_closed out then (Some out, False)
          else if maxPhoneOutboundBytes - po_reservedBytes out < frameBytes then (Some out, False)
          else let out = out\<lparr>po_reservedBytes := po_reservedBytes out + frameBytes\<rparr> in
               if length (po_queue out) < phoneOutboundQueueSize
               then (Some (out\<lparr>po_queue := po_queue out @ [data]\<rparr>), True)
               else (Some (releaseBytesLocked frameBytes out), False))"

section \<open>The queue with its writer\<close>

record outbound_run =
  or_out :: phoneOutbound
  or_pc :: writer_pc
  or_accepted :: "string list"
  or_written :: "string list"

definition new_run :: outbound_run where
  "new_run = \<lparr>or_out = newPhoneOutbound, or_pc = WriterSelect, or_accepted = [], or_written = []\<rparr>"

definition run_enqueue :: "string \<Rightarrow> outbound_run \<Rightarrow> outbound_run" where
  "run_enqueue data r =
     (case enqueuePhone (Some (or_out r)) data of
        (Some out, ok) \<Rightarrow> r\<lparr>or_out := out, or_accepted := or_accepted r @ (if ok then [data] else [])\<rparr>
      | (None, ok) \<Rightarrow> r)"

definition run_close :: "outbound_run \<Rightarrow> outbound_run" where
  "run_close r = (case out_close (Some (or_out r)) of Some out \<Rightarrow> r\<lparr>or_out := out\<rparr> | None \<Rightarrow> r)"

definition run_release :: "string \<Rightarrow> outbound_run \<Rightarrow> outbound_run" where
  "run_release data r =
     (case releaseBytes (int (length data)) (Some (or_out r)) of
        Some out \<Rightarrow> r\<lparr>or_out := out\<rparr> | None \<Rightarrow> r)"

text \<open>The body of \<open>phoneWriter\<close>, one transition per step; \<open>None\<close> where the writer has to wait.\<close>

fun writer_step :: "bool \<Rightarrow> outbound_run \<Rightarrow> outbound_run option" where
  "writer_step ok r =
     (case or_pc r of
        WriterSelect \<Rightarrow>
          (case po_queue (or_out r) of
             data # queue \<Rightarrow>
               Some (r\<lparr>or_out := (or_out r)\<lparr>po_queue := queue\<rparr>, or_pc := WriterReceived data\<rparr>)
           | [] \<Rightarrow> if po_closed (or_out r) then Some (r\<lparr>or_pc := WriterReturned\<rparr>) else None)
      | WriterReceived data \<Rightarrow>
          if isClosed (Some (or_out r))
          then Some ((run_release data r)\<lparr>or_pc := WriterReturned\<rparr>)
          else Some (r\<lparr>or_pc := WriterWriting data\<rparr>)
      | WriterWriting data \<Rightarrow>
          Some (r\<lparr>or_pc := WriterWrote data ok,
                  or_written := or_written r @ (if ok then [data] else [])\<rparr>)
      | WriterWrote data wrote \<Rightarrow>
          Some ((run_release data r)\<lparr>or_pc := if wrote then WriterSelect else WriterDropping\<rparr>)
      | WriterDropping \<Rightarrow> Some ((run_close r)\<lparr>or_pc := WriterReturned\<rparr>)
      | WriterReturned \<Rightarrow> None)"

inductive out_step :: "outbound_run \<Rightarrow> outbound_run \<Rightarrow> bool" where
  producing: "out_step r (run_enqueue data r)"
| closing: "out_step r (run_close r)"
| writing: "writer_step ok r = Some r' \<Longrightarrow> out_step r r'"

section \<open>Accounting\<close>

definition bytes :: "string list \<Rightarrow> int" where
  "bytes ds = sum_list (map (int \<circ> length) ds)"

lemma bytes_simps [simp]:
  "bytes [] = 0" "bytes (d # ds) = int (length d) + bytes ds" "bytes (xs @ ys) = bytes xs + bytes ys"
  by (simp_all add: bytes_def)

lemma bytes_nonneg [simp]: "0 \<le> bytes ds"
  by (induction ds) simp_all

fun in_flight :: "writer_pc \<Rightarrow> string list" where
  "in_flight (WriterReceived d) = [d]"
| "in_flight (WriterWriting d) = [d]"
| "in_flight (WriterWrote d ok) = [d]"
| "in_flight _ = []"

definition out_inv :: "outbound_run \<Rightarrow> bool" where
  "out_inv r \<longleftrightarrow>
     po_reservedBytes (or_out r) = bytes (in_flight (or_pc r)) + bytes (po_queue (or_out r))
     \<and> po_reservedBytes (or_out r) \<le> maxPhoneOutboundBytes
     \<and> length (po_queue (or_out r)) \<le> phoneOutboundQueueSize
     \<and> (po_closed (or_out r) \<longrightarrow> po_queue (or_out r) = [])"

lemma release_fields [simp]:
  "po_queue (releaseBytesLocked n out) = po_queue out"
  "po_closed (releaseBytesLocked n out) = po_closed out"
  by (simp_all add: releaseBytesLocked_def)

lemma release_exact:
  "0 \<le> n \<Longrightarrow> n \<le> po_reservedBytes out \<Longrightarrow>
   po_reservedBytes (releaseBytesLocked n out) = po_reservedBytes out - n"
  by (auto simp: releaseBytesLocked_def)

lemma drain_fields [simp]:
  "po_queue (drain q out) = (if q = [] then po_queue out else [])"
  "po_closed (drain q out) = po_closed out"
  by (induction q arbitrary: out) auto

lemma drain_reserved:
  "bytes q \<le> po_reservedBytes out \<Longrightarrow>
   po_reservedBytes (drain q out) = po_reservedBytes out - bytes q"
proof (induction q arbitrary: out)
  case (Cons d q)
  have "int (length d) \<le> po_reservedBytes out"
    using Cons.prems bytes_nonneg [of q] by (simp del: bytes_nonneg)
  then show ?case using Cons by (simp add: release_exact)
qed simp

lemma run_release_out:
  "or_out (run_release d r) = releaseBytesLocked (int (length d)) (or_out r)"
  "or_pc (run_release d r) = or_pc r"
  "or_accepted (run_release d r) = or_accepted r" "or_written (run_release d r) = or_written r"
  by (auto simp: run_release_def releaseBytes_def releaseBytesLocked_def)

lemma run_close_out:
  "or_out (run_close r) = (if po_closed (or_out r) then or_out r
     else drain (po_queue (or_out r)) ((or_out r)\<lparr>po_closed := True\<rparr>))"
  "or_pc (run_close r) = or_pc r"
  "or_accepted (run_close r) = or_accepted r" "or_written (run_close r) = or_written r"
  by (simp_all add: run_close_def out_close_def)

text \<open>The two ways an enqueue can end.\<close>

lemma run_enqueue_cases:
  assumes nonneg: "0 \<le> po_reservedBytes (or_out r)"
  obtains (accepted) "\<not> po_closed (or_out r)"
      "po_reservedBytes (or_out r) + int (length d) \<le> maxPhoneOutboundBytes"
      "length (po_queue (or_out r)) < phoneOutboundQueueSize"
      "run_enqueue d r = r\<lparr>or_out := (or_out r)
          \<lparr>po_reservedBytes := po_reservedBytes (or_out r) + int (length d),
           po_queue := po_queue (or_out r) @ [d]\<rparr>,
         or_accepted := or_accepted r @ [d]\<rparr>"
  | (refused) "run_enqueue d r = r"
proof -
  let ?o = "or_out r"
  consider (full) "\<not> po_closed ?o" "po_reservedBytes ?o + int (length d) \<le> maxPhoneOutboundBytes"
      "\<not> length (po_queue ?o) < phoneOutboundQueueSize"
    | (ok) "\<not> po_closed ?o" "po_reservedBytes ?o + int (length d) \<le> maxPhoneOutboundBytes"
      "length (po_queue ?o) < phoneOutboundQueueSize"
    | (no) "po_closed ?o \<or> maxPhoneOutboundBytes - po_reservedBytes ?o < int (length d)"
    by linarith
  then show thesis
  proof cases
    case full
    have "run_enqueue d r = r"
      using full nonneg
      by (auto simp: run_enqueue_def enqueuePhone_def Let_def releaseBytesLocked_def)
    then show thesis by (rule refused)
  next
    case ok
    then show thesis
      using nonneg by (intro accepted) (auto simp: run_enqueue_def enqueuePhone_def Let_def)
  next
    case no
    then have "run_enqueue d r = r" by (auto simp: run_enqueue_def enqueuePhone_def Let_def)
    then show thesis by (intro refused)
  qed
qed

lemma out_inv_new: "out_inv new_run"
  by (simp add: out_inv_def new_run_def newPhoneOutbound_def maxPhoneOutboundBytes_def)

lemma out_inv_enqueue: "out_inv r \<Longrightarrow> out_inv (run_enqueue d r)"
proof -
  assume inv: "out_inv r"
  then have nonneg: "0 \<le> po_reservedBytes (or_out r)" by (simp add: out_inv_def)
  show ?thesis
    by (rule run_enqueue_cases [OF nonneg, of d]) (use inv in \<open>auto simp: out_inv_def\<close>)
qed

lemma out_inv_close:
  assumes "out_inv r"
  shows "out_inv (run_close r)"
proof -
  let ?o = "(or_out r)\<lparr>po_closed := True\<rparr>" and ?q = "po_queue (or_out r)"
  have res: "po_reservedBytes (or_out r) = bytes (in_flight (or_pc r)) + bytes ?q"
    using assms by (simp add: out_inv_def)
  have "po_reservedBytes (drain ?q ?o) = bytes (in_flight (or_pc r))"
    using drain_reserved [of ?q ?o] res by simp
  moreover have "bytes (in_flight (or_pc r)) \<le> maxPhoneOutboundBytes"
    using assms bytes_nonneg [of ?q] unfolding out_inv_def by linarith
  ultimately show ?thesis using assms by (simp add: out_inv_def run_close_out)
qed

lemma out_inv_release:
  assumes "out_inv r" and "in_flight (or_pc r) = [d]" and "in_flight pc = []"
  shows "out_inv ((run_release d r)\<lparr>or_pc := pc\<rparr>)"
  using assms by (auto simp: out_inv_def run_release_out release_exact)

lemma out_inv_writer:
  assumes "out_inv r" and "writer_step ok r = Some r'"
  shows "out_inv r'"
proof (cases "or_pc r")
  case WriterSelect
  then show ?thesis using assms
    by (auto simp: out_inv_def split: list.splits if_splits)
next
  case (WriterReceived d)
  then show ?thesis using assms out_inv_release [OF assms(1), of d WriterReturned]
    by (auto simp: out_inv_def split: if_splits)
next
  case (WriterWriting d)
  then show ?thesis using assms by (auto simp: out_inv_def)
next
  case (WriterWrote d k)
  then show ?thesis using assms out_inv_release [OF assms(1), of d] by (auto split: if_splits)
next
  case WriterDropping
  have "out_inv (run_close r)" by (rule out_inv_close [OF assms(1)])
  then show ?thesis using assms(2) WriterDropping by (auto simp: out_inv_def run_close_out)
next
  case WriterReturned
  then show ?thesis using assms by simp
qed

interpretation outbound: step_invariant out_step out_inv
proof
  show "out_inv r \<Longrightarrow> out_step r r' \<Longrightarrow> out_inv r'" for r r'
    by (erule out_step.cases) (auto intro: out_inv_enqueue out_inv_close out_inv_writer)
qed

lemma out_inv_reach: "out_step\<^sup>*\<^sup>* new_run r \<Longrightarrow> out_inv r"
  using outbound.steps_keep out_inv_new by blast

text \<open>C27. The byte budget is exact.  Whatever producers, the writer and closers do in whatever
  order, the reserved bytes are the bytes of the queued frames plus the frame being written; they
  stay within 8 MiB, the queue within 64 frames, and nothing stays reserved once the queue is
  closed and the writer has returned.\<close>

theorem outbound_accounting:
  assumes "out_step\<^sup>*\<^sup>* new_run r"
  shows "po_reservedBytes (or_out r) = bytes (in_flight (or_pc r)) + bytes (po_queue (or_out r))
    \<and> 0 \<le> byteUsage (Some (or_out r)) \<and> byteUsage (Some (or_out r)) \<le> maxPhoneOutboundBytes
    \<and> length (po_queue (or_out r)) \<le> 64
    \<and> (isClosed (Some (or_out r)) \<and> or_pc r = WriterReturned \<longrightarrow> byteUsage (Some (or_out r)) = 0)"
  using out_inv_reach [OF assms]
  by (auto simp: out_inv_def byteUsage_def isClosed_def phoneOutboundQueueSize_def)

section \<open>Order of delivery\<close>

fun pending :: "writer_pc \<Rightarrow> string list" where
  "pending (WriterReceived d) = [d]"
| "pending (WriterWriting d) = [d]"
| "pending _ = []"

fun gave_up :: "writer_pc \<Rightarrow> bool" where
  "gave_up (WriterWrote d ok) = (\<not> ok)"
| "gave_up WriterDropping = True"
| "gave_up WriterReturned = True"
| "gave_up _ = False"

text \<open>
  What was accepted is what was written, then what the writer holds, then what is queued; after a
  close or a failed write the tail is lost, but the part that was written is still a prefix.
\<close>

definition order_inv :: "outbound_run \<Rightarrow> bool" where
  "order_inv r \<longleftrightarrow> prefix (or_written r) (or_accepted r)
     \<and> (\<not> gave_up (or_pc r) \<longrightarrow> prefix (or_written r @ pending (or_pc r)) (or_accepted r))
     \<and> (\<not> gave_up (or_pc r) \<and> \<not> po_closed (or_out r) \<longrightarrow>
          or_accepted r = or_written r @ pending (or_pc r) @ po_queue (or_out r))"

lemma order_inv_enqueue:
  assumes "out_inv r" and "order_inv r"
  shows "order_inv (run_enqueue d r)"
proof -
  have nonneg: "0 \<le> po_reservedBytes (or_out r)" using assms(1) by (simp add: out_inv_def)
  show ?thesis
    by (rule run_enqueue_cases [OF nonneg, of d]) (use assms(2) in \<open>auto simp: order_inv_def\<close>)
qed

lemma order_inv_close: "order_inv r \<Longrightarrow> order_inv (run_close r)"
  by (auto simp: order_inv_def run_close_out)

lemma order_inv_writer:
  assumes "out_inv r" and "order_inv r" and "writer_step ok r = Some r'"
  shows "order_inv r'"
proof (cases "or_pc r")
  case WriterSelect
  then show ?thesis using assms
    by (auto simp: order_inv_def out_inv_def split: list.splits if_splits)
next
  case (WriterReceived d)
  then show ?thesis using assms(2,3)
    by (auto simp: order_inv_def run_release_out isClosed_def split: if_splits)
next
  case (WriterWriting d)
  then show ?thesis using assms(2,3) by (auto simp: order_inv_def)
next
  case (WriterWrote d k)
  then show ?thesis using assms(2,3) by (auto simp: order_inv_def run_release_out)
next
  case WriterDropping
  then show ?thesis using assms(2,3) by (auto simp: order_inv_def run_close_out)
next
  case WriterReturned
  then show ?thesis using assms(3) by simp
qed

interpretation outbound_order: step_invariant out_step "\<lambda>r. out_inv r \<and> order_inv r"
proof
  show "out_inv r \<and> order_inv r \<Longrightarrow> out_step r r' \<Longrightarrow> out_inv r' \<and> order_inv r'" for r r'
    by (erule out_step.cases)
      (auto intro: out_inv_enqueue out_inv_close out_inv_writer
        order_inv_enqueue order_inv_close order_inv_writer simp del: writer_step.simps)
qed

text \<open>Frames reach a phone in order and without gaps or repeats: in every interleaving the frames
  written are a prefix of the frames accepted, and while the queue is open and no write failed,
  every accepted frame is written, in the writer's hands or queued.\<close>

theorem outbound_in_order:
  assumes "out_step\<^sup>*\<^sup>* new_run r"
  shows "prefix (or_written r) (or_accepted r)
    \<and> (\<not> gave_up (or_pc r) \<and> \<not> po_closed (or_out r) \<longrightarrow>
         or_accepted r = or_written r @ pending (or_pc r) @ po_queue (or_out r))"
proof -
  have "order_inv new_run" by (simp add: order_inv_def new_run_def newPhoneOutbound_def)
  then show ?thesis using outbound_order.steps_keep [OF assms] out_inv_new by (simp add: order_inv_def)
qed

section \<open>Termination of the writer\<close>

fun writer_rank :: "writer_pc \<Rightarrow> nat" where
  "writer_rank WriterReturned = 0"
| "writer_rank WriterSelect = 1"
| "writer_rank WriterDropping = 1"
| "writer_rank (WriterWrote d ok) = 2"
| "writer_rank (WriterWriting d) = 3"
| "writer_rank (WriterReceived d) = 4"

lemma closed_writer_progress:
  assumes "out_inv r" and "po_closed (or_out r)" and "or_pc r \<noteq> WriterReturned"
  shows "\<exists>r'. writer_step ok r = Some r' \<and> po_closed (or_out r')
    \<and> writer_rank (or_pc r') < writer_rank (or_pc r)"
  using assms
  by (cases "or_pc r")
    (auto simp: out_inv_def isClosed_def run_release_out run_close_out)

text \<open>
  The writer goroutine running on by itself, with the outcome of each of its writes; the other
  goroutines do not move its position.
\<close>

fun writer_alone :: "bool list \<Rightarrow> outbound_run \<Rightarrow> outbound_run" where
  "writer_alone [] r = r"
| "writer_alone (ok # oks) r =
     (case writer_step ok r of None \<Rightarrow> r | Some r' \<Rightarrow> writer_alone oks r')"

text \<open>Closing the queue stops its writer: from every reachable closed state the goroutine returns
  after at most four of its own steps, whether or not its last write succeeds, and then no byte is
  reserved.  No writer goroutine and no budget leaks.\<close>

theorem writer_terminates:
  assumes "out_step\<^sup>*\<^sup>* new_run r" and "isClosed (Some (or_out r))" and "4 \<le> length oks"
  shows "or_pc (writer_alone oks r) = WriterReturned
    \<and> byteUsage (Some (or_out (writer_alone oks r))) = 0"
proof -
  have "or_pc (writer_alone oks r) = WriterReturned \<and> out_inv (writer_alone oks r)
      \<and> po_closed (or_out (writer_alone oks r))"
    if "out_inv r" "po_closed (or_out r)" "writer_rank (or_pc r) \<le> length oks" for r
    using that
  proof (induction oks arbitrary: r)
    case Nil
    then show ?case by (cases "or_pc r") auto
  next
    case (Cons ok oks)
    show ?case
    proof (cases "or_pc r = WriterReturned")
      case True
      then show ?thesis using Cons.prems by simp
    next
      case False
      obtain r' where r': "writer_step ok r = Some r'" "po_closed (or_out r')"
          "writer_rank (or_pc r') < writer_rank (or_pc r)"
        using closed_writer_progress [OF Cons.prems(1,2) False] by blast
      have "writer_alone (ok # oks) r = writer_alone oks r'" using r'(1) by (simp del: writer_step.simps)
      then show ?thesis
        using Cons.IH [OF out_inv_writer [OF Cons.prems(1) r'(1)] r'(2)] r'(3) Cons.prems(3) by simp
    qed
  qed
  moreover have "writer_rank (or_pc r) \<le> length oks"
    using assms(3) by (cases "or_pc r") auto
  ultimately show ?thesis
    using out_inv_reach [OF assms(1)] assms(2) by (auto simp: isClosed_def byteUsage_def out_inv_def)
qed

section \<open>Concrete runs\<close>

definition demo_outbound :: outbound_run where
  "demo_outbound = run_close (run_enqueue ''b'' (the (writer_step True (run_enqueue ''a'' new_run))))"

lemma demo_outbound_reach: "out_step\<^sup>*\<^sup>* new_run demo_outbound"
proof -
  let ?a = "run_enqueue ''a'' new_run"
  have w: "writer_step True ?a = Some (the (writer_step True ?a))"
    by (simp add: run_enqueue_def enqueuePhone_def new_run_def newPhoneOutbound_def Let_def
        maxPhoneOutboundBytes_def phoneOutboundQueueSize_def)
  have "out_step new_run ?a" by (rule producing)
  moreover have "out_step ?a (the (writer_step True ?a))" by (rule writing [OF w])
  moreover have "out_step (the (writer_step True ?a)) (run_enqueue ''b'' (the (writer_step True ?a)))"
    by (rule producing)
  moreover have "out_step (run_enqueue ''b'' (the (writer_step True ?a))) demo_outbound"
    unfolding demo_outbound_def by (rule closing)
  ultimately show ?thesis by (meson converse_rtranclp_into_rtranclp rtranclp.rtrancl_refl)
qed

lemma demo_outbound_state:
  "demo_outbound = \<lparr>or_out = \<lparr>po_queue = [], po_closed = True, po_reservedBytes = 1\<rparr>,
     or_pc = WriterReceived ''a'', or_accepted = [''a'', ''b''], or_written = []\<rparr>"
  by (simp add: demo_outbound_def run_close_def out_close_def run_enqueue_def enqueuePhone_def
      new_run_def newPhoneOutbound_def Let_def maxPhoneOutboundBytes_def phoneOutboundQueueSize_def
      releaseBytesLocked_def)

theorem outbound_accounting_witness:
  "po_reservedBytes (or_out demo_outbound) = 1 \<and> byteUsage (Some (or_out demo_outbound)) \<le> 8388608"
  using outbound_accounting [OF demo_outbound_reach]
  by (simp add: demo_outbound_state maxPhoneOutboundBytes_def)

theorem outbound_in_order_witness:
  "prefix (or_written demo_outbound) [''a'', ''b'']"
  using outbound_in_order [OF demo_outbound_reach] by (simp add: demo_outbound_state)

theorem writer_terminates_witness:
  "or_pc (writer_alone [True, True, True, True] demo_outbound) = WriterReturned"
  using writer_terminates [OF demo_outbound_reach, of "[True, True, True, True]"]
  by (simp add: demo_outbound_state isClosed_def del: writer_alone.simps)

end
