(* ===== verification/Daemon_Registry.thy ===== *)
theory Daemon_Registry
  imports Prelude
begin

text \<open>
  The registry of daemon connections (\<open>relaycore/connections.go\<close>: \<open>TryAddDaemonVersioned\<close>,
  \<open>RemoveDaemon\<close>, \<open>Close\<close>, \<open>SendToDaemon\<close>, \<open>writeDaemonGeneration\<close>, \<open>isLiveDaemonLocked\<close>).

  These functions are written for concurrent callers: every connection has a mutex \<open>dc.mu\<close>, the
  registry has \<open>cm.mu\<close>, and several functions hold the first while they take the second.  The model
  is an interleaving machine.  A goroutine is a number with a position (\<open>registry_pc\<close>); each step
  is one stretch of code between two blocking operations.  \<open>reg_owner\<close> says who holds the mutex of
  a connection, \<open>reg_closer\<close> who holds \<open>cm.mu\<close> across a blocking operation (only \<open>Close\<close> does; every
  other critical section of \<open>cm.mu\<close> is one step that needs it free).  A step that has to wait gives
  \<open>None\<close>.  Connections live in a heap and are named by their index, as pointers are.

  \<open>reg_seq\<close> and \<open>reg_count\<close> number the published connections without wrap-around, and \<open>reg_events\<close>
  records callbacks, the replacement notice and frames written; no step depends on them, except
  that \<open>reg_seq\<close> tells which connections were ever handed out.  The callbacks are the ones \<open>NewEngine\<close> installs, so none is nil.
\<close>

section \<open>State\<close>

type_synonym ref = nat
type_synonym thread = nat
type_synonym socket = nat

datatype DuplicateDaemonPolicy = ReplaceExisting | RejectNew

record DaemonConn =
  dc_Conn :: "socket option"
  dc_DeviceID :: string
  dc_AppVersion :: string
  dc_LastPing :: nanos
  dc_generation :: uint64
  dc_closed :: bool

datatype registry_pc =
    Ready
  | AddObserve ref
  | AddWait ref "ref option"
  | AddLocked ref "ref option"
  | AddCloseOld ref ref bool string
  | AddFinish ref bool string
  | RemoveWait ref
  | RemoveLocked ref
  | RemoveClose ref
  | RemoveNotify ref
  | CloseMark "ref list" "ref list"
  | SendReady ref uint64

datatype registry_event =
    DeviceUp ref
  | DeviceVersionChange ref
  | DeviceDown ref
  | ConnectionReplaced ref
  | FrameWritten ref

record registry =
  reg_heap :: "DaemonConn list"
  reg_conns :: "(string, ref) gomap"
  reg_nextGeneration :: uint64
  reg_policy :: DuplicateDaemonPolicy
  reg_owner :: "ref \<Rightarrow> thread option"
  reg_closer :: "thread option"
  reg_pc :: "thread \<Rightarrow> registry_pc"
  reg_closedSockets :: "socket list"
  reg_seq :: "ref \<Rightarrow> nat"
  reg_count :: nat
  reg_events :: "registry_event list"

definition NewConnectionManagerWithPolicy :: "DuplicateDaemonPolicy \<Rightarrow> registry" where
  "NewConnectionManagerWithPolicy policy =
     \<lparr>reg_heap = [], reg_conns = [], reg_nextGeneration = 0, reg_policy = policy,
      reg_owner = (\<lambda>r. None), reg_closer = None, reg_pc = (\<lambda>t. Ready), reg_closedSockets = [],
      reg_seq = (\<lambda>r. 0), reg_count = 0, reg_events = []\<rparr>"

abbreviation conn_of :: "registry \<Rightarrow> ref \<Rightarrow> DaemonConn" where
  "conn_of s r \<equiv> reg_heap s ! r"

definition device_of :: "registry \<Rightarrow> ref \<Rightarrow> string" where
  "device_of s r = dc_DeviceID (conn_of s r)"

definition closed_conn :: "registry \<Rightarrow> ref \<Rightarrow> bool" where
  "closed_conn s r = dc_closed (conn_of s r)"

definition goto :: "thread \<Rightarrow> registry_pc \<Rightarrow> registry \<Rightarrow> registry" where
  "goto t pc s = s\<lparr>reg_pc := (reg_pc s)(t := pc)\<rparr>"

definition lock :: "ref \<Rightarrow> thread \<Rightarrow> registry \<Rightarrow> registry" where
  "lock r t s = s\<lparr>reg_owner := (reg_owner s)(r := Some t)\<rparr>"

definition unlock :: "ref \<Rightarrow> registry \<Rightarrow> registry" where
  "unlock r s = s\<lparr>reg_owner := (reg_owner s)(r := None)\<rparr>"

definition unlock_opt :: "ref option \<Rightarrow> registry \<Rightarrow> registry" where
  "unlock_opt r s = (case r of None \<Rightarrow> s | Some r \<Rightarrow> unlock r s)"

definition set_closed :: "ref \<Rightarrow> registry \<Rightarrow> registry" where
  "set_closed r s = s\<lparr>reg_heap := (reg_heap s)[r := (conn_of s r)\<lparr>dc_closed := True\<rparr>]\<rparr>"

definition close_socket :: "ref \<Rightarrow> registry \<Rightarrow> registry" where
  "close_socket r s =
     s\<lparr>reg_closedSockets := reg_closedSockets s
          @ (case dc_Conn (conn_of s r) of None \<Rightarrow> [] | Some c \<Rightarrow> [c])\<rparr>"

definition emit :: "registry_event \<Rightarrow> registry \<Rightarrow> registry" where
  "emit e s = s\<lparr>reg_events := reg_events s @ [e]\<rparr>"

definition isLiveDaemonLocked :: "registry \<Rightarrow> ref \<Rightarrow> bool" where
  "isLiveDaemonLocked s r \<longleftrightarrow>
     \<not> closed_conn s r \<and> map_of (reg_conns s) (device_of s r) = Some r"

section \<open>Registering a daemon\<close>

definition new_conn :: "string \<Rightarrow> socket option \<Rightarrow> string \<Rightarrow> nanos \<Rightarrow> DaemonConn" where
  "new_conn deviceID conn appVersion now =
     \<lparr>dc_Conn = conn, dc_DeviceID = deviceID, dc_AppVersion = appVersion,
      dc_LastPing = now, dc_generation = 0, dc_closed = False\<rparr>"

definition add_begin ::
  "thread \<Rightarrow> string \<Rightarrow> socket option \<Rightarrow> string \<Rightarrow> nanos \<Rightarrow> registry \<Rightarrow> registry option" where
  "add_begin t deviceID conn appVersion now s =
     (if reg_pc s t = Ready
      then let r = length (reg_heap s)
           in Some (goto t (AddObserve r)
                (lock r t (s\<lparr>reg_heap := reg_heap s @ [new_conn deviceID conn appVersion now]\<rparr>)))
      else None)"

definition add_observe :: "thread \<Rightarrow> registry \<Rightarrow> registry option" where
  "add_observe t s =
     (case reg_pc s t of
        AddObserve r \<Rightarrow>
          if reg_closer s \<noteq> None then None
          else Some (goto t (AddWait r (map_of (reg_conns s) (device_of s r))) s)
      | _ \<Rightarrow> None)"

definition add_lock_old :: "thread \<Rightarrow> registry \<Rightarrow> registry option" where
  "add_lock_old t s =
     (case reg_pc s t of
        AddWait r None \<Rightarrow> Some (goto t (AddLocked r None) s)
      | AddWait r (Some old) \<Rightarrow>
          if reg_owner s old \<noteq> None then None
          else Some (goto t (AddLocked r (Some old)) (lock old t s))
      | _ \<Rightarrow> None)"

definition publish :: "ref \<Rightarrow> registry \<Rightarrow> registry" where
  "publish r s =
     (let g = reg_nextGeneration s + 1
      in s\<lparr>reg_nextGeneration := g,
           reg_heap := (reg_heap s)[r := (conn_of s r)\<lparr>dc_generation := g\<rparr>],
           reg_conns := AList.update (device_of s r) r (reg_conns s),
           reg_count := Suc (reg_count s),
           reg_seq := (reg_seq s)(r := Suc (reg_count s))\<rparr>)"

definition add_publish :: "thread \<Rightarrow> registry \<Rightarrow> registry option" where
  "add_publish t s =
     (case reg_pc s t of
        AddLocked r old \<Rightarrow>
          if reg_closer s \<noteq> None then None
          else if map_of (reg_conns s) (device_of s r) \<noteq> old
          then Some (goto t (AddObserve r) (unlock_opt old s))
          else (case old of
                  None \<Rightarrow> Some (goto t (AddFinish r False []) (publish r s))
                | Some o' \<Rightarrow>
                    if reg_policy s = RejectNew \<and> \<not> closed_conn s o'
                    then Some (goto t Ready (unlock r (unlock o' s)))
                    else Some (goto t (AddCloseOld r o' (\<not> closed_conn s o') (dc_AppVersion (conn_of s o')))
                           (set_closed o' (publish r s))))
      | _ \<Rightarrow> None)"

definition add_close_old :: "thread \<Rightarrow> registry \<Rightarrow> registry option" where
  "add_close_old t s =
     (case reg_pc s t of
        AddCloseOld r old wasOnline previousVersion \<Rightarrow>
          Some (goto t (AddFinish r wasOnline previousVersion)
                 (unlock old (close_socket old (emit (ConnectionReplaced old) s))))
      | _ \<Rightarrow> None)"

definition add_finish :: "thread \<Rightarrow> registry \<Rightarrow> registry option" where
  "add_finish t s =
     (case reg_pc s t of
        AddFinish r wasOnline previousVersion \<Rightarrow>
          if wasOnline \<and> previousVersion = dc_AppVersion (conn_of s r)
          then Some (goto t Ready (unlock r s))
          else if reg_closer s \<noteq> None then None
          else Some (goto t Ready (unlock r
                 (if isLiveDaemonLocked s r
                  then emit (if wasOnline then DeviceVersionChange r else DeviceUp r) s else s)))
      | _ \<Rightarrow> None)"

section \<open>Removing, closing, sending\<close>

definition remove_observe :: "thread \<Rightarrow> string \<Rightarrow> socket option \<Rightarrow> registry \<Rightarrow> registry option" where
  "remove_observe t deviceID conn s =
     (if reg_pc s t \<noteq> Ready \<or> reg_closer s \<noteq> None then None
      else (case map_of (reg_conns s) deviceID of
              None \<Rightarrow> Some s
            | Some r \<Rightarrow> if dc_Conn (conn_of s r) \<noteq> conn then Some s else Some (goto t (RemoveWait r) s)))"

definition remove_lock :: "thread \<Rightarrow> registry \<Rightarrow> registry option" where
  "remove_lock t s =
     (case reg_pc s t of
        RemoveWait r \<Rightarrow>
          if reg_owner s r \<noteq> None then None else Some (goto t (RemoveLocked r) (lock r t s))
      | _ \<Rightarrow> None)"

definition remove_commit :: "thread \<Rightarrow> registry \<Rightarrow> registry option" where
  "remove_commit t s =
     (case reg_pc s t of
        RemoveLocked r \<Rightarrow>
          if reg_closer s \<noteq> None then None
          else if map_of (reg_conns s) (device_of s r) \<noteq> Some r \<or> closed_conn s r
          then Some (goto t Ready (unlock r s))
          else Some (goto t (RemoveClose r)
                 (set_closed r (s\<lparr>reg_conns := AList.delete (device_of s r) (reg_conns s)\<rparr>)))
      | _ \<Rightarrow> None)"

definition remove_close :: "thread \<Rightarrow> registry \<Rightarrow> registry option" where
  "remove_close t s =
     (case reg_pc s t of
        RemoveClose r \<Rightarrow> Some (goto t (RemoveNotify r) (unlock r (close_socket r s)))
      | _ \<Rightarrow> None)"

definition remove_notify :: "thread \<Rightarrow> registry \<Rightarrow> registry option" where
  "remove_notify t s =
     (case reg_pc s t of
        RemoveNotify r \<Rightarrow> Some (goto t Ready (emit (DeviceDown r) s))
      | _ \<Rightarrow> None)"

definition close_begin :: "thread \<Rightarrow> registry \<Rightarrow> registry option" where
  "close_begin t s =
     (if reg_pc s t \<noteq> Ready \<or> reg_closer s \<noteq> None then None
      else let daemons = map snd (reg_conns s)
           in Some (goto t (CloseMark daemons daemons) (s\<lparr>reg_closer := Some t\<rparr>)))"

definition close_mark :: "thread \<Rightarrow> registry \<Rightarrow> registry option" where
  "close_mark t s =
     (case reg_pc s t of
        CloseMark (r # rest) daemons \<Rightarrow>
          if reg_owner s r \<noteq> None then None
          else Some (goto t (CloseMark rest daemons) (set_closed r s))
      | CloseMark [] daemons \<Rightarrow>
          Some (goto t Ready (fold close_socket daemons (s\<lparr>reg_conns := [], reg_closer := None\<rparr>)))
      | _ \<Rightarrow> None)"

definition send_observe :: "thread \<Rightarrow> string \<Rightarrow> registry \<Rightarrow> registry option" where
  "send_observe t deviceID s =
     (if reg_pc s t \<noteq> Ready \<or> reg_closer s \<noteq> None then None
      else (case map_of (reg_conns s) deviceID of
              None \<Rightarrow> Some s
            | Some r \<Rightarrow> Some (goto t (SendReady r (dc_generation (conn_of s r))) s)))"

text \<open>\<open>SafeWriteDaemon\<close> is called with a connection that a registration returned, current or not.\<close>

definition SafeWriteDaemon :: "thread \<Rightarrow> ref \<Rightarrow> registry \<Rightarrow> registry option" where
  "SafeWriteDaemon t r s =
     (if reg_pc s t \<noteq> Ready \<or> \<not> r < length (reg_heap s) \<or> reg_seq s r = 0 then None
      else if dc_Conn (conn_of s r) = None then Some s
      else Some (goto t (SendReady r (dc_generation (conn_of s r))) s))"

definition writeDaemonGeneration :: "thread \<Rightarrow> registry \<Rightarrow> registry option" where
  "writeDaemonGeneration t s =
     (case reg_pc s t of
        SendReady r generation \<Rightarrow>
          if reg_owner s r \<noteq> None then None
          else if closed_conn s r \<or> dc_generation (conn_of s r) \<noteq> generation
                  \<or> dc_Conn (conn_of s r) = None
          then Some (goto t Ready s)
          else Some (goto t Ready (emit (FrameWritten r) s))
      | _ \<Rightarrow> None)"

section \<open>The machine\<close>

datatype registry_action =
    Add string "socket option" string nanos | Observe | LockOld | Publish | CloseOld | FinishAdd
  | Remove string "socket option" | RemoveLock | RemoveCommit | RemoveCloseConn | RemoveDone
  | Shutdown | ShutdownStep
  | Send string | SafeWrite ref | Write

fun registry_exec :: "thread \<Rightarrow> registry_action \<Rightarrow> registry \<Rightarrow> registry option" where
  "registry_exec t (Add d c v now) s = add_begin t d c v now s"
| "registry_exec t Observe s = add_observe t s"
| "registry_exec t LockOld s = add_lock_old t s"
| "registry_exec t Publish s = add_publish t s"
| "registry_exec t CloseOld s = add_close_old t s"
| "registry_exec t FinishAdd s = add_finish t s"
| "registry_exec t (Remove d c) s = remove_observe t d c s"
| "registry_exec t RemoveLock s = remove_lock t s"
| "registry_exec t RemoveCommit s = remove_commit t s"
| "registry_exec t RemoveCloseConn s = remove_close t s"
| "registry_exec t RemoveDone s = remove_notify t s"
| "registry_exec t Shutdown s = close_begin t s"
| "registry_exec t ShutdownStep s = close_mark t s"
| "registry_exec t (Send d) s = send_observe t d s"
| "registry_exec t (SafeWrite r) s = SafeWriteDaemon t r s"
| "registry_exec t Write s = writeDaemonGeneration t s"

definition registry_step :: "registry \<Rightarrow> registry \<Rightarrow> bool" where
  "registry_step s s' \<longleftrightarrow> (\<exists>t a. registry_exec t a s = Some s')"

fun registry_run :: "(thread \<times> registry_action) list \<Rightarrow> registry \<Rightarrow> registry option" where
  "registry_run [] s = Some s"
| "registry_run ((t, a) # as) s =
     (case registry_exec t a s of None \<Rightarrow> None | Some s' \<Rightarrow> registry_run as s')"

section \<open>The invariant\<close>

fun holds :: "registry_pc \<Rightarrow> ref set" where
  "holds (AddObserve r) = {r}"
| "holds (AddWait r old) = {r}"
| "holds (AddLocked r old) = insert r (set_option old)"
| "holds (AddCloseOld r old w v) = {r, old}"
| "holds (AddFinish r w v) = {r}"
| "holds (RemoveLocked r) = {r}"
| "holds (RemoveClose r) = {r}"
| "holds _ = {}"

text \<open>The connection a goroutine has not published yet, and the one it is about to announce.\<close>

fun fresh_ref :: "registry_pc \<Rightarrow> ref option" where
  "fresh_ref (AddObserve r) = Some r"
| "fresh_ref (AddWait r old) = Some r"
| "fresh_ref (AddLocked r old) = Some r"
| "fresh_ref _ = None"

fun announcing :: "registry_pc \<Rightarrow> ref option" where
  "announcing (AddCloseOld r old w v) = Some r"
| "announcing (AddFinish r w v) = Some r"
| "announcing _ = None"

text \<open>A connection that the goroutine has marked closed.\<close>

fun closing_ref :: "registry_pc \<Rightarrow> ref option" where
  "closing_ref (AddCloseOld r old w v) = Some old"
| "closing_ref (RemoveClose r) = Some r"
| "closing_ref (RemoveNotify r) = Some r"
| "closing_ref _ = None"

text \<open>Connections a position refers to that were published before.\<close>

fun seen_refs :: "registry_pc \<Rightarrow> ref set" where
  "seen_refs (AddWait r old) = set_option old"
| "seen_refs (AddLocked r old) = set_option old"
| "seen_refs (AddCloseOld r old w v) = {r, old}"
| "seen_refs (AddFinish r w v) = {r}"
| "seen_refs (RemoveWait r) = {r}"
| "seen_refs (RemoveLocked r) = {r}"
| "seen_refs (RemoveClose r) = {r}"
| "seen_refs (RemoveNotify r) = {r}"
| "seen_refs (CloseMark todo ds) = set todo \<union> set ds"
| "seen_refs (SendReady r g) = {r}"
| "seen_refs _ = {}"

definition locks_ok :: "registry \<Rightarrow> bool" where
  "locks_ok s \<longleftrightarrow> (\<forall>t r. reg_owner s r = Some t \<longleftrightarrow> r \<in> holds (reg_pc s t))"

definition published :: "registry \<Rightarrow> ref \<Rightarrow> bool" where
  "published s r \<longleftrightarrow> r < length (reg_heap s) \<and> reg_seq s r \<noteq> 0"

definition pcs_ok :: "registry \<Rightarrow> bool" where
  "pcs_ok s \<longleftrightarrow>
     (\<forall>t r. fresh_ref (reg_pc s t) = Some r \<longrightarrow>
        r < length (reg_heap s) \<and> reg_seq s r = 0 \<and> \<not> closed_conn s r)
     \<and> (\<forall>t. \<forall>r \<in> seen_refs (reg_pc s t). published s r)
     \<and> (\<forall>t r. announcing (reg_pc s t) = Some r \<longrightarrow> \<not> closed_conn s r)
     \<and> (\<forall>t r. closing_ref (reg_pc s t) = Some r \<longrightarrow> closed_conn s r)"

definition live_ok :: "registry \<Rightarrow> bool" where
  "live_ok s \<longleftrightarrow> gomap (reg_conns s)
     \<and> (\<forall>d r. map_of (reg_conns s) d = Some r \<longrightarrow>
          published s r \<and> device_of s r = d \<and> (reg_closer s = None \<longrightarrow> \<not> closed_conn s r))
     \<and> (\<forall>r. published s r \<and> \<not> closed_conn s r \<longrightarrow> map_of (reg_conns s) (device_of s r) = Some r)"

definition closer_ok :: "registry \<Rightarrow> bool" where
  "closer_ok s \<longleftrightarrow>
     (\<forall>t todo ds. reg_pc s t = CloseMark todo ds \<longrightarrow> reg_closer s = Some t
        \<and> (\<forall>d r. map_of (reg_conns s) d = Some r \<longrightarrow> r \<in> set todo \<or> closed_conn s r))
     \<and> (\<forall>t. reg_closer s = Some t \<longrightarrow> (\<exists>todo ds. reg_pc s t = CloseMark todo ds))"

definition numbers_ok :: "registry \<Rightarrow> bool" where
  "numbers_ok s \<longleftrightarrow> reg_nextGeneration s = of_nat (reg_count s)
     \<and> (\<forall>r. reg_seq s r \<le> reg_count s) \<and> (\<forall>r. length (reg_heap s) \<le> r \<longrightarrow> reg_seq s r = 0)
     \<and> (\<forall>r. published s r \<longrightarrow> dc_generation (conn_of s r) = of_nat (reg_seq s r))
     \<and> (\<forall>r r'. published s r \<and> reg_seq s r = reg_seq s r' \<longrightarrow> r = r')"

definition registry_inv :: "registry \<Rightarrow> bool" where
  "registry_inv s \<longleftrightarrow> locks_ok s \<and> pcs_ok s \<and> live_ok s \<and> closer_ok s \<and> numbers_ok s"

lemmas helper_defs = goto_def lock_def unlock_def unlock_opt_def emit_def close_socket_def
  set_closed_def publish_def Let_def

lemmas inv_parts = locks_ok_def pcs_ok_def live_ok_def closer_ok_def numbers_ok_def

lemmas view_defs = device_of_def closed_conn_def published_def

lemma close_sockets_view [simp]:
  "reg_pc (fold close_socket ds s) = reg_pc s" "reg_owner (fold close_socket ds s) = reg_owner s"
  "reg_heap (fold close_socket ds s) = reg_heap s" "reg_seq (fold close_socket ds s) = reg_seq s"
  "reg_conns (fold close_socket ds s) = reg_conns s" "reg_closer (fold close_socket ds s) = reg_closer s"
  "reg_count (fold close_socket ds s) = reg_count s" "reg_events (fold close_socket ds s) = reg_events s"
  "reg_nextGeneration (fold close_socket ds s) = reg_nextGeneration s"
  "reg_policy (fold close_socket ds s) = reg_policy s"
  by (induction ds arbitrary: s) (simp_all add: close_socket_def)

lemma locks_free: "locks_ok s \<Longrightarrow> reg_owner s r = None \<longleftrightarrow> (\<forall>t. r \<notin> holds (reg_pc s t))"
  unfolding locks_ok_def by (metis not_None_eq option.distinct(1))

section \<open>The steps, one case each\<close>

lemma add_cases:
  assumes "registry_exec t a s = Some s'"
    and "a \<in> {Observe, LockOld, Publish, CloseOld, FinishAdd} \<or> (\<exists>d c v now. a = Add d c v now)"
  obtains (start) d c v now where "reg_pc s t = Ready"
      "s' = goto t (AddObserve (length (reg_heap s))) (lock (length (reg_heap s)) t
              (s\<lparr>reg_heap := reg_heap s @ [new_conn d c v now]\<rparr>))"
  | (observe) r where "reg_pc s t = AddObserve r" "reg_closer s = None"
      "s' = goto t (AddWait r (map_of (reg_conns s) (device_of s r))) s"
  | (no_old) r where "reg_pc s t = AddWait r None" "s' = goto t (AddLocked r None) s"
  | (lock_old) r old where "reg_pc s t = AddWait r (Some old)" "reg_owner s old = None"
      "s' = goto t (AddLocked r (Some old)) (lock old t s)"
  | (retry) r old where "reg_pc s t = AddLocked r old" "s' = goto t (AddObserve r) (unlock_opt old s)"
  | (reject) r old where "reg_pc s t = AddLocked r (Some old)" "reg_policy s = RejectNew"
      "s' = goto t Ready (unlock r (unlock old s))"
  | (first) r where "reg_pc s t = AddLocked r None" "reg_closer s = None"
      "map_of (reg_conns s) (device_of s r) = None" "s' = goto t (AddFinish r False []) (publish r s)"
  | (replace) r old w v where "reg_pc s t = AddLocked r (Some old)" "reg_closer s = None"
      "map_of (reg_conns s) (device_of s r) = Some old" "reg_policy s = RejectNew \<Longrightarrow> closed_conn s old"
      "s' = goto t (AddCloseOld r old w v) (set_closed old (publish r s))"
  | (close_old) r old w v where "reg_pc s t = AddCloseOld r old w v"
      "s' = goto t (AddFinish r w v) (unlock old (close_socket old (emit (ConnectionReplaced old) s)))"
  | (quiet_finish) r w v where "reg_pc s t = AddFinish r w v" "s' = goto t Ready (unlock r s)"
  | (announce) r w v where "reg_pc s t = AddFinish r w v" "isLiveDaemonLocked s r"
      "s' = goto t Ready (unlock r (emit (if w then DeviceVersionChange r else DeviceUp r) s))"
  using assms
  by (auto simp: add_begin_def add_observe_def add_lock_old_def add_publish_def add_close_old_def
      add_finish_def Let_def split: if_splits registry_pc.splits option.splits)

lemma remove_cases:
  assumes "registry_exec t a s = Some s'"
    and "a \<in> {RemoveLock, RemoveCommit, RemoveCloseConn, RemoveDone} \<or> (\<exists>d c. a = Remove d c)"
  obtains (unchanged) "s' = s"
  | (remove_begin) r d where "reg_pc s t = Ready" "map_of (reg_conns s) d = Some r"
      "s' = goto t (RemoveWait r) s"
  | (remove_lock) r where "reg_pc s t = RemoveWait r" "reg_owner s r = None"
      "s' = goto t (RemoveLocked r) (lock r t s)"
  | (remove_skip) r where "reg_pc s t = RemoveLocked r" "s' = goto t Ready (unlock r s)"
  | (remove) r where "reg_pc s t = RemoveLocked r" "reg_closer s = None"
      "map_of (reg_conns s) (device_of s r) = Some r"
      "s' = goto t (RemoveClose r)
              (set_closed r (s\<lparr>reg_conns := AList.delete (device_of s r) (reg_conns s)\<rparr>))"
  | (remove_close) r where "reg_pc s t = RemoveClose r"
      "s' = goto t (RemoveNotify r) (unlock r (close_socket r s))"
  | (remove_done) r where "reg_pc s t = RemoveNotify r" "s' = goto t Ready (emit (DeviceDown r) s)"
proof -
  note run = assms(1)
  from assms(2) consider d c where "a = Remove d c" | "a = RemoveLock" | "a = RemoveCommit"
    | "a = RemoveCloseConn" | "a = RemoveDone" by blast
  then show thesis
  proof cases
    case 1
    then have "reg_pc s t = Ready
        \<and> (s' = s \<or> (\<exists>r. map_of (reg_conns s) d = Some r \<and> s' = goto t (RemoveWait r) s))"
      using run by (auto simp: remove_observe_def split: if_splits option.splits)
    then show thesis using unchanged remove_begin by blast
  next
    case 2
    then show thesis
      using run remove_lock by (auto simp: remove_lock_def split: if_splits registry_pc.splits)
  next
    case 3
    then show thesis
      using run remove_skip remove by (auto simp: remove_commit_def split: if_splits registry_pc.splits)
  next
    case 4
    then show thesis
      using run remove_close by (auto simp: remove_close_def split: registry_pc.splits)
  next
    case 5
    then show thesis
      using run remove_done by (auto simp: remove_notify_def split: registry_pc.splits)
  qed
qed

lemma rest_cases:
  assumes "registry_exec t a s = Some s'"
    and "a \<in> {Shutdown, ShutdownStep, Write} \<or> (\<exists>d. a = Send d) \<or> (\<exists>r. a = SafeWrite r)"
  obtains (unchanged) "s' = s"
  | (shutdown) "reg_pc s t = Ready" "reg_closer s = None"
      "s' = goto t (CloseMark (map snd (reg_conns s)) (map snd (reg_conns s))) (s\<lparr>reg_closer := Some t\<rparr>)"
  | (mark) r rest ds where "reg_pc s t = CloseMark (r # rest) ds" "reg_owner s r = None"
      "s' = goto t (CloseMark rest ds) (set_closed r s)"
  | (closed_all) ds where "reg_pc s t = CloseMark [] ds"
      "s' = goto t Ready (fold close_socket ds (s\<lparr>reg_conns := [], reg_closer := None\<rparr>))"
  | (send) r d where "reg_pc s t = Ready" "map_of (reg_conns s) d = Some r \<or> published s r"
      "s' = goto t (SendReady r (dc_generation (conn_of s r))) s"
  | (not_sent) r g where "reg_pc s t = SendReady r g" "s' = goto t Ready s"
  | (sent) r g where "reg_pc s t = SendReady r g" "reg_owner s r = None" "\<not> closed_conn s r"
      "s' = goto t Ready (emit (FrameWritten r) s)"
proof -
  note run = assms(1)
  from assms(2) consider "a = Shutdown" | "a = ShutdownStep" | "a = Write" | d where "a = Send d"
    | r where "a = SafeWrite r" by blast
  then show thesis
  proof cases
    case 1
    then show thesis
      using run shutdown by (auto simp: close_begin_def Let_def split: if_splits)
  next
    case 2
    then show thesis
      using run mark closed_all
      by (auto simp: close_mark_def split: if_splits registry_pc.splits list.splits)
  next
    case 3
    then show thesis
      using run not_sent sent
      by (auto simp: writeDaemonGeneration_def split: if_splits registry_pc.splits)
  next
    case 4
    then have "reg_pc s t = Ready \<and> (s' = s \<or> (\<exists>r. map_of (reg_conns s) d = Some r
        \<and> s' = goto t (SendReady r (dc_generation (conn_of s r))) s))"
      using run by (auto simp: send_observe_def split: if_splits option.splits)
    then show thesis using unchanged send by blast
  next
    case 5
    then have "reg_pc s t = Ready \<and> published s r
        \<and> (s' = s \<or> s' = goto t (SendReady r (dc_generation (conn_of s r))) s)"
      using run by (auto simp: SafeWriteDaemon_def published_def split: if_splits)
    then show thesis using unchanged send by blast
  qed
qed

lemma action_cases:
  obtains "a \<in> {Observe, LockOld, Publish, CloseOld, FinishAdd} \<or> (\<exists>d c v now. a = Add d c v now)"
  | "a \<in> {RemoveLock, RemoveCommit, RemoveCloseConn, RemoveDone} \<or> (\<exists>d c. a = Remove d c)"
  | "a \<in> {Shutdown, ShutdownStep, Write} \<or> (\<exists>d. a = Send d) \<or> (\<exists>r. a = SafeWrite r)"
  by (cases a) auto

section \<open>Every step keeps the invariant\<close>

text \<open>Frame rules: what a step of one goroutine must not touch of the others.\<close>

lemma locks_frame:
  assumes "locks_ok s" and "reg_pc s' = (reg_pc s)(t := pc)"
    and "\<And>r. r \<in> holds pc \<Longrightarrow> r \<notin> holds (reg_pc s t) \<Longrightarrow> reg_owner s r = None"
    and "\<And>r. reg_owner s' r = (if r \<in> holds pc then Some t
                                else if r \<in> holds (reg_pc s t) then None else reg_owner s r)"
  shows "locks_ok s'"
proof -
  have own: "reg_owner s r = Some t' \<longleftrightarrow> r \<in> holds (reg_pc s t')" for r t'
    using assms(1) by (simp add: locks_ok_def)
  have "reg_owner s' r = Some t' \<longleftrightarrow> r \<in> holds (reg_pc s' t')" for r t'
    using own [of r t'] own [of r t] assms(3) [of r] by (auto simp: assms(2,4))
  then show ?thesis by (simp add: locks_ok_def)
qed

lemma fresh_holds: "fresh_ref pc = Some r \<Longrightarrow> r \<in> holds pc"
  by (cases pc) auto

lemma announcing_holds: "announcing pc = Some r \<Longrightarrow> r \<in> holds pc"
  by (cases pc) auto

lemma holds_known: "r \<in> holds pc \<Longrightarrow> fresh_ref pc = Some r \<or> r \<in> seen_refs pc"
  by (cases pc) auto

lemma pcs_frame:
  assumes "locks_ok s" and "pcs_ok s" and pc: "reg_pc s' = (reg_pc s)(t := pc)"
    and len: "length (reg_heap s) \<le> length (reg_heap s')"
    and keep: "\<And>r t'. reg_owner s r = Some t' \<Longrightarrow> t' \<noteq> t \<Longrightarrow>
          reg_seq s' r = reg_seq s r \<and> closed_conn s' r = closed_conn s r"
    and mono: "\<And>r. published s r \<Longrightarrow> published s' r \<and> (closed_conn s r \<longrightarrow> closed_conn s' r)"
    and own: "\<And>r. fresh_ref pc = Some r \<Longrightarrow>
          r < length (reg_heap s') \<and> reg_seq s' r = 0 \<and> \<not> closed_conn s' r"
      "\<And>r. r \<in> seen_refs pc \<Longrightarrow> published s' r"
      "\<And>r. announcing pc = Some r \<Longrightarrow> \<not> closed_conn s' r"
      "\<And>r. closing_ref pc = Some r \<Longrightarrow> closed_conn s' r"
  shows "pcs_ok s'"
  unfolding pcs_ok_def
proof (intro conjI allI impI ballI)
  note ok = assms(2) [unfolded pcs_ok_def]
  have held: "reg_owner s r = Some t'" if "r \<in> holds (reg_pc s t')" for r t'
    using assms(1) that by (simp add: locks_ok_def)
  fix t' r
  {
    assume f: "fresh_ref (reg_pc s' t') = Some r"
    have "r < length (reg_heap s') \<and> reg_seq s' r = 0 \<and> \<not> closed_conn s' r"
    proof (cases "t' = t")
      case True
      then show ?thesis using f own(1) pc by simp
    next
      case False
      then have f': "fresh_ref (reg_pc s t') = Some r" using f pc by simp
      then show ?thesis
        using ok keep [OF held [OF fresh_holds [OF f']] False] len by force
    qed
  }
  then show "fresh_ref (reg_pc s' t') = Some r \<Longrightarrow> r < length (reg_heap s')"
    "fresh_ref (reg_pc s' t') = Some r \<Longrightarrow> reg_seq s' r = 0"
    "fresh_ref (reg_pc s' t') = Some r \<Longrightarrow> \<not> closed_conn s' r" by simp_all
  show "r \<in> seen_refs (reg_pc s' t') \<Longrightarrow> published s' r"
    using own(2) mono ok pc by (cases "t' = t") auto
  show "announcing (reg_pc s' t') = Some r \<Longrightarrow> \<not> closed_conn s' r"
    using own(3) ok pc keep [OF held [OF announcing_holds]] by (cases "t' = t") auto
  have "r \<in> seen_refs q" if "closing_ref q = Some r" for q
    using that by (cases q) auto
  then have "published s r" if "closing_ref (reg_pc s t') = Some r"
    using that ok by blast
  then show "closing_ref (reg_pc s' t') = Some r \<Longrightarrow> closed_conn s' r"
    using own(4) [of r] mono [of r] ok pc by (cases "t' = t") auto
qed

lemma owner_bound:
  assumes "locks_ok s" and "pcs_ok s" and "reg_owner s r = Some t"
  shows "r < length (reg_heap s)"
proof -
  have "r \<in> holds (reg_pc s t)" using assms(1,3) by (simp add: locks_ok_def)
  then have "fresh_ref (reg_pc s t) = Some r \<or> r \<in> seen_refs (reg_pc s t)" by (rule holds_known)
  then show ?thesis using assms(2) unfolding pcs_ok_def published_def by blast
qed

lemma owner_new: "locks_ok s \<Longrightarrow> pcs_ok s \<Longrightarrow> reg_owner s (length (reg_heap s)) = None"
  using owner_bound [of s "length (reg_heap s)"] by (cases "reg_owner s (length (reg_heap s))") auto

lemma locks_owner: "locks_ok s \<Longrightarrow> r \<in> holds (reg_pc s t) \<Longrightarrow> reg_owner s r = Some t"
  by (simp add: locks_ok_def)

lemma fresh_not_seen:
  "pcs_ok s \<Longrightarrow> fresh_ref (reg_pc s t) = Some r \<Longrightarrow> r \<notin> seen_refs (reg_pc s t)"
  unfolding pcs_ok_def published_def by blast

lemma closing_not_announcing:
  assumes "pcs_ok s" and "announcing (reg_pc s t) = Some r" and "closing_ref (reg_pc s t) = Some old"
  shows "r \<noteq> old"
  using assms unfolding pcs_ok_def by metis

lemma locks_step:
  assumes l: "locks_ok s" and p: "pcs_ok s" and run: "registry_exec t a s = Some s'"
  shows "locks_ok s'"
proof (cases a rule: action_cases)
  case 1
  note frame = locks_frame [OF l, of _ t "reg_pc s' t"]
  from run 1 show ?thesis
    by (cases rule: add_cases)
      (use locks_owner [OF l] owner_new [OF l p] fresh_not_seen [OF p, of t]
          closing_not_announcing [OF p, of t] in
        \<open>auto simp: helper_defs intro!: frame split: option.splits\<close>)
next
  case 2
  note frame = locks_frame [OF l, of _ t "reg_pc s' t"]
  from run 2 show ?thesis
    by (cases rule: remove_cases) (use l locks_owner [OF l] in \<open>auto simp: helper_defs intro!: frame\<close>)
next
  case 3
  note frame = locks_frame [OF l, of _ t "reg_pc s' t"]
  from run 3 show ?thesis
  proof (cases rule: rest_cases)
    case (closed_all ds)
    then show ?thesis by (intro frame) (simp_all add: goto_def)
  qed (use l in \<open>auto simp: helper_defs intro!: frame\<close>)
qed

subsection \<open>Positions\<close>

lemma published_bound: "published s r \<Longrightarrow> r < length (reg_heap s)"
  by (simp add: published_def)

lemma seen_published: "pcs_ok s \<Longrightarrow> r \<in> seen_refs (reg_pc s t) \<Longrightarrow> published s r"
  by (auto simp: pcs_ok_def)

lemma fresh_facts:
  assumes "pcs_ok s" and "fresh_ref (reg_pc s t) = Some r"
  shows "r < length (reg_heap s)" "reg_seq s r = 0" "\<not> closed_conn s r"
  using assms by (auto simp: pcs_ok_def)

lemma announcing_open: "pcs_ok s \<Longrightarrow> announcing (reg_pc s t) = Some r \<Longrightarrow> \<not> closed_conn s r"
  by (auto simp: pcs_ok_def)

lemma closing_closed: "pcs_ok s \<Longrightarrow> closing_ref (reg_pc s t) = Some r \<Longrightarrow> closed_conn s r"
  by (auto simp: pcs_ok_def)

lemma conns_published: "live_ok s \<Longrightarrow> map_of (reg_conns s) d = Some r \<Longrightarrow> published s r"
  by (auto simp: live_ok_def)

text \<open>A step that only moves one goroutine, its locks, the events or the closed sockets.\<close>

lemma pcs_move:
  assumes "locks_ok s" and "pcs_ok s" and "reg_pc s' = (reg_pc s)(t := pc)"
    and "reg_heap s' = reg_heap s" and "reg_seq s' = reg_seq s"
    and "\<And>r. fresh_ref pc = Some r \<Longrightarrow> fresh_ref (reg_pc s t) = Some r"
    and "\<And>r. r \<in> seen_refs pc \<Longrightarrow> published s r"
    and "\<And>r. announcing pc = Some r \<Longrightarrow> announcing (reg_pc s t) = Some r"
    and "\<And>r. closing_ref pc = Some r \<Longrightarrow> closing_ref (reg_pc s t) = Some r"
  shows "pcs_ok s'"
proof -
  have eqs: "published s' r = published s r" "closed_conn s' r = closed_conn s r" for r
    using assms(4,5) by (simp_all add: published_def closed_conn_def)
  show ?thesis
    by (rule pcs_frame [OF assms(1,2,3)])
      (use assms(4-) eqs fresh_facts [OF assms(2), of t] announcing_open [OF assms(2), of t]
        closing_closed [OF assms(2), of t] in auto)
qed

lemma publish_view:
  "reg_seq (publish r s) x = (if x = r then Suc (reg_count s) else reg_seq s x)"
  "length (reg_heap (publish r s)) = length (reg_heap s)"
  "closed_conn (publish r s) x = closed_conn s x" "device_of (publish r s) x = device_of s x"
  "published (publish r s) x \<longleftrightarrow> published s x \<or> x = r \<and> r < length (reg_heap s)"
  "reg_pc (publish r s) = reg_pc s" "reg_owner (publish r s) = reg_owner s"
  "reg_closer (publish r s) = reg_closer s"
  "reg_conns (publish r s) = AList.update (device_of s r) r (reg_conns s)"
  by (auto simp: publish_def Let_def closed_conn_def device_of_def published_def nth_upd)

lemma set_closed_view:
  "reg_seq (set_closed r s) = reg_seq s" "length (reg_heap (set_closed r s)) = length (reg_heap s)"
  "closed_conn (set_closed r s) x \<longleftrightarrow> closed_conn s x \<or> x = r \<and> r < length (reg_heap s)"
  "device_of (set_closed r s) x = device_of s x"
  "published (set_closed r s) x = published s x"
  "reg_pc (set_closed r s) = reg_pc s" "reg_owner (set_closed r s) = reg_owner s"
  "reg_closer (set_closed r s) = reg_closer s" "reg_conns (set_closed r s) = reg_conns s"
  by (auto simp: set_closed_def closed_conn_def device_of_def published_def nth_upd)

lemma goto_view:
  "reg_seq (goto t pc s) = reg_seq s" "reg_heap (goto t pc s) = reg_heap s"
  "closed_conn (goto t pc s) x = closed_conn s x" "device_of (goto t pc s) x = device_of s x"
  "published (goto t pc s) x = published s x" "reg_pc (goto t pc s) = (reg_pc s)(t := pc)"
  "reg_owner (goto t pc s) = reg_owner s" "reg_closer (goto t pc s) = reg_closer s"
  "reg_conns (goto t pc s) = reg_conns s"
  by (simp_all add: goto_def closed_conn_def device_of_def published_def)

lemma conns_view:
  "closed_conn (s\<lparr>reg_conns := m\<rparr>) x = closed_conn s x" "device_of (s\<lparr>reg_conns := m\<rparr>) x = device_of s x"
  "published (s\<lparr>reg_conns := m\<rparr>) x = published s x"
  by (simp_all add: closed_conn_def device_of_def published_def)

lemmas views = publish_view set_closed_view goto_view conns_view

lemma pcs_step:
  assumes l: "locks_ok s" and p: "pcs_ok s" and v: "live_ok s" and n: "numbers_ok s"
    and run: "registry_exec t a s = Some s'"
  shows "pcs_ok s'"
proof (cases a rule: action_cases)
  case 1
  note move = pcs_move [OF l p, of _ t "reg_pc s' t"]
  from run 1 show ?thesis
  proof (cases rule: add_cases)
    case (start d c ver now)
    have "reg_seq s (length (reg_heap s)) = 0" using n by (simp add: numbers_ok_def)
    then show ?thesis
      by (intro pcs_frame [OF l p, of s' t "reg_pc s' t"])
        (use start owner_bound [OF l p] in
          \<open>auto simp: helper_defs new_conn_def published_def closed_conn_def nth_append\<close>)
  next
    case (first r)
    show ?thesis
      by (rule pcs_frame [OF l p, of s' t "reg_pc s' t"])
        (use first locks_owner [OF l, of r t] fresh_facts [OF p, of t r] in \<open>auto simp: views\<close>)
  next
    case (replace r old w ver)
    have "r \<noteq> old" using fresh_not_seen [OF p, of t r] replace(1) by auto
    then show ?thesis
      by (intro pcs_frame [OF l p, of s' t "reg_pc s' t"])
        (use replace locks_owner [OF l, of _ t] fresh_facts [OF p, of t r]
          seen_published [OF p, of old t] published_bound [of s old] in \<open>auto simp: views\<close>)
  qed (use seen_published [OF p, of _ t] conns_published [OF v] in
      \<open>auto simp: helper_defs intro!: move split: option.splits\<close>)
next
  case 2
  note move = pcs_move [OF l p, of _ t "reg_pc s' t"]
  from run 2 show ?thesis
  proof (cases rule: remove_cases)
    case (remove r)
    show ?thesis
      by (rule pcs_frame [OF l p, of s' t "reg_pc s' t"])
        (use remove locks_owner [OF l, of r t] seen_published [OF p, of r t] published_bound [of s r]
          in \<open>auto simp: views\<close>)
  qed (use p seen_published [OF p, of _ t] conns_published [OF v] in
      \<open>auto simp: helper_defs intro!: move\<close>)
next
  case 3
  note move = pcs_move [OF l p, of _ t "reg_pc s' t"]
  from run 3 show ?thesis
  proof (cases rule: rest_cases)
    case (mark r rest ds)
    show ?thesis
      by (rule pcs_frame [OF l p, of s' t "reg_pc s' t"])
        (use mark seen_published [OF p, of _ t] in \<open>auto simp: views\<close>)
  next
    case (closed_all ds)
    then show ?thesis by (intro pcs_move [OF l p, of _ t Ready]) (simp_all add: goto_def)
  next
    case shutdown
    have "published s x" if "x \<in> snd ` set (reg_conns s)" for x
      using that v by (auto simp: live_ok_def gomap_mem)
    then show ?thesis using shutdown by (auto simp: helper_defs intro!: move)
  qed (use p seen_published [OF p, of _ t] conns_published [OF v] in
      \<open>auto simp: helper_defs intro!: move\<close>)
qed

subsection \<open>The live connection of a device\<close>

lemma live_same:
  assumes "live_ok s" and "reg_heap s' = reg_heap s" and "reg_conns s' = reg_conns s"
    and "reg_seq s' = reg_seq s" and "reg_closer s' = None \<Longrightarrow> reg_closer s = None"
  shows "live_ok s'"
proof -
  have "published s' r = published s r" "closed_conn s' r = closed_conn s r"
    "device_of s' r = device_of s r" for r
    using assms(2,4) by (simp_all add: view_defs)
  then show ?thesis using assms(1,3,5) by (simp add: live_ok_def)
qed

lemma live_start:
  assumes "live_ok s" and "numbers_ok s"
  shows "live_ok (goto t pc (lock r t (s\<lparr>reg_heap := reg_heap s @ [dc]\<rparr>)))"
proof -
  let ?s = "goto t pc (lock r t (s\<lparr>reg_heap := reg_heap s @ [dc]\<rparr>))"
  have seq: "reg_seq s (length (reg_heap s)) = 0" using assms(2) by (simp add: numbers_ok_def)
  have "published ?s x \<longleftrightarrow> published s x" for x
    using seq by (cases "x = length (reg_heap s)") (auto simp: published_def goto_def lock_def)
  moreover have "closed_conn ?s x = closed_conn s x" "device_of ?s x = device_of s x"
    if "published s x" for x
    using that by (simp_all add: view_defs goto_def lock_def nth_append)
  moreover have "reg_conns ?s = reg_conns s" "reg_closer ?s = reg_closer s"
    by (simp_all add: goto_def lock_def)
  ultimately show ?thesis using assms(1) unfolding live_ok_def by simp metis
qed

lemma live_okI:
  assumes "gomap (reg_conns s)"
    and "\<And>d r. map_of (reg_conns s) d = Some r \<Longrightarrow> published s r"
    and "\<And>d r. map_of (reg_conns s) d = Some r \<Longrightarrow> device_of s r = d"
    and "\<And>d r. map_of (reg_conns s) d = Some r \<Longrightarrow> reg_closer s = None \<Longrightarrow> \<not> closed_conn s r"
    and "\<And>r. published s r \<Longrightarrow> \<not> closed_conn s r \<Longrightarrow> map_of (reg_conns s) (device_of s r) = Some r"
  shows "live_ok s"
  using assms unfolding live_ok_def by blast

lemma live_okD:
  assumes "live_ok s"
  shows "gomap (reg_conns s)"
    and "map_of (reg_conns s) d = Some r \<Longrightarrow> published s r"
    and "map_of (reg_conns s) d = Some r \<Longrightarrow> device_of s r = d"
    and "map_of (reg_conns s) d = Some r \<Longrightarrow> reg_closer s = None \<Longrightarrow> \<not> closed_conn s r"
    and "published s r \<Longrightarrow> \<not> closed_conn s r \<Longrightarrow> map_of (reg_conns s) (device_of s r) = Some r"
  using assms unfolding live_ok_def by blast+

text \<open>Publishing a connection whose device has no live one left.\<close>

lemma live_publish:
  assumes v: "live_ok s" and "reg_closer s = None" and r: "r < length (reg_heap s)" "\<not> closed_conn s r"
    and none: "map_of (reg_conns s) (device_of s r) = None"
  shows "live_ok (publish r s)"
proof (rule live_okI, goal_cases)
  case 1
  show ?case using live_okD(1) [OF v] by (simp add: publish_view gomap_update)
next
  case (2 d x)
  then show ?case using live_okD(2) [OF v, of d x] r by (auto simp: publish_view split: if_splits)
next
  case (3 d x)
  then show ?case using live_okD(3) [OF v, of d x] by (auto simp: publish_view split: if_splits)
next
  case (4 d x)
  then show ?case using live_okD(4) [OF v, of d x] assms(2) r by (auto simp: publish_view split: if_splits)
next
  case (5 x)
  then show ?case using live_okD(5) [OF v, of x] none by (auto simp: publish_view)
qed

lemma live_replace:
  assumes v: "live_ok s" and "reg_closer s = None" and r: "r < length (reg_heap s)" "\<not> closed_conn s r"
    and old: "map_of (reg_conns s) (device_of s r) = Some old" "old \<noteq> r"
  shows "live_ok (set_closed old (publish r s))"
proof -
  note view = publish_view set_closed_view
  have bound: "old < length (reg_heap s)" using published_bound live_okD(2) [OF v old(1)] by blast
  have dev: "device_of s old = device_of s r" by (rule live_okD(3) [OF v old(1)])
  show ?thesis
  proof (rule live_okI, goal_cases)
    case 1
    show ?case using live_okD(1) [OF v] by (simp add: view gomap_update)
  next
    case (2 d x)
    then show ?case using live_okD(2) [OF v, of d x] r by (auto simp: view split: if_splits)
  next
    case (3 d x)
    then show ?case using live_okD(3) [OF v, of d x] by (auto simp: view split: if_splits)
  next
    case (4 d x)
    then show ?case
      using live_okD(3,4) [OF v, of d x] assms(2) r old(2) dev by (auto simp: view split: if_splits)
  next
    case (5 x)
    then show ?case using live_okD(5) [OF v, of x] old bound by (auto simp: view)
  qed
qed

lemma live_remove:
  assumes v: "live_ok s" and r: "map_of (reg_conns s) (device_of s r) = Some r"
  shows "live_ok (set_closed r (s\<lparr>reg_conns := AList.delete (device_of s r) (reg_conns s)\<rparr>))"
proof -
  note view = set_closed_view conns_view
  have bound: "r < length (reg_heap s)" using published_bound live_okD(2) [OF v r] by blast
  show ?thesis
  proof (rule live_okI, goal_cases)
    case 1
    show ?case using live_okD(1) [OF v] by (simp add: view gomap_delete)
  next
    case (2 d x)
    then show ?case using live_okD(2) [OF v, of d x] by (auto simp: view split: if_splits)
  next
    case (3 d x)
    then show ?case using live_okD(3) [OF v, of d x] by (auto simp: view split: if_splits)
  next
    case (4 d x)
    then show ?case using live_okD(3,4) [OF v, of d x] by (auto simp: view split: if_splits)
  next
    case (5 x)
    then show ?case using live_okD(5) [OF v, of x] r bound by (auto simp: view)
  qed
qed

lemma live_step:
  assumes l: "locks_ok s" and p: "pcs_ok s" and v: "live_ok s" and n: "numbers_ok s" and c: "closer_ok s"
    and run: "registry_exec t a s = Some s'"
  shows "live_ok s'"
proof (cases a rule: action_cases)
  case 1
  from run 1 show ?thesis
  proof (cases rule: add_cases)
    case (start d c ver now)
    then show ?thesis using live_start [OF v n] by simp
  next
    case (first r)
    have "live_ok (publish r s)"
      by (rule live_publish [OF v first(2)]) (use first fresh_facts [OF p, of t r] in auto)
    then show ?thesis unfolding first(4) by (rule live_same) (simp_all add: goto_def)
  next
    case (replace r old w ver)
    have "old \<noteq> r" using fresh_not_seen [OF p, of t r] replace(1) by auto
    then have "live_ok (set_closed old (publish r s))"
      by (intro live_replace [OF v replace(2)]) (use replace fresh_facts [OF p, of t r] in auto)
    then show ?thesis unfolding replace(5) by (rule live_same) (simp_all add: goto_def)
  qed (auto simp: helper_defs intro!: live_same [OF v] split: option.splits)
next
  case 2
  from run 2 show ?thesis
  proof (cases rule: remove_cases)
    case (remove r)
    show ?thesis unfolding remove(4)
      by (rule live_same [OF live_remove [OF v remove(3)]]) (simp_all add: goto_def)
  qed (use v in \<open>auto simp: helper_defs intro!: live_same [OF v]\<close>)
next
  case 3
  from run 3 show ?thesis
  proof (cases rule: rest_cases)
    case (mark r rest ds)
    have "reg_closer s = Some t" using c mark(1) by (auto simp: closer_ok_def)
    then show ?thesis using v unfolding mark(3) live_ok_def by (auto simp: views)
  next
    case (closed_all ds)
    have all: "closed_conn s r" if "map_of (reg_conns s) d = Some r" for d r
      using c closed_all(1) that by (fastforce simp: closer_ok_def)
    have "published s' r = published s r" "closed_conn s' r = closed_conn s r" for r
      unfolding closed_all(2) by (simp_all add: goto_def view_defs)
    moreover have "reg_conns s' = []" unfolding closed_all(2) by (simp add: goto_def)
    moreover have "\<not> (published s r \<and> \<not> closed_conn s r)" for r
      using v all by (auto simp: live_ok_def)
    ultimately show ?thesis by (simp add: live_ok_def)
  qed (use v in \<open>auto simp: helper_defs intro!: live_same [OF v]\<close>)
qed

subsection \<open>Shutdown\<close>

fun shutting_down :: "registry_pc \<Rightarrow> bool" where
  "shutting_down (CloseMark todo ds) = True"
| "shutting_down _ = False"

lemma shutting_down_iff: "shutting_down pc \<longleftrightarrow> (\<exists>todo ds. pc = CloseMark todo ds)"
  by (cases pc) auto

lemma closer_okD:
  assumes "closer_ok s" and "reg_pc s t = CloseMark todo ds"
  shows "reg_closer s = Some t" and "map_of (reg_conns s) d = Some r \<Longrightarrow> r \<in> set todo \<or> closed_conn s r"
  using assms unfolding closer_ok_def by blast+

lemma closer_frame:
  assumes c: "closer_ok s" and pc: "reg_pc s' = (reg_pc s)(t := pc)"
    and "\<not> shutting_down pc" and "\<not> shutting_down (reg_pc s t)" and "reg_closer s' = reg_closer s"
    and "reg_closer s \<noteq> None \<Longrightarrow> reg_conns s' = reg_conns s"
    and "\<And>r. published s r \<Longrightarrow> closed_conn s r \<Longrightarrow> closed_conn s' r" and v: "live_ok s"
  shows "closer_ok s'"
proof -
  have "reg_closer s' = Some t' \<and> (\<forall>d r. map_of (reg_conns s') d = Some r \<longrightarrow> r \<in> set todo \<or> closed_conn s' r)"
    if "reg_pc s' t' = CloseMark todo ds" for t' todo ds
  proof -
    have old: "reg_pc s t' = CloseMark todo ds"
      using that pc assms(3) by (cases "t' = t") auto
    note d = closer_okD [OF c old]
    have "reg_conns s' = reg_conns s" using assms(6) d(1) by simp
    moreover have "r \<in> set todo \<or> closed_conn s' r" if "map_of (reg_conns s) d = Some r" for d r
      using d(2) [OF that] assms(7) [OF live_okD(2) [OF v that]] by blast
    ultimately show ?thesis using d(1) assms(5) by simp
  qed
  moreover have "shutting_down (reg_pc s' t')" if "reg_closer s' = Some t'" for t'
    using that c assms(3-5) pc unfolding closer_ok_def
    by (cases "t' = t") (auto simp: shutting_down_iff)
  ultimately show ?thesis unfolding closer_ok_def shutting_down_iff by blast
qed

lemma closer_step:
  assumes p: "pcs_ok s" and v: "live_ok s" and c: "closer_ok s" and run: "registry_exec t a s = Some s'"
  shows "closer_ok s'"
proof (cases a rule: action_cases)
  case 1
  note frame = closer_frame [OF c _ _ _ _ _ _ v, of _ t "reg_pc s' t"]
  from run 1 show ?thesis
  proof (cases rule: add_cases)
    case (start d co ver now)
    then show ?thesis
      by (intro frame) (auto simp: helper_defs closed_conn_def nth_append published_def)
  next
    case (first r)
    then show ?thesis by (intro frame) (auto simp: views)
  next
    case (replace r old w ver)
    then show ?thesis by (intro frame) (auto simp: views)
  qed (auto simp: helper_defs closed_conn_def intro!: frame split: option.splits)
next
  case 2
  note frame = closer_frame [OF c _ _ _ _ _ _ v, of _ t "reg_pc s' t"]
  from run 2 show ?thesis
  proof (cases rule: remove_cases)
    case (remove r)
    then show ?thesis by (intro frame) (auto simp: views)
  qed (use c in \<open>auto simp: helper_defs closed_conn_def intro!: frame\<close>)
next
  case 3
  note frame = closer_frame [OF c _ _ _ _ _ _ v, of _ t "reg_pc s' t"]
  from run 3 show ?thesis
  proof (cases rule: rest_cases)
    case shutdown
    then have others: "\<not> shutting_down (reg_pc s t')" for t'
      using c by (auto simp: closer_ok_def shutting_down_iff)
    have "r \<in> set (map snd (reg_conns s))" if "map_of (reg_conns s) d = Some r" for d r
      using map_of_SomeD [OF that] by force
    then show ?thesis
      using others unfolding closer_ok_def shutdown(3) by (auto simp: goto_def shutting_down_iff)
  next
    case (mark r rest ds)
    note d = closer_okD [OF c mark(1)]
    have "r < length (reg_heap s)"
      using seen_published [OF p, of r t] published_bound mark(1) by auto
    moreover have "t' = t" if "reg_pc s t' = CloseMark todo ds'" for t' todo ds'
      using closer_okD(1) [OF c that] d(1) by simp
    moreover have "\<forall>d x. map_of (reg_conns s) d = Some x \<longrightarrow> x = r \<or> x \<in> set rest \<or> closed_conn s x"
      using d(2) by auto
    ultimately show ?thesis
      using d(1) unfolding closer_ok_def mark(3) by (auto simp: views split: if_splits)
  next
    case (closed_all ds)
    note d = closer_okD [OF c closed_all(1)]
    have "\<not> shutting_down (reg_pc s t')" if "t' \<noteq> t" for t'
      using that closer_okD(1) [OF c] d(1) by (auto simp: shutting_down_iff)
    then show ?thesis
      unfolding closer_ok_def closed_all(2) by (auto simp: goto_def shutting_down_iff)
  qed (use c in \<open>auto simp: helper_defs closed_conn_def intro!: frame\<close>)
qed

subsection \<open>Generations\<close>

lemma numbers_okI:
  assumes "reg_nextGeneration s = of_nat (reg_count s)" and "\<And>r. reg_seq s r \<le> reg_count s"
    and "\<And>r. length (reg_heap s) \<le> r \<Longrightarrow> reg_seq s r = 0"
    and "\<And>r. published s r \<Longrightarrow> dc_generation (conn_of s r) = of_nat (reg_seq s r)"
    and "\<And>r r'. published s r \<Longrightarrow> reg_seq s r = reg_seq s r' \<Longrightarrow> r = r'"
  shows "numbers_ok s"
  using assms unfolding numbers_ok_def by blast

lemma numbers_okD:
  assumes "numbers_ok s"
  shows "reg_nextGeneration s = of_nat (reg_count s)" and "reg_seq s r \<le> reg_count s"
    and "length (reg_heap s) \<le> r \<Longrightarrow> reg_seq s r = 0"
    and "published s r \<Longrightarrow> dc_generation (conn_of s r) = of_nat (reg_seq s r)"
    and "published s r \<Longrightarrow> reg_seq s r = reg_seq s r' \<Longrightarrow> r = r'"
  using assms unfolding numbers_ok_def by blast+

lemma numbers_same:
  assumes n: "numbers_ok s" and seq: "reg_seq s' = reg_seq s" and "reg_count s' = reg_count s"
    and "reg_nextGeneration s' = reg_nextGeneration s" and len: "length (reg_heap s) \<le> length (reg_heap s')"
    and "\<And>r. r < length (reg_heap s) \<Longrightarrow> dc_generation (conn_of s' r) = dc_generation (conn_of s r)"
  shows "numbers_ok s'"
proof -
  have pub: "published s r" if "published s' r" for r
    using that numbers_okD(3) [OF n, of r] seq by (auto simp: published_def not_less [symmetric])
  show ?thesis
  proof (rule numbers_okI, goal_cases)
    case 1
    then show ?case using numbers_okD(1) [OF n] assms(3,4) by simp
  next
    case (2 r)
    then show ?case using numbers_okD(2) [OF n, of r] seq assms(3) by simp
  next
    case (3 r)
    then show ?case using numbers_okD(3) [OF n, of r] seq len by simp
  next
    case (4 r)
    then show ?case
      using numbers_okD(4) [OF n pub] assms(6) [OF published_bound [OF pub]] seq by simp
  next
    case (5 r r')
    then show ?case using numbers_okD(5) [OF n pub, of r r'] seq by simp
  qed
qed

lemma numbers_publish:
  assumes n: "numbers_ok s" and r: "r < length (reg_heap s)" "reg_seq s r = 0"
  shows "numbers_ok (publish r s)"
proof (rule numbers_okI, goal_cases)
  case 1
  show ?case using numbers_okD(1) [OF n] by (simp add: publish_def Let_def)
next
  case (2 x)
  show ?case using numbers_okD(2) [OF n, of x] by (simp add: publish_def Let_def)
next
  case (3 x)
  then show ?case using numbers_okD(3) [OF n, of x] r by (auto simp: publish_view)
next
  case (4 x)
  then show ?case
    using numbers_okD(1) [OF n] numbers_okD(4) [OF n, of x] r
    by (auto simp: publish_def Let_def published_def nth_upd)
next
  case (5 x y)
  then show ?case
    using numbers_okD(5) [OF n, of x y] numbers_okD(2) [OF n, of x] numbers_okD(2) [OF n, of y]
    by (auto simp: publish_view split: if_splits)
qed

lemma numbers_step:
  assumes p: "pcs_ok s" and n: "numbers_ok s" and run: "registry_exec t a s = Some s'"
  shows "numbers_ok s'"
proof -
  have set_closed: "numbers_ok (set_closed r u)" if "numbers_ok u" for r u
    by (rule numbers_same [OF that]) (auto simp: set_closed_def nth_upd)
  note same = numbers_same [OF n]
  show ?thesis
  proof (cases a rule: action_cases)
    case 1
    from run 1 show ?thesis
    proof (cases rule: add_cases)
      case (first r)
      have "numbers_ok (publish r s)"
        by (rule numbers_publish [OF n]) (use first fresh_facts [OF p, of t r] in auto)
      then show ?thesis unfolding first(4) by (rule numbers_same) (auto simp: goto_def)
    next
      case (replace r old w v)
      have "numbers_ok (publish r s)"
        by (rule numbers_publish [OF n]) (use replace fresh_facts [OF p, of t r] in auto)
      then have "numbers_ok (set_closed old (publish r s))" by (rule set_closed)
      then show ?thesis unfolding replace(5) by (rule numbers_same) (auto simp: goto_def)
    qed (auto simp: helper_defs nth_append intro!: same split: option.splits)
  next
    case 2
    from run 2 show ?thesis
      by (cases rule: remove_cases) (use n in \<open>auto simp: helper_defs nth_upd intro!: same\<close>)
  next
    case 3
    from run 3 show ?thesis
      by (cases rule: rest_cases) (use n in \<open>auto simp: helper_defs nth_upd intro!: same\<close>)
  qed
qed

interpretation registry: step_invariant registry_step registry_inv
proof
  show "registry_inv s \<Longrightarrow> registry_step s s' \<Longrightarrow> registry_inv s'" for s s'
    unfolding registry_step_def registry_inv_def
    using locks_step pcs_step live_step closer_step numbers_step by blast
qed

lemma registry_inv_new: "registry_inv (NewConnectionManagerWithPolicy policy)"
  by (simp add: registry_inv_def inv_parts NewConnectionManagerWithPolicy_def published_def)

lemma registry_reach:
  "registry_step\<^sup>*\<^sup>* (NewConnectionManagerWithPolicy policy) s \<Longrightarrow> registry_inv s"
  using registry.steps_keep registry_inv_new by blast

section \<open>What the registry promises\<close>

text \<open>C16. One live connection per device.  In every interleaving of registrations, removals,
  shutdown and sends, two handed-out connections of one device that are both not closed are the
  same, it is the one the registry holds, and no two connections ever handed out share a
  generation before the 64-bit counter wraps.\<close>

theorem one_live_connection:
  assumes "registry_step\<^sup>*\<^sup>* (NewConnectionManagerWithPolicy policy) s"
    and "published s r" and "published s r'"
  shows "(\<not> closed_conn s r \<and> \<not> closed_conn s r' \<and> device_of s r = device_of s r' \<longrightarrow>
            r = r' \<and> map_of (reg_conns s) (device_of s r) = Some r)
    \<and> (dc_generation (conn_of s r) = dc_generation (conn_of s r') \<and> reg_count s < 2 ^ 64 \<longrightarrow> r = r')"
proof -
  have inv: "live_ok s" "numbers_ok s"
    using registry_reach [OF assms(1)] by (simp_all add: registry_inv_def)
  have lt: "reg_seq s x < 2 ^ 64" if "reg_count s < 2 ^ 64" for x
    using numbers_okD(2) [OF inv(2), of x] that by simp
  have "reg_seq s r = reg_seq s r'"
    if "dc_generation (conn_of s r) = dc_generation (conn_of s r')" "reg_count s < 2 ^ 64"
  proof -
    have "(of_nat (reg_seq s r) :: uint64) = of_nat (reg_seq s r')"
      using that(1) numbers_okD(4) [OF inv(2) assms(2)] numbers_okD(4) [OF inv(2) assms(3)] by simp
    then show ?thesis
      using lt [OF that(2), of r] lt [OF that(2), of r']
      by (simp add: word_of_nat_eq_iff take_bit_eq_mod)
  qed
  then have gen: "r = r'"
    if "dc_generation (conn_of s r) = dc_generation (conn_of s r')" "reg_count s < 2 ^ 64"
    using that numbers_okD(5) [OF inv(2) assms(2), of r'] by blast
  have live: "r = r' \<and> map_of (reg_conns s) (device_of s r) = Some r"
    if "\<not> closed_conn s r" "\<not> closed_conn s r'" "device_of s r = device_of s r'"
  proof -
    have r: "map_of (reg_conns s) (device_of s r) = Some r"
      by (rule live_okD(5) [OF inv(1) assms(2) that(1)])
    have "map_of (reg_conns s) (device_of s r) = Some r'"
      unfolding that(3) by (rule live_okD(5) [OF inv(1) assms(3) that(2)])
    then have "Some r = Some r'" by (rule trans [OF r [symmetric]])
    then show ?thesis using r by blast
  qed
  show ?thesis using gen live by blast
qed


section \<open>Order of the announcements\<close>

fun announced :: "registry_event list \<Rightarrow> ref list" where
  "announced [] = []"
| "announced (DeviceUp r # es) = r # announced es"
| "announced (DeviceVersionChange r # es) = r # announced es"
| "announced (_ # es) = announced es"

lemma announced_append [simp]: "announced (es @ fs) = announced es @ announced fs"
  by (induction es rule: announced.induct) simp_all

definition announce_ok :: "registry \<Rightarrow> bool" where
  "announce_ok s \<longleftrightarrow>
     (\<forall>r \<in> set (announced (reg_events s)). published s r)
     \<and> (\<forall>d. sorted_wrt (<)
          (map (reg_seq s) (filter (\<lambda>r. device_of s r = d) (announced (reg_events s)))))
     \<and> (\<forall>t r. announcing (reg_pc s t) = Some r \<longrightarrow>
          (\<forall>r' \<in> set (announced (reg_events s)). device_of s r' = device_of s r \<longrightarrow>
             reg_seq s r' < reg_seq s r))"

lemma step_stable:
  assumes p: "pcs_ok s" and run: "registry_exec t a s = Some s'" and r: "published s r"
  shows "device_of s' r = device_of s r" and "reg_seq s' r = reg_seq s r" and "published s' r"
proof -
  have *: "device_of s' r = device_of s r \<and> reg_seq s' r = reg_seq s r
    \<and> length (reg_heap s) \<le> length (reg_heap s')"
  proof (cases a rule: action_cases)
    case 1
    from run 1 show ?thesis
      by (cases rule: add_cases)
        (use r fresh_facts(2) [OF p, of t] in
          \<open>auto simp: helper_defs view_defs nth_append nth_upd split: option.splits\<close>)
  next
    case 2
    from run 2 show ?thesis
      by (cases rule: remove_cases) (auto simp: helper_defs view_defs nth_upd)
  next
    case 3
    from run 3 show ?thesis
      by (cases rule: rest_cases) (auto simp: helper_defs view_defs nth_upd)
  qed
  then show "device_of s' r = device_of s r" "reg_seq s' r = reg_seq s r" "published s' r"
    using r by (auto simp: published_def)
qed

lemma step_pc: "registry_exec t a s = Some s' \<Longrightarrow> t' \<noteq> t \<Longrightarrow> reg_pc s' t' = reg_pc s t'"
proof (cases a rule: action_cases)
  case 1
  assume "registry_exec t a s = Some s'" "t' \<noteq> t"
  with 1 show ?thesis
    by (elim add_cases) (auto simp: helper_defs split: option.splits)
next
  case 2
  assume "registry_exec t a s = Some s'" "t' \<noteq> t"
  with 2 show ?thesis by (elim remove_cases) (auto simp: helper_defs)
next
  case 3
  assume "registry_exec t a s = Some s'" "t' \<noteq> t"
  with 3 show ?thesis by (elim rest_cases) (auto simp: helper_defs)
qed

abbreviation told :: "registry \<Rightarrow> ref list" where
  "told s \<equiv> announced (reg_events s)"

lemma announcing_seen: "announcing pc = Some r \<Longrightarrow> r \<in> seen_refs pc"
  by (cases pc) auto

lemma announce_frame:
  assumes ok: "announce_ok s" and p: "pcs_ok s" and run: "registry_exec t a s = Some s'"
    and told: "told s' = told s"
    and new: "\<And>r. announcing (reg_pc s' t) = Some r \<Longrightarrow>
      announcing (reg_pc s t) = Some r \<or> (\<forall>x. reg_seq s x < reg_seq s' r)"
  shows "announce_ok s'"
proof -
  note stable = step_stable [OF p run]
  have pub: "published s r" if "r \<in> set (told s)" for r
    using ok that by (simp add: announce_ok_def)
  have "filter (\<lambda>r. device_of s' r = d) (told s) = filter (\<lambda>r. device_of s r = d) (told s)" for d
    by (rule filter_cong) (use stable(1) [OF pub] in auto)
  moreover have "map (reg_seq s') (filter (\<lambda>r. device_of s r = d) (told s))
      = map (reg_seq s) (filter (\<lambda>r. device_of s r = d) (told s))" for d
    by (rule map_cong) (use stable(2) [OF pub] in auto)
  ultimately have sorted: "sorted_wrt (<) (map (reg_seq s') (filter (\<lambda>r. device_of s' r = d) (told s')))" for d
    using ok unfolding announce_ok_def told by metis
  have "reg_seq s' r' < reg_seq s' r"
    if r: "announcing (reg_pc s' t') = Some r" and r': "r' \<in> set (told s')" "device_of s' r' = device_of s' r"
    for t' r r'
  proof (cases "announcing (reg_pc s t') = Some r")
    case True
    then have "published s r" using seen_published [OF p announcing_seen] by blast
    then have "reg_seq s r' < reg_seq s r"
      using ok True r' stable(1) [OF pub] stable(1) [of r] unfolding announce_ok_def told by metis
    then show ?thesis
      using stable(2) [OF pub, of r'] stable(2) [OF \<open>published s r\<close>] r'(1) told by simp
  next
    case False
    then have "t' = t" using r step_pc [OF run, of t'] by metis
    then have "\<forall>x. reg_seq s x < reg_seq s' r" using new r False by blast
    then show ?thesis using stable(2) [OF pub, of r'] r'(1) told by simp
  qed
  then show ?thesis
    using sorted stable(3) [OF pub] unfolding announce_ok_def told by blast
qed

lemma announce_last:
  assumes ok: "announce_ok s" and l: "locks_ok s" and p: "pcs_ok s" and v: "live_ok s"
    and pc: "reg_pc s t = AddFinish r w ver" and e: "announced [e] = [r]"
  shows "announce_ok (goto t Ready (unlock r (emit e s)))"
proof -
  let ?s = "goto t Ready (unlock r (emit e s))"
  have view: "told ?s = told s @ [r]" "reg_seq ?s = reg_seq s" "device_of ?s x = device_of s x"
    "published ?s x = published s x" "reg_pc ?s = (reg_pc s)(t := Ready)" for x
    using e by (simp_all add: helper_defs view_defs)
  have r: "published s r" "\<not> closed_conn s r"
    using seen_published [OF p, of r t] announcing_open [OF p, of t r] pc by simp_all
  have below: "reg_seq s r' < reg_seq s r" if "r' \<in> set (told s)" "device_of s r' = device_of s r" for r'
    using ok that pc unfolding announce_ok_def by (metis announcing.simps(2))
  have sorted: "sorted_wrt (<) (map (reg_seq ?s) (filter (\<lambda>r. device_of ?s r = d) (told ?s)))" for d
    using ok below unfolding view announce_ok_def by (auto simp: sorted_wrt_append)
  have other: "device_of s r2 \<noteq> device_of s r" if "t' \<noteq> t" "announcing (reg_pc s t') = Some r2" for t' r2
  proof
    assume dev: "device_of s r2 = device_of s r"
    have r2: "published s r2" "\<not> closed_conn s r2"
      using seen_published [OF p announcing_seen [OF that(2)]] announcing_open [OF p that(2)] by simp_all
    have "Some r2 = Some r"
      using live_okD(5) [OF v r2] live_okD(5) [OF v r] unfolding dev by (rule subst)
    then have "reg_owner s r = Some t'" "reg_owner s r = Some t"
      using locks_owner [OF l announcing_holds [OF that(2)]] locks_owner [OF l, of r t] pc by simp_all
    then show False using that(1) by simp
  qed
  have "reg_seq s r' < reg_seq s r2"
    if "announcing (reg_pc ?s t') = Some r2" "r' \<in> set (told ?s)" "device_of s r' = device_of s r2" for t' r2 r'
  proof -
    have t': "t' \<noteq> t" "announcing (reg_pc s t') = Some r2"
      using that(1) unfolding view by (auto split: if_splits)
    then have "r' \<in> set (told s)" using that(2,3) other [OF t'] unfolding view by auto
    then show ?thesis using ok t' that(3) unfolding announce_ok_def by blast
  qed
  then show ?thesis
    using sorted ok r(1) unfolding announce_ok_def view by auto
qed

lemma announce_step:
  assumes ok: "announce_ok s" and inv: "registry_inv s" and run: "registry_exec t a s = Some s'"
  shows "announce_ok s'"
proof -
  have l: "locks_ok s" and p: "pcs_ok s" and v: "live_ok s" and n: "numbers_ok s"
    using inv by (simp_all add: registry_inv_def)
  note frame = announce_frame [OF ok p run]
  have top: "reg_seq s x < Suc (reg_count s)" for x using numbers_okD(2) [OF n, of x] by simp
  show ?thesis
  proof (cases a rule: action_cases)
    case 1
    from run 1 show ?thesis
    proof (cases rule: add_cases)
      case (announce r w ver)
      show ?thesis unfolding announce(3) by (rule announce_last [OF ok l p v announce(1)]) simp
    qed (rule frame; use top in \<open>auto simp: helper_defs split: option.splits\<close>)+
  next
    case 2
    from run 2 show ?thesis
      by (cases rule: remove_cases) (rule frame; auto simp: helper_defs)+
  next
    case 3
    from run 3 show ?thesis
      by (cases rule: rest_cases) (rule frame; auto simp: helper_defs)+
  qed
qed

interpretation announcements: step_invariant registry_step "\<lambda>s. registry_inv s \<and> announce_ok s"
proof
  show "registry_inv s \<and> announce_ok s \<Longrightarrow> registry_step s s' \<Longrightarrow> registry_inv s' \<and> announce_ok s'" for s s'
    using registry.step_keeps announce_step unfolding registry_step_def by blast
qed

text \<open>Announcements in order.  The online and version notices that subscribers of a device get are
  in the order in which its connections were published, each connection at most once, however
  replacements race with the notifications: an older version is never announced after a newer.\<close>

theorem announcements_in_order:
  assumes "registry_step\<^sup>*\<^sup>* (NewConnectionManagerWithPolicy policy) s"
  shows "sorted_wrt (<) (map (reg_seq s)
           (filter (\<lambda>r. device_of s r = d) (announced (reg_events s))))"
proof -
  have "announce_ok (NewConnectionManagerWithPolicy policy)"
    by (simp add: announce_ok_def NewConnectionManagerWithPolicy_def)
  then show ?thesis
    using announcements.steps_keep [OF assms] registry_inv_new by (simp add: announce_ok_def)
qed

section \<open>The reject policy\<close>

definition unreplaced :: "registry \<Rightarrow> bool" where
  "unreplaced s \<longleftrightarrow> reg_policy s = RejectNew
     \<and> (\<forall>t r old w v. reg_pc s t \<noteq> AddCloseOld r old w v)
     \<and> (\<forall>r. ConnectionReplaced r \<notin> set (reg_events s))"

lemma unreplaced_step:
  assumes u: "unreplaced s" and inv: "registry_inv s" and run: "registry_exec t a s = Some s'"
  shows "unreplaced s'"
proof -
  have v: "live_ok s" using inv by (simp add: registry_inv_def)
  show ?thesis
  proof (cases a rule: action_cases)
    case 1
    from run 1 show ?thesis
    proof (cases rule: add_cases)
      case (replace r old w ver)
      then have "closed_conn s old" using u by (simp add: unreplaced_def)
      then show ?thesis using live_okD(4) [OF v replace(3,2)] by blast
    qed (use u in \<open>auto simp: unreplaced_def helper_defs split: option.splits\<close>)
  next
    case 2
    from run 2 show ?thesis
      by (cases rule: remove_cases) (use u in \<open>auto simp: unreplaced_def helper_defs\<close>)
  next
    case 3
    from run 3 show ?thesis
      by (cases rule: rest_cases) (use u in \<open>auto simp: unreplaced_def helper_defs\<close>)
  qed
qed

interpretation rejecting: step_invariant registry_step "\<lambda>s. registry_inv s \<and> unreplaced s"
proof
  show "registry_inv s \<and> unreplaced s \<Longrightarrow> registry_step s s' \<Longrightarrow> registry_inv s' \<and> unreplaced s'" for s s'
    using registry.step_keeps unreplaced_step unfolding registry_step_def by blast
qed

text \<open>Under the reject policy a copied credential cannot displace a connected machine: no
  interleaving of any number of registrations ever replaces a live connection.\<close>

theorem reject_new_never_replaces:
  assumes "registry_step\<^sup>*\<^sup>* (NewConnectionManagerWithPolicy RejectNew) s"
  shows "ConnectionReplaced r \<notin> set (reg_events s)"
proof -
  have "unreplaced (NewConnectionManagerWithPolicy RejectNew)"
    by (simp add: unreplaced_def NewConnectionManagerWithPolicy_def)
  then show ?thesis
    using rejecting.steps_keep [OF assms] registry_inv_new by (simp add: unreplaced_def)
qed

section \<open>Two races\<close>

lemma run_reaches: "registry_run as s = Some s' \<Longrightarrow> registry_step\<^sup>*\<^sup>* s s'"
proof (induction as arbitrary: s)
  case (Cons a as)
  obtain t act where a: "a = (t, act)" by force
  then obtain u where u: "registry_exec t act s = Some u" "registry_run as u = Some s'"
    using Cons.prems by (auto split: option.splits)
  then have "registry_step s u" by (auto simp: registry_step_def)
  then show ?case using Cons.IH [OF u(2)] by (rule converse_rtranclp_into_rtranclp)
qed simp

lemmas run_defs = add_begin_def add_observe_def add_lock_old_def add_publish_def add_close_old_def
  add_finish_def remove_observe_def remove_lock_def remove_commit_def remove_close_def
  remove_notify_def close_begin_def close_mark_def send_observe_def SafeWriteDaemon_def
  writeDaemonGeneration_def helper_defs device_of_def closed_conn_def isLiveDaemonLocked_def
  new_conn_def NewConnectionManagerWithPolicy_def

abbreviation connect :: "thread \<Rightarrow> socket \<Rightarrow> (thread \<times> registry_action) list" where
  "connect t c \<equiv> [(t, Add ''dev'' (Some c) ''1'' 0), (t, Observe), (t, LockOld), (t, Publish)]"

text \<open>A daemon is being registered while the server shuts down.\<close>

definition demo_shutdown :: registry where
  "demo_shutdown =
     (case registry_run (connect 0 7 @ [(1, Shutdown)]) (NewConnectionManagerWithPolicy ReplaceExisting)
      of Some s \<Rightarrow> s | None \<Rightarrow> NewConnectionManagerWithPolicy ReplaceExisting)"

lemma demo_shutdown_run:
  "registry_run (connect 0 7 @ [(1, Shutdown)]) (NewConnectionManagerWithPolicy ReplaceExisting)
   = Some demo_shutdown"
  by (simp add: demo_shutdown_def run_defs)

lemma demo_shutdown_pcs:
  "reg_pc demo_shutdown 0 = AddFinish 0 False []" "reg_pc demo_shutdown 1 = CloseMark [0] [0]"
  by (simp_all add: demo_shutdown_def run_defs)

lemma deadlock_step:
  assumes inv: "registry_inv s" and pcs: "reg_pc s 0 = AddFinish 0 False []" "reg_pc s 1 = CloseMark [0] [0]"
    and run: "registry_exec t a s = Some s'"
  shows "reg_pc s' 0 = AddFinish 0 False [] \<and> reg_pc s' 1 = CloseMark [0] [0]"
proof -
  have l: "locks_ok s" and c: "closer_ok s" using inv by (simp_all add: registry_inv_def)
  have held: "reg_owner s 0 = Some 0" using locks_owner [OF l, of 0 0] pcs(1) by simp
  have closer: "reg_closer s = Some 1" by (rule closer_okD(1) [OF c pcs(2)])
  have "t \<noteq> 0"
  proof
    assume "t = 0"
    then show False
      using run pcs(1) closer by (cases a) (auto simp: run_defs)
  qed
  moreover have "t \<noteq> 1"
  proof
    assume "t = 1"
    then show False
      using run pcs(2) held by (cases a) (auto simp: run_defs)
  qed
  ultimately show ?thesis using step_pc [OF run] pcs by simp
qed

interpretation deadlocked: step_invariant registry_step
    "\<lambda>s. registry_inv s \<and> reg_pc s 0 = AddFinish 0 False [] \<and> reg_pc s 1 = CloseMark [0] [0]"
proof
  fix s s'
  assume s: "registry_inv s \<and> reg_pc s 0 = AddFinish 0 False [] \<and> reg_pc s 1 = CloseMark [0] [0]"
    and st: "registry_step s s'"
  then have "registry_inv s'" using registry.step_keeps by blast
  moreover obtain t a where "registry_exec t a s = Some s'" using st by (auto simp: registry_step_def)
  ultimately show "registry_inv s' \<and> reg_pc s' 0 = AddFinish 0 False [] \<and> reg_pc s' 1 = CloseMark [0] [0]"
    using deadlock_step s by blast
qed

text \<open>Shutdown can deadlock.  \<open>Close\<close> takes \<open>cm.mu\<close> and then each \<open>dc.mu\<close>, while a registration that
  has published its connection holds \<open>dc.mu\<close> and takes \<open>cm.mu\<close> to announce it.  There is a run after
  which both goroutines wait for each other in every later state, whatever others do.\<close>

theorem shutdown_deadlock:
  "\<exists>s. registry_step\<^sup>*\<^sup>* (NewConnectionManagerWithPolicy ReplaceExisting) s
     \<and> {s'. registry_step\<^sup>*\<^sup>* s s'}
       \<subseteq> {s'. reg_pc s' 0 = AddFinish 0 False [] \<and> reg_pc s' 1 = CloseMark [0] [0]}"
proof (intro exI conjI subsetI CollectI)
  show reach: "registry_step\<^sup>*\<^sup>* (NewConnectionManagerWithPolicy ReplaceExisting) demo_shutdown"
    by (rule run_reaches [OF demo_shutdown_run])
  fix s' assume "s' \<in> {s'. registry_step\<^sup>*\<^sup>* demo_shutdown s'}"
  then have "registry_step\<^sup>*\<^sup>* demo_shutdown s'" by simp
  from deadlocked.steps_keep [OF this] demo_shutdown_pcs registry_reach [OF reach]
  show "reg_pc s' 0 = AddFinish 0 False []" "reg_pc s' 1 = CloseMark [0] [0]" by blast+
qed

text \<open>A daemon reconnects while the handler of its old connection is about to report it offline.\<close>

definition demo_offline :: registry where
  "demo_offline =
     (case registry_run
        (connect 0 7 @ [(0, FinishAdd), (1, Remove ''dev'' (Some 7)), (1, RemoveLock),
         (1, RemoveCommit), (1, RemoveCloseConn)] @ connect 2 8 @ [(2, FinishAdd), (1, RemoveDone)])
        (NewConnectionManagerWithPolicy ReplaceExisting)
      of Some s \<Rightarrow> s | None \<Rightarrow> NewConnectionManagerWithPolicy ReplaceExisting)"

lemma demo_offline_run:
  "registry_run
     (connect 0 7 @ [(0, FinishAdd), (1, Remove ''dev'' (Some 7)), (1, RemoveLock),
      (1, RemoveCommit), (1, RemoveCloseConn)] @ connect 2 8 @ [(2, FinishAdd), (1, RemoveDone)])
     (NewConnectionManagerWithPolicy ReplaceExisting) = Some demo_offline"
  by (simp add: demo_offline_def run_defs)

text \<open>A device can be reported offline while it is online.  \<open>RemoveDaemon\<close> calls its callback after
  it has released both mutexes; a reconnect in between is announced first, so the last notice its
  subscribers get is offline, with every goroutine done and the new connection live.\<close>

theorem stale_offline_notice:
  "\<exists>s r r'. registry_step\<^sup>*\<^sup>* (NewConnectionManagerWithPolicy ReplaceExisting) s
     \<and> (\<forall>t. reg_pc s t = Ready) \<and> reg_events s = [DeviceUp r, DeviceUp r', DeviceDown r]
     \<and> device_of s r = device_of s r' \<and> isLiveDaemonLocked s r'"
proof (intro exI conjI)
  show "registry_step\<^sup>*\<^sup>* (NewConnectionManagerWithPolicy ReplaceExisting) demo_offline"
    by (rule run_reaches [OF demo_offline_run])
  show "\<forall>t. reg_pc demo_offline t = Ready" by (simp add: demo_offline_def run_defs)
  show "reg_events demo_offline = [DeviceUp 0, DeviceUp 1, DeviceDown 0]"
    by (simp add: demo_offline_def run_defs)
  show "device_of demo_offline 0 = device_of demo_offline 1"
    by (simp add: demo_offline_def run_defs)
  show "isLiveDaemonLocked demo_offline 1" by (simp add: demo_offline_def run_defs)
qed

section \<open>Concrete runs\<close>

lemma demo_offline_reach:
  "registry_step\<^sup>*\<^sup>* (NewConnectionManagerWithPolicy ReplaceExisting) demo_offline"
  by (rule run_reaches [OF demo_offline_run])

theorem one_live_connection_witness:
  "published demo_offline 0 \<and> published demo_offline 1
   \<and> dc_generation (conn_of demo_offline 0) \<noteq> dc_generation (conn_of demo_offline 1)"
proof -
  have pub: "published demo_offline 0" "published demo_offline 1" and n: "reg_count demo_offline = 2"
    by (simp_all add: demo_offline_def run_defs published_def)
  show ?thesis using one_live_connection [OF demo_offline_reach pub] pub n by auto
qed

theorem announcements_in_order_witness:
  "announced (reg_events demo_offline) = [0, 1] \<and> reg_seq demo_offline 0 < reg_seq demo_offline 1"
proof -
  have a: "announced (reg_events demo_offline) = [0, 1]" "device_of demo_offline 0 = ''dev''"
    "device_of demo_offline 1 = ''dev''"
    by (simp_all add: demo_offline_def run_defs)
  show ?thesis using announcements_in_order [OF demo_offline_reach, of "''dev''"] a by simp
qed

definition demo_sending :: registry where
  "demo_sending =
     (case registry_run (connect 0 7 @ [(0, FinishAdd), (1, Send ''dev'')])
        (NewConnectionManagerWithPolicy RejectNew)
      of Some s \<Rightarrow> s | None \<Rightarrow> NewConnectionManagerWithPolicy RejectNew)"

lemma demo_sending_reach:
  "registry_step\<^sup>*\<^sup>* (NewConnectionManagerWithPolicy RejectNew) demo_sending"
proof -
  have "registry_run (connect 0 7 @ [(0, FinishAdd), (1, Send ''dev'')])
      (NewConnectionManagerWithPolicy RejectNew) = Some demo_sending"
    by (simp add: demo_sending_def run_defs)
  then show ?thesis by (rule run_reaches)
qed


theorem reject_new_never_replaces_witness:
  "ConnectionReplaced 0 \<notin> set (reg_events demo_sending)"
  by (rule reject_new_never_replaces [OF demo_sending_reach])

end
