(* ===== verification/Phone_Registry.thy ===== *)
theory Phone_Registry
  imports Phone_Outbound
begin

text \<open>
  The registry of phone sockets (\<open>relaycore/connections.go\<close>: \<open>AddPhoneAuthenticated\<close>,
  \<open>RemovePhone\<close>, \<open>ResubscribePhone\<close>, \<open>dropPhone\<close>, \<open>ClosePhonesByPrincipal\<close>,
  \<open>BroadcastToPhones\<close>, \<open>SafeWritePhone\<close>).

  Three maps are kept in step under \<open>cm.mu\<close>: the sockets subscribed to each device, the outbound
  queue of each socket and the phone each socket was authenticated as.  A socket is a number.  An
  outbound queue is the record of theory Phone_Outbound; one that leaves the map is closed by the
  caller after the lock is released and stays with its writer goroutine, so it moves to
  \<open>pr_stopped\<close>.  \<open>pr_closed\<close> lists the sockets that were closed.

  \<open>withoutPhoneConn\<close> reuses the array of its argument; that array belongs to one entry of the map
  and \<open>BroadcastToPhones\<close> works on a copy, so the filtered list is all there is to it.
\<close>

section \<open>State\<close>

type_synonym phone_socket = nat

record phonePrincipal =
  pp_PhoneID :: string
  pp_AdminBypass :: bool

record phone_registry =
  pr_phoneConns :: "(string, phone_socket list) gomap"
  pr_phoneOutbounds :: "(phone_socket, phoneOutbound) gomap"
  pr_phonePrincipals :: "(phone_socket, phonePrincipal) gomap"
  pr_stopped :: "(phone_socket \<times> phoneOutbound) list"
  pr_closed :: "phone_socket list"

definition maxPhoneConnsPerDevice :: nat where
  "maxPhoneConnsPerDevice = 8"

definition new_phones :: phone_registry where
  "new_phones = \<lparr>pr_phoneConns = [], pr_phoneOutbounds = [], pr_phonePrincipals = [],
     pr_stopped = [], pr_closed = []\<rparr>"

definition subscribers :: "phone_registry \<Rightarrow> string \<Rightarrow> phone_socket list" where
  "subscribers s deviceID = (case map_of (pr_phoneConns s) deviceID of None \<Rightarrow> [] | Some cs \<Rightarrow> cs)"

text \<open>An empty list is stored by deleting the entry.\<close>

definition set_subscribers ::
  "string \<Rightarrow> phone_socket list \<Rightarrow> (string, phone_socket list) gomap \<Rightarrow> (string, phone_socket list) gomap" where
  "set_subscribers deviceID cs m =
     (if cs = [] then AList.delete deviceID m else AList.update deviceID cs m)"

definition withoutPhoneConn :: "phone_socket list \<Rightarrow> phone_socket \<Rightarrow> phone_socket list" where
  "withoutPhoneConn conns target = filter (\<lambda>c. c \<noteq> target) conns"

definition phoneStillSubscribedLocked :: "phone_registry \<Rightarrow> phone_socket \<Rightarrow> bool" where
  "phoneStillSubscribedLocked s conn = (\<exists>(d, cs) \<in> set (pr_phoneConns s). conn \<in> set cs)"

text \<open>Taking a socket's queue and principal out of the maps, and closing what was taken out.\<close>

definition forget :: "phone_socket \<Rightarrow> phone_registry \<Rightarrow> phone_registry" where
  "forget conn s =
     s\<lparr>pr_phoneOutbounds := AList.delete conn (pr_phoneOutbounds s),
       pr_phonePrincipals := AList.delete conn (pr_phonePrincipals s)\<rparr>"

definition stop_outbound :: "phone_socket \<Rightarrow> phoneOutbound option \<Rightarrow> phone_registry \<Rightarrow> phone_registry" where
  "stop_outbound conn out s =
     (case out_close out of None \<Rightarrow> s | Some o' \<Rightarrow> s\<lparr>pr_stopped := pr_stopped s @ [(conn, o')]\<rparr>)"

definition close_phone :: "phone_socket \<Rightarrow> phone_registry \<Rightarrow> phone_registry" where
  "close_phone conn s = s\<lparr>pr_closed := pr_closed s @ [conn]\<rparr>"

section \<open>Operations\<close>

lemma subscribers_set [simp]:
  "subscribers (s\<lparr>pr_phoneConns := set_subscribers d cs m\<rparr>) d = cs"
  by (simp add: subscribers_def set_subscribers_def)

lemma subscribers_forget [simp]: "subscribers (forget c s) d = subscribers s d"
  by (simp add: subscribers_def forget_def)

function evictExcess ::
  "string \<Rightarrow> phone_registry \<Rightarrow> phone_socket list \<Rightarrow> (phone_socket \<times> phoneOutbound) list
   \<Rightarrow> phone_registry \<times> phone_socket list \<times> (phone_socket \<times> phoneOutbound) list" where
  "evictExcess deviceID s closeConns stopped =
     (if length (subscribers s deviceID) \<le> maxPhoneConnsPerDevice then (s, closeConns, stopped)
      else let oldest = hd (subscribers s deviceID);
               rest = tl (subscribers s deviceID);
               s = s\<lparr>pr_phoneConns := set_subscribers deviceID rest (pr_phoneConns s)\<rparr>;
               gone = (\<not> phoneStillSubscribedLocked s oldest);
               out = (if gone then map_of (pr_phoneOutbounds s) oldest else None);
               s = (if gone then forget oldest s else s)
           in evictExcess deviceID s (closeConns @ [oldest])
                (stopped @ (case out of None \<Rightarrow> [] | Some o' \<Rightarrow> [(oldest, o')])))"
  by pat_completeness auto

termination
  by (relation "measure (\<lambda>(d, s, _, _). length (subscribers s d))") (auto simp: Let_def)

declare evictExcess.simps [simp del]

definition finishPhoneEviction ::
  "phone_socket list \<Rightarrow> (phone_socket \<times> phoneOutbound) list \<Rightarrow> phone_registry \<Rightarrow> phone_registry" where
  "finishPhoneEviction closeConns stopped s =
     fold close_phone closeConns (fold (\<lambda>(c, o'). stop_outbound c (Some o')) stopped s)"

definition add_subscription :: "string \<Rightarrow> phone_socket \<Rightarrow> phone_registry \<Rightarrow> phone_registry" where
  "add_subscription deviceID conn s =
     s\<lparr>pr_phoneConns := set_subscribers deviceID (subscribers s deviceID @ [conn]) (pr_phoneConns s)\<rparr>"

definition ensure_outbound :: "phone_socket \<Rightarrow> phone_registry \<Rightarrow> phone_registry" where
  "ensure_outbound conn s =
     (if map_of (pr_phoneOutbounds s) conn = None
      then s\<lparr>pr_phoneOutbounds := AList.update conn newPhoneOutbound (pr_phoneOutbounds s)\<rparr>
      else s)"

definition evict_and_finish :: "string \<Rightarrow> phone_registry \<Rightarrow> phone_registry" where
  "evict_and_finish deviceID s =
     (case evictExcess deviceID s [] [] of
        (s, closeConns, stopped) \<Rightarrow> finishPhoneEviction closeConns stopped s)"

definition AddPhoneAuthenticated ::
  "string \<Rightarrow> phone_socket \<Rightarrow> string \<Rightarrow> bool \<Rightarrow> phone_registry \<Rightarrow> phone_registry" where
  "AddPhoneAuthenticated deviceID conn phoneID adminBypass s =
     (let s = add_subscription deviceID conn s;
          s = s\<lparr>pr_phonePrincipals := AList.update conn
                  \<lparr>pp_PhoneID = phoneID, pp_AdminBypass = adminBypass\<rparr> (pr_phonePrincipals s)\<rparr>;
          s = ensure_outbound conn s
      in evict_and_finish deviceID s)"

definition AddPhone :: "string \<Rightarrow> phone_socket \<Rightarrow> phone_registry \<Rightarrow> phone_registry" where
  "AddPhone deviceID conn s = AddPhoneAuthenticated deviceID conn [] True s"

definition RemovePhone :: "string \<Rightarrow> phone_socket \<Rightarrow> phone_registry \<Rightarrow> phone_registry" where
  "RemovePhone deviceID conn s =
     (let s = s\<lparr>pr_phoneConns := set_subscribers deviceID
                  (withoutPhoneConn (subscribers s deviceID) conn) (pr_phoneConns s)\<rparr>
      in if phoneStillSubscribedLocked s conn then s
         else stop_outbound conn (map_of (pr_phoneOutbounds s) conn) (forget conn s))"

definition unsubscribe_all :: "phone_socket \<Rightarrow> phone_registry \<Rightarrow> phone_registry" where
  "unsubscribe_all conn s =
     s\<lparr>pr_phoneConns := filter (\<lambda>(d, cs). cs \<noteq> [])
          (map (\<lambda>(d, cs). (d, withoutPhoneConn cs conn)) (pr_phoneConns s))\<rparr>"

definition ResubscribePhone :: "string \<Rightarrow> phone_socket \<Rightarrow> phone_registry \<Rightarrow> phone_registry" where
  "ResubscribePhone deviceID conn s =
     evict_and_finish deviceID
       (ensure_outbound conn (add_subscription deviceID conn (unsubscribe_all conn s)))"

definition dropPhone :: "phone_socket \<Rightarrow> phone_registry \<Rightarrow> phone_registry" where
  "dropPhone conn s =
     (let s = unsubscribe_all conn s
      in close_phone conn (stop_outbound conn (map_of (pr_phoneOutbounds s) conn) (forget conn s)))"

definition authenticated_as :: "string \<Rightarrow> phonePrincipal \<Rightarrow> bool" where
  "authenticated_as phoneID p \<longleftrightarrow> \<not> pp_AdminBypass p \<and> pp_PhoneID p = phoneID"

definition ClosePhonesByPrincipal :: "string \<Rightarrow> phone_registry \<Rightarrow> phone_registry \<times> nat" where
  "ClosePhonesByPrincipal phoneID s =
     (if phoneID = [] then (s, 0)
      else let conns = map fst (filter (\<lambda>(c, p). authenticated_as phoneID p) (pr_phonePrincipals s))
           in (fold dropPhone conns s, length conns))"

definition send_frame :: "string \<Rightarrow> phone_socket \<Rightarrow> phone_registry \<Rightarrow> phone_registry" where
  "send_frame data conn s =
     (case map_of (pr_phoneOutbounds s) conn of
        None \<Rightarrow> s
      | Some out \<Rightarrow>
          (case enqueuePhone (Some out) data of
             (Some out', True) \<Rightarrow> s\<lparr>pr_phoneOutbounds := AList.update conn out' (pr_phoneOutbounds s)\<rparr>
           | (Some out', False) \<Rightarrow>
               dropPhone conn (s\<lparr>pr_phoneOutbounds := AList.update conn out' (pr_phoneOutbounds s)\<rparr>)
           | (None, _) \<Rightarrow> s))"

text \<open>\<open>json.Marshal\<close> of the message is a parameter; \<open>None\<close> is its error.\<close>

definition SafeWritePhone ::
  "('msg \<Rightarrow> string option) \<Rightarrow> phone_socket \<Rightarrow> 'msg \<Rightarrow> phone_registry \<Rightarrow> phone_registry" where
  "SafeWritePhone marshal conn msg s =
     (if map_of (pr_phoneOutbounds s) conn = None then s
      else (case marshal msg of None \<Rightarrow> s | Some data \<Rightarrow> send_frame data conn s))"

definition BroadcastToPhones ::
  "('msg \<Rightarrow> string option) \<Rightarrow> string \<Rightarrow> 'msg \<Rightarrow> phone_registry \<Rightarrow> phone_registry" where
  "BroadcastToPhones marshal deviceID msg s =
     (case marshal msg of
        None \<Rightarrow> s
      | Some data \<Rightarrow> fold (send_frame data) (subscribers s deviceID) s)"

definition PhoneSubscriptionCounts :: "phone_registry \<Rightarrow> string \<Rightarrow> nat \<times> nat" where
  "PhoneSubscriptionCounts s deviceID =
     (length (subscribers s deviceID), length (pr_phoneOutbounds s))"

definition close_phones :: "phone_registry \<Rightarrow> phone_registry" where
  "close_phones s = fold dropPhone (map fst (pr_phoneOutbounds s)) s"

section \<open>Subscriptions as a function\<close>

lemma subscribers_upd:
  "subscribers (s\<lparr>pr_phoneConns := set_subscribers d cs (pr_phoneConns s)\<rparr>) = (subscribers s)(d := cs)"
  by (auto simp: subscribers_def set_subscribers_def fun_eq_iff)

lemma subscribers_fields [simp]:
  "subscribers (s\<lparr>pr_phoneOutbounds := x\<rparr>) = subscribers s"
  "subscribers (s\<lparr>pr_phonePrincipals := y\<rparr>) = subscribers s"
  "subscribers (s\<lparr>pr_stopped := z\<rparr>) = subscribers s" "subscribers (s\<lparr>pr_closed := w\<rparr>) = subscribers s"
  by (simp_all add: subscribers_def fun_eq_iff)

definition conns_ok :: "phone_registry \<Rightarrow> bool" where
  "conns_ok s \<longleftrightarrow> gomap (pr_phoneConns s) \<and> (\<forall>(d, cs) \<in> set (pr_phoneConns s). cs \<noteq> [])"

lemma conns_ok_set:
  assumes "conns_ok s"
  shows "conns_ok (s\<lparr>pr_phoneConns := set_subscribers d cs (pr_phoneConns s)\<rparr>)"
  using assms
  by (auto simp: conns_ok_def set_subscribers_def gomap_delete gomap_update set_update_gomap
      set_delete_gomap)

lemma still_subscribed:
  assumes "conns_ok s"
  shows "phoneStillSubscribedLocked s c \<longleftrightarrow> (\<exists>d. c \<in> set (subscribers s d))"
proof -
  have mem: "(d, cs) \<in> set (pr_phoneConns s) \<longleftrightarrow> map_of (pr_phoneConns s) d = Some cs" for d cs
    by (rule gomap_mem) (use assms in \<open>simp add: conns_ok_def\<close>)
  have "(\<exists>cs. map_of (pr_phoneConns s) d = Some cs \<and> c \<in> set cs) \<longleftrightarrow> c \<in> set (subscribers s d)" for d
    by (cases "map_of (pr_phoneConns s) d") (simp_all add: subscribers_def)
  then show ?thesis unfolding phoneStillSubscribedLocked_def using mem by blast
qed

lemma map_of_nonempty:
  assumes "distinct (map fst m)"
  shows "map_of (filter (\<lambda>(d, cs). cs \<noteq> []) (map (\<lambda>(d, cs). (d, f cs)) m)) d
    = (case map_of m d of None \<Rightarrow> None | Some cs \<Rightarrow> if f cs = [] then None else Some (f cs))"
  using assms
proof (induction m)
  case (Cons p m)
  obtain k v where p: "p = (k, v)" by force
  have "map_of m k = None" using Cons.prems p by (simp add: map_of_eq_None_iff)
  then show ?case using Cons p by (auto split: option.splits)
qed simp

lemma subscribers_unsubscribe:
  assumes "conns_ok s"
  shows "subscribers (unsubscribe_all c s) d = filter (\<lambda>x. x \<noteq> c) (subscribers s d)"
proof -
  have "distinct (map fst (pr_phoneConns s))" using assms by (simp add: conns_ok_def gomap_def)
  from map_of_nonempty [OF this, of "\<lambda>cs. withoutPhoneConn cs c" d]
  show ?thesis
    by (auto simp: unsubscribe_all_def subscribers_def withoutPhoneConn_def split: option.splits)
qed

lemma conns_ok_unsubscribe:
  assumes "conns_ok s"
  shows "conns_ok (unsubscribe_all c s)"
proof -
  have "gomap (map (\<lambda>(d, cs). (d, withoutPhoneConn cs c)) (pr_phoneConns s))"
    using assms gomap_map_value [of "pr_phoneConns s" "\<lambda>d cs. withoutPhoneConn cs c"]
    by (simp add: conns_ok_def)
  then show ?thesis by (auto simp: conns_ok_def unsubscribe_all_def gomap_filter)
qed

section \<open>The invariant\<close>

text \<open>
  \<open>phones_ok\<close>: a socket has an outbound queue exactly while it is subscribed, its principal is
  recorded only while it has one, queues in the map are open and stopped ones closed.
\<close>

definition phones_ok :: "phone_registry \<Rightarrow> bool" where
  "phones_ok s \<longleftrightarrow> conns_ok s \<and> gomap (pr_phoneOutbounds s) \<and> gomap (pr_phonePrincipals s)
     \<and> (\<forall>c. map_of (pr_phoneOutbounds s) c \<noteq> None \<longleftrightarrow> (\<exists>d. c \<in> set (subscribers s d)))
     \<and> (\<forall>c. map_of (pr_phonePrincipals s) c \<noteq> None \<longrightarrow> map_of (pr_phoneOutbounds s) c \<noteq> None)
     \<and> (\<forall>c out. map_of (pr_phoneOutbounds s) c = Some out \<longrightarrow> \<not> po_closed out)
     \<and> (\<forall>(c, out) \<in> set (pr_stopped s). po_closed out)"

definition bounded :: "phone_registry \<Rightarrow> bool" where
  "bounded s \<longleftrightarrow> (\<forall>d. length (subscribers s d) \<le> maxPhoneConnsPerDevice)"

lemma phones_okI:
  assumes "conns_ok s" and "gomap (pr_phoneOutbounds s)" and "gomap (pr_phonePrincipals s)"
    and "\<And>c d. c \<in> set (subscribers s d) \<Longrightarrow> map_of (pr_phoneOutbounds s) c \<noteq> None"
    and "\<And>c out. map_of (pr_phoneOutbounds s) c = Some out \<Longrightarrow>
           (\<exists>d. c \<in> set (subscribers s d)) \<and> \<not> po_closed out"
    and "\<And>c p. map_of (pr_phonePrincipals s) c = Some p \<Longrightarrow> map_of (pr_phoneOutbounds s) c \<noteq> None"
    and "\<And>c out. (c, out) \<in> set (pr_stopped s) \<Longrightarrow> po_closed out"
  shows "phones_ok s"
  using assms unfolding phones_ok_def by fastforce

lemma phones_okD:
  assumes "phones_ok s"
  shows "conns_ok s" and "gomap (pr_phoneOutbounds s)" and "gomap (pr_phonePrincipals s)"
    and "c \<in> set (subscribers s d) \<Longrightarrow> map_of (pr_phoneOutbounds s) c \<noteq> None"
    and "map_of (pr_phoneOutbounds s) c = Some out \<Longrightarrow>
           (\<exists>d. c \<in> set (subscribers s d)) \<and> \<not> po_closed out"
    and "map_of (pr_phonePrincipals s) c = Some p \<Longrightarrow> map_of (pr_phoneOutbounds s) c \<noteq> None"
    and "(c, out) \<in> set (pr_stopped s) \<Longrightarrow> po_closed out"
  using assms unfolding phones_ok_def by blast+

lemma stop_outbound_view [simp]:
  "pr_phoneConns (stop_outbound c out s) = pr_phoneConns s"
  "pr_phoneOutbounds (stop_outbound c out s) = pr_phoneOutbounds s"
  "pr_phonePrincipals (stop_outbound c out s) = pr_phonePrincipals s"
  "pr_closed (stop_outbound c out s) = pr_closed s"
  "subscribers (stop_outbound c out s) = subscribers s"
  by (simp_all add: stop_outbound_def subscribers_def split: option.split)

lemma phones_same:
  assumes ok: "phones_ok s" and "pr_phoneConns s' = pr_phoneConns s"
    and "pr_phoneOutbounds s' = pr_phoneOutbounds s" and "pr_phonePrincipals s' = pr_phonePrincipals s"
    and "\<And>c out. (c, out) \<in> set (pr_stopped s') \<Longrightarrow> po_closed out"
  shows "phones_ok s'"
proof -
  have "subscribers s' = subscribers s" using assms(2) by (simp add: subscribers_def fun_eq_iff)
  then show ?thesis using ok assms(2-4) assms(5) unfolding phones_ok_def conns_ok_def by auto
qed

lemma stopped_closed:
  assumes "phones_ok s" shows "phones_ok (stop_outbound c out s)"
proof (rule phones_same [OF assms])
  fix c' o' assume "(c', o') \<in> set (pr_stopped (stop_outbound c out s))"
  then show "po_closed o'"
    using phones_okD(7) [OF assms, of c' o']
    by (auto simp: stop_outbound_def out_close_def split: option.splits if_splits)
qed simp_all

lemma close_phone_ok [simp]: "phones_ok (close_phone c s) = phones_ok s"
  by (simp add: phones_ok_def conns_ok_def close_phone_def)

lemma close_phone_view [simp]:
  "subscribers (close_phone c s) = subscribers s"
  "pr_phoneOutbounds (close_phone c s) = pr_phoneOutbounds s"
  "pr_phonePrincipals (close_phone c s) = pr_phonePrincipals s"
  by (simp_all add: close_phone_def)

text \<open>Forgetting a socket that is no longer subscribed, whatever else the maps hold.\<close>

definition almost_ok :: "phone_socket \<Rightarrow> phone_registry \<Rightarrow> bool" where
  "almost_ok c s \<longleftrightarrow> conns_ok s \<and> gomap (pr_phoneOutbounds s) \<and> gomap (pr_phonePrincipals s)
     \<and> (\<forall>x d. x \<in> set (subscribers s d) \<longrightarrow> map_of (pr_phoneOutbounds s) x \<noteq> None)
     \<and> (\<forall>x out. map_of (pr_phoneOutbounds s) x = Some out \<longrightarrow>
          (x = c \<or> (\<exists>d. x \<in> set (subscribers s d))) \<and> \<not> po_closed out)
     \<and> (\<forall>x p. map_of (pr_phonePrincipals s) x = Some p \<longrightarrow> map_of (pr_phoneOutbounds s) x \<noteq> None)
     \<and> (\<forall>(x, out) \<in> set (pr_stopped s). po_closed out)"

lemma forget_ok:
  assumes "almost_ok c s" and "\<And>d. c \<notin> set (subscribers s d)"
  shows "phones_ok (forget c s)"
proof (rule phones_okI, goal_cases)
  case 1
  then show ?case using assms(1) by (simp add: almost_ok_def conns_ok_def forget_def)
next
  case 2
  then show ?case using assms(1) by (simp add: almost_ok_def forget_def gomap_delete)
next
  case 3
  then show ?case using assms(1) by (simp add: almost_ok_def forget_def gomap_delete)
next
  case (4 x d)
  then have "x \<in> set (subscribers s d)" by simp
  moreover have "x \<noteq> c" using assms(2) calculation by blast
  ultimately show ?case using assms(1) unfolding almost_ok_def by (simp add: forget_def) blast
next
  case (5 x out)
  then have "x \<noteq> c" "map_of (pr_phoneOutbounds s) x = Some out"
    by (simp_all add: forget_def split: if_splits)
  then show ?case using assms(1) unfolding almost_ok_def subscribers_forget by blast
next
  case (6 x p)
  then have "x \<noteq> c" "map_of (pr_phonePrincipals s) x = Some p"
    by (simp_all add: forget_def split: if_splits)
  then show ?case using assms(1) unfolding almost_ok_def by (simp add: forget_def)
next
  case (7 x out)
  then show ?case using assms(1) by (auto simp: almost_ok_def forget_def)
qed

lemma almost_ok_kept:
  "almost_ok c s \<Longrightarrow> c \<in> set (subscribers s d) \<Longrightarrow> phones_ok s"
  unfolding almost_ok_def by (intro phones_okI) blast+

lemma almost_from:
  assumes ok: "phones_ok s" and "conns_ok u"
    and "pr_phoneOutbounds u = pr_phoneOutbounds s" and "pr_phonePrincipals u = pr_phonePrincipals s"
    and "pr_stopped u = pr_stopped s"
    and sub: "\<And>x d. x \<in> set (subscribers u d) \<Longrightarrow> \<exists>d. x \<in> set (subscribers s d)"
    and sup: "\<And>x d. x \<in> set (subscribers s d) \<Longrightarrow> x = c \<or> (\<exists>d. x \<in> set (subscribers u d))"
  shows "almost_ok c u"
proof -
  have "map_of (pr_phoneOutbounds s) x \<noteq> None" if "x \<in> set (subscribers u d)" for x d
    using sub [OF that] phones_okD(4) [OF ok] by blast
  moreover have "(x = c \<or> (\<exists>d. x \<in> set (subscribers u d))) \<and> \<not> po_closed out"
    if "map_of (pr_phoneOutbounds s) x = Some out" for x out
    using phones_okD(5) [OF ok that] sup by blast
  ultimately show ?thesis
    unfolding almost_ok_def assms(3-5) using assms(2) phones_okD(2,3,6,7) [OF ok] by blast
qed

section \<open>The operations keep it\<close>

lemma unsubscribe_almost:
  assumes "phones_ok s"
  shows "almost_ok c (unsubscribe_all c s)" and "c \<notin> set (subscribers (unsubscribe_all c s) d)"
proof -
  have sub: "subscribers (unsubscribe_all c s) d = filter (\<lambda>x. x \<noteq> c) (subscribers s d)" for d
    by (rule subscribers_unsubscribe [OF phones_okD(1) [OF assms]])
  show "almost_ok c (unsubscribe_all c s)"
    by (rule almost_from [OF assms conns_ok_unsubscribe [OF phones_okD(1) [OF assms]]])
      (auto simp: sub, simp_all add: unsubscribe_all_def)
  show "c \<notin> set (subscribers (unsubscribe_all c s) d)" unfolding sub by simp
qed

lemma dropPhone_ok:
  assumes "phones_ok s"
  shows "phones_ok (dropPhone c s)"
proof -
  have "phones_ok (forget c (unsubscribe_all c s))"
    by (rule forget_ok [OF unsubscribe_almost(1) [OF assms]]) (rule unsubscribe_almost(2) [OF assms])
  then show ?thesis unfolding dropPhone_def Let_def by (simp add: stopped_closed)
qed

lemma dropPhone_view:
  assumes "conns_ok s"
  shows "subscribers (dropPhone c s) d = filter (\<lambda>x. x \<noteq> c) (subscribers s d)"
    and "pr_phoneOutbounds (dropPhone c s) = AList.delete c (pr_phoneOutbounds s)"
    and "pr_phonePrincipals (dropPhone c s) = AList.delete c (pr_phonePrincipals s)"
    and "pr_closed (dropPhone c s) = pr_closed s @ [c]"
  using subscribers_unsubscribe [OF assms]
  by (simp_all add: dropPhone_def Let_def forget_def subscribers_forget [unfolded forget_def]
      close_phone_def unsubscribe_all_def)

lemma RemovePhone_ok:
  assumes ok: "phones_ok s"
  shows "phones_ok (RemovePhone d c s)"
proof -
  let ?u = "s\<lparr>pr_phoneConns := set_subscribers d (withoutPhoneConn (subscribers s d) c) (pr_phoneConns s)\<rparr>"
  have sub: "subscribers ?u = (subscribers s)(d := withoutPhoneConn (subscribers s d) c)"
    by (rule subscribers_upd)
  have conns: "conns_ok ?u" by (rule conns_ok_set [OF phones_okD(1) [OF ok]])
  have almost: "almost_ok c ?u"
  proof (rule almost_from [OF ok conns])
    show "\<exists>d. x \<in> set (subscribers s d)" if "x \<in> set (subscribers ?u d')" for x d'
      using that unfolding sub by (auto simp: withoutPhoneConn_def split: if_splits)
    show "x = c \<or> (\<exists>d. x \<in> set (subscribers ?u d))" if "x \<in> set (subscribers s d')" for x d'
      using that unfolding sub by (auto simp: withoutPhoneConn_def)
  qed simp_all
  show ?thesis
  proof (cases "phoneStillSubscribedLocked ?u c")
    case True
    then have "phones_ok ?u" using almost_ok_kept [OF almost] still_subscribed [OF conns] by blast
    then show ?thesis using True by (simp add: RemovePhone_def)
  next
    case False
    then have "phones_ok (forget c ?u)"
      using forget_ok [OF almost] still_subscribed [OF conns] by blast
    then show ?thesis using False by (simp add: RemovePhone_def stopped_closed)
  qed
qed

text \<open>The eviction loop: it drops the oldest subscribers beyond eight and nothing else.\<close>

lemma evict_step_ok:
  assumes ok: "phones_ok s" and sub: "subscribers s d = c # rest"
  defines "u \<equiv> s\<lparr>pr_phoneConns := set_subscribers d rest (pr_phoneConns s)\<rparr>"
  defines "w \<equiv> (if phoneStillSubscribedLocked u c then u else forget c u)"
  shows "phones_ok w" and "subscribers w = (subscribers s)(d := rest)"
    and "pr_stopped w = pr_stopped s" and "pr_closed w = pr_closed s"
proof -
  have subu: "subscribers u = (subscribers s)(d := rest)" unfolding u_def by (rule subscribers_upd)
  have conns: "conns_ok u" unfolding u_def by (rule conns_ok_set [OF phones_okD(1) [OF ok]])
  have almost: "almost_ok c u"
  proof (rule almost_from [OF ok conns])
    show "\<exists>d. x \<in> set (subscribers s d)" if "x \<in> set (subscribers u d')" for x d'
      using that sub unfolding subu by (metis fun_upd_apply list.set_intros(2))
    show "x = c \<or> (\<exists>d. x \<in> set (subscribers u d))" if "x \<in> set (subscribers s d')" for x d'
      using that sub unfolding subu by (metis fun_upd_apply set_ConsD)
  qed (simp_all add: u_def)
  show "phones_ok w"
    using almost_ok_kept [OF almost] forget_ok [OF almost] still_subscribed [OF conns]
    unfolding w_def by (metis (full_types))
  show "subscribers w = (subscribers s)(d := rest)"
    unfolding w_def using subu by (simp add: fun_eq_iff)
  show "pr_stopped w = pr_stopped s" "pr_closed w = pr_closed s"
    by (simp_all add: w_def u_def forget_def)
qed

lemma evict_unroll:
  assumes "\<not> length (subscribers s d) \<le> maxPhoneConnsPerDevice" and "subscribers s d = c # rest"
  defines "u \<equiv> s\<lparr>pr_phoneConns := set_subscribers d rest (pr_phoneConns s)\<rparr>"
  shows "\<exists>st'. evictExcess d s cc st
    = evictExcess d (if phoneStillSubscribedLocked u c then u else forget c u) (cc @ [c]) st'"
  using assms(1,2) unfolding evictExcess.simps [of d s cc st] u_def Let_def by auto

lemma evictExcess_effect:
  assumes "phones_ok s" and "evictExcess d s cc st = (s', cc', st')"
  shows "phones_ok s'
    \<and> subscribers s' = (subscribers s)
        (d := drop (length (subscribers s d) - maxPhoneConnsPerDevice) (subscribers s d))
    \<and> cc' = cc @ take (length (subscribers s d) - maxPhoneConnsPerDevice) (subscribers s d)
    \<and> pr_closed s' = pr_closed s"
  using assms
proof (induction "length (subscribers s d)" arbitrary: s cc st rule: less_induct)
  case less
  show ?case
  proof (cases "length (subscribers s d) \<le> maxPhoneConnsPerDevice")
    case True
    then show ?thesis using less.prems by (simp add: evictExcess.simps [of d s cc st])
  next
    case False
    then obtain c rest where sub: "subscribers s d = c # rest"
      by (cases "subscribers s d") auto
    define u where "u = s\<lparr>pr_phoneConns := set_subscribers d rest (pr_phoneConns s)\<rparr>"
    define w where "w = (if phoneStillSubscribedLocked u c then u else forget c u)"
    obtain st2 where rec: "evictExcess d w (cc @ [c]) st2 = (s', cc', st')"
      using evict_unroll [OF False sub, of cc st] less.prems(2) unfolding w_def u_def by metis
    note w = evict_step_ok [OF less.prems(1) sub, folded u_def, folded w_def]
    have wd: "subscribers w d = rest" using w(2) by simp
    have n: "length (subscribers s d) - maxPhoneConnsPerDevice
        = Suc (length rest - maxPhoneConnsPerDevice)"
      using False sub by simp
    have "length (subscribers w d) < length (subscribers s d)" using wd sub by simp
    from less.hyps [OF this w(1) rec]
    show ?thesis using w(2,4) sub n unfolding wd by simp
  qed
qed

lemma almost_weaken: "phones_ok s \<Longrightarrow> almost_ok c s"
  by (rule almost_from) (auto simp: phones_okD)

lemma subscribe_ok:
  assumes a: "almost_ok c s"
    and "pr_phonePrincipals s' = pr_phonePrincipals s
      \<or> pr_phonePrincipals s' = AList.update c p (pr_phonePrincipals s)"
    and "pr_phoneConns s' = pr_phoneConns (add_subscription d c s)"
    and "pr_phoneOutbounds s' = pr_phoneOutbounds (ensure_outbound c s)" and "pr_stopped s' = pr_stopped s"
  shows "phones_ok s'" and "subscribers s' = (subscribers s)(d := subscribers s d @ [c])"
proof -
  note ok = a [unfolded almost_ok_def]
  have "subscribers (add_subscription d c s) = (subscribers s)(d := subscribers s d @ [c])"
    unfolding add_subscription_def by (rule subscribers_upd)
  then show sub: "subscribers s' = (subscribers s)(d := subscribers s d @ [c])"
    using assms(3) by (simp add: subscribers_def fun_eq_iff)
  have conns: "conns_ok s'"
    using conns_ok_set [of s] ok assms(3) by (simp add: conns_ok_def add_subscription_def)
  have outs: "map_of (pr_phoneOutbounds s') x
      = (if x = c \<and> map_of (pr_phoneOutbounds s) x = None then Some newPhoneOutbound
         else map_of (pr_phoneOutbounds s) x)" for x
    by (auto simp: assms(4) ensure_outbound_def)
  have princ: "map_of (pr_phonePrincipals s') x \<noteq> None \<longrightarrow>
      x = c \<or> map_of (pr_phonePrincipals s) x \<noteq> None" for x
    using assms(2) by auto
  show "phones_ok s'"
  proof (rule phones_okI, goal_cases)
    case 1
    show ?case by (rule conns)
  next
    case 2
    then show ?case using ok by (simp add: assms(4) ensure_outbound_def gomap_update)
  next
    case 3
    then show ?case using ok assms(2) by (auto simp: gomap_update)
  next
    case (4 x d')
    then show ?case using ok unfolding outs sub by (auto split: if_splits)
  next
    case (5 x out)
    have "\<exists>d. c \<in> set (subscribers s' d)" unfolding sub by (rule exI [of _ d]) simp
    moreover have "\<exists>d. x \<in> set (subscribers s' d)" if "\<exists>d. x \<in> set (subscribers s d)"
      using that unfolding sub by (metis Un_iff fun_upd_apply set_append)
    moreover have "\<not> po_closed newPhoneOutbound" by (simp add: newPhoneOutbound_def)
    ultimately show ?case using ok 5 unfolding outs by (metis option.inject)
  next
    case (6 x p')
    then have "x = c \<or> map_of (pr_phonePrincipals s) x \<noteq> None" using princ [of x] by simp
    then show ?case using ok unfolding outs by (metis not_None_eq option.distinct(1))
  next
    case (7 x out)
    then show ?case using ok assms(5) by auto
  qed
qed

lemma stop_all:
  "phones_ok s \<Longrightarrow> phones_ok (fold (\<lambda>(c, o'). stop_outbound c (Some o')) st s)"
  "subscribers (fold (\<lambda>(c, o'). stop_outbound c (Some o')) st s) = subscribers s"
  "pr_closed (fold (\<lambda>(c, o'). stop_outbound c (Some o')) st s) = pr_closed s"
  by (induction st arbitrary: s) (auto simp: stopped_closed)

lemma close_all:
  "phones_ok (fold close_phone cc s) = phones_ok s"
  "subscribers (fold close_phone cc s) = subscribers s"
  "pr_closed (fold close_phone cc s) = pr_closed s @ cc"
  by (induction cc arbitrary: s) (simp_all, simp add: close_phone_def)

text \<open>Evicting keeps the newest eight subscribers of the device and closes the older sockets.\<close>

definition newest :: "phone_socket list \<Rightarrow> phone_socket list" where
  "newest cs = drop (length cs - maxPhoneConnsPerDevice) cs"

definition excess :: "phone_socket list \<Rightarrow> phone_socket list" where
  "excess cs = take (length cs - maxPhoneConnsPerDevice) cs"

lemma evict_and_finish_effect:
  assumes "phones_ok s"
  shows "phones_ok (evict_and_finish d s)"
    and "subscribers (evict_and_finish d s) = (subscribers s)(d := newest (subscribers s d))"
    and "pr_closed (evict_and_finish d s) = pr_closed s @ excess (subscribers s d)"
proof -
  obtain s' cc st where e: "evictExcess d s [] [] = (s', cc, st)" by (metis prod_cases3)
  note eff = evictExcess_effect [OF assms e]
  have "evict_and_finish d s = finishPhoneEviction cc st s'" by (simp add: evict_and_finish_def e)
  then show "phones_ok (evict_and_finish d s)"
    "subscribers (evict_and_finish d s) = (subscribers s)(d := newest (subscribers s d))"
    "pr_closed (evict_and_finish d s) = pr_closed s @ excess (subscribers s d)"
    using eff by (simp_all add: finishPhoneEviction_def stop_all close_all newest_def excess_def)
qed

lemma newest_bound: "length (newest cs) \<le> maxPhoneConnsPerDevice"
  by (simp add: newest_def)

lemma add_phone_effect:
  assumes "phones_ok s"
  shows "phones_ok (AddPhoneAuthenticated d c p adm s)"
    and "subscribers (AddPhoneAuthenticated d c p adm s) = (subscribers s)(d := newest (subscribers s d @ [c]))"
    and "pr_closed (AddPhoneAuthenticated d c p adm s) = pr_closed s @ excess (subscribers s d @ [c])"
proof -
  let ?p = "\<lparr>pp_PhoneID = p, pp_AdminBypass = adm\<rparr>"
  let ?a = "add_subscription d c s"
  let ?u = "ensure_outbound c (?a\<lparr>pr_phonePrincipals := AList.update c ?p (pr_phonePrincipals ?a)\<rparr>)"
  have u: "pr_phonePrincipals ?u = AList.update c ?p (pr_phonePrincipals s)"
    "pr_phoneConns ?u = pr_phoneConns ?a" "pr_stopped ?u = pr_stopped s"
    "pr_phoneOutbounds ?u = pr_phoneOutbounds (ensure_outbound c s)" "pr_closed ?u = pr_closed s"
    by (simp_all add: ensure_outbound_def add_subscription_def)
  note sub = subscribe_ok [OF almost_weaken [OF assms] disjI2 [OF u(1)] u(2) u(4) u(3)]
  have "AddPhoneAuthenticated d c p adm s = evict_and_finish d ?u"
    by (simp add: AddPhoneAuthenticated_def Let_def)
  then show "phones_ok (AddPhoneAuthenticated d c p adm s)"
    "subscribers (AddPhoneAuthenticated d c p adm s) = (subscribers s)(d := newest (subscribers s d @ [c]))"
    "pr_closed (AddPhoneAuthenticated d c p adm s) = pr_closed s @ excess (subscribers s d @ [c])"
    using evict_and_finish_effect [OF sub(1), of d] sub(2) u(5) by simp_all
qed

lemma resubscribe_effect:
  assumes "phones_ok s"
  shows "phones_ok (ResubscribePhone d c s)"
    and "subscribers (ResubscribePhone d c s)
      = (\<lambda>d'. if d' = d then newest (filter (\<lambda>x. x \<noteq> c) (subscribers s d) @ [c])
               else filter (\<lambda>x. x \<noteq> c) (subscribers s d'))"
proof -
  let ?v = "unsubscribe_all c s"
  let ?u = "ensure_outbound c (add_subscription d c ?v)"
  have u: "pr_phonePrincipals ?u = pr_phonePrincipals ?v"
    "pr_phoneConns ?u = pr_phoneConns (add_subscription d c ?v)" "pr_stopped ?u = pr_stopped ?v"
    "pr_phoneOutbounds ?u = pr_phoneOutbounds (ensure_outbound c ?v)"
    by (simp_all add: ensure_outbound_def add_subscription_def)
  note sub = subscribe_ok [OF unsubscribe_almost(1) [OF assms] disjI1 [OF u(1)] u(2) u(4) u(3)]
  have "subscribers ?v = (\<lambda>d'. filter (\<lambda>x. x \<noteq> c) (subscribers s d'))"
    by (rule ext) (rule subscribers_unsubscribe [OF phones_okD(1) [OF assms]])
  then show "phones_ok (ResubscribePhone d c s)"
    "subscribers (ResubscribePhone d c s)
      = (\<lambda>d'. if d' = d then newest (filter (\<lambda>x. x \<noteq> c) (subscribers s d) @ [c])
               else filter (\<lambda>x. x \<noteq> c) (subscribers s d'))"
    using evict_and_finish_effect [OF sub(1), of d] sub(2)
    by (simp_all add: ResubscribePhone_def fun_eq_iff)
qed

section \<open>Sending\<close>

lemma enqueue_open:
  "enqueuePhone (Some out) data = (Some out', ok) \<Longrightarrow> po_closed out' = po_closed out"
  by (auto simp: enqueuePhone_def Let_def split: if_splits)

lemma enqueue_some: "\<exists>out' ok. enqueuePhone (Some out) data = (Some out', ok)"
  by (auto simp: enqueuePhone_def Let_def)

lemma replace_outbound_ok:
  assumes ok: "phones_ok s" and c: "map_of (pr_phoneOutbounds s) c = Some out" and "\<not> po_closed out'"
  shows "phones_ok (s\<lparr>pr_phoneOutbounds := AList.update c out' (pr_phoneOutbounds s)\<rparr>)"
    (is "phones_ok ?u")
proof (rule phones_okI, goal_cases)
  case 1
  then show ?case using phones_okD(1) [OF ok] by (simp add: conns_ok_def)
next
  case 2
  then show ?case using phones_okD(2) [OF ok] by (simp add: gomap_update)
next
  case 3
  then show ?case using phones_okD(3) [OF ok] by simp
next
  case (4 x d)
  then show ?case using phones_okD(4) [OF ok, of x d] by simp
next
  case (5 x o')
  then show ?case
    using phones_okD(5) [OF ok c] phones_okD(5) [OF ok, of x o'] assms(3) by (auto split: if_splits)
next
  case (6 x p)
  then show ?case using phones_okD(6) [OF ok, of x p] by simp
next
  case (7 x o')
  then show ?case using phones_okD(7) [OF ok, of x o'] by simp
qed

text \<open>A frame is appended to an open queue with room, or the socket is dropped.\<close>

lemma send_frame_cases:
  assumes "phones_ok s"
  obtains (absent) "map_of (pr_phoneOutbounds s) c = None" "send_frame data c s = s"
  | (queued) out out' where "map_of (pr_phoneOutbounds s) c = Some out"
      "enqueuePhone (Some out) data = (Some out', True)"
      "send_frame data c s = s\<lparr>pr_phoneOutbounds := AList.update c out' (pr_phoneOutbounds s)\<rparr>"
  | (dropped) out out' where "map_of (pr_phoneOutbounds s) c = Some out"
      "enqueuePhone (Some out) data = (Some out', False)"
      "phones_ok (s\<lparr>pr_phoneOutbounds := AList.update c out' (pr_phoneOutbounds s)\<rparr>)"
      "send_frame data c s
        = dropPhone c (s\<lparr>pr_phoneOutbounds := AList.update c out' (pr_phoneOutbounds s)\<rparr>)"
proof (cases "map_of (pr_phoneOutbounds s) c")
  case None
  then show thesis using absent by (simp add: send_frame_def)
next
  case (Some out)
  obtain out' ok where e: "enqueuePhone (Some out) data = (Some out', ok)" using enqueue_some by blast
  then have "\<not> po_closed out'" using enqueue_open phones_okD(5) [OF assms Some] by blast
  note rep = replace_outbound_ok [OF assms Some this]
  show thesis
    using queued [OF Some, of out'] dropped [OF Some, of out'] e rep Some
    by (cases ok) (simp_all add: send_frame_def)
qed

lemma send_frame_ok: "phones_ok s \<Longrightarrow> phones_ok (send_frame data c s)"
proof -
  assume ok: "phones_ok s"
  then show ?thesis
  proof (cases rule: send_frame_cases [where c = c and data = data])
    case (queued out out')
    have "\<not> po_closed out'"
      using enqueue_open [OF queued(2)] phones_okD(5) [OF ok queued(1)] by simp
    then show ?thesis using replace_outbound_ok [OF ok queued(1)] queued(3) by simp
  qed (simp_all add: ok dropPhone_ok)
qed

lemma fold_ok: "(\<And>x s. phones_ok s \<Longrightarrow> phones_ok (f x s)) \<Longrightarrow> phones_ok s \<Longrightarrow> phones_ok (fold f xs s)"
  by (induction xs arbitrary: s) simp_all

lemma send_frame_subscribers:
  assumes "phones_ok s"
  shows "subscribers (send_frame data c s) d = subscribers s d
    \<or> subscribers (send_frame data c s) d = filter (\<lambda>x. x \<noteq> c) (subscribers s d)"
  using assms
proof (cases rule: send_frame_cases [where c = c and data = data])
  case (dropped out out')
  then show ?thesis using dropPhone_view(1) [OF phones_okD(1) [OF dropped(3)], of c d] by simp
qed simp_all

section \<open>The machine and its invariant\<close>

inductive phone_step :: "phone_registry \<Rightarrow> phone_registry \<Rightarrow> bool" where
  "phone_step s (AddPhoneAuthenticated d c p adm s)"
| "phone_step s (RemovePhone d c s)"
| "phone_step s (ResubscribePhone d c s)"
| "phone_step s (dropPhone c s)"
| "phone_step s (fst (ClosePhonesByPrincipal p s))"
| "phone_step s (send_frame data c s)"
| "phone_step s (close_phones s)"

definition smaller :: "phone_registry \<Rightarrow> phone_registry \<Rightarrow> bool" where
  "smaller s s' \<longleftrightarrow> (\<forall>d. length (subscribers s' d) \<le> length (subscribers s d))"

lemma bounded_smaller: "bounded s \<Longrightarrow> smaller s s' \<Longrightarrow> bounded s'"
  unfolding bounded_def smaller_def using le_trans by blast

lemma dropPhone_smaller: "phones_ok s \<Longrightarrow> smaller s (dropPhone c s)"
  by (simp add: smaller_def dropPhone_view phones_okD(1))

lemma drop_all:
  "phones_ok s \<Longrightarrow> phones_ok (fold dropPhone cs s) \<and> smaller s (fold dropPhone cs s)"
proof (induction cs arbitrary: s)
  case (Cons c cs)
  have "phones_ok (dropPhone c s)" "smaller s (dropPhone c s)"
    using Cons.prems by (simp_all add: dropPhone_ok dropPhone_smaller)
  moreover note Cons.IH [OF calculation(1)]
  ultimately show ?case by (auto simp: smaller_def intro: le_trans)
qed (simp add: smaller_def)

lemma RemovePhone_smaller: "smaller s (RemovePhone d c s)"
proof -
  have "subscribers (RemovePhone d c s) = (subscribers s)(d := withoutPhoneConn (subscribers s d) c)"
    by (simp add: RemovePhone_def Let_def subscribers_upd fun_eq_iff)
  then show ?thesis by (simp add: smaller_def withoutPhoneConn_def)
qed

lemma send_frame_smaller: "phones_ok s \<Longrightarrow> smaller s (send_frame data c s)"
  unfolding smaller_def using send_frame_subscribers [of s data c]
  by (metis length_filter_le order_refl)

interpretation phones: step_invariant phone_step "\<lambda>s. phones_ok s \<and> bounded s"
proof
  fix s s'
  assume inv: "phones_ok s \<and> bounded s" and st: "phone_step s s'"
  have small: "phones_ok s' \<and> bounded s'" if "phones_ok s'" "smaller s s'"
    using that inv bounded_smaller by blast
  from st show "phones_ok s' \<and> bounded s'"
  proof cases
    case (1 d c p adm)
    then show ?thesis
      using inv add_phone_effect(1,2) [of s d c p adm] newest_bound by (simp add: bounded_def)
  next
    case (2 d c)
    then show ?thesis using inv small RemovePhone_ok RemovePhone_smaller by blast
  next
    case (3 d c)
    have "length (filter P (subscribers s d')) \<le> maxPhoneConnsPerDevice" for P d'
      using inv by (meson bounded_def length_filter_le le_trans)
    then show ?thesis
      using 3 inv resubscribe_effect [of s d c] newest_bound by (simp add: bounded_def)
  next
    case (4 c)
    then show ?thesis using inv small dropPhone_ok dropPhone_smaller by blast
  next
    case (5 p)
    then show ?thesis using inv small drop_all by (auto simp: ClosePhonesByPrincipal_def Let_def)
  next
    case (6 data c)
    then show ?thesis using inv small send_frame_ok send_frame_smaller by blast
  next
    case 7
    then show ?thesis using inv small drop_all by (simp add: close_phones_def)
  qed
qed

lemma phones_reach: "phone_step\<^sup>*\<^sup>* new_phones s \<Longrightarrow> phones_ok s \<and> bounded s"
proof -
  have "phones_ok new_phones \<and> bounded new_phones"
    by (simp add: phones_ok_def conns_ok_def bounded_def new_phones_def subscribers_def)
  then show "phone_step\<^sup>*\<^sup>* new_phones s \<Longrightarrow> phones_ok s \<and> bounded s" using phones.steps_keep by blast
qed

text \<open>C26. The three maps of the phone registry stay in step, and no device collects sockets: after any
  sequence of subscriptions, removals, drops, revocations, sends and a shutdown, a socket has an
  outbound queue exactly while it is subscribed to some device, every such queue is open, a
  principal is kept only for such a socket, a queue that was taken out is closed, and at most
  eight sockets are subscribed to a device.\<close>

theorem phone_registry_consistent:
  assumes "phone_step\<^sup>*\<^sup>* new_phones s"
  shows "(map_of (pr_phoneOutbounds s) c \<noteq> None \<longleftrightarrow> phoneStillSubscribedLocked s c)
    \<and> (\<forall>out. map_of (pr_phoneOutbounds s) c = Some out \<longrightarrow> \<not> isClosed (Some out))
    \<and> (map_of (pr_phonePrincipals s) c \<noteq> None \<longrightarrow> phoneStillSubscribedLocked s c)
    \<and> (\<forall>(c, out) \<in> set (pr_stopped s). isClosed (Some out))
    \<and> fst (PhoneSubscriptionCounts s d) \<le> 8"
proof -
  have ok: "phones_ok s" and b: "bounded s" using phones_reach [OF assms] by simp_all
  have sub: "phoneStillSubscribedLocked s c \<longleftrightarrow> (\<exists>d. c \<in> set (subscribers s d))"
    by (rule still_subscribed [OF phones_okD(1) [OF ok]])
  then show ?thesis
    using ok b unfolding phones_ok_def
    by (auto simp: isClosed_def PhoneSubscriptionCounts_def bounded_def maxPhoneConnsPerDevice_def)
qed

text \<open>The newest sockets win.  Subscribing a socket appends it to the device's list and keeps the
  last eight; exactly the older ones are closed, and no other device's list changes.\<close>

theorem newest_sockets_kept:
  assumes "phone_step\<^sup>*\<^sup>* new_phones s"
  shows "subscribers (AddPhoneAuthenticated d c p adm s) d
      = drop (length (subscribers s d) + 1 - 8) (subscribers s d @ [c])
    \<and> pr_closed (AddPhoneAuthenticated d c p adm s)
      = pr_closed s @ take (length (subscribers s d) + 1 - 8) (subscribers s d @ [c])
    \<and> (\<forall>d'. d' \<noteq> d \<longrightarrow> subscribers (AddPhoneAuthenticated d c p adm s) d' = subscribers s d')"
  using add_phone_effect(2,3) [of s d c p adm] phones_reach [OF assms]
  by (simp add: newest_def excess_def maxPhoneConnsPerDevice_def)

section \<open>Revocation\<close>

lemma fold_drop_all:
  assumes "phones_ok s"
  shows "(\<forall>x. map_of (pr_phonePrincipals (fold dropPhone cs s)) x
      = (if x \<in> set cs then None else map_of (pr_phonePrincipals s) x))
    \<and> (\<forall>x. map_of (pr_phoneOutbounds (fold dropPhone cs s)) x
      = (if x \<in> set cs then None else map_of (pr_phoneOutbounds s) x))
    \<and> (\<forall>d. subscribers (fold dropPhone cs s) d = filter (\<lambda>y. y \<notin> set cs) (subscribers s d))
    \<and> pr_closed (fold dropPhone cs s) = pr_closed s @ cs"
  using assms
proof (induction cs arbitrary: s)
  case (Cons c cs)
  show ?case
    using Cons.IH [OF dropPhone_ok [OF Cons.prems], of c]
      dropPhone_view [OF phones_okD(1) [OF Cons.prems], of c]
    by (simp add: conj_commute)
qed simp

lemma fold_drop_view:
  assumes "phones_ok s"
  shows "map_of (pr_phonePrincipals (fold dropPhone cs s)) x
      = (if x \<in> set cs then None else map_of (pr_phonePrincipals s) x)"
    and "map_of (pr_phoneOutbounds (fold dropPhone cs s)) x
      = (if x \<in> set cs then None else map_of (pr_phoneOutbounds s) x)"
    and "subscribers (fold dropPhone cs s) d = filter (\<lambda>y. y \<notin> set cs) (subscribers s d)"
    and "pr_closed (fold dropPhone cs s) = pr_closed s @ cs"
  using fold_drop_all [OF assms, of cs] by blast+

lemma principal_gone:
  assumes ok: "phones_ok s" and "phoneID \<noteq> []"
    and "map_of (pr_phonePrincipals (fst (ClosePhonesByPrincipal phoneID s))) c = Some p"
  shows "\<not> authenticated_as phoneID p"
proof
  let ?cs = "map fst (filter (\<lambda>(c, p). authenticated_as phoneID p) (pr_phonePrincipals s))"
  assume "authenticated_as phoneID p"
  have "map_of (pr_phonePrincipals (fold dropPhone ?cs s)) c = Some p"
    using assms(2,3) by (simp add: ClosePhonesByPrincipal_def Let_def)
  then have "c \<notin> set ?cs" "(c, p) \<in> set (pr_phonePrincipals s)"
    using fold_drop_view(1) [OF ok, of ?cs c] by (auto dest: map_of_in_set split: if_splits)
  then show False using \<open>authenticated_as phoneID p\<close> by force
qed


section \<open>Broadcast\<close>

lemma send_frame_other:
  assumes "phones_ok s" and "x \<noteq> c"
  shows "map_of (pr_phoneOutbounds (send_frame data c s)) x = map_of (pr_phoneOutbounds s) x"
  using assms(1)
proof (cases rule: send_frame_cases [where c = c and data = data])
  case (dropped out out')
  then show ?thesis using dropPhone_view(2) [OF phones_okD(1) [OF dropped(3)], of c] assms(2) by simp
qed (simp_all add: assms(2))

text \<open>What one send leaves of the queue of its socket.\<close>

definition sent_or_dropped :: "string \<Rightarrow> phoneOutbound option \<Rightarrow> phoneOutbound option \<Rightarrow> bool" where
  "sent_or_dropped data before after \<longleftrightarrow>
     (case before of
        None \<Rightarrow> after = None
      | Some out \<Rightarrow>
          if snd (enqueuePhone (Some out) data)
          then (\<exists>out'. after = Some out' \<and> po_queue out' = po_queue out @ [data]) else after = None)"

lemma enqueue_appends_frame:
  "enqueuePhone (Some out) data = (Some out', True) \<Longrightarrow> po_queue out' = po_queue out @ [data]"
  by (auto simp: enqueuePhone_def Let_def split: if_splits)

lemma send_frame_self:
  assumes "phones_ok s"
  shows "sent_or_dropped data (map_of (pr_phoneOutbounds s) c)
    (map_of (pr_phoneOutbounds (send_frame data c s)) c)"
  using assms
proof (cases rule: send_frame_cases [where c = c and data = data])
  case (dropped out out')
  then show ?thesis
    using dropPhone_view(2) [OF phones_okD(1) [OF dropped(3)], of c] by (simp add: sent_or_dropped_def)
qed (auto simp: sent_or_dropped_def enqueue_appends_frame)

lemma fold_send:
  assumes "phones_ok s" and "distinct cs"
  shows "if x \<in> set cs
    then sent_or_dropped data (map_of (pr_phoneOutbounds s) x)
           (map_of (pr_phoneOutbounds (fold (send_frame data) cs s)) x)
    else map_of (pr_phoneOutbounds (fold (send_frame data) cs s)) x = map_of (pr_phoneOutbounds s) x"
  using assms
proof (induction cs arbitrary: s)
  case (Cons c cs)
  note ih = Cons.IH [OF send_frame_ok [OF Cons.prems(1), of data c]]
  show ?case
    using ih Cons.prems send_frame_self [OF Cons.prems(1), of data c]
      send_frame_other [OF Cons.prems(1), of x c data]
    by (cases "x = c"; cases "x \<in> set cs") simp_all
qed simp

text \<open>A broadcast reaches every subscriber of the device once and nobody else: the encoded frame is
  appended to the queue of each subscribed socket, a socket whose queue is full is dropped instead,
  and the queue of every other socket is as it was.\<close>

theorem broadcast_exact:
  assumes "phone_step\<^sup>*\<^sup>* new_phones s" and "marshal msg = Some data" and "distinct (subscribers s d)"
  shows "if c \<in> set (subscribers s d)
    then (\<exists>out. map_of (pr_phoneOutbounds s) c = Some out
         \<and> (if snd (enqueuePhone (Some out) data)
            then (\<exists>out'. map_of (pr_phoneOutbounds (BroadcastToPhones marshal d msg s)) c = Some out'
                         \<and> po_queue out' = po_queue out @ [data])
            else map_of (pr_phoneOutbounds (BroadcastToPhones marshal d msg s)) c = None))
    else map_of (pr_phoneOutbounds (BroadcastToPhones marshal d msg s)) c = map_of (pr_phoneOutbounds s) c"
proof -
  have ok: "phones_ok s" using phones_reach [OF assms(1)] by simp
  note f = fold_send [OF ok assms(3), of c data]
  show ?thesis
  proof (cases "c \<in> set (subscribers s d)")
    case True
    then obtain out where "map_of (pr_phoneOutbounds s) c = Some out"
      using phones_okD(4) [OF ok True] by blast
    then show ?thesis using f True assms(2) by (simp add: BroadcastToPhones_def sent_or_dropped_def)
  next
    case False
    then show ?thesis using f assms(2) by (simp add: BroadcastToPhones_def)
  qed
qed

section \<open>Concrete registries\<close>

definition demo_phones :: phone_registry where
  "demo_phones = AddPhoneAuthenticated ''d'' 2 ''p2'' False
     (AddPhoneAuthenticated ''d'' 1 ''p1'' False new_phones)"

lemma demo_phones_reach: "phone_step\<^sup>*\<^sup>* new_phones demo_phones"
  unfolding demo_phones_def
  by (meson phone_step.intros(1) r_into_rtranclp rtranclp.rtrancl_into_rtrancl)

lemma demo_phones_state:
  "demo_phones = \<lparr>pr_phoneConns = [(''d'', [1, 2])],
     pr_phoneOutbounds = [(1, newPhoneOutbound), (2, newPhoneOutbound)],
     pr_phonePrincipals = [(1, \<lparr>pp_PhoneID = ''p1'', pp_AdminBypass = False\<rparr>),
       (2, \<lparr>pp_PhoneID = ''p2'', pp_AdminBypass = False\<rparr>)],
     pr_stopped = [], pr_closed = []\<rparr>"
  by (simp add: demo_phones_def AddPhoneAuthenticated_def add_subscription_def ensure_outbound_def
      evict_and_finish_def evictExcess.simps finishPhoneEviction_def subscribers_def
      set_subscribers_def new_phones_def maxPhoneConnsPerDevice_def Let_def)

theorem phone_registry_consistent_witness:
  "map_of (pr_phoneOutbounds demo_phones) 1 \<noteq> None \<and> phoneStillSubscribedLocked demo_phones 1"
proof -
  have "map_of (pr_phoneOutbounds demo_phones) 1 \<noteq> None" by (simp add: demo_phones_state)
  then show ?thesis using phone_registry_consistent [OF demo_phones_reach, of 1] by blast
qed

theorem newest_sockets_kept_witness:
  "subscribers (AddPhoneAuthenticated ''d'' 3 ''p3'' False demo_phones) ''d'' = [1, 2, 3]"
  using newest_sockets_kept [OF demo_phones_reach, of "''d''" 3 "''p3''" False]
  by (simp add: demo_phones_state subscribers_def)


theorem broadcast_exact_witness:
  "\<exists>out'. map_of (pr_phoneOutbounds (BroadcastToPhones Some ''d'' ''hi'' demo_phones)) 1 = Some out'
     \<and> po_queue out' = [''hi'']"
  using broadcast_exact [OF demo_phones_reach, of Some "''hi''" "''hi''" "''d''" 1]
  by (simp add: demo_phones_state subscribers_def newPhoneOutbound_def enqueuePhone_def Let_def
      maxPhoneOutboundBytes_def phoneOutboundQueueSize_def BroadcastToPhones_def)

end
