(* ===== verification/Session_Catalog.thy ===== *)
theory Session_Catalog
  imports Protocol Daemon_Registry Phone_Registry
begin

text \<open>
  The session catalog the relay caches for each live daemon (\<open>relaycore/connections.go\<close>:
  \<open>updateSessionListFromLocked\<close>, \<open>updateSealedCatalogFromLocked\<close> and the snapshots), with the session
  records of \<open>relaycore/protocol/types.go\<close>.

  \<open>relay_conns\<close> puts the three parts of \<open>ConnectionManager\<close> together: the daemon registry, the catalog
  fields of each \<open>DaemonConn\<close> (by the connection's index) and the phone registry, to which an
  update is broadcast.  The functions with the suffix \<open>Locked\<close> run while their caller holds
  \<open>dc.mu\<close>, so they are single steps here.
\<close>

section \<open>Session records\<close>

record turn_binding =
  ab_Generation :: uint64
  ab_ClientMsgID :: string
  ab_NativeRequestID :: string

record PendingApproval =
  pa_ID :: string
  pa_ToolName :: string
  pa_Description :: string
  pa_Parameters :: "(string, json) gomap"

record UserInputOption =
  uo_Label :: string
  uo_Description :: string

record UserInputQuestion =
  uq_ID :: string
  uq_Header :: string
  uq_Question :: string
  uq_Options :: "UserInputOption list"
  uq_IsOther :: bool
  uq_IsSecret :: bool

record PendingUserInput =
  pu_RequestID :: string
  pu_ItemID :: string
  pu_Questions :: "UserInputQuestion list"
  pu_AutoResolutionMS :: "uint64 option"
  pu_ExpiresAt :: int

record AgentSession =
  as_ID :: string
  as_DeviceID :: string
  as_AgentType :: AgentType
  as_Status :: AgentStatus
  as_Summary :: string
  as_LastActivity :: int
  as_ProjectDir :: string
  as_Project :: string
  as_Capabilities :: "SessionCapabilities option"
  as_PendingApproval :: "PendingApproval option"
  as_PendingUserInput :: "PendingUserInput option"
  as_ActiveTurn :: "turn_binding option"

section \<open>State\<close>

record daemon_catalog =
  ct_Sessions :: "(string, AgentSession) gomap"
  ct_AgentStartCapabilities :: "AgentStartCapability list option"
  ct_CatalogProtocolVersion :: string
  ct_SealedCatalog :: "NekoMessage option"

definition no_catalog :: daemon_catalog where
  "no_catalog = \<lparr>ct_Sessions = [], ct_AgentStartCapabilities = None,
     ct_CatalogProtocolVersion = [], ct_SealedCatalog = None\<rparr>"

record relay_conns =
  rc_daemons :: registry
  rc_catalogs :: "ref \<Rightarrow> daemon_catalog"
  rc_phones :: phone_registry

text \<open>
  The payload of the open session list: the sessions and, when there is one, the capability list.
  How Go encodes these structs is a parameter; the record only keeps the values.
\<close>

record session_list =
  sl_sessions :: "AgentSession list"
  sl_start_capabilities :: "AgentStartCapability list option"

section \<open>Operations\<close>

definition known_agent :: "AgentType \<Rightarrow> bool" where
  "known_agent a \<longleftrightarrow> a \<in> {AgentClaudeCode, AgentCodex, AgentKimiCLI, AgentGrokBuild, AgentCursor}"

fun clean_capabilities :: "AgentType list \<Rightarrow> AgentStartCapability list \<Rightarrow> AgentStartCapability list" where
  "clean_capabilities seen [] = []"
| "clean_capabilities seen (c # cs) =
     (if \<not> known_agent (ac_AgentType c) \<or> ac_AgentType c \<in> set seen
      then clean_capabilities seen cs
      else c # clean_capabilities (ac_AgentType c # seen) cs)"

definition cleanAgentStartCapabilities ::
  "AgentStartCapability list option \<Rightarrow> AgentStartCapability list option" where
  "cleanAgentStartCapabilities caps =
     (case caps of
        None \<Rightarrow> None
      | Some cs \<Rightarrow> if cs = [] then Some [] else Some (clean_capabilities [] cs))"

definition keep_session :: "AgentSession \<Rightarrow> bool" where
  "keep_session s \<longleftrightarrow> as_ID s \<noteq> [] \<and> as_AgentType s \<noteq> AgentKilo"

text \<open>A nil entry of the list is \<open>None\<close>.\<close>

definition clean_sessions :: "AgentSession option list \<Rightarrow> AgentSession list" where
  "clean_sessions ss = filter keep_session (List.map_filter id ss)"

definition session_map :: "AgentSession list \<Rightarrow> (string, AgentSession) gomap" where
  "session_map ss = fold (\<lambda>s. AList.update (as_ID s) s) ss []"

definition catalog_version :: "string \<Rightarrow> string" where
  "catalog_version producerVersion =
     (case ParseProtocolVersion producerVersion of Inl e \<Rightarrow> [] | Inr p \<Rightarrow> producerVersion)"

definition updateSessionListFromLocked ::
  "(session_list \<Rightarrow> (string, json) gomap) \<Rightarrow> (NekoMessage \<Rightarrow> string option) \<Rightarrow> seconds \<Rightarrow> ref option
   \<Rightarrow> AgentSession option list \<Rightarrow> AgentStartCapability list option \<Rightarrow> string \<Rightarrow> relay_conns \<Rightarrow> relay_conns" where
  "updateSessionListFromLocked encode marshal now dc sessions caps producerVersion rc =
     (case dc of
        None \<Rightarrow> rc
      | Some r \<Rightarrow>
          if \<not> isLiveDaemonLocked (rc_daemons rc) r then rc
          else let clean = clean_sessions sessions;
                   caps = cleanAgentStartCapabilities caps;
                   version = catalog_version producerVersion;
                   deviceID = device_of (rc_daemons rc) r;
                   cat = (rc_catalogs rc r)\<lparr>ct_Sessions := session_map clean,
                            ct_AgentStartCapabilities := caps, ct_CatalogProtocolVersion := version\<rparr>;
                   msg = (NewMessage now MsgSessionList deviceID)
                           \<lparr>nm_ProtocolVersion := version,
                            nm_Payload := Some (encode \<lparr>sl_sessions = clean,
                                                        sl_start_capabilities = caps\<rparr>)\<rparr>
               in rc\<lparr>rc_catalogs := (rc_catalogs rc)(r := cat),
                     rc_phones := BroadcastToPhones marshal deviceID msg (rc_phones rc)\<rparr>)"

definition UpdateSessionListFrom where
  "UpdateSessionListFrom encode marshal now dc sessions caps rc =
     updateSessionListFromLocked encode marshal now dc sessions caps CurrentProtocolVersion rc"

definition UpdateSessionsFrom where
  "UpdateSessionsFrom encode marshal now dc sessions rc =
     UpdateSessionListFrom encode marshal now dc sessions None rc"

definition UpdateSessions where
  "UpdateSessions encode marshal now deviceID sessions rc =
     (case map_of (reg_conns (rc_daemons rc)) deviceID of
        None \<Rightarrow> rc
      | Some r \<Rightarrow> UpdateSessionsFrom encode marshal now (Some r) sessions rc)"

definition cloneOpaqueMessage :: "NekoMessage option \<Rightarrow> NekoMessage option" where
  "cloneOpaqueMessage msg = map_option (\<lambda>m. m\<lparr>nm_Payload := None\<rparr>) msg"

definition updateSealedCatalogFromLocked ::
  "(NekoMessage \<Rightarrow> string option) \<Rightarrow> ref option \<Rightarrow> NekoMessage option \<Rightarrow> relay_conns \<Rightarrow> relay_conns" where
  "updateSealedCatalogFromLocked marshal dc msg rc =
     (case (dc, msg) of
        (Some r, Some m) \<Rightarrow>
          if nm_SealedPayload m = None \<or> \<not> isLiveDaemonLocked (rc_daemons rc) r then rc
          else let deviceID = device_of (rc_daemons rc) r;
                   clone = map_option (\<lambda>m. m\<lparr>nm_DeviceID := deviceID\<rparr>) (cloneOpaqueMessage (Some m))
               in (case clone of
                     None \<Rightarrow> rc
                   | Some c \<Rightarrow>
                       rc\<lparr>rc_catalogs := (rc_catalogs rc)(r := (rc_catalogs rc r)\<lparr>ct_SealedCatalog := Some c\<rparr>),
                          rc_phones := BroadcastToPhones marshal deviceID c (rc_phones rc)\<rparr>)
      | _ \<Rightarrow> rc)"

definition GetDeviceSessionSnapshotVersion ::
  "relay_conns \<Rightarrow> string \<Rightarrow> AgentSession list \<times> AgentStartCapability list option \<times> string" where
  "GetDeviceSessionSnapshotVersion rc deviceID =
     (case map_of (reg_conns (rc_daemons rc)) deviceID of
        None \<Rightarrow> ([], None, [])
      | Some r \<Rightarrow>
          if closed_conn (rc_daemons rc) r then ([], None, [])
          else (map snd (ct_Sessions (rc_catalogs rc r)),
                ct_AgentStartCapabilities (rc_catalogs rc r),
                ct_CatalogProtocolVersion (rc_catalogs rc r)))"

definition GetDeviceSessions :: "relay_conns \<Rightarrow> string \<Rightarrow> AgentSession list" where
  "GetDeviceSessions rc deviceID = fst (GetDeviceSessionSnapshotVersion rc deviceID)"

definition GetSealedCatalogSnapshot :: "relay_conns \<Rightarrow> string \<Rightarrow> NekoMessage option" where
  "GetSealedCatalogSnapshot rc deviceID =
     (case map_of (reg_conns (rc_daemons rc)) deviceID of
        None \<Rightarrow> None
      | Some r \<Rightarrow>
          if closed_conn (rc_daemons rc) r \<or> ct_SealedCatalog (rc_catalogs rc r) = None then None
          else cloneOpaqueMessage (ct_SealedCatalog (rc_catalogs rc r)))"

section \<open>Cleaning\<close>

lemma clean_capabilities_set:
  "c \<in> set (clean_capabilities seen cs) \<Longrightarrow>
   c \<in> set cs \<and> known_agent (ac_AgentType c) \<and> ac_AgentType c \<notin> set seen"
proof (induction cs arbitrary: seen)
  case (Cons a cs)
  show ?case
  proof (cases "\<not> known_agent (ac_AgentType a) \<or> ac_AgentType a \<in> set seen")
    case True
    then show ?thesis using Cons.prems Cons.IH [of seen] by simp
  next
    case False
    then show ?thesis using Cons.prems Cons.IH [of "ac_AgentType a # seen"] by auto
  qed
qed simp

lemma clean_capabilities_distinct: "distinct (map ac_AgentType (clean_capabilities seen cs))"
proof (induction cs arbitrary: seen)
  case (Cons a cs)
  then show ?case
    using clean_capabilities_set [of _ "ac_AgentType a # seen" cs] by fastforce
qed simp

lemma clean_capabilities_find:
  "known_agent a \<Longrightarrow> a \<notin> set seen \<Longrightarrow>
   List.find (\<lambda>c. ac_AgentType c = a) (clean_capabilities seen cs) = List.find (\<lambda>c. ac_AgentType c = a) cs"
  by (induction cs arbitrary: seen) auto

lemma map_of_session_map:
  "map_of (fold (\<lambda>s. AList.update (as_ID s) s) ss m) i
   = (case List.find (\<lambda>s. as_ID s = i) (rev ss) of Some s \<Rightarrow> Some s | None \<Rightarrow> map_of m i)"
proof (induction ss arbitrary: m)
  case (Cons s ss)
  then show ?case by (auto simp: find_snoc split: option.splits)
qed simp

lemma session_map_gomap: "gomap (session_map ss)"
proof -
  have "gomap m \<Longrightarrow> gomap (fold (\<lambda>s. AList.update (as_ID s) s) ss m)" for m :: "(string, AgentSession) gomap"
    by (induction ss arbitrary: m) (simp_all add: gomap_update)
  then show ?thesis by (simp add: session_map_def)
qed

lemma snapshot_of_update:
  assumes "isLiveDaemonLocked (rc_daemons rc) r" and "device_of (rc_daemons rc) r = d"
  shows "GetDeviceSessionSnapshotVersion
           (updateSessionListFromLocked encode marshal now (Some r) sessions caps v rc) d
         = (map snd (session_map (clean_sessions sessions)), cleanAgentStartCapabilities caps,
            catalog_version v)"
proof -
  have live: "map_of (reg_conns (rc_daemons rc)) d = Some r" "\<not> closed_conn (rc_daemons rc) r"
    using assms by (simp_all add: isLiveDaemonLocked_def)
  have "rc_daemons (updateSessionListFromLocked encode marshal now (Some r) sessions caps v rc) = rc_daemons rc"
    by (simp add: updateSessionListFromLocked_def Let_def)
  moreover have "rc_catalogs (updateSessionListFromLocked encode marshal now (Some r) sessions caps v rc) r
      = (rc_catalogs rc r)\<lparr>ct_Sessions := session_map (clean_sessions sessions),
           ct_AgentStartCapabilities := cleanAgentStartCapabilities caps,
           ct_CatalogProtocolVersion := catalog_version v\<rparr>"
    using assms(1) by (simp add: updateSessionListFromLocked_def Let_def)
  ultimately show ?thesis
    using live by (simp add: GetDeviceSessionSnapshotVersion_def)
qed

section \<open>What the catalog promises\<close>

text \<open>Stale frames do not touch the catalog.  A session list or sealed catalog that arrives on a
  connection which is not the registered one of its device changes neither any catalog nor any
  phone's queue.\<close>

theorem stale_catalog_ignored:
  assumes "\<not> isLiveDaemonLocked (rc_daemons rc) r"
  shows "updateSessionListFromLocked encode marshal now (Some r) sessions caps v rc = rc
    \<and> updateSealedCatalogFromLocked marshal (Some r) msg rc = rc"
  using assms
  by (simp add: updateSessionListFromLocked_def updateSealedCatalogFromLocked_def split: option.split)

text \<open>A snapshot shows the last session list of the live daemon.  After an update on the registered
  connection the snapshot has, for each session id, the last listed session with that id, without
  nil, unnamed or retired entries; the capability list has each known agent at most once, with its
  first entry; and the version is the producer's, or empty when it does not parse.\<close>

theorem snapshot_after_update:
  assumes "isLiveDaemonLocked (rc_daemons rc) r" and "device_of (rc_daemons rc) r = d"
    and "GetDeviceSessionSnapshotVersion
           (updateSessionListFromLocked encode marshal now (Some r) sessions (Some cs) v rc) d
         = (ss, caps, ver)"
  shows "distinct (map as_ID ss)
    \<and> (\<forall>s. s \<in> set ss \<longleftrightarrow>
         List.find (\<lambda>x. as_ID x = as_ID s) (rev (clean_sessions sessions)) = Some s)
    \<and> (\<exists>out. caps = Some out \<and> distinct (map ac_AgentType out) \<and> set out \<subseteq> set cs
         \<and> (\<forall>a. List.find (\<lambda>c. ac_AgentType c = a) out
                = (if known_agent a then List.find (\<lambda>c. ac_AgentType c = a) cs else None)))
    \<and> ver = (case ParseProtocolVersion v of Inl e \<Rightarrow> [] | Inr p \<Rightarrow> v)"
proof -
  let ?m = "session_map (clean_sessions sessions)"
  have snap: "ss = map snd ?m" "caps = cleanAgentStartCapabilities (Some cs)" "ver = catalog_version v"
    using assms(3) snapshot_of_update [OF assms(1,2)] by simp_all
  have look: "map_of ?m i = List.find (\<lambda>s. as_ID s = i) (rev (clean_sessions sessions))" for i
    by (simp add: session_map_def map_of_session_map split: option.split)
  have keys: "\<forall>(k, s) \<in> set ?m. as_ID s = k"
    using gomap_mem [OF session_map_gomap, of _ _ "clean_sessions sessions"] look
    by (auto simp: find_Some_iff)
  have mem: "s \<in> set ss \<longleftrightarrow> map_of ?m (as_ID s) = Some s" for s
    using keys gomap_mem [OF session_map_gomap, of "as_ID s" s "clean_sessions sessions"]
    unfolding snap(1) by force
  have dist: "distinct (map as_ID ss)"
    using keys_of_values [OF session_map_gomap keys] snap(1) by simp
  have caps: "caps = Some (clean_capabilities [] cs)"
    by (simp add: snap(2) cleanAgentStartCapabilities_def)
  have "List.find (\<lambda>c. ac_AgentType c = a) (clean_capabilities [] cs)
      = (if known_agent a then List.find (\<lambda>c. ac_AgentType c = a) cs else None)" for a
    using clean_capabilities_find [of a "[]" cs] clean_capabilities_set [of _ "[]" cs]
    by (auto simp: find_None_iff)
  then have "\<exists>out. caps = Some out \<and> distinct (map ac_AgentType out) \<and> set out \<subseteq> set cs
         \<and> (\<forall>a. List.find (\<lambda>c. ac_AgentType c = a) out
                = (if known_agent a then List.find (\<lambda>c. ac_AgentType c = a) cs else None))"
    using caps clean_capabilities_distinct [of "[]" cs] clean_capabilities_set [of _ "[]" cs] by blast
  moreover have "\<forall>s. s \<in> set ss \<longleftrightarrow>
         List.find (\<lambda>x. as_ID x = as_ID s) (rev (clean_sessions sessions)) = Some s"
    using mem look by simp
  ultimately show ?thesis
    using dist snap(3) by (simp only: catalog_version_def)  blast
qed

text \<open>A sealed catalog stays opaque.  After a sealed catalog frame on the registered connection the
  snapshot is that frame with the sealed body unchanged, addressed to the device and without any
  plaintext payload, and the same frame is what subscribed phones are sent.\<close>

theorem sealed_catalog_opaque:
  assumes "isLiveDaemonLocked (rc_daemons rc) r" and "device_of (rc_daemons rc) r = d"
    and "nm_SealedPayload m \<noteq> None"
  shows "\<exists>c. GetSealedCatalogSnapshot (updateSealedCatalogFromLocked marshal (Some r) (Some m) rc) d = Some c
    \<and> nm_Payload c = None \<and> nm_SealedPayload c = nm_SealedPayload m \<and> nm_DeviceID c = d
    \<and> rc_phones (updateSealedCatalogFromLocked marshal (Some r) (Some m) rc)
      = BroadcastToPhones marshal d c (rc_phones rc)"
proof (intro exI conjI)
  let ?c = "m\<lparr>nm_Payload := None, nm_DeviceID := d\<rparr>"
  have upd: "updateSealedCatalogFromLocked marshal (Some r) (Some m) rc
      = rc\<lparr>rc_catalogs := (rc_catalogs rc)(r := (rc_catalogs rc r)\<lparr>ct_SealedCatalog := Some ?c\<rparr>),
           rc_phones := BroadcastToPhones marshal d ?c (rc_phones rc)\<rparr>"
    using assms by (auto simp: updateSealedCatalogFromLocked_def cloneOpaqueMessage_def Let_def)
  have "cloneOpaqueMessage (Some ?c) = Some ?c" by (simp add: cloneOpaqueMessage_def)
  then show "GetSealedCatalogSnapshot (updateSealedCatalogFromLocked marshal (Some r) (Some m) rc) d = Some ?c"
    using assms(1,2) unfolding upd by (simp add: GetSealedCatalogSnapshot_def isLiveDaemonLocked_def)
  show "rc_phones (updateSealedCatalogFromLocked marshal (Some r) (Some m) rc)
      = BroadcastToPhones marshal d ?c (rc_phones rc)"
    unfolding upd by simp
qed simp_all

section \<open>A concrete catalog\<close>

definition demo_session :: AgentSession where
  "demo_session = \<lparr>as_ID = ''s'', as_DeviceID = ''dev'', as_AgentType = AgentCodex, as_Status = AgentIdle,
     as_Summary = [], as_LastActivity = 0, as_ProjectDir = [], as_Project = [], as_Capabilities = None,
     as_PendingApproval = None, as_PendingUserInput = None, as_ActiveTurn = None\<rparr>"

definition demo_conns :: relay_conns where
  "demo_conns = \<lparr>rc_daemons = demo_sending, rc_catalogs = (\<lambda>r. no_catalog), rc_phones = new_phones\<rparr>"

lemma demo_conns_live: "isLiveDaemonLocked (rc_daemons demo_conns) 0" "device_of (rc_daemons demo_conns) 0 = ''dev''"
  by (simp_all add: demo_conns_def demo_sending_def run_defs)

theorem stale_catalog_ignored_witness:
  "updateSealedCatalogFromLocked (\<lambda>m. None) (Some 0) None
     (demo_conns\<lparr>rc_daemons := NewConnectionManagerWithPolicy RejectNew\<rparr>)
   = demo_conns\<lparr>rc_daemons := NewConnectionManagerWithPolicy RejectNew\<rparr>"
  using stale_catalog_ignored [of "demo_conns\<lparr>rc_daemons := NewConnectionManagerWithPolicy RejectNew\<rparr>" 0]
  by (simp add: isLiveDaemonLocked_def NewConnectionManagerWithPolicy_def)

theorem snapshot_after_update_witness:
  "GetDeviceSessions (updateSessionListFromLocked (\<lambda>p. []) (\<lambda>m. None) 0 (Some 0)
     [None, Some demo_session] (Some []) ''1.3'' demo_conns) ''dev'' = [demo_session]
   \<and> distinct (map as_ID [demo_session])"
proof -
  let ?rc = "updateSessionListFromLocked (\<lambda>p. []) (\<lambda>m. None) 0 (Some 0)
     [None, Some demo_session] (Some []) ''1.3'' demo_conns"
  have "clean_sessions [None, Some demo_session] = [demo_session]"
    by (simp add: clean_sessions_def keep_session_def demo_session_def List.map_filter_def)
  then have e: "GetDeviceSessionSnapshotVersion ?rc ''dev''
      = ([demo_session], cleanAgentStartCapabilities (Some []), catalog_version ''1.3'')"
    unfolding snapshot_of_update [OF demo_conns_live] by (simp add: session_map_def)
  show ?thesis
    using snapshot_after_update [OF demo_conns_live e] e by (simp add: GetDeviceSessions_def)
qed

definition sealed_demo :: NekoMessage where
  "sealed_demo = demo_frame\<lparr>nm_SealedPayload := Some \<lparr>sp_Alg = ''A256GCM'', sp_Version = 1,
     sp_KeyScope = KeyScopeDeviceCatalog, sp_Epoch = 1, sp_SenderID = ''dev'', sp_RecipientID = [],
     sp_Sequence = 1, sp_Nonce = ''n'', sp_Ciphertext = ''c''\<rparr>\<rparr>"

theorem sealed_catalog_opaque_witness:
  "\<exists>c. GetSealedCatalogSnapshot (updateSealedCatalogFromLocked (\<lambda>m. None) (Some 0) (Some sealed_demo) demo_conns)
         ''dev'' = Some c \<and> nm_Payload c = None"
proof -
  have "nm_SealedPayload sealed_demo \<noteq> None" by (simp add: sealed_demo_def)
  from sealed_catalog_opaque [OF demo_conns_live this, of "\<lambda>m. None"] show ?thesis by blast
qed

end
