(* ===== verification/Rate_Limits.thy ===== *)
theory Rate_Limits
  imports Prelude
begin

text \<open>
  The admission limits of the relay (\<open>relaycore/websocket.go\<close>): the fixed-window limiter of
  \<open>rateLimiter.allow\<close>, whose table is bounded by eviction, and the sliding window of
  \<open>allowDeviceSwitch\<close>.

  Times and durations are nanoseconds.  Go visits a map in an order of its own choice at every
  \<open>range\<close>; the two loops of \<open>allow\<close> take that order as a function argument, of which only
  \<open>visits\<close> is assumed: it lists the entries of the map, each once.
\<close>

section \<open>State\<close>

record rateLimitEntry =
  rl_windowStart :: nanos
  rl_count :: int

record rateLimiter =
  rl_requests :: "(string, rateLimitEntry) gomap"
  rl_limit :: int
  rl_window :: nanos
  rl_maxKeys :: int

type_synonym request_map = "(string, rateLimitEntry) gomap"
type_synonym visit_order = "request_map \<Rightarrow> request_map"

definition visits :: "visit_order \<Rightarrow> bool" where
  "visits order \<longleftrightarrow> (\<forall>m. mset (order m) = mset m)"

section \<open>Operations\<close>

definition newRateLimiter :: "int \<Rightarrow> nanos \<Rightarrow> rateLimiter" where
  "newRateLimiter limit window =
     \<lparr>rl_requests = [], rl_limit = limit, rl_window = window, rl_maxKeys = 4096\<rparr>"

definition wsRateLimiter :: rateLimiter where
  "wsRateLimiter = newRateLimiter 60 (60 * 1000000000)"

definition expired :: "nanos \<Rightarrow> nanos \<Rightarrow> rateLimitEntry \<Rightarrow> bool" where
  "expired window now e \<longleftrightarrow> now - rl_windowStart e \<ge> window"

definition sweep :: "visit_order \<Rightarrow> nanos \<Rightarrow> nanos \<Rightarrow> request_map \<Rightarrow> request_map" where
  "sweep order window now m =
     fold (\<lambda>(candidate, e) m. if expired window now e then AList.delete candidate m else m)
       (take 64 (order m)) m"

fun oldest_key :: "request_map \<Rightarrow> (string \<times> nanos) option \<Rightarrow> (string \<times> nanos) option" where
  "oldest_key [] oldest = oldest"
| "oldest_key ((candidate, e) # rest) oldest =
     oldest_key rest
       (case oldest of
          None \<Rightarrow> Some (candidate, rl_windowStart e)
        | Some (k, t) \<Rightarrow> if rl_windowStart e < t then Some (candidate, rl_windowStart e) else oldest)"

definition evict_oldest :: "visit_order \<Rightarrow> request_map \<Rightarrow> request_map" where
  "evict_oldest order m =
     (case oldest_key (order m) None of
        None \<Rightarrow> m
      | Some (oldestKey, _) \<Rightarrow> if oldestKey \<noteq> [] then AList.delete oldestKey m else m)"

definition make_room :: "visit_order \<Rightarrow> visit_order \<Rightarrow> nanos \<Rightarrow> rateLimiter \<Rightarrow> request_map" where
  "make_room order1 order2 now rl =
     (if int (length (rl_requests rl)) \<ge> rl_maxKeys rl
      then let m = sweep order1 (rl_window rl) now (rl_requests rl)
           in if int (length m) \<ge> rl_maxKeys rl then evict_oldest order2 m else m
      else rl_requests rl)"

definition allow ::
  "visit_order \<Rightarrow> visit_order \<Rightarrow> nanos \<Rightarrow> string \<Rightarrow> rateLimiter \<Rightarrow> rateLimiter \<times> bool" where
  "allow order1 order2 now key rl =
     (case map_of (rl_requests rl) key of
        Some entry \<Rightarrow>
          let entry = (if expired (rl_window rl) now entry
                       then \<lparr>rl_windowStart = now, rl_count = 0\<rparr> else entry)
          in if rl_count entry \<ge> rl_limit rl
             then (rl\<lparr>rl_requests := AList.update key entry (rl_requests rl)\<rparr>, False)
             else (rl\<lparr>rl_requests := AList.update key
                        (entry\<lparr>rl_count := rl_count entry + 1\<rparr>) (rl_requests rl)\<rparr>, True)
      | None \<Rightarrow>
          (rl\<lparr>rl_requests := AList.update key \<lparr>rl_windowStart = now, rl_count = 1\<rparr>
                (make_room order1 order2 now rl)\<rparr>, True))"

definition switchWindow :: nanos where
  "switchWindow = 60 * 1000000000"

definition switchLimit :: nat where
  "switchLimit = 6"

definition allowDeviceSwitch :: "nanos list \<Rightarrow> nanos \<Rightarrow> nanos list \<times> bool" where
  "allowDeviceSwitch switches now =
     (let cutoff = now - switchWindow;
          valid = filter (\<lambda>changedAt. cutoff < changedAt) switches
      in if length valid \<ge> switchLimit then (valid, False) else (valid @ [now], True))"

section \<open>Runs\<close>

text \<open>One request: the two visiting orders, the time and the key.\<close>

record request =
  rq_order1 :: visit_order
  rq_order2 :: visit_order
  rq_now :: nanos
  rq_key :: string

definition allow_request :: "request \<Rightarrow> rateLimiter \<Rightarrow> rateLimiter \<times> bool" where
  "allow_request q = allow (rq_order1 q) (rq_order2 q) (rq_now q) (rq_key q)"

inductive limit_step :: "rateLimiter \<Rightarrow> rateLimiter \<Rightarrow> bool" where
  "visits (rq_order1 q) \<Longrightarrow> visits (rq_order2 q) \<Longrightarrow> rq_key q \<noteq> []
   \<Longrightarrow> limit_step rl (fst (allow_request q rl))"

inductive_cases limit_stepE: "limit_step rl rl'"

fun admitted :: "string \<Rightarrow> request list \<Rightarrow> rateLimiter \<Rightarrow> nat" where
  "admitted k [] rl = 0"
| "admitted k (q # qs) rl =
     (case allow_request q rl of
        (rl', ok) \<Rightarrow> (if ok \<and> rq_key q = k then 1 else 0) + admitted k qs rl')"

fun switches_run :: "nanos list \<Rightarrow> nanos list \<Rightarrow> nanos list" where
  "switches_run sw [] = []"
| "switches_run sw (t # ts) =
     (case allowDeviceSwitch sw t of
        (sw', ok) \<Rightarrow> (if ok then [t] else []) @ switches_run sw' ts)"

section \<open>The table stays bounded\<close>

definition limiter_ok :: "rateLimiter \<Rightarrow> bool" where
  "limiter_ok rl \<longleftrightarrow>
     gomap (rl_requests rl) \<and> 1 \<le> rl_limit rl \<and> 1 \<le> rl_maxKeys rl
     \<and> int (length (rl_requests rl)) \<le> rl_maxKeys rl
     \<and> (\<forall>(k, e) \<in> set (rl_requests rl). k \<noteq> [] \<and> 1 \<le> rl_count e \<and> rl_count e \<le> rl_limit rl)"

lemma fold_delete_filter:
  "gomap m \<Longrightarrow>
   gomap (fold (\<lambda>(k, e) m. if P e then AList.delete k m else m) xs m)
   \<and> set (fold (\<lambda>(k, e) m. if P e then AList.delete k m else m) xs m) \<subseteq> set m
   \<and> length (fold (\<lambda>(k, e) m. if P e then AList.delete k m else m) xs m) \<le> length m"
proof (induction xs arbitrary: m)
  case (Cons x xs)
  obtain k e where x: "x = (k, e)" by (cases x)
  define m' where "m' = (if P e then AList.delete k m else m)"
  have m': "gomap m'" "set m' \<subseteq> set m" "length m' \<le> length m"
    using Cons.prems by (auto simp: m'_def gomap_delete set_delete_gomap length_delete)
  have eq: "fold (\<lambda>(k, e) m. if P e then AList.delete k m else m) (x # xs) m
      = fold (\<lambda>(k, e) m. if P e then AList.delete k m else m) xs m'"
    by (simp add: x m'_def)
  show ?case
    unfolding eq using Cons.IH [OF m'(1)] m'(2,3)
    by (elim conjE) (intro conjI, assumption, erule (1) subset_trans, erule (1) le_trans)
qed simp

lemma sweep_smaller:
  assumes "gomap m"
  shows "gomap (sweep order w now m)" "set (sweep order w now m) \<subseteq> set m"
    "length (sweep order w now m) \<le> length m"
  using fold_delete_filter [OF assms, of "expired w now" "take 64 (order m)"]
  by (simp_all add: sweep_def)

lemma oldest_key_mem:
  "oldest_key xs best = Some (k, t) \<Longrightarrow> best = Some (k, t) \<or> (\<exists>e. (k, e) \<in> set xs)"
  by (induction xs best rule: oldest_key.induct) (auto split: option.splits if_splits)

lemma oldest_key_Some: "xs \<noteq> [] \<or> best \<noteq> None \<Longrightarrow> oldest_key xs best \<noteq> None"
  by (induction xs best rule: oldest_key.induct) (auto split: option.splits)

lemma evict_oldest_removes:
  assumes "gomap m" and "visits order" and "m \<noteq> []" and "\<forall>(k, e) \<in> set m. k \<noteq> []"
  shows "\<exists>k. k \<in> fst ` set m \<and> evict_oldest order m = AList.delete k m"
proof -
  have ms: "mset (order m) = mset m" using assms(2) by (simp add: visits_def)
  have set: "set (order m) = set m" and "order m \<noteq> []"
    using mset_eq_setD [OF ms] assms(3) by auto
  then obtain k t where k: "oldest_key (order m) None = Some (k, t)"
    using oldest_key_Some [of "order m" None] by auto
  then obtain e where "(k, e) \<in> set m" using oldest_key_mem [OF k] set by auto
  then show ?thesis using k assms(4) by (force simp: evict_oldest_def)
qed

lemma make_room_ok:
  assumes ok: "limiter_ok rl" and v: "visits o1" "visits o2"
  shows "gomap (make_room o1 o2 now rl)" "set (make_room o1 o2 now rl) \<subseteq> set (rl_requests rl)"
    "int (length (make_room o1 o2 now rl)) < rl_maxKeys rl"
proof -
  let ?m = "sweep o1 (rl_window rl) now (rl_requests rl)"
  have g: "gomap (rl_requests rl)" using ok by (simp add: limiter_ok_def)
  note s = sweep_smaller [OF g, of o1 "rl_window rl" now]
  have key: "\<forall>(k, e) \<in> set ?m. k \<noteq> []" and le: "int (length ?m) \<le> rl_maxKeys rl" "1 \<le> rl_maxKeys rl"
    using ok s(2,3) by (auto simp: limiter_ok_def)
  have evict: "\<exists>k. k \<in> fst ` set ?m \<and> evict_oldest o2 ?m = AList.delete k ?m"
    if "rl_maxKeys rl \<le> int (length ?m)"
    by (rule evict_oldest_removes [OF s(1) v(2) _ key]) (use that le(2) in auto)
  show "gomap (make_room o1 o2 now rl)"
    using g s(1) evict by (auto simp: make_room_def Let_def gomap_delete)
  show "set (make_room o1 o2 now rl) \<subseteq> set (rl_requests rl)"
  proof (cases "rl_maxKeys rl \<le> int (length ?m)")
    case True
    then obtain k where "evict_oldest o2 ?m = AList.delete k ?m" using evict by blast
    then show ?thesis using s(2) by (auto simp: make_room_def Let_def set_delete_gomap)
  qed (use s(2) in \<open>auto simp: make_room_def Let_def\<close>)
  show "int (length (make_room o1 o2 now rl)) < rl_maxKeys rl"
  proof (cases "rl_maxKeys rl \<le> int (length (rl_requests rl)) \<and> rl_maxKeys rl \<le> int (length ?m)")
    case True
    then obtain k where k: "k \<in> fst ` set ?m" "make_room o1 o2 now rl = AList.delete k ?m"
      using evict by (auto simp: make_room_def Let_def)
    then have "length (make_room o1 o2 now rl) = length ?m - 1" and "?m \<noteq> []"
      using s(1) by (auto simp: length_delete)
    then show ?thesis using le by (cases ?m) auto
  qed (auto simp: make_room_def Let_def)
qed

lemma limiter_ok_update:
  assumes "limiter_ok rl" and "gomap m" and "set m \<subseteq> set (rl_requests rl)"
    and "int (length (AList.update key e m)) \<le> rl_maxKeys rl" and "key \<noteq> []"
    and "1 \<le> rl_count e" "rl_count e \<le> rl_limit rl"
  shows "limiter_ok (rl\<lparr>rl_requests := AList.update key e m\<rparr>)"
  using assms by (auto simp: limiter_ok_def gomap_update set_update_gomap)

lemma allow_ok:
  assumes ok: "limiter_ok rl" and v: "visits o1" "visits o2" and key: "key \<noteq> []"
  shows "limiter_ok (fst (allow o1 o2 now key rl))"
proof (cases "map_of (rl_requests rl) key")
  case None
  let ?e = "\<lparr>rl_windowStart = now, rl_count = 1\<rparr>"
  note m = make_room_ok [OF ok v, of now]
  have "int (length (AList.update key ?e (make_room o1 o2 now rl))) \<le> rl_maxKeys rl"
    using length_update_le [of key ?e "make_room o1 o2 now rl"] m(3) by linarith
  moreover have "1 \<le> rl_limit rl" using ok by (simp add: limiter_ok_def)
  ultimately have "limiter_ok (rl\<lparr>rl_requests := AList.update key ?e (make_room o1 o2 now rl)\<rparr>)"
    by (intro limiter_ok_update [OF ok m(1,2) _ key]) simp_all
  then show ?thesis using None by (simp add: allow_def)
next
  case (Some e)
  then have mem: "(key, e) \<in> set (rl_requests rl)" by (rule map_of_in_set)
  then have count: "1 \<le> rl_count e" "rl_count e \<le> rl_limit rl" "1 \<le> rl_limit rl"
    and g: "gomap (rl_requests rl)"
    using ok by (auto simp: limiter_ok_def)
  have len: "int (length (AList.update key e' (rl_requests rl))) \<le> rl_maxKeys rl" for e'
    using mem ok by (force simp: length_update limiter_ok_def)
  let ?e = "if expired (rl_window rl) now e then \<lparr>rl_windowStart = now, rl_count = 0\<rparr> else e"
  let ?e' = "if rl_count ?e \<ge> rl_limit rl then ?e else ?e\<lparr>rl_count := rl_count ?e + 1\<rparr>"
  have "1 \<le> rl_count ?e'" "rl_count ?e' \<le> rl_limit rl" using count by auto
  then have "limiter_ok (rl\<lparr>rl_requests := AList.update key ?e' (rl_requests rl)\<rparr>)"
    by (intro limiter_ok_update [OF ok g order_refl len key])
  moreover have "fst (allow o1 o2 now key rl) = rl\<lparr>rl_requests := AList.update key ?e' (rl_requests rl)\<rparr>"
    using Some by (simp add: allow_def Let_def)
  ultimately show ?thesis by simp
qed

interpretation limiter: step_invariant limit_step limiter_ok
  by unfold_locales (auto simp: allow_request_def allow_ok elim!: limit_stepE)

text \<open>The limiter's memory is bounded.  Whatever keys and times the requests have, and in whatever
  order the loops visit the table, it never has more than its 4096 entries, one per key, and
  no entry counts more requests than the limit.\<close>

theorem rate_table_bounded:
  assumes "limit_step\<^sup>*\<^sup>* (newRateLimiter limit window) rl" and "1 \<le> limit"
  shows "length (rl_requests rl) \<le> 4096 \<and> distinct (map fst (rl_requests rl))
    \<and> (\<forall>k e. map_of (rl_requests rl) k = Some e \<longrightarrow> 1 \<le> rl_count e \<and> rl_count e \<le> limit)"
proof -
  have same: "rl_limit rl = limit \<and> rl_maxKeys rl = 4096"
    using assms(1)
    by (induction rule: rtranclp_induct)
      (auto simp: newRateLimiter_def allow_request_def allow_def Let_def elim!: limit_stepE split: option.splits)
  have "limiter_ok rl"
    by (rule limiter.steps_keep [OF assms(1)]) (simp add: limiter_ok_def newRateLimiter_def assms(2))
  then show ?thesis using same by (auto simp: limiter_ok_def gomap_def dest!: map_of_in_set)
qed

section \<open>How many requests a window admits\<close>

text \<open>What a key may still be admitted for by calls at times in \<open>[a, a + window)\<close>.\<close>

definition room :: "nanos \<Rightarrow> string \<Rightarrow> rateLimiter \<Rightarrow> int" where
  "room a k rl =
     (case map_of (rl_requests rl) k of
        None \<Rightarrow> rl_limit rl
      | Some e \<Rightarrow> (if rl_windowStart e < a then rl_limit rl else 0) + rl_limit rl - rl_count e)"

definition counts_ok :: "rateLimiter \<Rightarrow> bool" where
  "counts_ok rl \<longleftrightarrow> 1 \<le> rl_limit rl
     \<and> (\<forall>k e. map_of (rl_requests rl) k = Some e \<longrightarrow> 0 \<le> rl_count e \<and> rl_count e \<le> rl_limit rl)"

lemma counts_okD: "counts_ok rl \<Longrightarrow> map_of (rl_requests rl) k = Some e \<Longrightarrow> 0 \<le> rl_count e \<and> rl_count e \<le> rl_limit rl"
  by (simp add: counts_ok_def)

lemma room_range: "counts_ok rl \<Longrightarrow> 0 \<le> room a k rl"
  "counts_ok rl \<Longrightarrow> room a k rl \<le> (if map_of (rl_requests rl) k = None then rl_limit rl else 2 * rl_limit rl)"
  by (cases "map_of (rl_requests rl) k"; force simp: room_def counts_ok_def dest: counts_okD)+

lemma room_update [simp]:
  "room a k (rl\<lparr>rl_requests := AList.update key e (rl_requests rl)\<rparr>)
   = (if key = k then (if rl_windowStart e < a then rl_limit rl else 0) + rl_limit rl - rl_count e
      else room a k rl)"
  by (cases "map_of (rl_requests rl) k") (simp_all add: room_def)

lemma counts_ok_update:
  "counts_ok rl \<Longrightarrow> 0 \<le> rl_count e \<Longrightarrow> rl_count e \<le> rl_limit rl
   \<Longrightarrow> counts_ok (rl\<lparr>rl_requests := AList.update key e (rl_requests rl)\<rparr>)"
  by (simp add: counts_ok_def)

lemma allow_fits:
  assumes "map_of (rl_requests rl) key = None \<longrightarrow> int (length (rl_requests rl)) < rl_maxKeys rl"
  shows "\<exists>e. fst (allow o1 o2 now key rl) = rl\<lparr>rl_requests := AList.update key e (rl_requests rl)\<rparr>"
  using assms by (auto simp: allow_def make_room_def Let_def split: option.splits)

lemma allow_room:
  assumes "counts_ok rl" and "a \<le> now" "now < a + rl_window rl"
    and "map_of (rl_requests rl) key = None \<longrightarrow> int (length (rl_requests rl)) < rl_maxKeys rl"
    and "allow o1 o2 now key rl = (rl', ok)"
  shows "(if ok \<and> key = k then 1 else 0) + room a k rl' \<le> room a k rl \<and> counts_ok rl'"
proof (cases "map_of (rl_requests rl) key")
  case None
  then have "make_room o1 o2 now rl = rl_requests rl"
    using assms(4) by (simp add: make_room_def)
  then have "rl' = rl\<lparr>rl_requests := AList.update key \<lparr>rl_windowStart = now, rl_count = 1\<rparr> (rl_requests rl)\<rparr>"
    and "ok" using assms(5) None by (simp_all add: allow_def)
  moreover have "room a key rl = rl_limit rl" "1 \<le> rl_limit rl"
    using None assms(1) by (simp_all add: room_def counts_ok_def)
  ultimately show ?thesis using assms(1,2) by (auto simp: counts_ok_update)
next
  case (Some e)
  then have e: "0 \<le> rl_count e" "rl_count e \<le> rl_limit rl" "1 \<le> rl_limit rl"
    using assms(1) counts_okD [OF assms(1) Some] by (auto simp: counts_ok_def)
  let ?e = "if expired (rl_window rl) now e then \<lparr>rl_windowStart = now, rl_count = 0\<rparr> else e"
  let ?e' = "if rl_count ?e \<ge> rl_limit rl then ?e else ?e\<lparr>rl_count := rl_count ?e + 1\<rparr>"
  have rl': "rl' = rl\<lparr>rl_requests := AList.update key ?e' (rl_requests rl)\<rparr>"
    and ok: "ok \<longleftrightarrow> rl_count ?e < rl_limit rl"
    using assms(5) Some by (auto simp: allow_def Let_def split: if_splits)
  have "room a key rl = (if rl_windowStart e < a then rl_limit rl else 0) + rl_limit rl - rl_count e"
    using Some by (simp add: room_def)
  then show ?thesis
    using e assms(1-3) unfolding rl' ok by (auto simp: expired_def intro: counts_ok_update)
qed

lemma admitted_room:
  assumes "counts_ok rl" and "gomap (rl_requests rl)"
    and "\<forall>q \<in> set qs. a \<le> rq_now q \<and> rq_now q < a + rl_window rl"
    and "card (fst ` set (rl_requests rl) \<union> rq_key ` set qs) \<le> nat (rl_maxKeys rl)"
  shows "int (admitted k qs rl) \<le> room a k rl"
  using assms
proof (induction qs arbitrary: rl)
  case Nil
  then show ?case using room_range(1) by simp
next
  case (Cons q qs)
  let ?keys = "fst ` set (rl_requests rl)"
  obtain rl' ok where step: "allow_request q rl = (rl', ok)" by (cases "allow_request q rl")
  have "int (length (rl_requests rl)) < rl_maxKeys rl" if "map_of (rl_requests rl) (rq_key q) = None"
  proof -
    have "rq_key q \<notin> ?keys" using that by (simp add: map_of_eq_None_iff)
    moreover have "length (rl_requests rl) = card ?keys"
      using distinct_card [of "map fst (rl_requests rl)"] Cons.prems(2) by (simp add: gomap_def)
    ultimately have "Suc (length (rl_requests rl)) = card (insert (rq_key q) ?keys)" by simp
    also have "\<dots> \<le> card (?keys \<union> rq_key ` set (q # qs))" by (rule card_mono) auto
    finally show ?thesis using Cons.prems(4) by linarith
  qed
  then have fits: "map_of (rl_requests rl) (rq_key q) = None \<longrightarrow> int (length (rl_requests rl)) < rl_maxKeys rl"
    by blast
  then obtain e where rl': "rl' = rl\<lparr>rl_requests := AList.update (rq_key q) e (rl_requests rl)\<rparr>"
    using allow_fits [OF fits] step by (metis allow_request_def fst_conv)
  have less: "(if ok \<and> rq_key q = k then 1 else 0) + room a k rl' \<le> room a k rl" "counts_ok rl'"
    using allow_room [OF Cons.prems(1) _ _ fits, of a "rq_now q"] Cons.prems(3) step
    by (simp_all add: allow_request_def)
  have "fst ` set (rl_requests rl') \<union> rq_key ` set qs = ?keys \<union> rq_key ` set (q # qs)"
    using Cons.prems(2) by (force simp: rl' set_update_gomap)
  then have "int (admitted k qs rl') \<le> room a k rl'"
    using Cons.IH [OF less(2)] Cons.prems by (simp add: rl' gomap_update)
  then show ?case using less(1) step by (auto split: if_splits)
qed

text \<open>The limit holds in every window.  Take any requests that arrive within one window's length
  while the table has room for all their keys: a key is admitted at most the limit when it had
  no entry before, and never more than twice the limit.\<close>

theorem rate_limit_per_window:
  assumes "limit_step\<^sup>*\<^sup>* (newRateLimiter limit window) rl" and "1 \<le> limit"
    and "\<forall>q \<in> set qs. a \<le> rq_now q \<and> rq_now q < a + window"
    and "card (fst ` set (rl_requests rl) \<union> rq_key ` set qs) \<le> 4096"
  shows "int (admitted k qs rl) \<le> (if map_of (rl_requests rl) k = None then limit else 2 * limit)"
proof -
  have same: "rl_limit rl = limit \<and> rl_maxKeys rl = 4096 \<and> rl_window rl = window"
    using assms(1)
    by (induction rule: rtranclp_induct)
      (auto simp: newRateLimiter_def allow_request_def allow_def Let_def elim!: limit_stepE split: option.splits)
  have ok: "limiter_ok rl"
    by (rule limiter.steps_keep [OF assms(1)]) (simp add: limiter_ok_def newRateLimiter_def assms(2))
  then have counts: "counts_ok rl" and "gomap (rl_requests rl)"
    by (auto simp: limiter_ok_def counts_ok_def dest!: map_of_in_set)
  then have "int (admitted k qs rl) \<le> room a k rl"
    using admitted_room [OF counts] assms(3,4) same by simp
  also have "\<dots> \<le> (if map_of (rl_requests rl) k = None then limit else 2 * limit)"
    using room_range(2) [OF counts, of a k] same by (auto split: if_splits)
  finally show ?thesis .
qed

section \<open>Switching devices\<close>

definition in_window :: "nanos \<Rightarrow> nanos list \<Rightarrow> nat" where
  "in_window t as = length (filter (\<lambda>a. t - switchWindow < a \<and> a \<le> t) as)"

lemma switches_bounded:
  assumes "sorted ts" and "\<forall>t \<in> set ts. l \<le> t" and "\<forall>a \<in> set as. a \<le> l"
    and "sw = filter (\<lambda>a. l - switchWindow < a) as" and "\<forall>t. in_window t as \<le> switchLimit"
  shows "in_window t (as @ switches_run sw ts) \<le> switchLimit"
  using assms
proof (induction ts arbitrary: l sw as)
  case (Cons n ts)
  let ?valid = "filter (\<lambda>a. n - switchWindow < a) as"
  have n: "l \<le> n" using Cons.prems(2) by simp
  have valid: "filter (\<lambda>c. n - switchWindow < c) sw = ?valid"
    using n unfolding Cons.prems(4) filter_filter by (auto intro!: filter_cong)
  have later: "sorted ts" "\<forall>t \<in> set ts. n \<le> t" "\<forall>a \<in> set as. a \<le> n"
    using Cons.prems(1,3) n by auto
  show ?case
  proof (cases "length ?valid \<ge> switchLimit")
    case True
    then have "switches_run sw (n # ts) = switches_run ?valid ts"
      by (simp add: allowDeviceSwitch_def Let_def valid)
    then show ?thesis using Cons.IH [OF later refl Cons.prems(5)] by simp
  next
    case False
    then have run: "switches_run sw (n # ts) = n # switches_run (?valid @ [n]) ts"
      by (simp add: allowDeviceSwitch_def Let_def valid)
    have "in_window u (as @ [n]) \<le> switchLimit" for u
    proof (cases "u - switchWindow < n \<and> n \<le> u")
      case True
      then have "in_window u as \<le> length ?valid"
        unfolding in_window_def by (intro filter_length_mono) auto
      then show ?thesis using True False by (simp add: in_window_def)
    next
      case False
      then show ?thesis using Cons.prems(5) by (auto simp: in_window_def)
    qed
    moreover have "?valid @ [n] = filter (\<lambda>a. n - switchWindow < a) (as @ [n])"
      by (simp add: switchWindow_def)
    moreover have "\<forall>a \<in> set (as @ [n]). a \<le> n" using later(3) by simp
    ultimately show ?thesis
      using Cons.IH [OF later(1,2)] run by (metis append.assoc append_Cons append_Nil)
  qed
qed simp

text \<open>At most six device switches per minute.  For requests in the order of their times, every
  span of one minute has at most six that \<open>allowDeviceSwitch\<close> lets through.\<close>

theorem device_switch_limit:
  assumes "sorted ts"
  shows "length (filter (\<lambda>a. t - switchWindow < a \<and> a \<le> t) (switches_run [] ts)) \<le> switchLimit"
proof (cases ts)
  case (Cons n rest)
  then have "in_window t ([] @ switches_run [] ts) \<le> switchLimit"
    using assms by (intro switches_bounded [of ts n]) (auto simp: in_window_def)
  then show ?thesis by (simp add: in_window_def)
qed simp

section \<open>Concrete runs\<close>

definition demo_request :: "nanos \<Rightarrow> request" where
  "demo_request now = \<lparr>rq_order1 = id, rq_order2 = rev, rq_now = now, rq_key = ''10.0.0.1''\<rparr>"

lemma demo_limit_step: "limit_step rl (fst (allow_request (demo_request now) rl))"
  by (rule limit_step.intros) (simp_all add: demo_request_def visits_def)

theorem rate_table_bounded_witness:
  "length (rl_requests (fst (allow_request (demo_request 5) wsRateLimiter))) \<le> 4096"
proof -
  have "limit_step\<^sup>*\<^sup>* wsRateLimiter (fst (allow_request (demo_request 5) wsRateLimiter))"
    using demo_limit_step by (rule r_into_rtranclp)
  then show ?thesis
    using rate_table_bounded [of 60 "60 * 1000000000"] by (simp add: wsRateLimiter_def)
qed

theorem rate_limit_per_window_witness:
  "admitted ''10.0.0.1'' [demo_request 1, demo_request 2, demo_request 3] (newRateLimiter 2 10) = 2
   \<and> int (admitted ''10.0.0.1'' [demo_request 1, demo_request 2, demo_request 3] (newRateLimiter 2 10)) \<le> 2"
proof
  let ?qs = "[demo_request 1, demo_request 2, demo_request 3]"
  show "admitted ''10.0.0.1'' ?qs (newRateLimiter 2 10) = 2"
    by (simp add: demo_request_def allow_request_def allow_def newRateLimiter_def make_room_def expired_def Let_def)
  have "\<forall>q \<in> set ?qs. 0 \<le> rq_now q \<and> rq_now q < 0 + 10"
    and "card (fst ` set (rl_requests (newRateLimiter 2 10)) \<union> rq_key ` set ?qs) \<le> 4096"
    by (simp_all add: demo_request_def newRateLimiter_def)
  from rate_limit_per_window [OF rtranclp.rtrancl_refl _ this, of "''10.0.0.1''"]
  show "int (admitted ''10.0.0.1'' ?qs (newRateLimiter 2 10)) \<le> 2"
    by (simp only: newRateLimiter_def) simp
qed

theorem device_switch_limit_witness:
  "length (filter (\<lambda>a. 9 - switchWindow < a \<and> a \<le> 9) (switches_run [] [1, 2, 3, 4, 5, 6, 7, 8, 9])) \<le> 6"
  using device_switch_limit [of "[1, 2, 3, 4, 5, 6, 7, 8, 9]" 9] by (simp add: switchLimit_def)

end
