(* ===== verification/Principals.thy ===== *)
theory Principals
  imports Daemon_Registry Phone_Registry
begin

text \<open>
  Bearer credentials (\<open>relaycore/principals.go\<close>, the \<open>Credential\<close> type of \<open>relaycore/ports.go\<close>
  and the synchronization calls of \<open>relaycore/engine.go\<close>).

  The registry keeps only digests.  \<open>sha\<close> stands for \<open>hex(sha256(.))\<close>; nothing is assumed of it.
  The loop of \<open>ValidatePhoneToken\<close> over a map takes its visiting order as an argument.  The locale
  \<open>credential_table\<close> is the contract the device table and the phone table share.
\<close>

section \<open>State\<close>

datatype CredentialKind = CredentialRaw | CredentialSHA256 | CredentialOther string

record Credential =
  cr_Kind :: CredentialKind
  cr_Value :: string

record phoneCredential =
  ph_Digest :: string
  ph_Name :: string

record DigestPrincipalRegistry =
  dp_devices :: "(string, string) gomap"
  dp_phones :: "(string, phoneCredential) gomap"

record PhoneAuth =
  au_PhoneID :: string
  au_Name :: string
  au_AdminBypass :: bool

datatype principal_error =
    DeviceIDRequired
  | PhoneIDRequired
  | CredentialRequired
  | InvalidCredentialKind
  | InvalidCredentialDigest
  | ErrCredentialIdentityConflict
  | ErrPhoneTokenInvalid
  | SyncNotConfigured

definition NewDigestPrincipalRegistry :: DigestPrincipalRegistry where
  "NewDigestPrincipalRegistry = \<lparr>dp_devices = [], dp_phones = []\<rparr>"

section \<open>Credentials\<close>

definition validateCredential :: "Credential \<Rightarrow> principal_error option" where
  "validateCredential credential =
     (if cr_Value credential = [] then Some CredentialRequired
      else if cr_Kind credential = CredentialRaw then None
      else if cr_Kind credential \<noteq> CredentialSHA256 \<or> length (cr_Value credential) \<noteq> 64
      then Some InvalidCredentialKind
      else if \<not> list_all (\<lambda>r. r \<in> set ''0123456789abcdef'') (cr_Value credential)
      then Some InvalidCredentialDigest
      else None)"

definition rawCredentialDigest :: "(string \<Rightarrow> string) \<Rightarrow> string \<Rightarrow> string" where
  "rawCredentialDigest sha raw = sha raw"

definition SHA256Credential :: "(string \<Rightarrow> string) \<Rightarrow> string \<Rightarrow> Credential" where
  "SHA256Credential sha raw = \<lparr>cr_Kind = CredentialSHA256, cr_Value = sha raw\<rparr>"

definition credentialDigest :: "(string \<Rightarrow> string) \<Rightarrow> Credential \<Rightarrow> principal_error + string" where
  "credentialDigest sha credential =
     (case validateCredential credential of
        Some e \<Rightarrow> Inl e
      | None \<Rightarrow> if cr_Kind credential = CredentialRaw
                then Inr (rawCredentialDigest sha (cr_Value credential))
                else Inr (cr_Value credential))"

definition constantDigestEqual :: "string \<Rightarrow> string \<Rightarrow> bool" where
  "constantDigestEqual a b \<longleftrightarrow> length a = length b \<and> a = b"

section \<open>The registry\<close>

definition SyncDevice ::
  "(string \<Rightarrow> string) \<Rightarrow> string \<Rightarrow> Credential \<Rightarrow> DigestPrincipalRegistry
   \<Rightarrow> DigestPrincipalRegistry \<times> principal_error option" where
  "SyncDevice sha devID credential r =
     (if devID = [] then (r, Some DeviceIDRequired)
      else (case credentialDigest sha credential of
              Inl e \<Rightarrow> (r, Some e)
            | Inr digest \<Rightarrow>
                if list_ex (\<lambda>(existingID, existing). existingID \<noteq> devID
                              \<and> constantDigestEqual existing digest) (dp_devices r)
                then (r, Some ErrCredentialIdentityConflict)
                else (r\<lparr>dp_devices := AList.update devID digest (dp_devices r)\<rparr>, None)))"

definition RevokeDevice :: "string \<Rightarrow> DigestPrincipalRegistry \<Rightarrow> DigestPrincipalRegistry" where
  "RevokeDevice devID r = r\<lparr>dp_devices := AList.delete devID (dp_devices r)\<rparr>"

definition SyncPhone ::
  "(string \<Rightarrow> string) \<Rightarrow> string \<Rightarrow> string \<Rightarrow> Credential \<Rightarrow> DigestPrincipalRegistry
   \<Rightarrow> DigestPrincipalRegistry \<times> principal_error option" where
  "SyncPhone sha phoneID name credential r =
     (if phoneID = [] then (r, Some PhoneIDRequired)
      else (case credentialDigest sha credential of
              Inl e \<Rightarrow> (r, Some e)
            | Inr digest \<Rightarrow>
                if list_ex (\<lambda>(existingID, existing). existingID \<noteq> phoneID
                              \<and> constantDigestEqual (ph_Digest existing) digest) (dp_phones r)
                then (r, Some ErrCredentialIdentityConflict)
                else (r\<lparr>dp_phones := AList.update phoneID \<lparr>ph_Digest = digest, ph_Name = name\<rparr>
                          (dp_phones r)\<rparr>, None)))"

definition RevokePhone :: "string \<Rightarrow> DigestPrincipalRegistry \<Rightarrow> DigestPrincipalRegistry" where
  "RevokePhone phoneID r = r\<lparr>dp_phones := AList.delete phoneID (dp_phones r)\<rparr>"

definition ValidateDeviceToken ::
  "(string \<Rightarrow> string) \<Rightarrow> DigestPrincipalRegistry \<Rightarrow> string \<Rightarrow> string \<Rightarrow> bool" where
  "ValidateDeviceToken sha r devID raw =
     (case map_of (dp_devices r) devID of
        None \<Rightarrow> False
      | Some want \<Rightarrow> constantDigestEqual want (rawCredentialDigest sha raw))"

definition ValidatePhoneToken ::
  "(string \<Rightarrow> string) \<Rightarrow> ((string, phoneCredential) gomap \<Rightarrow> (string, phoneCredential) gomap)
   \<Rightarrow> DigestPrincipalRegistry \<Rightarrow> string \<Rightarrow> principal_error + PhoneAuth" where
  "ValidatePhoneToken sha order r raw =
     (case List.find (\<lambda>(i, phone). constantDigestEqual (ph_Digest phone) (rawCredentialDigest sha raw))
             (order (dp_phones r)) of
        None \<Rightarrow> Inl ErrPhoneTokenInvalid
      | Some (i, phone) \<Rightarrow> Inr \<lparr>au_PhoneID = i, au_Name = ph_Name phone, au_AdminBypass = False\<rparr>)"

section \<open>The engine's synchronization calls\<close>

text \<open>\<open>en_synchronizer\<close> is nil in a deployment that does not import credentials.\<close>

record principal_engine =
  en_synchronizer :: "DigestPrincipalRegistry option"
  en_daemons :: registry
  en_phones :: phone_registry

definition SyncApprovedDevice ::
  "(string \<Rightarrow> string) \<Rightarrow> string \<Rightarrow> Credential \<Rightarrow> principal_engine \<Rightarrow> principal_engine \<times> principal_error option" where
  "SyncApprovedDevice sha devID credential s =
     (case en_synchronizer s of
        None \<Rightarrow> (s, Some SyncNotConfigured)
      | Some r \<Rightarrow>
          (case validateCredential credential of
             Some e \<Rightarrow> (s, Some e)
           | None \<Rightarrow> (case SyncDevice sha devID credential r of
                       (r', err) \<Rightarrow> (s\<lparr>en_synchronizer := Some r'\<rparr>, err))))"

definition RevokeApprovedDevice :: "string \<Rightarrow> principal_engine \<Rightarrow> principal_engine \<times> principal_error option" where
  "RevokeApprovedDevice devID s =
     (case en_synchronizer s of
        None \<Rightarrow> (s, Some SyncNotConfigured)
      | Some r \<Rightarrow>
          (s\<lparr>en_synchronizer := Some (RevokeDevice devID r),
             en_daemons := (case map_of (reg_conns (en_daemons s)) devID of
                              None \<Rightarrow> en_daemons s
                            | Some dc \<Rightarrow> close_socket dc (en_daemons s))\<rparr>, None))"

definition SyncApprovedPhone ::
  "(string \<Rightarrow> string) \<Rightarrow> string \<Rightarrow> string \<Rightarrow> Credential \<Rightarrow> principal_engine
   \<Rightarrow> principal_engine \<times> principal_error option" where
  "SyncApprovedPhone sha phoneID name credential s =
     (case en_synchronizer s of
        None \<Rightarrow> (s, Some SyncNotConfigured)
      | Some r \<Rightarrow>
          (case validateCredential credential of
             Some e \<Rightarrow> (s, Some e)
           | None \<Rightarrow> (case SyncPhone sha phoneID name credential r of
                       (r', err) \<Rightarrow> (s\<lparr>en_synchronizer := Some r'\<rparr>, err))))"

definition RevokeApprovedPhone :: "string \<Rightarrow> principal_engine \<Rightarrow> principal_engine \<times> principal_error option" where
  "RevokeApprovedPhone phoneID s =
     (case en_synchronizer s of
        None \<Rightarrow> (s, Some SyncNotConfigured)
      | Some r \<Rightarrow>
          (s\<lparr>en_synchronizer := Some (RevokePhone phoneID r),
             en_phones := fst (ClosePhonesByPrincipal phoneID (en_phones s))\<rparr>, None))"

section \<open>The contract of a credential table\<close>

text \<open>
  \<open>digest_of s i\<close> is the digest stored for identity \<open>i\<close>.  \<open>enrol\<close> either stores a digest that no
  other identity has, or leaves the table alone; \<open>revoke\<close> removes one identity.
\<close>

locale credential_table =
  fixes digest_of :: "'s \<Rightarrow> string \<Rightarrow> string option"
    and enrol :: "string \<Rightarrow> 'c \<Rightarrow> 's \<Rightarrow> 's"
    and revoke :: "string \<Rightarrow> 's \<Rightarrow> 's"
  assumes enrol_cases:
      "digest_of (enrol i c s) = digest_of s
       \<or> (\<exists>d. digest_of (enrol i c s) = (digest_of s)(i \<mapsto> d) \<and> (\<forall>j. j \<noteq> i \<longrightarrow> digest_of s j \<noteq> Some d))"
    and revoke_digest: "digest_of (revoke i s) = (digest_of s)(i := None)"
begin

definition unshared :: "'s \<Rightarrow> bool" where
  "unshared s \<longleftrightarrow> (\<forall>i j d. digest_of s i = Some d \<and> digest_of s j = Some d \<longrightarrow> i = j)"

lemma unshared_enrol: "unshared s \<Longrightarrow> unshared (enrol i c s)"
  using enrol_cases [of i c s]
proof
  assume u: "unshared s" and "\<exists>d. digest_of (enrol i c s) = (digest_of s)(i \<mapsto> d)
    \<and> (\<forall>j. j \<noteq> i \<longrightarrow> digest_of s j \<noteq> Some d)"
  then obtain d where "digest_of (enrol i c s) = (digest_of s)(i \<mapsto> d)"
    and "\<forall>j. j \<noteq> i \<longrightarrow> digest_of s j \<noteq> Some d" by blast
  then show ?thesis using u by (auto simp: unshared_def split: if_splits)
qed (simp add: unshared_def)

lemma unshared_revoke: "unshared s \<Longrightarrow> unshared (revoke i s)"
  by (simp add: unshared_def revoke_digest)

end

section \<open>The two tables of the registry\<close>

lemma constantDigestEqual_iff [simp]: "constantDigestEqual a b \<longleftrightarrow> a = b"
  by (auto simp: constantDigestEqual_def)

lemma SyncDevice_cases:
  obtains (refused) e where "SyncDevice sha i c r = (r, Some e)"
  | (stored) d where "credentialDigest sha c = Inr d" and "i \<noteq> []"
      and "\<forall>j. j \<noteq> i \<longrightarrow> (j, d) \<notin> set (dp_devices r)"
      and "SyncDevice sha i c r = (r\<lparr>dp_devices := AList.update i d (dp_devices r)\<rparr>, None)"
proof (cases "i = []")
  case True
  then show thesis by (intro refused) (simp add: SyncDevice_def)
next
  case False
  show thesis
  proof (cases "credentialDigest sha c")
    case (Inl e)
    then show thesis using False by (intro refused) (simp add: SyncDevice_def)
  next
    case (Inr d)
    show thesis
    proof (cases "(\<forall>j. j \<noteq> i \<longrightarrow> (j, d) \<notin> set (dp_devices r))")
      case True
      then have "\<not> list_ex (\<lambda>(j, x). j \<noteq> i \<and> constantDigestEqual x d) (dp_devices r)"
        by (auto simp: list_ex_iff)
      then show thesis using Inr False True by (intro stored) (simp_all add: SyncDevice_def)
    next
      case clash: False
      then have "list_ex (\<lambda>(j, x). j \<noteq> i \<and> constantDigestEqual x d) (dp_devices r)"
        by (auto simp: list_ex_iff)
      then show thesis using Inr False by (intro refused) (simp add: SyncDevice_def)
    qed
  qed
qed

lemma SyncPhone_cases:
  obtains (refused) e where "SyncPhone sha i n c r = (r, Some e)"
  | (stored) d where "credentialDigest sha c = Inr d" and "i \<noteq> []"
      and "\<forall>j p. j \<noteq> i \<and> ph_Digest p = d \<longrightarrow> (j, p) \<notin> set (dp_phones r)"
      and "SyncPhone sha i n c r
           = (r\<lparr>dp_phones := AList.update i \<lparr>ph_Digest = d, ph_Name = n\<rparr> (dp_phones r)\<rparr>, None)"
proof (cases "i = []")
  case True
  then show thesis by (intro refused) (simp add: SyncPhone_def)
next
  case False
  show thesis
  proof (cases "credentialDigest sha c")
    case (Inl e)
    then show thesis using False by (intro refused) (simp add: SyncPhone_def)
  next
    case (Inr d)
    show thesis
    proof (cases "(\<forall>j p. j \<noteq> i \<and> ph_Digest p = d \<longrightarrow> (j, p) \<notin> set (dp_phones r))")
      case True
      then have "\<not> list_ex (\<lambda>(j, x). j \<noteq> i \<and> constantDigestEqual (ph_Digest x) d) (dp_phones r)"
        by (auto simp: list_ex_iff)
      then show thesis using Inr False True by (intro stored) (simp_all add: SyncPhone_def)
    next
      case clash: False
      then have "list_ex (\<lambda>(j, x). j \<noteq> i \<and> constantDigestEqual (ph_Digest x) d) (dp_phones r)"
        by (auto simp: list_ex_iff)
      then show thesis using Inr False by (intro refused) (simp add: SyncPhone_def)
    qed
  qed
qed

definition device_digest :: "DigestPrincipalRegistry \<Rightarrow> string \<Rightarrow> string option" where
  "device_digest r i = map_of (dp_devices r) i"

definition phone_digest :: "DigestPrincipalRegistry \<Rightarrow> string \<Rightarrow> string option" where
  "phone_digest r i = map_option ph_Digest (map_of (dp_phones r) i)"

interpretation device_table: credential_table device_digest "\<lambda>i c r. fst (SyncDevice sha i c r)" RevokeDevice
  for sha :: "string \<Rightarrow> string"
proof
  fix i c r
  show "device_digest (fst (SyncDevice sha i c r)) = device_digest r
    \<or> (\<exists>d. device_digest (fst (SyncDevice sha i c r)) = (device_digest r)(i \<mapsto> d)
         \<and> (\<forall>j. j \<noteq> i \<longrightarrow> device_digest r j \<noteq> Some d))"
  proof (cases rule: SyncDevice_cases [of sha i c r])
    case (stored d)
    then have "device_digest (fst (SyncDevice sha i c r)) = (device_digest r)(i \<mapsto> d)"
      by (auto simp: device_digest_def)
    then show ?thesis using stored(3) by (auto simp: device_digest_def dest: map_of_in_set)
  qed simp
  show "device_digest (RevokeDevice i r) = (device_digest r)(i := None)"
    by (auto simp: device_digest_def RevokeDevice_def)
qed

interpretation phone_table: credential_table phone_digest "\<lambda>i (n, c) r. fst (SyncPhone sha i n c r)" RevokePhone
  for sha :: "string \<Rightarrow> string"
proof
  fix i and nc :: "string \<times> Credential" and r
  obtain n c where nc: "nc = (n, c)" by (cases nc)
  have "phone_digest (fst (SyncPhone sha i n c r)) = phone_digest r
    \<or> (\<exists>d. phone_digest (fst (SyncPhone sha i n c r)) = (phone_digest r)(i \<mapsto> d)
         \<and> (\<forall>j. j \<noteq> i \<longrightarrow> phone_digest r j \<noteq> Some d))"
  proof (cases rule: SyncPhone_cases [of sha i n c r])
    case (stored d)
    then have "phone_digest (fst (SyncPhone sha i n c r)) = (phone_digest r)(i \<mapsto> d)"
      by (auto simp: phone_digest_def)
    moreover have "\<forall>j. j \<noteq> i \<longrightarrow> phone_digest r j \<noteq> Some d"
      using stored(3) by (auto simp: phone_digest_def dest: map_of_in_set)
    ultimately show ?thesis by blast
  qed simp
  then show "phone_digest ((\<lambda>(n, c) r. fst (SyncPhone sha i n c r)) nc r) = phone_digest r
    \<or> (\<exists>d. phone_digest ((\<lambda>(n, c) r. fst (SyncPhone sha i n c r)) nc r) = (phone_digest r)(i \<mapsto> d)
         \<and> (\<forall>j. j \<noteq> i \<longrightarrow> phone_digest r j \<noteq> Some d))"
    by (simp add: nc)
  show "phone_digest (RevokePhone i r) = (phone_digest r)(i := None)"
    by (auto simp: phone_digest_def RevokePhone_def)
qed

section \<open>Reachable registries\<close>

inductive principal_step :: "(string \<Rightarrow> string) \<Rightarrow> DigestPrincipalRegistry \<Rightarrow> DigestPrincipalRegistry \<Rightarrow> bool"
  for sha where
  "principal_step sha r (fst (SyncDevice sha i c r))"
| "principal_step sha r (RevokeDevice i r)"
| "principal_step sha r (fst (SyncPhone sha i n c r))"
| "principal_step sha r (RevokePhone i r)"

inductive_cases principal_stepE: "principal_step sha r r'"

definition principals_ok :: "DigestPrincipalRegistry \<Rightarrow> bool" where
  "principals_ok r \<longleftrightarrow> gomap (dp_devices r) \<and> gomap (dp_phones r)
     \<and> device_table.unshared r \<and> phone_table.unshared r"

lemma sync_frame:
  "gomap (dp_devices r) \<Longrightarrow> gomap (dp_devices (fst (SyncDevice sha i c r)))"
  "dp_phones (fst (SyncDevice sha i c r)) = dp_phones r"
  "gomap (dp_phones r) \<Longrightarrow> gomap (dp_phones (fst (SyncPhone sha i n c r)))"
  "dp_devices (fst (SyncPhone sha i n c r)) = dp_devices r"
proof -
  show "gomap (dp_devices r) \<Longrightarrow> gomap (dp_devices (fst (SyncDevice sha i c r)))"
    "dp_phones (fst (SyncDevice sha i c r)) = dp_phones r"
    by (cases rule: SyncDevice_cases [of sha i c r]; simp add: gomap_update)+
  show "gomap (dp_phones r) \<Longrightarrow> gomap (dp_phones (fst (SyncPhone sha i n c r)))"
    "dp_devices (fst (SyncPhone sha i n c r)) = dp_devices r"
    by (cases rule: SyncPhone_cases [of sha i n c r]; simp add: gomap_update)+
qed

lemma unshared_frame:
  "dp_devices r' = dp_devices r \<Longrightarrow> device_table.unshared r' = device_table.unshared r"
  "dp_phones r' = dp_phones r \<Longrightarrow> phone_table.unshared r' = phone_table.unshared r"
  by (simp_all add: device_table.unshared_def phone_table.unshared_def device_digest_def phone_digest_def)

lemma principal_step_ok: "principals_ok r \<Longrightarrow> principal_step sha r r' \<Longrightarrow> principals_ok r'"
proof (erule principal_stepE)
  assume ok: "principals_ok r"
  show "principals_ok r'" if "r' = fst (SyncDevice sha i c r)" for i c
    using ok device_table.unshared_enrol [where s = r and sha = sha and i = i and c = c] sync_frame(1) [of r sha i c] sync_frame(2) [of sha i c r]
      unshared_frame(2) [of r' r] unfolding that principals_ok_def by simp
  show "principals_ok r'" if "r' = RevokeDevice i r" for i
    using ok device_table.unshared_revoke [where s = r and i = i] unshared_frame(2) [of r' r]
    unfolding that principals_ok_def by (simp add: RevokeDevice_def gomap_delete)
  show "principals_ok r'" if "r' = fst (SyncPhone sha i n c r)" for i n c
    using ok phone_table.unshared_enrol [where s = r and sha = sha and i = i and c = "(n, c)"] sync_frame(3) [of r sha i n c] sync_frame(4) [of sha i n c r]
      unshared_frame(1) [of r' r] unfolding that principals_ok_def by simp
  show "principals_ok r'" if "r' = RevokePhone i r" for i
    using ok phone_table.unshared_revoke [where s = r and i = i] unshared_frame(1) [of r' r]
    unfolding that principals_ok_def by (simp add: RevokePhone_def gomap_delete)
qed

interpretation principals: step_invariant "principal_step sha" principals_ok for sha
  by unfold_locales (rule principal_step_ok)

lemma principals_reach:
  "(principal_step sha)\<^sup>*\<^sup>* NewDigestPrincipalRegistry r \<Longrightarrow> principals_ok r"
  by (erule principals.steps_keep)
    (simp add: principals_ok_def NewDigestPrincipalRegistry_def device_table.unshared_def
      phone_table.unshared_def device_digest_def phone_digest_def)

section \<open>What a token proves\<close>

definition phone_order :: "((string, phoneCredential) gomap \<Rightarrow> (string, phoneCredential) gomap) \<Rightarrow> bool" where
  "phone_order order \<longleftrightarrow> (\<forall>m. mset (order m) = mset m)"

lemma validate_phone_iff:
  assumes "principals_ok r" and "phone_order order"
  shows "ValidatePhoneToken sha order r raw = Inr a \<longleftrightarrow>
    (\<exists>p. map_of (dp_phones r) (au_PhoneID a) = Some p \<and> ph_Digest p = sha raw
       \<and> a = \<lparr>au_PhoneID = au_PhoneID a, au_Name = ph_Name p, au_AdminBypass = False\<rparr>)"
proof -
  let ?P = "\<lambda>(i :: string, phone). ph_Digest phone = sha raw"
  have set: "set (order (dp_phones r)) = set (dp_phones r)"
    using assms(2) mset_eq_setD unfolding phone_order_def by blast
  have mem: "(i, p) \<in> set (dp_phones r) \<longleftrightarrow> map_of (dp_phones r) i = Some p" for i p
    using assms(1) by (simp add: principals_ok_def gomap_mem)
  have one: "x = y" if "x \<in> set (dp_phones r)" "?P x" "y \<in> set (dp_phones r)" "?P y" for x y
  proof -
    obtain i p j q where xy: "x = (i, p)" "y = (j, q)" by (cases x; cases y)
    then have "phone_digest r i = Some (sha raw)" "phone_digest r j = Some (sha raw)"
      using that mem by (auto simp: phone_digest_def)
    then have "i = j" using assms(1) by (auto simp: principals_ok_def phone_table.unshared_def)
    then show ?thesis using that mem xy by auto
  qed
  have find: "List.find ?P (order (dp_phones r)) = Some (i, p)
      \<longleftrightarrow> map_of (dp_phones r) i = Some p \<and> ph_Digest p = sha raw" for i p
  proof
    assume "List.find ?P (order (dp_phones r)) = Some (i, p)"
    then have "(i, p) \<in> set (order (dp_phones r)) \<and> ?P (i, p)" by (auto simp: find_Some_iff set_conv_nth)
    then show "map_of (dp_phones r) i = Some p \<and> ph_Digest p = sha raw" using set mem by simp
  next
    assume "map_of (dp_phones r) i = Some p \<and> ph_Digest p = sha raw"
    then have "(i, p) \<in> set (order (dp_phones r))" "?P (i, p)" using set mem by auto
    then show "List.find ?P (order (dp_phones r)) = Some (i, p)"
      using one set by (intro find_unique) auto
  qed
  have eq: "ValidatePhoneToken sha order r raw = Inr a \<longleftrightarrow>
      (\<exists>i p. List.find ?P (order (dp_phones r)) = Some (i, p)
         \<and> a = \<lparr>au_PhoneID = i, au_Name = ph_Name p, au_AdminBypass = False\<rparr>)"
    by (auto simp: ValidatePhoneToken_def rawCredentialDigest_def split: option.splits)
  show ?thesis unfolding eq find by auto
qed

text \<open>C25. A token proves one identity.  After any sequence of synchronizations and revocations a
  presented token is valid for at most one device, and the phone it authenticates as does not
  depend on the order in which the phone table is visited.\<close>

theorem token_proves_one_identity:
  assumes "(principal_step sha)\<^sup>*\<^sup>* NewDigestPrincipalRegistry r"
    and "phone_order order" and "phone_order order'"
  shows "(ValidateDeviceToken sha r i raw \<and> ValidateDeviceToken sha r j raw \<longrightarrow> i = j)
    \<and> ValidatePhoneToken sha order r raw = ValidatePhoneToken sha order' r raw"
proof
  have ok: "principals_ok r" using assms(1) by (rule principals_reach)
  show "ValidateDeviceToken sha r i raw \<and> ValidateDeviceToken sha r j raw \<longrightarrow> i = j"
    using ok by (auto simp: ValidateDeviceToken_def principals_ok_def device_table.unshared_def
        device_digest_def split: option.splits)
  have inr: "ValidatePhoneToken sha order r raw = Inr a \<longleftrightarrow> ValidatePhoneToken sha order' r raw = Inr a" for a
    by (simp only: validate_phone_iff [OF ok assms(2)] validate_phone_iff [OF ok assms(3)])
  have inl: "ValidatePhoneToken sha ord r raw = Inl e \<Longrightarrow> e = ErrPhoneTokenInvalid" for ord e
    by (auto simp: ValidatePhoneToken_def split: option.splits)
  show "ValidatePhoneToken sha order r raw = ValidatePhoneToken sha order' r raw"
  proof (cases "ValidatePhoneToken sha order r raw")
    case (Inr a)
    then show ?thesis using inr [of a] by simp
  next
    case (Inl e)
    then obtain e' where "ValidatePhoneToken sha order' r raw = Inl e'"
      using inr by (cases "ValidatePhoneToken sha order' r raw") auto
    then show ?thesis using Inl inl [OF Inl] inl [of order' e'] by simp
  qed
qed

text \<open>Enrolment is exact.  When a phone is enrolled with a credential, the token with that digest
  authenticates as this phone under its new name, and no other identity gains, loses or changes
  a token.\<close>

theorem enrolled_phone_token:
  assumes "(principal_step sha)\<^sup>*\<^sup>* NewDigestPrincipalRegistry r" and "phone_order order"
    and "SyncPhone sha i n c r = (r', None)"
  shows "(credentialDigest sha c = Inr (sha raw) \<longrightarrow>
            ValidatePhoneToken sha order r' raw
            = Inr \<lparr>au_PhoneID = i, au_Name = n, au_AdminBypass = False\<rparr>)
    \<and> (\<forall>a. au_PhoneID a \<noteq> i \<longrightarrow>
         ValidatePhoneToken sha order r' raw = Inr a \<longleftrightarrow> ValidatePhoneToken sha order r raw = Inr a)
    \<and> ValidateDeviceToken sha r' j raw = ValidateDeviceToken sha r j raw"
proof -
  have ok: "principals_ok r" using assms(1) by (rule principals_reach)
  have ok': "principals_ok r'"
    using principal_step_ok [OF ok principal_step.intros(3) [of sha r i n c]] assms(3) by simp
  obtain d where d: "credentialDigest sha c = Inr d"
    and r': "r' = r\<lparr>dp_phones := AList.update i \<lparr>ph_Digest = d, ph_Name = n\<rparr> (dp_phones r)\<rparr>"
    using assms(3) by (cases rule: SyncPhone_cases [of sha i n c r]) simp_all
  note v = validate_phone_iff [OF ok assms(2), of sha raw] validate_phone_iff [OF ok' assms(2), of sha raw]
  have "ValidatePhoneToken sha order r' raw = Inr \<lparr>au_PhoneID = i, au_Name = n, au_AdminBypass = False\<rparr>"
    if "credentialDigest sha c = Inr (sha raw)"
    using that d unfolding v(2) by (simp add: r')
  moreover have "ValidatePhoneToken sha order r' raw = Inr a \<longleftrightarrow> ValidatePhoneToken sha order r raw = Inr a"
    if "au_PhoneID a \<noteq> i" for a
    using that unfolding v by (simp add: r')
  moreover have "ValidateDeviceToken sha r' j raw = ValidateDeviceToken sha r j raw"
    by (simp add: ValidateDeviceToken_def r')
  ultimately show ?thesis by blast
qed

text \<open>Revoking a phone through the engine cuts it off.  Afterwards no token authenticates as that
  phone and no registered socket belongs to it, while the tokens of every other phone still work.\<close>

theorem revoked_phone_cut_off:
  assumes "en_synchronizer s = Some r" and "(principal_step sha)\<^sup>*\<^sup>* NewDigestPrincipalRegistry r"
    and "phone_step\<^sup>*\<^sup>* new_phones (en_phones s)" and "phone_order order" and "phoneID \<noteq> []"
    and "RevokeApprovedPhone phoneID s = (s', err)"
  shows "err = None \<and> (\<exists>r'. en_synchronizer s' = Some r'
    \<and> (\<forall>raw a. ValidatePhoneToken sha order r' raw = Inr a \<longleftrightarrow>
         ValidatePhoneToken sha order r raw = Inr a \<and> au_PhoneID a \<noteq> phoneID))
    \<and> (\<forall>c p. map_of (pr_phonePrincipals (en_phones s')) c = Some p \<longrightarrow> \<not> authenticated_as phoneID p)"
proof -
  have s': "err = None" "en_synchronizer s' = Some (RevokePhone phoneID r)"
    "en_phones s' = fst (ClosePhonesByPrincipal phoneID (en_phones s))"
    using assms(1,6) by (auto simp: RevokeApprovedPhone_def)
  have ok: "principals_ok r" using assms(2) by (rule principals_reach)
  have ok': "principals_ok (RevokePhone phoneID r)"
    using principal_step_ok [OF ok principal_step.intros(4)] .
  have "ValidatePhoneToken sha order (RevokePhone phoneID r) raw = Inr a \<longleftrightarrow>
      ValidatePhoneToken sha order r raw = Inr a \<and> au_PhoneID a \<noteq> phoneID" for raw a
    unfolding validate_phone_iff [OF ok assms(4)] validate_phone_iff [OF ok' assms(4)]
    by (auto simp: RevokePhone_def)
  moreover have "\<not> authenticated_as phoneID p"
    if "map_of (pr_phonePrincipals (en_phones s')) c = Some p" for c p
    using that phones_reach [OF assms(3)] principal_gone [OF _ assms(5)] unfolding s'(3) by blast
  ultimately show ?thesis using s' by blast
qed

section \<open>Concrete principals\<close>

definition demo_principals :: DigestPrincipalRegistry where
  "demo_principals = fst (SyncPhone id ''p1'' ''Phone'' \<lparr>cr_Kind = CredentialRaw, cr_Value = ''secret''\<rparr>
     NewDigestPrincipalRegistry)"

lemma demo_principals_reach: "(principal_step id)\<^sup>*\<^sup>* NewDigestPrincipalRegistry demo_principals"
  unfolding demo_principals_def by (intro r_into_rtranclp principal_step.intros)

lemma demo_order: "phone_order id" "phone_order rev"
  by (simp_all add: phone_order_def)

lemma demo_principals_state:
  "dp_phones demo_principals = [(''p1'', \<lparr>ph_Digest = ''secret'', ph_Name = ''Phone''\<rparr>)]"
  "SyncPhone id ''p1'' ''Phone'' \<lparr>cr_Kind = CredentialRaw, cr_Value = ''secret''\<rparr> NewDigestPrincipalRegistry
   = (demo_principals, None)"
  by (simp_all add: demo_principals_def SyncPhone_def credentialDigest_def validateCredential_def
      rawCredentialDigest_def NewDigestPrincipalRegistry_def)

theorem token_proves_one_identity_witness:
  "ValidatePhoneToken id id demo_principals ''secret'' = ValidatePhoneToken id rev demo_principals ''secret''
   \<and> ValidatePhoneToken id id demo_principals ''secret''
     = Inr \<lparr>au_PhoneID = ''p1'', au_Name = ''Phone'', au_AdminBypass = False\<rparr>"
  using token_proves_one_identity [OF demo_principals_reach demo_order, of "''d''" "''secret''"]
  by (simp add: ValidatePhoneToken_def demo_principals_state rawCredentialDigest_def)

theorem enrolled_phone_token_witness:
  "ValidatePhoneToken id id demo_principals ''secret''
     = Inr \<lparr>au_PhoneID = ''p1'', au_Name = ''Phone'', au_AdminBypass = False\<rparr>"
  using enrolled_phone_token [OF rtranclp.rtrancl_refl demo_order(1) demo_principals_state(2), of "''secret''" "[]"]
  by (simp add: credentialDigest_def validateCredential_def rawCredentialDigest_def)

theorem revoked_phone_cut_off_witness:
  "\<exists>s' r'. RevokeApprovedPhone ''p1'' \<lparr>en_synchronizer = Some demo_principals,
     en_daemons = NewConnectionManagerWithPolicy RejectNew, en_phones = new_phones\<rparr> = (s', None)
   \<and> en_synchronizer s' = Some r'
   \<and> ValidatePhoneToken id id r' ''secret'' \<noteq> Inr \<lparr>au_PhoneID = ''p1'', au_Name = ''Phone'', au_AdminBypass = False\<rparr>"
proof -
  let ?s = "\<lparr>en_synchronizer = Some demo_principals,
     en_daemons = NewConnectionManagerWithPolicy RejectNew, en_phones = new_phones\<rparr>"
  obtain s' err where e: "RevokeApprovedPhone ''p1'' ?s = (s', err)" by force
  have "''p1'' \<noteq> []" by simp
  from revoked_phone_cut_off [OF _ demo_principals_reach _ demo_order(1) this e]
  obtain r' where "err = None" "en_synchronizer s' = Some r'"
    and "\<forall>raw a. ValidatePhoneToken id id r' raw = Inr a \<longleftrightarrow>
      ValidatePhoneToken id id demo_principals raw = Inr a \<and> au_PhoneID a \<noteq> ''p1''" by auto
  then show ?thesis using e by auto
qed

end
