(* ===== verification/Server_Store.thy ===== *)
theory Server_Store
  imports Prelude
begin

text \<open>
  The server's identity tables (\<open>server/internal/db/db.go\<close>, \<open>phone.go\<close>, \<open>push.go\<close>): devices,
  pair codes, phone identities, phone-device grants, wrapped keys, push subscriptions and
  attention events.

  As in theory Prompt_Commands the unit of atomicity is one SQL statement or one transaction
  (\<open>store_stmt\<close>), \<open>run_store\<close> is its effect with the affected rows (\<open>None\<close>: a uniqueness constraint
  refused it, and nothing changed), and a Go function is a sequence of them, between which the
  statements of other connections may run and each of which may fail (\<open>store_run\<close>).  Foreign
  keys are declared but not switched on in SQLite, so they constrain nothing.  \<open>sha\<close> stands for
  \<open>hashToken\<close>; random tokens are arguments, \<open>None\<close> when the random source fails.
\<close>

section \<open>Tables\<close>

record device_row =
  dv_Name :: string
  dv_OS :: string
  dv_TokenHash :: string
  dv_CreatedAt :: seconds
  dv_LastSeen :: seconds
  dv_ActiveAgents :: int
  dv_Ed25519Public :: string
  dv_X25519Public :: string
  dv_Fingerprint :: string

record pair_row =
  pc_DeviceID :: string
  pc_ExpiresAt :: seconds
  pc_Used :: bool

record PhoneIdentity =
  pi_Name :: string
  pi_TokenHash :: string
  pi_Ed25519Public :: string
  pi_X25519Public :: string
  pi_CreatedAt :: seconds
  pi_LastSeen :: seconds
  pi_RevokedAt :: seconds

record grant_row =
  gr_PairedAt :: seconds
  gr_RevokedAt :: seconds

type_synonym grant_key = "string \<times> string"

record key_id =
  kk_PhoneID :: string
  kk_DeviceID :: string
  kk_Scope :: string
  kk_SessionID :: string
  kk_Epoch :: uint64

record key_row =
  kp_WrappedKey :: string
  kp_Nonce :: string
  kp_CreatedAt :: seconds

record PushSubscription =
  ps_ID :: nat
  ps_DeviceID :: string
  ps_PhoneID :: string
  ps_Endpoint :: string
  ps_P256DH :: string
  ps_Auth :: string
  ps_CreatedAt :: seconds

record server_db =
  sd_devices :: "(string, device_row) gomap"
  sd_pair_codes :: "(string, pair_row) gomap"
  sd_phones :: "(string, PhoneIdentity) gomap"
  sd_grants :: "(grant_key, grant_row) gomap"
  sd_keys :: "(key_id, key_row) gomap"
  sd_push :: "PushSubscription list"
  sd_pushNext :: nat
  sd_attention :: "(string \<times> string, seconds) gomap"

definition empty_db :: server_db where
  "empty_db = \<lparr>sd_devices = [], sd_pair_codes = [], sd_phones = [], sd_grants = [], sd_keys = [],
     sd_push = [], sd_pushNext = 1, sd_attention = []\<rparr>"

datatype store_error =
    StoreFailed
  | ConstraintFailed
  | RandomFailed
  | ErrNoRows
  | StorePhoneNotFound
  | StorePhoneRevoked
  | StorePhoneTokenInvalid
  | StoreGrantNotFound
  | StoreIDsRequired
  | UnknownDevice
  | DeviceNotFound

section \<open>Statements\<close>

definition maxPushSubscriptionsPerDevice :: nat where
  "maxPushSubscriptionsPerDevice = 32"

definition attentionEventTTL :: seconds where
  "attentionEventTTL = 24 * 60 * 60"

datatype store_stmt =
    InsertDevice string device_row
  | SetDeviceKeys string string string string
  | TouchDevice seconds string
  | SetDeviceSessions int seconds string
  | InsertPairCode string string seconds
  | UsePairCode seconds string
  | InsertPhone string PhoneIdentity
  | TouchPhone seconds string
  | SetPhoneKeys string string string
  | RevokePhoneTx seconds string
  | UpsertGrant seconds string string
  | RevokeGrant seconds string string
  | DeleteGrantKeys string string
  | DeleteGrantPush string string
  | UpsertKey key_id key_row
  | SavePushTx seconds PushSubscription
  | DeletePush string
  | AttentionTx seconds string string

definition update_row ::
  "('v \<Rightarrow> bool) \<Rightarrow> ('v \<Rightarrow> 'v) \<Rightarrow> 'k \<Rightarrow> ('k, 'v) gomap \<Rightarrow> ('k, 'v) gomap \<times> nat" where
  "update_row P f k t =
     (case map_of t k of
        Some r \<Rightarrow> if P r then (AList.update k (f r) t, 1) else (t, 0)
      | None \<Rightarrow> (t, 0))"

definition insert_row :: "'k \<Rightarrow> 'v \<Rightarrow> ('k, 'v) gomap \<Rightarrow> ('k, 'v) gomap \<times> nat option" where
  "insert_row k r t = (if map_of t k \<noteq> None then (t, None) else (AList.update k r t, Some 1))"

definition revoke_grants :: "seconds \<Rightarrow> string \<Rightarrow> (grant_key, grant_row) gomap \<Rightarrow> (grant_key, grant_row) gomap" where
  "revoke_grants now phoneID =
     map (\<lambda>(k, g). (k, if fst k = phoneID \<and> gr_RevokedAt g = 0 then g\<lparr>gr_RevokedAt := now\<rparr> else g))"

text \<open>Newest first: \<open>ORDER BY created_at DESC, id DESC\<close>.\<close>

definition newest_first :: "PushSubscription list \<Rightarrow> PushSubscription list" where
  "newest_first subs = rev (sort_key ps_CreatedAt (sort_key ps_ID subs))"

definition save_push :: "seconds \<Rightarrow> PushSubscription \<Rightarrow> server_db \<Rightarrow> server_db" where
  "save_push now sub db =
     (let same = (\<lambda>p. ps_Endpoint p = ps_Endpoint sub \<and> ps_DeviceID p = ps_DeviceID sub);
          upd = (\<lambda>p. p\<lparr>ps_PhoneID := ps_PhoneID sub, ps_P256DH := ps_P256DH sub,
                       ps_Auth := ps_Auth sub, ps_CreatedAt := now\<rparr>);
          exists = list_ex same (sd_push db);
          push = (if exists then map (\<lambda>p. if same p then upd p else p) (sd_push db)
                  else sd_push db @ [sub\<lparr>ps_ID := sd_pushNext db, ps_CreatedAt := now\<rparr>]);
          mine = filter (\<lambda>p. ps_DeviceID p = ps_DeviceID sub) push;
          old = set (map ps_ID (drop maxPushSubscriptionsPerDevice (newest_first mine)))
      in db\<lparr>sd_push := filter (\<lambda>p. ps_ID p \<notin> old) push,
            sd_pushNext := (if exists then sd_pushNext db else sd_pushNext db + 1)\<rparr>)"

fun run_store :: "store_stmt \<Rightarrow> server_db \<Rightarrow> server_db \<times> nat option" where
  "run_store (InsertDevice d r) db =
     (case insert_row d r (sd_devices db) of (t, n) \<Rightarrow> (db\<lparr>sd_devices := t\<rparr>, n))"
| "run_store (SetDeviceKeys ed x fp d) db =
     (case update_row (\<lambda>r. True) (\<lambda>r. r\<lparr>dv_Ed25519Public := ed, dv_X25519Public := x, dv_Fingerprint := fp\<rparr>)
             d (sd_devices db) of (t, n) \<Rightarrow> (db\<lparr>sd_devices := t\<rparr>, Some n))"
| "run_store (TouchDevice now d) db =
     (case update_row (\<lambda>r. True) (\<lambda>r. r\<lparr>dv_LastSeen := now\<rparr>) d (sd_devices db) of
        (t, n) \<Rightarrow> (db\<lparr>sd_devices := t\<rparr>, Some n))"
| "run_store (SetDeviceSessions agents now d) db =
     (case update_row (\<lambda>r. True) (\<lambda>r. r\<lparr>dv_ActiveAgents := agents, dv_LastSeen := now\<rparr>) d (sd_devices db) of
        (t, n) \<Rightarrow> (db\<lparr>sd_devices := t\<rparr>, Some n))"
| "run_store (InsertPairCode code d expires) db =
     (case insert_row code \<lparr>pc_DeviceID = d, pc_ExpiresAt = expires, pc_Used = False\<rparr> (sd_pair_codes db) of
        (t, n) \<Rightarrow> (db\<lparr>sd_pair_codes := t\<rparr>, n))"
| "run_store (UsePairCode now code) db =
     (case update_row (\<lambda>r. \<not> pc_Used r \<and> pc_ExpiresAt r \<ge> now) (\<lambda>r. r\<lparr>pc_Used := True\<rparr>)
             code (sd_pair_codes db) of (t, n) \<Rightarrow> (db\<lparr>sd_pair_codes := t\<rparr>, Some n))"
| "run_store (InsertPhone p r) db =
     (if list_ex (\<lambda>(_, q). pi_TokenHash q = pi_TokenHash r) (sd_phones db) then (db, None)
      else (case insert_row p r (sd_phones db) of (t, n) \<Rightarrow> (db\<lparr>sd_phones := t\<rparr>, n)))"
| "run_store (TouchPhone now p) db =
     (case update_row (\<lambda>r. True) (\<lambda>r. r\<lparr>pi_LastSeen := now\<rparr>) p (sd_phones db) of
        (t, n) \<Rightarrow> (db\<lparr>sd_phones := t\<rparr>, Some n))"
| "run_store (SetPhoneKeys ed x p) db =
     (case update_row (\<lambda>r. pi_RevokedAt r = 0) (\<lambda>r. r\<lparr>pi_Ed25519Public := ed, pi_X25519Public := x\<rparr>)
             p (sd_phones db) of (t, n) \<Rightarrow> (db\<lparr>sd_phones := t\<rparr>, Some n))"
| "run_store (RevokePhoneTx now p) db =
     (case update_row (\<lambda>r. pi_RevokedAt r = 0) (\<lambda>r. r\<lparr>pi_RevokedAt := now\<rparr>) p (sd_phones db) of
        (t, n) \<Rightarrow>
          if n = 0 then (db, Some 0)
          else (db\<lparr>sd_phones := t, sd_grants := revoke_grants now p (sd_grants db),
                   sd_keys := filter (\<lambda>(k, _). kk_PhoneID k \<noteq> p) (sd_keys db),
                   sd_push := filter (\<lambda>s. ps_PhoneID s \<noteq> p) (sd_push db)\<rparr>, Some n))"
| "run_store (UpsertGrant now p d) db =
     (db\<lparr>sd_grants := AList.update (p, d) \<lparr>gr_PairedAt = now, gr_RevokedAt = 0\<rparr> (sd_grants db)\<rparr>, Some 1)"
| "run_store (RevokeGrant now p d) db =
     (case update_row (\<lambda>g. gr_RevokedAt g = 0) (\<lambda>g. g\<lparr>gr_RevokedAt := now\<rparr>) (p, d) (sd_grants db) of
        (t, n) \<Rightarrow> (db\<lparr>sd_grants := t\<rparr>, Some n))"
| "run_store (DeleteGrantKeys p d) db =
     (db\<lparr>sd_keys := filter (\<lambda>(k, _). \<not> (kk_PhoneID k = p \<and> kk_DeviceID k = d)) (sd_keys db)\<rparr>, Some 0)"
| "run_store (DeleteGrantPush p d) db =
     (db\<lparr>sd_push := filter (\<lambda>s. \<not> (ps_PhoneID s = p \<and> ps_DeviceID s = d)) (sd_push db)\<rparr>, Some 0)"
| "run_store (UpsertKey k r) db = (db\<lparr>sd_keys := AList.update k r (sd_keys db)\<rparr>, Some 1)"
| "run_store (SavePushTx now sub) db = (save_push now sub db, Some 1)"
| "run_store (DeletePush endpoint) db =
     (db\<lparr>sd_push := filter (\<lambda>s. ps_Endpoint s \<noteq> endpoint) (sd_push db)\<rparr>, Some 0)"
| "run_store (AttentionTx now d e) db =
     (let t = filter (\<lambda>(_, created). \<not> created < now - attentionEventTTL) (sd_attention db)
      in if map_of t (d, e) \<noteq> None then (db\<lparr>sd_attention := t\<rparr>, Some 0)
         else (db\<lparr>sd_attention := AList.update (d, e) now t\<rparr>, Some 1))"

definition run_all :: "store_stmt list \<Rightarrow> server_db \<Rightarrow> server_db" where
  "run_all ss db = fold (\<lambda>s db. fst (run_store s db)) ss db"

record store_run =
  st_now :: "nat \<Rightarrow> seconds"
  st_fails :: "nat \<Rightarrow> bool"
  st_others :: "nat \<Rightarrow> store_stmt list"

definition store_exec :: "store_run \<Rightarrow> nat \<Rightarrow> store_stmt \<Rightarrow> server_db \<Rightarrow> server_db \<times> (store_error + nat)" where
  "store_exec run n s db =
     (let db = run_all (st_others run n) db
      in if st_fails run n then (db, Inl StoreFailed)
         else (case run_store s db of
                 (db', None) \<Rightarrow> (db', Inl ConstraintFailed)
               | (db', Some affected) \<Rightarrow> (db', Inr affected)))"

definition store_read :: "store_run \<Rightarrow> nat \<Rightarrow> (server_db \<Rightarrow> store_error + 'a) \<Rightarrow> server_db \<Rightarrow> server_db \<times> (store_error + 'a)" where
  "store_read run n q db =
     (let db = run_all (st_others run n) db
      in (db, if st_fails run n then Inl StoreFailed else q db))"

section \<open>Operations on devices\<close>

definition os_of :: "string option \<Rightarrow> string" where
  "os_of osName =
     (case osName of
        None \<Rightarrow> ''windows''
      | Some s \<Rightarrow>
          let t = TrimSpace s
          in if ToLower t = ''linux'' then ''linux''
             else if ToLower t = ''windows'' \<or> ToLower t = [] then ''windows''
             else if t \<noteq> [] then t else ''windows'')"

definition RegisterDevice ::
  "(string \<Rightarrow> string) \<Rightarrow> store_run \<Rightarrow> string option \<Rightarrow> string \<Rightarrow> string \<Rightarrow> string option
   \<Rightarrow> server_db \<Rightarrow> server_db \<times> (store_error + string)" where
  "RegisterDevice sha run token devID name osName db =
     (case token of
        None \<Rightarrow> (db, Inl RandomFailed)
      | Some token \<Rightarrow>
          (case store_exec run 0 (InsertDevice devID
                  \<lparr>dv_Name = name, dv_OS = os_of osName, dv_TokenHash = sha token,
                   dv_CreatedAt = st_now run 0, dv_LastSeen = st_now run 0, dv_ActiveAgents = 0,
                   dv_Ed25519Public = [], dv_X25519Public = [], dv_Fingerprint = []\<rparr>) db of
             (db, Inl e) \<Rightarrow> (db, Inl e)
           | (db, Inr _) \<Rightarrow> (db, Inr token)))"

definition DeviceExists :: "store_run \<Rightarrow> nat \<Rightarrow> string \<Rightarrow> server_db \<Rightarrow> server_db \<times> bool" where
  "DeviceExists run n devID db =
     (if devID = [] then (db, False)
      else (case store_read run n (\<lambda>db. case map_of (sd_devices db) devID of
                                          None \<Rightarrow> Inl ErrNoRows | Some r \<Rightarrow> Inr ()) db of
              (db, Inl e) \<Rightarrow> (db, False)
            | (db, Inr _) \<Rightarrow> (db, True)))"

definition SetDevicePublicKeys ::
  "store_run \<Rightarrow> string \<Rightarrow> string \<Rightarrow> string \<Rightarrow> string \<Rightarrow> server_db \<Rightarrow> server_db \<times> store_error option" where
  "SetDevicePublicKeys run devID ed x fp db =
     (case store_exec run 0 (SetDeviceKeys ed x fp devID) db of
        (db, Inl e) \<Rightarrow> (db, Some e)
      | (db, Inr n) \<Rightarrow> (db, if n = 0 then Some DeviceNotFound else None))"

definition UpdateDeviceLastSeen :: "store_run \<Rightarrow> string \<Rightarrow> server_db \<Rightarrow> server_db \<times> store_error option" where
  "UpdateDeviceLastSeen run devID db =
     (case store_exec run 0 (TouchDevice (st_now run 0) devID) db of
        (db, Inl e) \<Rightarrow> (db, Some e) | (db, Inr _) \<Rightarrow> (db, None))"

definition UpdateDeviceSessions :: "store_run \<Rightarrow> string \<Rightarrow> int \<Rightarrow> server_db \<Rightarrow> server_db \<times> store_error option" where
  "UpdateDeviceSessions run devID agents db =
     (case store_exec run 0 (SetDeviceSessions agents (st_now run 0) devID) db of
        (db, Inl e) \<Rightarrow> (db, Some e) | (db, Inr _) \<Rightarrow> (db, None))"

definition db_ValidateDeviceToken ::
  "(string \<Rightarrow> string) \<Rightarrow> store_run \<Rightarrow> string \<Rightarrow> string \<Rightarrow> server_db \<Rightarrow> server_db \<times> bool" where
  "db_ValidateDeviceToken sha run devID token db =
     (case store_read run 0 (\<lambda>db. Inr (case map_of (sd_devices db) devID of
                                         None \<Rightarrow> False | Some r \<Rightarrow> dv_TokenHash r = sha token)) db of
        (db, Inl e) \<Rightarrow> (db, False)
      | (db, Inr ok) \<Rightarrow> (db, ok))"

definition CreatePairCode ::
  "store_run \<Rightarrow> string \<Rightarrow> string \<Rightarrow> seconds \<Rightarrow> server_db \<Rightarrow> server_db \<times> store_error option" where
  "CreatePairCode run code devID expiresAt db =
     (case store_exec run 0 (InsertPairCode code devID expiresAt) db of
        (db, Inl e) \<Rightarrow> (db, Some e) | (db, Inr _) \<Rightarrow> (db, None))"

definition ConsumePairCode :: "store_run \<Rightarrow> string \<Rightarrow> server_db \<Rightarrow> server_db \<times> (store_error + string)" where
  "ConsumePairCode run code db =
     (case store_exec run 0 (UsePairCode (st_now run 0) code) db of
        (db, Inl e) \<Rightarrow> (db, Inl e)
      | (db, Inr n) \<Rightarrow>
          if n = 0 then (db, Inl ErrNoRows)
          else store_read run 1 (\<lambda>db. case map_of (sd_pair_codes db) code of
                                        None \<Rightarrow> Inl ErrNoRows | Some r \<Rightarrow> Inr (pc_DeviceID r)) db)"

definition AcceptAttentionEvent ::
  "store_run \<Rightarrow> string \<Rightarrow> string \<Rightarrow> seconds \<Rightarrow> server_db \<Rightarrow> server_db \<times> (store_error + bool)" where
  "AcceptAttentionEvent run devID eventID createdAt db =
     (if TrimSpace devID = [] \<or> TrimSpace eventID = [] then (db, Inl StoreIDsRequired)
      else (case store_exec run 0 (AttentionTx createdAt devID eventID) db of
              (db, Inl e) \<Rightarrow> (db, Inl e) | (db, Inr n) \<Rightarrow> (db, Inr (n = 1))))"

section \<open>Operations on phones\<close>

definition CreatePhoneIdentity ::
  "(string \<Rightarrow> string) \<Rightarrow> store_run \<Rightarrow> string option \<Rightarrow> string option \<Rightarrow> string \<Rightarrow> server_db
   \<Rightarrow> server_db \<times> (store_error + string \<times> string)" where
  "CreatePhoneIdentity sha run token idPart name db =
     (let name = TrimSpace name;
          name = (if name = [] then ''Phone'' else name)
      in (case (token, idPart) of
            (Some token, Some idPart) \<Rightarrow>
              let phoneID = ''phone_'' @ take 16 idPart
              in (case store_exec run 0 (InsertPhone phoneID
                         \<lparr>pi_Name = name, pi_TokenHash = sha token, pi_Ed25519Public = [],
                          pi_X25519Public = [], pi_CreatedAt = st_now run 0,
                          pi_LastSeen = st_now run 0, pi_RevokedAt = 0\<rparr>) db of
                    (db, Inl e) \<Rightarrow> (db, Inl e)
                  | (db, Inr _) \<Rightarrow> (db, Inr (phoneID, token)))
          | _ \<Rightarrow> (db, Inl RandomFailed)))"

definition find_phone :: "string \<Rightarrow> server_db \<Rightarrow> (string \<times> PhoneIdentity) option" where
  "find_phone hash db = List.find (\<lambda>(_, r). pi_TokenHash r = hash) (sd_phones db)"

definition db_ValidatePhoneToken ::
  "(string \<Rightarrow> string) \<Rightarrow> store_run \<Rightarrow> string \<Rightarrow> server_db \<Rightarrow> server_db \<times> (store_error + string \<times> string)" where
  "db_ValidatePhoneToken sha run token db =
     (let token = TrimSpace token
      in if token = [] then (db, Inl StorePhoneTokenInvalid)
         else (case store_read run 0 (\<lambda>db. case find_phone (sha token) db of
                       None \<Rightarrow> Inl StorePhoneTokenInvalid | Some x \<Rightarrow> Inr x) db of
                 (db, Inl e) \<Rightarrow> (db, Inl e)
               | (db, Inr (phoneID, r)) \<Rightarrow>
                   if pi_TokenHash r \<noteq> sha token then (db, Inl StorePhoneTokenInvalid)
                   else if pi_RevokedAt r > 0 then (db, Inl StorePhoneRevoked)
                   else (fst (store_exec run 1 (TouchPhone (st_now run 1) phoneID) db),
                         Inr (phoneID, pi_Name r))))"

definition GetPhone :: "store_run \<Rightarrow> nat \<Rightarrow> string \<Rightarrow> server_db \<Rightarrow> server_db \<times> (store_error + PhoneIdentity)" where
  "GetPhone run n phoneID db =
     store_read run n (\<lambda>db. case map_of (sd_phones db) phoneID of
                              None \<Rightarrow> Inl StorePhoneNotFound | Some r \<Rightarrow> Inr r) db"

definition SetPhonePublicKeys ::
  "store_run \<Rightarrow> string \<Rightarrow> string \<Rightarrow> string \<Rightarrow> server_db \<Rightarrow> server_db \<times> store_error option" where
  "SetPhonePublicKeys run phoneID ed x db =
     (case store_exec run 0 (SetPhoneKeys ed x phoneID) db of
        (db, Inl e) \<Rightarrow> (db, Some e)
      | (db, Inr n) \<Rightarrow> (db, if n = 0 then Some StorePhoneNotFound else None))"

definition db_RevokePhone :: "store_run \<Rightarrow> string \<Rightarrow> server_db \<Rightarrow> server_db \<times> store_error option" where
  "db_RevokePhone run phoneID db =
     (case store_exec run 0 (RevokePhoneTx (st_now run 0) phoneID) db of
        (db, Inl e) \<Rightarrow> (db, Some e)
      | (db, Inr n) \<Rightarrow>
          if n = 0 \<and> map_of (sd_phones db) phoneID = None then (db, Some StorePhoneNotFound)
          else (db, None))"

definition GrantPhoneDevice ::
  "store_run \<Rightarrow> string \<Rightarrow> string \<Rightarrow> server_db \<Rightarrow> server_db \<times> store_error option" where
  "GrantPhoneDevice run phoneID devID db =
     (if phoneID = [] \<or> devID = [] then (db, Some StoreIDsRequired)
      else (case GetPhone run 0 phoneID db of
              (db, Inl e) \<Rightarrow> (db, Some e)
            | (db, Inr p) \<Rightarrow>
                if pi_RevokedAt p > 0 then (db, Some StorePhoneRevoked)
                else (case DeviceExists run 1 devID db of
                        (db, False) \<Rightarrow> (db, Some UnknownDevice)
                      | (db, True) \<Rightarrow>
                          (case store_exec run 2 (UpsertGrant (st_now run 2) phoneID devID) db of
                             (db, Inl e) \<Rightarrow> (db, Some e) | (db, Inr _) \<Rightarrow> (db, None)))))"

definition RevokePhoneDeviceGrant ::
  "store_run \<Rightarrow> string \<Rightarrow> string \<Rightarrow> server_db \<Rightarrow> server_db \<times> store_error option" where
  "RevokePhoneDeviceGrant run phoneID devID db =
     (case store_exec run 0 (RevokeGrant (st_now run 0) phoneID devID) db of
        (db, Inl e) \<Rightarrow> (db, Some e)
      | (db, Inr n) \<Rightarrow>
          if n = 0 then (db, Some StoreGrantNotFound)
          else let db = fst (store_exec run 1 (DeleteGrantKeys phoneID devID) db);
                   db = fst (store_exec run 2 (DeleteGrantPush phoneID devID) db)
               in (db, None))"

definition PhoneHasDeviceGrant :: "store_run \<Rightarrow> string \<Rightarrow> string \<Rightarrow> server_db \<Rightarrow> server_db \<times> bool" where
  "PhoneHasDeviceGrant run phoneID devID db =
     (if phoneID = [] \<or> devID = [] then (db, False)
      else (case store_read run 0 (\<lambda>db. Inr (case map_of (sd_grants db) (phoneID, devID) of
                                               None \<Rightarrow> False | Some g \<Rightarrow> gr_RevokedAt g = 0)) db of
              (db, Inl e) \<Rightarrow> (db, False)
            | (db, Inr ok) \<Rightarrow> (db, ok)))"

definition active_grants :: "string \<Rightarrow> server_db \<Rightarrow> (string \<times> grant_row) list" where
  "active_grants phoneID db =
     map (\<lambda>(k, g). (snd k, g)) (filter (\<lambda>(k, g). fst k = phoneID \<and> gr_RevokedAt g = 0) (sd_grants db))"

definition ListPhoneDeviceIDs :: "store_run \<Rightarrow> string \<Rightarrow> server_db \<Rightarrow> server_db \<times> (store_error + string list)" where
  "ListPhoneDeviceIDs run phoneID db =
     store_read run 0
       (\<lambda>db. Inr (map fst (rev (sort_key (\<lambda>(_, g). gr_PairedAt g) (active_grants phoneID db))))) db"

record PhoneGrant =
  pg_PhoneID :: string
  pg_Ed25519Public :: string
  pg_X25519Public :: string
  pg_PairedAt :: seconds

definition grants_of_device :: "string \<Rightarrow> server_db \<Rightarrow> PhoneGrant list" where
  "grants_of_device devID db =
     List.map_filter (\<lambda>((p, d), g).
         if d = devID \<and> gr_RevokedAt g = 0
         then (case map_of (sd_phones db) p of
                 None \<Rightarrow> None
               | Some r \<Rightarrow> if pi_RevokedAt r = 0
                           then Some \<lparr>pg_PhoneID = p, pg_Ed25519Public = pi_Ed25519Public r,
                                      pg_X25519Public = pi_X25519Public r, pg_PairedAt = gr_PairedAt g\<rparr>
                           else None)
         else None) (sd_grants db)"

definition ListPhoneGrantsForDevice ::
  "store_run \<Rightarrow> string \<Rightarrow> server_db \<Rightarrow> server_db \<times> (store_error + PhoneGrant list)" where
  "ListPhoneGrantsForDevice run devID db =
     store_read run 0 (\<lambda>db. Inr (rev (sort_key pg_PairedAt (grants_of_device devID db)))) db"

definition UpsertKeyPackage ::
  "store_run \<Rightarrow> key_id \<Rightarrow> string \<Rightarrow> string \<Rightarrow> server_db \<Rightarrow> server_db \<times> store_error option" where
  "UpsertKeyPackage run k wrappedKey nonce db =
     (case store_exec run 0 (UpsertKey k \<lparr>kp_WrappedKey = wrappedKey, kp_Nonce = nonce,
                                          kp_CreatedAt = st_now run 0\<rparr>) db of
        (db, Inl e) \<Rightarrow> (db, Some e) | (db, Inr _) \<Rightarrow> (db, None))"

definition ListKeyPackages ::
  "store_run \<Rightarrow> string \<Rightarrow> string \<Rightarrow> server_db \<Rightarrow> server_db \<times> (store_error + (key_id \<times> key_row) list)" where
  "ListKeyPackages run phoneID devID db =
     store_read run 0 (\<lambda>db. Inr (rev (sort_key (\<lambda>(_, r). kp_CreatedAt r)
       (filter (\<lambda>(k, _). kk_PhoneID k = phoneID \<and> (devID = [] \<or> kk_DeviceID k = devID)) (sd_keys db))))) db"

definition SavePushSubscription :: "store_run \<Rightarrow> PushSubscription \<Rightarrow> server_db \<Rightarrow> server_db \<times> store_error option" where
  "SavePushSubscription run sub db =
     (case store_exec run 0 (SavePushTx (st_now run 0) sub) db of
        (db, Inl e) \<Rightarrow> (db, Some e) | (db, Inr _) \<Rightarrow> (db, None))"

definition GetPushSubscriptions ::
  "store_run \<Rightarrow> string \<Rightarrow> server_db \<Rightarrow> server_db \<times> (store_error + PushSubscription list)" where
  "GetPushSubscriptions run devID db =
     store_read run 0 (\<lambda>db. Inr (filter (\<lambda>s. ps_DeviceID s = devID) (sd_push db))) db"

definition DeletePushSubscription :: "store_run \<Rightarrow> string \<Rightarrow> server_db \<Rightarrow> server_db \<times> store_error option" where
  "DeletePushSubscription run endpoint db =
     (case store_exec run 0 (DeletePush endpoint) db of
        (db, Inl e) \<Rightarrow> (db, Some e) | (db, Inr _) \<Rightarrow> (db, None))"

section \<open>What statements do to rows\<close>

lemma map_of_update_row:
  "update_row P f k t = (t', n) \<Longrightarrow>
   map_of t' x = (if x = k then map_option (\<lambda>r. if P r then f r else r) (map_of t k) else map_of t x)"
  by (auto simp: update_row_def split: option.splits if_splits)

lemma gomap_update_row [gomap_intros]: "gomap t \<Longrightarrow> update_row P f k t = (t', n) \<Longrightarrow> gomap t'"
  by (auto simp: update_row_def gomap_update split: option.splits if_splits)

lemma run_all_simps [simp]:
  "run_all [] db = db"
  "run_all (s # ss) db = run_all ss (fst (run_store s db))"
  "run_all (ss @ ts) db = run_all ts (run_all ss db)"
  by (simp_all add: run_all_def)

lemma run_all_keeps:
  assumes "\<And>s db. P db \<Longrightarrow> P (fst (run_store s db))" and "P db"
  shows "P (run_all ss db)"
  using assms(2) by (induction ss arbitrary: db) (auto intro: assms(1))

text \<open>Every effect of an operation is an effect of statements.\<close>

lemma store_exec_run: "\<exists>ss. fst (store_exec run n s db) = run_all ss db"
proof -
  have "fst (store_exec run n s db) = run_all (st_others run n) db
      \<or> fst (store_exec run n s db) = run_all (st_others run n @ [s]) db"
    by (auto simp: store_exec_def Let_def split: prod.splits option.splits)
  then show ?thesis by blast
qed

lemma store_read_fst [simp]: "fst (store_read run n q db) = run_all (st_others run n) db"
  by (simp add: store_read_def Let_def)

lemma store_exec_Inr:
  assumes "store_exec run n s db = (db', Inr k)"
  shows "run_store s (run_all (st_others run n) db) = (db', Some k)"
  using assms by (auto simp: store_exec_def Let_def split: if_splits prod.splits option.splits)

lemma store_read_Inr:
  assumes "store_read run n q db = (db', Inr x)"
  shows "db' = run_all (st_others run n) db" "q db' = Inr x"
  using assms by (auto simp: store_read_def Let_def split: if_splits)

section \<open>Pair codes\<close>

definition spent :: "string \<Rightarrow> string \<Rightarrow> server_db \<Rightarrow> bool" where
  "spent code d db \<longleftrightarrow>
     (\<exists>r. map_of (sd_pair_codes db) code = Some r \<and> pc_Used r \<and> pc_DeviceID r = d)"

lemma spent_step: "spent code d db \<Longrightarrow> spent code d (fst (run_store s db))"
  by (cases s) (auto simp: spent_def insert_row_def update_row_def save_push_def Let_def split: option.splits)

lemma spent_run: "spent code d db \<Longrightarrow> spent code d (run_all ss db)"
  using run_all_keeps [of "spent code d"] spent_step by blast

lemma spent_refused:
  assumes "spent code d db"
  shows "\<exists>e. snd (ConsumePairCode run code db) = Inl e"
proof (cases "store_exec run 0 (UsePairCode (st_now run 0) code) db")
  case (Pair db' res)
  have "spent code d (run_all (st_others run 0) db)" using assms by (rule spent_run)
  then have "res = Inr n \<Longrightarrow> n = 0" for n
    using store_exec_Inr [of run 0 "UsePairCode (st_now run 0) code" db db' n] Pair
    by (auto simp: spent_def update_row_def split: option.splits)
  then show ?thesis using Pair by (cases res) (auto simp: ConsumePairCode_def)
qed

text \<open>C24. A pair code works once, in time, for its own device.  When \<open>ConsumePairCode\<close> succeeds, the
  code was stored for the device it returns, was unused and had not expired; and whatever else
  happens to the database afterwards, consuming the same code never succeeds again.\<close>

theorem pair_code_single_use:
  assumes "ConsumePairCode run code db = (db', Inr d)"
  shows "(\<exists>r. map_of (sd_pair_codes (run_all (st_others run 0) db)) code = Some r
            \<and> \<not> pc_Used r \<and> st_now run 0 \<le> pc_ExpiresAt r \<and> pc_DeviceID r = d)
    \<and> (\<forall>ss run'. \<exists>e. snd (ConsumePairCode run' code (run_all ss db')) = Inl e)"
proof -
  let ?db0 = "run_all (st_others run 0) db"
  obtain db1 n where ex: "store_exec run 0 (UsePairCode (st_now run 0) code) db = (db1, Inr n)" "n \<noteq> 0"
    and rd: "store_read run 1 (\<lambda>db. case map_of (sd_pair_codes db) code of
               None \<Rightarrow> Inl ErrNoRows | Some r \<Rightarrow> Inr (pc_DeviceID r)) db1 = (db', Inr d)"
    using assms by (auto simp: ConsumePairCode_def split: prod.splits sum.splits if_splits)
  have "run_store (UsePairCode (st_now run 0) code) ?db0 = (db1, Some n)"
    using store_exec_Inr [OF ex(1)] .
  then obtain r where r: "map_of (sd_pair_codes ?db0) code = Some r" "\<not> pc_Used r" "st_now run 0 \<le> pc_ExpiresAt r"
    and db1: "map_of (sd_pair_codes db1) code = Some (r\<lparr>pc_Used := True\<rparr>)"
    using ex(2) by (auto simp: update_row_def split: option.splits if_splits)
  have "spent code (pc_DeviceID r) db1" using db1 by (simp add: spent_def)
  then have sp: "spent code (pc_DeviceID r) db'" using store_read_Inr(1) [OF rd] spent_run by simp
  then have "d = pc_DeviceID r" using store_read_Inr(2) [OF rd] by (auto simp: spent_def)
  moreover have "\<exists>e. snd (ConsumePairCode run' code (run_all ss db')) = Inl e" for ss run'
    using sp spent_run spent_refused by blast
  ultimately show ?thesis using r by auto
qed

section \<open>Revoked phones\<close>

text \<open>
  \<open>phones_wf\<close>: ids and token hashes are unique and revocation times are not negative; it holds
  in every database that is built by statements of a clock past the epoch.
\<close>

definition phones_wf :: "server_db \<Rightarrow> bool" where
  "phones_wf db \<longleftrightarrow> gomap (sd_phones db) \<and> (\<forall>(p, r) \<in> set (sd_phones db). 0 \<le> pi_RevokedAt r)
     \<and> (\<forall>(p, r) \<in> set (sd_phones db). \<forall>(q, t) \<in> set (sd_phones db). pi_TokenHash r = pi_TokenHash t \<longrightarrow> p = q)"

definition stmt_wf :: "store_stmt \<Rightarrow> bool" where
  "stmt_wf s \<longleftrightarrow> (case s of InsertPhone p r \<Rightarrow> pi_RevokedAt r = 0 | RevokePhoneTx now p \<Rightarrow> 0 < now | _ \<Rightarrow> True)"

inductive store_step :: "server_db \<Rightarrow> server_db \<Rightarrow> bool" where
  "stmt_wf s \<Longrightarrow> store_step db (fst (run_store s db))"

inductive_cases store_stepE: "store_step db db'"

lemma phones_wf_row:
  assumes "phones_wf db" and "map_of (sd_phones db) p = Some r"
    and "0 \<le> pi_RevokedAt r'" "pi_TokenHash r' = pi_TokenHash r"
  shows "phones_wf (db\<lparr>sd_phones := AList.update p r' (sd_phones db)\<rparr>)"
proof -
  have g: "gomap (sd_phones db)" using assms(1) by (simp add: phones_wf_def)
  have "(p, r) \<in> set (sd_phones db)" using assms(2) by (rule map_of_in_set)
  then show ?thesis
    using assms(1,3,4) g unfolding phones_wf_def by (auto simp: set_update_gomap gomap_update)
qed

lemma phones_wf_same: "sd_phones db' = sd_phones db \<Longrightarrow> phones_wf db' = phones_wf db"
  by (simp add: phones_wf_def)

lemma phones_wf_insert:
  assumes "phones_wf db" and "map_of (sd_phones db) p = None" and "pi_RevokedAt r = 0"
    and "\<not> list_ex (\<lambda>(_, q). pi_TokenHash q = pi_TokenHash r) (sd_phones db)"
  shows "phones_wf (db\<lparr>sd_phones := AList.update p r (sd_phones db)\<rparr>)"
proof -
  have g: "gomap (sd_phones db)" using assms(1) by (simp add: phones_wf_def)
  have new: "\<forall>(q, t) \<in> set (sd_phones db). pi_TokenHash t \<noteq> pi_TokenHash r"
    using assms(4) by (auto simp: list_ex_iff)
  show ?thesis
    using assms(1,3) g new unfolding phones_wf_def by (auto simp: set_update_gomap gomap_update)
qed

lemma phones_wf_update_row:
  assumes "phones_wf db" and "update_row P f p (sd_phones db) = (t, n)"
    and "\<And>r. P r \<Longrightarrow> 0 \<le> pi_RevokedAt r \<Longrightarrow> 0 \<le> pi_RevokedAt (f r)" "\<And>r. pi_TokenHash (f r) = pi_TokenHash r"
  shows "phones_wf (db\<lparr>sd_phones := t\<rparr>)"
proof (cases "n = 0")
  case True
  then have "t = sd_phones db" using assms(2) by (auto simp: update_row_def split: option.splits if_splits)
  then show ?thesis using assms(1) by simp
next
  case False
  then obtain r where r: "map_of (sd_phones db) p = Some r" "P r" "t = AList.update p (f r) (sd_phones db)"
    using assms(2) by (auto simp: update_row_def split: option.splits if_splits)
  have "0 \<le> pi_RevokedAt r" using assms(1) map_of_in_set [OF r(1)] by (auto simp: phones_wf_def)
  then show ?thesis
    unfolding r(3) using assms(1) r(1,2) assms(3,4) by (intro phones_wf_row) auto
qed

lemma store_step_wf: "phones_wf db \<Longrightarrow> store_step db db' \<Longrightarrow> phones_wf db'"
proof (erule store_stepE)
  fix s assume ok: "phones_wf db" and db': "db' = fst (run_store s db)" and s: "stmt_wf s"
  show "phones_wf db'"
  proof (cases s)
    case (InsertPhone p r)
    then show ?thesis
      using ok s phones_wf_insert [of db p r]
      by (auto simp: db' stmt_wf_def insert_row_def split: prod.splits)
  next
    case (TouchPhone now p)
    then show ?thesis
      using phones_wf_update_row [OF ok, of "\<lambda>r. True" "\<lambda>r. r\<lparr>pi_LastSeen := now\<rparr>" p]
      by (simp add: db' split: prod.splits)
  next
    case (SetPhoneKeys ed x p)
    then show ?thesis
      using phones_wf_update_row [OF ok, of "\<lambda>r. pi_RevokedAt r = 0"
          "\<lambda>r. r\<lparr>pi_Ed25519Public := ed, pi_X25519Public := x\<rparr>" p]
      by (simp add: db' split: prod.splits)
  next
    case (RevokePhoneTx now p)
    obtain t n where t: "update_row (\<lambda>r. pi_RevokedAt r = 0) (\<lambda>r. r\<lparr>pi_RevokedAt := now\<rparr>) p (sd_phones db) = (t, n)"
      by force
    have "phones_wf (db\<lparr>sd_phones := t\<rparr>)"
      by (rule phones_wf_update_row [OF ok t]) (use s RevokePhoneTx in \<open>simp_all add: stmt_wf_def\<close>)
    then show ?thesis
      using ok t by (simp add: db' RevokePhoneTx phones_wf_def)
  qed (auto simp: db' ok insert_row_def update_row_def save_push_def Let_def phones_wf_same [of _ db]
      split: option.splits prod.splits)
qed

interpretation phones_db: step_invariant store_step phones_wf
  by unfold_locales (rule store_step_wf)

definition revoked :: "string \<Rightarrow> server_db \<Rightarrow> bool" where
  "revoked p db \<longleftrightarrow> (\<exists>r. map_of (sd_phones db) p = Some r \<and> 0 < pi_RevokedAt r)"

lemma revoked_step: "revoked p db \<Longrightarrow> revoked p (fst (run_store s db))"
  by (cases s) (auto simp: revoked_def insert_row_def update_row_def save_push_def Let_def split: option.splits)

lemma revoked_run: "revoked p db \<Longrightarrow> revoked p (run_all ss db)"
  using run_all_keeps [of "revoked p"] revoked_step by blast

lemma revoked_no_login:
  assumes "revoked p db" and wf: "phones_wf (run_all (st_others run 0) db)"
  shows "snd (db_ValidatePhoneToken sha run token db) \<noteq> Inr (p, n)"
proof
  assume login: "snd (db_ValidatePhoneToken sha run token db) = Inr (p, n)"
  let ?db = "run_all (st_others run 0) db"
  obtain r where "find_phone (sha (TrimSpace token)) ?db = Some (p, r)" "\<not> 0 < pi_RevokedAt r"
    using login
    by (auto simp: db_ValidatePhoneToken_def store_read_def Let_def split: if_splits prod.splits option.splits)
  then have "(p, r) \<in> set (sd_phones ?db)" by (auto simp: find_phone_def dest: find_mem)
  then have "map_of (sd_phones ?db) p = Some r" using wf by (simp add: phones_wf_def gomap_mem)
  moreover have "revoked p ?db" using assms(1) by (rule revoked_run)
  ultimately show False using \<open>\<not> 0 < pi_RevokedAt r\<close> by (simp add: revoked_def)
qed

lemma grants_of_revoked:
  assumes "revoked p db" and "g \<in> set (grants_of_device d db)"
  shows "pg_PhoneID g \<noteq> p"
  using assms by (auto simp: grants_of_device_def revoked_def List.map_filter_def split: if_splits option.splits)

lemma run_all_steps: "list_all stmt_wf ss \<Longrightarrow> store_step\<^sup>*\<^sup>* db (run_all ss db)"
proof (induction ss arbitrary: db)
  case (Cons s ss)
  then have "store_step db (fst (run_store s db))" by (auto intro: store_step.intros)
  then show ?case using Cons by (simp add: converse_rtranclp_into_rtranclp)
qed simp

lemma empty_db_wf: "phones_wf empty_db"
  by (simp add: phones_wf_def empty_db_def)

lemma revoke_grants_inactive:
  assumes "map_of (revoke_grants now p t) (p, d) = Some g" and "0 < now"
  shows "gr_RevokedAt g \<noteq> 0"
proof -
  obtain z where "g = (if gr_RevokedAt z = 0 then z\<lparr>gr_RevokedAt := now\<rparr> else z)"
    using assms(1) by (auto simp: revoke_grants_def map_of_map_value)
  then show ?thesis using assms(2) by (cases "gr_RevokedAt z = 0") simp_all
qed

lemma revoke_tx:
  assumes "store_exec run 0 (RevokePhoneTx (st_now run 0) p) db = (db', Inr n)" and "0 < st_now run 0"
    and "phones_wf (run_all (st_others run 0) db)" and "n = 0 \<longrightarrow> map_of (sd_phones db') p \<noteq> None"
  shows "revoked p db'"
proof -
  let ?db = "run_all (st_others run 0) db"
  have ex: "run_store (RevokePhoneTx (st_now run 0) p) ?db = (db', Some n)"
    using store_exec_Inr [OF assms(1)] .
  show ?thesis
  proof (cases "map_of (sd_phones ?db) p")
    case None
    then show ?thesis using ex assms(4) by (simp add: update_row_def)
  next
    case (Some r)
    then have "0 \<le> pi_RevokedAt r" using assms(3) by (auto simp: phones_wf_def dest: map_of_in_set)
    then show ?thesis using ex Some assms(2) by (auto simp: update_row_def revoked_def split: if_splits)
  qed
qed

text \<open>C23. Revocation is final.  Once \<open>RevokePhone\<close> has returned without an error, then whatever
  statements run afterwards no token ever logs in as that phone and no device's grant list names
  it.  When the phone was active, its grants, wrapped keys and push subscriptions are gone at once.\<close>

theorem revoked_phone_stays_out:
  assumes "store_step\<^sup>*\<^sup>* empty_db db" and "list_all stmt_wf (st_others run 0)" and "0 < st_now run 0"
    and "db_RevokePhone run p db = (db', None)"
    and "list_all stmt_wf ss" and "list_all stmt_wf (st_others run' 0)"
  shows "snd (db_ValidatePhoneToken sha run' token (run_all ss db')) \<noteq> Inr (p, name)
    \<and> (\<forall>gs. snd (ListPhoneGrantsForDevice run' d (run_all ss db')) = Inr gs \<longrightarrow> p \<notin> pg_PhoneID ` set gs)
    \<and> ((\<exists>r. map_of (sd_phones (run_all (st_others run 0) db)) p = Some r \<and> pi_RevokedAt r = 0) \<longrightarrow>
         (\<forall>d g. map_of (sd_grants db') (p, d) = Some g \<longrightarrow> gr_RevokedAt g \<noteq> 0)
         \<and> (\<forall>(k, r) \<in> set (sd_keys db'). kk_PhoneID k \<noteq> p) \<and> (\<forall>s \<in> set (sd_push db'). ps_PhoneID s \<noteq> p))"
proof -
  let ?db = "run_all (st_others run 0) db"
  obtain n where ex: "store_exec run 0 (RevokePhoneTx (st_now run 0) p) db = (db', Inr n)"
    and n: "n = 0 \<longrightarrow> map_of (sd_phones db') p \<noteq> None"
    using assms(4) by (auto simp: db_RevokePhone_def split: prod.splits sum.splits if_splits)
  have reach: "store_step\<^sup>*\<^sup>* empty_db ?db" using assms(1) run_all_steps [OF assms(2)] by (rule rtranclp_trans)
  then have wf: "phones_wf ?db" using phones_db.steps_keep empty_db_wf by blast
  have rev: "revoked p db'" using revoke_tx [OF ex assms(3) wf n] .
  have tx: "run_store (RevokePhoneTx (st_now run 0) p) ?db = (db', Some n)" using store_exec_Inr [OF ex] .
  have "stmt_wf (RevokePhoneTx (st_now run 0) p)" using assms(3) by (simp add: stmt_wf_def)
  then have "store_step ?db db'" using store_step.intros [of "RevokePhoneTx (st_now run 0) p" ?db] tx by simp
  then have "store_step\<^sup>*\<^sup>* empty_db (run_all (st_others run' 0) (run_all ss db'))"
    using reach run_all_steps [OF assms(5), of db'] run_all_steps [OF assms(6), of "run_all ss db'"]
    by (meson rtranclp.rtrancl_into_rtrancl rtranclp_trans)
  then have "phones_wf (run_all (st_others run' 0) (run_all ss db'))"
    using phones_db.steps_keep empty_db_wf by blast
  then have "snd (db_ValidatePhoneToken sha run' token (run_all ss db')) \<noteq> Inr (p, name)"
    using revoked_no_login revoked_run [OF rev] by blast
  moreover have "p \<notin> pg_PhoneID ` set gs"
    if "snd (ListPhoneGrantsForDevice run' d (run_all ss db')) = Inr gs" for gs
  proof -
    have "set gs = set (grants_of_device d (run_all (st_others run' 0) (run_all ss db')))"
      using that by (auto simp: ListPhoneGrantsForDevice_def store_read_def Let_def split: if_splits)
    then show ?thesis using grants_of_revoked [OF revoked_run [OF revoked_run [OF rev]]] by blast
  qed
  moreover have "(\<forall>d g. map_of (sd_grants db') (p, d) = Some g \<longrightarrow> gr_RevokedAt g \<noteq> 0)
      \<and> (\<forall>(k, r) \<in> set (sd_keys db'). kk_PhoneID k \<noteq> p) \<and> (\<forall>s \<in> set (sd_push db'). ps_PhoneID s \<noteq> p)"
    if "map_of (sd_phones ?db) p = Some r" "pi_RevokedAt r = 0" for r
    using that tx assms(3) by (auto simp: update_row_def dest: revoke_grants_inactive)
  ultimately show ?thesis by blast
qed

text \<open>
  The race in \<open>GrantPhoneDevice\<close>: it reads the phone and writes the grant in separate statements.  A
  phone that is revoked in between gets an active grant, which \<open>PhoneHasDeviceGrant\<close> accepts.
\<close>

definition race_db :: server_db where
  "race_db = empty_db\<lparr>sd_devices := [(''d'', \<lparr>dv_Name = [], dv_OS = ''linux'', dv_TokenHash = ''h'', dv_CreatedAt = 1,
       dv_LastSeen = 1, dv_ActiveAgents = 0, dv_Ed25519Public = [], dv_X25519Public = [], dv_Fingerprint = []\<rparr>)],
     sd_phones := [(''p'', \<lparr>pi_Name = ''Phone'', pi_TokenHash = ''t'', pi_Ed25519Public = [], pi_X25519Public = [],
       pi_CreatedAt = 1, pi_LastSeen = 1, pi_RevokedAt = 0\<rparr>)]\<rparr>"

definition quiet_run :: store_run where
  "quiet_run = \<lparr>st_now = (\<lambda>n. 5), st_fails = (\<lambda>n. False), st_others = (\<lambda>n. [])\<rparr>"

definition race_run :: store_run where
  "race_run = quiet_run\<lparr>st_others := (\<lambda>n. if n = 2 then [RevokePhoneTx 5 ''p''] else [])\<rparr>"

text \<open>A revoked phone can hold an active grant: when the revocation commits between the two
  statements of \<open>GrantPhoneDevice\<close>, the call succeeds and the access check afterwards says yes.\<close>

theorem grant_survives_revocation:
  "\<exists>db'. GrantPhoneDevice race_run ''p'' ''d'' race_db = (db', None)
     \<and> revoked ''p'' db' \<and> snd (PhoneHasDeviceGrant quiet_run ''p'' ''d'' db')"
  by (auto simp: GrantPhoneDevice_def GetPhone_def DeviceExists_def PhoneHasDeviceGrant_def store_read_def
      store_exec_def race_run_def quiet_run_def race_db_def empty_db_def update_row_def revoke_grants_def
      revoked_def Let_def)

section \<open>Push subscriptions\<close>

definition push_wf :: "server_db \<Rightarrow> bool" where
  "push_wf db \<longleftrightarrow> distinct (map ps_ID (sd_push db)) \<and> (\<forall>s \<in> set (sd_push db). ps_ID s < sd_pushNext db)
     \<and> distinct (map (\<lambda>s. (ps_Endpoint s, ps_DeviceID s)) (sd_push db))
     \<and> (\<forall>d. length (filter (\<lambda>s. ps_DeviceID s = d) (sd_push db)) \<le> maxPushSubscriptionsPerDevice)"

lemma mset_newest_first [simp]: "mset (newest_first xs) = mset xs"
  by (simp add: newest_first_def)

text \<open>Dropping all but the first \<open>k\<close> of some order by their ids.\<close>

lemma keep_first:
  assumes "mset ys = mset xs" and "distinct (map f xs)"
  shows "mset (filter (\<lambda>x. f x \<notin> set (map f (drop k ys))) xs) = mset (take k ys)"
proof -
  have dist: "distinct (map f ys)"
    using assms by (metis mset_eq_imp_distinct_iff mset_map)
  have "set (map f (take k ys)) \<inter> set (map f (drop k ys)) = {}"
    using dist unfolding set_map [symmetric] drop_map [symmetric] take_map [symmetric]
    by (metis set_take_disj_set_drop_if_distinct order_refl)
  then have "filter (\<lambda>x. f x \<notin> set (map f (drop k ys))) (take k ys) = take k ys"
    by (intro filter_True) auto
  moreover have "filter (\<lambda>x. f x \<notin> set (map f (drop k ys))) (drop k ys) = []"
    by (intro filter_False) auto
  ultimately have "filter (\<lambda>x. f x \<notin> set (map f (drop k ys))) ys = take k ys"
    by (metis append_Nil2 append_take_drop_id filter_append)
  then show ?thesis using assms(1) by (metis mset_filter)
qed

lemma push_wf_filter:
  assumes "push_wf db"
  shows "push_wf (db\<lparr>sd_push := filter P (sd_push db)\<rparr>)"
proof -
  have "length (filter (\<lambda>s. ps_DeviceID s = d) (filter P (sd_push db)))
      \<le> length (filter (\<lambda>s. ps_DeviceID s = d) (sd_push db))" for d
    unfolding filter_filter by (rule filter_length_mono) simp
  then show ?thesis using assms by (auto simp: push_wf_def distinct_map_filter intro: order_trans)
qed

text \<open>The upsert of \<open>SavePushSubscription\<close>, before old rows are dropped.\<close>

definition upserted :: "seconds \<Rightarrow> PushSubscription \<Rightarrow> server_db \<Rightarrow> PushSubscription list" where
  "upserted now sub db =
     (let same = (\<lambda>p. ps_Endpoint p = ps_Endpoint sub \<and> ps_DeviceID p = ps_DeviceID sub)
      in if list_ex same (sd_push db)
         then map (\<lambda>p. if same p then p\<lparr>ps_PhoneID := ps_PhoneID sub, ps_P256DH := ps_P256DH sub,
                                       ps_Auth := ps_Auth sub, ps_CreatedAt := now\<rparr> else p) (sd_push db)
         else sd_push db @ [sub\<lparr>ps_ID := sd_pushNext db, ps_CreatedAt := now\<rparr>])"

definition of_device :: "string \<Rightarrow> PushSubscription list \<Rightarrow> PushSubscription list" where
  "of_device d = filter (\<lambda>p. ps_DeviceID p = d)"

lemma save_push_eq:
  "sd_push (save_push now sub db)
   = filter (\<lambda>p. ps_ID p \<notin> set (map ps_ID (drop maxPushSubscriptionsPerDevice
         (newest_first (of_device (ps_DeviceID sub) (upserted now sub db)))))) (upserted now sub db)"
  by (simp add: save_push_def upserted_def of_device_def Let_def)

lemma upserted_wf:
  assumes "push_wf db"
  shows "distinct (map ps_ID (upserted now sub db))"
    "\<forall>s \<in> set (upserted now sub db). ps_ID s < sd_pushNext (save_push now sub db)"
    "distinct (map (\<lambda>s. (ps_Endpoint s, ps_DeviceID s)) (upserted now sub db))"
    "d \<noteq> ps_DeviceID sub \<Longrightarrow> length (of_device d (upserted now sub db)) = length (of_device d (sd_push db))"
proof -
  let ?same = "\<lambda>p. ps_Endpoint p = ps_Endpoint sub \<and> ps_DeviceID p = ps_DeviceID sub"
  let ?f = "\<lambda>p. if ?same p then p\<lparr>ps_PhoneID := ps_PhoneID sub, ps_P256DH := ps_P256DH sub,
      ps_Auth := ps_Auth sub, ps_CreatedAt := now\<rparr> else p"
  have f: "ps_ID (?f p) = ps_ID p" "ps_Endpoint (?f p) = ps_Endpoint p" "ps_DeviceID (?f p) = ps_DeviceID p" for p
    by simp_all
  have wf: "distinct (map ps_ID (sd_push db))" "\<forall>s \<in> set (sd_push db). ps_ID s < sd_pushNext db"
    "distinct (map (\<lambda>s. (ps_Endpoint s, ps_DeviceID s)) (sd_push db))"
    using assms by (simp_all add: push_wf_def)
  show "distinct (map ps_ID (upserted now sub db))"
    using wf(1,2) by (auto simp: upserted_def comp_def f)
  show "\<forall>s \<in> set (upserted now sub db). ps_ID s < sd_pushNext (save_push now sub db)"
    using wf(2) by (auto simp: upserted_def save_push_def Let_def f)
  show "distinct (map (\<lambda>s. (ps_Endpoint s, ps_DeviceID s)) (upserted now sub db))"
    using wf(3) by (auto simp: upserted_def comp_def f list_ex_iff)
  show "length (of_device d (upserted now sub db)) = length (of_device d (sd_push db))" if "d \<noteq> ps_DeviceID sub"
    using that by (auto simp: upserted_def of_device_def filter_map comp_def f)
qed

lemma save_push_kept:
  assumes "push_wf db"
  shows "mset (of_device (ps_DeviceID sub) (sd_push (save_push now sub db)))
    = mset (take maxPushSubscriptionsPerDevice
        (newest_first (of_device (ps_DeviceID sub) (upserted now sub db))))"
proof -
  let ?mine = "of_device (ps_DeviceID sub) (upserted now sub db)"
  have "distinct (map ps_ID ?mine)"
    using upserted_wf(1) [OF assms] by (simp add: of_device_def distinct_map_filter)
  then have "mset (filter (\<lambda>p. ps_ID p \<notin> set (map ps_ID (drop maxPushSubscriptionsPerDevice (newest_first ?mine)))) ?mine)
      = mset (take maxPushSubscriptionsPerDevice (newest_first ?mine))"
    by (intro keep_first) simp_all
  then show ?thesis
    unfolding save_push_eq by (simp add: of_device_def filter_filter conj_commute)
qed

lemma push_wf_save:
  assumes "push_wf db"
  shows "push_wf (save_push now sub db)"
proof -
  note up = upserted_wf [OF assms, where now = now and sub = sub]
  have "length (of_device d (sd_push (save_push now sub db))) \<le> maxPushSubscriptionsPerDevice" for d
  proof (cases "d = ps_DeviceID sub")
    case True
    then show ?thesis
      using arg_cong [OF save_push_kept [OF assms, of sub now], of size] by simp
  next
    case False
    have "length (of_device d (sd_push (save_push now sub db))) \<le> length (of_device d (upserted now sub db))"
      unfolding save_push_eq of_device_def filter_filter by (rule filter_length_mono) simp
    also have "\<dots> \<le> maxPushSubscriptionsPerDevice"
      using up(4) [OF False] assms by (simp add: push_wf_def of_device_def)
    finally show ?thesis .
  qed
  then show ?thesis
    using up(1-3) unfolding push_wf_def save_push_eq of_device_def by (auto simp: distinct_map_filter)
qed

lemma push_wf_step:
  assumes wf: "push_wf db"
  shows "push_wf (fst (run_store s db))"
proof (cases s)
  case (RevokePhoneTx now p)
  have "push_wf (db\<lparr>sd_push := filter (\<lambda>s. ps_PhoneID s \<noteq> p) (sd_push db)\<rparr>)"
    using wf by (rule push_wf_filter)
  then show ?thesis using wf by (simp add: RevokePhoneTx push_wf_def split: prod.split)
next
  case (DeleteGrantPush p d)
  then show ?thesis using push_wf_filter [OF wf] by simp
next
  case (SavePushTx now sub)
  then show ?thesis using push_wf_save [OF wf] by simp
next
  case (DeletePush endpoint)
  then show ?thesis using push_wf_filter [OF wf] by simp
qed (use wf in \<open>simp_all add: push_wf_def Let_def split: prod.split\<close>)

text \<open>Push subscriptions are bounded and recent.  In every database built by statements a device
  has at most 32 subscriptions and one per endpoint; saving one keeps exactly the newest 32 of
  the device and touches no other device's.\<close>

theorem push_bounded:
  assumes "db = run_all ss empty_db" and "SavePushSubscription run sub db = (db', None)"
  shows "length (of_device d (sd_push db')) \<le> 32
    \<and> distinct (map (\<lambda>s. (ps_Endpoint s, ps_DeviceID s)) (sd_push db'))
    \<and> mset (of_device (ps_DeviceID sub) (sd_push db'))
      = mset (take 32 (newest_first (of_device (ps_DeviceID sub)
               (upserted (st_now run 0) sub (run_all (st_others run 0) db)))))"
proof -
  let ?db = "run_all (st_others run 0) db"
  have "push_wf empty_db" by (simp add: push_wf_def empty_db_def)
  then have wf: "push_wf ?db"
    unfolding assms(1) using run_all_keeps [of push_wf] push_wf_step by blast
  obtain n where "store_exec run 0 (SavePushTx (st_now run 0) sub) db = (db', Inr n)"
    using assms(2) by (auto simp: SavePushSubscription_def split: prod.splits sum.splits)
  then have "db' = save_push (st_now run 0) sub ?db" using store_exec_Inr by fastforce
  then show ?thesis
    using push_wf_save [OF wf, of "st_now run 0" sub] save_push_kept [OF wf, of sub "st_now run 0"]
    by (simp add: push_wf_def of_device_def maxPushSubscriptionsPerDevice_def)
qed

section \<open>Attention events\<close>

definition last_attention :: "store_stmt \<Rightarrow> seconds \<Rightarrow> bool" where
  "last_attention s t \<longleftrightarrow> (case s of AttentionTx now d e \<Rightarrow> now \<le> t | _ \<Rightarrow> True)"

lemma attention_kept:
  assumes "map_of (sd_attention db) k = Some created" and "gomap (sd_attention db)"
    and "last_attention s (created + attentionEventTTL)"
  shows "map_of (sd_attention (fst (run_store s db))) k = Some created \<and> gomap (sd_attention (fst (run_store s db)))"
proof (cases s)
  case (AttentionTx now d e)
  let ?t = "filter (\<lambda>(_, c). \<not> c < now - attentionEventTTL) (sd_attention db)"
  have "gomap ?t" using assms(2) by (rule gomap_filter)
  moreover have "(k, created) \<in> set ?t"
    using assms(1,3) by (auto simp: AttentionTx last_attention_def dest: map_of_in_set)
  ultimately have "map_of ?t k = Some created" using gomap_mem by fast
  then show ?thesis using \<open>gomap ?t\<close> by (auto simp: AttentionTx Let_def gomap_update)
qed (auto simp: assms(1,2) save_push_def Let_def split: prod.splits)

lemma attention_run:
  assumes "map_of (sd_attention db) k = Some created" and "gomap (sd_attention db)"
    and "\<forall>s \<in> set ss. last_attention s (created + attentionEventTTL)"
  shows "map_of (sd_attention (run_all ss db)) k = Some created \<and> gomap (sd_attention (run_all ss db))"
  using assms
proof (induction ss arbitrary: db)
  case (Cons s ss)
  then show ?case using attention_kept [OF Cons.prems(1,2), of s] by simp
qed simp

lemma attention_gomap: "gomap (sd_attention db) \<Longrightarrow> gomap (sd_attention (fst (run_store s db)))"
  by (cases s) (auto simp: gomap_update gomap_filter save_push_def Let_def split: prod.splits)

text \<open>An attention event counts once.  After an event is accepted, the same event of the same
  device is not accepted again within a day of its creation, whatever else runs in between.\<close>

theorem attention_once:
  assumes "db = run_all ss0 empty_db" and "AcceptAttentionEvent run d e created db = (db', Inr True)"
    and "\<forall>s \<in> set (ss @ st_others run' 0). last_attention s (created + attentionEventTTL)"
    and "created' \<le> created + attentionEventTTL"
  shows "snd (AcceptAttentionEvent run' d e created' (run_all ss db')) \<noteq> Inr True"
proof -
  let ?db = "run_all (st_others run 0) db" and ?db1 = "run_all (st_others run' 0) (run_all ss db')"
  have "gomap (sd_attention empty_db)" by (simp add: empty_db_def)
  then have "gomap (sd_attention ?db)"
    unfolding assms(1) using run_all_keeps [of "\<lambda>db. gomap (sd_attention db)"] attention_gomap by blast
  moreover have "store_exec run 0 (AttentionTx created d e) db = (db', Inr 1)"
    using assms(2) by (auto simp: AcceptAttentionEvent_def split: prod.splits sum.splits if_splits)
  ultimately have "map_of (sd_attention db') (d, e) = Some created" "gomap (sd_attention db')"
    using store_exec_Inr [of run 0 "AttentionTx created d e" db db' 1]
    by (auto simp: Let_def gomap_update gomap_filter split: if_splits)
  then have here: "map_of (sd_attention ?db1) (d, e) = Some created" "gomap (sd_attention ?db1)"
    using attention_run [of db' "(d, e)" created "ss @ st_others run' 0"] assms(3) by simp_all
  let ?t = "filter (\<lambda>(_, c). \<not> c < created' - attentionEventTTL) (sd_attention ?db1)"
  have "((d, e), created) \<in> set ?t" using map_of_in_set [OF here(1)] assms(4) by simp
  then have "map_of ?t (d, e) \<noteq> None" using gomap_mem [OF gomap_filter [OF here(2)]] by fast
  then have "snd (run_store (AttentionTx created' d e) ?db1) = Some 0" by (simp add: Let_def)
  then show ?thesis
    by (auto simp: AcceptAttentionEvent_def store_exec_def Let_def simp del: run_store.simps
        split: prod.splits option.splits)
qed

section \<open>Concrete databases\<close>

definition demo_stmts :: "store_stmt list" where
  "demo_stmts = [InsertPhone ''p'' \<lparr>pi_Name = ''Phone'', pi_TokenHash = ''t'', pi_Ed25519Public = [],
      pi_X25519Public = [], pi_CreatedAt = 1, pi_LastSeen = 1, pi_RevokedAt = 0\<rparr>,
    InsertPairCode ''abc123'' ''d'' 10]"

definition demo_db :: server_db where
  "demo_db = run_all demo_stmts empty_db"

lemma demo_db_state:
  "demo_db = empty_db\<lparr>sd_phones := [(''p'', \<lparr>pi_Name = ''Phone'', pi_TokenHash = ''t'', pi_Ed25519Public = [],
      pi_X25519Public = [], pi_CreatedAt = 1, pi_LastSeen = 1, pi_RevokedAt = 0\<rparr>)],
    sd_pair_codes := [(''abc123'', \<lparr>pc_DeviceID = ''d'', pc_ExpiresAt = 10, pc_Used = False\<rparr>)]\<rparr>"
  by (simp add: demo_db_def demo_stmts_def empty_db_def insert_row_def)

lemma demo_db_reach: "store_step\<^sup>*\<^sup>* empty_db demo_db"
  unfolding demo_db_def by (rule run_all_steps) (simp add: demo_stmts_def stmt_wf_def)

theorem pair_code_single_use_witness:
  "\<exists>db'. ConsumePairCode quiet_run ''abc123'' demo_db = (db', Inr ''d'')
     \<and> (\<exists>e. snd (ConsumePairCode quiet_run ''abc123'' (run_all [] db')) = Inl e)"
proof -
  obtain db' where "ConsumePairCode quiet_run ''abc123'' demo_db = (db', Inr ''d'')"
    by (simp add: ConsumePairCode_def store_exec_def store_read_def update_row_def quiet_run_def
        demo_db_state empty_db_def Let_def)
  from this pair_code_single_use [OF this] show ?thesis by blast
qed

theorem revoked_phone_stays_out_witness:
  "\<exists>db'. db_RevokePhone quiet_run ''p'' demo_db = (db', None)
     \<and> snd (db_ValidatePhoneToken id quiet_run ''t'' (run_all [] db')) \<noteq> Inr (''p'', ''Phone'')"
proof -
  obtain db' where db': "db_RevokePhone quiet_run ''p'' demo_db = (db', None)"
    by (simp add: db_RevokePhone_def store_exec_def update_row_def quiet_run_def demo_db_state
        empty_db_def revoke_grants_def Let_def)
  have q: "list_all stmt_wf (st_others quiet_run 0)" "0 < st_now quiet_run 0"
    by (simp_all add: quiet_run_def)
  show ?thesis
    using db' revoked_phone_stays_out [OF demo_db_reach q db' _ q(1), of "[]" id "''t''" "''Phone''" "''d''"]
    by auto
qed

definition demo_push :: PushSubscription where
  "demo_push = \<lparr>ps_ID = 0, ps_DeviceID = ''d'', ps_PhoneID = ''p'', ps_Endpoint = ''https://push'',
     ps_P256DH = ''k'', ps_Auth = ''a'', ps_CreatedAt = 0\<rparr>"

theorem push_bounded_witness:
  "\<exists>db'. SavePushSubscription quiet_run demo_push demo_db = (db', None)
     \<and> length (of_device ''d'' (sd_push db')) \<le> 32"
proof -
  obtain db' where db': "SavePushSubscription quiet_run demo_push demo_db = (db', None)"
    by (simp add: SavePushSubscription_def store_exec_def quiet_run_def Let_def)
  then show ?thesis using push_bounded [OF demo_db_def db', of "''d''"] by blast
qed

theorem attention_once_witness:
  "\<exists>db'. AcceptAttentionEvent quiet_run ''d'' ''e'' 5 demo_db = (db', Inr True)
     \<and> snd (AcceptAttentionEvent quiet_run ''d'' ''e'' 6 (run_all [] db')) \<noteq> Inr True"
proof -
  have "TrimSpace ''d'' = ''d''" "TrimSpace ''e'' = ''e''" by (simp_all add: TrimSpace_id no_space_byte_def space_runes_def)
  then obtain db' where db': "AcceptAttentionEvent quiet_run ''d'' ''e'' 5 demo_db = (db', Inr True)"
    by (simp add: AcceptAttentionEvent_def store_exec_def quiet_run_def demo_db_state empty_db_def Let_def)
  have "\<forall>s \<in> set ([] @ st_others quiet_run 0). last_attention s (5 + attentionEventTTL)"
    by (simp add: quiet_run_def)
  moreover have "(6 :: seconds) \<le> 5 + attentionEventTTL" by (simp add: attentionEventTTL_def)
  ultimately show ?thesis using db' attention_once [OF demo_db_def db'] by blast
qed

end
