(* ===== verification/Message_Store.thy ===== *)
theory Message_Store
  imports Protocol Prompt_Commands
begin

text \<open>
  The session history the server keeps (\<open>server/internal/db/messages.go\<close>, \<open>SessionMessage\<close> of
  \<open>relaycore/protocol/types.go\<close>).

  The table \<open>session_messages\<close> is a map from its primary key (message id, device id, session id)
  to rows.  Every operation is a single SQL statement, so operations are atomic; one that fails
  has no effect.  SQLite does not specify the order of rows with equal timestamps: the argument
  \<open>visit\<close> of a query is the order in which it meets the rows, some permutation of them.  The JSON
  text of a metadata object is a string written and read by a \<open>json_codec\<close>.
\<close>

section \<open>Data\<close>

record json_codec =
  jc_marshal :: "json \<Rightarrow> string option"
  jc_unmarshal :: "string \<Rightarrow> json option"

record SessionMessage =
  sm_ID :: string
  sm_Role :: string
  sm_Content :: string
  sm_Type :: string
  sm_Timestamp :: int
  sm_Metadata :: "(string, json) gomap option"

record message_row =
  mr_role :: string
  mr_content :: string
  mr_type :: string
  mr_timestamp :: int
  mr_metadata_json :: string

type_synonym message_key = "string \<times> string \<times> string"
type_synonym message_table = "(message_key, message_row) gomap"

section \<open>Metadata\<close>

definition metadataToJSON :: "json_codec \<Rightarrow> (string, json) gomap option \<Rightarrow> string" where
  "metadataToJSON c m =
     (case m of
        None \<Rightarrow> ''{}''
      | Some m \<Rightarrow> (case jc_marshal c (JObject m) of None \<Rightarrow> ''{}'' | Some data \<Rightarrow> data))"

definition jsonToMetadata :: "json_codec \<Rightarrow> string \<Rightarrow> (string, json) gomap option" where
  "jsonToMetadata c s =
     (if s = [] \<or> s = ''{}'' then None
      else (case jc_unmarshal c s of Some (JObject m) \<Rightarrow> Some m | _ \<Rightarrow> None))"

section \<open>Operations\<close>

definition key_scope_text :: "KeyScope \<Rightarrow> string" where
  "key_scope_text s =
     (case s of KeyScopeDeviceCatalog \<Rightarrow> ''device_catalog'' | KeyScopeSession \<Rightarrow> ''session''
      | KeyScopeOther t \<Rightarrow> t)"

definition transport_text :: "TransportMode \<Rightarrow> string" where
  "transport_text m =
     (case m of TransportSealed \<Rightarrow> ''sealed'' | TransportOpen \<Rightarrow> ''open'' | TransportOther t \<Rightarrow> t)"

definition sealed_payload_json :: "SealedPayload \<Rightarrow> json" where
  "sealed_payload_json p =
     JObject ([(''alg'', JString (sp_Alg p))]
       @ (if sp_Version p = 0 then [] else [(''version'', JNumber (of_int (sp_Version p)))])
       @ [(''key_scope'', JString (key_scope_text (sp_KeyScope p))),
          (''epoch'', JNumber (of_nat (unat (sp_Epoch p)))),
          (''sender_id'', JString (sp_SenderID p)), (''recipient_id'', JString (sp_RecipientID p)),
          (''sequence'', JNumber (of_nat (unat (sp_Sequence p)))), (''nonce'', JString (sp_Nonce p)),
          (''ciphertext'', JString (sp_Ciphertext p))])"

definition SaveSealedMessage ::
  "json_codec \<Rightarrow> bool \<Rightarrow> string \<Rightarrow> string \<Rightarrow> NekoMessage option \<Rightarrow> message_table
   \<Rightarrow> message_table \<times> command_error option" where
  "SaveSealedMessage c fails deviceID sessionID msg t =
     (case msg of
        None \<Rightarrow> (t, None)
      | Some m \<Rightarrow>
         (case nm_SealedPayload m of
            None \<Rightarrow> (t, None)
          | Some p \<Rightarrow>
              if fails then (t, Some DatabaseFailed)
              else let mid = (if nm_ClientMsgID m = []
                              then ''sealed_'' @ Itoa (nm_Timestamp m) @ ''_'' @ Itoa (uint (sp_Sequence p))
                              else nm_ClientMsgID m);
                       meta = (case jc_marshal c (JObject
                                 [(''sealed'', JBool True), (''sealed_payload'', sealed_payload_json p),
                                  (''protocol_version'', JString (nm_ProtocolVersion m)),
                                  (''transport_mode'', JString (transport_text (nm_TransportMode m)))]) of
                                 None \<Rightarrow> [] | Some s \<Rightarrow> s);
                       key = (mid, deviceID, sessionID)
                   in (AList.update key
                         (case map_of t key of
                            None \<Rightarrow> \<lparr>mr_role = ''assistant'', mr_content = [], mr_type = ''sealed'',
                                     mr_timestamp = nm_Timestamp m, mr_metadata_json = meta\<rparr>
                          | Some r \<Rightarrow> r\<lparr>mr_timestamp := nm_Timestamp m, mr_metadata_json := meta\<rparr>) t, None)))"

definition SaveMessage ::
  "json_codec \<Rightarrow> bool \<Rightarrow> string \<Rightarrow> string \<Rightarrow> SessionMessage \<Rightarrow> message_table
   \<Rightarrow> message_table \<times> command_error option" where
  "SaveMessage c fails deviceID sessionID msg t =
     (if fails then (t, Some DatabaseFailed)
      else (AList.update (sm_ID msg, deviceID, sessionID)
              \<lparr>mr_role = sm_Role msg, mr_content = sm_Content msg, mr_type = sm_Type msg,
               mr_timestamp = sm_Timestamp msg,
               mr_metadata_json = metadataToJSON c (sm_Metadata msg)\<rparr> t, None))"

definition session_rows :: "string \<Rightarrow> string \<Rightarrow> message_table \<Rightarrow> (message_key \<times> message_row) list" where
  "session_rows deviceID sessionID t =
     filter (\<lambda>((i, d, s), r). d = deviceID \<and> s = sessionID) t"

definition scan_message :: "json_codec \<Rightarrow> message_key \<times> message_row \<Rightarrow> SessionMessage" where
  "scan_message c kr = (case kr of ((i, d, s), r) \<Rightarrow>
     \<lparr>sm_ID = i, sm_Role = mr_role r, sm_Content = mr_content r, sm_Type = mr_type r,
      sm_Timestamp = mr_timestamp r, sm_Metadata = jsonToMetadata c (mr_metadata_json r)\<rparr>)"

type_synonym visit = "(message_key \<times> message_row) list \<Rightarrow> (message_key \<times> message_row) list"

definition GetMessages ::
  "json_codec \<Rightarrow> bool \<Rightarrow> visit \<Rightarrow> string \<Rightarrow> string \<Rightarrow> int \<Rightarrow> message_table
   \<Rightarrow> command_error + SessionMessage list" where
  "GetMessages c fails visit deviceID sessionID limit t =
     (if fails then Inl DatabaseFailed
      else let rows = visit (session_rows deviceID sessionID t)
           in Inr (if 0 < limit
                   then rev (map (scan_message c)
                          (take (nat limit) (sort_key (\<lambda>kr. - mr_timestamp (snd kr)) rows)))
                   else map (scan_message c) (sort_key (\<lambda>kr. mr_timestamp (snd kr)) rows)))"

definition GetMessageCount :: "bool \<Rightarrow> string \<Rightarrow> string \<Rightarrow> message_table \<Rightarrow> command_error + nat" where
  "GetMessageCount fails deviceID sessionID t =
     (if fails then Inl DatabaseFailed else Inr (length (session_rows deviceID sessionID t)))"

definition DeleteOldMessages :: "bool \<Rightarrow> seconds \<Rightarrow> message_table \<Rightarrow> message_table \<times> (command_error + nat)" where
  "DeleteOldMessages fails before t =
     (if fails then (t, Inl DatabaseFailed)
      else (filter (\<lambda>(k, r). \<not> mr_timestamp r < before) t,
            Inr (length (filter (\<lambda>(k, r). mr_timestamp r < before) t))))"

definition DeleteSessionMessages ::
  "bool \<Rightarrow> string \<Rightarrow> string \<Rightarrow> message_table \<Rightarrow> message_table \<times> command_error option" where
  "DeleteSessionMessages fails deviceID sessionID t =
     (if fails then (t, Some DatabaseFailed)
      else (filter (\<lambda>((i, d, s), r). \<not> (d = deviceID \<and> s = sessionID)) t, None))"

text \<open>\<open>GROUP BY session_id ORDER BY MAX(timestamp) DESC\<close>, ties in the order of \<open>visit\<close>.\<close>

definition newest_in :: "string \<Rightarrow> string \<Rightarrow> message_table \<Rightarrow> int" where
  "newest_in deviceID sessionID t =
     Max (set (map (\<lambda>(k, r). mr_timestamp r) (session_rows deviceID sessionID t)))"

definition ListSessionsWithMessages ::
  "bool \<Rightarrow> (string list \<Rightarrow> string list) \<Rightarrow> string \<Rightarrow> message_table \<Rightarrow> command_error + string list" where
  "ListSessionsWithMessages fails visit deviceID t =
     (if fails then Inl DatabaseFailed
      else Inr (sort_key (\<lambda>s. - newest_in deviceID s t)
             (visit (remdups (map (\<lambda>((i, d, s), r). s) (filter (\<lambda>((i, d, s), r). d = deviceID) t))))))"

section \<open>Reading the history\<close>

lemma scan_timestamp [simp]: "sm_Timestamp (scan_message c kr) = mr_timestamp (snd kr)"
  by (cases kr) (auto simp: scan_message_def)

lemma scan_id [simp]: "sm_ID (scan_message c kr) = fst (fst kr)"
  by (cases kr) (auto simp: scan_message_def)

text \<open>A prefix of a list in descending order and the rest of it.\<close>

lemma sorted_desc_split:
  fixes f :: "'a \<Rightarrow> int"
  assumes "sorted (map (\<lambda>x. - f x) xs)" and "x \<in> set (drop n xs)" and "y \<in> set (take n xs)"
  shows "f x \<le> f y"
proof -
  have "sorted (map (\<lambda>x. - f x) (take n xs) @ map (\<lambda>x. - f x) (drop n xs))"
    using assms(1) by (metis append_take_drop_id map_append)
  then have "- f y \<le> - f x" using assms(2,3) unfolding sorted_append by auto
  then show ?thesis by simp
qed

lemma sorted_rev_desc:
  fixes f :: "'a \<Rightarrow> int"
  shows "sorted (map (\<lambda>x. - f x) xs) \<Longrightarrow> sorted (map f (rev xs))"
  by (induction xs) (auto simp: sorted_append)

lemma newest_messages:
  assumes "\<forall>xs. mset (visit xs) = mset xs"
    and "GetMessages c fails visit d s limit t = Inr ms"
  shows "sorted (map sm_Timestamp ms)
    \<and> length ms = (if 0 < limit then min (nat limit) (length (session_rows d s t))
                   else length (session_rows d s t))
    \<and> (\<exists>rest. mset (map (scan_message c) (session_rows d s t)) = mset ms + mset rest
         \<and> (\<forall>x \<in> set rest. \<forall>y \<in> set ms. sm_Timestamp x \<le> sm_Timestamp y))"
proof -
  let ?rows = "visit (session_rows d s t)"
  let ?ts = "\<lambda>kr :: message_key \<times> message_row. mr_timestamp (snd kr)"
  have rows: "mset ?rows = mset (session_rows d s t)" using assms(1) by blast
  then have len: "length ?rows = length (session_rows d s t)" by (rule mset_eq_length)
  show ?thesis
  proof (cases "0 < limit")
    case False
    then have ms: "ms = map (scan_message c) (sort_key ?ts ?rows)"
      using assms(2) by (simp add: GetMessages_def Let_def split: if_splits)
    have "map sm_Timestamp ms = map ?ts (sort_key ?ts ?rows)" by (simp add: ms comp_def)
    moreover have "mset (map (scan_message c) (session_rows d s t)) = mset ms + mset []"
      by (simp add: ms rows)
    ultimately show ?thesis using False len
      by (intro conjI exI [of _ "[]"]) (simp_all add: ms comp_def)
  next
    case True
    let ?all = "sort_key (\<lambda>kr. - ?ts kr) ?rows"
    let ?new = "take (nat limit) ?all" and ?rest = "drop (nat limit) ?all"
    have ms: "ms = rev (map (scan_message c) ?new)"
      using assms(2) True by (simp add: GetMessages_def Let_def split: if_splits)
    have desc: "sorted (map (\<lambda>kr. - ?ts kr) ?all)" by simp
    have "map sm_Timestamp ms = map ?ts (rev ?new)" by (simp add: ms rev_map comp_def)
    moreover have "sorted (map (\<lambda>kr. - ?ts kr) ?new)"
      using desc by (metis sorted_wrt_take take_map)
    ultimately have "sorted (map sm_Timestamp ms)" using sorted_rev_desc by metis
    moreover have "mset (map (scan_message c) (session_rows d s t))
        = mset ms + mset (map (scan_message c) ?rest)"
    proof -
      have "mset ?new + mset ?rest = mset (session_rows d s t)"
        by (metis append_take_drop_id mset_append mset_sort rows)
      then have "image_mset (scan_message c) (mset (session_rows d s t))
          = image_mset (scan_message c) (mset ?new) + image_mset (scan_message c) (mset ?rest)"
        by (metis image_mset_union)
      then show ?thesis by (simp add: ms)
    qed
    moreover have "\<forall>x \<in> set (map (scan_message c) ?rest). \<forall>y \<in> set ms. sm_Timestamp x \<le> sm_Timestamp y"
      using sorted_desc_split [OF desc] by (auto simp: ms)
    moreover have "length ms = min (nat limit) (length (session_rows d s t))"
      by (simp add: ms len)
    ultimately show ?thesis unfolding if_P [OF True] by blast
  qed
qed

text \<open>
  A history query with a limit returns the newest messages of the session, in chronological
  order; with no limit it returns all of them in that order.  Messages left out are no
  newer than any returned.
\<close>

theorem history_newest:
  assumes "\<forall>xs. mset (visit xs) = mset xs"
    and "GetMessages c fails visit d s limit t = Inr ms"
  shows "sorted (map sm_Timestamp ms)
    \<and> length ms = (if 0 < limit then min (nat limit) (length (session_rows d s t))
                   else length (session_rows d s t))
    \<and> (\<exists>rest. mset (map (scan_message c) (session_rows d s t)) = mset ms + mset rest
         \<and> (\<forall>x \<in> set rest. \<forall>y \<in> set ms. sm_Timestamp x \<le> sm_Timestamp y))"
  by (rule newest_messages [OF assms])

section \<open>What a save does\<close>

text \<open>What the codec has to do with one metadata object: an empty one is written as the text
  \<open>{}\<close>, any other one as a different text that reads back as the same object.\<close>

definition metadata_codec :: "json_codec \<Rightarrow> (string, json) gomap \<Rightarrow> bool" where
  "metadata_codec c m \<longleftrightarrow>
     (if m = [] then jc_marshal c (JObject []) = Some ''{}''
      else \<exists>text. jc_marshal c (JObject m) = Some text \<and> text \<noteq> [] \<and> text \<noteq> ''{}''
             \<and> jc_unmarshal c text = Some (JObject m))"

lemma metadata_round_trip:
  "(\<And>m. md = Some m \<Longrightarrow> metadata_codec c m) \<Longrightarrow>
   jsonToMetadata c (metadataToJSON c md) = (if md = Some [] then None else md)"
  by (cases md) (auto simp: metadata_codec_def metadataToJSON_def jsonToMetadata_def split: if_splits)

lemma session_rows_update:
  "gomap t \<Longrightarrow> set (session_rows d s (AList.update (i, d, s) r t))
     = insert ((i, d, s), r) {kr \<in> set (session_rows d s t). fst (fst kr) \<noteq> i}"
  by (auto simp: session_rows_def set_update_gomap)

lemma session_rows_distinct: "gomap t \<Longrightarrow> distinct (session_rows d s t)"
  unfolding session_rows_def using distinct_map gomap_def by (metis distinct_filter)

lemma all_messages:
  assumes "\<forall>xs. mset (visit xs) = mset xs" and "GetMessages c fails visit d s 0 t = Inr ms"
  shows "set ms = scan_message c ` set (session_rows d s t)"
    and "gomap t \<Longrightarrow> distinct (map sm_ID ms)"
proof -
  have rows: "mset (visit (session_rows d s t)) = mset (session_rows d s t)" using assms(1) by blast
  have ms: "ms = map (scan_message c) (sort_key (\<lambda>kr. mr_timestamp (snd kr)) (visit (session_rows d s t)))"
    using assms(2) by (simp add: GetMessages_def Let_def split: if_splits)
  show "set ms = scan_message c ` set (session_rows d s t)"
    using mset_eq_setD [OF rows] by (simp add: ms)
  assume "gomap t"
  then have "distinct (session_rows d s t)" "inj_on (\<lambda>kr. fst (fst kr)) (set (session_rows d s t))"
    using session_rows_distinct by (auto simp: inj_on_def session_rows_def gomap_key_inject)
  then have "distinct (map (\<lambda>kr. fst (fst kr)) (session_rows d s t))" by (simp add: distinct_map)
  moreover have "mset (map sm_ID ms) = mset (map (\<lambda>kr. fst (fst kr)) (session_rows d s t))"
    using rows by (simp add: ms comp_def)
  ultimately show "distinct (map sm_ID ms)" using mset_eq_imp_distinct_iff by blast
qed

text \<open>
  A message that was saved is read back as it was (an empty metadata object as none); a message
  with the same id in that session is replaced, and every other message of the session is as
  before.
\<close>

theorem saved_message_read_back:
  assumes "gomap t" and "\<forall>xs. mset (visit xs) = mset xs"
    and "\<forall>m. sm_Metadata msg = Some m \<longrightarrow> metadata_codec c m"
    and "GetMessages c False visit d s 0 t = Inr before"
    and "SaveMessage c False d s msg t = (t', err)"
    and "GetMessages c False visit d s 0 t' = Inr after"
  shows "err = None \<and> distinct (map sm_ID after)
    \<and> set after = insert (msg\<lparr>sm_Metadata := (if sm_Metadata msg = Some [] then None else sm_Metadata msg)\<rparr>)
                    {m \<in> set before. sm_ID m \<noteq> sm_ID msg}"
proof -
  let ?row = "\<lparr>mr_role = sm_Role msg, mr_content = sm_Content msg, mr_type = sm_Type msg,
               mr_timestamp = sm_Timestamp msg, mr_metadata_json = metadataToJSON c (sm_Metadata msg)\<rparr>"
  have t': "t' = AList.update (sm_ID msg, d, s) ?row t" and "err = None"
    using assms(5) by (simp_all add: SaveMessage_def)
  moreover have "scan_message c ((sm_ID msg, d, s), ?row)
      = msg\<lparr>sm_Metadata := (if sm_Metadata msg = Some [] then None else sm_Metadata msg)\<rparr>"
    using metadata_round_trip [of "sm_Metadata msg" c] assms(3) by (simp add: scan_message_def)
  moreover have "set after = insert (scan_message c ((sm_ID msg, d, s), ?row))
      {m \<in> set before. sm_ID m \<noteq> sm_ID msg}"
    using session_rows_update [OF assms(1), of d s "sm_ID msg" ?row]
    by (auto simp: all_messages(1) [OF assms(2,4)] all_messages(1) [OF assms(2,6)] t')
  ultimately show ?thesis
    using all_messages(2) [OF assms(2,6)] gomap_update [OF assms(1)] by simp
qed

section \<open>Sealed rows\<close>

text \<open>A row that holds no application plaintext, and what keeps a table of such rows.\<close>

definition opaque_rows :: "message_table \<Rightarrow> bool" where
  "opaque_rows t \<longleftrightarrow> (\<forall>(k, r) \<in> set t. mr_content r = [] \<and> mr_type r = ''sealed'')"

lemma update_subset: "set (AList.update k v t) \<subseteq> insert (k, v) (set t)"
  by (induction t) auto

lemma opaque_rows_update:
  "opaque_rows t \<Longrightarrow> mr_content r = [] \<Longrightarrow> mr_type r = ''sealed'' \<Longrightarrow> opaque_rows (AList.update k r t)"
  using update_subset [of k r t] by (fastforce simp: opaque_rows_def)

lemma opaque_rows_lookup:
  "opaque_rows t \<Longrightarrow> map_of t k = Some r \<Longrightarrow> mr_content r = [] \<and> mr_type r = ''sealed''"
  by (auto simp: opaque_rows_def dest: map_of_SomeD)

lemma SaveSealedMessage_opaque:
  assumes "opaque_rows t"
  shows "opaque_rows (fst (SaveSealedMessage c fails d s msg t))"
proof -
  have "opaque_rows (AList.update k (case map_of t k of None \<Rightarrow>
      \<lparr>mr_role = ''assistant'', mr_content = [], mr_type = ''sealed'', mr_timestamp = now, mr_metadata_json = meta\<rparr>
    | Some r \<Rightarrow> r\<lparr>mr_timestamp := now, mr_metadata_json := meta\<rparr>) t)" for k now meta
    using assms opaque_rows_lookup [OF assms, of k]
    by (cases "map_of t k") (auto intro!: opaque_rows_update)
  then show ?thesis using assms unfolding SaveSealedMessage_def Let_def
    by (auto split: option.split)
qed

section \<open>A concrete table\<close>

definition demo_row :: "string \<Rightarrow> int \<Rightarrow> message_row" where
  "demo_row text ts = \<lparr>mr_role = ''user'', mr_content = text, mr_type = ''text'', mr_timestamp = ts,
     mr_metadata_json = ''{}''\<rparr>"

definition demo_messages :: message_table where
  "demo_messages = [((''m1'', ''d'', ''s''), demo_row ''one'' 1), ((''m3'', ''d'', ''s''), demo_row ''three'' 3),
     ((''m2'', ''d'', ''s''), demo_row ''two'' 2)]"

definition demo_codec :: json_codec where
  "demo_codec = \<lparr>jc_marshal = (\<lambda>j. if j = JObject [] then Some ''{}'' else Some ''{1}''),
     jc_unmarshal = (\<lambda>s. Some (JObject []))\<rparr>"

definition demo_message :: SessionMessage where
  "demo_message = \<lparr>sm_ID = ''m3'', sm_Role = ''user'', sm_Content = ''new'', sm_Type = ''text'',
     sm_Timestamp = 4, sm_Metadata = Some []\<rparr>"

theorem history_newest_witness:
  "\<exists>ms. GetMessages demo_codec False (\<lambda>xs. xs) ''d'' ''s'' 2 demo_messages = Inr ms
     \<and> map sm_ID ms = [''m2'', ''m3''] \<and> sorted (map sm_Timestamp ms)"
proof -
  obtain ms where ms: "GetMessages demo_codec False (\<lambda>xs. xs) ''d'' ''s'' 2 demo_messages = Inr ms"
    by (simp add: GetMessages_def Let_def)
  moreover from ms have "map sm_ID ms = [''m2'', ''m3'']"
    by (auto simp: GetMessages_def Let_def demo_messages_def demo_row_def session_rows_def)
  ultimately show ?thesis using history_newest [OF _ ms] by simp
qed

theorem saved_message_read_back_witness:
  "\<exists>t' after. SaveMessage demo_codec False ''d'' ''s'' demo_message demo_messages = (t', None)
     \<and> GetMessages demo_codec False (\<lambda>xs. xs) ''d'' ''s'' 0 t' = Inr after
     \<and> demo_message\<lparr>sm_Metadata := None\<rparr> \<in> set after"
proof -
  obtain before where b: "GetMessages demo_codec False (\<lambda>xs. xs) ''d'' ''s'' 0 demo_messages = Inr before"
    by (simp add: GetMessages_def Let_def)
  obtain t' err where t': "SaveMessage demo_codec False ''d'' ''s'' demo_message demo_messages = (t', err)"
    by fastforce
  obtain after where a: "GetMessages demo_codec False (\<lambda>xs. xs) ''d'' ''s'' 0 t' = Inr after"
    by (simp add: GetMessages_def Let_def)
  have "gomap demo_messages" by (simp add: gomap_def demo_messages_def)
  moreover have "\<forall>m. sm_Metadata demo_message = Some m \<longrightarrow> metadata_codec demo_codec m"
    by (simp add: demo_message_def metadata_codec_def demo_codec_def)
  ultimately show ?thesis
    using saved_message_read_back [OF _ _ _ b t' a] t' a by (simp add: demo_message_def)
qed

end
