(* ===== verification/Relay_Payload.thy ===== *)
theory Relay_Payload
  imports Message_Store
begin

text \<open>
  How the relay reads what phones and daemons send (\<open>relaycore/websocket.go\<close>, \<open>stampEnvelope\<close> of
  \<open>relaycore/engine.go\<close>): payload fields, client message ids, history limits, approval markers,
  attachment references, subscription ids, and the labels it logs.

  A payload field is \<open>None\<close> when the map has no such key; a Go type assertion on it succeeds for
  the matching constructor only.  The URL parser of Go's library is a parameter (\<open>url_lib\<close>).
\<close>

section \<open>Fields\<close>

type_synonym payload = "(string, json) gomap option"

definition field :: "payload \<Rightarrow> string \<Rightarrow> json option" where
  "field p k = (case p of None \<Rightarrow> None | Some m \<Rightarrow> map_of m k)"

definition as_string :: "json option \<Rightarrow> string option" where
  "as_string v = (case v of Some (JString s) \<Rightarrow> Some s | _ \<Rightarrow> None)"

definition as_bool :: "json option \<Rightarrow> bool option" where
  "as_bool v = (case v of Some (JBool b) \<Rightarrow> Some b | _ \<Rightarrow> None)"

definition as_object :: "json option \<Rightarrow> (string, json) gomap option" where
  "as_object v = (case v of Some (JObject m) \<Rightarrow> Some m | _ \<Rightarrow> None)"

definition string_or_empty :: "json option \<Rightarrow> string" where
  "string_or_empty v = (case as_string v of Some s \<Rightarrow> s | None \<Rightarrow> [])"

definition set_field :: "string \<Rightarrow> json \<Rightarrow> payload \<Rightarrow> payload" where
  "set_field k v p = Some (AList.update k v (case p of None \<Rightarrow> [] | Some m \<Rightarrow> m))"

definition stringPayload :: "payload \<Rightarrow> string \<Rightarrow> string" where
  "stringPayload p k = TrimSpace (string_or_empty (field p k))"

section \<open>Envelopes and identifiers\<close>

definition stampEnvelope :: "TransportMode \<Rightarrow> NekoMessage \<Rightarrow> NekoMessage" where
  "stampEnvelope mode m =
     (let m = (if nm_ProtocolVersion m = [] then m\<lparr>nm_ProtocolVersion := CurrentProtocolVersion\<rparr> else m)
      in if nm_TransportMode m = TransportOther [] then m\<lparr>nm_TransportMode := mode\<rparr> else m)"

definition id_char :: "char \<Rightarrow> bool" where
  "id_char c \<longleftrightarrow> (let b = byte c in 97 \<le> b \<and> b \<le> 122 \<or> 65 \<le> b \<and> b \<le> 90 \<or> 48 \<le> b \<and> b \<le> 57 \<or> b = 95 \<or> b = 45)"

text \<open>The loop runs over runes; a byte outside ASCII belongs to a rune that is not allowed.\<close>

definition sanitizeClientMsgID :: "string \<Rightarrow> string" where
  "sanitizeClientMsgID i =
     (let i = TrimSpace i
      in if length i < 4 \<or> 80 < length i then []
         else if \<not> prefix ''local_'' i \<and> \<not> prefix ''user_'' i \<and> \<not> prefix ''msg_'' i then []
         else if list_all id_char i then i else [])"

definition promptClientMsgID :: "NekoMessage option \<Rightarrow> string" where
  "promptClientMsgID msg =
     (case msg of
        None \<Rightarrow> []
      | Some m \<Rightarrow>
          let i = sanitizeClientMsgID (stringPayload (nm_Payload m) ''client_msg_id'')
          in if i \<noteq> [] then i else sanitizeClientMsgID (nm_ClientMsgID m))"

definition subscribeRequestID :: "payload \<Rightarrow> string option" where
  "subscribeRequestID p =
     (case p of
        None \<Rightarrow> Some []
      | Some m \<Rightarrow>
          (case map_of m ''subscription_id'' of
             None \<Rightarrow> Some []
           | Some (JString v) \<Rightarrow> let v = TrimSpace v in if 128 < length v then None else Some v
           | Some _ \<Rightarrow> None))"

definition subscribeRequestsFreshSessionCatalog :: "payload \<Rightarrow> bool" where
  "subscribeRequestsFreshSessionCatalog p = (as_bool (field p ''refresh_sessions'') = Some True)"

section \<open>History\<close>

definition historyLimit :: "payload \<Rightarrow> int" where
  "historyLimit p =
     (case p of
        None \<Rightarrow> 50
      | Some m \<Rightarrow>
          (case map_of m ''limit'' of
             Some (JNumber value) \<Rightarrow>
               if of_int \<lfloor>value\<rfloor> \<noteq> value then 50
               else if value < 1 then 1
               else if 500 < value then 500
               else \<lfloor>value\<rfloor>
           | _ \<Rightarrow> 50))"

definition truncateHistory :: "'a list \<Rightarrow> int \<Rightarrow> 'a list \<times> bool" where
  "truncateHistory rows limit =
     (if limit < 1 \<or> int (length rows) \<le> limit then (rows, False)
      else (drop (length rows - nat limit) rows, True))"

section \<open>Approvals\<close>

definition isWaitingApprovalStatus :: "json option \<Rightarrow> bool" where
  "isWaitingApprovalStatus v =
     (case as_string v of None \<Rightarrow> False | Some s \<Rightarrow> TrimSpace s = ''waiting_approval'')"

definition explicitApprovalValue :: "json option \<Rightarrow> bool" where
  "explicitApprovalValue v =
     (case v of
        None \<Rightarrow> False
      | Some JNull \<Rightarrow> False
      | Some (JBool b) \<Rightarrow> b
      | Some (JString s) \<Rightarrow> TrimSpace s \<noteq> []
      | Some (JObject m) \<Rightarrow> m \<noteq> []
      | Some _ \<Rightarrow> True)"

definition nested_approval :: "string \<Rightarrow> (string, json) gomap \<Rightarrow> bool" where
  "nested_approval key m \<longleftrightarrow>
     explicitApprovalValue (map_of m ''pending_approval'')
     \<or> explicitApprovalValue (map_of m ''permission_request'')
     \<or> key = ''session'' \<and> isWaitingApprovalStatus (map_of m ''status'')
     \<or> as_string (map_of m ''type'') = Some ''permission_request''
     \<or> (case as_object (map_of m ''metadata'') of
          None \<Rightarrow> False
        | Some md \<Rightarrow> explicitApprovalValue (map_of md ''pending_approval'')
                     \<or> explicitApprovalValue (map_of md ''permission_request''))"

definition needsApprovalPush :: "payload \<Rightarrow> bool" where
  "needsApprovalPush p =
     (case p of
        None \<Rightarrow> False
      | Some m \<Rightarrow>
          explicitApprovalValue (map_of m ''pending_approval'')
          \<or> explicitApprovalValue (map_of m ''permission_request'')
          \<or> isWaitingApprovalStatus (map_of m ''status'')
          \<or> list_ex (\<lambda>key. case as_object (map_of m key) of
                            None \<Rightarrow> False | Some nested \<Rightarrow> nested_approval key nested)
              [''session'', ''message''])"

section \<open>Attachments\<close>

record url_lib =
  url_RequestURI :: "string \<Rightarrow> string option"
  url_path_and_k :: "string \<Rightarrow> (string \<times> string) option"

fun contains :: "string \<Rightarrow> string \<Rightarrow> bool" where
  "contains p [] = (p = [])"
| "contains p (c # s) = (prefix p (c # s) \<or> contains p s)"

definition hex_rune :: "char \<Rightarrow> bool" where
  "hex_rune c \<longleftrightarrow> (let b = byte c in 48 \<le> b \<and> b \<le> 57 \<or> 97 \<le> b \<and> b \<le> 102 \<or> 65 \<le> b \<and> b \<le> 70)"

definition TrimPrefix :: "string \<Rightarrow> string \<Rightarrow> string" where
  "TrimPrefix p s = (if prefix p s then drop (length p) s else s)"

definition sanitizeAttachmentURL :: "url_lib \<Rightarrow> string \<Rightarrow> string" where
  "sanitizeAttachmentURL u raw =
     (let raw = TrimSpace raw
      in if raw = [] \<or> prefix ''//'' raw then []
         else (case (if prefix ''http://'' raw \<or> prefix ''https://'' raw
                     then url_RequestURI u raw else Some raw) of
                 None \<Rightarrow> []
               | Some path \<Rightarrow>
                   if \<not> prefix ''/api/attachments/'' path then []
                   else (case url_path_and_k u path of
                           None \<Rightarrow> []
                         | Some (escaped, k) \<Rightarrow>
                             let rest = TrimPrefix ''/api/attachments/'' escaped
                             in if rest = [] \<or> contains ''/'' rest \<or> contains ''..'' rest then []
                                else if k \<noteq> []
                                then (if list_all hex_rune k
                                      then ''/api/attachments/'' @ rest @ ''?k='' @ k else [])
                                else ''/api/attachments/'' @ rest)))"

text \<open>\<open>int64(x)\<close> of a float outside the range is the smallest integer, as on amd64.\<close>

definition float_to_int64 :: "rat \<Rightarrow> int" where
  "float_to_int64 x =
     (let i = (if 0 \<le> x then \<lfloor>x\<rfloor> else - \<lfloor>- x\<rfloor>)
      in if - (2 ^ 63) \<le> i \<and> i < 2 ^ 63 then i else - (2 ^ 63))"

definition attachment_entry :: "url_lib \<Rightarrow> json \<Rightarrow> json option" where
  "attachment_entry u item =
     (case item of
        JObject m \<Rightarrow>
          let safe = sanitizeAttachmentURL u (string_or_empty (map_of m ''url''));
              name = string_or_empty (map_of m ''name'');
              mime = string_or_empty (map_of m ''mime'');
              aid = string_or_empty (map_of m ''id'')
          in if safe = [] then None
             else Some (JObject ([(''url'', JString safe)]
               @ (if name = [] then [] else [(''name'', JString name)])
               @ (if mime = [] then [] else [(''mime'', JString mime)])
               @ (if aid = [] then [] else [(''id'', JString aid)])
               @ (case map_of m ''size'' of
                    Some (JNumber sz) \<Rightarrow> [(''size'', JNumber (of_int (float_to_int64 sz)))]
                  | _ \<Rightarrow> [])))
      | _ \<Rightarrow> None)"

text \<open>A nil slice is \<open>None\<close>: it is encoded as \<open>null\<close>, an empty one as \<open>[]\<close>.\<close>

definition slice :: "'a list option \<Rightarrow> 'a list" where
  "slice xs = (case xs of None \<Rightarrow> [] | Some ys \<Rightarrow> ys)"

definition slice_json :: "json list option \<Rightarrow> json" where
  "slice_json xs = (case xs of None \<Rightarrow> JNull | Some ys \<Rightarrow> JArray ys)"

definition normalizeAttachments :: "url_lib \<Rightarrow> json option \<Rightarrow> json list option" where
  "normalizeAttachments u raw =
     (case raw of
        Some (JArray arr) \<Rightarrow>
          if arr = [] then None else Some (List.map_filter (attachment_entry u) (take 5 arr))
      | _ \<Rightarrow> None)"

section \<open>Labels for the log\<close>

definition knownOperatorRoute :: "string \<Rightarrow> bool" where
  "knownOperatorRoute path \<longleftrightarrow> path \<in> set
     [''/api/devices'', ''/api/devices/register'', ''/api/devices/sessions'',
      ''/api/phones/bootstrap'', ''/api/phones'', ''/api/phones/revoke'',
      ''/api/messages'', ''/api/attachments'', ''/api/push/subscribe'',
      ''/api/push/vapid-public-key'', ''/api/pair/generate'', ''/api/pair/consume'',
      ''/api/devices/keys'', ''/api/devices/grants'', ''/api/keys'', ''/api/keys/upload'']"

definition requestRoute :: "string \<Rightarrow> string" where
  "requestRoute path =
     (if prefix ''/api/attachments/'' path then ''/api/attachments/{id}''
      else if prefix ''/static/'' path then ''/static/*''
      else if prefix ''/assets/'' path then ''/assets/*''
      else if knownOperatorRoute path then path
      else if prefix ''/api/'' path then ''api_unmatched''
      else if path = ''/'' then ''/''
      else ''spa_route'')"

definition message_type_text :: "MessageType \<Rightarrow> string" where
  "message_type_text t =
     (case t of
        MsgOther s \<Rightarrow> s
      | _ \<Rightarrow> (case find (\<lambda>e. snd e = t) message_types of None \<Rightarrow> [] | Some e \<Rightarrow> fst e))"

definition safeMessageTypeForLog :: "MessageType \<Rightarrow> string" where
  "safeMessageTypeForLog t =
     (if BodyPolicy t = MessageBodyUnknown then ''unknown'' else message_type_text t)"

section \<open>What the readers guarantee\<close>

lemma id_char_no_space: "id_char c \<Longrightarrow> no_space_byte c"
  by (auto simp: id_char_def no_space_byte_def space_runes_def byte_def Let_def)

lemma TrimSpace_clean: "list_all id_char s \<Longrightarrow> TrimSpace s = s"
proof (cases "s = []")
  case False
  assume "list_all id_char s"
  then show ?thesis using TrimSpace_id [OF False] False id_char_no_space
    by (simp add: list_all_iff)
qed simp

lemma sanitized_id:
  assumes "sanitizeClientMsgID i \<noteq> []"
  shows "sanitizeClientMsgID i = TrimSpace i" and "4 \<le> length (sanitizeClientMsgID i)"
    and "length (sanitizeClientMsgID i) \<le> 80" and "list_all id_char (sanitizeClientMsgID i)"
  using assms by (simp_all add: sanitizeClientMsgID_def Let_def split: if_splits)

lemma sanitize_again: "sanitizeClientMsgID (sanitizeClientMsgID i) = sanitizeClientMsgID i"
proof (cases "sanitizeClientMsgID i = []")
  case False
  then have "TrimSpace (sanitizeClientMsgID i) = sanitizeClientMsgID i"
    using TrimSpace_clean sanitized_id(4) by blast
  then show ?thesis using False by (simp add: sanitizeClientMsgID_def Let_def split: if_splits)
qed (simp add: sanitizeClientMsgID_def)

lemma historyLimit_range: "1 \<le> historyLimit p" "historyLimit p \<le> 500"
proof -
  have "1 \<le> historyLimit p \<and> historyLimit p \<le> 500"
    unfolding historyLimit_def
    by (auto simp: le_floor_iff floor_le_iff not_less split: option.split json.split)
  then show "1 \<le> historyLimit p" "historyLimit p \<le> 500" by simp_all
qed

lemma truncateHistory_newest:
  "1 \<le> limit \<Longrightarrow> truncateHistory rows limit = (drop (length rows - nat limit) rows, limit < int (length rows))"
  by (auto simp: truncateHistory_def)

lemma contains_char: "contains [c] s \<longleftrightarrow> c \<in> set s"
  by (induction s) auto

definition safe_reference :: "string \<Rightarrow> bool" where
  "safe_reference r \<longleftrightarrow>
     (\<exists>rest k. r = ''/api/attachments/'' @ rest @ (if k = [] then [] else ''?k='' @ k)
        \<and> rest \<noteq> [] \<and> CHR ''/'' \<notin> set rest \<and> \<not> contains ''..'' rest \<and> list_all hex_rune k)"

lemma safe_referenceI:
  "rest \<noteq> [] \<Longrightarrow> \<not> contains ''/'' rest \<Longrightarrow> \<not> contains ''..'' rest \<Longrightarrow> list_all hex_rune k \<Longrightarrow>
   safe_reference (''/api/attachments/'' @ rest @ (if k = [] then [] else ''?k='' @ k))"
  unfolding safe_reference_def contains_char by blast

lemma sanitized_reference:
  assumes "sanitizeAttachmentURL u raw \<noteq> []"
  shows "safe_reference (sanitizeAttachmentURL u raw)"
proof -
  let ?raw = "TrimSpace raw"
  define res where "res = (if prefix ''http://'' ?raw \<or> prefix ''https://'' ?raw
      then url_RequestURI u ?raw else Some ?raw)"
  have front: "\<not> (?raw = [] \<or> prefix ''//'' ?raw)"
    using assms by (auto simp: sanitizeAttachmentURL_def Let_def)
  obtain path where path: "res = Some path"
    using assms by (cases res) (auto simp: sanitizeAttachmentURL_def Let_def res_def [symmetric])
  have api: "prefix ''/api/attachments/'' path"
    using assms path by (auto simp: sanitizeAttachmentURL_def Let_def res_def [symmetric] split: if_splits)
  obtain escaped k where parsed: "url_path_and_k u path = Some (escaped, k)"
    using assms path api
    by (cases "url_path_and_k u path") (auto simp: sanitizeAttachmentURL_def Let_def res_def [symmetric] split: if_splits)
  let ?rest = "TrimPrefix ''/api/attachments/'' escaped"
  have eq: "sanitizeAttachmentURL u raw =
      (if ?rest = [] \<or> contains ''/'' ?rest \<or> contains ''..'' ?rest then []
       else if k \<noteq> [] then (if list_all hex_rune k then ''/api/attachments/'' @ ?rest @ ''?k='' @ k else [])
       else ''/api/attachments/'' @ ?rest)"
    unfolding sanitizeAttachmentURL_def Let_def if_not_P [OF front] res_def [symmetric] path
    using api parsed by simp
  have "?rest \<noteq> []" "\<not> contains ''/'' ?rest" "\<not> contains ''..'' ?rest" "list_all hex_rune k"
    using assms unfolding eq by (auto split: if_splits)
  then show ?thesis using safe_referenceI [of ?rest k] unfolding eq by (cases "k = []") simp_all
qed

text \<open>
  The attachment references of a prompt that are let through: at most five, each with a \<open>url\<close>
  that is a path below \<open>/api/attachments/\<close> of the nest itself, with one segment that does
  not climb and an optional key of hex digits, whatever the URL parser returns.  A daemon that
  fetches them never leaves the nest.
\<close>

theorem attachments_safe:
  "length (slice (normalizeAttachments u raw)) \<le> 5
   \<and> list_all (\<lambda>a. \<exists>m url. a = JObject m \<and> map_of m ''url'' = Some (JString url) \<and> safe_reference url)
       (slice (normalizeAttachments u raw))"
proof -
  have entry: "\<exists>m url. a = JObject m \<and> map_of m ''url'' = Some (JString url) \<and> safe_reference url"
    if "attachment_entry u item = Some a" for item a
  proof (cases item)
    case (JObject m)
    let ?url = "sanitizeAttachmentURL u (string_or_empty (map_of m ''url''))"
    from that JObject have "?url \<noteq> []"
      by (auto simp: attachment_entry_def Let_def split: if_splits)
    moreover from this that JObject obtain m' where "a = JObject ((''url'', JString ?url) # m')"
      by (auto simp: attachment_entry_def Let_def)
    ultimately show ?thesis using sanitized_reference by auto
  qed (use that in \<open>simp_all add: attachment_entry_def\<close>)
  have "length (List.map_filter f xs) \<le> length xs" for f :: "json \<Rightarrow> json option" and xs
    by (simp add: List.map_filter_def)
  then have "length (List.map_filter f (take 5 xs)) \<le> 5" for f :: "json \<Rightarrow> json option" and xs
    by (metis length_take min.bounded_iff)
  moreover have "list_all (\<lambda>a. \<exists>m url. a = JObject m \<and> map_of m ''url'' = Some (JString url) \<and> safe_reference url)
      (List.map_filter (attachment_entry u) xs)" for xs
    using entry by (force simp: List.map_filter_def list_all_iff)
  ultimately show ?thesis unfolding normalizeAttachments_def slice_def
    by (auto split: option.split json.split)
qed

text \<open>The route label of the request log is one of a fixed set; no identifier of a request enters it.\<close>

theorem route_labels_fixed:
  "requestRoute path \<in> {''/api/attachments/{id}'', ''/static/*'', ''/assets/*'', ''api_unmatched'', ''/'', ''spa_route''}
   \<or> knownOperatorRoute path \<and> requestRoute path = path"
  by (simp add: requestRoute_def)

end
