(* ===== verification/Relay_Prompts.thy ===== *)
theory Relay_Prompts
  imports Relay_Payload Session_Catalog Server_Store
begin

text \<open>
  The relay's message handlers (\<open>relaycore/websocket.go\<close>): \<open>handlePhoneMessage\<close>, \<open>handleSealedPrompt\<close>,
  \<open>handleDaemonMessage\<close>, the replay of commits to a daemon that connects, and what they call.

  The state is what the handlers change: the command table, the message history, the identity
  tables, the connection registries, and a trace of the effects in order: frames to a
  daemon with the result of the write, frames to the subscribed phones, messages saved and push
  notifications requested.  \<open>relay_env\<close> holds what one call of a handler meets: the nest's mode,
  the clock, a random id, the outcome of each write to a daemon, and for each database
  call the failures and the statements other goroutines run (\<open>db_run\<close>).  The JSON codec of Go's
  library for envelopes and for the structs read out of a payload is part of it.
\<close>

section \<open>State and environment\<close>

datatype send_result = SendOK | SendOffline | SendFailed

datatype push_text = SessionNeedsHandling | ApprovalNeeded | AttentionNeeded

datatype relay_event =
    ToDaemon string NekoMessage send_result
  | ToPhones string NekoMessage
  | MessageSaved string string SessionMessage
  | PushRequested string string push_text string "PushSubscription list"

record relay =
  rl_commands :: command_table
  rl_messages :: message_table
  rl_store :: server_db
  rl_conns :: relay_conns
  rl_trace :: "relay_event list"

record relay_env =
  re_mode :: TransportMode
  re_now :: seconds
  re_codec :: json_codec
  re_marshal :: "NekoMessage \<Rightarrow> string option"
  re_unmarshal :: "string \<Rightarrow> NekoMessage option"
  re_url :: url_lib
  re_random :: "string option"
  re_db :: "nat \<Rightarrow> db_run"
  re_store :: "nat \<Rightarrow> store_run"
  re_save_fails :: "nat \<Rightarrow> bool"
  re_query_fails :: bool
  re_visit :: visit
  re_send :: "nat \<Rightarrow> send_result"
  re_expired :: "string list"
  re_sessions :: "json \<Rightarrow> AgentSession option list"
  re_capabilities :: "json \<Rightarrow> AgentStartCapability list option option"
  re_message :: "json \<Rightarrow> SessionMessage option"
  re_message_json :: "SessionMessage \<Rightarrow> json"
  re_session_list :: "session_list \<Rightarrow> (string, json) gomap"

definition note_event :: "relay_event \<Rightarrow> relay \<Rightarrow> relay" where
  "note_event e rl = rl\<lparr>rl_trace := rl_trace rl @ [e]\<rparr>"

definition broadcast :: "relay_env \<Rightarrow> string \<Rightarrow> NekoMessage \<Rightarrow> relay \<Rightarrow> relay" where
  "broadcast env dev m rl =
     note_event (ToPhones dev m)
       (rl\<lparr>rl_conns := (rl_conns rl)\<lparr>rc_phones := BroadcastToPhones (re_marshal env) dev m (rc_phones (rl_conns rl))\<rparr>\<rparr>)"

definition send :: "relay_env \<Rightarrow> nat \<Rightarrow> string \<Rightarrow> NekoMessage \<Rightarrow> relay \<Rightarrow> relay \<times> send_result" where
  "send env n dev m rl = (note_event (ToDaemon dev m (re_send env n)) rl, re_send env n)"

definition save_message ::
  "relay_env \<Rightarrow> nat \<Rightarrow> string \<Rightarrow> string \<Rightarrow> SessionMessage \<Rightarrow> relay \<Rightarrow> relay \<times> bool" where
  "save_message env n dev ses msg rl =
     (case SaveMessage (re_codec env) (re_save_fails env n) dev ses msg (rl_messages rl) of
        (t, None) \<Rightarrow> (note_event (MessageSaved dev ses msg) (rl\<lparr>rl_messages := t\<rparr>), True)
      | (t, Some e) \<Rightarrow> (rl\<lparr>rl_messages := t\<rparr>, False))"

section \<open>Prompt frames\<close>

definition promptAttachments :: "relay_env \<Rightarrow> PromptCommand \<Rightarrow> json list option" where
  "promptAttachments env cmd =
     (if cmd_AttachmentsJSON cmd = [] then None
      else (case jc_unmarshal (re_codec env) (cmd_AttachmentsJSON cmd) of
              Some (JArray xs) \<Rightarrow>
                if list_all (\<lambda>j. case j of JObject m \<Rightarrow> True | JNull \<Rightarrow> True | _ \<Rightarrow> False) xs
                then Some xs else None
            | _ \<Rightarrow> None))"

definition promptCommandMessage :: "relay_env \<Rightarrow> PromptCommand \<Rightarrow> NekoMessage option" where
  "promptCommandMessage env cmd =
     (if cmd_SealedEnvelopeJSON cmd \<noteq> []
      then (case re_unmarshal env (cmd_SealedEnvelopeJSON cmd) of
              Some m \<Rightarrow> if nm_SealedPayload m \<noteq> None then Some m else None
            | None \<Rightarrow> None)
      else let atts = promptAttachments env cmd
           in Some ((NewMessageWithSession (re_now env) MsgSendPrompt (cmd_DeviceID cmd) (cmd_SessionID cmd))
                \<lparr>nm_Payload := Some ([(''prompt'', JString (cmd_Prompt cmd)),
                     (''client_msg_id'', JString (cmd_ClientMsgID cmd))]
                   @ (if slice atts = [] then [] else [(''attachments'', slice_json atts)]))\<rparr>))"

definition accepted_message :: "relay_env \<Rightarrow> PromptCommand \<Rightarrow> SessionMessage" where
  "accepted_message env cmd =
     (let atts = promptAttachments env cmd
      in \<lparr>sm_ID = cmd_ClientMsgID cmd, sm_Role = ''user'', sm_Content = cmd_Prompt cmd, sm_Type = ''text'',
          sm_Timestamp = cmd_CreatedAt cmd,
          sm_Metadata = (if slice atts = [] then None else Some [(''attachments'', slice_json atts)])\<rparr>)"

definition persistAcceptedPrompt :: "relay_env \<Rightarrow> nat \<Rightarrow> PromptCommand \<Rightarrow> relay \<Rightarrow> relay \<times> bool" where
  "persistAcceptedPrompt env n cmd rl =
     (if cmd_SealedEnvelopeJSON cmd \<noteq> [] then (rl, True)
      else save_message env n (cmd_DeviceID cmd) (cmd_SessionID cmd) (accepted_message env cmd) rl)"

definition broadcastPromptSent :: "relay_env \<Rightarrow> PromptCommand \<Rightarrow> relay \<Rightarrow> relay" where
  "broadcastPromptSent env cmd rl =
     (if cmd_SealedEnvelopeJSON cmd \<noteq> [] then rl
      else broadcast env (cmd_DeviceID cmd)
        ((stampEnvelope (re_mode env)
            (NewMessageWithSession (re_now env) MsgPromptSent (cmd_DeviceID cmd) (cmd_SessionID cmd)))
         \<lparr>nm_Payload := Some [(''client_msg_id'', JString (cmd_ClientMsgID cmd)),
            (''message_id'', JString (cmd_ClientMsgID cmd)), (''prompt'', JString (cmd_Prompt cmd)),
            (''attachments'', slice_json (promptAttachments env cmd))]\<rparr>) rl)"

definition promptCommittedMessage :: "seconds \<Rightarrow> PromptCommand \<Rightarrow> NekoMessage" where
  "promptCommittedMessage now cmd =
     (NewMessageWithSession now MsgPromptCommitted (cmd_DeviceID cmd) (cmd_SessionID cmd))
       \<lparr>nm_ClientMsgID := cmd_ClientMsgID cmd,
        nm_Payload := Some [(''client_msg_id'', JString (cmd_ClientMsgID cmd))]\<rparr>"

text \<open>
  \<open>sendPromptCommitted\<close> finds the daemon by its device id and \<open>sendPromptCommittedLocked\<close> writes to the
  connection it holds; they are the same apart from the connection.  \<open>n\<close> and \<open>k\<close> number the
  write and the database call.
\<close>

definition sendPromptCommitted :: "relay_env \<Rightarrow> nat \<Rightarrow> nat \<Rightarrow> PromptCommand \<Rightarrow> relay \<Rightarrow> relay" where
  "sendPromptCommitted env n k cmd rl =
     (let committed = stampEnvelope (re_mode env) (promptCommittedMessage (re_now env) cmd)
      in (case send env n (cmd_DeviceID cmd) committed rl of
            (rl, SendOK) \<Rightarrow>
              (case MarkPromptCommitted (re_db env k) (cmd_DeviceID cmd) (cmd_ClientMsgID cmd) (rl_commands rl) of
                 (t, Some e) \<Rightarrow> rl\<lparr>rl_commands := t\<rparr>
               | (t, None) \<Rightarrow> broadcast env (cmd_DeviceID cmd) committed (rl\<lparr>rl_commands := t\<rparr>))
          | (rl, _) \<Rightarrow> rl))"

definition broadcastPromptFailed :: "relay_env \<Rightarrow> PromptCommand \<Rightarrow> relay \<Rightarrow> relay" where
  "broadcastPromptFailed env cmd rl =
     (let message = (if TrimSpace (cmd_Error cmd) = [] then ''prompt failed'' else TrimSpace (cmd_Error cmd));
          retryAllowed = (cmd_RetryAllowed cmd \<and> cmd_Status cmd = PromptFailed);
          failed = (stampEnvelope (re_mode env)
              (NewMessageWithSession (re_now env) MsgPromptFailed (cmd_DeviceID cmd) (cmd_SessionID cmd)))
            \<lparr>nm_ClientMsgID := cmd_ClientMsgID cmd, nm_Outcome := cmd_Outcome cmd,
             nm_RetryAllowed := Some retryAllowed\<rparr>;
          failed = (if re_mode env = TransportOpen
            then failed\<lparr>nm_Payload := Some [(''client_msg_id'', JString (cmd_ClientMsgID cmd)),
                   (''message'', JString message), (''error'', JString message),
                   (''outcome'', JString (cmd_Outcome cmd)), (''retry_allowed'', JBool retryAllowed)]\<rparr>
            else failed)
      in broadcast env (cmd_DeviceID cmd) failed rl)"

definition broadcastPromptFailure ::
  "relay_env \<Rightarrow> string \<Rightarrow> string \<Rightarrow> string \<Rightarrow> string \<Rightarrow> relay \<Rightarrow> relay" where
  "broadcastPromptFailure env dev ses clientMsgID message rl =
     broadcastPromptFailed env
       \<lparr>cmd_DeviceID = dev, cmd_ClientMsgID = TrimSpace clientMsgID, cmd_SessionID = ses, cmd_Prompt = [],
        cmd_AttachmentsJSON = [], cmd_SealedEnvelopeJSON = [], cmd_Status = PromptFailed,
        cmd_Error = message, cmd_Outcome = ''validation_error'', cmd_RetryAllowed = False,
        cmd_CommitSent = False, cmd_CreatedAt = 0, cmd_UpdatedAt = 0\<rparr> rl"

section \<open>Forwarding a prompt\<close>

definition prompt_command :: "string \<Rightarrow> string \<Rightarrow> string \<Rightarrow> string \<Rightarrow> string \<Rightarrow> string \<Rightarrow> PromptCommand" where
  "prompt_command dev cid ses prompt atts envelope =
     \<lparr>cmd_DeviceID = dev, cmd_ClientMsgID = cid, cmd_SessionID = ses, cmd_Prompt = prompt,
      cmd_AttachmentsJSON = atts, cmd_SealedEnvelopeJSON = envelope, cmd_Status = PromptRegistered,
      cmd_Error = [], cmd_Outcome = [], cmd_RetryAllowed = False, cmd_CommitSent = False,
      cmd_CreatedAt = 0, cmd_UpdatedAt = 0\<rparr>"

text \<open>The outcome, whether a retry is allowed and the message recorded for a write that failed.\<close>

definition forward_failure :: "send_result \<Rightarrow> string \<times> bool \<times> string" where
  "forward_failure res =
     (if res = SendOffline then (''transport_error'', True, ''device offline'')
      else (''indeterminate'', False, ''prompt delivery outcome is indeterminate''))"

definition mark_forward_failed ::
  "relay_env \<Rightarrow> PromptCommand \<Rightarrow> string \<Rightarrow> string \<Rightarrow> send_result \<Rightarrow> relay \<Rightarrow> relay \<times> PromptCommand" where
  "mark_forward_failed env cmd dev cid res rl =
     (case forward_failure res of (outcome, retry, message) \<Rightarrow>
        (case MarkPromptFailed (re_db env 1) dev cid message outcome retry (rl_commands rl) of
           (t, Some failed, _, None) \<Rightarrow> (rl\<lparr>rl_commands := t\<rparr>, failed)
         | (t, _) \<Rightarrow>
             (rl\<lparr>rl_commands := t\<rparr>,
              cmd\<lparr>cmd_Status := (if outcome = ''indeterminate'' then PromptIndeterminate else PromptFailed),
                  cmd_Error := message, cmd_Outcome := outcome, cmd_RetryAllowed := retry\<rparr>)))"

definition mark_forwarded :: "relay_env \<Rightarrow> string \<Rightarrow> string \<Rightarrow> relay \<Rightarrow> relay" where
  "mark_forwarded env dev cid rl =
     rl\<lparr>rl_commands := fst (MarkPromptForwarded (re_db env 1) dev cid (rl_commands rl))\<rparr>"

definition status_query :: "relay_env \<Rightarrow> PromptCommand \<Rightarrow> NekoMessage" where
  "status_query env cmd = stampEnvelope (re_mode env)
     ((NewMessageWithSession (re_now env) MsgPromptStatusQuery (cmd_DeviceID cmd) (cmd_SessionID cmd))
      \<lparr>nm_ClientMsgID := cmd_ClientMsgID cmd,
       nm_Payload := Some [(''client_msg_id'', JString (cmd_ClientMsgID cmd))]\<rparr>)"

definition open_duplicate :: "relay_env \<Rightarrow> string \<Rightarrow> PromptCommand \<Rightarrow> relay \<Rightarrow> relay" where
  "open_duplicate env dev cmd rl =
     (if cmd_Status cmd = PromptAccepted
      then (case persistAcceptedPrompt env 0 cmd rl of
              (rl, False) \<Rightarrow> rl
            | (rl, True) \<Rightarrow> broadcastPromptSent env cmd (sendPromptCommitted env 0 2 cmd rl))
      else if cmd_Status cmd = PromptFailed \<or> cmd_Status cmd = PromptIndeterminate
      then broadcastPromptFailed env cmd rl
      else if cmd_Status cmd = PromptPending then fst (send env 0 dev (status_query env cmd) rl)
      else rl)"

definition forward_open :: "relay_env \<Rightarrow> string \<Rightarrow> string \<Rightarrow> NekoMessage \<Rightarrow> PromptCommand \<Rightarrow> relay \<Rightarrow> relay" where
  "forward_open env dev cid msg cmd rl =
     (case send env 0 dev msg rl of
        (rl, SendOK) \<Rightarrow> mark_forwarded env dev cid rl
      | (rl, res) \<Rightarrow>
          (case mark_forward_failed env cmd dev cid res rl of (rl, failed) \<Rightarrow>
             if cmd_Status failed = PromptAccepted
             then (case persistAcceptedPrompt env 0 failed rl of
                     (rl, False) \<Rightarrow> rl
                   | (rl, True) \<Rightarrow> broadcastPromptSent env failed rl)
             else broadcastPromptFailed env failed rl))"

definition register_prompt ::
  "relay_env \<Rightarrow> PromptCommand \<Rightarrow> bool \<Rightarrow> relay \<Rightarrow> relay \<times> command_result" where
  "register_prompt env cmd retryFailed rl =
     (case RegisterPromptCommand (re_db env 0) (Some cmd) retryFailed (rl_commands rl) of
        (t, res) \<Rightarrow> (rl\<lparr>rl_commands := t\<rparr>, res))"

definition register_open ::
  "relay_env \<Rightarrow> string \<Rightarrow> NekoMessage \<Rightarrow> string \<Rightarrow> string \<Rightarrow> json list option \<Rightarrow> relay \<Rightarrow> relay" where
  "register_open env dev msg cid prompt atts rl =
     (let msg = msg\<lparr>nm_Payload := set_field ''client_msg_id'' (JString cid) (nm_Payload msg)\<rparr>
      in (case jc_marshal (re_codec env) (slice_json atts) of
            None \<Rightarrow> broadcastPromptFailure env dev (nm_SessionID msg) cid ''invalid attachments'' rl
          | Some attsJSON \<Rightarrow>
              (case register_prompt env (prompt_command dev cid (nm_SessionID msg) prompt attsJSON [])
                      (as_bool (field (nm_Payload msg) ''retry'') = Some True) rl of
                 (rl, cmd, shouldForward, Some err) \<Rightarrow>
                   broadcastPromptFailure env dev (nm_SessionID msg) cid
                     (if err = ErrPromptCommandConflict then ''client_msg_id already used for another prompt''
                      else ''failed to register prompt'') rl
               | (rl, None, shouldForward, None) \<Rightarrow> rl
               | (rl, Some cmd, shouldForward, None) \<Rightarrow>
                   if shouldForward then forward_open env dev cid msg cmd rl
                   else open_duplicate env dev cmd rl)))"

definition handle_open_prompt :: "relay_env \<Rightarrow> string \<Rightarrow> NekoMessage \<Rightarrow> relay \<Rightarrow> relay" where
  "handle_open_prompt env dev msg rl =
     (let raw = string_or_empty (field (nm_Payload msg) ''prompt'');
          atts = normalizeAttachments (re_url env) (field (nm_Payload msg) ''attachments'');
          rawID = stringPayload (nm_Payload msg) ''client_msg_id'';
          cid = sanitizeClientMsgID rawID
      in if raw = [] \<and> slice atts = []
         then broadcastPromptFailure env dev (nm_SessionID msg) rawID ''empty prompt'' rl
         else if nm_SessionID msg = []
         then broadcastPromptFailure env dev [] rawID ''session_id required'' rl
         else let prompt = (if raw = [] then ''(sent '' @ Itoa (int (length (slice atts))) @ '' attachment(s))'' else raw);
                  p = (if raw = [] then set_field ''prompt'' (JString prompt) (nm_Payload msg) else nm_Payload msg);
                  p = (if slice atts = [] then p else set_field ''attachments'' (slice_json atts) p);
                  msg = msg\<lparr>nm_Payload := p\<rparr>
              in if rawID \<noteq> [] \<and> cid = []
                 then broadcastPromptFailure env dev (nm_SessionID msg) rawID ''invalid client_msg_id'' rl
                 else if cid = []
                 then (case re_random env of
                         None \<Rightarrow> broadcastPromptFailure env dev (nm_SessionID msg) [] ''failed to allocate prompt id'' rl
                       | Some randomID \<Rightarrow> register_open env dev msg (''msg_'' @ randomID) prompt atts rl)
                 else register_open env dev msg cid prompt atts rl)"

section \<open>Sealed prompts\<close>

definition sealed_duplicate :: "relay_env \<Rightarrow> string \<Rightarrow> PromptCommand \<Rightarrow> relay \<Rightarrow> relay" where
  "sealed_duplicate env dev cmd rl =
     (case cmd_Status cmd of
        PromptAccepted \<Rightarrow> sendPromptCommitted env 0 2 cmd rl
      | PromptFailed \<Rightarrow> broadcastPromptFailed env cmd rl
      | PromptIndeterminate \<Rightarrow> broadcastPromptFailed env cmd rl
      | PromptPending \<Rightarrow> fst (send env 0 dev (status_query env cmd) rl)
      | PromptRegistered \<Rightarrow> rl)"

definition forward_sealed :: "relay_env \<Rightarrow> string \<Rightarrow> string \<Rightarrow> NekoMessage \<Rightarrow> PromptCommand \<Rightarrow> relay \<Rightarrow> relay" where
  "forward_sealed env dev cid msg cmd rl =
     (case send env 0 dev msg rl of
        (rl, SendOK) \<Rightarrow> mark_forwarded env dev cid rl
      | (rl, res) \<Rightarrow>
          (case mark_forward_failed env cmd dev cid res rl of (rl, failed) \<Rightarrow>
             if cmd_Status failed = PromptAccepted then sendPromptCommitted env 1 2 failed rl
             else broadcastPromptFailed env failed rl))"

definition register_sealed ::
  "relay_env \<Rightarrow> string \<Rightarrow> string \<Rightarrow> NekoMessage \<Rightarrow> string \<Rightarrow> relay \<Rightarrow> relay" where
  "register_sealed env dev cid msg wire rl =
     (case register_prompt env (prompt_command dev cid (nm_SessionID msg) [] ''[]'' wire) False rl of
        (rl, cmd, shouldForward, Some err) \<Rightarrow>
          broadcastPromptFailure env dev (nm_SessionID msg) cid
            (if err = ErrPromptCommandConflict then ''client_msg_id already used for another prompt''
             else ''failed to register sealed prompt'') rl
      | (rl, None, shouldForward, None) \<Rightarrow> rl
      | (rl, Some cmd, shouldForward, None) \<Rightarrow>
          if shouldForward then forward_sealed env dev cid msg cmd rl
          else sealed_duplicate env dev cmd rl)"

definition handleSealedPrompt :: "relay_env \<Rightarrow> string \<Rightarrow> NekoMessage \<Rightarrow> relay \<Rightarrow> relay" where
  "handleSealedPrompt env dev msg rl =
     (if nm_SealedPayload msg = None \<or> nm_Payload msg \<noteq> None
      then broadcastPromptFailure env dev [] [] ''invalid sealed prompt envelope'' rl
      else if TrimSpace (nm_SessionID msg) = []
      then broadcastPromptFailure env dev [] (nm_ClientMsgID msg) ''session_id required'' rl
      else let rawID = TrimSpace (nm_ClientMsgID msg);
               cid = sanitizeClientMsgID rawID
           in if cid = []
              then broadcastPromptFailure env dev (nm_SessionID msg) rawID
                     ''valid top-level client_msg_id required for sealed prompt'' rl
              else let msg = msg\<lparr>nm_DeviceID := dev, nm_ClientMsgID := cid\<rparr>
                   in (case re_marshal env msg of
                         None \<Rightarrow> broadcastPromptFailure env dev (nm_SessionID msg) cid
                                   ''invalid sealed prompt envelope'' rl
                       | Some wire \<Rightarrow> register_sealed env dev cid msg wire rl))"

section \<open>Messages of a phone\<close>

definition offline_error :: "relay_env \<Rightarrow> string \<Rightarrow> string \<Rightarrow> relay \<Rightarrow> relay" where
  "offline_error env dev ses rl =
     broadcast env dev
       ((stampEnvelope (re_mode env) (NewMessageWithSession (re_now env) MsgError dev ses))
        \<lparr>nm_Payload := Some [(''message'', JString ''device offline'')]\<rparr>) rl"

definition relay_or_error :: "relay_env \<Rightarrow> string \<Rightarrow> NekoMessage \<Rightarrow> relay \<Rightarrow> relay" where
  "relay_or_error env dev msg rl =
     (case send env 0 dev msg rl of
        (rl, SendOK) \<Rightarrow> rl
      | (rl, _) \<Rightarrow> offline_error env dev (nm_SessionID msg) rl)"

definition history_answer :: "relay_env \<Rightarrow> string \<Rightarrow> string \<Rightarrow> int \<Rightarrow> SessionMessage list \<Rightarrow> NekoMessage" where
  "history_answer env dev ses limit rows =
     (case truncateHistory rows limit of (rows, truncated) \<Rightarrow>
        (stampEnvelope (re_mode env) (NewMessageWithSession (re_now env) MsgSessionHistory dev ses))
        \<lparr>nm_Payload := Some [(''source'', JString ''server_db''), (''truncated'', JBool truncated),
            (''limit'', JNumber (of_int limit)), (''messages'', JArray (map (re_message_json env) rows))]\<rparr>)"

definition handle_fetch_history :: "relay_env \<Rightarrow> string \<Rightarrow> NekoMessage \<Rightarrow> relay \<Rightarrow> relay" where
  "handle_fetch_history env dev msg rl =
     (let limit = historyLimit (nm_Payload msg);
          msg = msg\<lparr>nm_DeviceID := dev,
                    nm_Payload := set_field ''limit'' (JNumber (of_int limit)) (nm_Payload msg)\<rparr>
      in (case send env 0 dev msg rl of
            (rl, SendOK) \<Rightarrow> rl
          | (rl, _) \<Rightarrow>
              if re_mode env = TransportSealed then offline_error env dev (nm_SessionID msg) rl
              else (case GetMessages (re_codec env) (re_query_fails env) (re_visit env) dev
                           (nm_SessionID msg) (limit + 1) (rl_messages rl) of
                      Inl e \<Rightarrow> offline_error env dev (nm_SessionID msg) rl
                    | Inr rows \<Rightarrow> broadcast env dev (history_answer env dev (nm_SessionID msg) limit rows) rl)))"

definition threadStartRelayFailure :: "send_result \<Rightarrow> MessageType \<times> string" where
  "threadStartRelayFailure res =
     (if res = SendOffline then (MsgThreadFailed, ''device offline'')
      else (MsgThreadIndeterminate,
            ''thread start delivery outcome is indeterminate; automatic retry is disabled''))"

definition start_operation :: "relay_env \<Rightarrow> NekoMessage \<Rightarrow> string" where
  "start_operation env msg =
     (let opID = (if nm_SealedPayload msg \<noteq> None then [] else stringPayload (nm_Payload msg) ''operation_id'');
          opID = (if opID = [] then sanitizeClientMsgID (nm_ClientMsgID msg) else opID)
      in if opID = [] then (case re_random env of Some i \<Rightarrow> ''local_start_'' @ i | None \<Rightarrow> []) else opID)"

definition start_request :: "string \<Rightarrow> string \<Rightarrow> NekoMessage \<Rightarrow> NekoMessage" where
  "start_request dev opID msg =
     msg\<lparr>nm_DeviceID := dev, nm_ClientMsgID := opID,
         nm_Payload := (if nm_SealedPayload msg \<noteq> None then nm_Payload msg
                        else set_field ''operation_id'' (JString opID) (nm_Payload msg))\<rparr>"

definition start_failure :: "relay_env \<Rightarrow> string \<Rightarrow> string \<Rightarrow> NekoMessage \<Rightarrow> send_result \<Rightarrow> NekoMessage" where
  "start_failure env dev opID msg res =
     (case threadStartRelayFailure res of (resultType, resultText) \<Rightarrow>
        let agentType = stringPayload (nm_Payload msg) ''agent_type'';
            fail = (stampEnvelope (re_mode env) (NewMessage (re_now env) resultType dev))\<lparr>nm_ClientMsgID := opID\<rparr>
        in if nm_SealedPayload msg \<noteq> None then fail
           else fail\<lparr>nm_Payload := Some ([(''operation_id'', JString opID),
                  (''state'', JString (message_type_text resultType)),
                  (''error'', JString resultText), (''message'', JString resultText),
                  (''reason'', JString resultText)]
                  @ (if agentType = [] then [] else [(''agent_type'', JString agentType)]))\<rparr>)"

definition handle_start_thread :: "relay_env \<Rightarrow> string \<Rightarrow> NekoMessage \<Rightarrow> relay \<Rightarrow> relay" where
  "handle_start_thread env dev msg rl =
     (let opID = start_operation env msg;
          msg = start_request dev opID msg
      in (case send env 0 dev msg rl of
            (rl, SendOK) \<Rightarrow> rl
          | (rl, res) \<Rightarrow> broadcast env dev (start_failure env dev opID msg res) rl))"

definition handlePhoneMessage :: "relay_env \<Rightarrow> string \<Rightarrow> NekoMessage \<Rightarrow> relay \<Rightarrow> relay" where
  "handlePhoneMessage env dev msg rl =
     (let t = nm_Type msg; own = msg\<lparr>nm_DeviceID := dev\<rparr>
      in if t \<in> {MsgSubscribe, MsgHeartbeat} then rl
         else if t = MsgFetchHistory then handle_fetch_history env dev msg rl
         else if t = MsgSendPrompt
         then (if nm_SealedPayload msg \<noteq> None then handleSealedPrompt env dev own rl
               else handle_open_prompt env dev own rl)
         else if t \<in> {MsgApprove, MsgDeny, MsgRespondUserInput, MsgCancelPrompt, MsgResumePromptQueue,
                      MsgSkipPromptQueueItem, MsgInterrupt, MsgSteer}
         then relay_or_error env dev own rl
         else if t = MsgStartThread then handle_start_thread env dev msg rl
         else rl)"

section \<open>Messages of a daemon\<close>

definition acceptAttentionEvent :: "relay_env \<Rightarrow> string \<Rightarrow> NekoMessage \<Rightarrow> relay \<Rightarrow> relay \<times> bool" where
  "acceptAttentionEvent env dev msg rl =
     (case nm_Payload msg of
        None \<Rightarrow> (rl, False)
      | Some p \<Rightarrow>
          let eventID = TrimSpace (stringPayload (Some p) ''event_id'')
          in if eventID = [] \<or> 256 < length eventID then (rl, False)
             else (case AcceptAttentionEvent (re_store env 0) dev eventID (re_now env) (rl_store rl) of
                     (db, Inl e) \<Rightarrow> (rl\<lparr>rl_store := db\<rparr>, False)
                   | (db, Inr accepted) \<Rightarrow> (rl\<lparr>rl_store := db\<rparr>, accepted)))"

text \<open>
  The push service answers later; \<open>re_expired\<close> lists the endpoints it reports as gone, which the
  callback deletes.
\<close>

definition sendPushNotification :: "relay_env \<Rightarrow> string \<Rightarrow> string \<Rightarrow> push_text \<Rightarrow> relay \<Rightarrow> relay" where
  "sendPushNotification env dev ses text rl =
     (case GetPushSubscriptions (re_store env 1) dev (rl_store rl) of
        (db, Inl e) \<Rightarrow> rl\<lparr>rl_store := db\<rparr>
      | (db, Inr subs) \<Rightarrow>
          if subs = [] then rl\<lparr>rl_store := db\<rparr>
          else let url = (if ses = [] then ''/'' else ''/device/'' @ dev @ ''/session/'' @ ses);
                   gone = filter (\<lambda>e. e \<in> set (map ps_Endpoint subs)) (re_expired env)
               in note_event (PushRequested dev ses text url subs)
                    (rl\<lparr>rl_store := fold (\<lambda>e db. fst (DeletePushSubscription (re_store env 2) e db)) gone db\<rparr>))"

definition handle_session_list :: "relay_env \<Rightarrow> ref \<Rightarrow> string \<Rightarrow> NekoMessage \<Rightarrow> relay \<Rightarrow> relay" where
  "handle_session_list env r dev msg rl =
     (if nm_SealedPayload msg \<noteq> None
      then rl\<lparr>rl_conns := updateSealedCatalogFromLocked (re_marshal env) (Some r) (Some msg) (rl_conns rl)\<rparr>
      else (case field (nm_Payload msg) ''sessions'' of
              None \<Rightarrow> rl
            | Some data \<Rightarrow>
                let sessions = map (map_option (\<lambda>s. s\<lparr>as_DeviceID := dev\<rparr>)) (re_sessions env data);
                    capData = (case field (nm_Payload msg) ''start_capabilities'' of
                                 Some c \<Rightarrow> Some c
                               | None \<Rightarrow> field (nm_Payload msg) ''agent_start_capabilities'');
                    caps = (case capData of
                              None \<Rightarrow> None
                            | Some c \<Rightarrow> (case re_capabilities env c of
                                          Some (Some cs) \<Rightarrow> Some cs | _ \<Rightarrow> Some []));
                    rl = rl\<lparr>rl_conns := updateSessionListFromLocked (re_session_list env) (re_marshal env)
                              (re_now env) (Some r) sessions caps (nm_ProtocolVersion msg) (rl_conns rl)\<rparr>;
                    n = length (filter (\<lambda>s. s \<noteq> None) sessions)
                in rl\<lparr>rl_store := fst (UpdateDeviceSessions (re_store env 0) dev (int n) (rl_store rl))\<rparr>))"

definition approval_push :: "relay_env \<Rightarrow> string \<Rightarrow> NekoMessage \<Rightarrow> push_text \<Rightarrow> relay \<Rightarrow> relay" where
  "approval_push env dev msg text rl =
     (if nm_SealedPayload msg = None \<and> needsApprovalPush (nm_Payload msg)
      then sendPushNotification env dev (nm_SessionID msg) text rl else rl)"

definition handle_session_message :: "relay_env \<Rightarrow> string \<Rightarrow> NekoMessage \<Rightarrow> relay \<Rightarrow> relay" where
  "handle_session_message env dev msg rl =
     (let rl = (if nm_SealedPayload msg \<noteq> None
          then rl\<lparr>rl_messages := fst (SaveSealedMessage (re_codec env) (re_save_fails env 0) dev
                    (nm_SessionID msg) (Some msg) (rl_messages rl))\<rparr>
          else (case field (nm_Payload msg) ''message'' of
                  None \<Rightarrow> rl
                | Some data \<Rightarrow>
                    (case re_message env data of
                       None \<Rightarrow> rl
                     | Some sm \<Rightarrow> fst (save_message env 0 dev (nm_SessionID msg) sm rl))))
      in approval_push env dev msg ApprovalNeeded (broadcast env dev msg rl))"

fun import_history :: "relay_env \<Rightarrow> nat \<Rightarrow> string \<Rightarrow> string \<Rightarrow> json list \<Rightarrow> relay \<Rightarrow> relay" where
  "import_history env n dev ses [] rl = rl"
| "import_history env n dev ses (item # items) rl =
     (case re_message env item of
        None \<Rightarrow> import_history env n dev ses items rl
      | Some sm \<Rightarrow>
          if sm_ID sm = [] then import_history env n dev ses items rl
          else let sm = (if sm_Type sm = [] then sm\<lparr>sm_Type := ''text''\<rparr> else sm)
               in import_history env (n + 1) dev ses items (fst (save_message env n dev ses sm rl)))"

definition handle_session_history :: "relay_env \<Rightarrow> string \<Rightarrow> NekoMessage \<Rightarrow> relay \<Rightarrow> relay" where
  "handle_session_history env dev msg rl =
     (if nm_SealedPayload msg \<noteq> None then broadcast env dev msg rl
      else broadcast env dev msg
        (case field (nm_Payload msg) ''messages'' of
           Some (JArray items) \<Rightarrow> import_history env 0 dev (nm_SessionID msg) items rl
         | _ \<Rightarrow> rl))"

definition handle_prompt_not_seen :: "relay_env \<Rightarrow> string \<Rightarrow> NekoMessage \<Rightarrow> relay \<Rightarrow> relay" where
  "handle_prompt_not_seen env dev msg rl =
     (let cid = promptClientMsgID (Some msg)
      in if cid = [] then rl
         else (case GetPromptCommand (re_db env 0) 0 dev cid (rl_commands rl) of
                 (t, Inl e) \<Rightarrow> rl\<lparr>rl_commands := t\<rparr>
               | (t, Inr cmd) \<Rightarrow>
                   let rl = rl\<lparr>rl_commands := t\<rparr>
                   in if cmd_Status cmd \<noteq> PromptPending then rl
                      else (case promptCommandMessage env cmd of
                              None \<Rightarrow> rl
                            | Some retry \<Rightarrow> fst (send env 0 dev (stampEnvelope (re_mode env) retry) rl))))"

definition handle_prompt_accepted :: "relay_env \<Rightarrow> string \<Rightarrow> NekoMessage \<Rightarrow> relay \<Rightarrow> relay" where
  "handle_prompt_accepted env dev msg rl =
     (let cid = promptClientMsgID (Some msg)
      in if cid = [] then rl
         else if as_bool (field (nm_Payload msg) ''queued'') = Some True then broadcast env dev msg rl
         else (case MarkPromptAccepted (re_db env 0) dev cid (rl_commands rl) of
                 (t, Some cmd, _, None) \<Rightarrow>
                   let rl = rl\<lparr>rl_commands := t\<rparr>
                   in if cmd_Status cmd \<noteq> PromptAccepted then rl
                      else (case persistAcceptedPrompt env 0 cmd rl of
                              (rl, False) \<Rightarrow> rl
                            | (rl, True) \<Rightarrow> broadcastPromptSent env cmd (sendPromptCommitted env 0 2 cmd rl))
               | (t, _) \<Rightarrow> rl\<lparr>rl_commands := t\<rparr>))"

text \<open>What a daemon's failure report says: the message, the outcome and whether a retry is allowed.\<close>

definition trimmed_field :: "payload \<Rightarrow> string \<Rightarrow> string option" where
  "trimmed_field p k =
     (case as_string (field p k) of
        Some s \<Rightarrow> if TrimSpace s = [] then None else Some (TrimSpace s)
      | None \<Rightarrow> None)"

definition failure_report :: "NekoMessage \<Rightarrow> string \<times> string \<times> bool" where
  "failure_report msg =
     (let p = nm_Payload msg;
          outcome = (if TrimSpace (nm_Outcome msg) \<noteq> [] then TrimSpace (nm_Outcome msg) else ''failed'');
          retry = (if TrimSpace (nm_Outcome msg) \<noteq> []
                   then (case nm_RetryAllowed msg of Some b \<Rightarrow> b | None \<Rightarrow> True) else True);
          failure = (case trimmed_field p ''error'' of
                       Some s \<Rightarrow> s
                     | None \<Rightarrow> (case trimmed_field p ''message'' of Some s \<Rightarrow> s | None \<Rightarrow> ''daemon rejected prompt''));
          outcome = (case trimmed_field p ''outcome'' of Some s \<Rightarrow> s | None \<Rightarrow> outcome);
          retry = (case as_bool (field p ''retry_allowed'') of Some b \<Rightarrow> b | None \<Rightarrow> retry)
      in (failure, outcome, if outcome = ''indeterminate'' then False else retry))"

definition handle_prompt_failed :: "relay_env \<Rightarrow> string \<Rightarrow> NekoMessage \<Rightarrow> relay \<Rightarrow> relay" where
  "handle_prompt_failed env dev msg rl =
     (let cid = promptClientMsgID (Some msg)
      in if cid = [] then rl
         else (case failure_report msg of (failure, outcome, retry) \<Rightarrow>
                 (case MarkPromptFailed (re_db env 0) dev cid failure outcome retry (rl_commands rl) of
                    (t, Some cmd, _, None) \<Rightarrow>
                      let rl = rl\<lparr>rl_commands := t\<rparr>
                      in if cmd_Status cmd = PromptFailed \<or> cmd_Status cmd = PromptIndeterminate
                         then (if nm_SealedPayload msg \<noteq> None then broadcast env dev msg rl
                               else broadcastPromptFailed env cmd rl)
                         else rl
                  | (t, _) \<Rightarrow> rl\<lparr>rl_commands := t\<rparr>)))"

definition handleDaemonMessage :: "relay_env \<Rightarrow> ref \<Rightarrow> NekoMessage \<Rightarrow> relay \<Rightarrow> relay" where
  "handleDaemonMessage env r msg rl =
     (if \<not> isLiveDaemonLocked (rc_daemons (rl_conns rl)) r then rl
      else let dev = device_of (rc_daemons (rl_conns rl)) r;
               msg = msg\<lparr>nm_DeviceID := dev\<rparr>;
               t = nm_Type msg
           in if t = MsgSessionList then handle_session_list env r dev msg rl
              else if t = MsgSessionUpdate
              then approval_push env dev msg SessionNeedsHandling (broadcast env dev msg rl)
              else if t = MsgAttentionEvent
              then (case acceptAttentionEvent env dev msg rl of
                      (rl, False) \<Rightarrow> rl
                    | (rl, True) \<Rightarrow>
                        sendPushNotification env dev (nm_SessionID msg) AttentionNeeded (broadcast env dev msg rl))
              else if t = MsgSessionMessage then handle_session_message env dev msg rl
              else if t \<in> {MsgPromptQueued, MsgUserInputResult, MsgQueueUpdate, MsgPromptCancelled}
              then broadcast env dev msg rl
              else if t = MsgSessionHistory then handle_session_history env dev msg rl
              else if t = MsgPromptNotSeen then handle_prompt_not_seen env dev msg rl
              else if t = MsgPromptAccepted then handle_prompt_accepted env dev msg rl
              else if t = MsgPromptFailed then handle_prompt_failed env dev msg rl
              else if t \<in> {MsgError, MsgThreadStarting, MsgThreadOwned, MsgThreadFailed,
                           MsgThreadIndeterminate, MsgKeyPackage, MsgPairReady}
              then broadcast env dev msg rl
              else rl)"

section \<open>Replaying commits to a daemon that connects\<close>

text \<open>
  One batch: \<open>k\<close> numbers the database and daemon calls; \<open>False\<close> when the function returns early.
  The loop has fuel; \<open>None\<close> means it has not returned within it.
\<close>

fun replay_batch :: "relay_env \<Rightarrow> nat \<Rightarrow> string \<Rightarrow> PromptCommand list \<Rightarrow> relay \<Rightarrow> relay \<times> bool" where
  "replay_batch env k dev [] rl = (rl, True)"
| "replay_batch env k dev (cmd # cmds) rl =
     (case persistAcceptedPrompt env k cmd rl of
        (rl, False) \<Rightarrow> (rl, False)
      | (rl, True) \<Rightarrow>
          (case send env k dev (stampEnvelope (re_mode env) (promptCommittedMessage (re_now env) cmd)) rl of
             (rl, SendOK) \<Rightarrow>
               (case MarkPromptCommitted (re_db env k) (cmd_DeviceID cmd) (cmd_ClientMsgID cmd) (rl_commands rl) of
                  (t, Some e) \<Rightarrow> (rl\<lparr>rl_commands := t\<rparr>, False)
                | (t, None) \<Rightarrow> replay_batch env (k + 1) dev cmds (rl\<lparr>rl_commands := t\<rparr>))
           | (rl, _) \<Rightarrow> (rl, False)))"

fun replayPromptCommits :: "nat \<Rightarrow> relay_env \<Rightarrow> nat \<Rightarrow> string \<Rightarrow> relay \<Rightarrow> relay option" where
  "replayPromptCommits 0 env k dev rl = None"
| "replayPromptCommits (Suc fuel) env k dev rl =
     (case ListUncommittedAcceptedPrompts (re_db env k) dev 100 (rl_commands rl) of
        Inl e \<Rightarrow> Some rl
      | Inr cmds \<Rightarrow>
          if cmds = [] then Some rl
          else (case replay_batch env (k + 1) dev cmds rl of
                  (rl, False) \<Rightarrow> Some rl
                | (rl, True) \<Rightarrow> replayPromptCommits fuel env (k + 1 + length cmds) dev rl))"

end
