(* ===== verification/Relay_Safety.thy ===== *)
theory Relay_Safety
  imports Relay_Prompts
begin

text \<open>
  What the relay's handlers guarantee about prompts: a prompt reaches a daemon only after it
  was registered durably with the same content, and a commit or an acknowledgement is sent only
  for a command that is durably accepted and whose message is in the history.  Both are
  invariants of the command table together with the trace of effects, over any sequence of
  handler calls with any database failures, interleaved statements, lost writes and replays.
\<close>

section \<open>What an event requires\<close>

definition client_id :: "NekoMessage \<Rightarrow> string" where
  "client_id m = string_or_empty (field (nm_Payload m) ''client_msg_id'')"

text \<open>The command is accepted, and unless it is sealed its message was saved before.\<close>

definition settled :: "command_table \<Rightarrow> relay_event list \<Rightarrow> string \<Rightarrow> string \<Rightarrow> bool" where
  "settled t es d cid \<longleftrightarrow>
     (\<exists>row. map_of t (d, cid) = Some row \<and> cmd_Status row = PromptAccepted
        \<and> (cmd_SealedEnvelopeJSON row = [] \<longrightarrow>
             (\<exists>m. MessageSaved d (cmd_SessionID row) m \<in> set es
                \<and> sm_ID m = cid \<and> sm_Content m = cmd_Prompt row)))"

text \<open>
  A prompt frame has a row with its session and content: in the open form the same prompt and id,
  in the sealed form the envelope the frame was written to or read from.
\<close>

definition registered ::
  "(NekoMessage \<Rightarrow> string option) \<Rightarrow> (string \<Rightarrow> NekoMessage option) \<Rightarrow> command_table \<Rightarrow> string \<Rightarrow> NekoMessage \<Rightarrow> bool" where
  "registered marshal unmarshal t d m \<longleftrightarrow>
     (\<exists>cid row. map_of t (d, cid) = Some row
        \<and> (nm_SealedPayload m = None \<and> client_id m = cid \<and> nm_SessionID m = cmd_SessionID row
             \<and> field (nm_Payload m) ''prompt'' = Some (JString (cmd_Prompt row))
           \<or> (\<exists>m0 mode. m \<in> {m0, stampEnvelope mode m0}
                \<and> (marshal m0 = Some (cmd_SealedEnvelopeJSON row)
                   \<or> unmarshal (cmd_SealedEnvelopeJSON row) = Some m0))))"

fun event_ok ::
  "(NekoMessage \<Rightarrow> string option) \<Rightarrow> (string \<Rightarrow> NekoMessage option) \<Rightarrow> command_table \<Rightarrow> relay_event list
   \<Rightarrow> relay_event \<Rightarrow> bool" where
  "event_ok mar unm t es (ToDaemon d m r) \<longleftrightarrow>
     (nm_Type m = MsgSendPrompt \<longrightarrow> registered mar unm t d m)
     \<and> (nm_Type m = MsgPromptCommitted \<and> nm_SealedPayload m = None \<longrightarrow> settled t es d (nm_ClientMsgID m))"
| "event_ok mar unm t es (ToPhones d m) \<longleftrightarrow>
     (nm_Type m \<in> {MsgPromptSent, MsgPromptCommitted} \<longrightarrow> settled t es d (client_id m))"
| "event_ok mar unm t es _ \<longleftrightarrow> True"

definition trace_ok where
  "trace_ok mar unm t es \<longleftrightarrow> (\<forall>i < length es. event_ok mar unm t (take i es) (es ! i))"

definition relay_ok where
  "relay_ok mar unm rl \<longleftrightarrow> table_ok (rl_commands rl) \<and> trace_ok mar unm (rl_commands rl) (rl_trace rl)"

lemma trace_ok_snoc [simp]:
  "trace_ok mar unm t (es @ [e]) \<longleftrightarrow> trace_ok mar unm t es \<and> event_ok mar unm t es e"
  by (auto simp: trace_ok_def nth_append less_Suc_eq)

lemma trace_ok_Nil [simp]: "trace_ok mar unm t []"
  by (simp add: trace_ok_def)

lemma settled_later:
  assumes "settled t es d cid" and "reaches t t'"
  shows "settled t' es d cid"
proof -
  obtain row where row: "map_of t (d, cid) = Some row" "cmd_Status row = PromptAccepted"
    "cmd_SealedEnvelopeJSON row = [] \<longrightarrow> (\<exists>m. MessageSaved d (cmd_SessionID row) m \<in> set es
       \<and> sm_ID m = cid \<and> sm_Content m = cmd_Prompt row)"
    using assms(1) by (auto simp: settled_def)
  obtain row' where "map_of t' (d, cid) = Some row'" "later row row'"
    using reaches_later [OF assms(2) row(1)] by blast
  then show ?thesis using row(2,3) by (auto simp: settled_def later_def same_payload_def)
qed

lemma settled_mono: "settled t es d cid \<Longrightarrow> set es \<subseteq> set es' \<Longrightarrow> settled t es' d cid"
  unfolding settled_def by blast

lemma registered_later:
  assumes "registered mar unm t d m" and "reaches t t'"
  shows "registered mar unm t' d m"
proof -
  obtain cid row where row: "map_of t (d, cid) = Some row"
    and c: "nm_SealedPayload m = None \<and> client_id m = cid \<and> nm_SessionID m = cmd_SessionID row
             \<and> field (nm_Payload m) ''prompt'' = Some (JString (cmd_Prompt row))
           \<or> (\<exists>m0 mode. m \<in> {m0, stampEnvelope mode m0}
                \<and> (mar m0 = Some (cmd_SealedEnvelopeJSON row) \<or> unm (cmd_SealedEnvelopeJSON row) = Some m0))"
    using assms(1) unfolding registered_def by blast
  obtain row' where row': "map_of t' (d, cid) = Some row'" "later row row'"
    using reaches_later [OF assms(2) row] by blast
  then have "cmd_SessionID row' = cmd_SessionID row" "cmd_Prompt row' = cmd_Prompt row"
    "cmd_SealedEnvelopeJSON row' = cmd_SealedEnvelopeJSON row"
    by (simp_all add: later_def same_payload_def)
  then show ?thesis unfolding registered_def
    by (intro exI [of _ cid] exI [of _ row'] conjI row'(1)) (use c in simp)
qed

lemma event_later: "event_ok mar unm t es e \<Longrightarrow> reaches t t' \<Longrightarrow> event_ok mar unm t' es e"
  by (cases e) (auto intro: settled_later registered_later)

section \<open>Steps that keep it\<close>

lemma relay_ok_fields [simp]:
  "relay_ok mar unm (rl\<lparr>rl_messages := a\<rparr>) = relay_ok mar unm rl"
  "relay_ok mar unm (rl\<lparr>rl_store := b\<rparr>) = relay_ok mar unm rl"
  "relay_ok mar unm (rl\<lparr>rl_conns := c\<rparr>) = relay_ok mar unm rl"
  by (simp_all add: relay_ok_def)

lemma note_event_fields [simp]:
  "rl_commands (note_event e rl) = rl_commands rl" "rl_trace (note_event e rl) = rl_trace rl @ [e]"
  "rl_messages (note_event e rl) = rl_messages rl" "rl_store (note_event e rl) = rl_store rl"
  "rl_conns (note_event e rl) = rl_conns rl"
  by (simp_all add: note_event_def)

lemma relay_ok_event:
  "relay_ok mar unm (note_event e rl) \<longleftrightarrow>
     relay_ok mar unm rl \<and> event_ok mar unm (rl_commands rl) (rl_trace rl) e"
  by (auto simp: relay_ok_def)

lemma relay_ok_commands:
  "relay_ok mar unm rl \<Longrightarrow> reaches (rl_commands rl) t \<Longrightarrow> relay_ok mar unm (rl\<lparr>rl_commands := t\<rparr>)"
  by (auto simp: relay_ok_def trace_ok_def intro: event_later reaches_table_ok)

lemma broadcast_fields [simp]:
  "rl_commands (broadcast env d m rl) = rl_commands rl"
  "rl_trace (broadcast env d m rl) = rl_trace rl @ [ToPhones d m]"
  "rl_messages (broadcast env d m rl) = rl_messages rl"
  "rl_store (broadcast env d m rl) = rl_store rl"
  by (simp_all add: broadcast_def)

lemma relay_ok_broadcast:
  "relay_ok mar unm (broadcast env d m rl) \<longleftrightarrow>
     relay_ok mar unm rl \<and> event_ok mar unm (rl_commands rl) (rl_trace rl) (ToPhones d m)"
  by (simp add: broadcast_def relay_ok_event del: event_ok.simps)

lemma stamp_fields [simp]:
  "nm_Type (stampEnvelope mode m) = nm_Type m"
  "nm_DeviceID (stampEnvelope mode m) = nm_DeviceID m"
  "nm_SessionID (stampEnvelope mode m) = nm_SessionID m"
  "nm_ClientMsgID (stampEnvelope mode m) = nm_ClientMsgID m"
  "nm_Payload (stampEnvelope mode m) = nm_Payload m"
  "nm_SealedPayload (stampEnvelope mode m) = nm_SealedPayload m"
  by (simp_all add: stampEnvelope_def Let_def)

lemma new_message_fields [simp]:
  "nm_Type (NewMessage now t d) = t" "nm_Type (NewMessageWithSession now t d s) = t"
  "nm_SessionID (NewMessageWithSession now t d s) = s" "nm_DeviceID (NewMessage now t d) = d"
  "nm_DeviceID (NewMessageWithSession now t d s) = d"
  "nm_Payload (NewMessage now t d) = None" "nm_Payload (NewMessageWithSession now t d s) = None"
  "nm_SealedPayload (NewMessage now t d) = None" "nm_SealedPayload (NewMessageWithSession now t d s) = None"
  by (simp_all add: NewMessage_def NewMessageWithSession_def)

lemma relay_ok_plain:
  "relay_ok mar unm rl \<Longrightarrow> nm_Type m \<notin> {MsgPromptSent, MsgPromptCommitted} \<Longrightarrow>
   relay_ok mar unm (broadcast env d m rl)"
  by (simp add: relay_ok_broadcast)

lemma relay_ok_send:
  "relay_ok mar unm rl \<Longrightarrow> event_ok mar unm (rl_commands rl) (rl_trace rl) (ToDaemon d m (re_send env n)) \<Longrightarrow>
   relay_ok mar unm (fst (send env n d m rl))"
  by (simp add: send_def relay_ok_event)

lemma relay_ok_failed: "relay_ok mar unm rl \<Longrightarrow> relay_ok mar unm (broadcastPromptFailed env cmd rl)"
  by (simp add: broadcastPromptFailed_def Let_def relay_ok_plain)

lemma relay_ok_failure: "relay_ok mar unm rl \<Longrightarrow> relay_ok mar unm (broadcastPromptFailure env d s c m rl)"
  by (simp add: broadcastPromptFailure_def relay_ok_failed)

lemma save_message_cases:
  obtains (saved) t where "save_message env n d s m rl = (note_event (MessageSaved d s m) (rl\<lparr>rl_messages := t\<rparr>), True)"
  | (failed) t where "save_message env n d s m rl = (rl\<lparr>rl_messages := t\<rparr>, False)"
proof (cases "SaveMessage (re_codec env) (re_save_fails env n) d s m (rl_messages rl)")
  case (Pair t e)
  then show ?thesis using that by (cases e) (simp_all add: save_message_def)
qed

lemma relay_ok_save: "relay_ok mar unm rl \<Longrightarrow> relay_ok mar unm (fst (save_message env n d s m rl))"
  by (rule save_message_cases [of env n d s m rl]) (simp_all add: relay_ok_event)

lemma save_message_commands [simp]: "rl_commands (fst (save_message env n d s m rl)) = rl_commands rl"
  by (rule save_message_cases [of env n d s m rl]) simp_all

section \<open>Accepted commands\<close>

text \<open>A row that was read as accepted, and what the calls that follow do with it.\<close>

definition accepted_row :: "relay \<Rightarrow> PromptCommand \<Rightarrow> bool" where
  "accepted_row rl cmd \<longleftrightarrow>
     (\<exists>row. map_of (rl_commands rl) (command_key cmd) = Some row \<and> later cmd row) \<and> cmd_Status cmd = PromptAccepted"

definition saved_row :: "relay \<Rightarrow> PromptCommand \<Rightarrow> bool" where
  "saved_row rl cmd \<longleftrightarrow> accepted_row rl cmd
     \<and> (cmd_SealedEnvelopeJSON cmd = [] \<longrightarrow>
          (\<exists>m. MessageSaved (cmd_DeviceID cmd) (cmd_SessionID cmd) m \<in> set (rl_trace rl)
             \<and> sm_ID m = cmd_ClientMsgID cmd \<and> sm_Content m = cmd_Prompt cmd))"

lemma saved_settled:
  assumes "saved_row rl cmd"
  shows "settled (rl_commands rl) (rl_trace rl) (cmd_DeviceID cmd) (cmd_ClientMsgID cmd)"
proof -
  obtain row where "map_of (rl_commands rl) (command_key cmd) = Some row" "later cmd row"
    using assms by (auto simp: saved_row_def accepted_row_def)
  then show ?thesis using assms
    by (auto simp: settled_def saved_row_def accepted_row_def later_def same_payload_def)
qed

lemma accepted_row_commands:
  assumes "accepted_row rl cmd" and "reaches (rl_commands rl) t" and "rl_commands rl' = t"
  shows "accepted_row rl' cmd"
proof -
  obtain row where row: "map_of (rl_commands rl) (command_key cmd) = Some row" "later cmd row"
    using assms(1) by (auto simp: accepted_row_def)
  obtain row' where "map_of t (command_key cmd) = Some row'" "later row row'"
    using reaches_later [OF assms(2) row(1)] by blast
  then show ?thesis using assms(1,3) later_trans [OF row(2)] by (auto simp: accepted_row_def)
qed

lemma saved_row_later:
  assumes "saved_row rl cmd" and "reaches (rl_commands rl) (rl_commands rl')"
    and "set (rl_trace rl) \<subseteq> set (rl_trace rl')"
  shows "saved_row rl' cmd"
  using assms accepted_row_commands [of rl cmd "rl_commands rl'" rl']
  unfolding saved_row_def by blast

lemma persist_row:
  assumes "relay_ok mar unm rl" and "accepted_row rl cmd" and "persistAcceptedPrompt env n cmd rl = (rl', b)"
  shows "relay_ok mar unm rl' \<and> rl_commands rl' = rl_commands rl \<and> (b \<longrightarrow> saved_row rl' cmd)"
proof (cases "cmd_SealedEnvelopeJSON cmd = []")
  case False
  then show ?thesis using assms by (simp add: persistAcceptedPrompt_def saved_row_def)
next
  case True
  then have e: "save_message env n (cmd_DeviceID cmd) (cmd_SessionID cmd) (accepted_message env cmd) rl = (rl', b)"
    using assms(3) by (simp add: persistAcceptedPrompt_def)
  have m: "sm_ID (accepted_message env cmd) = cmd_ClientMsgID cmd" "sm_Content (accepted_message env cmd) = cmd_Prompt cmd"
    by (simp_all add: accepted_message_def Let_def)
  have ok: "relay_ok mar unm rl'" and c: "rl_commands rl' = rl_commands rl"
    using relay_ok_save [OF assms(1)] save_message_commands e by (metis fst_conv)+
  have "saved_row rl' cmd" if b
  proof -
    from e that have "MessageSaved (cmd_DeviceID cmd) (cmd_SessionID cmd) (accepted_message env cmd) \<in> set (rl_trace rl')"
      by (rule_tac save_message_cases [of env n "cmd_DeviceID cmd" "cmd_SessionID cmd" "accepted_message env cmd" rl]) auto
    then show ?thesis using assms(2) m by (auto simp: saved_row_def accepted_row_def c)
  qed
  then show ?thesis using ok c by blast
qed

lemma committed_message_fields [simp]:
  "nm_Type (promptCommittedMessage now cmd) = MsgPromptCommitted"
  "nm_ClientMsgID (promptCommittedMessage now cmd) = cmd_ClientMsgID cmd"
  "client_id (promptCommittedMessage now cmd) = cmd_ClientMsgID cmd"
  "client_id (stampEnvelope mode m) = client_id m"
  by (simp_all add: promptCommittedMessage_def client_id_def field_def string_or_empty_def as_string_def)

lemma committed_row:
  assumes "relay_ok mar unm rl" and "saved_row rl cmd"
  shows "relay_ok mar unm (sendPromptCommitted env n k cmd rl) \<and> saved_row (sendPromptCommitted env n k cmd rl) cmd"
proof -
  let ?m = "stampEnvelope (re_mode env) (promptCommittedMessage (re_now env) cmd)"
  let ?d = "cmd_DeviceID cmd"
  let ?r1 = "note_event (ToDaemon ?d ?m (re_send env n)) rl"
  have s: "settled (rl_commands rl) (rl_trace rl) ?d (cmd_ClientMsgID cmd)"
    by (rule saved_settled [OF assms(2)])
  have ok1: "relay_ok mar unm ?r1" using assms(1) s by (simp add: relay_ok_event)
  have sv1: "saved_row ?r1 cmd" by (rule saved_row_later [OF assms(2)]) auto
  obtain t e where t: "MarkPromptCommitted (re_db env k) ?d (cmd_ClientMsgID cmd) (rl_commands rl) = (t, e)"
    by fastforce
  then have rt: "reaches (rl_commands rl) t" using reaches_committed by (metis fst_conv)
  let ?r2 = "?r1\<lparr>rl_commands := t\<rparr>"
  have ok2: "relay_ok mar unm ?r2" using relay_ok_commands [OF ok1] rt by simp
  have sv2: "saved_row ?r2 cmd" by (rule saved_row_later [OF sv1]) (simp_all add: rt)
  have ok3: "relay_ok mar unm (broadcast env ?d ?m ?r2)"
    using ok2 saved_settled [OF sv2] by (simp add: relay_ok_broadcast)
  have sv3: "saved_row (broadcast env ?d ?m ?r2) cmd" by (rule saved_row_later [OF sv2]) auto
  have "sendPromptCommitted env n k cmd rl \<in> {?r1, ?r2, broadcast env ?d ?m ?r2}"
    using t by (auto simp: sendPromptCommitted_def Let_def send_def split: send_result.split option.split)
  then show ?thesis using ok1 ok2 ok3 sv1 sv2 sv3 by (elim insertE) simp_all
qed

lemma sent_row:
  assumes "relay_ok mar unm rl" and "saved_row rl cmd"
  shows "relay_ok mar unm (broadcastPromptSent env cmd rl)"
proof -
  have "client_id ((stampEnvelope mode (NewMessageWithSession now MsgPromptSent d s))
      \<lparr>nm_Payload := Some ((''client_msg_id'', JString (cmd_ClientMsgID cmd)) # rest)\<rparr>) = cmd_ClientMsgID cmd" for mode now d s rest
    by (simp add: client_id_def field_def string_or_empty_def as_string_def)
  then show ?thesis using assms saved_settled [OF assms(2)]
    by (simp add: broadcastPromptSent_def relay_ok_broadcast)
qed

text \<open>The sequence of the accepting handlers: save the message, commit, acknowledge.\<close>

lemma settle_row:
  assumes "relay_ok mar unm rl" and "accepted_row rl cmd"
  shows "relay_ok mar unm (case persistAcceptedPrompt env n cmd rl of (rl, False) \<Rightarrow> rl
           | (rl, True) \<Rightarrow> broadcastPromptSent env cmd (sendPromptCommitted env n' k cmd rl))"
    and "relay_ok mar unm (case persistAcceptedPrompt env n cmd rl of (rl, False) \<Rightarrow> rl
           | (rl, True) \<Rightarrow> broadcastPromptSent env cmd rl)"
proof -
  obtain rl' b where e: "persistAcceptedPrompt env n cmd rl = (rl', b)" by fastforce
  note p = persist_row [OF assms e]
  show "relay_ok mar unm (case persistAcceptedPrompt env n cmd rl of (rl, False) \<Rightarrow> rl
           | (rl, True) \<Rightarrow> broadcastPromptSent env cmd (sendPromptCommitted env n' k cmd rl))"
    using p committed_row [of mar unm rl' cmd env n' k] sent_row by (cases b) (auto simp: e)
  show "relay_ok mar unm (case persistAcceptedPrompt env n cmd rl of (rl, False) \<Rightarrow> rl
           | (rl, True) \<Rightarrow> broadcastPromptSent env cmd rl)"
    using p sent_row by (cases b) (auto simp: e)
qed

section \<open>Database calls of the handlers\<close>

lemma register_stored:
  assumes "RegisterPromptCommand run (Some c) retry t = (t', Some stored, b, None)"
  shows "map_of t' (command_key c) = Some stored"
proof -
  obtain u a where e: "exec_stmt run 0 (InsertOrIgnore (dr_now run 0) c) t = (u, a)" by force
  obtain v g where g: "GetPromptCommand run 2 (cmd_DeviceID c) (cmd_ClientMsgID c) u = (v, g)" by force
  obtain w x where x: "exec_stmt run 3 (ClaimRetry (dr_now run 3) (command_key c)) v = (w, x)" by force
  obtain z h where h: "GetPromptCommand run 5 (cmd_DeviceID c) (cmd_ClientMsgID c) w = (z, h)" by force
  have "(t' = v \<and> g = Inr stored) \<or> (t' = z \<and> h = Inr stored)"
    using assms unfolding RegisterPromptCommand_def by (auto simp: e g x h split: sum.splits if_splits)
  then show ?thesis using get_Inr(1) g h by auto
qed

lemma register_same:
  assumes "RegisterPromptCommand run (Some c) retry t = (t', Some stored, b, None)"
  shows "same_payload stored c"
proof -
  obtain u a where e: "exec_stmt run 0 (InsertOrIgnore (dr_now run 0) c) t = (u, a)" by force
  obtain v g where g: "GetPromptCommand run 2 (cmd_DeviceID c) (cmd_ClientMsgID c) u = (v, g)" by force
  obtain w x where x: "exec_stmt run 3 (ClaimRetry (dr_now run 3) (command_key c)) v = (w, x)" by force
  obtain z h where h: "GetPromptCommand run 5 (cmd_DeviceID c) (cmd_ClientMsgID c) w = (z, h)" by force
  obtain n old where an: "a = Inr n" and old: "g = Inr old"
    and stored: "old = stored \<or> h = Inr stored" and same0: "n = 0 \<Longrightarrow> same_payload old c"
    using assms unfolding RegisterPromptCommand_def by (auto simp: e g x h split: sum.splits if_splits)
  have "n = 0 \<or> n = 1" using insert_affected [OF exec_Inr] e an by fastforce
  moreover have "same_payload old c" if "n = 1"
    using insert_fresh(2) [of run "dr_now run 0" c t u] e an that get_Inr [of run 2 _ _ u v old] g old
      reaches_later payload_later by fastforce
  ultimately have so: "same_payload old c" using same0 by blast
  have "reaches v z" using reaches_trans [OF reaches_exec [of v run 3] reaches_get] x h by (metis fst_conv)
  then have "same_payload stored c" if "h = Inr stored"
    using reaches_later [of v z "command_key c" old] get_Inr(1) g old h that payload_later [OF so] by fastforce
  then show ?thesis using stored so by blast
qed

lemma transition_stored:
  assumes "promptTransitionResult run d i x = (t, Some c, b, None)"
  shows "map_of t (d, i) = Some c"
proof -
  obtain u n where "x = (u, Inr n)" "GetPromptCommand run 2 d i u = (t, Inr c)"
    using assms by (cases x) (auto simp: promptTransitionResult_def split: sum.splits prod.splits)
  then show ?thesis using get_Inr(1) by blast
qed

lemma marked_stored:
  "MarkPromptAccepted run d i t = (t', Some c, b, None) \<Longrightarrow> map_of t' (d, i) = Some c"
  "MarkPromptFailed run d i msg outcome retry t = (t', Some c, b, None) \<Longrightarrow> map_of t' (d, i) = Some c"
  by (auto simp: MarkPromptAccepted_def MarkPromptFailed_def Let_def intro: transition_stored)

lemma marked_reaches:
  "reaches t (fst (MarkPromptForwarded run d i t))"
  "reaches t (fst (MarkPromptAccepted run d i t))"
  "reaches t (fst (MarkPromptFailed run d i msg outcome retry t))"
  by (rule command_call_reaches, rule command_call.intros)+

lemma relay_ok_row:
  "relay_ok mar unm rl \<Longrightarrow> map_of (rl_commands rl) (d, i) = Some c \<Longrightarrow> command_key c = (d, i)"
  by (auto simp: relay_ok_def row_ok_def dest: table_ok_lookup)

lemma accepted_row_read:
  assumes "relay_ok mar unm rl" and "map_of (rl_commands rl) (d, i) = Some c" and "cmd_Status c = PromptAccepted"
  shows "accepted_row rl c"
  using relay_ok_row [OF assms(1,2)] assms(2,3) by (auto simp: accepted_row_def)

lemma register_prompt_ok:
  assumes "relay_ok mar unm rl" and "register_prompt env c retry rl = (rl', cmd, f, err)"
  shows "relay_ok mar unm rl'" and "rl_trace rl' = rl_trace rl" and "rl_messages rl' = rl_messages rl"
    and "\<And>s. cmd = Some s \<Longrightarrow> err = None \<Longrightarrow> map_of (rl_commands rl') (command_key c) = Some s"
    and "\<And>s. cmd = Some s \<Longrightarrow> err = None \<Longrightarrow> same_payload s c"
proof -
  obtain t where t: "RegisterPromptCommand (re_db env 0) (Some c) retry (rl_commands rl) = (t, cmd, f, err)"
    and rl': "rl' = rl\<lparr>rl_commands := t\<rparr>"
    using assms(2) by (auto simp: register_prompt_def split: prod.splits)
  have "reaches (rl_commands rl) t" using reaches_register t by (metis fst_conv)
  then show "relay_ok mar unm rl'" using relay_ok_commands [OF assms(1)] by (simp add: rl')
  show "rl_trace rl' = rl_trace rl" "rl_messages rl' = rl_messages rl" by (simp_all add: rl')
  show "map_of (rl_commands rl') (command_key c) = Some s" if "cmd = Some s" "err = None" for s
    using register_stored [of "re_db env 0" c retry "rl_commands rl" t s f] t that by (simp add: rl')
  show "same_payload s c" if "cmd = Some s" "err = None" for s
    using register_same [of "re_db env 0" c retry "rl_commands rl" t s f] t that by simp
qed

lemma mark_forwarded_ok: "relay_ok mar unm rl \<Longrightarrow> relay_ok mar unm (mark_forwarded env d i rl)"
  by (simp add: mark_forwarded_def relay_ok_commands marked_reaches)

lemma mark_forward_failed_ok:
  assumes "relay_ok mar unm rl" and "mark_forward_failed env cmd d i res rl = (rl', failed)"
  shows "relay_ok mar unm rl'" and "rl_trace rl' = rl_trace rl" and "rl_messages rl' = rl_messages rl"
    and "cmd_Status failed = PromptAccepted \<Longrightarrow> accepted_row rl' failed"
    and "cmd_Status failed = PromptAccepted \<Longrightarrow> map_of (rl_commands rl) (d, i) = Some old \<Longrightarrow> later old failed"
proof -
  obtain outcome retry message where f: "forward_failure res = (outcome, retry, message)" by (cases "forward_failure res") auto
  obtain t c b e where m: "MarkPromptFailed (re_db env 1) d i message outcome retry (rl_commands rl) = (t, c, b, e)"
    by (cases "MarkPromptFailed (re_db env 1) d i message outcome retry (rl_commands rl)") auto
  have rl': "rl' = rl\<lparr>rl_commands := t\<rparr>"
    using assms(2) unfolding mark_forward_failed_def f m prod.case by (auto split: option.splits)
  have r: "reaches (rl_commands rl) t" using marked_reaches(3) m by (metis fst_conv)
  show ok: "relay_ok mar unm rl'" using relay_ok_commands [OF assms(1) r] by (simp add: rl')
  show "rl_trace rl' = rl_trace rl" "rl_messages rl' = rl_messages rl" by (simp_all add: rl')
  have got: "map_of (rl_commands rl') (d, i) = Some failed" if acc: "cmd_Status failed = PromptAccepted"
  proof -
    have "c = Some failed" "e = None"
      using assms(2) acc unfolding mark_forward_failed_def f m prod.case by (auto split: option.splits if_splits)
    then show ?thesis using marked_stored(2) m by (simp add: rl')
  qed
  then show "accepted_row rl' failed" if "cmd_Status failed = PromptAccepted"
    using accepted_row_read [OF ok] that by blast
  show "later old failed" if "cmd_Status failed = PromptAccepted" "map_of (rl_commands rl) (d, i) = Some old"
    using reaches_later [OF r that(2)] got [OF that(1)] by (simp add: rl')
qed

section \<open>The phone's prompts\<close>

lemma open_duplicate_ok:
  assumes "relay_ok mar unm rl" and "map_of (rl_commands rl) (d, i) = Some cmd"
  shows "relay_ok mar unm (open_duplicate env dev cmd rl)"
proof -
  have "relay_ok mar unm (fst (send env 0 dev (status_query env cmd) rl))"
    by (rule relay_ok_send [OF assms(1)]) (simp add: status_query_def)
  then show ?thesis
    using settle_row(1) [OF assms(1) accepted_row_read [OF assms]] relay_ok_failed [OF assms(1)] assms(1)
    by (simp add: open_duplicate_def)
qed

lemma forward_open_ok:
  assumes "relay_ok mar unm rl" and "nm_Type msg = MsgSendPrompt" and "registered mar unm (rl_commands rl) dev msg"
  shows "relay_ok mar unm (forward_open env dev cid msg cmd rl)"
proof -
  let ?r = "note_event (ToDaemon dev msg (re_send env 0)) rl"
  have ok: "relay_ok mar unm ?r" using assms by (simp add: relay_ok_event)
  obtain rl' failed where m: "mark_forward_failed env cmd dev cid (re_send env 0) ?r = (rl', failed)" by fastforce
  note f = mark_forward_failed_ok [OF ok m]
  have "relay_ok mar unm (if cmd_Status failed = PromptAccepted
      then (case persistAcceptedPrompt env 0 failed rl' of (rl, False) \<Rightarrow> rl | (rl, True) \<Rightarrow> broadcastPromptSent env failed rl)
      else broadcastPromptFailed env failed rl')"
    using settle_row(2) [OF f(1) f(4)] relay_ok_failed [OF f(1)] by simp
  then show ?thesis using mark_forwarded_ok [OF ok] m
    by (cases "re_send env 0") (simp_all add: forward_open_def send_def)
qed

lemma register_open_ok:
  assumes "relay_ok mar unm rl" and "nm_Type msg = MsgSendPrompt" and "nm_SealedPayload msg = None"
    and "field (nm_Payload msg) ''prompt'' = Some (JString prompt)"
  shows "relay_ok mar unm (register_open env dev msg cid prompt atts rl)"
proof -
  let ?p = "set_field ''client_msg_id'' (JString cid) (nm_Payload msg)"
  let ?m = "msg\<lparr>nm_Payload := ?p\<rparr>"
  have p: "field ?p ''prompt'' = Some (JString prompt)" "field ?p ''client_msg_id'' = Some (JString cid)"
    using assms(4) by (auto simp: field_def set_field_def split: option.splits)
  then have cid: "client_id ?m = cid" by (simp add: client_id_def string_or_empty_def as_string_def)
  show ?thesis
  proof (cases "jc_marshal (re_codec env) (slice_json atts)")
    case None
    then show ?thesis using assms(1) by (simp add: register_open_def Let_def relay_ok_failure)
  next
    case (Some json)
    let ?c = "prompt_command dev cid (nm_SessionID msg) prompt json []"
    obtain rl' cmd f err where reg:
        "register_prompt env ?c (as_bool (field ?p ''retry'') = Some True) rl = (rl', cmd, f, err)"
      by (cases "register_prompt env ?c (as_bool (field ?p ''retry'') = Some True) rl") auto
    note r = register_prompt_ok [OF assms(1) reg]
    have key: "command_key ?c = (dev, cid)" by (simp add: prompt_command_def)
    have "relay_ok mar unm (forward_open env dev cid ?m s rl')" if s: "cmd = Some s" "err = None" f for s
    proof (rule forward_open_ok [OF r(1)])
      have "same_payload s ?c" by (rule r(5) [OF s(1,2)])
      then show "registered mar unm (rl_commands rl') dev ?m"
        using r(4) [OF s(1,2)] p(1) cid assms(3) unfolding registered_def key
        by (intro exI [of _ cid] exI [of _ s] conjI disjI1) (simp_all add: prompt_command_def same_payload_def)
    qed (simp add: assms(2))
    moreover have "relay_ok mar unm (open_duplicate env dev s rl')" if "cmd = Some s" "err = None" for s
      using open_duplicate_ok [OF r(1)] r(4) [OF that] key by simp
    ultimately show ?thesis
      using r(1) relay_ok_failure [OF r(1)]
      by (cases cmd; cases err) (simp_all add: register_open_def Let_def Some reg)
  qed
qed

lemma handle_open_prompt_ok:
  assumes "relay_ok mar unm rl" and "nm_Type msg = MsgSendPrompt" and "nm_SealedPayload msg = None"
  shows "relay_ok mar unm (handle_open_prompt env dev msg rl)"
proof -
  let ?raw = "string_or_empty (field (nm_Payload msg) ''prompt'')"
  have raw: "field (nm_Payload msg) ''prompt'' = Some (JString ?raw)" if "?raw \<noteq> []"
    using that by (auto simp: string_or_empty_def as_string_def split: option.splits json.splits)
  have set: "field (set_field k v p) ''prompt'' = (if k = ''prompt'' then Some v else field p ''prompt'')" for k v p
    by (auto simp: field_def set_field_def split: option.splits)
  show ?thesis unfolding handle_open_prompt_def Let_def
    using assms raw
    by (auto intro!: relay_ok_failure register_open_ok simp: set split: option.split)
qed

lemma sealed_duplicate_ok:
  assumes "relay_ok mar unm rl" and "map_of (rl_commands rl) (d, i) = Some cmd" and "cmd_SealedEnvelopeJSON cmd \<noteq> []"
  shows "relay_ok mar unm (sealed_duplicate env dev cmd rl)"
proof -
  have "relay_ok mar unm (fst (send env 0 dev (status_query env cmd) rl))"
    by (rule relay_ok_send [OF assms(1)]) (simp add: status_query_def)
  moreover have "relay_ok mar unm (sendPromptCommitted env 0 2 cmd rl)" if "cmd_Status cmd = PromptAccepted"
    using committed_row [OF assms(1)] accepted_row_read [OF assms(1,2) that] assms(3) by (simp add: saved_row_def)
  ultimately show ?thesis using relay_ok_failed [OF assms(1)] assms(1)
    by (cases "cmd_Status cmd") (simp_all add: sealed_duplicate_def)
qed

lemma forward_sealed_ok:
  assumes "relay_ok mar unm rl" and "nm_Type msg = MsgSendPrompt" and "registered mar unm (rl_commands rl) dev msg"
    and "map_of (rl_commands rl) (dev, cid) = Some cmd" and "cmd_SealedEnvelopeJSON cmd \<noteq> []"
  shows "relay_ok mar unm (forward_sealed env dev cid msg cmd rl)"
proof -
  let ?r = "note_event (ToDaemon dev msg (re_send env 0)) rl"
  have ok: "relay_ok mar unm ?r" using assms by (simp add: relay_ok_event)
  obtain rl' failed where m: "mark_forward_failed env cmd dev cid (re_send env 0) ?r = (rl', failed)" by fastforce
  note f = mark_forward_failed_ok [OF ok m]
  have "relay_ok mar unm (sendPromptCommitted env 1 2 failed rl')" if acc: "cmd_Status failed = PromptAccepted"
  proof -
    have "cmd_SealedEnvelopeJSON failed \<noteq> []"
      using f(5) [OF acc] assms(4,5) by (auto simp: later_def same_payload_def)
    then show ?thesis using committed_row [OF f(1)] f(4) [OF acc] by (simp add: saved_row_def)
  qed
  then show ?thesis using mark_forwarded_ok [OF ok] m relay_ok_failed [OF f(1)]
    by (cases "re_send env 0") (simp_all add: forward_sealed_def send_def)
qed

lemma register_sealed_ok:
  assumes "relay_ok mar unm rl" and "nm_Type msg = MsgSendPrompt" and "mar msg = Some wire" and "wire \<noteq> []"
  shows "relay_ok mar unm (register_sealed env dev cid msg wire rl)"
proof -
  let ?c = "prompt_command dev cid (nm_SessionID msg) [] ''[]'' wire"
  obtain rl' cmd f err where reg: "register_prompt env ?c False rl = (rl', cmd, f, err)"
    by (cases "register_prompt env ?c False rl") auto
  note r = register_prompt_ok [OF assms(1) reg]
  have key: "command_key ?c = (dev, cid)" by (simp add: prompt_command_def)
  have env: "cmd_SealedEnvelopeJSON s = wire" if "cmd = Some s" "err = None" for s
    using r(5) [OF that] by (simp add: prompt_command_def same_payload_def)
  have row: "map_of (rl_commands rl') (dev, cid) = Some s" if "cmd = Some s" "err = None" for s
    using r(4) [OF that] key by simp
  have "registered mar unm (rl_commands rl') dev msg" if "cmd = Some s" "err = None" for s
    using row [OF that] env [OF that] assms(3) unfolding registered_def by blast
  then have "relay_ok mar unm (forward_sealed env dev cid msg s rl')" if "cmd = Some s" "err = None" for s
    using forward_sealed_ok [OF r(1) assms(2)] row [OF that] env [OF that] assms(4) that by simp
  moreover have "relay_ok mar unm (sealed_duplicate env dev s rl')" if "cmd = Some s" "err = None" for s
    using sealed_duplicate_ok [OF r(1) row [OF that]] env [OF that] assms(4) by simp
  ultimately show ?thesis
    using r(1) relay_ok_failure [OF r(1)] unfolding register_sealed_def reg
    by (cases cmd; cases err) simp_all
qed

lemma handleSealedPrompt_ok:
  assumes "relay_ok (re_marshal env) unm rl" and "nm_Type msg = MsgSendPrompt" and "\<forall>m. re_marshal env m \<noteq> Some []"
  shows "relay_ok (re_marshal env) unm (handleSealedPrompt env dev msg rl)"
proof -
  let ?cid = "sanitizeClientMsgID (TrimSpace (nm_ClientMsgID msg))"
  let ?m = "msg\<lparr>nm_DeviceID := dev, nm_ClientMsgID := ?cid\<rparr>"
  show ?thesis
  proof (cases "re_marshal env ?m")
    case None
    then show ?thesis using relay_ok_failure [OF assms(1)] unfolding handleSealedPrompt_def Let_def by simp
  next
    case (Some wire)
    then have "wire \<noteq> []" using assms(3) by metis
    then have "relay_ok (re_marshal env) unm (register_sealed env dev ?cid ?m wire rl)"
      using register_sealed_ok [OF assms(1) _ Some] assms(2) by simp
    then show ?thesis using relay_ok_failure [OF assms(1)] Some unfolding handleSealedPrompt_def Let_def by simp
  qed
qed

lemma offline_error_ok: "relay_ok mar unm rl \<Longrightarrow> relay_ok mar unm (offline_error env d s rl)"
  by (simp add: offline_error_def relay_ok_plain)

lemma send_other_ok:
  "relay_ok mar unm rl \<Longrightarrow> nm_Type m \<notin> {MsgSendPrompt, MsgPromptCommitted} \<Longrightarrow>
   relay_ok mar unm (note_event (ToDaemon d m r) rl)"
  by (simp add: relay_ok_event)

lemma history_answer_type: "nm_Type (history_answer env d s limit rows) = MsgSessionHistory"
  by (simp add: history_answer_def split: prod.split)

lemma handle_fetch_history_ok:
  assumes "relay_ok mar unm rl" and "nm_Type msg = MsgFetchHistory"
  shows "relay_ok mar unm (handle_fetch_history env dev msg rl)"
proof -
  let ?m = "msg\<lparr>nm_DeviceID := dev,
      nm_Payload := set_field ''limit'' (JNumber (of_int (historyLimit (nm_Payload msg)))) (nm_Payload msg)\<rparr>"
  have sent: "relay_ok mar unm (note_event (ToDaemon dev ?m r) rl)" for r
    using send_other_ok [OF assms(1), of ?m] assms(2) by simp
  have answer: "relay_ok mar unm (broadcast env dev (history_answer env dev s limit rows) (note_event (ToDaemon dev ?m r) rl))"
    for s limit rows r
    using relay_ok_plain [OF sent] by (simp add: history_answer_type)
  show ?thesis
    unfolding handle_fetch_history_def Let_def send_def
    using sent offline_error_ok [OF sent] answer
    by (cases "re_send env 0") (simp_all split: sum.split)
qed

lemma start_failure_type: "nm_Type (start_failure env d i m r) \<in> {MsgThreadFailed, MsgThreadIndeterminate}"
  by (simp add: start_failure_def threadStartRelayFailure_def Let_def)

lemma handle_start_thread_ok:
  assumes "relay_ok mar unm rl" and "nm_Type msg = MsgStartThread"
  shows "relay_ok mar unm (handle_start_thread env dev msg rl)"
proof -
  have sent: "relay_ok mar unm (note_event (ToDaemon d (start_request dev i msg) r) rl)" for d i r
    using send_other_ok [OF assms(1)] assms(2) by (simp add: start_request_def)
  have "relay_ok mar unm (broadcast env dev (start_failure env dev i m res) (note_event (ToDaemon d (start_request dev i msg) r) rl))"
    for d i m r res
    using relay_ok_plain [OF sent] start_failure_type [of env dev i m res] by auto
  then show ?thesis
    unfolding handle_start_thread_def Let_def send_def
    using sent by (cases "re_send env 0") simp_all
qed

lemma handlePhoneMessage_ok:
  assumes "relay_ok (re_marshal env) unm rl" and "\<forall>m. re_marshal env m \<noteq> Some []"
  shows "relay_ok (re_marshal env) unm (handlePhoneMessage env dev msg rl)"
proof -
  have history: "nm_Type msg = MsgFetchHistory \<Longrightarrow> relay_ok (re_marshal env) unm (handle_fetch_history env dev msg rl)"
    using assms(1) by (rule handle_fetch_history_ok)
  have start: "nm_Type msg = MsgStartThread \<Longrightarrow> relay_ok (re_marshal env) unm (handle_start_thread env dev msg rl)"
    using assms(1) by (rule handle_start_thread_ok)
  have other: "nm_Type msg \<notin> {MsgSendPrompt, MsgPromptCommitted} \<Longrightarrow>
      relay_ok (re_marshal env) unm (relay_or_error env dev (msg\<lparr>nm_DeviceID := dev\<rparr>) rl)"
    using assms(1) unfolding relay_or_error_def send_def
    by (cases "re_send env 0") (auto intro!: send_other_ok offline_error_ok)
  show ?thesis
    using history start other assms handleSealedPrompt_ok [OF assms(1) _ assms(2)] handle_open_prompt_ok [OF assms(1)]
    unfolding handlePhoneMessage_def Let_def by auto
qed

section \<open>The daemon's messages\<close>

lemma push_ok: "relay_ok mar unm rl \<Longrightarrow> relay_ok mar unm (sendPushNotification env d s txt rl)"
  unfolding sendPushNotification_def Let_def
  by (auto simp: relay_ok_event split: prod.split sum.split)

lemma approval_push_ok: "relay_ok mar unm rl \<Longrightarrow> relay_ok mar unm (approval_push env d m txt rl)"
  by (simp add: approval_push_def push_ok)

lemma import_history_ok: "relay_ok mar unm rl \<Longrightarrow> relay_ok mar unm (import_history env n d s items rl)"
  by (induction env n d s items rl rule: import_history.induct)
    (auto simp: Let_def relay_ok_save split: option.split)

lemma handle_prompt_not_seen_ok:
  assumes "relay_ok (re_marshal env) (re_unmarshal env) rl"
  shows "relay_ok (re_marshal env) (re_unmarshal env) (handle_prompt_not_seen env dev msg rl)"
proof -
  let ?i = "promptClientMsgID (Some msg)"
  obtain t res where g: "GetPromptCommand (re_db env 0) 0 dev ?i (rl_commands rl) = (t, res)" by fastforce
  let ?r = "rl\<lparr>rl_commands := t\<rparr>"
  have "reaches (rl_commands rl) t" using reaches_get g by (metis fst_conv)
  then have ok: "relay_ok (re_marshal env) (re_unmarshal env) ?r" using relay_ok_commands [OF assms] by blast
  have "relay_ok (re_marshal env) (re_unmarshal env) (fst (send env 0 dev (stampEnvelope (re_mode env) m) ?r))"
    if "res = Inr cmd" and m: "promptCommandMessage env cmd = Some m" for cmd m
  proof (rule relay_ok_send [OF ok])
    have row: "map_of t (dev, ?i) = Some cmd" using get_Inr(1) g that(1) by blast
    then have key: "command_key cmd = (dev, ?i)" using relay_ok_row [OF ok] by simp
    show "event_ok (re_marshal env) (re_unmarshal env) (rl_commands ?r) (rl_trace ?r)
        (ToDaemon dev (stampEnvelope (re_mode env) m) (re_send env 0))"
    proof (cases "cmd_SealedEnvelopeJSON cmd = []")
      case True
      then have "nm_Type m = MsgSendPrompt" "nm_SealedPayload m = None" "nm_SessionID m = cmd_SessionID cmd"
        "field (nm_Payload m) ''prompt'' = Some (JString (cmd_Prompt cmd))" "client_id m = cmd_ClientMsgID cmd"
        using m by (auto simp: promptCommandMessage_def Let_def field_def client_id_def string_or_empty_def as_string_def)
      then show ?thesis using row key unfolding event_ok.simps registered_def
        by (auto intro!: exI [of _ ?i])
    next
      case False
      then have "nm_SealedPayload m \<noteq> None" "re_unmarshal env (cmd_SealedEnvelopeJSON cmd) = Some m"
        using m by (auto simp: promptCommandMessage_def split: option.splits if_splits)
      then show ?thesis using row unfolding event_ok.simps registered_def by auto
    qed
  qed
  then show ?thesis using ok assms
    unfolding handle_prompt_not_seen_def Let_def g by (auto split: sum.split option.split)
qed

lemma handle_prompt_accepted_ok:
  assumes "relay_ok mar unm rl" and "nm_Type msg = MsgPromptAccepted"
  shows "relay_ok mar unm (handle_prompt_accepted env dev msg rl)"
proof -
  let ?i = "promptClientMsgID (Some msg)"
  obtain t c b e where m: "MarkPromptAccepted (re_db env 0) dev ?i (rl_commands rl) = (t, c, b, e)"
    by (cases "MarkPromptAccepted (re_db env 0) dev ?i (rl_commands rl)") auto
  let ?r = "rl\<lparr>rl_commands := t\<rparr>"
  have "reaches (rl_commands rl) t" using marked_reaches(2) m by (metis fst_conv)
  then have ok: "relay_ok mar unm ?r" using relay_ok_commands [OF assms(1)] by blast
  have "accepted_row ?r cmd" if "c = Some cmd" "e = None" "cmd_Status cmd = PromptAccepted" for cmd
  proof -
    have "map_of t (dev, ?i) = Some cmd" using marked_stored(1) m that by blast
    then show ?thesis using accepted_row_read [OF ok, of dev ?i cmd] that(3) by simp
  qed
  note acc = settle_row(1) [OF ok this]
  show ?thesis
  proof (cases "\<exists>cmd. c = Some cmd \<and> e = None")
    case False
    then have "(case MarkPromptAccepted (re_db env 0) dev ?i (rl_commands rl) of
        (t, Some cmd, _, None) \<Rightarrow> X t cmd | (t, _) \<Rightarrow> rl\<lparr>rl_commands := t\<rparr>) = ?r" for X
      by (cases c; cases e) (simp_all add: m)
    then show ?thesis using ok assms relay_ok_plain [OF assms(1), of msg env dev]
      unfolding handle_prompt_accepted_def Let_def by simp
  next
    case True
    then obtain cmd where c: "c = Some cmd" "e = None" by blast
    show ?thesis using ok assms relay_ok_plain [OF assms(1), of msg env dev] acc [OF c]
      unfolding handle_prompt_accepted_def Let_def m c by simp
  qed
qed

lemma handle_prompt_failed_ok:
  assumes "relay_ok mar unm rl" and "nm_Type msg = MsgPromptFailed"
  shows "relay_ok mar unm (handle_prompt_failed env dev msg rl)"
proof -
  let ?i = "promptClientMsgID (Some msg)"
  obtain failure outcome retry where f: "failure_report msg = (failure, outcome, retry)"
    by (cases "failure_report msg") auto
  obtain t c b e where m: "MarkPromptFailed (re_db env 0) dev ?i failure outcome retry (rl_commands rl) = (t, c, b, e)"
    by (cases "MarkPromptFailed (re_db env 0) dev ?i failure outcome retry (rl_commands rl)") auto
  let ?r = "rl\<lparr>rl_commands := t\<rparr>"
  have "reaches (rl_commands rl) t" using marked_reaches(3) m by (metis fst_conv)
  then have ok: "relay_ok mar unm ?r" using relay_ok_commands [OF assms(1)] by blast
  then show ?thesis
    using assms relay_ok_plain [OF ok, of msg env dev] relay_ok_failed [OF ok]
    unfolding handle_prompt_failed_def Let_def f m prod.case by (cases c; cases e) simp_all
qed

lemma handle_session_message_ok:
  assumes "relay_ok mar unm rl" and "nm_Type msg = MsgSessionMessage"
  shows "relay_ok mar unm (handle_session_message env dev msg rl)"
proof -
  define rl1 where "rl1 = (if nm_SealedPayload msg \<noteq> None
      then rl\<lparr>rl_messages := fst (SaveSealedMessage (re_codec env) (re_save_fails env 0) dev
                (nm_SessionID msg) (Some msg) (rl_messages rl))\<rparr>
      else (case field (nm_Payload msg) ''message'' of
              None \<Rightarrow> rl
            | Some data \<Rightarrow> (case re_message env data of
                   None \<Rightarrow> rl | Some sm \<Rightarrow> fst (save_message env 0 dev (nm_SessionID msg) sm rl))))"
  have "relay_ok mar unm rl1" unfolding rl1_def using assms(1) relay_ok_save [OF assms(1)]
    by (simp split: option.split)
  then show ?thesis unfolding handle_session_message_def Let_def rl1_def [symmetric]
    using assms(2) by (intro approval_push_ok relay_ok_plain) simp_all
qed

lemma handle_session_history_ok:
  assumes "relay_ok mar unm rl" and "nm_Type msg = MsgSessionHistory"
  shows "relay_ok mar unm (handle_session_history env dev msg rl)"
  using assms import_history_ok [OF assms(1)] unfolding handle_session_history_def
  by (auto intro!: relay_ok_plain split: option.split json.split)

lemma handle_session_list_ok: "relay_ok mar unm rl \<Longrightarrow> relay_ok mar unm (handle_session_list env r dev msg rl)"
  unfolding handle_session_list_def Let_def by (simp split: option.split)

lemma attention_ok:
  "relay_ok mar unm rl \<Longrightarrow> relay_ok mar unm (fst (acceptAttentionEvent env dev msg rl))"
  unfolding acceptAttentionEvent_def Let_def by (auto split: option.split prod.split sum.split)

lemma if_keep: "(c \<Longrightarrow> P x) \<Longrightarrow> (\<not> c \<Longrightarrow> P y) \<Longrightarrow> P (if c then x else y)"
  by simp

lemma handleDaemonMessage_ok:
  assumes ok: "relay_ok (re_marshal env) (re_unmarshal env) rl"
  shows "relay_ok (re_marshal env) (re_unmarshal env) (handleDaemonMessage env r msg rl)"
proof -
  let ?P = "relay_ok (re_marshal env) (re_unmarshal env)"
  let ?d = "device_of (rc_daemons (rl_conns rl)) r"
  let ?m = "msg\<lparr>nm_DeviceID := ?d\<rparr>"
  have attention: "?P (case acceptAttentionEvent env ?d ?m rl of (rl, False) \<Rightarrow> rl
      | (rl, True) \<Rightarrow> sendPushNotification env ?d (nm_SessionID ?m) AttentionNeeded (broadcast env ?d ?m rl))"
    if "nm_Type msg = MsgAttentionEvent"
    using attention_ok [OF ok, of env ?d ?m] that
    by (cases "acceptAttentionEvent env ?d ?m rl") (auto intro!: push_ok relay_ok_plain split: bool.split)
  have plain: "nm_Type msg \<notin> {MsgPromptSent, MsgPromptCommitted} \<Longrightarrow> ?P (broadcast env ?d ?m rl)"
    using relay_ok_plain [OF ok] by simp
  have update: "nm_Type msg = MsgSessionUpdate \<Longrightarrow>
      ?P (approval_push env ?d ?m SessionNeedsHandling (broadcast env ?d ?m rl))"
    using plain by (simp add: approval_push_ok)
  have queue: "nm_Type msg \<in> {MsgPromptQueued, MsgUserInputResult, MsgQueueUpdate, MsgPromptCancelled} \<Longrightarrow>
      ?P (broadcast env ?d ?m rl)"
    and control: "nm_Type msg \<in> {MsgError, MsgThreadStarting, MsgThreadOwned, MsgThreadFailed,
      MsgThreadIndeterminate, MsgKeyPackage, MsgPairReady} \<Longrightarrow> ?P (broadcast env ?d ?m rl)"
    using plain by auto
  have typed: "nm_Type ?m = nm_Type msg" by simp
  note here = handle_session_list_ok [OF ok, of env r ?d ?m] update attention queue control
    handle_session_message_ok [OF ok, of ?m env ?d] handle_session_history_ok [OF ok, of ?m env ?d]
    handle_prompt_not_seen_ok [OF ok, of ?d ?m] handle_prompt_accepted_ok [OF ok, of ?m env ?d]
    handle_prompt_failed_ok [OF ok, of ?m env ?d]
  show ?thesis unfolding handleDaemonMessage_def Let_def typed
    by (intro if_keep [of _ ?P]) (use here ok in simp_all)
qed

section \<open>The replay\<close>

lemma listed_rows:
  assumes "ListUncommittedAcceptedPrompts run dev limit t = Inr cmds" and "table_ok t" and "cmd \<in> set cmds"
  shows "map_of t (dev, cmd_ClientMsgID cmd) = Some cmd" and "cmd_Status cmd = PromptAccepted"
    and "cmd_DeviceID cmd = dev" and "\<not> cmd_CommitSent cmd"
proof -
  have mem: "cmd \<in> set (uncommitted dev t)"
    using assms(1,3) by (auto simp: ListUncommittedAcceptedPrompts_def Let_def split: if_splits dest: in_set_takeD)
  show "map_of t (dev, cmd_ClientMsgID cmd) = Some cmd" "cmd_Status cmd = PromptAccepted" "\<not> cmd_CommitSent cmd"
    using mem uncommitted_mem [OF assms(2)] by blast+
  show "cmd_DeviceID cmd = dev" using mem by (auto simp: uncommitted_def)
qed

lemma replay_batch_ok:
  assumes "relay_ok mar unm rl" and "\<forall>cmd \<in> set cmds. accepted_row rl cmd \<and> cmd_DeviceID cmd = dev"
  shows "relay_ok mar unm (fst (replay_batch env k dev cmds rl))"
  using assms
proof (induction cmds arbitrary: k rl)
  case (Cons cmd cmds)
  let ?m = "stampEnvelope (re_mode env) (promptCommittedMessage (re_now env) cmd)"
  obtain rl1 b where p: "persistAcceptedPrompt env k cmd rl = (rl1, b)" by fastforce
  note p1 = persist_row [OF Cons.prems(1) _ p]
  have acc: "accepted_row rl cmd" and dev: "cmd_DeviceID cmd = dev" using Cons.prems(2) by auto
  let ?r = "note_event (ToDaemon dev ?m (re_send env k)) rl1"
  have sent: "relay_ok mar unm ?r" if b
    using p1 [OF acc] that saved_settled [of rl1 cmd] dev by (simp add: relay_ok_event)
  obtain t e where t: "MarkPromptCommitted (re_db env k) (cmd_DeviceID cmd) (cmd_ClientMsgID cmd) (rl_commands ?r) = (t, e)"
    by fastforce
  then have rt: "reaches (rl_commands ?r) t" using reaches_committed by (metis fst_conv)
  have ok: "relay_ok mar unm (?r\<lparr>rl_commands := t\<rparr>)" if b
    using relay_ok_commands [OF sent [OF that] rt] .
  have "\<forall>c \<in> set cmds. accepted_row (?r\<lparr>rl_commands := t\<rparr>) c \<and> cmd_DeviceID c = dev"
    using Cons.prems(2) accepted_row_commands [of rl _ t] rt p1 [OF acc] by auto
  then have "relay_ok mar unm (fst (replay_batch env (Suc k) dev cmds (?r\<lparr>rl_commands := t\<rparr>)))" if b
    using Cons.IH [OF ok [OF that]] by blast
  then show ?case
    using p p1 [OF acc] t sent ok
    by (cases b; cases "re_send env k"; cases e) (simp_all add: send_def)
qed simp

lemma replay_ok:
  "relay_ok mar unm rl \<Longrightarrow> replayPromptCommits fuel env k dev rl = Some rl' \<Longrightarrow> relay_ok mar unm rl'"
proof (induction fuel arbitrary: k rl)
  case (Suc fuel)
  show ?case
  proof (cases "ListUncommittedAcceptedPrompts (re_db env k) dev 100 (rl_commands rl)")
    case (Inl e)
    then show ?thesis using Suc.prems by simp
  next
    case (Inr cmds)
    have tab: "table_ok (rl_commands rl)" using Suc.prems(1) by (simp add: relay_ok_def)
    have "\<forall>cmd \<in> set cmds. accepted_row rl cmd \<and> cmd_DeviceID cmd = dev"
      using accepted_row_read [OF Suc.prems(1) listed_rows(1) [OF Inr tab] listed_rows(2) [OF Inr tab]]
        listed_rows(3) [OF Inr tab] by blast
    note ok = replay_batch_ok [OF Suc.prems(1) this, of env "Suc k"]
    obtain rl1 b where r: "replay_batch env (Suc k) dev cmds rl = (rl1, b)" by fastforce
    show ?thesis using Suc.prems(1,2) Suc.IH [of rl1] ok by (cases b) (auto simp: Inr r split: if_splits)
  qed
qed simp

section \<open>Every run\<close>

text \<open>
  One step of the relay: a phone's frame, a daemon's frame, the replay for a daemon that connects,
  or anything else the server does to its other state and to the command table.  All steps
  share the codec of the process.
\<close>

inductive relay_step ::
  "(NekoMessage \<Rightarrow> string option) \<Rightarrow> (string \<Rightarrow> NekoMessage option) \<Rightarrow> relay \<Rightarrow> relay \<Rightarrow> bool"
  for mar unm where
  phone: "re_marshal env = mar \<Longrightarrow> relay_step mar unm rl (handlePhoneMessage env dev msg rl)"
| daemon: "re_marshal env = mar \<Longrightarrow> re_unmarshal env = unm \<Longrightarrow>
    relay_step mar unm rl (handleDaemonMessage env r msg rl)"
| replay: "replayPromptCommits fuel env k dev rl = Some rl' \<Longrightarrow> relay_step mar unm rl rl'"
| other: "command_call\<^sup>*\<^sup>* (rl_commands rl) t \<Longrightarrow>
    relay_step mar unm rl (rl\<lparr>rl_commands := t, rl_messages := ms, rl_store := db, rl_conns := cs\<rparr>)"

definition texts :: "(NekoMessage \<Rightarrow> string option) \<Rightarrow> bool" where
  "texts mar \<longleftrightarrow> (\<forall>m. mar m \<noteq> Some [])"

lemma relay_step_ok:
  assumes "relay_ok mar unm rl" and "relay_step mar unm rl rl'" and "texts mar"
  shows "relay_ok mar unm rl'"
  using assms(2)
proof (cases rule: relay_step.cases)
  case (phone env dev msg)
  then show ?thesis using handlePhoneMessage_ok [of env unm rl] assms(1,3) by (simp add: texts_def)
next
  case (daemon env r msg)
  then show ?thesis using handleDaemonMessage_ok [of env rl] assms(1) by simp
next
  case (replay fuel env k dev)
  then show ?thesis using replay_ok assms(1) by blast
next
  case (other t ms db cs)
  have "reaches (rl_commands rl) t" using other(2)
    by (induction rule: rtranclp_induct) (auto intro: reaches_trans command_call_reaches)
  then show ?thesis using relay_ok_commands [OF assms(1)] by (simp add: other(1) relay_ok_def)
qed

interpretation relay: step_invariant "\<lambda>a b. relay_step mar unm a b \<and> texts mar" "relay_ok mar unm" for mar unm
  by unfold_locales (blast intro: relay_step_ok)

definition empty_relay :: "server_db \<Rightarrow> relay_conns \<Rightarrow> relay" where
  "empty_relay db cs = \<lparr>rl_commands = [], rl_messages = [], rl_store = db, rl_conns = cs, rl_trace = []\<rparr>"

lemma relay_ok_empty: "relay_ok mar unm (empty_relay db cs)"
  by (simp add: relay_ok_def empty_relay_def table_ok_def)

lemma relay_run_ok:
  assumes "(relay_step mar unm)\<^sup>*\<^sup>* (empty_relay db cs) rl" and "texts mar"
  shows "relay_ok mar unm rl"
proof (rule relay.steps_keep [of mar unm, OF _ relay_ok_empty])
  show "(\<lambda>a b. relay_step mar unm a b \<and> texts mar)\<^sup>*\<^sup>* (empty_relay db cs) rl" using assms by simp
qed


text \<open>C11. 
  Register before forwarding.  In every run, a \<open>send_prompt\<close> frame that was written to a daemon
  (for the first time, after a retry or again because the daemon had not seen it) has a
  row in the command table for that device: in the open form with the frame's client message id,
  session and prompt, in the sealed form with the envelope the frame was written to or read from.
\<close>

theorem forwarded_is_registered:
  assumes "(relay_step mar unm)\<^sup>*\<^sup>* (empty_relay db cs) rl" and "texts mar"
    and "ToDaemon d m res \<in> set (rl_trace rl)" and "nm_Type m = MsgSendPrompt"
  shows "\<exists>cid row. map_of (rl_commands rl) (d, cid) = Some row
    \<and> (nm_SealedPayload m = None \<and> client_id m = cid \<and> nm_SessionID m = cmd_SessionID row
         \<and> field (nm_Payload m) ''prompt'' = Some (JString (cmd_Prompt row))
       \<or> (\<exists>m0 mode. m \<in> {m0, stampEnvelope mode m0}
            \<and> (mar m0 = Some (cmd_SealedEnvelopeJSON row) \<or> unm (cmd_SealedEnvelopeJSON row) = Some m0)))"
proof -
  obtain i where "i < length (rl_trace rl)" "rl_trace rl ! i = ToDaemon d m res"
    using assms(3) by (auto simp: in_set_conv_nth)
  then have "event_ok mar unm (rl_commands rl) (take i (rl_trace rl)) (ToDaemon d m res)"
    using relay_run_ok [OF assms(1,2)] unfolding relay_ok_def trace_ok_def by metis
  then show ?thesis using assms(4) unfolding event_ok.simps registered_def by blast
qed

end
