(* ===== verification/Relay_Modes.thy ===== *)
theory Relay_Modes
  imports Relay_Safety
begin

text \<open>
  Further properties of the relay's handlers: what a failed write to a daemon leaves behind,
  that the replay of commits ends, what a phone gets from the stored history, and what the
  sealed mode keeps out of the server's tables.
\<close>

section \<open>A write that failed\<close>

lemma set_indeterminate_row:
  assumes "map_of t k = Some r"
  shows "\<exists>r'. map_of (fst (run_stmt (SetIndeterminate now msg k) t)) k = Some r'
    \<and> cmd_Status r' \<in> {PromptIndeterminate, PromptAccepted}"
  using assms by (cases "cmd_Status r") (auto simp: update_where_def)

lemma unretryable_later:
  "cmd_Status r \<in> {PromptIndeterminate, PromptAccepted} \<Longrightarrow> later r r' \<Longrightarrow>
   cmd_Status r' \<in> {PromptIndeterminate, PromptAccepted}"
  by (auto simp: later_def)

lemma mark_indeterminate:
  assumes "map_of t (d, i) = Some r"
    and "MarkPromptFailed run d i msg ''indeterminate'' retry t = (t', c, b, e)"
  shows "\<not> dr_fails run 0 \<Longrightarrow> \<exists>row. map_of t' (d, i) = Some row \<and> cmd_Status row \<in> {PromptIndeterminate, PromptAccepted}"
    and "c = Some failed \<Longrightarrow> e = None \<Longrightarrow> cmd_Status failed \<in> {PromptIndeterminate, PromptAccepted}"
proof -
  let ?s = "SetIndeterminate (dr_now run 0) msg (d, i)"
  let ?u = "run_stmts (dr_others run 0) t"
  obtain u a where x: "exec_stmt run 0 ?s t = (u, a)" by fastforce
  have res: "promptTransitionResult run d i (u, a) = (t', c, b, e)"
    using assms(2) x by (simp add: MarkPromptFailed_def Let_def)
  obtain r1 where r1: "map_of ?u (d, i) = Some r1" using run_stmts_later [OF assms(1)] by blast
  have row: "\<exists>row. map_of u (d, i) = Some row \<and> cmd_Status row \<in> {PromptIndeterminate, PromptAccepted}"
    if "\<not> dr_fails run 0"
    using set_indeterminate_row [OF r1, of "dr_now run 0" msg] x that
    by (auto simp: exec_stmt_def Let_def split: prod.splits if_splits)
  have later: "reaches u t'"
    using res reaches_get [of u run 2 d i]
    by (auto simp: promptTransitionResult_def split: sum.splits prod.splits)
  show final: "\<exists>row. map_of t' (d, i) = Some row \<and> cmd_Status row \<in> {PromptIndeterminate, PromptAccepted}"
    if "\<not> dr_fails run 0"
    using row [OF that] reaches_later [OF later] unretryable_later by meson
  show "cmd_Status failed \<in> {PromptIndeterminate, PromptAccepted}" if "c = Some failed" "e = None"
  proof -
    have "\<not> dr_fails run 0"
      using res x that by (auto simp: exec_stmt_def promptTransitionResult_def Let_def split: if_splits prod.splits)
    moreover have "map_of t' (d, i) = Some failed" using transition_stored res that by blast
    ultimately show ?thesis using final by auto
  qed
qed

lemma failed_write_marked:
  assumes "map_of (rl_commands rl) (dev, cid) = Some r" and "mark_forward_failed env cmd dev cid SendFailed rl = (rl', failed)"
  shows "cmd_Status failed \<in> {PromptIndeterminate, PromptAccepted}"
    and "\<not> dr_fails (re_db env 1) 0 \<Longrightarrow> \<exists>row. map_of (rl_commands rl') (dev, cid) = Some row
      \<and> cmd_Status row \<in> {PromptIndeterminate, PromptAccepted}"
    and "rl_trace rl' = rl_trace rl"
proof -
  let ?msg = "''prompt delivery outcome is indeterminate''"
  obtain t c b e where m: "MarkPromptFailed (re_db env 1) dev cid ?msg ''indeterminate'' False (rl_commands rl) = (t, c, b, e)"
    by (cases "MarkPromptFailed (re_db env 1) dev cid ?msg ''indeterminate'' False (rl_commands rl)") auto
  have f: "forward_failure SendFailed = (''indeterminate'', False, ?msg)" by (simp add: forward_failure_def)
  have rl': "rl' = rl\<lparr>rl_commands := t\<rparr>"
    and failed: "c = Some failed \<and> e = None \<or> cmd_Status failed = PromptIndeterminate"
    using assms(2) unfolding mark_forward_failed_def f m prod.case by (auto split: option.splits)
  note ind = mark_indeterminate [OF assms(1) m]
  show "cmd_Status failed \<in> {PromptIndeterminate, PromptAccepted}" using failed ind(2) by blast
  show "\<exists>row. map_of (rl_commands rl') (dev, cid) = Some row \<and> cmd_Status row \<in> {PromptIndeterminate, PromptAccepted}"
    if "\<not> dr_fails (re_db env 1) 0" using ind(1) [OF that] by (simp add: rl')
  show "rl_trace rl' = rl_trace rl" by (simp add: rl')
qed

text \<open>The frames to phones that say a prompt failed and may be retried.\<close>

fun retry_offer :: "relay_event \<Rightarrow> bool" where
  "retry_offer (ToPhones d m) \<longleftrightarrow> nm_Type m = MsgPromptFailed \<and> nm_RetryAllowed m \<noteq> Some False"
| "retry_offer _ \<longleftrightarrow> False"

definition offers :: "relay \<Rightarrow> relay_event list" where
  "offers rl = filter retry_offer (rl_trace rl)"

lemma offers_simps [simp]:
  "offers (note_event e rl) = offers rl @ (if retry_offer e then [e] else [])"
  "offers (broadcast env d m rl) = offers rl @ (if retry_offer (ToPhones d m) then [ToPhones d m] else [])"
  "offers (rl\<lparr>rl_commands := t\<rparr>) = offers rl"
  "offers (rl\<lparr>rl_messages := ms\<rparr>) = offers rl"
  by (simp_all add: offers_def)

lemma offers_failed: "cmd_Status cmd \<noteq> PromptFailed \<Longrightarrow> offers (broadcastPromptFailed env cmd rl) = offers rl"
  by (simp add: broadcastPromptFailed_def Let_def)

lemma offers_sent [simp]: "offers (broadcastPromptSent env cmd rl) = offers rl"
  by (simp add: broadcastPromptSent_def)

lemma offers_persist [simp]: "offers (fst (persistAcceptedPrompt env n cmd rl)) = offers rl"
  by (rule save_message_cases [of env n "cmd_DeviceID cmd" "cmd_SessionID cmd" "accepted_message env cmd" rl])
    (simp_all add: persistAcceptedPrompt_def)

lemma persist_commands [simp]: "rl_commands (fst (persistAcceptedPrompt env n cmd rl)) = rl_commands rl"
  by (simp add: persistAcceptedPrompt_def)

lemma offers_committed [simp]: "offers (sendPromptCommitted env n k cmd rl) = offers rl"
  unfolding sendPromptCommitted_def Let_def send_def
  by (cases "re_send env n") (auto split: prod.split option.split)

lemma failed_commands [simp]:
  "rl_commands (broadcastPromptFailed env cmd rl) = rl_commands rl"
  "rl_commands (broadcastPromptSent env cmd rl) = rl_commands rl"
  by (simp_all add: broadcastPromptFailed_def broadcastPromptSent_def Let_def)

lemma committed_reaches: "reaches (rl_commands rl) (rl_commands (sendPromptCommitted env n k cmd rl))"
  using reaches_committed [of "rl_commands rl" "re_db env k" "cmd_DeviceID cmd" "cmd_ClientMsgID cmd"]
  unfolding sendPromptCommitted_def Let_def send_def
  by (cases "re_send env n") (auto split: prod.split option.split)


section \<open>The replay of commits ends\<close>

definition waiting :: "string \<Rightarrow> command_table \<Rightarrow> command_key set" where
  "waiting dev t = {k. fst k = dev \<and> (\<exists>r. map_of t k = Some r \<and> cmd_Status r = PromptAccepted \<and> \<not> cmd_CommitSent r)}"

fun accepts :: "string \<Rightarrow> statement \<Rightarrow> bool" where
  "accepts dev (SetAccepted now k) \<longleftrightarrow> fst k = dev"
| "accepts dev _ \<longleftrightarrow> False"

lemma waiting_stmt: "\<not> accepts dev s \<Longrightarrow> waiting dev (fst (run_stmt s t)) \<subseteq> waiting dev t"
  by (cases s) (auto simp: waiting_def update_where_def insert_or_ignore_def split: option.splits if_splits)

lemma waiting_stmts: "\<forall>s \<in> set ss. \<not> accepts dev s \<Longrightarrow> waiting dev (run_stmts ss t) \<subseteq> waiting dev t"
proof (induction ss arbitrary: t)
  case (Cons s ss)
  then show ?case using waiting_stmt [of dev s t] by fastforce
qed simp

lemma waiting_finite: "finite (waiting dev t)" "card (waiting dev t) \<le> length t"
proof -
  have sub: "waiting dev t \<subseteq> fst ` set t" by (force simp: waiting_def dest: map_of_SomeD)
  then show "finite (waiting dev t)" by (rule finite_subset) simp
  have "card (waiting dev t) \<le> card (fst ` set t)" using sub by (simp add: card_mono)
  also have "\<dots> \<le> length t" by (metis card_length length_map set_map)
  finally show "card (waiting dev t) \<le> length t" .
qed

lemma waiting_uncommitted:
  assumes "table_ok t"
  shows "uncommitted dev t = [] \<longleftrightarrow> waiting dev t = {}"
proof -
  have "k \<in> waiting dev t \<longleftrightarrow> (\<exists>r \<in> set (uncommitted dev t). k = (dev, cmd_ClientMsgID r))" for k
  proof
    assume "k \<in> waiting dev t"
    then obtain r where r: "fst k = dev" "map_of t k = Some r" "cmd_Status r = PromptAccepted" "\<not> cmd_CommitSent r"
      by (auto simp: waiting_def)
    then have "command_key r = k" using table_ok_lookup [OF assms] by (auto simp: row_ok_def)
    then show "\<exists>r \<in> set (uncommitted dev t). k = (dev, cmd_ClientMsgID r)"
      using r uncommitted_mem [OF assms, of r dev] by (cases k) auto
  qed (use uncommitted_mem [OF assms] in \<open>auto simp: waiting_def\<close>)
  then have "waiting dev t = (\<lambda>r. (dev, cmd_ClientMsgID r)) ` set (uncommitted dev t)" by blast
  then show ?thesis by simp
qed

lemma sort_nil: "sort_key f xs = [] \<longleftrightarrow> xs = []"
  by (metis length_0_conv length_sort)

text \<open>Marking a command as committed takes it out of the set; a whole batch takes its first one out.\<close>

definition quiet_env :: "relay_env \<Rightarrow> string \<Rightarrow> bool" where
  "quiet_env env dev \<longleftrightarrow> (\<forall>k n. \<forall>s \<in> set (dr_others (re_db env k) n). \<not> accepts dev s)"

lemma mark_committed_waiting:
  assumes "MarkPromptCommitted run d i t = (t', e)" and "\<forall>s \<in> set (dr_others run 0). \<not> accepts d s"
  shows "waiting d t' \<subseteq> waiting d t" and "e = None \<Longrightarrow> (d, i) \<notin> waiting d t'"
proof -
  let ?u = "run_stmts (dr_others run 0) t"
  have sub: "waiting d ?u \<subseteq> waiting d t" by (rule waiting_stmts [OF assms(2)])
  show "waiting d t' \<subseteq> waiting d t"
    using assms(1) sub waiting_stmt [of d "SetCommitted (dr_now run 0) (d, i)" ?u]
    by (auto simp: MarkPromptCommitted_def Let_def simp del: run_stmt.simps split: if_splits)
  show "(d, i) \<notin> waiting d t'" if "e = None"
    using assms(1) that
    by (auto simp: MarkPromptCommitted_def waiting_def update_where_def Let_def split: if_splits option.splits)
qed

lemma persist_trace_commands:
  "persistAcceptedPrompt env n cmd rl = (rl', b) \<Longrightarrow> rl_commands rl' = rl_commands rl"
  using persist_commands [of env n cmd rl] by simp

lemma replay_batch_waiting:
  assumes "quiet_env env dev" and "\<forall>cmd \<in> set cmds. cmd_DeviceID cmd = dev"
    and "replay_batch env k dev cmds rl = (rl', b)"
  shows "waiting dev (rl_commands rl') \<subseteq> waiting dev (rl_commands rl)"
    and "b \<Longrightarrow> cmd \<in> set cmds \<Longrightarrow> (dev, cmd_ClientMsgID cmd) \<notin> waiting dev (rl_commands rl')"
    and "b \<or> (\<exists>n. re_save_fails env n \<or> re_send env n \<noteq> SendOK \<or> dr_fails (re_db env n) 0)"
proof -
  have "waiting dev (rl_commands rl') \<subseteq> waiting dev (rl_commands rl)
      \<and> (b \<longrightarrow> (\<forall>cmd \<in> set cmds. (dev, cmd_ClientMsgID cmd) \<notin> waiting dev (rl_commands rl')))
      \<and> (b \<or> (\<exists>n. re_save_fails env n \<or> re_send env n \<noteq> SendOK \<or> dr_fails (re_db env n) 0))"
    using assms(2,3)
  proof (induction cmds arbitrary: k rl)
    case (Cons c cmds)
    obtain rl1 b1 where p: "persistAcceptedPrompt env k c rl = (rl1, b1)" by fastforce
    note pc = persist_trace_commands [OF p]
    have saved: "re_save_fails env k" if "\<not> b1"
      using p that by (auto simp: persistAcceptedPrompt_def save_message_def SaveMessage_def split: if_splits)
    let ?m = "stampEnvelope (re_mode env) (promptCommittedMessage (re_now env) c)"
    let ?r = "note_event (ToDaemon dev ?m (re_send env k)) rl1"
    obtain t e where t: "MarkPromptCommitted (re_db env k) dev (cmd_ClientMsgID c) (rl_commands rl) = (t, e)" by fastforce
    have dev: "cmd_DeviceID c = dev" using Cons.prems(1) by simp
    have q: "\<forall>s \<in> set (dr_others (re_db env k) 0). \<not> accepts dev s" using assms(1) by (simp add: quiet_env_def)
    note w = mark_committed_waiting [OF t q]
    have fails: "dr_fails (re_db env k) 0" if "e \<noteq> None"
      using t that by (auto simp: MarkPromptCommitted_def Let_def split: if_splits)
    show ?case
    proof (cases "b1 \<and> re_send env k = SendOK \<and> e = None")
      case True
      then have "replay_batch env (Suc k) dev cmds (?r\<lparr>rl_commands := t\<rparr>) = (rl', b)"
        using Cons.prems(2) p t dev pc by (simp add: send_def)
      note ih = Cons.IH [OF _ this]
      then show ?thesis using Cons.prems(1) w True by auto
    next
      case False
      then have "rl_commands rl' \<in> {rl_commands rl, t}" and "\<not> b"
        using Cons.prems(2) p t dev pc by (auto simp: send_def split: bool.splits send_result.splits option.splits)
      then show ?thesis using w(1) False saved fails by auto
    qed
  qed auto
  then show "waiting dev (rl_commands rl') \<subseteq> waiting dev (rl_commands rl)"
    and "b \<Longrightarrow> cmd \<in> set cmds \<Longrightarrow> (dev, cmd_ClientMsgID cmd) \<notin> waiting dev (rl_commands rl')"
    and "b \<or> (\<exists>n. re_save_fails env n \<or> re_send env n \<noteq> SendOK \<or> dr_fails (re_db env n) 0)" by blast+
qed

definition faultless :: "relay_env \<Rightarrow> bool" where
  "faultless env \<longleftrightarrow> (\<forall>n. \<not> re_save_fails env n \<and> re_send env n = SendOK
     \<and> \<not> dr_fails (re_db env n) 0 \<and> \<not> dr_fails (re_db env n) 1)"

lemma replay_ends:
  assumes "relay_ok mar unm rl" and "quiet_env env dev" and "card (waiting dev (rl_commands rl)) < fuel"
  shows "\<exists>rl'. replayPromptCommits fuel env k dev rl = Some rl'
    \<and> (faultless env \<longrightarrow> waiting dev (rl_commands rl') = {})"
  using assms(1,3)
proof (induction fuel arbitrary: k rl)
  case (Suc fuel)
  have tab: "table_ok (rl_commands rl)" using Suc.prems(1) by (simp add: relay_ok_def)
  show ?case
  proof (cases "ListUncommittedAcceptedPrompts (re_db env k) dev 100 (rl_commands rl)")
    case (Inl e)
    then have "\<not> faultless env"
      by (auto simp: ListUncommittedAcceptedPrompts_def faultless_def Let_def split: if_splits)
    then show ?thesis by (simp add: Inl)
  next
    case (Inr cmds)
    show ?thesis
    proof (cases cmds)
      case Nil
      then have "uncommitted dev (rl_commands rl) = []"
        using Inr by (auto simp: ListUncommittedAcceptedPrompts_def Let_def sort_nil split: if_splits)
      then show ?thesis using waiting_uncommitted [OF tab] by (simp add: Inr Nil)
    next
      case (Cons c cs)
      obtain rl1 b where r: "replay_batch env (Suc k) dev cmds rl = (rl1, b)" by fastforce
      have dev: "\<forall>cmd \<in> set cmds. cmd_DeviceID cmd = dev" using listed_rows(3) [OF Inr tab] by blast
      note w = replay_batch_waiting [OF assms(2) dev r]
      have acc: "\<forall>cmd \<in> set cmds. accepted_row rl cmd \<and> cmd_DeviceID cmd = dev"
        using accepted_row_read [OF Suc.prems(1) listed_rows(1) [OF Inr tab] listed_rows(2) [OF Inr tab]] dev by blast
      have ok: "relay_ok mar unm rl1" using replay_batch_ok [OF Suc.prems(1) acc, of env "Suc k"] r by simp
      have mem: "c \<in> set cmds" and ne: "cmds \<noteq> []" using Cons by simp_all
      have here: "(dev, cmd_ClientMsgID c) \<in> waiting dev (rl_commands rl)"
        using listed_rows [OF Inr tab mem] by (auto simp: waiting_def)
      show ?thesis
      proof (cases b)
        case False
        then have "\<not> faultless env" using w(3) by (auto simp: faultless_def)
        then show ?thesis using False by (simp add: Inr r ne)
      next
        case True
        have "waiting dev (rl_commands rl1) \<subset> waiting dev (rl_commands rl)"
          using w(1) w(2) [OF True mem] here by blast
        then have "card (waiting dev (rl_commands rl1)) < card (waiting dev (rl_commands rl))"
          by (rule psubset_card_mono [OF waiting_finite(1)])
        then have "card (waiting dev (rl_commands rl1)) < fuel" using Suc.prems(2) by simp
        then show ?thesis using Suc.IH [OF ok, of "k + 1 + length cmds"] True by (simp add: Inr r ne)
      qed
    qed
  qed
qed simp

text \<open>C31. 
  The replay returns.  When a daemon connects, the loop that re-sends commits returns after at most
  as many rounds as the table has rows, plus one, whatever fails; the only condition is that
  no other goroutine accepts commands of this device meanwhile (its frames are read only after
  the replay).  When nothing fails, no accepted command of the device is left uncommitted.
\<close>

theorem replay_terminates:
  assumes "relay_ok mar unm rl" and "quiet_env env dev"
  shows "\<exists>rl'. replayPromptCommits (Suc (length (rl_commands rl))) env k dev rl = Some rl'
    \<and> (faultless env \<longrightarrow> uncommitted dev (rl_commands rl') = [])"
proof -
  have "card (waiting dev (rl_commands rl)) < Suc (length (rl_commands rl))"
    using waiting_finite(2) [of dev "rl_commands rl"] by simp
  from replay_ends [OF assms this, of k] obtain rl' where
    rl': "replayPromptCommits (Suc (length (rl_commands rl))) env k dev rl = Some rl'"
    "faultless env \<longrightarrow> waiting dev (rl_commands rl') = {}" by blast
  have "table_ok (rl_commands rl')" using replay_ok [OF assms(1) rl'(1)] by (simp add: relay_ok_def)
  then show ?thesis using rl' waiting_uncommitted by blast
qed

section \<open>History for a phone whose daemon is offline\<close>

lemma daemon_offline_history:
  assumes "re_send env 0 \<noteq> SendOK" and "re_mode env \<noteq> TransportSealed" and "\<not> re_query_fails env"
    and "nm_Type msg = MsgFetchHistory"
    and rows: "GetMessages (re_codec env) False (re_visit env) dev (nm_SessionID msg)
      (historyLimit (nm_Payload msg) + 1) (rl_messages rl) = Inr rows"
  shows "\<exists>f. rl_trace (handlePhoneMessage env dev msg rl) = rl_trace rl @
      [f, ToPhones dev (history_answer env dev (nm_SessionID msg) (historyLimit (nm_Payload msg)) rows)]"
  using assms by (cases "re_send env 0")
    (auto simp: handlePhoneMessage_def handle_fetch_history_def Let_def send_def)

text \<open>
  The stored history.  When the daemon cannot be reached and the nest is not sealed, a history
  request is answered to the phones with stored messages of that session: as many as asked for,
  between 1 and 500, the newest ones, in chronological order, and the flag \<open>truncated\<close> is set exactly
  when the table holds more.
\<close>

theorem offline_history_answer:
  assumes "re_send env 0 \<noteq> SendOK" and "re_mode env \<noteq> TransportSealed" and "\<not> re_query_fails env"
    and "nm_Type msg = MsgFetchHistory" and "\<forall>xs. mset (re_visit env xs) = mset xs"
  shows "\<exists>f m rows limit truncated.
    rl_trace (handlePhoneMessage env dev msg rl) = rl_trace rl @ [f, ToPhones dev m]
    \<and> nm_Type m = MsgSessionHistory \<and> nm_SessionID m = nm_SessionID msg
    \<and> nm_Payload m = Some [(''source'', JString ''server_db''), (''truncated'', JBool truncated),
         (''limit'', JNumber (of_int limit)), (''messages'', JArray (map (re_message_json env) rows))]
    \<and> 1 \<le> limit \<and> limit \<le> 500 \<and> int (length rows) \<le> limit
    \<and> truncated = (limit < int (length (session_rows dev (nm_SessionID msg) (rl_messages rl))))
    \<and> sorted (map sm_Timestamp rows)
    \<and> (\<exists>rest. mset (map (scan_message (re_codec env)) (session_rows dev (nm_SessionID msg) (rl_messages rl)))
              = mset rows + mset rest
         \<and> (\<forall>x \<in> set rest. \<forall>y \<in> set rows. sm_Timestamp x \<le> sm_Timestamp y))"
proof -
  let ?l = "historyLimit (nm_Payload msg)"
  let ?all = "session_rows dev (nm_SessionID msg) (rl_messages rl)"
  have l: "1 \<le> ?l" "?l \<le> 500" by (rule historyLimit_range)+
  obtain rows where g: "GetMessages (re_codec env) False (re_visit env) dev (nm_SessionID msg) (?l + 1) (rl_messages rl) = Inr rows"
    by (simp add: GetMessages_def Let_def)
  obtain f where tr: "rl_trace (handlePhoneMessage env dev msg rl) = rl_trace rl @
      [f, ToPhones dev (history_answer env dev (nm_SessionID msg) ?l rows)]"
    using daemon_offline_history [OF assms(1-4) g] by blast
  note n = newest_messages [OF assms(5) g]
  have len: "length rows = min (nat (?l + 1)) (length ?all)" using n l by simp
  define cut where "cut = length rows - nat ?l"
  have trunc: "truncateHistory rows ?l = (drop cut rows, ?l < int (length ?all))"
    using truncateHistory_newest [OF l(1), of rows] len l by (simp add: cut_def) linarith
  obtain rest where rest: "mset (map (scan_message (re_codec env)) ?all) = mset rows + mset rest"
    "\<forall>x \<in> set rest. \<forall>y \<in> set rows. sm_Timestamp x \<le> sm_Timestamp y" using n by blast
  have srt: "sorted (map sm_Timestamp (take cut rows) @ map sm_Timestamp (drop cut rows))"
    using n by (metis append_take_drop_id map_append)
  then have old: "\<forall>x \<in> set (take cut rows). \<forall>y \<in> set (drop cut rows). sm_Timestamp x \<le> sm_Timestamp y"
    unfolding sorted_append by auto
  have split: "mset (map (scan_message (re_codec env)) ?all) = mset (drop cut rows) + mset (take cut rows @ rest)"
    using rest(1) by (metis append_take_drop_id mset_append add.commute add.assoc)
  have "\<forall>x \<in> set (take cut rows @ rest). \<forall>y \<in> set (drop cut rows). sm_Timestamp x \<le> sm_Timestamp y"
    using old rest(2) by (auto dest: in_set_dropD)
  then show ?thesis
    using tr l split srt trunc
    by (intro exI [of _ f] exI [of _ "history_answer env dev (nm_SessionID msg) ?l rows"] exI [of _ "drop cut rows"]
          exI [of _ ?l] exI [of _ "?l < int (length ?all)"] conjI exI [of _ "take cut rows @ rest"])
      (auto simp: history_answer_def sorted_append cut_def)
qed

section \<open>Frames of a sealed nest\<close>

lemma sealed_application:
  assumes "ValidateFrameForTransport (Some msg) TransportSealed = None" and "BodyPolicy (nm_Type msg) = MessageBodyApplication"
    and "nm_Type msg \<notin> {MsgPromptFailed, MsgThreadFailed, MsgThreadIndeterminate}"
  shows "nm_SealedPayload msg \<noteq> None \<and> nm_Payload msg = None \<and> nm_TransportMode msg = TransportSealed"
  using assms by (auto simp: ValidateFrameForTransport_def ValidateEnvelopeForm_def isSealedFailClosedRouting_def Let_def
      split: if_splits)

text \<open>
  History of a sealed nest.  A valid sealed \<open>fetch_history\<close> frame is forwarded with a plain payload
  added to its sealed one (the limit the relay writes into it).  The frame the daemon
  receives is not a valid frame any more: it carries both bodies.
\<close>

theorem sealed_history_frame_invalid:
  assumes "ValidateFrameForTransport (Some msg) TransportSealed = None" and "nm_Type msg = MsgFetchHistory"
  shows "\<exists>f res more. rl_trace (handlePhoneMessage env dev msg rl) = rl_trace rl @ ToDaemon dev f res # more
    \<and> nm_SealedPayload f = nm_SealedPayload msg
    \<and> ValidateFrameForTransport (Some f) TransportSealed = Some BothPayloads"
proof -
  let ?f = "msg\<lparr>nm_DeviceID := dev,
      nm_Payload := set_field ''limit'' (JNumber (of_int (historyLimit (nm_Payload msg)))) (nm_Payload msg)\<rparr>"
  have sealed: "nm_SealedPayload msg \<noteq> None" using sealed_application [OF assms(1)] assms(2) by (simp add: BodyPolicy_def)
  have "\<exists>more. rl_trace (handlePhoneMessage env dev msg rl) = rl_trace rl @ ToDaemon dev ?f (re_send env 0) # more"
    using assms(2) by (cases "re_send env 0")
      (auto simp: handlePhoneMessage_def handle_fetch_history_def Let_def send_def offline_error_def split: sum.split)
  moreover have "ValidateFrameForTransport (Some ?f) TransportSealed = Some BothPayloads"
    using sealed by (simp add: ValidateFrameForTransport_def ValidateEnvelopeForm_def set_field_def)
  ultimately show ?thesis by fastforce
qed

text \<open>
  A rejected sealed prompt.  When a valid sealed prompt has no client message id, the relay answers
  the phones with a \<open>prompt_failed\<close> frame that the protocol's own validation refuses: it has neither
  a sealed body nor an id to correlate it with.
\<close>

theorem sealed_rejection_frame_invalid:
  assumes "ValidateFrameForTransport (Some msg) TransportSealed = None" and "nm_Type msg = MsgSendPrompt"
    and "re_mode env = TransportSealed" and "TrimSpace (nm_ClientMsgID msg) = []"
  shows "\<exists>f. rl_trace (handlePhoneMessage env dev msg rl) = rl_trace rl @ [ToPhones dev f]
    \<and> nm_Type f = MsgPromptFailed
    \<and> ValidateFrameForTransport (Some f) TransportSealed = Some (SealedPayloadRequired MsgPromptFailed)"
proof -
  have s: "nm_SealedPayload msg \<noteq> None" "nm_Payload msg = None"
    using sealed_application [OF assms(1)] assms(2) by (auto simp: BodyPolicy_def)
  have cid: "sanitizeClientMsgID [] = []" by (simp add: sanitizeClientMsgID_def Let_def)
  have v: "\<exists>p. ParseProtocolVersion CurrentProtocolVersion = Inr p \<and> vp_Major p = CurrentProtocolMajor"
    using current_version_parses by (auto simp: CurrentProtocolMajor_def)
  have valid: "ValidateFrameForTransport (Some (stampEnvelope TransportSealed (NewMessageWithSession now MsgPromptFailed dev s)
      \<lparr>nm_ClientMsgID := [], nm_Outcome := out, nm_RetryAllowed := r\<rparr>)) TransportSealed
      = Some (SealedPayloadRequired MsgPromptFailed)" for now s out r
    using v by (auto simp: ValidateFrameForTransport_def ValidateEnvelopeForm_def isSealedFailClosedRouting_def
        stampEnvelope_def NewMessageWithSession_def NewMessage_def BodyPolicy_def CurrentProtocolVersion_def Let_def)
  show ?thesis
    using assms(2-4) s valid
    by (auto simp: handlePhoneMessage_def handleSealedPrompt_def broadcastPromptFailure_def broadcastPromptFailed_def cid Let_def)
qed

section \<open>What a sealed nest stores\<close>

definition opaque_commands :: "command_table \<Rightarrow> bool" where
  "opaque_commands t \<longleftrightarrow> (\<forall>k r. map_of t k = Some r \<longrightarrow> cmd_Prompt r = [] \<and> cmd_SealedEnvelopeJSON r \<noteq> [])"

fun sealed_stmt :: "statement \<Rightarrow> bool" where
  "sealed_stmt (InsertOrIgnore now c) \<longleftrightarrow> cmd_Prompt c = [] \<and> cmd_SealedEnvelopeJSON c \<noteq> []"
| "sealed_stmt _ \<longleftrightarrow> True"

definition sealed_run :: "db_run \<Rightarrow> bool" where
  "sealed_run run \<longleftrightarrow> (\<forall>n. \<forall>s \<in> set (dr_others run n). sealed_stmt s)"

lemma opaque_stmt: "opaque_commands t \<Longrightarrow> sealed_stmt s \<Longrightarrow> opaque_commands (fst (run_stmt s t))"
  by (cases s) (auto simp: opaque_commands_def update_where_def insert_or_ignore_def split: option.splits)

lemma opaque_stmts: "opaque_commands t \<Longrightarrow> \<forall>s \<in> set ss. sealed_stmt s \<Longrightarrow> opaque_commands (run_stmts ss t)"
  by (induction ss arbitrary: t) (simp_all add: opaque_stmt del: sealed_stmt.simps)

lemma opaque_others: "opaque_commands t \<Longrightarrow> sealed_run run \<Longrightarrow> opaque_commands (run_stmts (dr_others run n) t)"
  by (simp add: opaque_stmts sealed_run_def)

lemma opaque_exec:
  assumes "opaque_commands t" and "sealed_run run" and "sealed_stmt s"
  shows "opaque_commands (fst (exec_stmt run n s t))"
  using opaque_others [OF assms(1,2), of n] opaque_stmt [OF _ assms(3)]
  by (auto simp: exec_stmt_def Let_def split: prod.split) (metis fst_conv)

lemma opaque_get: "opaque_commands t \<Longrightarrow> sealed_run run \<Longrightarrow> opaque_commands (fst (GetPromptCommand run n d i t))"
  by (simp add: GetPromptCommand_def Let_def opaque_others)

lemma opaque_result:
  assumes "opaque_commands (fst x)" and "sealed_run run"
  shows "opaque_commands (fst (promptTransitionResult run d i x))"
proof -
  have "fst (promptTransitionResult run d i x) \<in> {fst x, fst (GetPromptCommand run 2 d i (fst x))}"
    by (cases x) (auto simp: promptTransitionResult_def split: sum.split prod.split)
  then show ?thesis using assms opaque_get by auto
qed

lemma opaque_marks:
  assumes "opaque_commands t" and "sealed_run run"
  shows "opaque_commands (fst (MarkPromptForwarded run d i t))"
    and "opaque_commands (fst (MarkPromptAccepted run d i t))"
    and "opaque_commands (fst (MarkPromptFailed run d i msg outcome retry t))"
    and "opaque_commands (fst (MarkPromptCommitted run d i t))"
  using assms opaque_stmt [OF opaque_others [OF assms, of 0], of "SetCommitted (dr_now run 0) (d, i)"]
  by (simp_all add: MarkPromptForwarded_def MarkPromptAccepted_def MarkPromptFailed_def MarkPromptCommitted_def Let_def
      opaque_result opaque_exec opaque_others del: run_stmt.simps)

lemma opaque_register:
  assumes "opaque_commands t" and "sealed_run run" and "cmd_Prompt c = []" and "cmd_SealedEnvelopeJSON c \<noteq> []"
  shows "opaque_commands (fst (RegisterPromptCommand run (Some c) retry t))"
proof -
  let ?e = "fst (exec_stmt run 0 (InsertOrIgnore (dr_now run 0) c) t)"
  let ?g = "fst (GetPromptCommand run 2 (cmd_DeviceID c) (cmd_ClientMsgID c) ?e)"
  let ?x = "fst (exec_stmt run 3 (ClaimRetry (dr_now run 3) (command_key c)) ?g)"
  let ?h = "fst (GetPromptCommand run 5 (cmd_DeviceID c) (cmd_ClientMsgID c) ?x)"
  have e: "opaque_commands ?e" using opaque_exec [OF assms(1,2)] assms(3,4) by simp
  have g: "opaque_commands ?g" by (rule opaque_get [OF e assms(2)])
  have x: "opaque_commands ?x" using opaque_exec [OF g assms(2)] by simp
  have h: "opaque_commands ?h" by (rule opaque_get [OF x assms(2)])
  have "fst (RegisterPromptCommand run (Some c) retry t) \<in> {t, ?e, ?g, ?x, ?h}"
    unfolding RegisterPromptCommand_def by (simp split: prod.split sum.split)
  then show ?thesis by (elim insertE) (simp_all add: assms(1) e g x h)
qed

definition opaque :: "relay \<Rightarrow> bool" where
  "opaque rl \<longleftrightarrow> opaque_commands (rl_commands rl) \<and> opaque_rows (rl_messages rl)"

definition sealed_env :: "relay_env \<Rightarrow> bool" where
  "sealed_env env \<longleftrightarrow> re_mode env = TransportSealed \<and> texts (re_marshal env) \<and> (\<forall>k. sealed_run (re_db env k))"

lemma opaque_simps [simp]:
  "opaque (note_event e rl) = opaque rl" "opaque (broadcast env d m rl) = opaque rl"
  "opaque (rl\<lparr>rl_store := db\<rparr>) = opaque rl" "opaque (rl\<lparr>rl_conns := cs\<rparr>) = opaque rl"
  "opaque (broadcastPromptFailed env cmd rl) = opaque rl"
  "opaque (broadcastPromptFailure env d s i why rl) = opaque rl"
  "opaque (broadcastPromptSent env cmd rl) = opaque rl"
  "opaque (fst (send env n d m rl)) = opaque rl"
  "opaque (offline_error env d s rl) = opaque rl"
  by (simp_all add: opaque_def broadcastPromptFailed_def broadcastPromptFailure_def broadcastPromptSent_def
      send_def offline_error_def Let_def)

lemma opaque_table: "opaque rl \<Longrightarrow> opaque_commands t \<Longrightarrow> opaque (rl\<lparr>rl_commands := t\<rparr>)"
  by (simp add: opaque_def)

lemma opaque_envD:
  assumes "sealed_env env"
  shows "sealed_run (re_db env k)" and "re_mode env = TransportSealed" and "re_marshal env m = Some w \<Longrightarrow> w \<noteq> []"
  using assms by (auto simp: sealed_env_def texts_def)

lemma opaque_committed:
  assumes "opaque rl" and "sealed_env env"
  shows "opaque (sendPromptCommitted env n k cmd rl)"
proof -
  let ?d = "cmd_DeviceID cmd" and ?i = "cmd_ClientMsgID cmd"
  obtain t e where t: "MarkPromptCommitted (re_db env k) ?d ?i (rl_commands rl) = (t, e)" by fastforce
  have "opaque_commands (fst (MarkPromptCommitted (re_db env k) ?d ?i (rl_commands rl)))"
    using opaque_marks(4) assms by (simp add: opaque_def opaque_envD)
  then have "opaque_commands t" by (simp add: t)
  then show ?thesis using assms(1) t unfolding sendPromptCommitted_def Let_def send_def
    by (cases "re_send env n"; cases e) (simp_all add: opaque_table)
qed

lemma opaque_marked:
  assumes "opaque rl" and "sealed_env env"
  shows "opaque (mark_forwarded env d i rl)" and "opaque (fst (mark_forward_failed env cmd d i res rl))"
proof -
  show "opaque (mark_forwarded env d i rl)"
    using assms opaque_marks(1) by (simp add: mark_forwarded_def opaque_table opaque_def opaque_envD)
  obtain outcome retry message where f: "forward_failure res = (outcome, retry, message)" by (cases "forward_failure res") auto
  obtain t c b e where m: "MarkPromptFailed (re_db env 1) d i message outcome retry (rl_commands rl) = (t, c, b, e)"
    by (cases "MarkPromptFailed (re_db env 1) d i message outcome retry (rl_commands rl)") auto
  have "opaque_commands (fst (MarkPromptFailed (re_db env 1) d i message outcome retry (rl_commands rl)))"
    using opaque_marks(3) [of "rl_commands rl" "re_db env 1"] assms by (simp only: opaque_def opaque_envD)
  then have "opaque (rl\<lparr>rl_commands := t\<rparr>)" unfolding m using opaque_table [OF assms(1)] by simp
  then show "opaque (fst (mark_forward_failed env cmd d i res rl))"
    unfolding mark_forward_failed_def f m prod.case by (cases c; cases e) simp_all
qed

lemma opaque_sealed_prompt:
  assumes "opaque rl" and "sealed_env env"
  shows "opaque (handleSealedPrompt env dev msg rl)"
proof -
  have reg: "opaque (register_sealed env dev cid m wire rl)" if "wire \<noteq> []" for cid m wire
  proof -
    let ?c = "prompt_command dev cid (nm_SessionID m) [] ''[]'' wire"
    obtain t c f e where r: "RegisterPromptCommand (re_db env 0) (Some ?c) False (rl_commands rl) = (t, c, f, e)"
      by (cases "RegisterPromptCommand (re_db env 0) (Some ?c) False (rl_commands rl)") auto
    have "opaque_commands (fst (RegisterPromptCommand (re_db env 0) (Some ?c) False (rl_commands rl)))"
      by (rule opaque_register) (use assms that in \<open>simp_all add: opaque_def opaque_envD prompt_command_def\<close>)
    then have ok: "opaque (rl\<lparr>rl_commands := t\<rparr>)" using opaque_table [OF assms(1)] by (simp add: r)
    have dup: "opaque (sealed_duplicate env dev cmd (rl\<lparr>rl_commands := t\<rparr>))" for cmd
      using ok opaque_committed [OF ok assms(2)] by (cases "cmd_Status cmd") (simp_all add: sealed_duplicate_def)
    have sent: "opaque (note_event ev (rl\<lparr>rl_commands := t\<rparr>))" for ev using ok by simp
    have fwd: "opaque (forward_sealed env dev cid m cmd (rl\<lparr>rl_commands := t\<rparr>))" for cmd
      using opaque_marked [OF sent assms(2)] opaque_committed [OF opaque_marked(2) [OF sent assms(2)] assms(2)]
      unfolding forward_sealed_def send_def
      by (cases "re_send env 0") (simp_all add: case_prod_beta)
    show ?thesis unfolding register_sealed_def register_prompt_def r
      using ok dup fwd by (cases c; cases e) simp_all
  qed
  show ?thesis
    using assms(1) reg opaque_envD(3) [OF assms(2)] unfolding handleSealedPrompt_def Let_def
    by (simp split: option.split)
qed

lemma opaque_phone:
  assumes "opaque rl" and "sealed_env env" and "ValidateFrameForTransport (Some msg) TransportSealed = None"
  shows "opaque (handlePhoneMessage env dev msg rl)"
proof -
  have sealed: "nm_SealedPayload msg \<noteq> None" if "nm_Type msg = MsgSendPrompt"
    using sealed_application [OF assms(3)] that by (simp add: BodyPolicy_def)
  have history: "opaque (handle_fetch_history env dev msg rl)"
    using assms(1) opaque_envD(2) [OF assms(2)] unfolding handle_fetch_history_def Let_def send_def
    by (cases "re_send env 0") simp_all
  have start: "opaque (handle_start_thread env dev msg rl)"
    using assms(1) unfolding handle_start_thread_def Let_def send_def by (cases "re_send env 0") simp_all
  have other: "opaque (relay_or_error env dev m rl)" for m
    using assms(1) unfolding relay_or_error_def send_def by (cases "re_send env 0") simp_all
  show ?thesis unfolding handlePhoneMessage_def Let_def
    by (intro if_keep [of _ opaque]) (use assms(1) sealed history start other opaque_sealed_prompt [OF assms(1,2)] in simp_all)
qed

lemma opaque_push [simp]: "opaque (sendPushNotification env d s txt rl) = opaque rl"
  unfolding sendPushNotification_def Let_def by (simp split: prod.split sum.split)

lemma opaque_approval [simp]: "opaque (approval_push env d m txt rl) = opaque rl"
  by (simp add: approval_push_def)

lemma opaque_daemon_commands:
  assumes "opaque rl" and "sealed_env env"
  shows "opaque (handle_prompt_not_seen env dev msg rl)" and "opaque (handle_prompt_failed env dev msg rl)"
    and "opaque (handle_prompt_accepted env dev msg rl)"
proof -
  let ?i = "promptClientMsgID (Some msg)"
  have oc: "opaque_commands (rl_commands rl)" using assms(1) by (simp add: opaque_def)
  obtain t res where g: "GetPromptCommand (re_db env 0) 0 dev ?i (rl_commands rl) = (t, res)" by fastforce
  have "opaque (rl\<lparr>rl_commands := t\<rparr>)"
    using opaque_get [OF oc opaque_envD(1) [OF assms(2)], of 0 0 dev ?i] opaque_table [OF assms(1)] by (simp add: g)
  then show "opaque (handle_prompt_not_seen env dev msg rl)"
    using assms(1) unfolding handle_prompt_not_seen_def Let_def g by (simp split: sum.split option.split)
  obtain failure outcome retry where f: "failure_report msg = (failure, outcome, retry)" by (cases "failure_report msg") auto
  obtain u c b e where m: "MarkPromptFailed (re_db env 0) dev ?i failure outcome retry (rl_commands rl) = (u, c, b, e)"
    by (cases "MarkPromptFailed (re_db env 0) dev ?i failure outcome retry (rl_commands rl)") auto
  have "opaque (rl\<lparr>rl_commands := u\<rparr>)"
    using opaque_marks(3) [OF oc opaque_envD(1) [OF assms(2)], of 0 dev ?i failure outcome retry] opaque_table [OF assms(1)]
    by (simp add: m)
  then show "opaque (handle_prompt_failed env dev msg rl)"
    using assms(1) unfolding handle_prompt_failed_def Let_def f m prod.case by (cases c; cases e) simp_all
  obtain v a h z where n: "MarkPromptAccepted (re_db env 0) dev ?i (rl_commands rl) = (v, a, h, z)"
    by (cases "MarkPromptAccepted (re_db env 0) dev ?i (rl_commands rl)") auto
  have ok: "opaque (rl\<lparr>rl_commands := v\<rparr>)"
    using opaque_marks(2) [OF oc opaque_envD(1) [OF assms(2)], of 0 dev ?i] opaque_table [OF assms(1)] by (simp add: n)
  have "cmd_SealedEnvelopeJSON cmd \<noteq> []" if "a = Some cmd" "z = None" for cmd
    using marked_stored(1) [of "re_db env 0" dev ?i "rl_commands rl" v cmd h] n ok that by (simp add: opaque_def opaque_commands_def)
  then have "persistAcceptedPrompt env 0 cmd (rl\<lparr>rl_commands := v\<rparr>) = (rl\<lparr>rl_commands := v\<rparr>, True)"
    if "a = Some cmd" "z = None" for cmd
    using that by (simp add: persistAcceptedPrompt_def)
  then show "opaque (handle_prompt_accepted env dev msg rl)"
    using assms(1) ok opaque_committed [OF ok assms(2)] unfolding handle_prompt_accepted_def Let_def n
    by (cases a; cases z) simp_all
qed

lemma opaque_daemon:
  assumes "opaque rl" and "sealed_env env" and "ValidateFrameForTransport (Some msg) TransportSealed = None"
  shows "opaque (handleDaemonMessage env r msg rl)"
proof -
  let ?d = "device_of (rc_daemons (rl_conns rl)) r"
  let ?m = "msg\<lparr>nm_DeviceID := ?d\<rparr>"
  have sealed: "nm_SealedPayload msg \<noteq> None" if "nm_Type msg \<in> {MsgSessionMessage, MsgSessionHistory}"
    using sealed_application [OF assms(3)] that by (auto simp: BodyPolicy_def)
  have list: "opaque (handle_session_list env r ?d ?m rl)"
    using assms(1) unfolding handle_session_list_def Let_def by (simp split: option.split)
  have saved: "opaque (rl\<lparr>rl_messages := fst (SaveSealedMessage c f d s m' (rl_messages rl))\<rparr>)" for c f d s m'
    using assms(1) SaveSealedMessage_opaque by (simp add: opaque_def)
  have message: "opaque (handle_session_message env ?d ?m rl)" if "nm_Type msg = MsgSessionMessage"
    using saved sealed that unfolding handle_session_message_def Let_def by simp
  have history: "opaque (handle_session_history env ?d ?m rl)" if "nm_Type msg = MsgSessionHistory"
    using assms(1) sealed that unfolding handle_session_history_def by simp
  have "opaque (fst (acceptAttentionEvent env ?d ?m rl))"
    using assms(1) unfolding acceptAttentionEvent_def Let_def by (simp split: option.split prod.split sum.split)
  then have attention: "opaque (case acceptAttentionEvent env ?d ?m rl of (rl, False) \<Rightarrow> rl
      | (rl, True) \<Rightarrow> sendPushNotification env ?d (nm_SessionID ?m) AttentionNeeded (broadcast env ?d ?m rl))"
    by (cases "acceptAttentionEvent env ?d ?m rl") (simp split: bool.split)
  show ?thesis unfolding handleDaemonMessage_def Let_def
    by (intro if_keep [of _ opaque])
      (use assms(1) list message history attention opaque_daemon_commands [OF assms(1,2), of ?d ?m] in simp_all)
qed

lemma opaque_batch:
  "opaque rl \<Longrightarrow> sealed_env env \<Longrightarrow> \<forall>cmd \<in> set cmds. cmd_SealedEnvelopeJSON cmd \<noteq> [] \<Longrightarrow>
   opaque (fst (replay_batch env k dev cmds rl))"
proof (induction cmds arbitrary: k rl)
  case (Cons c cmds)
  let ?m = "stampEnvelope (re_mode env) (promptCommittedMessage (re_now env) c)"
  let ?r = "note_event (ToDaemon dev ?m (re_send env k)) rl"
  obtain t e where t: "MarkPromptCommitted (re_db env k) (cmd_DeviceID c) (cmd_ClientMsgID c) (rl_commands ?r) = (t, e)" by fastforce
  have "opaque_commands (fst (MarkPromptCommitted (re_db env k) (cmd_DeviceID c) (cmd_ClientMsgID c) (rl_commands ?r)))"
    using opaque_marks(4) Cons.prems(1,2) by (simp add: opaque_def opaque_envD)
  then have ok: "opaque (?r\<lparr>rl_commands := t\<rparr>)" unfolding t using opaque_table [of ?r t] Cons.prems(1) by simp
  have "persistAcceptedPrompt env k c rl = (rl, True)" using Cons.prems(3) by (simp add: persistAcceptedPrompt_def)
  then show ?case using Cons.IH [OF ok Cons.prems(2)] Cons.prems ok t
    by (cases "re_send env k"; cases e) (simp_all add: send_def)
qed simp

lemma opaque_replay:
  "opaque rl \<Longrightarrow> relay_ok mar unm rl \<Longrightarrow> sealed_env env \<Longrightarrow>
   replayPromptCommits fuel env k dev rl = Some rl' \<Longrightarrow> opaque rl'"
proof (induction fuel arbitrary: k rl)
  case (Suc fuel)
  have tab: "table_ok (rl_commands rl)" using Suc.prems(2) by (simp add: relay_ok_def)
  show ?case
  proof (cases "ListUncommittedAcceptedPrompts (re_db env k) dev 100 (rl_commands rl)")
    case (Inr cmds)
    have sealed: "\<forall>cmd \<in> set cmds. cmd_SealedEnvelopeJSON cmd \<noteq> []"
      using listed_rows(1) [OF Inr tab] Suc.prems(1) unfolding opaque_def opaque_commands_def by blast
    have acc: "\<forall>cmd \<in> set cmds. accepted_row rl cmd \<and> cmd_DeviceID cmd = dev"
      using accepted_row_read [OF Suc.prems(2) listed_rows(1) [OF Inr tab] listed_rows(2) [OF Inr tab]]
        listed_rows(3) [OF Inr tab] by blast
    obtain rl1 b where r: "replay_batch env (Suc k) dev cmds rl = (rl1, b)" by fastforce
    have o1: "opaque rl1" using opaque_batch [OF Suc.prems(1,3) sealed, of "Suc k" dev] r by simp
    have k1: "relay_ok mar unm rl1" using replay_batch_ok [OF Suc.prems(2) acc, of env "Suc k"] r by simp
    note ih = Suc.IH [OF o1 k1 Suc.prems(3)]
    show ?thesis using Suc.prems(1,4) o1 ih by (cases b) (auto simp: Inr r split: if_splits)
  qed (use Suc.prems in simp)
qed simp

text \<open>The steps of a sealed nest: the read loops pass on only frames that are valid in the nest's mode.\<close>

inductive sealed_step ::
  "(NekoMessage \<Rightarrow> string option) \<Rightarrow> (string \<Rightarrow> NekoMessage option) \<Rightarrow> relay \<Rightarrow> relay \<Rightarrow> bool"
  for mar unm where
  sealed_phone: "sealed_env env \<Longrightarrow> re_marshal env = mar \<Longrightarrow>
    ValidateFrameForTransport (Some msg) TransportSealed = None \<Longrightarrow>
    sealed_step mar unm rl (handlePhoneMessage env dev msg rl)"
| sealed_daemon: "sealed_env env \<Longrightarrow> re_marshal env = mar \<Longrightarrow> re_unmarshal env = unm \<Longrightarrow>
    ValidateFrameForTransport (Some msg) TransportSealed = None \<Longrightarrow>
    sealed_step mar unm rl (handleDaemonMessage env r msg rl)"
| sealed_replay: "sealed_env env \<Longrightarrow> re_marshal env = mar \<Longrightarrow>
    replayPromptCommits fuel env k dev rl = Some rl' \<Longrightarrow> sealed_step mar unm rl rl'"

lemma sealed_step_relay: "sealed_step mar unm rl rl' \<Longrightarrow> relay_step mar unm rl rl' \<and> texts mar"
  by (induction rule: sealed_step.induct) (auto simp: sealed_env_def intro: relay_step.intros)

lemma sealed_step_keeps:
  assumes "relay_ok mar unm rl \<and> opaque rl" and "sealed_step mar unm rl rl'"
  shows "relay_ok mar unm rl' \<and> opaque rl'"
proof -
  have "relay_ok mar unm rl'" using relay_step_ok assms sealed_step_relay by blast
  moreover from assms(2) have "opaque rl'"
  proof (cases rule: sealed_step.cases)
    case (sealed_phone env msg dev)
    then show ?thesis using opaque_phone assms(1) by blast
  next
    case (sealed_daemon env msg r)
    then show ?thesis using opaque_daemon assms(1) by blast
  next
    case (sealed_replay env fuel k dev)
    then show ?thesis using opaque_replay assms(1) by blast
  qed
  ultimately show ?thesis by blast
qed

interpretation sealed_nest: step_invariant "sealed_step mar unm" "\<lambda>rl. relay_ok mar unm rl \<and> opaque rl" for mar unm
  by unfold_locales (rule sealed_step_keeps)

text \<open>C10. 
  No plaintext in a sealed nest's tables.  Over any sequence of valid sealed frames from phones and
  daemons and any replays, with any failures and interleavings, no row of the command table has a
  prompt text and no row of the message history has content: prompts are kept as their
  sealed envelope, messages as sealed metadata.
\<close>

theorem sealed_tables_opaque:
  assumes "(sealed_step mar unm)\<^sup>*\<^sup>* (empty_relay db cs) rl"
  shows "(\<forall>k r. map_of (rl_commands rl) k = Some r \<longrightarrow> cmd_Prompt r = [] \<and> cmd_SealedEnvelopeJSON r \<noteq> [])
    \<and> (\<forall>k r. map_of (rl_messages rl) k = Some r \<longrightarrow> mr_content r = [] \<and> mr_type r = ''sealed'')"
proof -
  have "opaque (empty_relay db cs)"
    by (simp add: empty_relay_def opaque_def opaque_commands_def opaque_rows_def)
  then have "opaque rl" using sealed_nest.steps_keep [OF assms] relay_ok_empty by blast
  then show ?thesis using opaque_rows_lookup unfolding opaque_def opaque_commands_def by blast
qed

section \<open>Concrete runs\<close>

definition demo_run :: db_run where
  "demo_run = \<lparr>dr_now = (\<lambda>n. 7), dr_fails = (\<lambda>n. False), dr_others = (\<lambda>n. [])\<rparr>"

definition demo_json :: json_codec where
  "demo_json = \<lparr>jc_marshal = (\<lambda>j. Some ''null''), jc_unmarshal = (\<lambda>s. Some JNull)\<rparr>"

definition demo_env :: "TransportMode \<Rightarrow> send_result \<Rightarrow> relay_env" where
  "demo_env mode res = \<lparr>re_mode = mode, re_now = 5, re_codec = demo_json,
     re_marshal = (\<lambda>m. Some ''envelope''), re_unmarshal = (\<lambda>s. None),
     re_url = \<lparr>url_RequestURI = (\<lambda>s. None), url_path_and_k = (\<lambda>s. None)\<rparr>, re_random = None,
     re_db = (\<lambda>n. demo_run), re_store = (\<lambda>n. quiet_run), re_save_fails = (\<lambda>n. False), re_query_fails = False,
     re_visit = (\<lambda>xs. xs), re_send = (\<lambda>n. res), re_expired = [], re_sessions = (\<lambda>j. []),
     re_capabilities = (\<lambda>j. None), re_message = (\<lambda>j. None), re_message_json = (\<lambda>m. JNull),
     re_session_list = (\<lambda>l. [])\<rparr>"

definition demo_wire :: "TransportMode \<Rightarrow> MessageType \<Rightarrow> string \<Rightarrow> payload \<Rightarrow> SealedPayload option \<Rightarrow> NekoMessage" where
  "demo_wire mode t cid p sp = \<lparr>nm_ProtocolVersion = ''1.3'', nm_TransportMode = mode, nm_Type = t, nm_DeviceID = ''d'',
     nm_SessionID = ''s'', nm_ClientMsgID = cid, nm_Outcome = [], nm_RetryAllowed = None, nm_Timestamp = 5,
     nm_Payload = p, nm_SealedPayload = sp\<rparr>"

definition demo_start :: relay where
  "demo_start = empty_relay empty_db demo_conns"

definition demo_prompt :: NekoMessage where
  "demo_prompt = demo_wire TransportOpen MsgSendPrompt []
     (Some [(''prompt'', JString ''hi''), (''client_msg_id'', JString ''local_1'')]) None"

definition demo_prompted :: relay where
  "demo_prompted = handlePhoneMessage (demo_env TransportOpen SendOK) ''d'' demo_prompt demo_start"

definition demo_accepted :: relay where
  "demo_accepted = demo_prompted\<lparr>rl_commands := fst (MarkPromptAccepted demo_run ''d'' ''local_1'' (rl_commands demo_prompted)),
     rl_messages := rl_messages demo_prompted, rl_store := rl_store demo_prompted, rl_conns := rl_conns demo_prompted\<rparr>"

definition demo_acked :: relay where
  "demo_acked = handlePhoneMessage (demo_env TransportOpen SendOK) ''d'' demo_prompt demo_accepted"

definition demo_committed :: NekoMessage where
  "demo_committed = demo_wire TransportOpen MsgPromptCommitted ''local_1''
     (Some [(''client_msg_id'', JString ''local_1'')]) None"

definition demo_user :: SessionMessage where
  "demo_user = \<lparr>sm_ID = ''local_1'', sm_Role = ''user'', sm_Content = ''hi'', sm_Type = ''text'', sm_Timestamp = 7,
     sm_Metadata = None\<rparr>"

lemma demo_prompted_trace: "rl_trace demo_prompted = [ToDaemon ''d'' demo_prompt SendOK]"
  by code_simp

lemma demo_acked_trace:
  "take 3 (rl_trace demo_acked) =
     [ToDaemon ''d'' demo_prompt SendOK, MessageSaved ''d'' ''s'' demo_user, ToDaemon ''d'' demo_committed SendOK]"
  by code_simp

lemma demo_reach:
  "(relay_step (\<lambda>m. Some ''envelope'') (\<lambda>s. None))\<^sup>*\<^sup>* demo_start demo_prompted"
  "(relay_step (\<lambda>m. Some ''envelope'') (\<lambda>s. None))\<^sup>*\<^sup>* demo_start demo_acked"
proof -
  let ?R = "relay_step (\<lambda>m. Some ''envelope'') (\<lambda>s. None)"
  have env: "re_marshal (demo_env mode res) = (\<lambda>m. Some ''envelope'')" for mode res by (simp add: demo_env_def)
  have 1: "?R demo_start demo_prompted" unfolding demo_prompted_def by (rule relay_step.phone [OF env])
  have "command_call\<^sup>*\<^sup>* (rl_commands demo_prompted) (fst (MarkPromptAccepted demo_run ''d'' ''local_1'' (rl_commands demo_prompted)))"
    by (rule r_into_rtranclp) (rule command_call.intros)
  then have 2: "?R demo_prompted demo_accepted" unfolding demo_accepted_def by (rule relay_step.other)
  have 3: "?R demo_accepted demo_acked" unfolding demo_acked_def by (rule relay_step.phone [OF env])
  show "?R\<^sup>*\<^sup>* demo_start demo_prompted" using 1 by blast
  then show "?R\<^sup>*\<^sup>* demo_start demo_acked" using 2 3 by (meson rtranclp.rtrancl_into_rtrancl)
qed

lemma demo_texts: "texts (\<lambda>m. Some ''envelope'')"
  by (simp add: texts_def)


theorem forwarded_is_registered_witness:
  "\<exists>cid row. map_of (rl_commands demo_prompted) (''d'', cid) = Some row"
  using forwarded_is_registered [OF demo_reach(1) [unfolded demo_start_def] demo_texts,
      of "''d''" demo_prompt SendOK] demo_prompted_trace
  by (auto simp: demo_prompt_def demo_wire_def)


theorem replay_terminates_witness:
  "\<exists>rl'. replayPromptCommits (Suc (length (rl_commands demo_accepted))) (demo_env TransportOpen SendOK) 0 ''d'' demo_accepted
       = Some rl' \<and> uncommitted ''d'' (rl_commands rl') = []"
proof -
  have "relay_ok (\<lambda>m. Some ''envelope'') (\<lambda>s. None) demo_prompted"
    using relay_run_ok [OF demo_reach(1) [unfolded demo_start_def] demo_texts] .
  then have ok: "relay_ok (\<lambda>m. Some ''envelope'') (\<lambda>s. None) demo_accepted"
    unfolding demo_accepted_def using relay_ok_commands [OF _ marked_reaches(2)] by (simp add: relay_ok_def)
  have "quiet_env (demo_env TransportOpen SendOK) ''d''" "faultless (demo_env TransportOpen SendOK)"
    by (simp_all add: quiet_env_def faultless_def demo_env_def demo_run_def)
  then show ?thesis using replay_terminates [OF ok, of "demo_env TransportOpen SendOK" "''d''" 0] by blast
qed

theorem offline_history_answer_witness:
  "\<exists>f m. rl_trace (handlePhoneMessage (demo_env TransportOpen SendOffline) ''d''
       (demo_wire TransportOpen MsgFetchHistory [] None None) demo_acked) = rl_trace demo_acked @ [f, ToPhones ''d'' m]
     \<and> nm_Type m = MsgSessionHistory"
  using offline_history_answer [of "demo_env TransportOpen SendOffline" "demo_wire TransportOpen MsgFetchHistory [] None None" "''d''" demo_acked]
  by (simp add: demo_env_def demo_wire_def) blast

definition demo_sealed :: SealedPayload where
  "demo_sealed = \<lparr>sp_Alg = ''A256GCM'', sp_Version = 1, sp_KeyScope = KeyScopeSession, sp_Epoch = 1,
     sp_SenderID = ''p'', sp_RecipientID = ''d'', sp_Sequence = 1, sp_Nonce = ''n'', sp_Ciphertext = ''c''\<rparr>"

lemma demo_sealed_valid:
  "ValidateFrameForTransport (Some (demo_wire TransportSealed MsgFetchHistory [] None (Some demo_sealed))) TransportSealed = None"
  "ValidateFrameForTransport (Some (demo_wire TransportSealed MsgSendPrompt [] None (Some demo_sealed))) TransportSealed = None"
  "ValidateFrameForTransport (Some (demo_wire TransportSealed MsgSendPrompt ''local_1'' None (Some demo_sealed))) TransportSealed = None"
  by code_simp+

theorem sealed_history_frame_invalid_witness:
  "\<exists>f res more. rl_trace (handlePhoneMessage (demo_env TransportSealed SendOK) ''d''
       (demo_wire TransportSealed MsgFetchHistory [] None (Some demo_sealed)) demo_start) = rl_trace demo_start @ ToDaemon ''d'' f res # more
     \<and> ValidateFrameForTransport (Some f) TransportSealed = Some BothPayloads"
  using sealed_history_frame_invalid [OF demo_sealed_valid(1), of "demo_env TransportSealed SendOK" "''d''" demo_start]
  by (auto simp: demo_wire_def)

theorem sealed_rejection_frame_invalid_witness:
  "\<exists>f. rl_trace (handlePhoneMessage (demo_env TransportSealed SendOK) ''d''
       (demo_wire TransportSealed MsgSendPrompt [] None (Some demo_sealed)) demo_start) = rl_trace demo_start @ [ToPhones ''d'' f]
     \<and> ValidateFrameForTransport (Some f) TransportSealed \<noteq> None"
  using sealed_rejection_frame_invalid [OF demo_sealed_valid(2), of "demo_env TransportSealed SendOK" "''d''" demo_start]
  by (auto simp: demo_wire_def demo_env_def)

theorem sealed_tables_opaque_witness:
  "\<exists>rl r. (sealed_step (\<lambda>m. Some ''envelope'') (\<lambda>s. None))\<^sup>*\<^sup>* demo_start rl
     \<and> map_of (rl_commands rl) (''d'', ''local_1'') = Some r \<and> cmd_Prompt r = []"
proof -
  let ?env = "demo_env TransportSealed SendOK"
  let ?rl = "handlePhoneMessage ?env ''d'' (demo_wire TransportSealed MsgSendPrompt ''local_1'' None (Some demo_sealed)) demo_start"
  have env: "sealed_env ?env" "re_marshal ?env = (\<lambda>m. Some ''envelope'')"
    using demo_texts by (simp_all add: sealed_env_def sealed_run_def demo_env_def demo_run_def)
  have run: "(sealed_step (\<lambda>m. Some ''envelope'') (\<lambda>s. None))\<^sup>*\<^sup>* demo_start ?rl"
    by (rule r_into_rtranclp) (rule sealed_step.sealed_phone [OF env demo_sealed_valid(3)])
  have "map_of (rl_commands ?rl) (''d'', ''local_1'') \<noteq> None" by code_simp
  then obtain r where "map_of (rl_commands ?rl) (''d'', ''local_1'') = Some r" by blast
  then show ?thesis using sealed_tables_opaque [OF run [unfolded demo_start_def]] run unfolding demo_start_def by blast
qed

end
