(* ===== verification/Push_Delivery.thy ===== *)
theory Push_Delivery
  imports Server_Store "HOL-Library.Word"
begin

unbundle bit_operations_syntax

text \<open>
  Delivery of push notifications (\<open>relaycore/webpush/webpush.go\<close>): the check of an endpoint's URL and
  keys, the addresses the HTTP client refuses to dial, the filter of \<open>Send\<close> and its bounded queue,
  and the worker's loop, which removes a subscription its endpoint reports as gone.

  \<open>net.IP\<close> is a list of bytes, four or sixteen, empty for nil; its predicates are those of
  Go's library.  \<open>url.Parse\<close>, \<open>net.ParseIP\<close>, the base64 decoders, name resolution and the
  outcome of a connection or of a delivery are parameters.

  The guard against requests into the server's own network is compared with a list of address
  blocks in prefix notation: \<open>reject_exact\<close> shows that \<open>rejectIP\<close> refuses exactly the addresses of
  these blocks, \<open>dial_outside\<close> that the client connects to no other address.
\<close>

type_synonym ip = "8 word list"

section \<open>Addresses\<close>

definition ip_To4 :: "ip \<Rightarrow> ip option" where
  "ip_To4 p =
     (if length p = 4 then Some p
      else if length p = 16 \<and> take 10 p = replicate 10 0 \<and> p ! 10 = 0xFF \<and> p ! 11 = 0xFF
      then Some (drop 12 p)
      else None)"

definition IPv4zero :: ip where
  "IPv4zero = replicate 10 0 @ [0xFF, 0xFF] @ replicate 4 0"

definition IPv6unspecified :: ip where
  "IPv6unspecified = replicate 16 0"

definition IPv6loopback :: ip where
  "IPv6loopback = replicate 15 0 @ [1]"

definition ip_Equal :: "ip \<Rightarrow> ip \<Rightarrow> bool" where
  "ip_Equal p x \<longleftrightarrow>
     (if length p = length x then p = x
      else if length p = 4 \<and> length x = 16
      then take 12 x = replicate 10 0 @ [0xFF, 0xFF] \<and> p = drop 12 x
      else if length p = 16 \<and> length x = 4
      then take 12 p = replicate 10 0 @ [0xFF, 0xFF] \<and> drop 12 p = x
      else False)"

definition IsUnspecified :: "ip \<Rightarrow> bool" where
  "IsUnspecified p \<longleftrightarrow> ip_Equal p IPv4zero \<or> ip_Equal p IPv6unspecified"

definition IsLoopback :: "ip \<Rightarrow> bool" where
  "IsLoopback p \<longleftrightarrow>
     (case ip_To4 p of Some q \<Rightarrow> q ! 0 = 127 | None \<Rightarrow> ip_Equal p IPv6loopback)"

definition IsPrivate :: "ip \<Rightarrow> bool" where
  "IsPrivate p \<longleftrightarrow>
     (case ip_To4 p of
        Some q \<Rightarrow> q ! 0 = 10 \<or> (q ! 0 = 172 \<and> q ! 1 AND 0xF0 = 16) \<or> (q ! 0 = 192 \<and> q ! 1 = 168)
      | None \<Rightarrow> length p = 16 \<and> p ! 0 AND 0xFE = 0xFC)"

definition IsMulticast :: "ip \<Rightarrow> bool" where
  "IsMulticast p \<longleftrightarrow>
     (case ip_To4 p of
        Some q \<Rightarrow> q ! 0 AND 0xF0 = 0xE0
      | None \<Rightarrow> length p = 16 \<and> p ! 0 = 0xFF)"

definition IsLinkLocalMulticast :: "ip \<Rightarrow> bool" where
  "IsLinkLocalMulticast p \<longleftrightarrow>
     (case ip_To4 p of
        Some q \<Rightarrow> q ! 0 = 224 \<and> q ! 1 = 0 \<and> q ! 2 = 0
      | None \<Rightarrow> length p = 16 \<and> p ! 0 = 0xFF \<and> p ! 1 AND 0x0F = 0x02)"

definition IsLinkLocalUnicast :: "ip \<Rightarrow> bool" where
  "IsLinkLocalUnicast p \<longleftrightarrow>
     (case ip_To4 p of
        Some q \<Rightarrow> q ! 0 = 169 \<and> q ! 1 = 254
      | None \<Rightarrow> length p = 16 \<and> p ! 0 = 0xFE \<and> p ! 1 AND 0xC0 = 0x80)"

datatype push_error = errInvalidEndpoint | errInvalidPushKeys

definition rejectIP :: "ip \<Rightarrow> push_error option" where
  "rejectIP p =
     (if p = [] then Some errInvalidEndpoint
      else if IsLoopback p \<or> IsPrivate p \<or> IsLinkLocalUnicast p \<or> IsLinkLocalMulticast p
           \<or> IsUnspecified p \<or> IsMulticast p
      then Some errInvalidEndpoint
      else (case ip_To4 p of
              Some q \<Rightarrow>
                if q ! 0 = 100 \<and> 64 \<le> q ! 1 \<and> q ! 1 \<le> 127 then Some errInvalidEndpoint else None
            | None \<Rightarrow> None))"

section \<open>Endpoints and keys\<close>

record parsed_url =
  pu_Scheme :: string
  pu_Host :: string
  pu_Hostname :: string

record push_lib =
  pl_Parse :: "string \<Rightarrow> parsed_url option"
  pl_ParseIP :: "string \<Rightarrow> ip option"
  pl_RawURLEncoding :: "string \<Rightarrow> 8 word list option"
  pl_URLEncoding :: "string \<Rightarrow> 8 word list option"

definition validatePushURL :: "push_lib \<Rightarrow> string \<Rightarrow> push_error option" where
  "validatePushURL lib raw =
     (case pl_Parse lib raw of
        None \<Rightarrow> Some errInvalidEndpoint
      | Some u \<Rightarrow>
          if pu_Host u = [] then Some errInvalidEndpoint
          else if ToLower (pu_Scheme u) \<noteq> ''https'' then Some errInvalidEndpoint
          else let host = pu_Hostname u
               in if host = [] then Some errInvalidEndpoint
                  else if host = ''localhost'' \<or> suffix ''.local'' host \<or> host = ''metadata.google.internal''
                  then Some errInvalidEndpoint
                  else (case pl_ParseIP lib host of Some p \<Rightarrow> rejectIP p | None \<Rightarrow> None))"

definition ValidateEndpoint :: "push_lib \<Rightarrow> string \<Rightarrow> push_error option" where
  "ValidateEndpoint lib raw = validatePushURL lib raw"

definition decodeBase64URL :: "push_lib \<Rightarrow> string \<Rightarrow> 8 word list option" where
  "decodeBase64URL lib value =
     (case pl_RawURLEncoding lib value of Some d \<Rightarrow> Some d | None \<Rightarrow> pl_URLEncoding lib value)"

definition ValidateKeys :: "push_lib \<Rightarrow> string \<Rightarrow> string \<Rightarrow> push_error option" where
  "ValidateKeys lib p256dh auth =
     (case decodeBase64URL lib p256dh of
        None \<Rightarrow> Some errInvalidPushKeys
      | Some publicKey \<Rightarrow>
          if length publicKey \<noteq> 65 \<or> publicKey ! 0 \<noteq> 0x04 then Some errInvalidPushKeys
          else (case decodeBase64URL lib auth of
                  None \<Rightarrow> Some errInvalidPushKeys
                | Some authSecret \<Rightarrow> if length authSecret \<noteq> 16 then Some errInvalidPushKeys else None))"

section \<open>The HTTP client\<close>

text \<open>
  The dial tries the resolved addresses in turn and skips the refused ones.  The result is the
  addresses it tried to connect to and the one it is connected to.
\<close>

fun dial :: "(ip \<Rightarrow> bool) \<Rightarrow> ip list \<Rightarrow> ip list \<times> ip option" where
  "dial connects [] = ([], None)"
| "dial connects (p # ps) =
     (if rejectIP p \<noteq> None then dial connects ps
      else if connects p then ([p], Some p)
      else (case dial connects ps of (tried, c) \<Rightarrow> (p # tried, c)))"

datatype redirect = UseLastResponse | RedirectRefused push_error | Follow

definition CheckRedirect :: "push_lib \<Rightarrow> string \<Rightarrow> nat \<Rightarrow> redirect" where
  "CheckRedirect lib target via =
     (if via \<ge> 2 then UseLastResponse
      else (case validatePushURL lib target of Some e \<Rightarrow> RedirectRefused e | None \<Rightarrow> Follow))"

section \<open>The queue and its workers\<close>

record notificationJob =
  nj_subscriptions :: "PushSubscription list"
  nj_payload :: string

definition push_queue_capacity :: nat where
  "push_queue_capacity = 128"

definition enqueueNotification :: "notificationJob list \<Rightarrow> notificationJob \<Rightarrow> notificationJob list \<times> bool" where
  "enqueueNotification queue job =
     (if length queue < push_queue_capacity then (queue @ [job], True) else (queue, False))"

definition push_valid :: "push_lib \<Rightarrow> PushSubscription \<Rightarrow> bool" where
  "push_valid lib s \<longleftrightarrow>
     validatePushURL lib (ps_Endpoint s) = None \<and> ValidateKeys lib (ps_P256DH s) (ps_Auth s) = None"

definition Enabled :: "string \<Rightarrow> string \<Rightarrow> bool" where
  "Enabled vapidPub vapidPriv \<longleftrightarrow> vapidPub \<noteq> [] \<and> vapidPriv \<noteq> []"

definition Send ::
  "push_lib \<Rightarrow> bool \<Rightarrow> PushSubscription list \<Rightarrow> string \<Rightarrow> notificationJob list \<Rightarrow> notificationJob list \<times> bool" where
  "Send lib enabled subs payload queue =
     (if subs = [] then (queue, False)
      else let valid = filter (push_valid lib) subs
           in if valid = [] then (queue, False)
              else if \<not> enabled then (queue, False)
              else enqueueNotification queue \<lparr>nj_subscriptions = valid, nj_payload = payload\<rparr>)"

definition isGoneStatus :: "nat \<Rightarrow> bool" where
  "isGoneStatus status \<longleftrightarrow> status = 404 \<or> status = 410"

text \<open>
  \<open>done n\<close>: the deadline has passed when the loop reaches the n-th subscription.  \<open>reply\<close> is the
  status the endpoint answers with, \<open>None\<close> when the delivery failed.  The result is the endpoints
  reported to \<open>onGone\<close>, which deletes them from the store.
\<close>

fun deliverNotification ::
  "(nat \<Rightarrow> bool) \<Rightarrow> (PushSubscription \<Rightarrow> nat option) \<Rightarrow> nat \<Rightarrow> PushSubscription list \<Rightarrow> string list" where
  "deliverNotification expired reply n [] = []"
| "deliverNotification expired reply n (s # ss) =
     (if expired n then []
      else (case reply s of
              Some status \<Rightarrow> (if isGoneStatus status then [ps_Endpoint s] else [])
                             @ deliverNotification expired reply (Suc n) ss
            | None \<Rightarrow> deliverNotification expired reply (Suc n) ss))"

definition push_worker ::
  "store_run \<Rightarrow> (nat \<Rightarrow> bool) \<Rightarrow> (PushSubscription \<Rightarrow> nat option) \<Rightarrow> notificationJob list \<Rightarrow> server_db
   \<Rightarrow> notificationJob list \<times> server_db" where
  "push_worker run expired reply queue db =
     (case queue of
        [] \<Rightarrow> ([], db)
      | job # rest \<Rightarrow>
          (rest, fold (\<lambda>endpoint db. fst (DeletePushSubscription run endpoint db))
             (deliverNotification expired reply 0 (nj_subscriptions job)) db))"

section \<open>Address blocks\<close>

text \<open>A block is a prefix length and the number its first bits form; an address is in it when they agree.\<close>

definition ip_number :: "ip \<Rightarrow> nat" where
  "ip_number p = foldl (\<lambda>n b. n * 256 + unat b) 0 p"

definition in_block :: "nat \<Rightarrow> nat \<times> nat \<Rightarrow> bool" where
  "in_block a blk \<longleftrightarrow> (case blk of (shift, v) \<Rightarrow> a div 2 ^ shift = v)"

definition v4_blocks :: "(nat \<times> nat) list" where
  "v4_blocks =
     [(24, 127),
      (24, 10), (20, 172 * 16 + 1), (16, 192 * 256 + 168),
      (16, 169 * 256 + 254),
      (28, 14),
      (22, 100 * 4 + 1),
      (0, 0)]"

definition v6_blocks :: "(nat \<times> nat) list" where
  "v6_blocks = [(0, 1), (0, 0), (121, 0x7E), (118, 0x3FA), (120, 0xFF)]"

text \<open>The address a byte string stands for: an IPv4 address also in its IPv6-mapped form.\<close>

definition internal :: "ip \<Rightarrow> bool" where
  "internal p \<longleftrightarrow>
     (case ip_To4 p of
        Some q \<Rightarrow> list_ex (in_block (ip_number q)) v4_blocks
      | None \<Rightarrow> length p = 16 \<and> list_ex (in_block (ip_number p)) v6_blocks)"

lemma ip_number_append: "ip_number (xs @ ys) = ip_number xs * 256 ^ length ys + ip_number ys"
proof (induction ys rule: rev_induct)
  case (snoc y ys)
  have "ip_number (xs @ ys @ [y]) = ip_number (xs @ ys) * 256 + unat y"
    by (simp add: ip_number_def)
  then show ?case using snoc by (simp add: ip_number_def algebra_simps)
qed (simp add: ip_number_def)

lemma byte_less: "unat (b :: 8 word) < 256"
  using unsigned_less [of b] by simp

lemma ip_number_less: "ip_number p < 256 ^ length p"
proof (induction p rule: rev_induct)
  case (snoc b p)
  have "ip_number (p @ [b]) = ip_number p * 256 + unat b" by (simp add: ip_number_def)
  moreover have "unat b < 256" by (rule byte_less)
  ultimately show ?case using snoc by simp
qed (simp add: ip_number_def)

lemma ip_number_take:
  assumes "k \<le> length p"
  shows "ip_number p div 256 ^ (length p - k) = ip_number (take k p)"
proof -
  have "ip_number p = ip_number (take k p) * 256 ^ (length p - k) + ip_number (drop k p)"
    using ip_number_append [of "take k p" "drop k p"] by simp
  moreover have "ip_number (drop k p) < 256 ^ (length p - k)"
    using ip_number_less [of "drop k p"] by simp
  ultimately show ?thesis by simp
qed

lemma base_digits:
  fixes m n i j k :: nat
  assumes "i < k" and "j < k"
  shows "m * k + i = n * k + j \<longleftrightarrow> m = n \<and> i = j"
proof
  assume eq: "m * k + i = n * k + j"
  have "(m * k + i) div k = m" "(n * k + j) div k = n" using assms by simp_all
  then show "m = n \<and> i = j" using eq by simp
qed simp

lemma ip_number_inject: "length p = length q \<Longrightarrow> ip_number p = ip_number q \<longleftrightarrow> p = q"
proof (induction p q rule: rev_induct2)
  case (4 b p c q)
  have "unat b < 256" "unat c < 256" by (rule byte_less)+
  then have "ip_number p * 256 + unat b = ip_number q * 256 + unat c
      \<longleftrightarrow> ip_number p = ip_number q \<and> unat b = unat c" by (rule base_digits)
  moreover have "ip_number (p @ [b]) = ip_number p * 256 + unat b"
    "ip_number (q @ [c]) = ip_number q * 256 + unat c" by (simp_all add: ip_number_def)
  ultimately show ?case using 4 by (simp add: word_unat_eq_iff)
qed simp_all

lemma ip_number_prefix: "length p = 4 \<Longrightarrow> ip_number p div 2 ^ 24 = unat (p ! 0)"
  using ip_number_take [of 1 p] by (cases p) (simp_all add: ip_number_def)

lemma byte_high:
  fixes b :: "8 word"
  shows "unat (b AND NOT (mask n)) = unat b div 2 ^ n * 2 ^ n"
proof -
  have "unat b div 2 ^ n * 2 ^ n \<le> unat b" by (rule div_times_less_eq_dividend)
  then have "unat b div 2 ^ n * 2 ^ n < 256" using byte_less [of b] by linarith
  moreover have "push_bit n (drop_bit n b) = b AND NOT (mask n)"
    by (rule bit_word_eqI) (auto simp: bit_simps)
  moreover have "unat (push_bit n (drop_bit n b)) = take_bit 8 (push_bit n (drop_bit n (unat b)))"
    using byte_less [of b] by (simp add: unsigned_push_bit_eq unsigned_drop_bit_eq take_bit_nat_eq_self)
  moreover have "push_bit n (drop_bit n (unat b)) = unat b div 2 ^ n * 2 ^ n"
    by (simp add: push_bit_eq_mult drop_bit_eq_div)
  ultimately show ?thesis by (simp add: take_bit_eq_mod)
qed

lemma byte_masks:
  fixes b :: "8 word"
  shows "b AND 0xF0 = 16 \<longleftrightarrow> unat b div 16 = 1"
    and "b AND 0xF0 = 0xE0 \<longleftrightarrow> unat b div 16 = 14"
    and "b AND 0xFE = 0xFC \<longleftrightarrow> unat b div 2 = 0x7E"
    and "b AND 0xC0 = 0x80 \<longleftrightarrow> unat b div 64 = 2"
    and "64 \<le> b \<and> b \<le> 127 \<longleftrightarrow> unat b div 64 = 1"
proof -
  have m: "(0xF0 :: 8 word) = NOT (mask 4)" "(0xFE :: 8 word) = NOT (mask 1)" "(0xC0 :: 8 word) = NOT (mask 6)"
    by (simp_all add: mask_eq_exp_minus_1 not_eq_complement)
  show "b AND 0xF0 = 16 \<longleftrightarrow> unat b div 16 = 1" "b AND 0xF0 = 0xE0 \<longleftrightarrow> unat b div 16 = 14"
    "b AND 0xFE = 0xFC \<longleftrightarrow> unat b div 2 = 0x7E" "b AND 0xC0 = 0x80 \<longleftrightarrow> unat b div 64 = 2"
    unfolding m word_unat_eq_iff byte_high by simp_all
  show "64 \<le> b \<and> b \<le> 127 \<longleftrightarrow> unat b div 64 = 1"
    by (auto simp: word_le_nat_alt)
qed

lemma any_block: "list_ex P [] \<longleftrightarrow> False" "list_ex P (x # xs) \<longleftrightarrow> P x \<or> list_ex P xs"
  by simp_all

lemma v4_internal:
  fixes a b c d :: "8 word"
  defines "q \<equiv> [a, b, c, d]"
  shows "in_block (ip_number q) (24, v) \<longleftrightarrow> unat a = v"
    and "in_block (ip_number q) (16, v) \<longleftrightarrow> unat a * 256 + unat b = v"
    and "in_block (ip_number q) (20, v) \<longleftrightarrow> (unat a * 256 + unat b) div 16 = v"
    and "in_block (ip_number q) (22, v) \<longleftrightarrow> (unat a * 256 + unat b) div 64 = v"
    and "in_block (ip_number q) (28, v) \<longleftrightarrow> unat a div 16 = v"
    and "in_block (ip_number q) (0, 0) \<longleftrightarrow> q = [0, 0, 0, 0]"
proof -
  have one: "ip_number q div 2 ^ 24 = unat a" and two: "ip_number q div 2 ^ 16 = unat a * 256 + unat b"
    using ip_number_take [of 1 q] ip_number_take [of 2 q] by (simp_all add: q_def ip_number_def)
  show "in_block (ip_number q) (24, v) \<longleftrightarrow> unat a = v"
    "in_block (ip_number q) (16, v) \<longleftrightarrow> unat a * 256 + unat b = v"
    using one two by (simp_all add: in_block_def)
  have "ip_number q div 2 ^ 20 = ip_number q div 2 ^ 16 div 2 ^ 4"
    "ip_number q div 2 ^ 22 = ip_number q div 2 ^ 16 div 2 ^ 6"
    "ip_number q div 2 ^ 28 = ip_number q div 2 ^ 24 div 2 ^ 4"
    by (simp_all add: div_mult2_eq [symmetric])
  then show "in_block (ip_number q) (20, v) \<longleftrightarrow> (unat a * 256 + unat b) div 16 = v"
    "in_block (ip_number q) (22, v) \<longleftrightarrow> (unat a * 256 + unat b) div 64 = v"
    "in_block (ip_number q) (28, v) \<longleftrightarrow> unat a div 16 = v"
    unfolding in_block_def one two by simp_all
  have "ip_number [0, 0, 0, 0] = 0" by (simp add: ip_number_def)
  then show "in_block (ip_number q) (0, 0) \<longleftrightarrow> q = [0, 0, 0, 0]"
    using ip_number_inject [of q "[0, 0, 0, 0]"] by (simp add: in_block_def q_def)
qed

lemma two_bytes:
  fixes x y :: nat
  shows "(x * 256 + y) div 16 = x * 16 + y div 16" and "(x * 256 + y) div 64 = x * 4 + y div 64"
  using div_mult_self1 [of 16 y "x * 16"] div_mult_self1 [of 64 y "x * 4"]
  by (simp_all add: algebra_simps)

lemma v4_list:
  "list_ex (in_block (ip_number [a, b, c, d])) v4_blocks \<longleftrightarrow>
     a = 127 \<or> a = 10 \<or> (a = 172 \<and> unat b div 16 = 1) \<or> (a = 192 \<and> b = 168) \<or> (a = 169 \<and> b = 254)
     \<or> unat a div 16 = 14 \<or> (a = 100 \<and> unat b div 64 = 1) \<or> [a, b, c, d] = [0, 0, 0, 0]"
proof -
  have b: "unat b div 16 < 16" "unat b div 64 < 4" "unat b < 256"
    using byte_less [of b] by (simp_all add: less_mult_imp_div_less)
  have w: "unat a = 127 \<longleftrightarrow> a = 127" "unat a = 10 \<longleftrightarrow> a = 10" "unat a = 172 \<longleftrightarrow> a = 172"
    "unat a = 192 \<longleftrightarrow> a = 192" "unat a = 169 \<longleftrightarrow> a = 169" "unat a = 100 \<longleftrightarrow> a = 100"
    "unat b = 168 \<longleftrightarrow> b = 168" "unat b = 254 \<longleftrightarrow> b = 254"
    by (simp_all add: word_unat_eq_iff)
  have "unat a * 256 + unat b = 192 * 256 + 168 \<longleftrightarrow> a = 192 \<and> b = 168"
    "unat a * 256 + unat b = 169 * 256 + 254 \<longleftrightarrow> a = 169 \<and> b = 254"
    using base_digits [OF b(3), of 168 "unat a" 192] base_digits [OF b(3), of 254 "unat a" 169] w by simp_all
  moreover have "unat a * 16 + unat b div 16 = 172 * 16 + 1 \<longleftrightarrow> a = 172 \<and> unat b div 16 = 1"
    "unat a * 4 + unat b div 64 = 100 * 4 + 1 \<longleftrightarrow> a = 100 \<and> unat b div 64 = 1"
    using base_digits [OF b(1), of 1 "unat a" 172] base_digits [OF b(2), of 1 "unat a" 100] w by simp_all
  ultimately show ?thesis
    by (simp only: v4_blocks_def any_block v4_internal two_bytes w) blast
qed

lemma v4_reject:
  assumes "ip_To4 p = Some q" and "length p = 4 \<or> length p = 16"
  shows "rejectIP p \<noteq> None \<longleftrightarrow> list_ex (in_block (ip_number q)) v4_blocks"
proof -
  have "length q = 4" using assms by (auto simp: ip_To4_def split: if_splits)
  then obtain a b c d where q: "q = [a, b, c, d]"
    by (auto simp: numeral_eq_Suc length_Suc_conv)
  have unspec: "IsUnspecified p \<longleftrightarrow> q = [0, 0, 0, 0]"
  proof (cases "length p = 4")
    case True
    then show ?thesis using assms
      by (auto simp: IsUnspecified_def ip_Equal_def IPv4zero_def IPv6unspecified_def ip_To4_def numeral_eq_Suc)
  next
    case False
    then have 16: "length p = 16" and "take 10 p = replicate 10 0" "p ! 10 = 0xFF" "p ! 11 = 0xFF" "q = drop 12 p"
      using assms by (auto simp: ip_To4_def split: if_splits)
    moreover have "p = take 10 p @ [p ! 10, p ! 11] @ drop 12 p"
      using 16 by (auto simp: numeral_eq_Suc length_Suc_conv)
    ultimately have "p = replicate 10 0 @ [0xFF, 0xFF] @ q" by simp
    then show ?thesis
      using q by (auto simp: IsUnspecified_def ip_Equal_def IPv4zero_def IPv6unspecified_def numeral_eq_Suc)
  qed
  have "p \<noteq> []" using assms(2) by auto
  then show ?thesis
    using assms(1) unspec unfolding q v4_list
    by (auto simp: rejectIP_def IsLoopback_def IsPrivate_def IsMulticast_def IsLinkLocalMulticast_def
        IsLinkLocalUnicast_def byte_masks split: if_splits)
qed

lemma v6_internal:
  assumes "length p = 16"
  shows "in_block (ip_number p) (120, v) \<longleftrightarrow> unat (p ! 0) = v"
    and "in_block (ip_number p) (121, v) \<longleftrightarrow> unat (p ! 0) div 2 = v"
    and "in_block (ip_number p) (118, v) \<longleftrightarrow> (unat (p ! 0) * 256 + unat (p ! 1)) div 64 = v"
    and "in_block (ip_number p) (0, 0) \<longleftrightarrow> p = IPv6unspecified"
    and "in_block (ip_number p) (0, 1) \<longleftrightarrow> p = IPv6loopback"
proof -
  obtain a b r where p: "p = a # b # r" using assms by (auto simp: numeral_eq_Suc length_Suc_conv)
  have one: "ip_number p div 2 ^ 120 = unat a" and two: "ip_number p div 2 ^ 112 = unat a * 256 + unat b"
    using ip_number_take [of 1 p] ip_number_take [of 2 p] assms by (simp_all add: p ip_number_def)
  have "ip_number p div 2 ^ 121 = ip_number p div 2 ^ 120 div 2"
    "ip_number p div 2 ^ 118 = ip_number p div 2 ^ 112 div 64"
    by (simp_all add: div_mult2_eq [symmetric])
  then show "in_block (ip_number p) (121, v) \<longleftrightarrow> unat (p ! 0) div 2 = v"
    "in_block (ip_number p) (118, v) \<longleftrightarrow> (unat (p ! 0) * 256 + unat (p ! 1)) div 64 = v"
    unfolding in_block_def prod.case one two by (simp_all add: p)
  show "in_block (ip_number p) (120, v) \<longleftrightarrow> unat (p ! 0) = v"
    using one by (simp add: in_block_def p)
  have "ip_number IPv6unspecified = 0" "ip_number IPv6loopback = 1"
    by (simp_all add: ip_number_def IPv6unspecified_def IPv6loopback_def numeral_eq_Suc)
  then show "in_block (ip_number p) (0, 0) \<longleftrightarrow> p = IPv6unspecified"
    "in_block (ip_number p) (0, 1) \<longleftrightarrow> p = IPv6loopback"
    using ip_number_inject [of p IPv6unspecified] ip_number_inject [of p IPv6loopback] assms
    by (simp_all add: in_block_def IPv6unspecified_def IPv6loopback_def)
qed

lemma v6_reject:
  assumes "ip_To4 p = None" and len: "length p = 16"
  shows "rejectIP p \<noteq> None \<longleftrightarrow> list_ex (in_block (ip_number p)) v6_blocks"
proof -
  have "p \<noteq> IPv4zero" using assms(1) by (auto simp: ip_To4_def IPv4zero_def numeral_eq_Suc)
  then have unspec: "IsUnspecified p \<longleftrightarrow> p = IPv6unspecified" "ip_Equal p IPv6loopback \<longleftrightarrow> p = IPv6loopback"
    using len by (auto simp: IsUnspecified_def ip_Equal_def IPv4zero_def IPv6unspecified_def IPv6loopback_def)
  have "unat (p ! 1) div 64 < 4" using byte_less [of "p ! 1"] by (simp add: less_mult_imp_div_less)
  then have local_net: "(unat (p ! 0) * 256 + unat (p ! 1)) div 64 = 0x3FA
      \<longleftrightarrow> p ! 0 = 0xFE \<and> unat (p ! 1) div 64 = 2"
    using base_digits [of "unat (p ! 1) div 64" 4 2 "unat (p ! 0)" 254]
    by (simp add: two_bytes word_unat_eq_iff)
  have "p \<noteq> []" and multi: "unat (p ! 0) = 0xFF \<longleftrightarrow> p ! 0 = 0xFF" using len by (auto simp: word_unat_eq_iff)
  then show ?thesis
    unfolding v6_blocks_def any_block v6_internal [OF len] local_net multi
    using assms unspec
    by (auto simp: rejectIP_def IsLoopback_def IsPrivate_def IsMulticast_def IsLinkLocalMulticast_def
        IsLinkLocalUnicast_def byte_masks split: if_splits)
qed

section \<open>The guard is exactly the block list\<close>

lemma reject_block:
  assumes "length p = 4 \<or> length p = 16"
  shows "rejectIP p \<noteq> None \<longleftrightarrow> internal p"
proof (cases "ip_To4 p")
  case None
  then have "length p = 16" using assms by (auto simp: ip_To4_def)
  then show ?thesis using None v6_reject by (simp add: internal_def)
next
  case (Some q)
  then show ?thesis using v4_reject [OF Some assms] by (simp add: internal_def)
qed

text \<open>
  The address check refuses an address of four or sixteen bytes exactly when it lies in one of the
  internal blocks, an IPv4 address also in its IPv6-mapped form.
\<close>

theorem reject_exact:
  assumes "length p = 4 \<or> length p = 16"
  shows "rejectIP p \<noteq> None \<longleftrightarrow> internal p"
  using assms by (rule reject_block)

theorem reject_exact_witness:
  "length ([169, 254, 169, 254] :: ip) = 4
   \<and> (rejectIP [169, 254, 169, 254] \<noteq> None \<longleftrightarrow> internal [169, 254, 169, 254])"
  using reject_exact [of "[169, 254, 169, 254]"] by simp

section \<open>What the client connects to\<close>

lemma dial_tries: "p \<in> set (fst (dial connects ps)) \<Longrightarrow> p \<in> set ps \<and> rejectIP p = None"
  by (induction ps) (auto split: if_splits prod.splits)

lemma dial_result:
  "snd (dial connects ps) = List.find (\<lambda>p. rejectIP p = None \<and> connects p) ps"
  by (induction ps) (auto split: prod.splits)

text \<open>C22. 
  Whatever a host name resolves to, the push client opens no connection to an internal address:
  every address it tries is outside the blocks, and it ends up connected to the first resolved
  address outside them that accepts the connection, if there is one.
\<close>

theorem dial_outside:
  assumes "list_all (\<lambda>p. length p = 4 \<or> length p = 16) ps"
  shows "(\<forall>p \<in> set (fst (dial connects ps)). \<not> internal p)
    \<and> snd (dial connects ps) = List.find (\<lambda>p. \<not> internal p \<and> connects p) ps"
proof
  have ok: "rejectIP p = None \<longleftrightarrow> \<not> internal p" if "p \<in> set ps" for p
    using that assms reject_block [of p] by (auto simp: list_all_iff)
  then show "\<forall>p \<in> set (fst (dial connects ps)). \<not> internal p" using dial_tries [of _ connects ps] by blast
  have "List.find (\<lambda>p. rejectIP p = None \<and> connects p) ps = List.find (\<lambda>p. \<not> internal p \<and> connects p) ps"
    using ok by (intro find_cong) auto
  then show "snd (dial connects ps) = List.find (\<lambda>p. \<not> internal p \<and> connects p) ps"
    by (simp add: dial_result)
qed

definition demo_addresses :: "ip list" where
  "demo_addresses = [[10, 0, 0, 7], replicate 10 0 @ [0xFF, 0xFF, 127, 0, 0, 1], [93, 184, 216, 34]]"

theorem dial_outside_witness:
  "list_all (\<lambda>p. length p = 4 \<or> length p = 16) demo_addresses
   \<and> snd (dial (\<lambda>p. True) demo_addresses) = List.find (\<lambda>p. \<not> internal p \<and> True) demo_addresses"
proof
  show "list_all (\<lambda>p. length p = 4 \<or> length p = 16) demo_addresses" by (simp add: demo_addresses_def)
  then show "snd (dial (\<lambda>p. True) demo_addresses) = List.find (\<lambda>p. \<not> internal p \<and> True) demo_addresses"
    using dial_outside [of demo_addresses "\<lambda>p. True"] by blast
qed

section \<open>Registered endpoints\<close>

text \<open>
  The check made at registration compares host names as they are written: upper-case letters pass
  it, and such an endpoint is stopped only when it is dialled.
\<close>

lemma uppercase_localhost:
  assumes "pl_Parse lib raw = Some \<lparr>pu_Scheme = ''https'', pu_Host = ''LOCALHOST'', pu_Hostname = ''LOCALHOST''\<rparr>"
    and "pl_ParseIP lib ''LOCALHOST'' = None"
  shows "ValidateEndpoint lib raw = None"
  using assms by (simp add: ValidateEndpoint_def validatePushURL_def suffix_def lower_char_def byte_def)

lemma send_queue:
  "Send lib enabled subs payload queue = (queue', sent) \<Longrightarrow>
   length queue \<le> push_queue_capacity \<Longrightarrow>
   length queue' \<le> push_queue_capacity
   \<and> (if sent then queue' = queue @ [\<lparr>nj_subscriptions = filter (push_valid lib) subs, nj_payload = payload\<rparr>]
      else queue' = queue)"
  by (auto simp: Send_def enqueueNotification_def Let_def split: if_splits)

lemma deliver_all:
  "(\<And>k. \<not> expired k) \<Longrightarrow> set (deliverNotification expired reply n ss)
   = {ps_Endpoint s | s. s \<in> set ss \<and> (\<exists>st. reply s = Some st \<and> isGoneStatus st)}"
  by (induction ss arbitrary: n) (auto split: option.splits if_splits)

lemma delete_push_all:
  assumes "\<And>n. st_others run n = []" and "\<And>n. \<not> st_fails run n"
  shows "sd_push (fold (\<lambda>e db. fst (DeletePushSubscription run e db)) es db)
    = filter (\<lambda>s. ps_Endpoint s \<notin> set es) (sd_push db)"
proof (induction es arbitrary: db)
  case (Cons e es)
  have "sd_push (fst (DeletePushSubscription run e db)) = filter (\<lambda>s. ps_Endpoint s \<noteq> e) (sd_push db)"
    using assms by (simp add: DeletePushSubscription_def store_exec_def Let_def)
  then show ?case using Cons [of "fst (DeletePushSubscription run e db)"]
    by (simp add: conj_commute)
qed simp

text \<open>
  A worker that meets no deadline and no database failure takes one job from the queue and leaves
  the store with exactly the subscriptions whose endpoint did not answer 404 or 410 to the job.
\<close>

theorem gone_endpoints_removed:
  assumes "\<And>n. st_others run n = []" and "\<And>n. \<not> st_fails run n" and "\<And>n. \<not> expired n"
    and "push_worker run expired reply (job # rest) db = (queue', db')"
  shows "queue' = rest
    \<and> sd_push db' = filter (\<lambda>p. \<not> (\<exists>s \<in> set (nj_subscriptions job). ps_Endpoint s = ps_Endpoint p
         \<and> reply s \<in> {Some 404, Some 410})) (sd_push db)"
proof -
  let ?es = "deliverNotification expired reply 0 (nj_subscriptions job)"
  have es: "set ?es = {ps_Endpoint s | s. s \<in> set (nj_subscriptions job)
      \<and> (\<exists>st. reply s = Some st \<and> isGoneStatus st)}"
    using assms(3) by (rule deliver_all)
  have "queue' = rest"
    "sd_push db' = filter (\<lambda>p. ps_Endpoint p \<notin> set ?es) (sd_push db)"
    using assms(4) delete_push_all [OF assms(1,2)] by (auto simp: push_worker_def)
  then show ?thesis unfolding es isGoneStatus_def
    by (auto intro!: filter_cong)
qed

theorem gone_endpoints_removed_witness:
  "\<exists>queue' db'. push_worker \<lparr>st_now = (\<lambda>n. 1), st_fails = (\<lambda>n. False), st_others = (\<lambda>n. [])\<rparr>
       (\<lambda>n. False) (\<lambda>s. Some 410) [\<lparr>nj_subscriptions = [demo_push], nj_payload = ''x''\<rparr>]
       (empty_db\<lparr>sd_push := [demo_push]\<rparr>) = (queue', db') \<and> queue' = [] \<and> sd_push db' = []"
proof -
  let ?run = "\<lparr>st_now = (\<lambda>n. 1), st_fails = (\<lambda>n. False), st_others = (\<lambda>n. [])\<rparr> :: store_run"
  let ?job = "\<lparr>nj_subscriptions = [demo_push], nj_payload = ''x''\<rparr>"
  let ?db = "empty_db\<lparr>sd_push := [demo_push]\<rparr>"
  obtain queue' db' where
    w: "push_worker ?run (\<lambda>n. False) (\<lambda>s. Some 410) [?job] ?db = (queue', db')"
    by fastforce
  show ?thesis
    using w gone_endpoints_removed [of ?run "\<lambda>n. False" "\<lambda>s. Some 410" ?job "[]" ?db queue' db'] by simp
qed

end
