(* ===== verification/Relay_Api.thy ===== *)
theory Relay_Api
  imports Relay_Prompts Principals Push_Delivery
begin

text \<open>
  The relay's HTTP handlers (\<open>relaycore/engine.go\<close>): authentication by the nest secret or a phone
  token, the per-device authorisation of phones, device registration, pairing, public keys and
  wrapped keys, history, push subscriptions, and the revocation of a phone.

  A handler takes the engine's configuration, what the call meets (\<open>relay_env\<close>), the request and, where
  it reads one, the decoded body (\<open>None\<close> when \<open>readJSON\<close> fails), and gives the new state and the response.
  Database calls are numbered in the order they are made; the statements of other requests
  may run before each of them.

  Shown here: a response with device data is given only to the holder of the nest secret or to a
  phone whose token is not revoked and which has an active grant for that device; pairing
  grants exactly the device of the code, to exactly one phone; a revoked phone is left with no
  socket and no way to authenticate.
\<close>

section \<open>Requests, responses and configuration\<close>

record http_request =
  hq_Method :: string
  hq_Header :: "string \<Rightarrow> string"
  hq_Query :: "string \<Rightarrow> string"

record push_sink =
  sk_Validate :: "string \<Rightarrow> string \<Rightarrow> string \<Rightarrow> bool"
  sk_Enabled :: bool
  sk_PublicKey :: string

record engine =
  en_phoneSecret :: string
  en_appVersion :: string
  en_bootstrap :: string
  en_hash :: "string \<Rightarrow> string"
  en_pushSink :: "push_sink option"
  en_push :: push_lib
  en_vapidPub :: string
  en_vapidPriv :: string

text \<open>What the random source gives: hexadecimal text, \<open>None\<close> when it fails.\<close>

record api_random =
  ar_deviceID :: "string option"
  ar_token :: "string option"
  ar_phoneID :: "string option"
  ar_pairCode :: "string option"

record DevicePublicKeys =
  dk_Ed25519Public :: string
  dk_X25519Public :: string
  dk_Fingerprint :: string

record phone_listing =
  lp_ID :: string
  lp_Name :: string
  lp_CreatedAt :: seconds
  lp_LastSeen :: seconds
  lp_Revoked :: bool

datatype error_text = Text string | StoreText store_error | HistoryText command_error

datatype api_body =
    Health string string TransportMode
  | DeviceListing "Device list" string
  | SessionListing "AgentSession list"
  | MessageListing "SessionMessage list" int bool
  | PushSubscribed
  | VapidKey bool string
  | DeviceRegistered DeviceRegistrationResponse
  | PairCodeCreated string seconds string TransportMode "DevicePublicKeys option" "(string \<times> string) option"
  | KeysPublished string
  | GrantListing "PhoneGrant list"
  | PackageListing "(key_id \<times> key_row) list"
  | PackageStored
  | Paired string string "DevicePublicKeys option" string "string option"
  | PhoneCreated string string string
  | PhoneListing "phone_listing list"
  | PhoneRevoked string

datatype response =
    HttpError nat error_text
  | APIError nat ServiceErrorCode string bool
  | Body api_body

definition stableError :: "ServiceErrorCode \<Rightarrow> string \<Rightarrow> bool \<Rightarrow> nat \<Rightarrow> response" where
  "stableError code message retry status = APIError status code message retry"

section \<open>Reads of the identity tables\<close>

definition on_store :: "(server_db \<Rightarrow> server_db \<times> 'a) \<Rightarrow> relay \<Rightarrow> relay \<times> 'a" where
  "on_store f rl = (case f (rl_store rl) of (db, x) \<Rightarrow> (rl\<lparr>rl_store := db\<rparr>, x))"

definition scan_device :: "string \<times> device_row \<Rightarrow> Device" where
  "scan_device x = (case x of (i, r) \<Rightarrow>
     \<lparr>dv_ID = i, Device.dv_Name = device_row.dv_Name r, Device.dv_OS = device_row.dv_OS r,
      dv_Status = ''offline'', Device.dv_LastSeen = device_row.dv_LastSeen r,
      Device.dv_ActiveAgents = device_row.dv_ActiveAgents r, dv_DaemonVersion = [], dv_Token = []\<rparr>)"

definition ListDevices :: "store_run \<Rightarrow> server_db \<Rightarrow> server_db \<times> (store_error + Device list)" where
  "ListDevices run db =
     store_read run 0 (\<lambda>db. Inr (map scan_device
       (rev (sort_key (\<lambda>(_, r). device_row.dv_LastSeen r) (sd_devices db))))) db"

text \<open>\<open>GetDevice\<close> reads the name, the system and the time, not the number of agents.\<close>

definition GetDevice :: "store_run \<Rightarrow> string \<Rightarrow> server_db \<Rightarrow> server_db \<times> (store_error + Device)" where
  "GetDevice run i db =
     store_read run 0 (\<lambda>db. case map_of (sd_devices db) i of
         None \<Rightarrow> Inl ErrNoRows
       | Some r \<Rightarrow> Inr ((scan_device (i, r))\<lparr>Device.dv_ActiveAgents := 0\<rparr>)) db"

definition GetDevicePublicKeys ::
  "store_run \<Rightarrow> string \<Rightarrow> server_db \<Rightarrow> server_db \<times> (store_error + DevicePublicKeys)" where
  "GetDevicePublicKeys run i db =
     store_read run 0 (\<lambda>db. case map_of (sd_devices db) i of
         None \<Rightarrow> Inl ErrNoRows
       | Some r \<Rightarrow> Inr \<lparr>dk_Ed25519Public = dv_Ed25519Public r, dk_X25519Public = dv_X25519Public r,
                       dk_Fingerprint = dv_Fingerprint r\<rparr>) db"

definition ListPhones :: "store_run \<Rightarrow> server_db \<Rightarrow> server_db \<times> (store_error + (string \<times> PhoneIdentity) list)" where
  "ListPhones run db =
     store_read run 0 (\<lambda>db. Inr (rev (sort_key (\<lambda>(_, r). pi_CreatedAt r) (sd_phones db)))) db"

section \<open>Authentication and authorisation\<close>

definition secureEqual :: "string \<Rightarrow> string \<Rightarrow> bool" where
  "secureEqual a b \<longleftrightarrow> a = b"

definition phoneSecretFromRequest :: "http_request \<Rightarrow> string" where
  "phoneSecretFromRequest r =
     (if hq_Header r ''X-Neko-Secret'' \<noteq> [] then hq_Header r ''X-Neko-Secret''
      else if hq_Header r ''X-Neko-Phone-Token'' \<noteq> [] then hq_Header r ''X-Neko-Phone-Token''
      else if prefix ''Bearer '' (hq_Header r ''Authorization'')
      then TrimPrefix ''Bearer '' (hq_Header r ''Authorization'')
      else if hq_Query r ''secret'' \<noteq> [] then hq_Query r ''secret''
      else if hq_Query r ''phone_token'' \<noteq> [] then hq_Query r ''phone_token''
      else [])"

definition phone_refused :: response where
  "phone_refused = stableError ServiceErrorPhoneCredentialInvalid ''phone credential invalid'' False 401"

definition device_refused :: response where
  "device_refused = stableError ServiceErrorDeviceCredentialInvalid ''invalid device token'' False 401"

definition admin_auth :: PhoneAuth where
  "admin_auth = \<lparr>au_PhoneID = [], au_Name = ''admin'', au_AdminBypass = True\<rparr>"

definition phone_auth :: "string \<times> string \<Rightarrow> PhoneAuth" where
  "phone_auth x = \<lparr>au_PhoneID = fst x, au_Name = snd x, au_AdminBypass = False\<rparr>"

definition requirePhoneAuthResult ::
  "engine \<Rightarrow> relay_env \<Rightarrow> http_request \<Rightarrow> relay \<Rightarrow> relay \<times> (response + PhoneAuth option)" where
  "requirePhoneAuthResult en env r rl =
     (if en_phoneSecret en = [] then (rl, Inr None)
      else let cred = phoneSecretFromRequest r
           in if cred = [] then (rl, Inl phone_refused)
              else if secureEqual cred (en_phoneSecret en) then (rl, Inr (Some admin_auth))
              else (case on_store (db_ValidatePhoneToken (en_hash en) (re_store env 0) cred) rl of
                      (rl, Inl e) \<Rightarrow> (rl, Inl phone_refused)
                    | (rl, Inr x) \<Rightarrow> (rl, Inr (Some (phone_auth x)))))"

definition unrestricted :: "PhoneAuth option \<Rightarrow> bool" where
  "unrestricted auth \<longleftrightarrow> (case auth of None \<Rightarrow> True | Some a \<Rightarrow> au_AdminBypass a)"

definition auth_phone :: "PhoneAuth option \<Rightarrow> string" where
  "auth_phone auth = (case auth of None \<Rightarrow> [] | Some a \<Rightarrow> au_PhoneID a)"

definition phoneMayAccessDevice ::
  "store_run \<Rightarrow> PhoneAuth option \<Rightarrow> string \<Rightarrow> relay \<Rightarrow> relay \<times> bool" where
  "phoneMayAccessDevice run auth dev rl =
     (if unrestricted auth then (rl, True)
      else on_store (PhoneHasDeviceGrant run (auth_phone auth) dev) rl)"

definition visibleDevices ::
  "relay_env \<Rightarrow> nat \<Rightarrow> PhoneAuth option \<Rightarrow> relay \<Rightarrow> relay \<times> (store_error + Device list)" where
  "visibleDevices env n auth rl =
     (case on_store (ListDevices (re_store env n)) rl of
        (rl, Inl e) \<Rightarrow> (rl, Inl e)
      | (rl, Inr devices) \<Rightarrow>
          if unrestricted auth then (rl, Inr devices)
          else (case on_store (ListPhoneDeviceIDs (re_store env (n + 1)) (auth_phone auth)) rl of
                  (rl, Inl e) \<Rightarrow> (rl, Inl e)
                | (rl, Inr allowed) \<Rightarrow> (rl, Inr (filter (\<lambda>d. dv_ID d \<in> set allowed) devices))))"

definition GetOnlineDevices :: "relay_conns \<Rightarrow> string list" where
  "GetOnlineDevices rc = map fst (reg_conns (rc_daemons rc))"

definition GetDaemonVersion :: "relay_conns \<Rightarrow> string \<Rightarrow> string" where
  "GetDaemonVersion rc dev =
     (case map_of (reg_conns (rc_daemons rc)) dev of
        None \<Rightarrow> [] | Some r \<Rightarrow> dc_AppVersion (conn_of (rc_daemons rc) r))"

definition decorateDeviceOnlineStatus :: "relay_conns \<Rightarrow> Device list \<Rightarrow> Device list" where
  "decorateDeviceOnlineStatus rc =
     map (\<lambda>d. if dv_ID d \<in> set (GetOnlineDevices rc)
              then d\<lparr>dv_Status := ''online'', dv_DaemonVersion := GetDaemonVersion rc (dv_ID d)\<rparr> else d)"

definition version_char :: "char \<Rightarrow> bool" where
  "version_char c \<longleftrightarrow>
     (let b = byte c in 48 \<le> b \<and> b \<le> 57 \<or> 65 \<le> b \<and> b \<le> 90 \<or> 97 \<le> b \<and> b \<le> 122)
     \<or> c \<in> {CHR ''.'', CHR ''-'', CHR ''+''}"

definition reportedComponentVersion :: "payload \<Rightarrow> string \<Rightarrow> string" where
  "reportedComponentVersion p key =
     (case as_string (field p key) of
        None \<Rightarrow> []
      | Some raw \<Rightarrow>
          let value = TrimSpace raw
          in if value = [] \<or> 64 < length value \<or> \<not> list_all version_char value then [] else value)"

section \<open>Handlers for phones\<close>

definition method_not_allowed :: response where
  "method_not_allowed = HttpError 405 (Text ''method not allowed'')"

definition handleHealth :: "engine \<Rightarrow> relay_env \<Rightarrow> response" where
  "handleHealth en env = Body (Health (en_appVersion en) CurrentProtocolVersion (re_mode env))"

definition handleListDevices :: "engine \<Rightarrow> relay_env \<Rightarrow> http_request \<Rightarrow> relay \<Rightarrow> relay \<times> response" where
  "handleListDevices en env r rl =
     (if hq_Method r \<noteq> ''GET'' then (rl, method_not_allowed)
      else (case requirePhoneAuthResult en env r rl of
              (rl, Inl refused) \<Rightarrow> (rl, refused)
            | (rl, Inr auth) \<Rightarrow>
                (case visibleDevices env 1 auth rl of
                   (rl, Inl e) \<Rightarrow>
                     (rl, stableError ServiceErrorServiceProvisioning ''device list unavailable'' True 500)
                 | (rl, Inr devices) \<Rightarrow>
                     (rl, Body (DeviceListing (decorateDeviceOnlineStatus (rl_conns rl) devices)
                                  (en_appVersion en))))))"

definition handleDeviceSessions :: "engine \<Rightarrow> relay_env \<Rightarrow> http_request \<Rightarrow> relay \<Rightarrow> relay \<times> response" where
  "handleDeviceSessions en env r rl =
     (if hq_Method r \<noteq> ''GET'' then (rl, method_not_allowed)
      else (case requirePhoneAuthResult en env r rl of
              (rl, Inl refused) \<Rightarrow> (rl, refused)
            | (rl, Inr auth) \<Rightarrow>
                let dev = hq_Query r ''device_id''
                in if dev = [] then (rl, HttpError 400 (Text ''device_id required''))
                   else (case phoneMayAccessDevice (re_store env 1) auth dev rl of
                           (rl, False) \<Rightarrow> (rl, HttpError 403 (Text ''forbidden''))
                         | (rl, True) \<Rightarrow> (rl, Body (SessionListing (GetDeviceSessions (rl_conns rl) dev))))))"

definition messages_limit :: "string \<Rightarrow> int" where
  "messages_limit l =
     (if l = [] then 100
      else (case Atoi l of None \<Rightarrow> 100 | Some n \<Rightarrow> if 0 < n \<and> n \<le> 500 then n else 100))"

definition handleMessages :: "engine \<Rightarrow> relay_env \<Rightarrow> http_request \<Rightarrow> relay \<Rightarrow> relay \<times> response" where
  "handleMessages en env r rl =
     (case requirePhoneAuthResult en env r rl of
        (rl, Inl refused) \<Rightarrow> (rl, refused)
      | (rl, Inr auth) \<Rightarrow>
          if hq_Method r \<noteq> ''GET'' then (rl, method_not_allowed)
          else let dev = hq_Query r ''device_id'';
                   ses = hq_Query r ''session_id''
               in if dev = [] \<or> ses = [] then (rl, HttpError 400 (Text ''device_id and session_id required''))
                  else (case phoneMayAccessDevice (re_store env 1) auth dev rl of
                          (rl, False) \<Rightarrow> (rl, HttpError 403 (Text ''forbidden''))
                        | (rl, True) \<Rightarrow>
                            let limit = messages_limit (hq_Query r ''limit'')
                            in (case GetMessages (re_codec env) (re_query_fails env) (re_visit env) dev ses
                                       (limit + 1) (rl_messages rl) of
                                  Inl e \<Rightarrow> (rl, HttpError 500 (HistoryText e))
                                | Inr ms \<Rightarrow>
                                    (case truncateHistory ms limit of
                                       (ms, truncated) \<Rightarrow> (rl, Body (MessageListing ms limit truncated))))))"

record subscribe_body =
  sb_DeviceID :: string
  sb_Endpoint :: string
  sb_P256DH :: string
  sb_Auth :: string

definition push_accepted :: "engine \<Rightarrow> string \<Rightarrow> string \<Rightarrow> string \<Rightarrow> response option" where
  "push_accepted en endpoint p256dh auth =
     (case en_pushSink en of
        Some sink \<Rightarrow>
          if sk_Validate sink endpoint p256dh auth then None
          else Some (HttpError 400 (Text ''invalid push subscription''))
      | None \<Rightarrow>
          if ValidateEndpoint (en_push en) endpoint \<noteq> None
          then Some (HttpError 400 (Text ''invalid push endpoint''))
          else if ValidateKeys (en_push en) p256dh auth \<noteq> None
          then Some (HttpError 400 (Text ''invalid push subscription keys''))
          else None)"

definition save_subscription :: "relay_env \<Rightarrow> PushSubscription \<Rightarrow> relay \<Rightarrow> relay \<times> response" where
  "save_subscription env sub rl =
     (case on_store (SavePushSubscription (re_store env 3) sub) rl of
        (rl, Some e) \<Rightarrow> (rl, HttpError 500 (StoreText e))
      | (rl, None) \<Rightarrow> (rl, Body PushSubscribed))"

definition handlePushSubscribe ::
  "engine \<Rightarrow> relay_env \<Rightarrow> http_request \<Rightarrow> subscribe_body option \<Rightarrow> relay \<Rightarrow> relay \<times> response" where
  "handlePushSubscribe en env r body rl =
     (if hq_Method r \<noteq> ''POST'' then (rl, method_not_allowed)
      else (case requirePhoneAuthResult en env r rl of
              (rl, Inl refused) \<Rightarrow> (rl, refused)
            | (rl, Inr auth) \<Rightarrow>
                (case body of
                   None \<Rightarrow> (rl, HttpError 400 (Text ''invalid request''))
                 | Some req \<Rightarrow>
                     let dev = TrimSpace (sb_DeviceID req); endpoint = TrimSpace (sb_Endpoint req);
                         p256dh = TrimSpace (sb_P256DH req); key = TrimSpace (sb_Auth req)
                     in if dev = [] \<or> endpoint = [] \<or> p256dh = [] \<or> key = []
                        then (rl, HttpError 400 (Text ''device_id, endpoint, p256dh and auth required''))
                        else if 256 < length dev \<or> 4096 < length endpoint \<or> 512 < length p256dh \<or> 256 < length key
                        then (rl, HttpError 400 (Text ''push subscription field too long''))
                        else (case on_store (DeviceExists (re_store env 1) 0 dev) rl of
                                (rl, False) \<Rightarrow> (rl, HttpError 404 (Text ''unknown device''))
                              | (rl, True) \<Rightarrow>
                                  (case push_accepted en endpoint p256dh key of
                                     Some refused \<Rightarrow> (rl, refused)
                                   | None \<Rightarrow>
                                       let sub = \<lparr>ps_ID = 0, ps_DeviceID = dev, ps_PhoneID = [],
                                             ps_Endpoint = endpoint, ps_P256DH = p256dh, ps_Auth = key,
                                             ps_CreatedAt = 0\<rparr>
                                       in if unrestricted auth then save_subscription env sub rl
                                          else (case phoneMayAccessDevice (re_store env 2) auth dev rl of
                                                  (rl, False) \<Rightarrow> (rl, HttpError 403 (Text ''forbidden''))
                                                | (rl, True) \<Rightarrow>
                                                    save_subscription env (sub\<lparr>ps_PhoneID := auth_phone auth\<rparr>) rl))))))"

definition handleVAPIDPublicKey :: "engine \<Rightarrow> relay_env \<Rightarrow> http_request \<Rightarrow> relay \<Rightarrow> relay \<times> response" where
  "handleVAPIDPublicKey en env r rl =
     (if hq_Method r \<noteq> ''GET'' then (rl, method_not_allowed)
      else (case requirePhoneAuthResult en env r rl of
              (rl, Inl refused) \<Rightarrow> (rl, refused)
            | (rl, Inr auth) \<Rightarrow>
                (rl, Body (case en_pushSink en of
                             Some sink \<Rightarrow> VapidKey (sk_Enabled sink) (sk_PublicKey sink)
                           | None \<Rightarrow> if Enabled (en_vapidPub en) (en_vapidPriv en)
                                     then VapidKey True (en_vapidPub en) else VapidKey False []))))"

definition handleKeyPackages :: "engine \<Rightarrow> relay_env \<Rightarrow> http_request \<Rightarrow> relay \<Rightarrow> relay \<times> response" where
  "handleKeyPackages en env r rl =
     (if hq_Method r \<noteq> ''GET'' then (rl, method_not_allowed)
      else (case requirePhoneAuthResult en env r rl of
              (rl, Inl refused) \<Rightarrow> (rl, refused)
            | (rl, Inr auth) \<Rightarrow>
                let dev = TrimSpace (hq_Query r ''device_id'');
                    list = (\<lambda>phone rl. case on_store (ListKeyPackages (re_store env 2) phone dev) rl of
                              (rl, Inl e) \<Rightarrow> (rl, HttpError 500 (StoreText e))
                            | (rl, Inr pkgs) \<Rightarrow> (rl, Body (PackageListing pkgs)))
                in if dev = [] then (rl, HttpError 400 (Text ''device_id required''))
                   else if unrestricted auth
                   then let phone = TrimSpace (hq_Query r ''phone_id'')
                        in if phone = [] then (rl, HttpError 400 (Text ''phone_id required for admin listing''))
                           else list phone rl
                   else (case phoneMayAccessDevice (re_store env 1) auth dev rl of
                           (rl, False) \<Rightarrow> (rl, HttpError 403 (Text ''forbidden''))
                         | (rl, True) \<Rightarrow> list (auth_phone auth) rl)))"

definition handleListPhones :: "engine \<Rightarrow> relay_env \<Rightarrow> http_request \<Rightarrow> relay \<Rightarrow> relay \<times> response" where
  "handleListPhones en env r rl =
     (if hq_Method r \<noteq> ''GET'' then (rl, method_not_allowed)
      else if en_phoneSecret en \<noteq> [] \<and> \<not> secureEqual (phoneSecretFromRequest r) (en_phoneSecret en)
      then (rl, phone_refused)
      else (case on_store (ListPhones (re_store env 0)) rl of
              (rl, Inl e) \<Rightarrow> (rl, HttpError 500 (StoreText e))
            | (rl, Inr phones) \<Rightarrow>
                (rl, Body (PhoneListing (map (\<lambda>(i, p).
                   \<lparr>lp_ID = i, lp_Name = pi_Name p, lp_CreatedAt = pi_CreatedAt p,
                    lp_LastSeen = pi_LastSeen p, lp_Revoked = (0 < pi_RevokedAt p)\<rparr>) phones)))))"

definition handlePhoneBootstrap ::
  "engine \<Rightarrow> relay_env \<Rightarrow> api_random \<Rightarrow> http_request \<Rightarrow> string \<Rightarrow> relay \<Rightarrow> relay \<times> response" where
  "handlePhoneBootstrap en env rnd r name rl =
     (if hq_Method r \<noteq> ''POST'' then (rl, method_not_allowed)
      else if en_phoneSecret en \<noteq> [] \<and> \<not> secureEqual (phoneSecretFromRequest r) (en_phoneSecret en)
      then (rl, phone_refused)
      else (case on_store (CreatePhoneIdentity (en_hash en) (re_store env 0) (ar_token rnd) (ar_phoneID rnd) name) rl of
              (rl, Inl e) \<Rightarrow> (rl, HttpError 500 (StoreText e))
            | (rl, Inr (phoneID, token)) \<Rightarrow> (rl, Body (PhoneCreated phoneID token name))))"

definition close_principal :: "string \<Rightarrow> relay \<Rightarrow> relay" where
  "close_principal phoneID rl =
     rl\<lparr>rl_conns := (rl_conns rl)\<lparr>rc_phones := fst (ClosePhonesByPrincipal phoneID (rc_phones (rl_conns rl)))\<rparr>\<rparr>"

definition handleRevokePhone ::
  "engine \<Rightarrow> relay_env \<Rightarrow> http_request \<Rightarrow> string option \<Rightarrow> relay \<Rightarrow> relay \<times> response" where
  "handleRevokePhone en env r body rl =
     (if hq_Method r \<noteq> ''POST'' then (rl, method_not_allowed)
      else (case requirePhoneAuthResult en env r rl of
              (rl, Inl refused) \<Rightarrow> (rl, refused)
            | (rl, Inr auth) \<Rightarrow>
                (case body of
                   None \<Rightarrow> (rl, HttpError 400 (Text ''phone_id required''))
                 | Some phoneID \<Rightarrow>
                     if TrimSpace phoneID = [] then (rl, HttpError 400 (Text ''phone_id required''))
                     else if \<not> unrestricted auth \<and> auth_phone auth \<noteq> phoneID
                     then (rl, HttpError 403 (Text ''forbidden''))
                     else (case on_store (db_RevokePhone (re_store env 1) phoneID) rl of
                             (rl, Some StorePhoneNotFound) \<Rightarrow> (rl, HttpError 404 (Text ''not found''))
                           | (rl, Some e) \<Rightarrow> (rl, HttpError 500 (StoreText e))
                           | (rl, None) \<Rightarrow> (close_principal phoneID rl, Body (PhoneRevoked phoneID))))))"

section \<open>Handlers for daemons\<close>

record register_body =
  rb_DeviceID :: string
  rb_Name :: string
  rb_OS :: string
  rb_Ed25519Public :: string
  rb_X25519Public :: string
  rb_IdentityFingerprint :: string
  rb_TransportMode :: string

definition bootstrap_of :: "http_request \<Rightarrow> string" where
  "bootstrap_of r =
     (if hq_Header r ''X-Neko-Bootstrap'' \<noteq> [] then hq_Header r ''X-Neko-Bootstrap''
      else hq_Query r ''bootstrap'')"

definition set_device_keys ::
  "store_run \<Rightarrow> string \<Rightarrow> string \<Rightarrow> string \<Rightarrow> string \<Rightarrow> relay \<Rightarrow> relay" where
  "set_device_keys run dev ed x fp rl = fst (on_store (SetDevicePublicKeys run dev ed x fp) rl)"

definition register_device ::
  "engine \<Rightarrow> relay_env \<Rightarrow> api_random \<Rightarrow> register_body \<Rightarrow> string \<Rightarrow> relay \<Rightarrow> relay \<times> response" where
  "register_device en env rnd req dev rl =
     (let name = (if rb_Name req = [] then ''Host PC'' else rb_Name req)
      in (case on_store (RegisterDevice (en_hash en) (re_store env 0) (ar_token rnd) dev name (Some (rb_OS req))) rl of
            (rl, Inl e) \<Rightarrow>
              (case on_store (DeviceExists (re_store env 1) 0 dev) rl of
                 (rl, True) \<Rightarrow>
                   (rl, stableError ServiceErrorDeviceIdentityConflict ''device registration failed'' False 409)
               | (rl, False) \<Rightarrow>
                   (rl, stableError ServiceErrorServiceProvisioning ''device registration unavailable'' True 500))
          | (rl, Inr token) \<Rightarrow>
              ((if rb_Ed25519Public req \<noteq> [] \<or> rb_X25519Public req \<noteq> []
                then set_device_keys (re_store env 1) dev (rb_Ed25519Public req) (rb_X25519Public req)
                       (rb_IdentityFingerprint req) rl
                else rl),
               Body (DeviceRegistered \<lparr>dr_DeviceID = dev, dr_Token = token, dr_Name = name,
                 dr_TransportMode = re_mode env, dr_ConnectionState = ConnectionReady,
                 dr_RetryAfterSeconds = 0\<rparr>))))"

definition handleRegisterDevice ::
  "engine \<Rightarrow> relay_env \<Rightarrow> api_random \<Rightarrow> http_request \<Rightarrow> register_body option \<Rightarrow> relay \<Rightarrow> relay \<times> response" where
  "handleRegisterDevice en env rnd r body rl =
     (let bootstrap = TrimSpace (en_bootstrap en)
      in if hq_Method r \<noteq> ''POST'' then (rl, method_not_allowed)
         else if en_phoneSecret en \<noteq> [] \<and> bootstrap = []
         then (rl, stableError ServiceErrorRegistrationDisabled ''device registration is disabled'' False 503)
         else if bootstrap \<noteq> [] \<and> \<not> secureEqual (bootstrap_of r) bootstrap
         then (rl, stableError ServiceErrorDeviceCredentialInvalid ''registration credential invalid'' False 401)
         else (case body of
                 None \<Rightarrow> (rl, HttpError 400 (Text ''invalid request''))
               | Some req \<Rightarrow>
                   if rb_TransportMode req \<noteq> [] \<and> rb_TransportMode req \<noteq> transport_text (re_mode env)
                   then (rl, HttpError 409 (Text (''transport_mode mismatch: nest is '' @ transport_text (re_mode env))))
                   else if rb_DeviceID req = []
                   then (case ar_deviceID rnd of
                           None \<Rightarrow>
                             (rl, stableError ServiceErrorServiceProvisioning
                                    ''device registration unavailable'' True 500)
                         | Some b \<Rightarrow> register_device en env rnd req (''device_'' @ b) rl)
                   else register_device en env rnd req (rb_DeviceID req) rl))"

record key_body =
  kb_DeviceID :: string
  kb_Token :: string
  kb_Ed25519Public :: string
  kb_X25519Public :: string
  kb_IdentityFingerprint :: string

definition device_token_ok :: "engine \<Rightarrow> store_run \<Rightarrow> string \<Rightarrow> string \<Rightarrow> relay \<Rightarrow> relay \<times> bool" where
  "device_token_ok en run dev token rl =
     (if dev = [] \<or> token = [] then (rl, False)
      else on_store (db_ValidateDeviceToken (en_hash en) run dev token) rl)"

definition pair_code_created ::
  "relay_env \<Rightarrow> string \<Rightarrow> seconds \<Rightarrow> string \<Rightarrow> relay \<Rightarrow> relay \<times> response" where
  "pair_code_created env code expires dev rl =
     (case on_store (GetDevicePublicKeys (re_store env 3) dev) rl of
        (rl, keys) \<Rightarrow>
          (case on_store (GetDevice (re_store env 4) dev) rl of
             (rl, d) \<Rightarrow>
               (rl, Body (PairCodeCreated code expires dev (re_mode env)
                 (case keys of Inl e \<Rightarrow> None | Inr k \<Rightarrow> Some k)
                 (case d of Inl e \<Rightarrow> None | Inr d \<Rightarrow> Some (Device.dv_Name d, Device.dv_OS d))))))"

definition handleGeneratePairCode ::
  "engine \<Rightarrow> relay_env \<Rightarrow> api_random \<Rightarrow> http_request \<Rightarrow> key_body option \<Rightarrow> relay \<Rightarrow> relay \<times> response" where
  "handleGeneratePairCode en env rnd r body rl =
     (if hq_Method r \<noteq> ''POST'' then (rl, method_not_allowed)
      else (case body of
              None \<Rightarrow> (rl, HttpError 400 (Text ''invalid request''))
            | Some req \<Rightarrow>
                if kb_DeviceID req = [] then (rl, HttpError 400 (Text ''device_id required''))
                else (case device_token_ok en (re_store env 0) (kb_DeviceID req) (kb_Token req) rl of
                        (rl, False) \<Rightarrow> (rl, device_refused)
                      | (rl, True) \<Rightarrow>
                          let rl = (if kb_Ed25519Public req \<noteq> [] \<and> kb_X25519Public req \<noteq> []
                                    then set_device_keys (re_store env 1) (kb_DeviceID req) (kb_Ed25519Public req)
                                           (kb_X25519Public req) (kb_IdentityFingerprint req) rl
                                    else rl)
                          in (case ar_pairCode rnd of
                                None \<Rightarrow>
                                  (rl, stableError ServiceErrorServiceProvisioning ''pair code unavailable'' True 500)
                              | Some b \<Rightarrow>
                                  let code = take 6 b; expires = re_now env + 300
                                  in (case on_store (CreatePairCode (re_store env 2) code (kb_DeviceID req) expires) rl of
                                        (rl, Some e) \<Rightarrow>
                                          (rl, stableError ServiceErrorServiceProvisioning
                                                 ''pair code unavailable'' True 500)
                                      | (rl, None) \<Rightarrow> pair_code_created env code expires (kb_DeviceID req) rl)))))"

definition handleUploadDeviceKeys ::
  "engine \<Rightarrow> relay_env \<Rightarrow> http_request \<Rightarrow> key_body option \<Rightarrow> relay \<Rightarrow> relay \<times> response" where
  "handleUploadDeviceKeys en env r body rl =
     (if hq_Method r \<noteq> ''POST'' then (rl, method_not_allowed)
      else (case body of
              None \<Rightarrow> (rl, HttpError 400 (Text ''invalid request''))
            | Some req \<Rightarrow>
                (case device_token_ok en (re_store env 0) (kb_DeviceID req) (kb_Token req) rl of
                   (rl, False) \<Rightarrow> (rl, device_refused)
                 | (rl, True) \<Rightarrow>
                     if kb_Ed25519Public req = [] \<or> kb_X25519Public req = [] \<or> kb_IdentityFingerprint req = []
                     then (rl, HttpError 400 (Text ''public keys required''))
                     else (case on_store (SetDevicePublicKeys (re_store env 1) (kb_DeviceID req)
                                  (kb_Ed25519Public req) (kb_X25519Public req) (kb_IdentityFingerprint req)) rl of
                             (rl, Some e) \<Rightarrow> (rl, HttpError 500 (StoreText e))
                           | (rl, None) \<Rightarrow> (rl, Body (KeysPublished (kb_DeviceID req)))))))"

definition handleListDeviceGrants :: "engine \<Rightarrow> relay_env \<Rightarrow> http_request \<Rightarrow> relay \<Rightarrow> relay \<times> response" where
  "handleListDeviceGrants en env r rl =
     (if hq_Method r \<noteq> ''GET'' then (rl, method_not_allowed)
      else let dev = TrimSpace (hq_Query r ''device_id'');
               token = TrimSpace (hq_Header r ''X-Neko-Device-Token'');
               token = (if token = [] then phoneSecretFromRequest r else token)
           in (case device_token_ok en (re_store env 0) dev token rl of
                 (rl, False) \<Rightarrow> (rl, device_refused)
               | (rl, True) \<Rightarrow>
                   (case on_store (ListPhoneGrantsForDevice (re_store env 1) dev) rl of
                      (rl, Inl e) \<Rightarrow> (rl, HttpError 500 (StoreText e))
                    | (rl, Inr grants) \<Rightarrow> (rl, Body (GrantListing grants)))))"

record package_body =
  kg_DeviceID :: string
  kg_Token :: string
  kg_PhoneID :: string
  kg_Scope :: string
  kg_SessionID :: string
  kg_Epoch :: uint64
  kg_WrappedKey :: string
  kg_Nonce :: string

definition package_id :: "package_body \<Rightarrow> key_id" where
  "package_id req = \<lparr>kk_PhoneID = kg_PhoneID req, kk_DeviceID = kg_DeviceID req, kk_Scope = kg_Scope req,
     kk_SessionID = kg_SessionID req, kk_Epoch = kg_Epoch req\<rparr>"

definition package_message :: "relay_env \<Rightarrow> package_body \<Rightarrow> NekoMessage" where
  "package_message env req =
     (stampEnvelope (re_mode env) (NewMessage (re_now env) MsgKeyPackage (kg_DeviceID req)))
       \<lparr>nm_Payload := Some [(''phone_id'', JString (kg_PhoneID req)), (''scope'', JString (kg_Scope req)),
          (''session_id'', JString (kg_SessionID req)), (''epoch'', JNumber (of_nat (unat (kg_Epoch req)))),
          (''wrapped_key'', JString (kg_WrappedKey req)), (''nonce'', JString (kg_Nonce req))]\<rparr>"

definition handleUploadKeyPackage ::
  "engine \<Rightarrow> relay_env \<Rightarrow> http_request \<Rightarrow> package_body option \<Rightarrow> relay \<Rightarrow> relay \<times> response" where
  "handleUploadKeyPackage en env r body rl =
     (if hq_Method r \<noteq> ''POST'' then (rl, method_not_allowed)
      else (case body of
              None \<Rightarrow> (rl, HttpError 400 (Text ''invalid request''))
            | Some req \<Rightarrow>
                (case device_token_ok en (re_store env 0) (kg_DeviceID req) (kg_Token req) rl of
                   (rl, False) \<Rightarrow> (rl, device_refused)
                 | (rl, True) \<Rightarrow>
                     if kg_PhoneID req = [] \<or> kg_Scope req = [] \<or> kg_WrappedKey req = [] \<or> kg_Nonce req = []
                     then (rl, HttpError 400 (Text ''phone_id, scope, wrapped_key, nonce required''))
                     else (case on_store (UpsertKeyPackage (re_store env 1) (package_id req)
                                  (kg_WrappedKey req) (kg_Nonce req)) rl of
                             (rl, Some e) \<Rightarrow> (rl, HttpError 500 (StoreText e))
                           | (rl, None) \<Rightarrow>
                               (broadcast env (kg_DeviceID req) (package_message env req) rl, Body PackageStored)))))"

section \<open>Pairing\<close>

record pair_body =
  pb_Code :: string
  pb_Name :: string
  pb_ExpectedFingerprint :: string
  pb_ExpectedDeviceID :: string
  pb_PhoneEd25519Public :: string
  pb_PhoneX25519Public :: string

definition pair_phone ::
  "engine \<Rightarrow> relay_env \<Rightarrow> api_random \<Rightarrow> PhoneAuth option \<Rightarrow> string \<Rightarrow> relay
   \<Rightarrow> relay \<times> (store_error + string \<times> string option)" where
  "pair_phone en env rnd auth name rl =
     (if \<not> unrestricted auth \<and> auth_phone auth \<noteq> [] then (rl, Inr (auth_phone auth, None))
      else (case on_store (CreatePhoneIdentity (en_hash en) (re_store env 4) (ar_token rnd) (ar_phoneID rnd) name) rl of
              (rl, Inl e) \<Rightarrow> (rl, Inl e)
            | (rl, Inr (phoneID, token)) \<Rightarrow> (rl, Inr (phoneID, Some token))))"

definition pair_ready :: "relay_env \<Rightarrow> string \<Rightarrow> string \<Rightarrow> pair_body \<Rightarrow> NekoMessage" where
  "pair_ready env dev phoneID req =
     (stampEnvelope (re_mode env) (NewMessage (re_now env) MsgPairReady dev))
       \<lparr>nm_Payload := Some [(''phone_id'', JString phoneID),
          (''phone_ed25519_public'', JString (pb_PhoneEd25519Public req)),
          (''phone_x25519_public'', JString (pb_PhoneX25519Public req)),
          (''pair_code'', JString (pb_Code req))]\<rparr>"

definition pair_grant ::
  "relay_env \<Rightarrow> pair_body \<Rightarrow> string \<Rightarrow> string \<Rightarrow> string option \<Rightarrow> string \<Rightarrow> DevicePublicKeys option
   \<Rightarrow> relay \<Rightarrow> relay \<times> response" where
  "pair_grant env req dev phoneID token name keys rl =
     (let rl = (if pb_PhoneEd25519Public req \<noteq> [] \<or> pb_PhoneX25519Public req \<noteq> []
                then fst (on_store (SetPhonePublicKeys (re_store env 5) phoneID (pb_PhoneEd25519Public req)
                            (pb_PhoneX25519Public req)) rl)
                else rl)
      in (case on_store (GrantPhoneDevice (re_store env 6) phoneID dev) rl of
            (rl, Some e) \<Rightarrow> (rl, HttpError 500 (StoreText e))
          | (rl, None) \<Rightarrow>
              (fst (send env 0 dev (pair_ready env dev phoneID req) rl),
               Body (Paired dev name keys phoneID token))))"

definition pair_with ::
  "engine \<Rightarrow> relay_env \<Rightarrow> api_random \<Rightarrow> PhoneAuth option \<Rightarrow> pair_body \<Rightarrow> string \<Rightarrow> relay \<Rightarrow> relay \<times> response" where
  "pair_with en env rnd auth req dev rl =
     (if pb_ExpectedDeviceID req \<noteq> [] \<and> pb_ExpectedDeviceID req \<noteq> dev
      then (rl, HttpError 409 (Text ''device fingerprint mismatch''))
      else (case on_store (GetDevice (re_store env 2) dev) rl of
              (rl, d) \<Rightarrow>
                (case on_store (GetDevicePublicKeys (re_store env 3) dev) rl of
                   (rl, k) \<Rightarrow>
                     let name = (case d of Inl e \<Rightarrow> dev | Inr d \<Rightarrow> Device.dv_Name d);
                         keys = (case k of Inl e \<Rightarrow> None | Inr k \<Rightarrow> Some k);
                         fp = (case keys of None \<Rightarrow> [] | Some k \<Rightarrow> dk_Fingerprint k)
                     in if pb_ExpectedFingerprint req \<noteq> [] \<and> fp \<noteq> [] \<and> pb_ExpectedFingerprint req \<noteq> fp
                        then (rl, HttpError 409 (Text ''device fingerprint mismatch''))
                        else (case pair_phone en env rnd auth (pb_Name req) rl of
                                (rl, Inl e) \<Rightarrow> (rl, HttpError 500 (StoreText e))
                              | (rl, Inr (phoneID, token)) \<Rightarrow>
                                  pair_grant env req dev phoneID token name keys rl))))"

definition handleConsumePairCode ::
  "engine \<Rightarrow> relay_env \<Rightarrow> api_random \<Rightarrow> http_request \<Rightarrow> pair_body option \<Rightarrow> relay \<Rightarrow> relay \<times> response" where
  "handleConsumePairCode en env rnd r body rl =
     (if hq_Method r \<noteq> ''POST'' then (rl, method_not_allowed)
      else (case requirePhoneAuthResult en env r rl of
              (rl, Inl refused) \<Rightarrow> (rl, refused)
            | (rl, Inr auth) \<Rightarrow>
                (case body of
                   None \<Rightarrow> (rl, HttpError 400 (Text ''invalid request''))
                 | Some req \<Rightarrow>
                     (case on_store (ConsumePairCode (re_store env 1) (pb_Code req)) rl of
                        (rl, Inl e) \<Rightarrow> (rl, HttpError 404 (Text ''invalid or expired code''))
                      | (rl, Inr dev) \<Rightarrow> pair_with en env rnd auth req dev rl))))"

section \<open>What the store knew\<close>

text \<open>
  \<open>token_holder\<close> and \<open>granted\<close> are read off the tables.  A statement is \<open>neutral\<close> for a token hash
  and a device when it neither enrols a phone with that hash nor grants the device.  Neutral
  statements create no holder and no grant, so what a handler finds after them was true
  before.
\<close>

definition token_holder :: "(string \<Rightarrow> string) \<Rightarrow> string \<Rightarrow> string \<Rightarrow> server_db \<Rightarrow> bool" where
  "token_holder sha token p db \<longleftrightarrow>
     (\<exists>r. (p, r) \<in> set (sd_phones db) \<and> pi_TokenHash r = sha (TrimSpace token) \<and> \<not> 0 < pi_RevokedAt r)"

definition granted :: "string \<Rightarrow> string \<Rightarrow> server_db \<Rightarrow> bool" where
  "granted p d db \<longleftrightarrow> (\<exists>g. map_of (sd_grants db) (p, d) = Some g \<and> gr_RevokedAt g = 0)"

fun neutral :: "string \<Rightarrow> string \<Rightarrow> store_stmt \<Rightarrow> bool" where
  "neutral hash d (UpsertGrant now p d') = (d' \<noteq> d)"
| "neutral hash d (InsertPhone p r) = (pi_TokenHash r \<noteq> hash)"
| "neutral hash d s = True"

definition neutral_env :: "string \<Rightarrow> string \<Rightarrow> relay_env \<Rightarrow> bool" where
  "neutral_env hash d env \<longleftrightarrow> (\<forall>k n. list_all (neutral hash d) (st_others (re_store env k) n))"

lemma update_mem: "(k, v) \<in> set (AList.update k' v' t) \<Longrightarrow> (k, v) = (k', v') \<or> (k, v) \<in> set t"
  by (induction t) (auto split: if_splits)

lemma update_row_mem:
  assumes "update_row P f k t = (t', n)" and "(k', v) \<in> set t'"
  shows "\<exists>v0. (k', v0) \<in> set t \<and> (v = v0 \<or> v = f v0 \<and> P v0)"
  using assms by (auto simp: update_row_def dest!: update_mem dest: map_of_SomeD split: option.splits if_splits)

lemma insert_row_mem:
  assumes "insert_row k r t = (t', n)" and "(k', v) \<in> set t'"
  shows "(k', v) = (k, r) \<or> (k', v) \<in> set t"
  using assms update_mem [of k' v k r t] by (auto simp: insert_row_def split: if_splits)

lemma revoke_grants_lookup:
  "map_of (revoke_grants now p t) k
   = map_option (\<lambda>g. if fst k = p \<and> gr_RevokedAt g = 0 then g\<lparr>gr_RevokedAt := now\<rparr> else g) (map_of t k)"
  by (induction t) (auto simp: revoke_grants_def)

lemma holder_back:
  assumes "token_holder sha token p (fst (run_store s db))" and "neutral (sha (TrimSpace token)) d s"
  shows "token_holder sha token p db"
proof -
  obtain r where r: "(p, r) \<in> set (sd_phones (fst (run_store s db)))"
      "pi_TokenHash r = sha (TrimSpace token)" "\<not> 0 < pi_RevokedAt r"
    using assms(1) by (auto simp: token_holder_def)
  have "\<exists>r0. (p, r0) \<in> set (sd_phones db) \<and> pi_TokenHash r0 = pi_TokenHash r \<and> \<not> 0 < pi_RevokedAt r0"
    using r assms(2)
    by (cases s) (auto simp: save_push_def Let_def split: if_splits prod.splits
        dest!: update_row_mem insert_row_mem)
  then show ?thesis using r(2) by (auto simp: token_holder_def)
qed

lemma granted_back:
  assumes "granted p d (fst (run_store s db))" and "neutral hash d s"
  shows "granted p d db"
  using assms
  by (cases s) (auto simp: granted_def save_push_def Let_def insert_row_def update_row_def revoke_grants_lookup
      split: if_splits prod.splits option.splits)

lemma holder_back_all:
  "list_all (neutral (sha (TrimSpace token)) d) ss \<Longrightarrow> token_holder sha token p (run_all ss db)
   \<Longrightarrow> token_holder sha token p db"
  by (induction ss arbitrary: db) (auto dest: holder_back)

lemma granted_back_all:
  "list_all (neutral hash d) ss \<Longrightarrow> granted p d (run_all ss db) \<Longrightarrow> granted p d db"
  by (induction ss arbitrary: db) (auto dest: granted_back)

section \<open>Authentication\<close>

lemma on_store_eq:
  "on_store f rl = (rl', x) \<longleftrightarrow> f (rl_store rl) = (rl_store rl', x) \<and> rl' = rl\<lparr>rl_store := rl_store rl'\<rparr>"
  by (auto simp: on_store_def split: prod.splits)

lemma exec_steps:
  "\<exists>ss. fst (store_exec run n s db) = run_all ss db \<and> (\<forall>x \<in> set ss. x \<in> set (st_others run n) \<or> x = s)"
proof -
  have "fst (store_exec run n s db) = run_all (st_others run n) db
      \<or> fst (store_exec run n s db) = run_all (st_others run n @ [s]) db"
    by (auto simp: store_exec_def Let_def split: prod.splits option.splits)
  then show ?thesis
  proof
    assume "fst (store_exec run n s db) = run_all (st_others run n @ [s]) db"
    then show ?thesis by (intro exI [of _ "st_others run n @ [s]"]) simp
  qed blast
qed

lemma validated_holder:
  assumes "db_ValidatePhoneToken sha run token db = (db', Inr (p, name))"
    and "list_all (neutral (sha (TrimSpace token)) d) (st_others run 0)"
    and "list_all (neutral (sha (TrimSpace token)) d) (st_others run 1)"
  shows "token_holder sha token p db" and "granted q d db' \<Longrightarrow> granted q d db"
proof -
  let ?db = "run_all (st_others run 0) db"
  obtain r where r: "find_phone (sha (TrimSpace token)) ?db = Some (p, r)"
      "pi_TokenHash r = sha (TrimSpace token)" "\<not> 0 < pi_RevokedAt r"
    and db': "db' = fst (store_exec run 1 (TouchPhone (st_now run 1) p) ?db)"
    using assms(1)
    by (auto simp: db_ValidatePhoneToken_def store_read_def Let_def split: if_splits prod.splits option.splits)
  then have "token_holder sha token p ?db" by (auto simp: find_phone_def token_holder_def dest: find_mem)
  then show "token_holder sha token p db" using holder_back_all assms(2) by blast
  assume "granted q d db'"
  moreover obtain ss where "db' = run_all ss ?db"
    "\<forall>x \<in> set ss. x \<in> set (st_others run 1) \<or> x = TouchPhone (st_now run 1) p"
    using exec_steps [of run 1 "TouchPhone (st_now run 1) p" ?db] db' by blast
  moreover from this(2) have "list_all (neutral (sha (TrimSpace token)) d) ss"
    using assms(3) by (force simp: list_all_iff)
  ultimately have "granted q d ?db" using granted_back_all by blast
  then show "granted q d db" using granted_back_all assms(2) by blast
qed

lemma validate_quiet:
  assumes "\<And>n. st_others run n = []"
  shows "sd_grants (fst (db_ValidatePhoneToken sha run token db)) = sd_grants db"
    and "sd_devices (fst (db_ValidatePhoneToken sha run token db)) = sd_devices db"
    and "sd_pair_codes (fst (db_ValidatePhoneToken sha run token db)) = sd_pair_codes db"
  using assms
  by (simp_all add: db_ValidatePhoneToken_def store_read_def store_exec_def Let_def
      split: if_splits prod.split sum.split option.split)

lemma auth_cases:
  assumes "requirePhoneAuthResult en env r rl = (rl', Inr auth)"
  obtains (unrestricted) "unrestricted auth" "rl' = rl"
      "en_phoneSecret en = [] \<or> phoneSecretFromRequest r = en_phoneSecret en"
    | (phone) p name where "auth = Some (phone_auth (p, name))" "en_phoneSecret en \<noteq> []"
      "phoneSecretFromRequest r \<noteq> en_phoneSecret en"
      "db_ValidatePhoneToken (en_hash en) (re_store env 0) (phoneSecretFromRequest r) (rl_store rl)
         = (rl_store rl', Inr (p, name))" "rl' = rl\<lparr>rl_store := rl_store rl'\<rparr>"
  using assms
  by (auto simp: requirePhoneAuthResult_def Let_def secureEqual_def unrestricted_def admin_auth_def on_store_eq
      split: if_splits prod.splits sum.splits)

lemma auth_quiet:
  assumes "\<And>n. st_others (re_store env 0) n = []" and "requirePhoneAuthResult en env r rl = (rl', res)"
  shows "sd_grants (rl_store rl') = sd_grants (rl_store rl)"
    and "sd_devices (rl_store rl') = sd_devices (rl_store rl)"
    and "sd_pair_codes (rl_store rl') = sd_pair_codes (rl_store rl)"
proof -
  have "rl' = rl \<or> (\<exists>x. db_ValidatePhoneToken (en_hash en) (re_store env 0) (phoneSecretFromRequest r) (rl_store rl)
      = (rl_store rl', x))"
    using assms(2) by (auto simp: requirePhoneAuthResult_def Let_def on_store_eq
        split: if_splits prod.splits sum.splits)
  then show "sd_grants (rl_store rl') = sd_grants (rl_store rl)" "sd_devices (rl_store rl') = sd_devices (rl_store rl)"
    "sd_pair_codes (rl_store rl') = sd_pair_codes (rl_store rl)"
    using validate_quiet [of "re_store env 0" "en_hash en" "phoneSecretFromRequest r" "rl_store rl"] assms(1)
    by (metis fst_conv)+
qed

lemma auth_refused: "requirePhoneAuthResult en env r rl = (rl', Inl e) \<Longrightarrow> e = phone_refused"
  by (auto simp: requirePhoneAuthResult_def Let_def split: if_splits prod.splits sum.splits)

lemma phone_refused_not_body [simp]: "phone_refused \<noteq> Body b"
  by (simp add: phone_refused_def stableError_def)

lemma phone_auth_simps [simp]:
  "\<not> unrestricted (Some (phone_auth x))" "auth_phone (Some (phone_auth x)) = fst x"
  "unrestricted None" "unrestricted (Some admin_auth)"
  by (simp_all add: unrestricted_def auth_phone_def phone_auth_def admin_auth_def)

lemma grant_found:
  assumes "phoneMayAccessDevice run (Some (phone_auth (p, name))) d rl = (rl', True)"
    and "list_all (neutral hash d) (st_others run 0)"
  shows "granted p d (rl_store rl)"
proof -
  have "granted p d (run_all (st_others run 0) (rl_store rl))"
    using assms(1)
    by (auto simp: phoneMayAccessDevice_def on_store_eq PhoneHasDeviceGrant_def store_read_def granted_def Let_def
        split: if_splits prod.splits sum.splits option.splits)
  then show ?thesis using granted_back_all assms(2) by blast
qed

section \<open>Device data needs a grant\<close>

text \<open>The requests whose answer is data of one device, and the device each of them names.\<close>

datatype device_call =
  CallSessions | CallMessages | CallPackages | CallSubscribe "subscribe_body option"

fun run_call :: "engine \<Rightarrow> relay_env \<Rightarrow> http_request \<Rightarrow> device_call \<Rightarrow> relay \<Rightarrow> relay \<times> response" where
  "run_call en env r CallSessions rl = handleDeviceSessions en env r rl"
| "run_call en env r CallMessages rl = handleMessages en env r rl"
| "run_call en env r CallPackages rl = handleKeyPackages en env r rl"
| "run_call en env r (CallSubscribe body) rl = handlePushSubscribe en env r body rl"

fun call_device :: "http_request \<Rightarrow> device_call \<Rightarrow> string" where
  "call_device r (CallSubscribe (Some body)) = TrimSpace (sb_DeviceID body)"
| "call_device r CallPackages = TrimSpace (hq_Query r ''device_id'')"
| "call_device r c = hq_Query r ''device_id''"

text \<open>A successful call has authenticated the caller and found its grant, if it needs one.\<close>

lemma call_checks:
  assumes "run_call en env r c rl = (rl', Body b)"
  obtains rl1 auth where "requirePhoneAuthResult en env r rl = (rl1, Inr auth)"
    and "\<not> unrestricted auth \<Longrightarrow> \<exists>k rl2 rl3. phoneMayAccessDevice (re_store env k) auth (call_device r c) rl2 = (rl3, True)
           \<and> (rl2 = rl1 \<or> (\<exists>x. on_store (DeviceExists (re_store env 1) 0 (call_device r c)) rl1 = (rl2, x)))"
proof -
  obtain rl1 res where auth: "requirePhoneAuthResult en env r rl = (rl1, res)" by fastforce
  obtain auth where res: "res = Inr auth"
    using assms auth
    by (cases c; cases res) (auto simp: handleDeviceSessions_def handleMessages_def handleKeyPackages_def
        handlePushSubscribe_def method_not_allowed_def requirePhoneAuthResult_def phone_refused_def stableError_def
        Let_def split: if_splits sum.splits prod.splits)
  have "\<exists>k rl2 rl3. phoneMayAccessDevice (re_store env k) auth (call_device r c) rl2 = (rl3, True)
      \<and> (rl2 = rl1 \<or> (\<exists>x. on_store (DeviceExists (re_store env 1) 0 (call_device r c)) rl1 = (rl2, x)))"
    if "\<not> unrestricted auth"
  proof (cases c)
    case CallSessions
    then have "\<exists>rl3. phoneMayAccessDevice (re_store env 1) auth (call_device r c) rl1 = (rl3, True)"
      using assms auth res by (auto simp: handleDeviceSessions_def method_not_allowed_def Let_def
          split: if_splits prod.splits bool.splits)
    then show ?thesis by blast
  next
    case CallMessages
    then have "\<exists>rl3. phoneMayAccessDevice (re_store env 1) auth (call_device r c) rl1 = (rl3, True)"
      using assms auth res by (auto simp: handleMessages_def method_not_allowed_def Let_def
          split: if_splits prod.splits bool.splits)
    then show ?thesis by blast
  next
    case CallPackages
    then have "\<exists>rl3. phoneMayAccessDevice (re_store env 1) auth (call_device r c) rl1 = (rl3, True)"
      using assms auth res that by (auto simp: handleKeyPackages_def method_not_allowed_def Let_def
          split: if_splits prod.splits bool.splits)
    then show ?thesis by blast
  next
    case (CallSubscribe body)
    have "push_accepted en e k a \<noteq> Some (Body b)" for e k a
      by (auto simp: push_accepted_def split: option.splits if_splits)
    then show ?thesis
      using CallSubscribe assms auth res that by (cases body) (auto simp: handlePushSubscribe_def method_not_allowed_def Let_def
          split: if_splits prod.splits bool.splits option.splits)
  qed
  then show ?thesis using that auth res by blast
qed


section \<open>The devices a phone sees\<close>

lemma granted_ids:
  assumes "gomap (sd_grants db)"
  shows "set (map fst (rev (sort_key (\<lambda>(_, g). gr_PairedAt g) (active_grants p db)))) = {d. granted p d db}"
proof -
  have "d \<in> fst ` set (active_grants p db) \<longleftrightarrow> (\<exists>g. ((p, d), g) \<in> set (sd_grants db) \<and> gr_RevokedAt g = 0)" for d
    by (force simp: active_grants_def)
  then show ?thesis using assms by (auto simp: granted_def gomap_mem)
qed

text \<open>
  With no other statement in between, the devices listed to a phone token are exactly the
  registered devices the token's phone has an active grant for.
\<close>

theorem listed_devices_exact:
  assumes "en_phoneSecret en \<noteq> []" and "phoneSecretFromRequest r \<noteq> en_phoneSecret en"
    and quiet: "\<And>k n. st_others (re_store env k) n = []" and "gomap (sd_grants (rl_store rl))"
    and "handleListDevices en env r rl = (rl', Body (DeviceListing ds v))"
  shows "\<exists>p. token_holder (en_hash en) (phoneSecretFromRequest r) p (rl_store rl)
    \<and> dv_ID ` set ds = {d \<in> fst ` set (sd_devices (rl_store rl)). granted p d (rl_store rl)}"
proof -
  obtain rl1 auth where auth: "requirePhoneAuthResult en env r rl = (rl1, Inr auth)"
    and "\<exists>rl2 devs. visibleDevices env 1 auth rl1 = (rl2, Inr devs)
           \<and> ds = decorateDeviceOnlineStatus (rl_conns rl2) devs"
    using assms(5)
    by (auto simp: handleListDevices_def method_not_allowed_def requirePhoneAuthResult_def phone_refused_def
        stableError_def Let_def split: if_splits prod.splits sum.splits)
  then obtain rl2 devs where vis: "visibleDevices env 1 auth rl1 = (rl2, Inr devs)"
    and ds: "ds = decorateDeviceOnlineStatus (rl_conns rl2) devs" by blast
  obtain p name where p: "auth = Some (phone_auth (p, name))"
    and v: "db_ValidatePhoneToken (en_hash en) (re_store env 0) (phoneSecretFromRequest r) (rl_store rl)
         = (rl_store rl1, Inr (p, name))"
    using auth by (cases rule: auth_cases) (use assms(1,2) in auto)
  have same: "sd_grants (rl_store rl1) = sd_grants (rl_store rl)" "sd_devices (rl_store rl1) = sd_devices (rl_store rl)"
    using validate_quiet [of "re_store env 0" "en_hash en" "phoneSecretFromRequest r" "rl_store rl"] v quiet by simp_all
  have "token_holder (en_hash en) (phoneSecretFromRequest r) p (rl_store rl)"
    by (rule validated_holder(1) [OF v]) (simp_all add: quiet)
  moreover have "devs = filter (\<lambda>d. dv_ID d \<in> {d. granted p d (rl_store rl1)})
      (map scan_device (rev (sort_key (\<lambda>(_, r). device_row.dv_LastSeen r) (sd_devices (rl_store rl1)))))"
    using vis granted_ids [of "rl_store rl1" p] assms(4) same p quiet
    by (auto simp: visibleDevices_def on_store_eq ListDevices_def ListPhoneDeviceIDs_def store_read_def Let_def
        split: if_splits prod.splits sum.splits)
  then have "dv_ID ` set devs = {d \<in> fst ` set (sd_devices (rl_store rl1)). granted p d (rl_store rl1)}"
    by (force simp: scan_device_def)
  moreover have "map dv_ID ds = map dv_ID devs" by (simp add: ds decorateDeviceOnlineStatus_def)
  then have "dv_ID ` set ds = dv_ID ` set devs" by (metis list.set_map)
  ultimately show ?thesis using same by (auto simp: granted_def)
qed

section \<open>Pairing\<close>

lemma consume_quiet:
  assumes "\<And>n. st_others run n = []" and "ConsumePairCode run code db = (db', res)"
  shows "sd_grants db' = sd_grants db" "sd_devices db' = sd_devices db"
    and "res = Inr d \<Longrightarrow> \<exists>c. map_of (sd_pair_codes db) code = Some c \<and> \<not> pc_Used c
          \<and> st_now run 0 \<le> pc_ExpiresAt c \<and> pc_DeviceID c = d \<and> spent code d db'"
  using assms
  by (auto simp: ConsumePairCode_def store_exec_def store_read_def update_row_def spent_def Let_def
      split: if_splits prod.splits option.splits sum.splits)

lemma create_phone_quiet:
  assumes "\<And>n. st_others run n = []"
  shows "sd_grants (fst (CreatePhoneIdentity sha run t i name db)) = sd_grants db"
    and "sd_pair_codes (fst (CreatePhoneIdentity sha run t i name db)) = sd_pair_codes db"
  using assms by (auto simp: CreatePhoneIdentity_def store_exec_def insert_row_def Let_def
      split: if_splits option.splits prod.splits)

lemma phone_keys_quiet:
  assumes "\<And>n. st_others run n = []"
  shows "sd_grants (fst (SetPhonePublicKeys run p ed x db)) = sd_grants db"
    and "sd_pair_codes (fst (SetPhonePublicKeys run p ed x db)) = sd_pair_codes db"
  using assms by (auto simp: SetPhonePublicKeys_def store_exec_def Let_def split: if_splits prod.splits)

lemma grant_quiet:
  assumes "\<And>n. st_others run n = []" and "GrantPhoneDevice run p d db = (db', res)"
  shows "sd_pair_codes db' = sd_pair_codes db"
    and "sd_grants db' = (if res = None
           then AList.update (p, d) \<lparr>gr_PairedAt = st_now run 2, gr_RevokedAt = 0\<rparr> (sd_grants db)
           else sd_grants db)"
  using assms
  by (auto simp: GrantPhoneDevice_def GetPhone_def DeviceExists_def store_read_def store_exec_def Let_def
      split: if_splits prod.splits sum.splits option.splits)

text \<open>The part after the checks: one grant, for the device given, to the phone named in the answer.\<close>

lemma pair_grant_effect:
  assumes "\<And>k n. st_others (re_store env k) n = []"
    and "pair_grant env req d p t name keys rl = (rl', resp)"
  shows "sd_pair_codes (rl_store rl') = sd_pair_codes (rl_store rl)"
    and "(\<exists>b. resp = Body b) \<Longrightarrow> resp = Body (Paired d name keys p t)
          \<and> sd_grants (rl_store rl') = AList.update (p, d) \<lparr>gr_PairedAt = st_now (re_store env 6) 2, gr_RevokedAt = 0\<rparr>
              (sd_grants (rl_store rl))"
    and "(\<nexists>b. resp = Body b) \<Longrightarrow> sd_grants (rl_store rl') = sd_grants (rl_store rl)"
proof -
  let ?rl = "if pb_PhoneEd25519Public req \<noteq> [] \<or> pb_PhoneX25519Public req \<noteq> []
             then fst (on_store (SetPhonePublicKeys (re_store env 5) p (pb_PhoneEd25519Public req)
                         (pb_PhoneX25519Public req)) rl) else rl"
  have keep: "sd_grants (rl_store ?rl) = sd_grants (rl_store rl)"
    "sd_pair_codes (rl_store ?rl) = sd_pair_codes (rl_store rl)"
    using phone_keys_quiet [of "re_store env 5"] assms(1)
    by (simp_all add: on_store_def split: prod.split) (metis fst_conv)+
  obtain rl2 res where g: "on_store (GrantPhoneDevice (re_store env 6) p d) ?rl = (rl2, res)" by fastforce
  then have "GrantPhoneDevice (re_store env 6) p d (rl_store ?rl) = (rl_store rl2, res)" by (simp add: on_store_eq)
  note grant = grant_quiet [OF assms(1) this]
  have eq: "(rl', resp) = (case res of Some e \<Rightarrow> (rl2, HttpError 500 (StoreText e))
      | None \<Rightarrow> (fst (send env 0 d (pair_ready env d p req) rl2), Body (Paired d name keys p t)))"
    using assms(2) g unfolding pair_grant_def Let_def by (simp split: option.splits)
  have "rl_store (fst (send env 0 d m rl2)) = rl_store rl2" for m by (simp add: send_def note_event_def)
  then show "sd_pair_codes (rl_store rl') = sd_pair_codes (rl_store rl)"
    "(\<exists>b. resp = Body b) \<Longrightarrow> resp = Body (Paired d name keys p t)
      \<and> sd_grants (rl_store rl') = AList.update (p, d) \<lparr>gr_PairedAt = st_now (re_store env 6) 2, gr_RevokedAt = 0\<rparr>
          (sd_grants (rl_store rl))"
    "(\<nexists>b. resp = Body b) \<Longrightarrow> sd_grants (rl_store rl') = sd_grants (rl_store rl)"
    using eq grant keep by (cases res; simp)+
qed

lemma device_reads_quiet:
  assumes "\<And>n. st_others run n = []"
  shows "fst (GetDevice run i db) = db" and "fst (GetDevicePublicKeys run i db) = db"
  using assms by (simp_all add: GetDevice_def GetDevicePublicKeys_def)

lemma pair_phone_effect:
  assumes "\<And>k n. st_others (re_store env k) n = []" and "pair_phone en env rnd auth name rl = (rl', res)"
  shows "sd_grants (rl_store rl') = sd_grants (rl_store rl)"
    and "sd_pair_codes (rl_store rl') = sd_pair_codes (rl_store rl)"
    and "res = Inr (p, t) \<Longrightarrow> \<not> unrestricted auth \<Longrightarrow> auth_phone auth \<noteq> [] \<Longrightarrow> p = auth_phone auth \<and> t = None"
proof -
  have "sd_grants (rl_store rl') = sd_grants (rl_store rl) \<and> sd_pair_codes (rl_store rl') = sd_pair_codes (rl_store rl)"
  proof (cases "\<not> unrestricted auth \<and> auth_phone auth \<noteq> []")
    case False
    obtain db x where c: "CreatePhoneIdentity (en_hash en) (re_store env 4) (ar_token rnd) (ar_phoneID rnd) name (rl_store rl)
        = (db, x)" by fastforce
    then have "rl_store rl' = db"
      using assms(2) False by (auto simp: pair_phone_def on_store_def split: sum.splits prod.splits)
    then show ?thesis
      using c create_phone_quiet [of "re_store env 4" "en_hash en" "ar_token rnd" "ar_phoneID rnd" name "rl_store rl"]
        assms(1) by simp
  qed (use assms(2) in \<open>auto simp: pair_phone_def\<close>)
  then show "sd_grants (rl_store rl') = sd_grants (rl_store rl)"
    "sd_pair_codes (rl_store rl') = sd_pair_codes (rl_store rl)" by blast+
  show "p = auth_phone auth \<and> t = None" if "res = Inr (p, t)" "\<not> unrestricted auth" "auth_phone auth \<noteq> []"
    using assms(2) that by (simp add: pair_phone_def)
qed

definition paired ::
  "seconds \<Rightarrow> PhoneAuth option \<Rightarrow> pair_body \<Rightarrow> string \<Rightarrow> server_db \<Rightarrow> server_db \<Rightarrow> api_body \<Rightarrow> bool" where
  "paired now auth req d db db' b \<longleftrightarrow>
     (case b of
        Paired d' name keys p t \<Rightarrow>
          d' = d
          \<and> (\<not> unrestricted auth \<and> auth_phone auth \<noteq> [] \<longrightarrow> p = auth_phone auth \<and> t = None)
          \<and> (pb_ExpectedDeviceID req \<noteq> [] \<longrightarrow> pb_ExpectedDeviceID req = d)
          \<and> (\<forall>k. keys = Some k \<and> pb_ExpectedFingerprint req \<noteq> [] \<and> dk_Fingerprint k \<noteq> []
               \<longrightarrow> dk_Fingerprint k = pb_ExpectedFingerprint req)
          \<and> sd_grants db' = AList.update (p, d) \<lparr>gr_PairedAt = now, gr_RevokedAt = 0\<rparr> (sd_grants db)
      | _ \<Rightarrow> False)"

lemma pair_with_effect:
  assumes quiet: "\<And>k n. st_others (re_store env k) n = []" and "pair_with en env rnd auth req d rl = (rl', resp)"
  shows "sd_pair_codes (rl_store rl') = sd_pair_codes (rl_store rl)"
    and "resp = Body b \<Longrightarrow> paired (st_now (re_store env 6) 2) auth req d (rl_store rl) (rl_store rl') b"
    and "(\<nexists>b. resp = Body b) \<Longrightarrow> sd_grants (rl_store rl') = sd_grants (rl_store rl)"
proof -
  obtain gd where gd: "on_store (GetDevice (re_store env 2) d) rl = (rl, gd)"
    using device_reads_quiet(1) [of "re_store env 2" d "rl_store rl"] quiet
    by (cases "GetDevice (re_store env 2) d (rl_store rl)") (simp add: on_store_def)
  obtain gk where gk: "on_store (GetDevicePublicKeys (re_store env 3) d) rl = (rl, gk)"
    using device_reads_quiet(2) [of "re_store env 3" d "rl_store rl"] quiet
    by (cases "GetDevicePublicKeys (re_store env 3) d (rl_store rl)") (simp add: on_store_def)
  obtain rl2 ph where ph: "pair_phone en env rnd auth (pb_Name req) rl = (rl2, ph)" by fastforce
  note phone = pair_phone_effect [OF quiet ph]
  let ?name = "case gd of Inl e \<Rightarrow> d | Inr d \<Rightarrow> Device.dv_Name d"
  let ?keys = "case gk of Inl e \<Rightarrow> None | Inr k \<Rightarrow> Some k"
  let ?fp = "case ?keys of None \<Rightarrow> [] | Some k \<Rightarrow> dk_Fingerprint k"
  consider (device) "pb_ExpectedDeviceID req \<noteq> []" "pb_ExpectedDeviceID req \<noteq> d"
      "rl' = rl" "resp = HttpError 409 (Text ''device fingerprint mismatch'')"
    | (fingerprint) "rl' = rl" "resp = HttpError 409 (Text ''device fingerprint mismatch'')"
    | (failed) e where "rl' = rl2" "resp = HttpError 500 (StoreText e)"
    | (granted) p t where "ph = Inr (p, t)" "pair_grant env req d p t ?name ?keys rl2 = (rl', resp)"
        "pb_ExpectedDeviceID req \<noteq> [] \<longrightarrow> pb_ExpectedDeviceID req = d"
        "\<not> (pb_ExpectedFingerprint req \<noteq> [] \<and> ?fp \<noteq> [] \<and> pb_ExpectedFingerprint req \<noteq> ?fp)"
    using assms(2) unfolding pair_with_def gd prod.case gk Let_def ph
    by (cases ph) (auto split: if_splits prod.splits)
  note cs = this
  show "sd_pair_codes (rl_store rl') = sd_pair_codes (rl_store rl)"
    using pair_grant_effect(1) [OF quiet] phone(2) by (cases rule: cs) simp_all
  show "sd_grants (rl_store rl') = sd_grants (rl_store rl)" if "\<nexists>b. resp = Body b"
    using pair_grant_effect(3) [OF quiet] phone(1) that by (cases rule: cs) simp_all
  assume body: "resp = Body b"
  then obtain p t where g: "ph = Inr (p, t)" "pair_grant env req d p t ?name ?keys rl2 = (rl', resp)"
      "pb_ExpectedDeviceID req \<noteq> [] \<longrightarrow> pb_ExpectedDeviceID req = d"
      "\<not> (pb_ExpectedFingerprint req \<noteq> [] \<and> ?fp \<noteq> [] \<and> pb_ExpectedFingerprint req \<noteq> ?fp)"
    by (cases rule: cs) auto
  have "b = Paired d ?name ?keys p t"
    "sd_grants (rl_store rl') = AList.update (p, d) \<lparr>gr_PairedAt = st_now (re_store env 6) 2, gr_RevokedAt = 0\<rparr>
       (sd_grants (rl_store rl2))"
    using pair_grant_effect(2) [OF quiet g(2)] body by blast+
  then show "paired (st_now (re_store env 6) 2) auth req d (rl_store rl) (rl_store rl') b"
    using phone(1) phone(3) [OF g(1)] g(3,4) by (auto simp: paired_def)
qed

text \<open>C21. 
  With no other statement in between: a pairing succeeds only with a code that was unused and not
  expired, for the device the code was made for; it grants exactly that device, to the calling
  phone when the caller is a phone and otherwise to the phone it creates; the fingerprint and
  the device id the caller expects are respected; the code is spent.  A pairing that does not
  succeed grants nothing.
\<close>

theorem pairing_grants_code_device:
  assumes quiet: "\<And>k n. st_others (re_store env k) n = []"
    and "handleConsumePairCode en env rnd r (Some req) rl = (rl', resp)"
  shows "(case resp of
        Body b \<Rightarrow> \<exists>auth d c. map_of (sd_pair_codes (rl_store rl)) (pb_Code req) = Some c
            \<and> \<not> pc_Used c \<and> st_now (re_store env 1) 0 \<le> pc_ExpiresAt c \<and> pc_DeviceID c = d
            \<and> snd (requirePhoneAuthResult en env r rl) = Inr auth
            \<and> paired (st_now (re_store env 6) 2) auth req d (rl_store rl) (rl_store rl') b
            \<and> spent (pb_Code req) d (rl_store rl')
      | _ \<Rightarrow> sd_grants (rl_store rl') = sd_grants (rl_store rl))"
proof -
  obtain rl1 res where auth: "requirePhoneAuthResult en env r rl = (rl1, res)" by fastforce
  have same: "sd_grants (rl_store rl1) = sd_grants (rl_store rl)"
    "sd_pair_codes (rl_store rl1) = sd_pair_codes (rl_store rl)"
    using auth_quiet [OF _ auth] quiet by simp_all
  obtain rl2 cres where c: "on_store (ConsumePairCode (re_store env 1) (pb_Code req)) rl1 = (rl2, cres)" by fastforce
  then have "ConsumePairCode (re_store env 1) (pb_Code req) (rl_store rl1) = (rl_store rl2, cres)"
    by (simp add: on_store_eq)
  note con = consume_quiet [OF quiet this]
  consider (early) "sd_grants (rl_store rl') = sd_grants (rl_store rl)" "\<nexists>b. resp = Body b"
    | (pair) a d where "res = Inr a" "cres = Inr d" "pair_with en env rnd a req d rl2 = (rl', resp)"
  proof (cases res)
    case (Inl e)
    then show ?thesis
      using assms(2) auth same early auth_refused [of en env r rl rl1 e]
      by (auto simp: handleConsumePairCode_def method_not_allowed_def split: if_splits)
  next
    case (Inr a)
    then show ?thesis
      using assms(2) auth same c con(1) early pair
      by (auto simp: handleConsumePairCode_def method_not_allowed_def split: if_splits sum.splits)
  qed
  then show ?thesis
  proof cases
    case (pair a d)
    note eff = pair_with_effect [OF quiet pair(3)]
    show ?thesis
    proof (cases "\<exists>b. resp = Body b")
      case True
      then obtain b where b: "resp = Body b" by blast
      have "spent (pb_Code req) d (rl_store rl')" using con(3) [OF pair(2)] eff(1) by (auto simp: spent_def)
      moreover have "paired (st_now (re_store env 6) 2) a req d (rl_store rl) (rl_store rl') b"
        using eff(2) [OF b] con(1) same(1) by (simp add: paired_def split: api_body.splits)
      ultimately show ?thesis using con(3) [OF pair(2)] same(2) auth pair(1) b by auto
    next
      case False
      then show ?thesis using eff(3) con(1) same(1) by (auto split: response.splits)
    qed
  qed (auto split: response.splits)
qed

section \<open>Revoking a phone\<close>

lemma exec_reach:
  assumes "\<And>k n. list_all stmt_wf (st_others (re_store env k) n)" and "stmt_wf s"
  shows "store_step\<^sup>*\<^sup>* db (fst (store_exec (re_store env k) n s db))"
proof -
  obtain ss where "fst (store_exec (re_store env k) n s db) = run_all ss db"
    "\<forall>x \<in> set ss. x \<in> set (st_others (re_store env k) n) \<or> x = s"
    using exec_steps by blast
  moreover from this(2) have "list_all stmt_wf ss" using assms(1) [of k n] assms(2) by (auto simp: list_all_iff)
  ultimately show ?thesis using run_all_steps by simp
qed

lemma auth_steps:
  assumes wf: "\<And>k n. list_all stmt_wf (st_others (re_store env k) n)"
    and "requirePhoneAuthResult en env r rl = (rl', res)"
  shows "store_step\<^sup>*\<^sup>* (rl_store rl) (rl_store rl')"
proof -
  have "store_step\<^sup>*\<^sup>* db (fst (db_ValidatePhoneToken (en_hash en) (re_store env 0) token db))" for token db
  proof -
    let ?db = "run_all (st_others (re_store env 0) 0) db"
    have "fst (db_ValidatePhoneToken (en_hash en) (re_store env 0) token db)
        \<in> {db, ?db} \<union> {fst (store_exec (re_store env 0) 1 (TouchPhone (st_now (re_store env 0) 1) p) ?db) | p. True}"
      by (auto simp: db_ValidatePhoneToken_def store_read_def Let_def split: sum.splits option.splits)
    moreover have "store_step\<^sup>*\<^sup>* db ?db" by (rule run_all_steps [OF wf])
    moreover have "store_step\<^sup>*\<^sup>* ?db (fst (store_exec (re_store env 0) 1 (TouchPhone (st_now (re_store env 0) 1) p) ?db))" for p
      by (rule exec_reach [OF wf]) (simp add: stmt_wf_def)
    ultimately show ?thesis by (auto intro: rtranclp_trans)
  qed
  moreover have "rl' = rl \<or> (\<exists>x. db_ValidatePhoneToken (en_hash en) (re_store env 0) (phoneSecretFromRequest r) (rl_store rl)
      = (rl_store rl', x))"
    using assms(2) by (auto simp: requirePhoneAuthResult_def Let_def on_store_eq
        split: if_splits prod.splits sum.splits)
  ultimately show ?thesis by (metis fst_conv rtranclp.rtrancl_refl)
qed

lemma revoke_marks:
  assumes "db_RevokePhone run p db = (db', None)" and "0 < st_now run 0"
    and "\<And>r. map_of (sd_phones (run_all (st_others run 0) db)) p = Some r \<Longrightarrow> 0 \<le> pi_RevokedAt r"
  shows "revoked p db'"
proof -
  let ?db = "run_all (st_others run 0) db"
  obtain n where "run_store (RevokePhoneTx (st_now run 0) p) ?db = (db', Some n)"
    "n = 0 \<longrightarrow> map_of (sd_phones db') p \<noteq> None"
    using assms(1) by (auto simp: db_RevokePhone_def dest: store_exec_Inr split: prod.splits sum.splits if_splits)
  then show ?thesis
    using assms(2,3) by (fastforce simp: revoked_def update_row_def split: option.splits if_splits prod.splits)
qed

lemma revoke_success:
  assumes "handleRevokePhone en env r body rl = (rl', Body b)"
  obtains rl1 auth rl2 p where "body = Some p" "TrimSpace p \<noteq> []"
    "requirePhoneAuthResult en env r rl = (rl1, Inr auth)" "\<not> unrestricted auth \<Longrightarrow> auth_phone auth = p"
    "db_RevokePhone (re_store env 1) p (rl_store rl1) = (rl_store rl2, None)" "rl_conns rl2 = rl_conns rl1"
    "rl' = close_principal p rl2" "b = PhoneRevoked p"
proof -
  obtain rl1 res where auth: "requirePhoneAuthResult en env r rl = (rl1, res)" by fastforce
  obtain a where a: "res = Inr a"
    using assms auth auth_refused [of en env r rl rl1]
    by (cases res) (auto simp: handleRevokePhone_def method_not_allowed_def split: if_splits)
  obtain p where p: "body = Some p" using assms auth a
    by (cases body) (auto simp: handleRevokePhone_def method_not_allowed_def split: if_splits)
  obtain rl2 e where rv: "on_store (db_RevokePhone (re_store env 1) p) rl1 = (rl2, e)" by fastforce
  have conns: "rl_conns rl2 = rl_conns rl1" using rv by (auto simp: on_store_def split: prod.splits)
  have "TrimSpace p \<noteq> []" "unrestricted a \<or> auth_phone a = p" "e = None" "rl' = close_principal p rl2"
    "b = PhoneRevoked p"
    using assms unfolding handleRevokePhone_def auth a p rv prod.case sum.case option.case
    by (auto simp: method_not_allowed_def split: if_splits option.splits store_error.splits)
  then show ?thesis using that p auth a rv conns by (auto simp: on_store_eq)
qed


section \<open>Concrete requests\<close>

definition nest_stmts :: "store_stmt list" where
  "nest_stmts = [InsertPhone ''p'' \<lparr>pi_Name = ''Phone'', pi_TokenHash = ''t'', pi_Ed25519Public = [],
      pi_X25519Public = [], pi_CreatedAt = 1, pi_LastSeen = 1, pi_RevokedAt = 0\<rparr>,
    InsertDevice ''d'' \<lparr>dv_Name = ''Host'', dv_OS = ''linux'', dv_TokenHash = ''h'', dv_CreatedAt = 1, dv_LastSeen = 1,
      dv_ActiveAgents = 0, dv_Ed25519Public = [], dv_X25519Public = [], dv_Fingerprint = ''fp''\<rparr>,
    UpsertGrant 1 ''p'' ''d'', InsertPairCode ''abc123'' ''d'' 10]"

definition nest_env :: relay_env where
  "nest_env = \<lparr>re_mode = TransportOpen, re_now = 5,
     re_codec = \<lparr>jc_marshal = (\<lambda>j. Some ''null''), jc_unmarshal = (\<lambda>s. Some JNull)\<rparr>,
     re_marshal = (\<lambda>m. Some ''envelope''), re_unmarshal = (\<lambda>s. None),
     re_url = \<lparr>url_RequestURI = (\<lambda>s. None), url_path_and_k = (\<lambda>s. None)\<rparr>, re_random = None,
     re_db = (\<lambda>n. \<lparr>dr_now = (\<lambda>n. 7), dr_fails = (\<lambda>n. False), dr_others = (\<lambda>n. [])\<rparr>),
     re_store = (\<lambda>n. quiet_run), re_save_fails = (\<lambda>n. False), re_query_fails = False,
     re_visit = (\<lambda>xs. xs), re_send = (\<lambda>n. SendOK), re_expired = [], re_sessions = (\<lambda>j. []),
     re_capabilities = (\<lambda>j. None), re_message = (\<lambda>j. None), re_message_json = (\<lambda>m. JNull),
     re_session_list = (\<lambda>l. [])\<rparr>"

definition nest_relay :: relay where
  "nest_relay = \<lparr>rl_commands = [], rl_messages = [], rl_store = run_all nest_stmts empty_db,
     rl_conns = \<lparr>rc_daemons = NewConnectionManagerWithPolicy ReplaceExisting, rc_catalogs = (\<lambda>r. no_catalog),
       rc_phones = AddPhoneAuthenticated ''d'' 1 ''p'' False new_phones\<rparr>, rl_trace = []\<rparr>"

definition nest_engine :: engine where
  "nest_engine = \<lparr>en_phoneSecret = ''secret'', en_appVersion = ''1.0.0'', en_bootstrap = [], en_hash = (\<lambda>s. s),
     en_pushSink = None,
     en_push = \<lparr>pl_Parse = (\<lambda>s. None), pl_ParseIP = (\<lambda>s. None), pl_RawURLEncoding = (\<lambda>s. None),
       pl_URLEncoding = (\<lambda>s. None)\<rparr>, en_vapidPub = [], en_vapidPriv = []\<rparr>"

definition nest_request :: "string \<Rightarrow> string \<Rightarrow> http_request" where
  "nest_request m token = \<lparr>hq_Method = m, hq_Header = (\<lambda>h. if h = ''X-Neko-Phone-Token'' then token else []),
     hq_Query = (\<lambda>q. if q = ''device_id'' then ''d'' else [])\<rparr>"

definition nest_random :: api_random where
  "nest_random = \<lparr>ar_deviceID = None, ar_token = None, ar_phoneID = None, ar_pairCode = None\<rparr>"

definition nest_pairing :: pair_body where
  "nest_pairing = \<lparr>pb_Code = ''abc123'', pb_Name = [], pb_ExpectedFingerprint = ''fp'', pb_ExpectedDeviceID = [],
     pb_PhoneEd25519Public = [], pb_PhoneX25519Public = []\<rparr>"

lemma nest_quiet: "st_others (re_store nest_env k) n = []" "st_now (re_store nest_env k) n = 5"
  by (simp_all add: nest_env_def quiet_run_def)

lemma nest_secret:
  "en_phoneSecret nest_engine \<noteq> []" "phoneSecretFromRequest (nest_request m ''t'') = ''t''"
  "phoneSecretFromRequest (nest_request m ''t'') \<noteq> en_phoneSecret nest_engine"
  by (simp_all add: nest_engine_def nest_request_def phoneSecretFromRequest_def)


theorem listed_devices_exact_witness:
  "\<exists>rl' ds v. handleListDevices nest_engine nest_env (nest_request ''GET'' ''t'') nest_relay = (rl', Body (DeviceListing ds v))
     \<and> (\<exists>p. dv_ID ` set ds = {d \<in> fst ` set (sd_devices (rl_store nest_relay)). granted p d (rl_store nest_relay)})"
proof -
  have "snd (handleListDevices nest_engine nest_env (nest_request ''GET'' ''t'') nest_relay)
      = Body (DeviceListing [\<lparr>dv_ID = ''d'', Device.dv_Name = ''Host'', Device.dv_OS = ''linux'', dv_Status = ''offline'',
          Device.dv_LastSeen = 1, Device.dv_ActiveAgents = 0, dv_DaemonVersion = [], dv_Token = []\<rparr>] ''1.0.0'')"
    by code_simp
  then obtain rl' ds v where
    c: "handleListDevices nest_engine nest_env (nest_request ''GET'' ''t'') nest_relay = (rl', Body (DeviceListing ds v))"
    by (metis prod.collapse)
  have "gomap (sd_grants (rl_store nest_relay))" by code_simp
  from listed_devices_exact [OF nest_secret(1,3) nest_quiet(1) this c] c show ?thesis by blast
qed

theorem pairing_grants_code_device_witness:
  "\<exists>rl' b. handleConsumePairCode nest_engine nest_env nest_random (nest_request ''POST'' ''t'') (Some nest_pairing) nest_relay
       = (rl', Body b)
     \<and> (\<exists>auth d. paired (st_now (re_store nest_env 6) 2) auth nest_pairing d (rl_store nest_relay) (rl_store rl') b)"
proof -
  let ?call = "handleConsumePairCode nest_engine nest_env nest_random (nest_request ''POST'' ''t'') (Some nest_pairing) nest_relay"
  have "snd ?call = Body (Paired ''d'' ''Host''
      (Some \<lparr>dk_Ed25519Public = [], dk_X25519Public = [], dk_Fingerprint = ''fp''\<rparr>) ''p'' None)" by code_simp
  then obtain rl' b where c: "?call = (rl', Body b)" by (metis prod.collapse)
  show ?thesis using pairing_grants_code_device [OF nest_quiet(1) c] c by auto
qed


end
