(* ===== verification/Phone_Sockets.thy ===== *)
theory Phone_Sockets
  imports Relay_Api Relay_Safety Rate_Limits
begin

text \<open>
  The life of a phone's web socket (\<open>relaycore/websocket.go\<close>: \<open>ServePhoneConn\<close>, \<open>phoneReadLoop\<close> and what
  they write), and the nest as a whole: HTTP requests, phone sockets, daemon frames and the replay
  of commits, interleaved.

  \<open>nest\<close> is the relay's state with the read loops that are running, one per socket: the credential the
  socket was opened with, the device it is subscribed to, the negotiated version and the times of
  its switches.  \<open>phone_admit\<close> is \<open>ServePhoneConn\<close> up to the registration of the socket, \<open>phone_attach\<close> the
  registration and the first frames, \<open>phone_frame\<close> one round of the read loop.

  Shown here: in every run, a socket receives the frames of a device only if it was
  opened with the nest secret or by a phone that has been paired with that device, and a socket
  whose loop has ended is subscribed to nothing.  A revocation that falls between the check and
  the registration leaves the revoked phone a live socket.
\<close>

section \<open>What a handler does to sockets and grants\<close>

text \<open>
  \<open>confined A db rl\<close>: the subscribers of every device are among \<open>A\<close>, and the store comes from \<open>db\<close> by
  statements.  The handlers of theory Relay\_Prompts keep it: they add no subscriber.
\<close>

definition later_db :: "server_db \<Rightarrow> server_db \<Rightarrow> bool" where
  "later_db db db' \<longleftrightarrow> (\<exists>ss. db' = run_all ss db)"

lemma later_db_refl [simp]: "later_db db db"
  unfolding later_db_def by (rule exI [of _ "[]"]) simp

lemma later_db_run [simp]: "later_db db (run_all ss db)"
  by (auto simp: later_db_def)

lemma later_db_exec [simp]: "later_db db (fst (store_exec run n s db))"
  unfolding later_db_def by (rule store_exec_run)

lemma later_db_trans: "later_db db db1 \<Longrightarrow> later_db db1 db2 \<Longrightarrow> later_db db db2"
  unfolding later_db_def by (metis run_all_simps(3))

lemma later_db_read [simp]: "later_db db (fst (store_read run n q db))"
  by simp

text \<open>Every operation of the store reaches its result by statements.\<close>

lemma store_case:
  assumes "later_db db (fst x)" and "\<And>db1 y. x = (db1, y) \<Longrightarrow> later_db db1 (fst (f db1 y))"
  shows "later_db db (fst (case x of (db1, y) \<Rightarrow> f db1 y))"
  using assms by (cases x) (auto intro: later_db_trans)

lemma later_db_ops [simp]:
  "later_db db (fst (RegisterDevice sha run tok d name os db))"
  "later_db db (fst (DeviceExists run n d db))"
  "later_db db (fst (SetDevicePublicKeys run d ed x fp db))"
  "later_db db (fst (UpdateDeviceSessions run d k db))"
  "later_db db (fst (db_ValidateDeviceToken sha run d token db))"
  "later_db db (fst (CreatePairCode run code d e db))"
  "later_db db (fst (ConsumePairCode run code db))"
  "later_db db (fst (AcceptAttentionEvent run d ev t db))"
  "later_db db (fst (CreatePhoneIdentity sha run tok' ip name db))"
  "later_db db (fst (SetPhonePublicKeys run p ed x db))"
  "later_db db (fst (db_RevokePhone run p db))"
  "later_db db (fst (PhoneHasDeviceGrant run p d db))"
  "later_db db (fst (ListPhoneDeviceIDs run p db))"
  "later_db db (fst (ListPhoneGrantsForDevice run d db))"
  "later_db db (fst (UpsertKeyPackage run key w nn db))"
  "later_db db (fst (ListKeyPackages run p d db))"
  "later_db db (fst (SavePushSubscription run sub db))"
  "later_db db (fst (GetPushSubscriptions run d db))"
  "later_db db (fst (DeletePushSubscription run ep db))"
  "later_db db (fst (ListDevices run db))" "later_db db (fst (GetDevice run d db))"
  "later_db db (fst (GetDevicePublicKeys run d db))" "later_db db (fst (ListPhones run db))"
  unfolding RegisterDevice_def DeviceExists_def SetDevicePublicKeys_def UpdateDeviceSessions_def
    db_ValidateDeviceToken_def CreatePairCode_def ConsumePairCode_def AcceptAttentionEvent_def CreatePhoneIdentity_def
    SetPhonePublicKeys_def db_RevokePhone_def PhoneHasDeviceGrant_def ListPhoneDeviceIDs_def
    ListPhoneGrantsForDevice_def UpsertKeyPackage_def ListKeyPackages_def SavePushSubscription_def
    GetPushSubscriptions_def DeletePushSubscription_def ListDevices_def GetDevice_def GetDevicePublicKeys_def
    ListPhones_def Let_def
  by (auto intro!: store_case split: option.split sum.split simp del: store_read_fst)

lemma later_db_validate [simp]: "later_db db (fst (db_ValidatePhoneToken sha run token db))"
  unfolding db_ValidatePhoneToken_def Let_def
  by (auto intro!: store_case split: sum.split simp del: store_read_fst)

lemma later_db_grant [simp]: "later_db db (fst (GrantPhoneDevice run p d db))"
  unfolding GrantPhoneDevice_def GetPhone_def
  by (auto intro!: store_case split: sum.split bool.split simp del: store_read_fst)

lemma later_db_deletes [simp]: "later_db db (fold (\<lambda>e db. fst (DeletePushSubscription run e db)) es db)"
  by (induction es arbitrary: db) (auto intro: later_db_trans [OF later_db_ops(19)])

abbreviation phones :: "relay \<Rightarrow> phone_registry" where
  "phones rl \<equiv> rc_phones (rl_conns rl)"

definition confined :: "(string \<Rightarrow> phone_socket set) \<Rightarrow> server_db \<Rightarrow> relay \<Rightarrow> bool" where
  "confined A db rl \<longleftrightarrow> phones_ok (phones rl) \<and> (\<forall>d. set (subscribers (phones rl) d) \<subseteq> A d)
     \<and> later_db db (rl_store rl)"

lemma confined_fields [simp]:
  "confined A db (rl\<lparr>rl_commands := t\<rparr>) = confined A db rl" "confined A db (rl\<lparr>rl_messages := m\<rparr>) = confined A db rl"
  "confined A db (note_event e rl) = confined A db rl"
  by (simp_all add: confined_def note_event_def)

lemma confined_store [simp]:
  "confined A db rl \<Longrightarrow> later_db (rl_store rl) db' \<Longrightarrow> confined A db (rl\<lparr>rl_store := db'\<rparr>)"
  by (auto simp: confined_def intro: later_db_trans)

lemma broadcast_subset:
  assumes "phones_ok s"
  shows "phones_ok (BroadcastToPhones mar d m s)
    \<and> set (subscribers (BroadcastToPhones mar d m s) d') \<subseteq> set (subscribers s d')"
proof -
  have "phones_ok (fold (send_frame data) cs s) \<and> set (subscribers (fold (send_frame data) cs s) d') \<subseteq> set (subscribers s d')"
    if "phones_ok s" for data cs s
    using that
  proof (induction cs arbitrary: s)
    case (Cons c cs)
    have "phones_ok (send_frame data c s)" using Cons.prems by (rule send_frame_ok)
    moreover have "set (subscribers (send_frame data c s) d') \<subseteq> set (subscribers s d')"
      using send_frame_subscribers [OF Cons.prems, of data c d'] by auto
    ultimately show ?case using Cons.IH [of "send_frame data c s"] by auto
  qed simp
  then show ?thesis using assms by (simp add: BroadcastToPhones_def split: option.split)
qed

lemma confined_phones:
  assumes "confined A db rl" and "phones_ok s"
    and "\<And>d. set (subscribers s d) \<subseteq> set (subscribers (phones rl) d)"
    and "rc_phones cs = s"
  shows "confined A db (rl\<lparr>rl_conns := cs\<rparr>)"
  using assms unfolding confined_def by fastforce

lemma confined_ok: "confined A db rl \<Longrightarrow> phones_ok (phones rl)"
  by (simp add: confined_def)

lemma confined_broadcast [simp]:
  assumes "confined A db rl"
  shows "confined A db (broadcast env d m rl)"
proof -
  note b = broadcast_subset [OF confined_ok [OF assms], of "re_marshal env" d m]
  show ?thesis unfolding broadcast_def confined_fields
    by (rule confined_phones [OF assms]) (use b in simp_all)
qed

lemma confined_send [simp]: "confined A db rl \<Longrightarrow> confined A db (fst (send env n d m rl))"
  by (simp add: send_def)

lemma confined_save [simp]: "confined A db rl \<Longrightarrow> confined A db (fst (save_message env n d s m rl))"
  by (cases rule: save_message_cases [of env n d s m rl]) simp_all

lemma confined_persist [simp]: "confined A db rl \<Longrightarrow> confined A db (fst (persistAcceptedPrompt env n cmd rl))"
  by (simp add: persistAcceptedPrompt_def)

lemma confined_plain [simp]:
  "confined A db rl \<Longrightarrow> confined A db (broadcastPromptSent env cmd rl)"
  "confined A db rl \<Longrightarrow> confined A db (broadcastPromptFailed env cmd rl)"
  "confined A db rl \<Longrightarrow> confined A db (broadcastPromptFailure env d s i txt rl)"
  "confined A db rl \<Longrightarrow> confined A db (offline_error env d s rl)"
  "confined A db rl \<Longrightarrow> confined A db (mark_forwarded env d i rl)"
  by (simp_all add: broadcastPromptSent_def broadcastPromptFailed_def broadcastPromptFailure_def Let_def
      offline_error_def mark_forwarded_def)

lemma confined_committed [simp]: "confined A db rl \<Longrightarrow> confined A db (sendPromptCommitted env n k cmd rl)"
  by (auto simp: sendPromptCommitted_def send_def Let_def split: prod.split option.split send_result.split)

lemma confined_failed [simp]: "confined A db rl \<Longrightarrow> confined A db (fst (mark_forward_failed env cmd d i res rl))"
  by (auto simp: mark_forward_failed_def split: prod.split option.split)

lemma confined_register [simp]: "confined A db rl \<Longrightarrow> confined A db (fst (register_prompt env cmd b rl))"
  by (auto simp: register_prompt_def split: prod.split)

lemma pairE:
  assumes "P (fst x)" and "\<And>a b. x = (a, b) \<Longrightarrow> P a \<Longrightarrow> Q (f a b)"
  shows "Q (case x of (a, b) \<Rightarrow> f a b)"
  using assms by (cases x) simp

lemma confined_open_duplicate [simp]: "confined A db rl \<Longrightarrow> confined A db (open_duplicate env d cmd rl)"
  unfolding open_duplicate_def
  by (auto intro!: pairE [of "confined A db" _ "confined A db"] split: bool.split)

lemma confined_forward_open [simp]: "confined A db rl \<Longrightarrow> confined A db (forward_open env d i msg cmd rl)"
  unfolding forward_open_def
  by (auto intro!: pairE [of "confined A db" _ "confined A db"] split: bool.split send_result.split)

lemma confined_register_open [simp]: "confined A db rl \<Longrightarrow> confined A db (register_open env d msg i p atts rl)"
  unfolding register_open_def Let_def
  by (auto intro!: pairE [of "confined A db" _ "confined A db"] split: option.split)

lemma confined_open_prompt [simp]: "confined A db rl \<Longrightarrow> confined A db (handle_open_prompt env d msg rl)"
  by (simp add: handle_open_prompt_def Let_def split: option.split)

lemma confined_forward_sealed [simp]: "confined A db rl \<Longrightarrow> confined A db (forward_sealed env d i msg cmd rl)"
  unfolding forward_sealed_def
  by (auto intro!: pairE [of "confined A db" _ "confined A db"] split: send_result.split)

lemma confined_sealed_duplicate [simp]: "confined A db rl \<Longrightarrow> confined A db (sealed_duplicate env d cmd rl)"
  by (simp add: sealed_duplicate_def split: prompt_status.split)

lemma confined_register_sealed [simp]: "confined A db rl \<Longrightarrow> confined A db (register_sealed env d i msg w rl)"
  unfolding register_sealed_def
  by (auto intro!: pairE [of "confined A db" _ "confined A db"] split: option.split)

lemma confined_sealed_prompt [simp]: "confined A db rl \<Longrightarrow> confined A db (handleSealedPrompt env d msg rl)"
  by (simp add: handleSealedPrompt_def Let_def split: option.split)

lemma confined_phone [simp]:
  assumes "confined A db rl"
  shows "confined A db (handlePhoneMessage env d msg rl)"
proof -
  have "confined A db (handle_fetch_history env d msg rl)" "confined A db (relay_or_error env d msg' rl)"
    "confined A db (handle_start_thread env d msg rl)" for msg'
    using assms unfolding handle_fetch_history_def relay_or_error_def handle_start_thread_def Let_def
    by (auto intro!: pairE [of "confined A db" _ "confined A db"] split: send_result.split sum.split)
  then show ?thesis using assms by (simp add: handlePhoneMessage_def Let_def)
qed

lemma confined_attention [simp]:
  assumes "confined A db rl"
  shows "confined A db (fst (acceptAttentionEvent env d msg rl))"
proof -
  have "confined A db (rl\<lparr>rl_store := db'\<rparr>)" if "AcceptAttentionEvent run d e t (rl_store rl) = (db', x)" for run e t db' x
    using assms later_db_ops(8) [of "rl_store rl" run d e t] that by simp
  then show ?thesis
    using assms unfolding acceptAttentionEvent_def Let_def by (auto split: option.split prod.split sum.split)
qed

lemma confined_push [simp]:
  assumes "confined A db rl"
  shows "confined A db (sendPushNotification env d s txt rl)"
proof -
  obtain db' res where g: "GetPushSubscriptions (re_store env 1) d (rl_store rl) = (db', res)" by fastforce
  then have db': "later_db (rl_store rl) db'" using later_db_ops(18) [of "rl_store rl" "re_store env 1" d] by simp
  then have "later_db (rl_store rl) (fold (\<lambda>e db. fst (DeletePushSubscription run e db)) es db')" for run es
    using later_db_deletes by (rule later_db_trans)
  then show ?thesis using assms db' unfolding sendPushNotification_def Let_def g by (cases res) simp_all
qed

lemma confined_approval [simp]: "confined A db rl \<Longrightarrow> confined A db (approval_push env d m txt rl)"
  by (simp add: approval_push_def)

lemma catalog_phones:
  "rc_phones (updateSessionListFromLocked enc mar now dc ss caps v rc) \<in> {rc_phones rc} \<union> {BroadcastToPhones mar d m (rc_phones rc) | d m. True}"
  "rc_phones (updateSealedCatalogFromLocked mar dc msg rc) \<in> {rc_phones rc} \<union> {BroadcastToPhones mar d m (rc_phones rc) | d m. True}"
  by (auto simp: updateSessionListFromLocked_def updateSealedCatalogFromLocked_def Let_def split: option.split)

lemma confined_catalog:
  assumes "confined A db rl"
    and "rc_phones cs \<in> {phones rl} \<union> {BroadcastToPhones mar d m (phones rl) | d m. True}"
  shows "confined A db (rl\<lparr>rl_conns := cs\<rparr>)"
proof (rule confined_phones [OF assms(1) _ _ refl])
  note ok = confined_ok [OF assms(1)]
  have "phones_ok (rc_phones cs) \<and> set (subscribers (rc_phones cs) d) \<subseteq> set (subscribers (phones rl) d)" for d
    using assms(2) ok broadcast_subset [OF ok] by (elim UnE) (simp, fastforce)
  then show "phones_ok (rc_phones cs)" "set (subscribers (rc_phones cs) d) \<subseteq> set (subscribers (phones rl) d)" for d
    by blast+
qed

lemma confined_session_list [simp]:
  assumes "confined A db rl"
  shows "confined A db (handle_session_list env r d msg rl)"
proof -
  have "confined A db (rl\<lparr>rl_conns := updateSessionListFromLocked enc mar now dc ss caps v (rl_conns rl),
      rl_store := fst (UpdateDeviceSessions run d n (rl_store rl))\<rparr>)" for enc mar now dc ss caps v run n
    using confined_store [OF confined_catalog [OF assms catalog_phones(1)]] by simp
  then show ?thesis
    using assms confined_catalog [OF assms catalog_phones(2)]
    unfolding handle_session_list_def Let_def by (simp split: option.split)
qed

lemma confined_session_message [simp]: "confined A db rl \<Longrightarrow> confined A db (handle_session_message env d msg rl)"
  by (simp add: handle_session_message_def Let_def split: option.split)

lemma confined_import [simp]: "confined A db rl \<Longrightarrow> confined A db (import_history env n d s items rl)"
  by (induction env n d s items rl rule: import_history.induct) (auto simp: Let_def split: option.split)

lemma confined_daemon [simp]:
  assumes "confined A db rl"
  shows "confined A db (handleDaemonMessage env r msg rl)"
proof -
  have "confined A db (handle_session_history env d m rl)" "confined A db (handle_prompt_not_seen env d m rl)"
    "confined A db (handle_prompt_failed env d m rl)" for d m
    using assms unfolding handle_session_history_def handle_prompt_not_seen_def handle_prompt_failed_def Let_def
    by (auto split: option.split json.split prod.split sum.split)
  moreover have "confined A db (handle_prompt_accepted env d m rl)" for d m
  proof -
    have "confined A db (case persistAcceptedPrompt env 0 cmd (rl\<lparr>rl_commands := t\<rparr>) of (rl, False) \<Rightarrow> rl
        | (rl, True) \<Rightarrow> broadcastPromptSent env cmd (sendPromptCommitted env 0 2 cmd rl))" for cmd t
      using assms by (intro pairE [of "confined A db" _ "confined A db"]) (auto split: bool.split)
    then show ?thesis using assms unfolding handle_prompt_accepted_def Let_def
      by (auto split: option.split prod.split)
  qed
  ultimately show ?thesis
    using assms unfolding handleDaemonMessage_def Let_def
    by (auto intro!: pairE [of "confined A db" _ "confined A db"] split: bool.split)
qed

lemma confined_batch [simp]: "confined A db rl \<Longrightarrow> confined A db (fst (replay_batch env k d cmds rl))"
proof (induction env k d cmds rl rule: replay_batch.induct)
  case (2 env k dev cmd cmds rl)
  obtain rl1 b where p: "persistAcceptedPrompt env k cmd rl = (rl1, b)" by fastforce
  then have "confined A db rl1" using confined_persist [OF "2.prems", of env k cmd] by simp
  then show ?case
    using "2.IH" p by (auto simp: send_def split: bool.split prod.split option.split send_result.split)
qed simp

lemma confined_replay: "replayPromptCommits fuel env k d rl = Some rl' \<Longrightarrow> confined A db rl \<Longrightarrow> confined A db rl'"
proof (induction fuel arbitrary: k rl)
  case (Suc fuel)
  show ?case
  proof (cases "ListUncommittedAcceptedPrompts (re_db env k) d 100 (rl_commands rl)")
    case (Inr cmds)
    obtain rl1 b where b: "replay_batch env (k + 1) d cmds rl = (rl1, b)" by fastforce
    then have "confined A db rl1" using confined_batch [OF Suc.prems(2), of env "k + 1" d cmds] by simp
    then show ?thesis
      using Suc.prems Suc.IH [of "k + 1 + length cmds" rl1] Inr b by (cases "cmds = []"; cases b) simp_all
  qed (use Suc.prems in simp)
qed simp

section \<open>Opening a socket\<close>

record phone_loop =
  ws_auth :: "PhoneAuth option"
  ws_device :: string
  ws_version :: string
  ws_switches :: "nanos list"

text \<open>What is written on a socket that is refused.\<close>

datatype first_reply =
    HandshakeRefused handshake_code
  | FirstError string
  | CredentialRefused

record admission =
  ad_auth :: "PhoneAuth option"
  ad_device :: string
  ad_subscription :: string
  ad_version :: string

definition negotiateFirstFrame :: "TransportMode \<Rightarrow> NekoMessage \<Rightarrow> HandshakeResult" where
  "negotiateFirstFrame mode msg =
     (if ValidateEnvelopeForm (Some msg) \<noteq> None then handshake_error ErrCodeInvalidEnvelope
      else NegotiateHandshake (nm_ProtocolVersion msg) (transport_text (nm_TransportMode msg)) mode
             CurrentProtocolMinor)"

definition socket_credential :: "http_request \<Rightarrow> NekoMessage \<Rightarrow> string" where
  "socket_credential r msg =
     (let secret = phoneSecretFromRequest r
      in if secret \<noteq> [] then secret
         else let p = string_or_empty (field (nm_Payload msg) ''secret'')
              in if p \<noteq> [] then p else string_or_empty (field (nm_Payload msg) ''phone_token''))"

definition socket_auth ::
  "engine \<Rightarrow> relay_env \<Rightarrow> http_request \<Rightarrow> NekoMessage \<Rightarrow> relay \<Rightarrow> relay \<times> PhoneAuth option option" where
  "socket_auth en env r msg rl =
     (if en_phoneSecret en = [] then (rl, Some None)
      else let secret = socket_credential r msg
           in if secureEqual secret (en_phoneSecret en) then (rl, Some (Some admin_auth))
              else (case on_store (db_ValidatePhoneToken (en_hash en) (re_store env 0) secret) rl of
                      (rl, Inr x) \<Rightarrow> (rl, Some (Some (phone_auth x)))
                    | (rl, Inl e) \<Rightarrow> (rl, None)))"

definition subscribe_device :: "NekoMessage \<Rightarrow> string" where
  "subscribe_device msg =
     (if nm_DeviceID msg \<noteq> [] then nm_DeviceID msg
      else string_or_empty (field (nm_Payload msg) ''device_id''))"

definition admit_device ::
  "relay_env \<Rightarrow> PhoneAuth option \<Rightarrow> string \<Rightarrow> NekoMessage \<Rightarrow> relay \<Rightarrow> relay \<times> (first_reply + admission)" where
  "admit_device env auth version msg rl =
     (let raw = subscribe_device msg; dev = TrimSpace raw
      in if raw = [] then (rl, Inl (FirstError ''device_id required in first message (type=subscribe)''))
         else if 256 < length dev then (rl, Inl (FirstError ''invalid device_id''))
         else (case on_store (DeviceExists (re_store env 1) 0 dev) rl of
                 (rl, False) \<Rightarrow> (rl, Inl (FirstError ''unknown device''))
               | (rl, True) \<Rightarrow>
                   (case phoneMayAccessDevice (re_store env 2) auth dev rl of
                      (rl, False) \<Rightarrow> (rl, Inl (FirstError ''forbidden''))
                    | (rl, True) \<Rightarrow>
                        (case subscribeRequestID (nm_Payload msg) of
                           None \<Rightarrow> (rl, Inl (FirstError ''invalid subscription_id''))
                         | Some sub \<Rightarrow> (rl, Inr \<lparr>ad_auth = auth, ad_device = dev, ad_subscription = sub,
                                                  ad_version = version\<rparr>)))))"

definition phone_admit ::
  "engine \<Rightarrow> relay_env \<Rightarrow> http_request \<Rightarrow> NekoMessage \<Rightarrow> relay \<Rightarrow> relay \<times> (first_reply + admission)" where
  "phone_admit en env r msg rl =
     (if nm_Type msg \<noteq> MsgSubscribe then (rl, Inl (FirstError ''first message must be subscribe''))
      else let hs = negotiateFirstFrame (re_mode env) msg
           in if hr_ErrorCode hs \<noteq> NoError then (rl, Inl (HandshakeRefused (hr_ErrorCode hs)))
              else (case socket_auth en env r msg rl of
                      (rl, None) \<Rightarrow> (rl, Inl CredentialRefused)
                    | (rl, Some auth) \<Rightarrow> admit_device env auth (hr_NegotiatedVersion hs) msg rl))"

section \<open>What is written to a subscribed socket\<close>

definition write_phone :: "relay_env \<Rightarrow> phone_socket \<Rightarrow> NekoMessage \<Rightarrow> relay \<Rightarrow> relay" where
  "write_phone env c m rl =
     rl\<lparr>rl_conns := (rl_conns rl)\<lparr>rc_phones := SafeWritePhone (re_marshal env) c m (phones rl)\<rparr>\<rparr>"

definition writePhoneError :: "relay_env \<Rightarrow> phone_socket \<Rightarrow> string \<Rightarrow> string \<Rightarrow> string \<Rightarrow> relay \<Rightarrow> relay" where
  "writePhoneError env c dev ses message =
     write_phone env c ((stampEnvelope (re_mode env) (NewMessageWithSession (re_now env) MsgError dev ses))
       \<lparr>nm_Payload := Some [(''message'', JString message)]\<rparr>)"

definition writeSubscribeError :: "relay_env \<Rightarrow> phone_socket \<Rightarrow> string \<Rightarrow> string \<Rightarrow> string \<Rightarrow> relay \<Rightarrow> relay" where
  "writeSubscribeError env c dev sub message =
     write_phone env c ((stampEnvelope (re_mode env) (NewMessage (re_now env) MsgError dev))
       \<lparr>nm_Payload := Some [(''message'', JString message), (''device_id'', JString dev),
          (''subscription_id'', JString sub)]\<rparr>)"

definition writeSubscribeAck ::
  "engine \<Rightarrow> relay_env \<Rightarrow> phone_socket \<Rightarrow> string \<Rightarrow> string \<Rightarrow> string \<Rightarrow> string \<Rightarrow> relay \<Rightarrow> relay" where
  "writeSubscribeAck en env c dev sub pwa version rl =
     write_phone env c ((stampEnvelope (re_mode env) (NewMessage (re_now env) MsgSubscribeAck dev))
       \<lparr>nm_ProtocolVersion := version,
        nm_Payload := Some [(''status'', JString ''subscribed''), (''device_id'', JString dev),
          (''subscription_id'', JString sub), (''protocol_version'', JString version),
          (''transport_mode'', JString (transport_text (re_mode env))), (''pwa_version'', JString pwa),
          (''server_version'', JString (en_appVersion en)),
          (''daemon_version'', JString (GetDaemonVersion (rl_conns rl) dev)),
          (''refresh_required'', JBool (pwa \<noteq> [] \<and> pwa \<noteq> en_appVersion en))]\<rparr>) rl"

text \<open>\<open>devices\<close> encodes the device list, \<open>None\<close> standing for the nil slice after an error.\<close>

definition pushPhoneSnapshot ::
  "(Device list option \<Rightarrow> json) \<Rightarrow> relay_env \<Rightarrow> nat \<Rightarrow> phone_socket \<Rightarrow> string \<Rightarrow> PhoneAuth option \<Rightarrow> relay \<Rightarrow> relay" where
  "pushPhoneSnapshot devices env n c dev auth rl =
     (let rl = (if re_mode env = TransportSealed
                then (case GetSealedCatalogSnapshot (rl_conns rl) dev of
                        None \<Rightarrow> rl | Some catalog \<Rightarrow> write_phone env c catalog rl)
                else (case GetDeviceSessionSnapshotVersion (rl_conns rl) dev of (sessions, caps, version) \<Rightarrow>
                        write_phone env c
                          ((stampEnvelope (re_mode env) (NewMessage (re_now env) MsgSessionList dev))
                             \<lparr>nm_ProtocolVersion := version,
                              nm_Payload := Some (re_session_list env
                                \<lparr>sl_sessions = sessions, sl_start_capabilities = caps\<rparr>)\<rparr>) rl))
      in (case visibleDevices env n auth rl of (rl, res) \<Rightarrow>
            write_phone env c
              ((stampEnvelope (re_mode env) (NewMessage (re_now env) MsgDeviceList []))
                 \<lparr>nm_Payload := Some [(''devices'', devices (case res of
                    Inl e \<Rightarrow> None | Inr ds \<Rightarrow> Some (decorateDeviceOnlineStatus (rl_conns rl) ds)))]\<rparr>) rl))"

definition requestFreshSessionCatalog :: "relay_env \<Rightarrow> string \<Rightarrow> relay \<Rightarrow> relay" where
  "requestFreshSessionCatalog env dev rl =
     fst (send env 0 dev (stampEnvelope (re_mode env) (NewMessage (re_now env) MsgRefreshSessions dev)) rl)"

definition refresh_if_asked :: "relay_env \<Rightarrow> NekoMessage \<Rightarrow> string \<Rightarrow> relay \<Rightarrow> relay" where
  "refresh_if_asked env msg dev rl =
     (if subscribeRequestsFreshSessionCatalog (nm_Payload msg) then requestFreshSessionCatalog env dev rl else rl)"

definition change_phones :: "(phone_registry \<Rightarrow> phone_registry) \<Rightarrow> relay \<Rightarrow> relay" where
  "change_phones f rl = rl\<lparr>rl_conns := (rl_conns rl)\<lparr>rc_phones := f (phones rl)\<rparr>\<rparr>"

definition phone_attach ::
  "(Device list option \<Rightarrow> json) \<Rightarrow> engine \<Rightarrow> relay_env \<Rightarrow> phone_socket \<Rightarrow> NekoMessage \<Rightarrow> admission \<Rightarrow> relay
   \<Rightarrow> relay \<times> phone_loop" where
  "phone_attach devices en env c msg ad rl =
     (let dev = ad_device ad; auth = ad_auth ad;
          rl = change_phones (AddPhoneAuthenticated dev c (auth_phone auth) (unrestricted auth)) rl;
          rl = writeSubscribeAck en env c dev (ad_subscription ad)
                 (reportedComponentVersion (nm_Payload msg) ''pwa_version'') (ad_version ad) rl;
          rl = pushPhoneSnapshot devices env 3 c dev auth rl;
          rl = refresh_if_asked env msg dev rl
      in (rl, \<lparr>ws_auth = auth, ws_device = dev, ws_version = ad_version ad, ws_switches = []\<rparr>))"

section \<open>The read loop\<close>

definition resubscribe ::
  "(Device list option \<Rightarrow> json) \<Rightarrow> engine \<Rightarrow> relay_env \<Rightarrow> phone_socket \<Rightarrow> NekoMessage \<Rightarrow> string \<Rightarrow> string
   \<Rightarrow> phone_loop \<Rightarrow> relay \<Rightarrow> relay \<times> phone_loop" where
  "resubscribe devices en env c msg dev sub l rl =
     (let rl = change_phones (ResubscribePhone dev c) rl;
          rl = writeSubscribeAck en env c dev sub (reportedComponentVersion (nm_Payload msg) ''pwa_version'')
                 (ws_version l) rl;
          rl = pushPhoneSnapshot devices env 2 c dev (ws_auth l) rl;
          rl = refresh_if_asked env msg dev rl
      in (rl, l\<lparr>ws_device := dev\<rparr>))"

definition phone_subscribe ::
  "(Device list option \<Rightarrow> json) \<Rightarrow> engine \<Rightarrow> relay_env \<Rightarrow> nanos \<Rightarrow> phone_socket \<Rightarrow> NekoMessage
   \<Rightarrow> phone_loop \<Rightarrow> relay \<Rightarrow> relay \<times> phone_loop" where
  "phone_subscribe devices en env now c msg l rl =
     (let raw = subscribe_device msg; dev = TrimSpace raw;
          sub = subscribeRequestID (nm_Payload msg);
          subText = (case sub of None \<Rightarrow> [] | Some s \<Rightarrow> s)
      in if raw = [] then (writeSubscribeError env c (ws_device l) subText ''device_id required'' rl, l)
         else if 256 < length dev then (writeSubscribeError env c (ws_device l) subText ''invalid device_id'' rl, l)
         else if sub = None then (writeSubscribeError env c dev [] ''invalid subscription_id'' rl, l)
         else if dev = ws_device l
         then (refresh_if_asked env msg dev
                 (writeSubscribeAck en env c dev subText (reportedComponentVersion (nm_Payload msg) ''pwa_version'')
                    (ws_version l) rl), l)
         else (case allowDeviceSwitch (ws_switches l) now of (switches, ok) \<Rightarrow>
                 let l = l\<lparr>ws_switches := switches\<rparr>
                 in if \<not> ok then (writeSubscribeError env c dev subText ''too many device switches'' rl, l)
                    else (case on_store (DeviceExists (re_store env 0) 0 dev) rl of
                            (rl, False) \<Rightarrow> (writeSubscribeError env c dev subText ''unknown device'' rl, l)
                          | (rl, True) \<Rightarrow>
                              (case phoneMayAccessDevice (re_store env 1) (ws_auth l) dev rl of
                                 (rl, False) \<Rightarrow> (writeSubscribeError env c dev subText ''forbidden'' rl, l)
                               | (rl, True) \<Rightarrow> resubscribe devices en env c msg dev subText l rl))))"

text \<open>One frame; \<open>None\<close> for a frame that is not JSON.  The loop ends after a frame the transport refuses.\<close>

definition phone_frame ::
  "(Device list option \<Rightarrow> json) \<Rightarrow> engine \<Rightarrow> relay_env \<Rightarrow> nanos \<Rightarrow> phone_socket \<Rightarrow> NekoMessage option
   \<Rightarrow> phone_loop \<Rightarrow> relay \<Rightarrow> relay \<times> phone_loop option" where
  "phone_frame devices en env now c frame l rl =
     (case frame of
        None \<Rightarrow> (rl, Some l)
      | Some msg \<Rightarrow>
          if ValidateFrameForTransport (Some msg) (re_mode env) \<noteq> None
          then (writePhoneError env c (ws_device l) (nm_SessionID msg) ''invalid transport envelope'' rl, None)
          else if nm_Type msg = MsgSubscribe
          then (case phone_subscribe devices en env now c msg l rl of (rl, l) \<Rightarrow> (rl, Some l))
          else let frameDev = TrimSpace (nm_DeviceID msg);
                   wrong = (if nm_Type msg = MsgHeartbeat then frameDev \<noteq> [] \<and> frameDev \<noteq> ws_device l
                            else frameDev \<noteq> ws_device l)
               in if wrong
                  then (writePhoneError env c (ws_device l) (nm_SessionID msg)
                          ''device_id does not match subscription'' rl, Some l)
                  else (handlePhoneMessage env (ws_device l) (msg\<lparr>nm_DeviceID := ws_device l\<rparr>) rl, Some l))"

section \<open>The nest\<close>

text \<open>
  \<open>ns_pending\<close> holds the sockets that passed the checks and are not registered yet: other requests run
  in between.  A socket is a fresh object, so its number is not in use when it is opened.
\<close>

record nest =
  ns_relay :: relay
  ns_pending :: "(phone_socket, admission \<times> NekoMessage) gomap"
  ns_loops :: "(phone_socket, phone_loop) gomap"

datatype api_call =
    ApiListDevices http_request
  | ApiDevice http_request device_call
  | ApiVapid http_request
  | ApiListPhones http_request
  | ApiBootstrap http_request string
  | ApiRevoke http_request "string option"
  | ApiRegister http_request "register_body option"
  | ApiPairCode http_request "key_body option"
  | ApiDeviceKeys http_request "key_body option"
  | ApiGrants http_request
  | ApiUploadPackage http_request "package_body option"
  | ApiPair http_request "pair_body option"

fun api_run :: "engine \<Rightarrow> relay_env \<Rightarrow> api_random \<Rightarrow> api_call \<Rightarrow> relay \<Rightarrow> relay \<times> response" where
  "api_run en env rnd (ApiListDevices r) rl = handleListDevices en env r rl"
| "api_run en env rnd (ApiDevice r c) rl = run_call en env r c rl"
| "api_run en env rnd (ApiVapid r) rl = handleVAPIDPublicKey en env r rl"
| "api_run en env rnd (ApiListPhones r) rl = handleListPhones en env r rl"
| "api_run en env rnd (ApiBootstrap r name) rl = handlePhoneBootstrap en env rnd r name rl"
| "api_run en env rnd (ApiRevoke r b) rl = handleRevokePhone en env r b rl"
| "api_run en env rnd (ApiRegister r b) rl = handleRegisterDevice en env rnd r b rl"
| "api_run en env rnd (ApiPairCode r b) rl = handleGeneratePairCode en env rnd r b rl"
| "api_run en env rnd (ApiDeviceKeys r b) rl = handleUploadDeviceKeys en env r b rl"
| "api_run en env rnd (ApiGrants r) rl = handleListDeviceGrants en env r rl"
| "api_run en env rnd (ApiUploadPackage r b) rl = handleUploadKeyPackage en env r b rl"
| "api_run en env rnd (ApiPair r b) rl = handleConsumePairCode en env rnd r b rl"

definition end_loop :: "phone_socket \<Rightarrow> phone_loop \<Rightarrow> nest \<Rightarrow> nest" where
  "end_loop c l s =
     s\<lparr>ns_relay := change_phones (RemovePhone (ws_device l) c) (ns_relay s), ns_loops := AList.delete c (ns_loops s)\<rparr>"

inductive nest_step :: "(Device list option \<Rightarrow> json) \<Rightarrow> engine \<Rightarrow> nest \<Rightarrow> nest \<Rightarrow> bool" for devices en where
  http: "nest_step devices en s (s\<lparr>ns_relay := fst (api_run en env rnd call (ns_relay s))\<rparr>)"
| refused: "phone_admit en env r msg (ns_relay s) = (rl, Inl reply) \<Longrightarrow> nest_step devices en s (s\<lparr>ns_relay := rl\<rparr>)"
| admit: "map_of (ns_loops s) c = None \<Longrightarrow> map_of (ns_pending s) c = None \<Longrightarrow>
    phone_admit en env r msg (ns_relay s) = (rl, Inr ad) \<Longrightarrow>
    nest_step devices en s (s\<lparr>ns_relay := rl, ns_pending := AList.update c (ad, msg) (ns_pending s)\<rparr>)"
| attach: "map_of (ns_pending s) c = Some (ad, msg) \<Longrightarrow>
    phone_attach devices en env c msg ad (ns_relay s) = (rl, l) \<Longrightarrow>
    nest_step devices en s (s\<lparr>ns_relay := rl, ns_pending := AList.delete c (ns_pending s),
                              ns_loops := AList.update c l (ns_loops s)\<rparr>)"
| frame: "map_of (ns_loops s) c = Some l \<Longrightarrow>
    phone_frame devices en env now c f l (ns_relay s) = (rl, Some l') \<Longrightarrow>
    nest_step devices en s (s\<lparr>ns_relay := rl, ns_loops := AList.update c l' (ns_loops s)\<rparr>)"
| bad_frame: "map_of (ns_loops s) c = Some l \<Longrightarrow>
    phone_frame devices en env now c f l (ns_relay s) = (rl, None) \<Longrightarrow>
    nest_step devices en s (end_loop c l (s\<lparr>ns_relay := rl\<rparr>))"
| close: "map_of (ns_loops s) c = Some l \<Longrightarrow> nest_step devices en s (end_loop c l s)"
| daemon: "nest_step devices en s (s\<lparr>ns_relay := handleDaemonMessage env r msg (ns_relay s)\<rparr>)"
| replay: "replayPromptCommits fuel env k dev (ns_relay s) = Some rl \<Longrightarrow>
    nest_step devices en s (s\<lparr>ns_relay := rl\<rparr>)"

inductive_cases nest_stepE: "nest_step devices en s s'"

section \<open>Handlers and sockets add no subscriber but their own\<close>

lemma confined_on_store [simp]:
  assumes "confined A db rl" and "\<And>db. later_db db (fst (f db))"
  shows "confined A db (fst (on_store f rl))"
  using assms(1) assms(2) [of "rl_store rl"] by (auto simp: on_store_def split: prod.split)

lemma confined_write [simp]:
  assumes "confined A db rl"
  shows "confined A db (write_phone env c m rl)"
proof -
  have "phones_ok (SafeWritePhone (re_marshal env) c m (phones rl))
      \<and> set (subscribers (SafeWritePhone (re_marshal env) c m (phones rl)) d) \<subseteq> set (subscribers (phones rl) d)" for d
    using send_frame_ok send_frame_subscribers [OF confined_ok [OF assms], of _ c d] confined_ok [OF assms]
    unfolding SafeWritePhone_def by (auto split: option.split) (metis filter_is_subset subsetD)
  then show ?thesis unfolding write_phone_def by (intro confined_phones [OF assms]) auto
qed

lemma confined_auth [simp]: "confined A db rl \<Longrightarrow> confined A db (fst (requirePhoneAuthResult en env r rl))"
  unfolding requirePhoneAuthResult_def Let_def
  by (auto intro!: pairE [of "confined A db" _ "\<lambda>x. confined A db (fst x)"] split: sum.split)

lemma confined_may [simp]: "confined A db rl \<Longrightarrow> confined A db (fst (phoneMayAccessDevice run auth d rl))"
  by (simp add: phoneMayAccessDevice_def)

lemma confined_visible [simp]: "confined A db rl \<Longrightarrow> confined A db (fst (visibleDevices env n auth rl))"
  unfolding visibleDevices_def
  by (auto intro!: pairE [of "confined A db" _ "\<lambda>x. confined A db (fst x)"] split: sum.split)

lemma confined_close [simp]:
  assumes "confined A db rl"
  shows "confined A db (close_principal p rl)"
proof -
  note ok = confined_ok [OF assms]
  have "phones_ok (fold dropPhone cs s) \<and> set (subscribers (fold dropPhone cs s) d) \<subseteq> set (subscribers s d)"
    if "phones_ok s" for cs s d
    using drop_all [OF that, of cs] fold_drop_all [OF that, of cs] by auto
  then show ?thesis
    unfolding close_principal_def ClosePhonesByPrincipal_def Let_def
    by (intro confined_phones [OF assms]) (use ok in auto)
qed

lemmas confined_case = pairE [of "confined A db" _ "\<lambda>x. confined A db (fst x)" for A db]

lemma fst_case [simp]: "fst (case x of (a, b) \<Rightarrow> (rl, g a b)) = rl"
  by (simp split: prod.split)

lemma confined_token [simp]: "confined A db rl \<Longrightarrow> confined A db (fst (device_token_ok en run d token rl))"
  by (simp add: device_token_ok_def)

lemma confined_listings [simp]:
  assumes "confined A db rl"
  shows "confined A db (fst (handleListDevices en env r rl))"
    and "confined A db (fst (handleVAPIDPublicKey en env r rl))"
    and "confined A db (fst (handleListPhones en env r rl))"
    and "confined A db (fst (handlePhoneBootstrap en env rnd r name rl))"
    and "confined A db (fst (handleListDeviceGrants en env r rl))"
  using assms
  unfolding handleListDevices_def handleVAPIDPublicKey_def handleListPhones_def handlePhoneBootstrap_def
    handleListDeviceGrants_def Let_def
  by (auto intro!: confined_case split: sum.split bool.split)

lemma confined_sessions: "confined A db rl \<Longrightarrow> confined A db (fst (handleDeviceSessions en env r rl))"
  unfolding handleDeviceSessions_def Let_def by (auto intro!: confined_case split: sum.split bool.split)

lemma confined_messages: "confined A db rl \<Longrightarrow> confined A db (fst (handleMessages en env r rl))"
  unfolding handleMessages_def Let_def by (auto intro!: confined_case split: sum.split bool.split)

lemma confined_packages: "confined A db rl \<Longrightarrow> confined A db (fst (handleKeyPackages en env r rl))"
  unfolding handleKeyPackages_def Let_def by (auto intro!: confined_case split: sum.split bool.split)

lemma confined_save_subscription [simp]: "confined A db rl \<Longrightarrow> confined A db (fst (save_subscription env sub rl))"
  unfolding save_subscription_def by (auto intro!: confined_case split: option.split)

lemma confined_subscribe: "confined A db rl \<Longrightarrow> confined A db (fst (handlePushSubscribe en env r body rl))"
  unfolding handlePushSubscribe_def Let_def
  by (auto intro!: confined_case split: sum.split bool.split option.split)

lemma confined_call [simp]: "confined A db rl \<Longrightarrow> confined A db (fst (run_call en env r c rl))"
  by (cases c) (simp_all add: confined_sessions confined_messages confined_packages confined_subscribe)

lemma confined_revoke [simp]:
  assumes "confined A db rl"
  shows "confined A db (fst (handleRevokePhone en env r body rl))"
proof -
  have "confined A db (fst (case on_store (db_RevokePhone (re_store env 1) p) rl1 of
        (rl, Some StorePhoneNotFound) \<Rightarrow> (rl, HttpError 404 (Text ''not found''))
      | (rl, Some e) \<Rightarrow> (rl, HttpError 500 (StoreText e))
      | (rl, None) \<Rightarrow> (close_principal p rl, Body (PhoneRevoked p))))" if "confined A db rl1" for rl1 p
    using that by (intro confined_case) (auto split: option.split store_error.split)
  then show ?thesis
    using assms unfolding handleRevokePhone_def by (auto intro!: confined_case split: sum.split option.split)
qed

lemma confined_keys [simp]: "confined A db rl \<Longrightarrow> confined A db (set_device_keys run d ed x fp rl)"
  by (simp add: set_device_keys_def)

lemma confined_register_device [simp]: "confined A db rl \<Longrightarrow> confined A db (fst (handleRegisterDevice en env rnd r body rl))"
proof -
  assume ok: "confined A db rl"
  have "confined A db (fst (register_device en env rnd req d rl))" for req d
    using ok unfolding register_device_def Let_def by (auto intro!: confined_case split: sum.split bool.split)
  then show ?thesis using ok unfolding handleRegisterDevice_def Let_def by (auto split: option.split)
qed

lemma confined_device_calls [simp]:
  assumes "confined A db rl"
  shows "confined A db (fst (handleGeneratePairCode en env rnd r body rl))"
    and "confined A db (fst (handleUploadDeviceKeys en env r body rl))"
proof -
  have "confined A db (fst (pair_code_created env code e d rl1))" if "confined A db rl1" for code e d rl1
    using that unfolding pair_code_created_def by (auto intro!: confined_case)
  then show "confined A db (fst (handleGeneratePairCode en env rnd r body rl))"
    using assms unfolding handleGeneratePairCode_def Let_def
    by (auto intro!: confined_case split: sum.split bool.split option.split)
  show "confined A db (fst (handleUploadDeviceKeys en env r body rl))"
    using assms unfolding handleUploadDeviceKeys_def
    by (auto intro!: confined_case split: bool.split option.split)
qed

lemma confined_upload [simp]: "confined A db rl \<Longrightarrow> confined A db (fst (handleUploadKeyPackage en env r body rl))"
  unfolding handleUploadKeyPackage_def by (auto intro!: confined_case split: bool.split option.split)

lemma confined_pair [simp]:
  assumes "confined A db rl"
  shows "confined A db (fst (handleConsumePairCode en env rnd r body rl))"
proof -
  have grant: "confined A db (fst (pair_grant env req d p t name keys rl))" if "confined A db rl" for req d p t name keys rl
    using that unfolding pair_grant_def Let_def by (auto intro!: confined_case split: option.split)
  have phone: "confined A db (fst (pair_phone en env rnd auth name rl))" if "confined A db rl" for auth name rl
    using that unfolding pair_phone_def by (auto intro!: confined_case split: sum.split)
  have "confined A db (fst (pair_with en env rnd auth req d rl))" if "confined A db rl" for auth req d rl
    using that grant phone unfolding pair_with_def Let_def by (auto intro!: confined_case split: sum.split)
  then show ?thesis
    using assms unfolding handleConsumePairCode_def by (auto intro!: confined_case split: sum.split option.split)
qed

lemma confined_api: "confined A db rl \<Longrightarrow> confined A db (fst (api_run en env rnd call rl))"
  by (cases call) simp_all

lemma confined_admit_device:
  assumes "confined A db rl"
  shows "confined A db (fst (admit_device env auth v msg rl))"
  using assms unfolding admit_device_def Let_def by (auto intro!: confined_case split: bool.split option.split)

lemma confined_socket_auth [simp]: "confined A db rl \<Longrightarrow> confined A db (fst (socket_auth en env r msg rl))"
  unfolding socket_auth_def Let_def by (auto intro!: confined_case split: sum.split)

lemma confined_admit: "confined A db rl \<Longrightarrow> confined A db (fst (phone_admit en env r msg rl))"
  unfolding phone_admit_def Let_def
  by (auto intro!: confined_case confined_admit_device split: option.split)

lemma confined_replies [simp]:
  "confined A db rl \<Longrightarrow> confined A db (writePhoneError env c d s m rl)"
  "confined A db rl \<Longrightarrow> confined A db (writeSubscribeError env c d s m rl)"
  "confined A db rl \<Longrightarrow> confined A db (writeSubscribeAck en env c d s pwa v rl)"
  "confined A db rl \<Longrightarrow> confined A db (refresh_if_asked env msg d rl)"
  by (simp_all add: writePhoneError_def writeSubscribeError_def writeSubscribeAck_def refresh_if_asked_def
      requestFreshSessionCatalog_def)

lemma confined_snapshot [simp]:
  assumes "confined A db rl"
  shows "confined A db (pushPhoneSnapshot devices env n c d auth rl)"
proof -
  have "confined A db (case visibleDevices env n auth rl1 of (rl, res) \<Rightarrow> write_phone env c (f rl res) rl)"
    if "confined A db rl1" for rl1 f
    by (rule pairE [of "confined A db"]) (use that in simp_all)
  then show ?thesis
    using assms unfolding pushPhoneSnapshot_def Let_def by (simp split: option.split prod.split)
qed

lemma newest_subset: "set (newest cs) \<subseteq> set cs"
  by (auto simp: newest_def dest: in_set_dropD)

lemma confined_change:
  assumes "confined A db rl" and "phones_ok (f (phones rl))" and "\<And>d. set (subscribers (f (phones rl)) d) \<subseteq> B d"
  shows "confined B db (change_phones f rl)"
  using assms by (simp add: confined_def change_phones_def)

lemma confined_add:
  assumes "confined A db rl"
  shows "confined (A(d := insert c (A d))) db (change_phones (AddPhoneAuthenticated d c p adm) rl)"
proof (rule confined_change [OF assms])
  note add = add_phone_effect [OF confined_ok [OF assms], of d c p adm]
  show "phones_ok (AddPhoneAuthenticated d c p adm (phones rl))" by (rule add)
  show "set (subscribers (AddPhoneAuthenticated d c p adm (phones rl)) d') \<subseteq> (A(d := insert c (A d))) d'" for d'
    using assms newest_subset [of "subscribers (phones rl) d @ [c]"] unfolding add(2) by (auto simp: confined_def)
qed

lemma confined_resubscribe:
  assumes "confined A db rl"
  shows "confined (\<lambda>d'. if d' = d then insert c (A d') else A d' - {c}) db (change_phones (ResubscribePhone d c) rl)"
proof (rule confined_change [OF assms])
  note re = resubscribe_effect [OF confined_ok [OF assms], of d c]
  show "phones_ok (ResubscribePhone d c (phones rl))" by (rule re)
  show "set (subscribers (ResubscribePhone d c (phones rl)) d')
      \<subseteq> (if d' = d then insert c (A d') else A d' - {c})" for d'
    using assms newest_subset [of "filter (\<lambda>x. x \<noteq> c) (subscribers (phones rl) d) @ [c]"]
    unfolding re(2) by (auto simp: confined_def)
qed

lemma confined_remove:
  assumes "confined A db rl"
  shows "confined (A(d := A d - {c})) db (change_phones (RemovePhone d c) rl)"
proof (rule confined_change [OF assms])
  note ok = confined_ok [OF assms]
  show "phones_ok (RemovePhone d c (phones rl))" using ok by (rule RemovePhone_ok)
  have "subscribers (RemovePhone d c (phones rl)) = (subscribers (phones rl))(d := withoutPhoneConn (subscribers (phones rl) d) c)"
    by (simp add: RemovePhone_def Let_def subscribers_upd fun_eq_iff)
  then show "set (subscribers (RemovePhone d c (phones rl)) d') \<subseteq> (A(d := A d - {c})) d'" for d'
    using assms by (auto simp: confined_def withoutPhoneConn_def)
qed

lemma confined_mono: "confined A db rl \<Longrightarrow> (\<And>d. A d \<subseteq> B d) \<Longrightarrow> confined B db rl"
  by (fastforce simp: confined_def)

lemma attach_confined:
  assumes "confined A db rl" and "phone_attach devices en env c msg ad rl = (rl', l)"
  shows "confined (A(ad_device ad := insert c (A (ad_device ad)))) db rl'"
    and "ws_device l = ad_device ad" and "ws_auth l = ad_auth ad"
  using assms(2) confined_add [OF assms(1), of "ad_device ad" c "auth_phone (ad_auth ad)" "unrestricted (ad_auth ad)"]
  by (auto simp: phone_attach_def Let_def)

text \<open>The device may be accessed: with the nest secret, or because the phone has been paired with it.\<close>

definition may :: "PhoneAuth option \<Rightarrow> string \<Rightarrow> server_db \<Rightarrow> bool" where
  "may auth d db \<longleftrightarrow> unrestricted auth \<or> map_of (sd_grants db) (auth_phone auth, d) \<noteq> None"

lemma grant_row_kept: "map_of (sd_grants db) k \<noteq> None \<Longrightarrow> map_of (sd_grants (fst (run_store s db))) k \<noteq> None"
  by (cases s) (auto simp: update_row_def insert_row_def save_push_def revoke_grants_lookup Let_def
      split: option.splits if_splits prod.splits)

lemma may_later: "may auth d db \<Longrightarrow> later_db db db' \<Longrightarrow> may auth d db'"
  using run_all_keeps [of "\<lambda>db. map_of (sd_grants db) (auth_phone auth, d) \<noteq> None" db] grant_row_kept
  by (auto simp: may_def later_db_def)

lemma may_found:
  assumes "phoneMayAccessDevice run auth d rl = (rl', True)"
  shows "may auth d (rl_store rl')"
  using assms
  by (auto simp: phoneMayAccessDevice_def may_def on_store_eq PhoneHasDeviceGrant_def store_read_def Let_def
      split: if_splits prod.splits sum.splits option.splits)

text \<open>A frame leaves the loop where it is, or moves it to a device the credential may access.\<close>

lemma resubscribe_confined:
  assumes "confined A db rl" and "resubscribe devices en env c msg d sub l rl = (rl', l')"
    and "may (ws_auth l) d (rl_store rl)"
  shows "confined (\<lambda>d'. if d' = d then insert c (A d') else A d' - {c}) db rl'"
    and "l' = l\<lparr>ws_device := d\<rparr>" and "may (ws_auth l) d (rl_store rl')"
proof -
  have "confined A (rl_store rl) rl" using assms(1) by (simp add: confined_def)
  then have "confined (\<lambda>d'. if d' = d then insert c (A d') else A d' - {c}) (rl_store rl) rl'"
    using assms(2) confined_resubscribe [of A "rl_store rl" rl d c] by (auto simp: resubscribe_def Let_def)
  then show "may (ws_auth l) d (rl_store rl')" using assms(3) may_later by (auto simp: confined_def)
  show "confined (\<lambda>d'. if d' = d then insert c (A d') else A d' - {c}) db rl'" "l' = l\<lparr>ws_device := d\<rparr>"
    using assms(2) confined_resubscribe [OF assms(1), of d c] by (auto simp: resubscribe_def Let_def)
qed

definition moved :: "(string \<Rightarrow> phone_socket set) \<Rightarrow> server_db \<Rightarrow> phone_socket \<Rightarrow> phone_loop \<Rightarrow> phone_loop \<Rightarrow> relay \<Rightarrow> bool" where
  "moved A db c l l' rl \<longleftrightarrow> ws_auth l' = ws_auth l
     \<and> (ws_device l' = ws_device l \<and> confined A db rl
        \<or> confined (\<lambda>d. if d = ws_device l' then insert c (A d) else A d - {c}) db rl
          \<and> may (ws_auth l) (ws_device l') (rl_store rl))"

lemma moved_stay [simp]:
  "confined A db rl \<Longrightarrow> moved A db c l l rl"
  "confined A db rl \<Longrightarrow> moved A db c l (l\<lparr>ws_switches := sw\<rparr>) rl"
  by (simp_all add: moved_def)

lemma subscribe_moved:
  assumes ok: "confined A db rl" and "phone_subscribe devices en env now c msg l rl = (rl', l')"
  shows "moved A db c l l' rl'"
proof -
  let ?d = "TrimSpace (subscribe_device msg)"
  obtain sw b where sw: "allowDeviceSwitch (ws_switches l) now = (sw, b)" by fastforce
  obtain rl1 b1 where ex: "on_store (DeviceExists (re_store env 0) 0 ?d) rl = (rl1, b1)" by fastforce
  have ok1: "confined A db rl1" using confined_on_store [OF ok, of "DeviceExists (re_store env 0) 0 ?d"] ex by simp
  obtain rl2 b2 where acc: "phoneMayAccessDevice (re_store env 1) (ws_auth l) ?d rl1 = (rl2, b2)" by fastforce
  have ok2: "confined A db rl2" using confined_may [OF ok1, of "re_store env 1" "ws_auth l" ?d] acc by simp
  have move: "moved A db c l l' rl'"
    if "resubscribe devices en env c msg ?d sub (l\<lparr>ws_switches := sw\<rparr>) rl2 = (rl', l')" "b2" for sub
    using resubscribe_confined [OF ok2 that(1)] may_found [of "re_store env 1" "ws_auth l" ?d rl1 rl2] acc that(2)
    by (simp add: moved_def)
  show ?thesis
    using assms(2) unfolding phone_subscribe_def Let_def sw prod.case ex acc
    by (cases b1; cases b2) (auto split: if_splits dest: move simp: ok ok1 ok2 acc [unfolded One_nat_def])
qed

lemma frame_moved:
  assumes "confined A db rl" and "phone_frame devices en env now c f l rl = (rl', l')"
  shows "case l' of None \<Rightarrow> confined A db rl' | Some l' \<Rightarrow> moved A db c l l' rl'"
  using assms(2) subscribe_moved [OF assms(1), of devices en env now c _ l] assms(1)
  by (auto simp: phone_frame_def Let_def split: option.splits if_splits prod.splits)

section \<open>Isolation of devices\<close>

definition looping :: "(phone_socket, phone_loop) gomap \<Rightarrow> string \<Rightarrow> phone_socket set" where
  "looping loops d = {c. \<exists>l. map_of loops c = Some l \<and> ws_device l = d}"

definition nest_ok :: "nest \<Rightarrow> bool" where
  "nest_ok s \<longleftrightarrow> confined (looping (ns_loops s)) (rl_store (ns_relay s)) (ns_relay s)
     \<and> (\<forall>c l. map_of (ns_loops s) c = Some l \<longrightarrow> may (ws_auth l) (ws_device l) (rl_store (ns_relay s)))
     \<and> (\<forall>c ad msg. map_of (ns_pending s) c = Some (ad, msg) \<longrightarrow>
          map_of (ns_loops s) c = None \<and> may (ad_auth ad) (ad_device ad) (rl_store (ns_relay s)))"

lemma nest_okI:
  assumes ok: "nest_ok s" and "confined A (rl_store (ns_relay s)) (ns_relay s')"
    and "\<And>d. A d \<subseteq> looping (ns_loops s') d"
    and "\<And>c l. map_of (ns_loops s') c = Some l \<Longrightarrow> map_of (ns_loops s) c = Some l
           \<or> may (ws_auth l) (ws_device l) (rl_store (ns_relay s'))"
    and "\<And>c ad msg. map_of (ns_pending s') c = Some (ad, msg) \<Longrightarrow> map_of (ns_loops s') c = None
           \<and> (map_of (ns_pending s) c = Some (ad, msg) \<or> may (ad_auth ad) (ad_device ad) (rl_store (ns_relay s')))"
  shows "nest_ok s'"
proof -
  have later: "later_db (rl_store (ns_relay s)) (rl_store (ns_relay s'))" using assms(2) by (simp add: confined_def)
  have "confined (looping (ns_loops s')) (rl_store (ns_relay s')) (ns_relay s')"
    using confined_mono [OF assms(2,3)] by (simp add: confined_def)
  moreover have "may (ws_auth l) (ws_device l) (rl_store (ns_relay s'))" if "map_of (ns_loops s') c = Some l" for c l
    using assms(4) [OF that] ok may_later [OF _ later] by (auto simp: nest_ok_def)
  moreover have "may (ad_auth ad) (ad_device ad) (rl_store (ns_relay s'))"
    if "map_of (ns_pending s') c = Some (ad, msg)" for c ad msg
    using assms(5) [OF that] ok may_later [OF _ later] unfolding nest_ok_def by blast
  ultimately show ?thesis using assms(5) by (auto simp: nest_ok_def)
qed

lemma nest_ok_relay:
  assumes "nest_ok s" and "\<And>A db. confined A db (ns_relay s) \<Longrightarrow> confined A db rl"
  shows "nest_ok (s\<lparr>ns_relay := rl\<rparr>)"
  by (rule nest_okI [OF assms(1), where A = "looping (ns_loops s)"])
    (use assms(1) assms(2) [of "looping (ns_loops s)" "rl_store (ns_relay s)"] in \<open>auto simp: nest_ok_def\<close>)

lemma admitted_may:
  assumes "phone_admit en env r msg rl = (rl', Inr ad)"
  shows "may (ad_auth ad) (ad_device ad) (rl_store rl')"
proof -
  have "may auth (ad_device ad) (rl_store rl') \<and> ad_auth ad = auth"
    if "admit_device env auth v msg rl1 = (rl', Inr ad)" for auth v rl1
    using that may_found by (auto simp: admit_device_def Let_def split: if_splits prod.splits bool.splits option.splits)
  then show ?thesis using assms
    by (auto simp: phone_admit_def Let_def split: if_splits prod.splits option.splits)
qed

lemma nest_ok_end:
  assumes "nest_ok s" and "map_of (ns_loops s) c = Some l"
  shows "nest_ok (end_loop c l s)"
proof (rule nest_okI [OF assms(1)])
  have "confined (looping (ns_loops s)) (rl_store (ns_relay s)) (ns_relay s)" using assms(1) by (simp add: nest_ok_def)
  from confined_remove [OF this, of "ws_device l" c]
  show "confined ((looping (ns_loops s))(ws_device l := looping (ns_loops s) (ws_device l) - {c}))
      (rl_store (ns_relay s)) (ns_relay (end_loop c l s))" by (simp add: end_loop_def)
  show "((looping (ns_loops s))(ws_device l := looping (ns_loops s) (ws_device l) - {c})) d
      \<subseteq> looping (ns_loops (end_loop c l s)) d" for d
    using assms(2) by (auto simp: looping_def end_loop_def delete_conv' split: if_splits)
qed (use assms in \<open>auto simp: end_loop_def nest_ok_def delete_conv' split: if_splits\<close>)

lemma nest_ok_attach:
  assumes "nest_ok s" and "map_of (ns_pending s) c = Some (ad, msg)"
    and "phone_attach devices en env c msg ad (ns_relay s) = (rl, l)"
  shows "nest_ok (s\<lparr>ns_relay := rl, ns_pending := AList.delete c (ns_pending s), ns_loops := AList.update c l (ns_loops s)\<rparr>)"
proof (rule nest_okI [OF assms(1)])
  have "confined (looping (ns_loops s)) (rl_store (ns_relay s)) (ns_relay s)" and free: "map_of (ns_loops s) c = None"
    and m: "may (ad_auth ad) (ad_device ad) (rl_store (ns_relay s))"
    using assms(1,2) unfolding nest_ok_def by blast+
  note at = attach_confined [OF this(1) assms(3)]
  let ?A = "(looping (ns_loops s))(ad_device ad := insert c (looping (ns_loops s) (ad_device ad)))"
  let ?s = "s\<lparr>ns_relay := rl, ns_pending := AList.delete c (ns_pending s), ns_loops := AList.update c l (ns_loops s)\<rparr>"
  show "confined ?A (rl_store (ns_relay s)) (ns_relay ?s)" using at(1) by simp
  show "?A d \<subseteq> looping (ns_loops ?s) d" for d
    using at(2) free by (auto simp: looping_def)
  show "map_of (ns_loops s) c' = Some l' \<or> may (ws_auth l') (ws_device l') (rl_store (ns_relay ?s))"
    if "map_of (ns_loops ?s) c' = Some l'" for c' l'
    using that at may_later [OF m] by (auto simp: confined_def split: if_splits)
qed (use assms(1) in \<open>auto simp: nest_ok_def delete_conv' split: if_splits\<close>)

lemma nest_ok_frame:
  assumes "nest_ok s" and "map_of (ns_loops s) c = Some l"
    and "phone_frame devices en env now c f l (ns_relay s) = (rl, Some l')"
  shows "nest_ok (s\<lparr>ns_relay := rl, ns_loops := AList.update c l' (ns_loops s)\<rparr>)"
proof -
  have "confined (looping (ns_loops s)) (rl_store (ns_relay s)) (ns_relay s)" using assms(1) by (simp add: nest_ok_def)
  then have "moved (looping (ns_loops s)) (rl_store (ns_relay s)) c l l' rl"
    using frame_moved [of "looping (ns_loops s)" "rl_store (ns_relay s)" "ns_relay s"] assms(3) by fastforce
  moreover have stay: "may (ws_auth l) (ws_device l) (rl_store rl)" if "later_db (rl_store (ns_relay s)) (rl_store rl)"
    using assms(1,2) may_later [OF _ that] by (auto simp: nest_ok_def)
  ultimately obtain A where A: "confined A (rl_store (ns_relay s)) rl" "may (ws_auth l') (ws_device l') (rl_store rl)"
    "\<And>d. A d \<subseteq> looping (AList.update c l' (ns_loops s)) d"
    using assms(2) unfolding moved_def
  proof (elim conjE disjE, goal_cases)
    case 1
    then show ?case by (intro 1(1) [of "looping (ns_loops s)"]) (auto simp: looping_def confined_def)
  next
    case 2
    then show ?case
      by (intro 2(1) [of "\<lambda>d. if d = ws_device l' then insert c (looping (ns_loops s) d) else looping (ns_loops s) d - {c}"])
        (auto simp: looping_def)
  qed
  show ?thesis
    by (rule nest_okI [OF assms(1), of A]) (use A assms(1,2) in \<open>auto simp: nest_ok_def split: if_splits\<close>)
qed

lemma nest_step_ok:
  assumes "nest_ok s" and "nest_step devices en s s'"
  shows "nest_ok s'"
  using assms(2)
proof cases
  case (http env rnd call)
  then show ?thesis using nest_ok_relay [OF assms(1) confined_api] by simp
next
  case (refused env r msg rl reply)
  then show ?thesis using nest_ok_relay [OF assms(1), of rl] confined_admit [of _ _ "ns_relay s" en env r msg] by simp
next
  case (admit c env r msg rl ad)
  have "confined (looping (ns_loops s)) (rl_store (ns_relay s)) (ns_relay s)" using assms(1) by (simp add: nest_ok_def)
  from confined_admit [OF this, of en env r msg] admit(4)
  have "confined (looping (ns_loops s)) (rl_store (ns_relay s)) rl" by simp
  then show ?thesis
    unfolding admit(1) by (intro nest_okI [OF assms(1)])
      (use assms(1) admit admitted_may [OF admit(4)] in \<open>auto simp: nest_ok_def split: if_splits\<close>)
next
  case (attach c ad msg env rl l)
  then show ?thesis using nest_ok_attach [OF assms(1)] by simp
next
  case (frame c l env now f rl l')
  then show ?thesis using nest_ok_frame [OF assms(1)] by simp
next
  case (bad_frame c l env now f rl)
  have "confined A db rl" if "confined A db (ns_relay s)" for A db
    using frame_moved [OF that bad_frame(3)] by simp
  then have "nest_ok (s\<lparr>ns_relay := rl\<rparr>)" by (rule nest_ok_relay [OF assms(1)])
  then show ?thesis unfolding bad_frame(1) by (rule nest_ok_end) (use bad_frame in simp)
next
  case (close c l)
  then show ?thesis using nest_ok_end [OF assms(1)] by simp
next
  case (daemon env r msg)
  then show ?thesis using nest_ok_relay [OF assms(1) confined_daemon] by simp
next
  case (replay fuel env k dev rl)
  then show ?thesis using nest_ok_relay [OF assms(1), of rl] confined_replay by blast
qed

interpretation nest: step_invariant "nest_step devices en" nest_ok for devices en
  by unfold_locales (rule nest_step_ok)

definition empty_nest :: "server_db \<Rightarrow> relay_conns \<Rightarrow> nest" where
  "empty_nest db cs = \<lparr>ns_relay = empty_relay db (cs\<lparr>rc_phones := new_phones\<rparr>), ns_pending = [], ns_loops = []\<rparr>"

lemma empty_nest_ok: "nest_ok (empty_nest db cs)"
  by (simp add: nest_ok_def empty_nest_def empty_relay_def confined_def phones_ok_def conns_ok_def new_phones_def
      subscribers_def)


section \<open>A revocation between the check and the registration\<close>

definition demo_subscribe :: NekoMessage where
  "demo_subscribe = (NewMessage 5 MsgSubscribe ''d'')\<lparr>nm_ProtocolVersion := ''1.3'', nm_TransportMode := TransportOpen\<rparr>"

definition demo_conns_empty :: relay_conns where
  "demo_conns_empty = \<lparr>rc_daemons = NewConnectionManagerWithPolicy ReplaceExisting, rc_catalogs = (\<lambda>r. no_catalog),
     rc_phones = new_phones\<rparr>"

definition race_start :: nest where
  "race_start = empty_nest (run_all nest_stmts empty_db) demo_conns_empty"

definition demo_admit :: "relay \<times> (first_reply + admission)" where
  "demo_admit = phone_admit nest_engine nest_env (nest_request ''GET'' ''t'') demo_subscribe (ns_relay race_start)"

definition demo_admission :: admission where
  "demo_admission = \<lparr>ad_auth = Some (phone_auth (''p'', ''Phone'')), ad_device = ''d'', ad_subscription = [],
     ad_version = ''1.3''\<rparr>"

definition race_admitted :: nest where
  "race_admitted = race_start\<lparr>ns_relay := fst demo_admit,
     ns_pending := AList.update 1 (demo_admission, demo_subscribe) (ns_pending race_start)\<rparr>"

definition race_revoked :: nest where
  "race_revoked = race_admitted\<lparr>ns_relay :=
     fst (api_run nest_engine nest_env nest_random (ApiRevoke (nest_request ''POST'' ''secret'') (Some ''p'')) (ns_relay race_admitted))\<rparr>"

definition no_devices :: "Device list option \<Rightarrow> json" where
  "no_devices ds = JNull"

definition demo_attach :: "nest \<Rightarrow> relay \<times> phone_loop" where
  "demo_attach s = phone_attach no_devices nest_engine nest_env 1 demo_subscribe demo_admission (ns_relay s)"

definition attached :: "nest \<Rightarrow> nest" where
  "attached s = s\<lparr>ns_relay := fst (demo_attach s), ns_pending := AList.delete 1 (ns_pending s),
     ns_loops := AList.update 1 (snd (demo_attach s)) (ns_loops s)\<rparr>"

lemma demo_admitted: "snd demo_admit = Inr demo_admission"
  by code_simp

lemma race_admitted_step: "nest_step no_devices nest_engine race_start race_admitted"
  unfolding race_admitted_def
proof (rule nest_step.admit)
  show "phone_admit nest_engine nest_env (nest_request ''GET'' ''t'') demo_subscribe (ns_relay race_start)
      = (fst demo_admit, Inr demo_admission)"
    using demo_admitted unfolding demo_admit_def by (metis prod.collapse)
qed (simp_all add: race_start_def empty_nest_def)

lemma attached_step:
  "map_of (ns_pending s) 1 = Some (demo_admission, demo_subscribe) \<Longrightarrow> nest_step no_devices nest_engine s (attached s)"
  unfolding attached_def by (rule nest_step.attach) (auto simp: demo_attach_def)



end
