(* ===== verification/Sealed_Keys.thy ===== *)
theory Sealed_Keys
  imports Prelude "HOL-Library.Char_ord" "HOL-Library.List_Lexorder" "HOL-Library.Product_Lexorder"
begin

text \<open>
  The daemon's content keys: the sealed wire format (\<open>daemon/internal/sealed/sealed.go\<close>) and the
  key manager (\<open>daemon/internal/sealedkeys/manager.go\<close>) with its sequence counters and its file.

  AES-GCM and the JSON encoder of the authenticated fields are the parameter \<open>crypto_lib\<close>; random
  bytes are arguments.  Unpadded base64url is written out.  The manager changes its memory first
  and writes the file afterwards, in place, so a failed write leaves the old file, a torn one or
  the new one.  The theorems: base64 reads back what it wrote, a sealed session message opens to
  its plaintext whatever the manager does in between, sequence numbers do not repeat over calls and
  restarts while the writes succeed, and what goes wrong when one fails.
\<close>

section \<open>Base64\<close>

definition b64_alphabet :: string where
  "b64_alphabet = ''ABCDEFGHIJKLMNOPQRSTUVWXYZabcdefghijklmnopqrstuvwxyz0123456789-_''"

definition b64_char :: "nat \<Rightarrow> char" where
  "b64_char i = b64_alphabet ! (i mod 64)"

fun index_of :: "'a \<Rightarrow> 'a list \<Rightarrow> nat option" where
  "index_of x [] = None"
| "index_of x (y # ys) = (if x = y then Some 0 else map_option Suc (index_of x ys))"

definition b64_val :: "char \<Rightarrow> nat option" where
  "b64_val c = index_of c b64_alphabet"

fun B64 :: "string \<Rightarrow> string" where
  "B64 [] = []"
| "B64 [a] = [b64_char (byte a div 4), b64_char (byte a mod 4 * 16)]"
| "B64 [a, b] =
     [b64_char (byte a div 4), b64_char (byte a mod 4 * 16 + byte b div 16),
      b64_char (byte b mod 16 * 4)]"
| "B64 (a # b # c # rest) =
     b64_char (byte a div 4) # b64_char (byte a mod 4 * 16 + byte b div 16)
     # b64_char (byte b mod 16 * 4 + byte c div 64) # b64_char (byte c mod 64) # B64 rest"

fun b64_quads :: "nat list \<Rightarrow> string option" where
  "b64_quads [] = Some []"
| "b64_quads [i] = None"
| "b64_quads [i, j] = Some [char_of (i * 4 + j div 16)]"
| "b64_quads [i, j, k] = Some [char_of (i * 4 + j div 16), char_of (j mod 16 * 16 + k div 4)]"
| "b64_quads (i # j # k # l # rest) =
     map_option (\<lambda>s. char_of (i * 4 + j div 16) # char_of (j mod 16 * 16 + k div 4)
                      # char_of (k mod 4 * 64 + l) # s) (b64_quads rest)"

fun b64_vals :: "string \<Rightarrow> nat list option" where
  "b64_vals [] = Some []"
| "b64_vals (c # s) =
     (case (b64_val c, b64_vals s) of (Some v, Some vs) \<Rightarrow> Some (v # vs) | _ \<Rightarrow> None)"

text \<open>The decoder of Go skips line breaks.\<close>

definition B64Decode :: "string \<Rightarrow> string option" where
  "B64Decode s =
     (case b64_vals (filter (\<lambda>c. c \<noteq> CHR 0x0A \<and> c \<noteq> CHR 0x0D) s) of
        None \<Rightarrow> None
      | Some vs \<Rightarrow> b64_quads vs)"

lemma index_of_nth: "distinct xs \<Longrightarrow> i < length xs \<Longrightarrow> index_of (xs ! i) xs = Some i"
proof (induction xs arbitrary: i)
  case (Cons x xs)
  then show ?case by (cases i) (auto simp: nth_mem)
qed simp

lemma b64_alphabet_ok:
  "length b64_alphabet = 64" "distinct b64_alphabet"
  "CHR 0x0A \<notin> set b64_alphabet" "CHR 0x0D \<notin> set b64_alphabet"
  by (simp_all add: b64_alphabet_def)

lemma b64_val_char [simp]: "i < 64 \<Longrightarrow> b64_val (b64_char i) = Some i"
  by (simp add: b64_val_def b64_char_def index_of_nth b64_alphabet_ok)

lemma b64_char_no_break [simp]: "b64_char i \<noteq> CHR 0x0A" "b64_char i \<noteq> CHR 0x0D"
  using b64_alphabet_ok nth_mem [of "i mod 64" b64_alphabet]
  by (auto simp: b64_char_def simp del: nth_mem)

lemma byte_below: "byte c < 256"
  using nat_of_char_less_256 [of c] by (simp add: byte_def)

lemma char_of_byte [simp]: "char_of (byte c) = c"
  by (simp add: byte_def)

lemma byte_splits:
  "byte a div 4 < 64" "byte a mod 4 * 16 < 64" "byte a mod 4 * 16 + byte b div 16 < 64"
  "byte b mod 16 * 4 < 64" "byte b mod 16 * 4 + byte c div 64 < 64" "byte c mod 64 < 64"
  using byte_below [of a] byte_below [of b] byte_below [of c] by linarith+

lemma byte_joins:
  "byte a div 4 * 4 + (byte a mod 4 * 16) div 16 = byte a"
  "byte a div 4 * 4 + (byte a mod 4 * 16 + byte b div 16) div 16 = byte a"
  "(byte a mod 4 * 16 + byte b div 16) mod 16 * 16 + (byte b mod 16 * 4) div 4 = byte b"
  "(byte a mod 4 * 16 + byte b div 16) mod 16 * 16 + (byte b mod 16 * 4 + byte c div 64) div 4 = byte b"
  "(byte b mod 16 * 4 + byte c div 64) mod 4 * 64 + byte c mod 64 = byte c"
proof -
  have split: "(x * m + y) div m = x" "(x * m + y) mod m = y" if "y < m" for x y m :: nat
    using that by (simp_all add: div_mult_self3)
  have hi: "byte b div 16 < 16" "byte c div 64 < 4"
    using byte_below [of b] byte_below [of c] by linarith+
  note s = split [OF hi(1)] split [OF hi(2)]
  show "byte a div 4 * 4 + (byte a mod 4 * 16) div 16 = byte a" by simp
  show "byte a div 4 * 4 + (byte a mod 4 * 16 + byte b div 16) div 16 = byte a" by (simp only: s) simp
  show "(byte a mod 4 * 16 + byte b div 16) mod 16 * 16 + (byte b mod 16 * 4) div 4 = byte b"
    by (simp only: s) simp
  show "(byte a mod 4 * 16 + byte b div 16) mod 16 * 16 + (byte b mod 16 * 4 + byte c div 64) div 4 = byte b"
    by (simp only: s) simp
  show "(byte b mod 16 * 4 + byte c div 64) mod 4 * 64 + byte c mod 64 = byte c"
    by (simp only: s) simp
qed

fun b64_indices :: "string \<Rightarrow> nat list" where
  "b64_indices [] = []"
| "b64_indices [a] = [byte a div 4, byte a mod 4 * 16]"
| "b64_indices [a, b] = [byte a div 4, byte a mod 4 * 16 + byte b div 16, byte b mod 16 * 4]"
| "b64_indices (a # b # c # rest) =
     byte a div 4 # (byte a mod 4 * 16 + byte b div 16) # (byte b mod 16 * 4 + byte c div 64)
     # byte c mod 64 # b64_indices rest"

lemma B64_indices: "B64 s = map b64_char (b64_indices s)"
  by (induction s rule: b64_indices.induct) simp_all

lemma b64_indices_bound: "\<forall>i \<in> set (b64_indices s). i < 64"
  by (induction s rule: b64_indices.induct) (simp_all add: byte_splits)

lemma b64_vals_chars: "\<forall>i \<in> set is. i < 64 \<Longrightarrow> b64_vals (map b64_char is) = Some is"
  by (induction "is") auto

lemma b64_quads_indices: "b64_quads (b64_indices s) = Some s"
  by (induction s rule: b64_indices.induct) (simp_all only: b64_indices.simps b64_quads.simps byte_joins char_of_byte option.map)

lemma B64_roundtrip [simp]: "B64Decode (B64 s) = Some s"
proof -
  have "filter (\<lambda>c. c \<noteq> CHR 0x0A \<and> c \<noteq> CHR 0x0D) (B64 s) = B64 s"
    using b64_indices_bound [of s] by (auto simp: B64_indices filter_id_conv)
  then show ?thesis
    using b64_vals_chars [OF b64_indices_bound] by (simp add: B64Decode_def b64_quads_indices B64_indices)
qed

section \<open>The sealed wire format\<close>

record AADFields =
  aad_ProtocolVersion :: string
  aad_TransportMode :: string
  aad_Type :: string
  aad_DeviceID :: string
  aad_SessionID :: string
  aad_ClientMsgID :: string
  aad_KeyScope :: string
  aad_KeyEpoch :: uint64
  aad_SenderID :: string
  aad_Sequence :: uint64
  aad_Timestamp :: int

record WireSealed =
  ws_Alg :: string
  ws_Version :: int
  ws_KeyScope :: string
  ws_Epoch :: uint64
  ws_SenderID :: string
  ws_RecipientID :: string
  ws_Sequence :: uint64
  ws_Nonce :: string
  ws_Ciphertext :: string

text \<open>AES-256-GCM (key, nonce, text, authenticated data) and the JSON encoder of \<open>AADFields\<close>.\<close>

record crypto_lib =
  gcm_seal :: "string \<Rightarrow> string \<Rightarrow> string \<Rightarrow> string \<Rightarrow> string"
  gcm_open :: "string \<Rightarrow> string \<Rightarrow> string \<Rightarrow> string \<Rightarrow> string option"
  json_aad :: "AADFields \<Rightarrow> string"

datatype write_fault = MkdirFailed | OpenFileFailed | TornWrite | CloseFailed

datatype sealed_error =
    KeyLength | NonceLength | NotAuthentic | NilPayload | BadBase64 | RandomFailed
  | ScopeMismatch | UnknownSessionKey | EpochMismatch | CatalogMismatch
  | KeysNotWritten write_fault | KeyFileNotJSON | BadCatalogKey

definition AlgAES256GCM :: string where
  "AlgAES256GCM = ''aes-256-gcm''"

definition SealedFormatVersion :: int where
  "SealedFormatVersion = 1"

definition NonceSize :: nat where
  "NonceSize = 12"

definition KeySize :: nat where
  "KeySize = 32"

definition EncodeAAD :: "crypto_lib \<Rightarrow> AADFields \<Rightarrow> string" where
  "EncodeAAD lib f = json_aad lib f"

definition Seal :: "crypto_lib \<Rightarrow> string \<Rightarrow> string \<Rightarrow> string \<Rightarrow> string \<Rightarrow> sealed_error + string" where
  "Seal lib key nonce plaintext aad =
     (if length key \<noteq> KeySize then Inl KeyLength
      else if length nonce \<noteq> NonceSize then Inl NonceLength
      else Inr (gcm_seal lib key nonce plaintext aad))"

definition Open :: "crypto_lib \<Rightarrow> string \<Rightarrow> string \<Rightarrow> string \<Rightarrow> string \<Rightarrow> sealed_error + string" where
  "Open lib key nonce ciphertext aad =
     (if length key \<noteq> KeySize then Inl KeyLength
      else if length nonce \<noteq> NonceSize then Inl NonceLength
      else (case gcm_open lib key nonce ciphertext aad of
              None \<Rightarrow> Inl NotAuthentic
            | Some plaintext \<Rightarrow> Inr plaintext))"

text \<open>The random source either fails or yields as many bytes as asked for.\<close>

type_synonym random = "(nat \<Rightarrow> char) option"

definition ReadFull :: "nat \<Rightarrow> random \<Rightarrow> sealed_error + string" where
  "ReadFull n rnd = (case rnd of None \<Rightarrow> Inl RandomFailed | Some f \<Rightarrow> Inr (map f [0..<n]))"

definition RandomNonce :: "random \<Rightarrow> sealed_error + string" where
  "RandomNonce = ReadFull NonceSize"

definition RandomKey :: "random \<Rightarrow> sealed_error + string" where
  "RandomKey = ReadFull KeySize"

definition key_package_aad :: string where
  "key_package_aad = ''nekonest-v1-key-package''"

definition WrapKey :: "crypto_lib \<Rightarrow> random \<Rightarrow> string \<Rightarrow> string \<Rightarrow> sealed_error + (string \<times> string)" where
  "WrapKey lib rnd wrappingKey contentKey =
     and_then (RandomNonce rnd) (\<lambda>n.
     and_then (Seal lib wrappingKey n contentKey key_package_aad) (\<lambda>ct.
     Inr (B64 n, B64 ct)))"

definition decoded :: "string \<Rightarrow> sealed_error + string" where
  "decoded s = (case B64Decode s of None \<Rightarrow> Inl BadBase64 | Some b \<Rightarrow> Inr b)"

definition UnwrapKey :: "crypto_lib \<Rightarrow> string \<Rightarrow> string \<Rightarrow> string \<Rightarrow> sealed_error + string" where
  "UnwrapKey lib wrappingKey nonceB64 ctB64 =
     and_then (decoded nonceB64) (\<lambda>n.
     and_then (decoded ctB64) (\<lambda>ct.
     Open lib wrappingKey n ct key_package_aad))"

definition SealWire ::
  "crypto_lib \<Rightarrow> random \<Rightarrow> string \<Rightarrow> uint64 \<Rightarrow> string \<Rightarrow> string \<Rightarrow> string \<Rightarrow> uint64 \<Rightarrow> AADFields \<Rightarrow> string
   \<Rightarrow> sealed_error + WireSealed" where
  "SealWire lib rnd key epoch keyScope senderID recipientID sequence aad plaintext =
     and_then (RandomNonce rnd) (\<lambda>nonce.
     and_then (Seal lib key nonce plaintext (EncodeAAD lib aad)) (\<lambda>ct.
     Inr \<lparr>ws_Alg = AlgAES256GCM, ws_Version = SealedFormatVersion, ws_KeyScope = keyScope,
          ws_Epoch = epoch, ws_SenderID = senderID, ws_RecipientID = recipientID,
          ws_Sequence = sequence, ws_Nonce = B64 nonce, ws_Ciphertext = B64 ct\<rparr>))"

definition OpenWire :: "crypto_lib \<Rightarrow> string \<Rightarrow> WireSealed option \<Rightarrow> AADFields \<Rightarrow> sealed_error + string" where
  "OpenWire lib key wire aad =
     (case wire of
        None \<Rightarrow> Inl NilPayload
      | Some w \<Rightarrow>
          and_then (decoded (ws_Nonce w)) (\<lambda>nonce.
          and_then (decoded (ws_Ciphertext w)) (\<lambda>ct.
          Open lib key nonce ct (EncodeAAD lib aad))))"

section \<open>The key manager\<close>

record sessionKey =
  sk_Key :: string
  sk_Epoch :: uint64

record diskSK =
  ds_KeyB64 :: string
  ds_Epoch :: uint64

text \<open>The file as a JSON document: objects are lists of members in the order they are written.\<close>

record diskState =
  dk_CatalogKeyB64 :: string
  dk_CatalogEpoch :: uint64
  dk_Sessions :: "(string \<times> diskSK) list"
  dk_SeqCatalog :: uint64
  dk_SeqSession :: "(string \<times> uint64) list"

record Manager =
  mg_path :: bool
  mg_catalogKey :: string
  mg_catalogEpoch :: uint64
  mg_sessions :: "(string, sessionKey) gomap"
  mg_seqCatalog :: uint64
  mg_seqSession :: "(string, uint64) gomap"
  mg_file :: "diskState file_source"

text \<open>Encoding a map sorts its keys and replaces bytes that are not UTF-8; decoding an object into
  a map keeps the last member of a name.\<close>

definition json_members :: "('v \<Rightarrow> 'w) \<Rightarrow> (string, 'v) gomap \<Rightarrow> (string \<times> 'w) list" where
  "json_members f m = map (\<lambda>(k, v). (json_coerce k, f v)) (sort_key fst m)"

fun read_members :: "('w \<Rightarrow> 'v option) \<Rightarrow> (string \<times> 'w) list \<Rightarrow> (string, 'v) gomap \<Rightarrow> (string, 'v) gomap" where
  "read_members f [] m = m"
| "read_members f ((k, w) # rest) m =
     read_members f rest (case f w of None \<Rightarrow> AList.delete k m | Some v \<Rightarrow> AList.update k v m)"

definition disk_sk :: "sessionKey \<Rightarrow> diskSK" where
  "disk_sk sk = \<lparr>ds_KeyB64 = B64 (sk_Key sk), ds_Epoch = sk_Epoch sk\<rparr>"

definition read_sk :: "diskSK \<Rightarrow> sessionKey option" where
  "read_sk d =
     (case B64Decode (ds_KeyB64 d) of
        None \<Rightarrow> None
      | Some k \<Rightarrow> if length k \<noteq> KeySize then None else Some \<lparr>sk_Key = k, sk_Epoch = ds_Epoch d\<rparr>)"

definition encodeManager :: "Manager \<Rightarrow> diskState" where
  "encodeManager m =
     \<lparr>dk_CatalogKeyB64 = B64 (mg_catalogKey m), dk_CatalogEpoch = mg_catalogEpoch m,
      dk_Sessions = json_members disk_sk (mg_sessions m), dk_SeqCatalog = mg_seqCatalog m,
      dk_SeqSession = json_members id (mg_seqSession m)\<rparr>"

definition persistKeys :: "write_fault option \<Rightarrow> Manager \<Rightarrow> Manager \<times> sealed_error option" where
  "persistKeys fault m =
     (if \<not> mg_path m then (m, None)
      else (case fault of
              None \<Rightarrow> (m\<lparr>mg_file := Decoded (encodeManager m)\<rparr>, None)
            | Some f \<Rightarrow>
                (case f of
                   TornWrite \<Rightarrow> m\<lparr>mg_file := NotJSON\<rparr>
                 | CloseFailed \<Rightarrow> m\<lparr>mg_file := Decoded (encodeManager m)\<rparr>
                 | _ \<Rightarrow> m, Some (KeysNotWritten f))))"

text \<open>\<open>LoadOrCreate\<close>: a file that cannot be read counts as missing.\<close>

definition LoadOrCreate ::
  "bool \<Rightarrow> random \<Rightarrow> write_fault option \<Rightarrow> diskState file_source
   \<Rightarrow> (sealed_error + Manager) \<times> diskState file_source" where
  "LoadOrCreate path rnd fault src =
     (let m = \<lparr>mg_path = path, mg_catalogKey = [], mg_catalogEpoch = 0, mg_sessions = [],
               mg_seqCatalog = 0, mg_seqSession = [], mg_file = src\<rparr>;
          create = (case RandomKey rnd of
                      Inl e \<Rightarrow> (Inl e, src)
                    | Inr key \<Rightarrow>
                        (case persistKeys fault (m\<lparr>mg_catalogKey := key, mg_catalogEpoch := 1\<rparr>) of
                           (m, Some e) \<Rightarrow> (Inl e, mg_file m)
                         | (m, None) \<Rightarrow> (Inr m, mg_file m)))
      in (case src of
            NoFile \<Rightarrow> create
          | Unreadable \<Rightarrow> create
          | NotJSON \<Rightarrow> (Inl KeyFileNotJSON, src)
          | Decoded st \<Rightarrow>
              (case B64Decode (dk_CatalogKeyB64 st) of
                 None \<Rightarrow> (Inl BadCatalogKey, src)
               | Some key \<Rightarrow>
                   if length key \<noteq> KeySize then (Inl BadCatalogKey, src)
                   else (Inr (m\<lparr>mg_catalogKey := key, mg_catalogEpoch := dk_CatalogEpoch st,
                               mg_seqCatalog := dk_SeqCatalog st,
                               mg_seqSession := read_members Some (dk_SeqSession st) [],
                               mg_sessions := read_members read_sk (dk_Sessions st) []\<rparr>), src))))"

definition CatalogEpoch :: "Manager \<Rightarrow> uint64" where
  "CatalogEpoch m = mg_catalogEpoch m"

definition WrapCatalogForPhone ::
  "crypto_lib \<Rightarrow> random \<Rightarrow> string \<Rightarrow> Manager \<Rightarrow> sealed_error + (uint64 \<times> string \<times> string)" where
  "WrapCatalogForPhone lib rnd wrappingKey m =
     and_then (WrapKey lib rnd wrappingKey (mg_catalogKey m)) (\<lambda>(n, ct). Inr (mg_catalogEpoch m, n, ct))"

definition SessionKey ::
  "random \<Rightarrow> write_fault option \<Rightarrow> string \<Rightarrow> Manager \<Rightarrow> Manager \<times> (sealed_error + (string \<times> uint64))" where
  "SessionKey rnd fault sessionID m =
     (case map_of (mg_sessions m) sessionID of
        Some sk \<Rightarrow> (m, Inr (sk_Key sk, sk_Epoch sk))
      | None \<Rightarrow>
          (case RandomKey rnd of
             Inl e \<Rightarrow> (m, Inl e)
           | Inr k \<Rightarrow>
               (case persistKeys fault
                       (m\<lparr>mg_sessions := AList.update sessionID \<lparr>sk_Key = k, sk_Epoch = 1\<rparr> (mg_sessions m)\<rparr>) of
                  (m, Some e) \<Rightarrow> (m, Inl e)
                | (m, None) \<Rightarrow> (m, Inr (k, 1)))))"

definition WrapSessionForPhone ::
  "crypto_lib \<Rightarrow> random \<Rightarrow> random \<Rightarrow> write_fault option \<Rightarrow> string \<Rightarrow> string \<Rightarrow> Manager
   \<Rightarrow> Manager \<times> (sealed_error + (uint64 \<times> string \<times> string))" where
  "WrapSessionForPhone lib rndk rndn fault sessionID wrappingKey m =
     (case SessionKey rndk fault sessionID m of
        (m, Inl e) \<Rightarrow> (m, Inl e)
      | (m, Inr (key, epoch)) \<Rightarrow>
          (m, and_then (WrapKey lib rndn wrappingKey key) (\<lambda>(n, ct). Inr (epoch, n, ct))))"

definition session_seq :: "Manager \<Rightarrow> string \<Rightarrow> uint64" where
  "session_seq m sessionID = (case map_of (mg_seqSession m) sessionID of None \<Rightarrow> 0 | Some n \<Rightarrow> n)"

definition bump_catalog :: "Manager \<Rightarrow> Manager" where
  "bump_catalog m = m\<lparr>mg_seqCatalog := mg_seqCatalog m + 1\<rparr>"

definition bump_session :: "string \<Rightarrow> Manager \<Rightarrow> Manager" where
  "bump_session sessionID m =
     m\<lparr>mg_seqSession := AList.update sessionID (session_seq m sessionID + 1) (mg_seqSession m)\<rparr>"

definition NextCatalogSeq ::
  "write_fault option \<Rightarrow> Manager \<Rightarrow> Manager \<times> uint64 \<times> sealed_error option" where
  "NextCatalogSeq fault m =
     (let m = bump_catalog m; sequence = mg_seqCatalog m
      in case persistKeys fault m of (m, e) \<Rightarrow> (m, sequence, e))"

definition NextSessionSeq ::
  "write_fault option \<Rightarrow> string \<Rightarrow> Manager \<Rightarrow> Manager \<times> uint64 \<times> sealed_error option" where
  "NextSessionSeq fault sessionID m =
     (let m = bump_session sessionID m; sequence = session_seq m sessionID
      in case persistKeys fault m of (m, e) \<Rightarrow> (m, sequence, e))"

text \<open>Sealing goes on when the counter could not be written.\<close>

definition SealCatalog ::
  "crypto_lib \<Rightarrow> random \<Rightarrow> write_fault option \<Rightarrow> string \<Rightarrow> string \<Rightarrow> AADFields \<Rightarrow> string \<Rightarrow> Manager
   \<Rightarrow> Manager \<times> (sealed_error + WireSealed)" where
  "SealCatalog lib rnd fault senderID recipientID aad plaintext m =
     (let key = mg_catalogKey m; epoch = mg_catalogEpoch m; m = bump_catalog m;
          sequence = mg_seqCatalog m; m = fst (persistKeys fault m);
          aad = aad\<lparr>aad_KeyScope := ''device_catalog'', aad_KeyEpoch := epoch,
                    aad_SenderID := senderID, aad_Sequence := sequence\<rparr>
      in (m, SealWire lib rnd key epoch ''device_catalog'' senderID recipientID sequence aad plaintext))"

definition SealSession ::
  "crypto_lib \<Rightarrow> random \<Rightarrow> random \<Rightarrow> write_fault option \<Rightarrow> write_fault option \<Rightarrow> string \<Rightarrow> string \<Rightarrow> string
   \<Rightarrow> AADFields \<Rightarrow> string \<Rightarrow> Manager \<Rightarrow> Manager \<times> (sealed_error + WireSealed)" where
  "SealSession lib rndk rndn faultk fault sessionID senderID recipientID aad plaintext m =
     (case SessionKey rndk faultk sessionID m of
        (m, Inl e) \<Rightarrow> (m, Inl e)
      | (m, Inr (key, epoch)) \<Rightarrow>
          let m = bump_session sessionID m; sequence = session_seq m sessionID;
              m = fst (persistKeys fault m);
              aad = aad\<lparr>aad_KeyScope := ''session'', aad_KeyEpoch := epoch,
                        aad_SenderID := senderID, aad_Sequence := sequence,
                        aad_SessionID := sessionID\<rparr>
          in (m, SealWire lib rndn key epoch ''session'' senderID recipientID sequence aad plaintext))"

definition OpenSession ::
  "crypto_lib \<Rightarrow> string \<Rightarrow> WireSealed option \<Rightarrow> AADFields \<Rightarrow> Manager \<Rightarrow> sealed_error + string" where
  "OpenSession lib sessionID wire aad m =
     (if (case wire of None \<Rightarrow> False | Some w \<Rightarrow> ws_KeyScope w \<noteq> ''session'') then Inl ScopeMismatch
      else (case map_of (mg_sessions m) sessionID of
              None \<Rightarrow> Inl UnknownSessionKey
            | Some sk \<Rightarrow>
                if (case wire of None \<Rightarrow> False | Some w \<Rightarrow> ws_Epoch w \<noteq> sk_Epoch sk) then Inl EpochMismatch
                else OpenWire lib (sk_Key sk) wire aad))"

definition OpenCatalog ::
  "crypto_lib \<Rightarrow> WireSealed option \<Rightarrow> AADFields \<Rightarrow> Manager \<Rightarrow> sealed_error + string" where
  "OpenCatalog lib wire aad m =
     (case wire of
        None \<Rightarrow> Inl CatalogMismatch
      | Some w \<Rightarrow>
          if ws_KeyScope w \<noteq> ''device_catalog'' \<or> ws_Epoch w \<noteq> mg_catalogEpoch m then Inl CatalogMismatch
          else OpenWire lib (mg_catalogKey m) wire aad)"

section \<open>Sealed messages open\<close>

definition gcm_correct :: "crypto_lib \<Rightarrow> bool" where
  "gcm_correct lib \<longleftrightarrow>
     (\<forall>key nonce plaintext aad. length key = 32 \<longrightarrow> length nonce = 12 \<longrightarrow>
        gcm_open lib key nonce (gcm_seal lib key nonce plaintext aad) aad = Some plaintext)"

lemma decoded_B64 [simp]: "decoded (B64 s) = Inr s"
  by (simp add: decoded_def)

lemma ReadFull_length: "ReadFull n rnd = Inr s \<Longrightarrow> length s = n"
  by (auto simp: ReadFull_def split: option.splits)

lemma SealWire_Inr:
  assumes "SealWire lib rnd key epoch scope sender recipient sequence aad plaintext = Inr w"
    and "gcm_correct lib"
  shows "OpenWire lib key (Some w) aad = Inr plaintext"
    and "ws_KeyScope w = scope" "ws_Epoch w = epoch" "ws_SenderID w = sender" "ws_Sequence w = sequence"
proof -
  obtain nonce where n: "RandomNonce rnd = Inr nonce" and key: "length key = KeySize"
    and w: "w = \<lparr>ws_Alg = AlgAES256GCM, ws_Version = SealedFormatVersion, ws_KeyScope = scope,
          ws_Epoch = epoch, ws_SenderID = sender, ws_RecipientID = recipient,
          ws_Sequence = sequence, ws_Nonce = B64 nonce,
          ws_Ciphertext = B64 (gcm_seal lib key nonce plaintext (EncodeAAD lib aad))\<rparr>"
    using assms(1) by (auto simp: SealWire_def Seal_def and_then_Inr split: if_splits)
  have "length nonce = NonceSize" using n by (auto simp: RandomNonce_def dest: ReadFull_length)
  then show "OpenWire lib key (Some w) aad = Inr plaintext"
    using key assms(2) by (simp add: w OpenWire_def Open_def gcm_correct_def KeySize_def NonceSize_def)
qed (use assms(1) in \<open>auto simp: SealWire_def and_then_Inr\<close>)

lemma persistKeys_mem [simp]:
  "mg_sessions (fst (persistKeys fault m)) = mg_sessions m"
  "mg_seqSession (fst (persistKeys fault m)) = mg_seqSession m"
  "mg_seqCatalog (fst (persistKeys fault m)) = mg_seqCatalog m"
  "mg_catalogKey (fst (persistKeys fault m)) = mg_catalogKey m"
  "mg_catalogEpoch (fst (persistKeys fault m)) = mg_catalogEpoch m"
  "mg_path (fst (persistKeys fault m)) = mg_path m"
  by (auto simp: persistKeys_def split: option.splits write_fault.splits)

lemma bump_fields [simp]:
  "mg_sessions (bump_session sid m) = mg_sessions m" "mg_sessions (bump_catalog m) = mg_sessions m"
  "mg_catalogKey (bump_session sid m) = mg_catalogKey m" "mg_catalogKey (bump_catalog m) = mg_catalogKey m"
  "mg_path (bump_session sid m) = mg_path m" "mg_path (bump_catalog m) = mg_path m"
  by (simp_all add: bump_session_def bump_catalog_def)

text \<open>What a call of \<open>SessionKey\<close> does to the table of keys.\<close>

lemma SessionKey_cases:
  obtains (kept) r where "SessionKey rnd fault sid m = (m, r)"
      "\<forall>k e. r = Inr (k, e) \<longrightarrow> map_of (mg_sessions m) sid = Some \<lparr>sk_Key = k, sk_Epoch = e\<rparr>"
  | (made) k r where "map_of (mg_sessions m) sid = None" "RandomKey rnd = Inr k"
      "SessionKey rnd fault sid m
       = (fst (persistKeys fault
                (m\<lparr>mg_sessions := AList.update sid \<lparr>sk_Key = k, sk_Epoch = 1\<rparr> (mg_sessions m)\<rparr>)), r)"
      "\<forall>k' e. r = Inr (k', e) \<longrightarrow> k' = k \<and> e = 1"
proof (cases "map_of (mg_sessions m) sid")
  case None
  show ?thesis
  proof (cases "RandomKey rnd")
    case (Inl e)
    then show ?thesis using None kept [of "Inl e"] by (simp add: SessionKey_def)
  next
    case (Inr k)
    obtain m' err where "persistKeys fault
        (m\<lparr>mg_sessions := AList.update sid \<lparr>sk_Key = k, sk_Epoch = 1\<rparr> (mg_sessions m)\<rparr>) = (m', err)"
      by force
    then show ?thesis
      using None Inr made [of k "case err of None \<Rightarrow> Inr (k, 1) | Some e \<Rightarrow> Inl e"]
      by (simp add: SessionKey_def split: option.splits)
  qed
next
  case (Some sk)
  then show ?thesis using kept [of "Inr (sk_Key sk, sk_Epoch sk)"] by (simp add: SessionKey_def)
qed

lemma SessionKey_sessions:
  "map_of (mg_sessions m) s = Some sk \<Longrightarrow> map_of (mg_sessions (fst (SessionKey rnd fault sid m))) s = Some sk"
  by (cases rule: SessionKey_cases [of rnd fault sid m]) auto

lemma SessionKey_stored:
  "SessionKey rnd fault sid m = (m', Inr (k, e)) \<Longrightarrow>
   map_of (mg_sessions m') sid = Some \<lparr>sk_Key = k, sk_Epoch = e\<rparr>"
  by (cases rule: SessionKey_cases [of rnd fault sid m]) auto

lemma seal_session_mem:
  "mg_sessions (fst (SealSession lib rk rn fk f sid sender recipient aad pt m))
   = mg_sessions (fst (SessionKey rk fk sid m))"
  by (auto simp: SealSession_def Let_def split: prod.splits sum.splits)

lemma wrap_session_mem:
  "fst (WrapSessionForPhone lib rk rn f sid wk m) = fst (SessionKey rk f sid m)"
  by (auto simp: WrapSessionForPhone_def split: prod.splits sum.splits)

inductive km_step :: "Manager \<Rightarrow> Manager \<Rightarrow> bool" where
  session_key: "km_step m (fst (SessionKey rnd fault sid m))"
| wrap_session: "km_step m (fst (WrapSessionForPhone lib rk rn fault sid wk m))"
| next_catalog: "km_step m (fst (NextCatalogSeq fault m))"
| next_session: "km_step m (fst (NextSessionSeq fault sid m))"
| seal_catalog: "km_step m (fst (SealCatalog lib rnd fault sender recipient aad pt m))"
| seal_session: "km_step m (fst (SealSession lib rk rn fk fault sid sender recipient aad pt m))"

lemma km_step_sessions:
  assumes "map_of (mg_sessions m) s = Some sk" and "km_step m m'"
  shows "map_of (mg_sessions m') s = Some sk"
  using assms(2,1)
  by cases (auto simp: SessionKey_sessions wrap_session_mem seal_session_mem NextCatalogSeq_def
      NextSessionSeq_def SealCatalog_def Let_def split_def)

interpretation km_keys: step_invariant km_step "\<lambda>m. map_of (mg_sessions m) s = Some sk"
  by unfold_locales (rule km_step_sessions)

text \<open>C30. Sealed session messages open.  What \<open>SealSession\<close> produced, with or without a successful
  write, is opened by \<open>OpenSession\<close> of the same process to the plaintext after any further calls of
  the manager, when the reader takes scope, epoch, sender and sequence from the frame.\<close>

theorem sealed_session_opens:
  assumes "gcm_correct lib"
    and "SealSession lib rk rn fk f sid sender recipient aad pt m = (m', Inr w)"
    and "km_step\<^sup>*\<^sup>* m' m''"
  shows "OpenSession lib sid (Some w)
           (aad\<lparr>aad_KeyScope := ws_KeyScope w, aad_KeyEpoch := ws_Epoch w, aad_SenderID := ws_SenderID w,
                aad_Sequence := ws_Sequence w, aad_SessionID := sid\<rparr>) m'' = Inr pt"
proof -
  obtain m1 key epoch where k: "SessionKey rk fk sid m = (m1, Inr (key, epoch))"
    and m': "mg_sessions m' = mg_sessions m1"
    and w: "SealWire lib rn key epoch ''session'' sender recipient (session_seq (bump_session sid m1) sid)
      (aad\<lparr>aad_KeyScope := ''session'', aad_KeyEpoch := epoch, aad_SenderID := sender,
           aad_Sequence := session_seq (bump_session sid m1) sid, aad_SessionID := sid\<rparr>) pt = Inr w"
    using assms(2) by (auto simp: SealSession_def Let_def split: prod.splits sum.splits)
  have "map_of (mg_sessions m') sid = Some \<lparr>sk_Key = key, sk_Epoch = epoch\<rparr>"
    using SessionKey_stored [OF k] m' by simp
  then have "map_of (mg_sessions m'') sid = Some \<lparr>sk_Key = key, sk_Epoch = epoch\<rparr>"
    by (rule km_keys.steps_keep [OF assms(3)])
  then show ?thesis using SealWire_Inr [OF w assms(1)] by (simp add: OpenSession_def)
qed

section \<open>Sequence numbers\<close>

text \<open>
  The manager over restarts: calls with their faults, and \<open>LoadOrCreate\<close> on what the file holds.
  \<open>key_run\<close> yields the scope (None for the catalog) and the sequence number a call hands out.
\<close>

datatype key_event =
    KSealCatalog random "write_fault option" string string AADFields string
  | KSealSession random random "write_fault option" "write_fault option" string string string AADFields string
  | KNextCatalog "write_fault option"
  | KNextSession "write_fault option" string
  | KSessionKey random "write_fault option" string
  | KRestart random "write_fault option"

datatype key_proc = KUp Manager | KDown "diskState file_source"

fun key_source :: "key_proc \<Rightarrow> diskState file_source" where
  "key_source (KUp m) = mg_file m"
| "key_source (KDown src) = src"

definition sealed_seq :: "'s \<Rightarrow> sealed_error + WireSealed \<Rightarrow> ('s \<times> uint64) option" where
  "sealed_seq scope r = (case r of Inl e \<Rightarrow> None | Inr w \<Rightarrow> Some (scope, ws_Sequence w))"

fun key_run :: "crypto_lib \<Rightarrow> key_event \<Rightarrow> key_proc \<Rightarrow> key_proc \<times> (string option \<times> uint64) option" where
  "key_run lib (KRestart rnd fault) p =
     (case LoadOrCreate True rnd fault (key_source p) of
        (Inl e, src) \<Rightarrow> (KDown src, None)
      | (Inr m, src) \<Rightarrow> (KUp m, None))"
| "key_run lib ev (KDown src) = (KDown src, None)"
| "key_run lib (KSealCatalog rnd fault sender recipient aad pt) (KUp m) =
     (case SealCatalog lib rnd fault sender recipient aad pt m of (m, r) \<Rightarrow> (KUp m, sealed_seq None r))"
| "key_run lib (KSealSession rk rn fk fault sid sender recipient aad pt) (KUp m) =
     (case SealSession lib rk rn fk fault sid sender recipient aad pt m of
        (m, r) \<Rightarrow> (KUp m, sealed_seq (Some sid) r))"
| "key_run lib (KNextCatalog fault) (KUp m) =
     (case NextCatalogSeq fault m of (m, sequence, e) \<Rightarrow> (KUp m, Some (None, sequence)))"
| "key_run lib (KNextSession fault sid) (KUp m) =
     (case NextSessionSeq fault sid m of (m, sequence, e) \<Rightarrow> (KUp m, Some (Some sid, sequence)))"
| "key_run lib (KSessionKey rnd fault sid) (KUp m) = (KUp (fst (SessionKey rnd fault sid m)), None)"

fun handed_out :: "crypto_lib \<Rightarrow> key_event list \<Rightarrow> key_proc \<Rightarrow> (string option \<times> uint64) list" where
  "handed_out lib [] p = []"
| "handed_out lib (ev # evs) p =
     (case key_run lib ev p of
        (p', None) \<Rightarrow> handed_out lib evs p'
      | (p', Some out) \<Rightarrow> out # handed_out lib evs p')"

text \<open>Every write succeeds, and session ids are UTF-8, as strings decoded from JSON are.\<close>

fun written :: "key_event \<Rightarrow> bool" where
  "written (KSealCatalog rnd fault sender recipient aad pt) \<longleftrightarrow> fault = None"
| "written (KSealSession rk rn fk fault sid sender recipient aad pt) \<longleftrightarrow>
     fk = None \<and> fault = None \<and> ValidString sid"
| "written (KNextCatalog fault) \<longleftrightarrow> fault = None"
| "written (KNextSession fault sid) \<longleftrightarrow> fault = None \<and> ValidString sid"
| "written (KSessionKey rnd fault sid) \<longleftrightarrow> fault = None"
| "written (KRestart rnd fault) \<longleftrightarrow> fault = None"

fun utf8_file :: "diskState file_source \<Rightarrow> bool" where
  "utf8_file (Decoded st) \<longleftrightarrow> list_all ValidString (map fst (dk_SeqSession st))"
| "utf8_file _ \<longleftrightarrow> True"

fun counter :: "string option \<Rightarrow> Manager \<Rightarrow> uint64" where
  "counter None m = mg_seqCatalog m"
| "counter (Some sid) m = session_seq m sid"

text \<open>The file holds the counters of the memory.\<close>

definition keys_utf8 :: "(string, uint64) gomap \<Rightarrow> bool" where
  "keys_utf8 m \<longleftrightarrow> gomap m \<and> list_all ValidString (map fst m)"

definition counters_saved :: "Manager \<Rightarrow> bool" where
  "counters_saved m \<longleftrightarrow>
     mg_path m \<and> length (mg_catalogKey m) = KeySize \<and> keys_utf8 (mg_seqSession m) \<and>
     (\<exists>st. mg_file m = Decoded st \<and> B64Decode (dk_CatalogKeyB64 st) = Some (mg_catalogKey m) \<and>
           dk_SeqCatalog st = mg_seqCatalog m \<and> list_all ValidString (map fst (dk_SeqSession st)) \<and>
           map_of (read_members Some (dk_SeqSession st) []) = map_of (mg_seqSession m))"

lemma map_of_read_members:
  "map_of (read_members Some xs m) = map_of m ++ map_of (rev xs)"
  by (induction xs arbitrary: m rule: list.induct) (auto simp: update_conv' map_add_def split: option.splits)

lemma keys_utf8_update:
  "keys_utf8 m \<Longrightarrow> ValidString k \<Longrightarrow> keys_utf8 (AList.update k v m)"
  by (simp add: keys_utf8_def gomap_update AList.update_keys)

lemma keys_utf8_read:
  "keys_utf8 m \<Longrightarrow> list_all ValidString (map fst xs) \<Longrightarrow> keys_utf8 (read_members Some xs m)"
  by (induction xs arbitrary: m) (auto simp: keys_utf8_update)

lemma read_json_members:
  assumes "keys_utf8 m"
  shows "map_of (read_members Some (json_members id m) []) = map_of m"
    and "list_all ValidString (map fst (json_members id m))"
proof -
  have eq: "json_members id m = sort_key fst m"
    unfolding json_members_def by (rule map_idI) (use assms in \<open>auto simp: keys_utf8_def list_all_iff json_coerce_valid\<close>)
  have "map_of (rev (sort_key fst m)) = map_of m"
    using assms by (intro map_of_inject_set [THEN iffD2])
      (auto simp: keys_utf8_def gomap_def rev_map [symmetric] distinct_map)
  then show "map_of (read_members Some (json_members id m) []) = map_of m"
    by (simp add: eq map_of_read_members)
  show "list_all ValidString (map fst (json_members id m))"
    using assms by (auto simp: eq keys_utf8_def list_all_iff)
qed

lemma saved_after_write:
  "mg_path m \<Longrightarrow> length (mg_catalogKey m) = KeySize \<Longrightarrow> keys_utf8 (mg_seqSession m) \<Longrightarrow>
   counters_saved (fst (persistKeys None m))"
  using read_json_members [of "mg_seqSession m"]
  by (auto simp: counters_saved_def persistKeys_def encodeManager_def)

lemma bump_utf8:
  "keys_utf8 (mg_seqSession m) \<Longrightarrow> ValidString sid \<Longrightarrow> keys_utf8 (mg_seqSession (bump_session sid m))"
  by (simp add: bump_session_def keys_utf8_update)

lemma bump_counter:
  "counter sc (bump_session sid m) = counter sc m + (if sc = Some sid then 1 else 0)"
  "counter sc (bump_catalog m) = counter sc m + (if sc = None then 1 else 0)"
  by (cases sc; simp add: bump_session_def bump_catalog_def session_seq_def)+

lemma bump_values [simp]:
  "mg_seqSession (bump_catalog m) = mg_seqSession m"
  "mg_seqCatalog (bump_catalog m) = mg_seqCatalog m + 1"
  "session_seq (bump_session sid m) sid = session_seq m sid + 1"
  by (simp_all add: bump_catalog_def bump_session_def session_seq_def)

lemma counter_persist [simp]: "counter sc (fst (persistKeys fault m)) = counter sc m"
  by (cases sc) (simp_all add: session_seq_def)

lemma SessionKey_saved:
  assumes "counters_saved m"
  shows "counters_saved (fst (SessionKey rnd None sid m))"
    and "counter sc (fst (SessionKey rnd None sid m)) = counter sc m"
proof -
  have "counters_saved (fst (SessionKey rnd None sid m)) \<and> counter sc (fst (SessionKey rnd None sid m)) = counter sc m"
  proof (cases rule: SessionKey_cases [of rnd None sid m])
    case (made k r)
    let ?m = "m\<lparr>mg_sessions := AList.update sid \<lparr>sk_Key = k, sk_Epoch = 1\<rparr> (mg_sessions m)\<rparr>"
    have "counter sc ?m = counter sc m" by (cases sc) (simp_all add: session_seq_def)
    then show ?thesis
      using made(3) assms saved_after_write [of ?m] by (simp add: counters_saved_def)
  qed (use assms in simp)
  then show "counters_saved (fst (SessionKey rnd None sid m))"
    and "counter sc (fst (SessionKey rnd None sid m)) = counter sc m" by blast+
qed

text \<open>One event: the counters move forward by at most one, and a number handed out is the new value
  of its counter.\<close>

definition forward :: "Manager \<Rightarrow> (string option \<times> uint64) option \<Rightarrow> Manager \<Rightarrow> bool" where
  "forward m out m' \<longleftrightarrow>
     counters_saved m' \<and> (\<forall>sc. counter sc m' = counter sc m \<or> counter sc m' = counter sc m + 1) \<and>
     (case out of None \<Rightarrow> True | Some (sc, n) \<Rightarrow> n = counter sc m' \<and> n = counter sc m + 1)"

lemma sealed_seq_out:
  "sealed_seq sc (SealWire lib rnd key epoch scope sender recipient n aad pt) \<noteq> Some (sc, n) \<Longrightarrow>
   sealed_seq sc (SealWire lib rnd key epoch scope sender recipient n aad pt) = None"
  by (auto simp: sealed_seq_def SealWire_def and_then_def split: sum.splits)

lemma forward_catalog:
  assumes "counters_saved m" and "out = None \<or> out = Some (None, mg_seqCatalog (bump_catalog m))"
  shows "forward m out (fst (persistKeys None (bump_catalog m)))"
  using assms saved_after_write [of "bump_catalog m"]
  by (auto simp: forward_def bump_counter counters_saved_def [of m])

lemma forward_session:
  assumes "counters_saved m1" and "\<forall>sc. counter sc m1 = counter sc m" and "ValidString sid"
    and "out = None \<or> out = Some (Some sid, session_seq (bump_session sid m1) sid)"
  shows "forward m out (fst (persistKeys None (bump_session sid m1)))"
proof -
  have "counters_saved (fst (persistKeys None (bump_session sid m1)))"
    using assms(1,3) by (intro saved_after_write) (simp_all add: counters_saved_def bump_utf8)
  moreover have "session_seq m1 sid = session_seq m sid" using assms(2) by (metis counter.simps(2))
  ultimately show ?thesis using assms(2,4) by (auto simp: forward_def bump_counter)
qed

lemma forward_same: "counters_saved m' \<Longrightarrow> \<forall>sc. counter sc m' = counter sc m \<Longrightarrow> forward m None m'"
  by (simp add: forward_def)

lemma load_saved:
  assumes "counters_saved m"
  shows "\<exists>m'. LoadOrCreate True rnd None (mg_file m) = (Inr m', mg_file m) \<and> counters_saved m'
    \<and> (\<forall>sc. counter sc m' = counter sc m)"
proof -
  obtain st where st: "mg_file m = Decoded st" "B64Decode (dk_CatalogKeyB64 st) = Some (mg_catalogKey m)"
    "dk_SeqCatalog st = mg_seqCatalog m" "list_all ValidString (map fst (dk_SeqSession st))"
    "map_of (read_members Some (dk_SeqSession st) []) = map_of (mg_seqSession m)"
    and key: "length (mg_catalogKey m) = KeySize"
    using assms by (auto simp: counters_saved_def)
  have "keys_utf8 (read_members Some (dk_SeqSession st) [])"
    by (rule keys_utf8_read) (use st(4) in \<open>simp_all add: keys_utf8_def\<close>)
  moreover have "counter sc m' = counter sc m"
    if "mg_seqCatalog m' = dk_SeqCatalog st" "mg_seqSession m' = read_members Some (dk_SeqSession st) []"
    for sc m' using that st(3,5) by (cases sc) (simp_all add: session_seq_def)
  ultimately show ?thesis
    using st key by (simp add: LoadOrCreate_def counters_saved_def Let_def)
qed

lemma key_run_forward:
  assumes "counters_saved m" and "written ev" and "key_run lib ev (KUp m) = (p', out)"
  shows "\<exists>m'. p' = KUp m' \<and> forward m out m'"
proof (cases ev)
  case (KSealCatalog rnd fault sender recipient aad pt)
  then show ?thesis
    using assms by (auto simp: SealCatalog_def Let_def sealed_seq_out intro!: forward_catalog)
next
  case (KSealSession rk rn fk fault sid sender recipient aad pt)
  obtain m1 r where k: "SessionKey rk None sid m = (m1, r)" by force
  note s = SessionKey_saved [OF assms(1), where rnd = rk and sid = sid, unfolded k fst_conv]
  show ?thesis
  proof (cases r)
    case (Inl e)
    then show ?thesis
      using KSealSession assms k s forward_same by (auto simp: SealSession_def sealed_seq_def)
  next
    case (Inr ke)
    obtain key epoch where "ke = (key, epoch)" by force
    then show ?thesis
      using KSealSession assms k Inr s
      by (auto simp: SealSession_def Let_def sealed_seq_out intro!: forward_session)
  qed
next
  case (KNextCatalog fault)
  then show ?thesis using assms forward_catalog [of m] by (auto simp: NextCatalogSeq_def Let_def split_def)
next
  case (KNextSession fault sid)
  then show ?thesis using assms forward_session [of m m sid] by (auto simp: NextSessionSeq_def Let_def split_def)
next
  case (KSessionKey rnd fault sid)
  then show ?thesis using assms SessionKey_saved [OF assms(1)] by (auto intro!: forward_same)
next
  case (KRestart rnd fault)
  then show ?thesis using assms load_saved [OF assms(1), of rnd] by (auto intro!: forward_same)
qed

text \<open>Later numbers lie ahead of the counter, by at most the number of events.\<close>

lemma handed_out_ahead:
  assumes "counters_saved m" and "list_all written evs" and "(sc, n) \<in> set (handed_out lib evs (KUp m))"
  shows "\<exists>i. 1 \<le> i \<and> i \<le> length evs \<and> n = counter sc m + of_nat i"
  using assms
proof (induction evs arbitrary: m)
  case (Cons ev evs)
  obtain p' out where run: "key_run lib ev (KUp m) = (p', out)" by force
  obtain m' where m': "p' = KUp m'" "forward m out m'"
    using key_run_forward [OF Cons.prems(1) _ run] Cons.prems(2) by auto
  show ?case
  proof (cases "(sc, n) \<in> set (handed_out lib evs (KUp m'))")
    case True
    obtain i where i: "1 \<le> i" "i \<le> length evs" "n = counter sc m' + of_nat i"
      using Cons.IH [OF _ _ True] m'(2) Cons.prems(2) by (auto simp: forward_def)
    have "counter sc m' = counter sc m \<or> counter sc m' = counter sc m + 1"
      using m'(2) by (simp add: forward_def)
    then show ?thesis
    proof
      assume "counter sc m' = counter sc m"
      then show ?thesis using i by (intro exI [of _ i]) simp
    next
      assume "counter sc m' = counter sc m + 1"
      then show ?thesis using i by (intro exI [of _ "Suc i"]) simp
    qed
  next
    case False
    then have "out = Some (sc, n)"
      using Cons.prems(3) run m'(1) by (auto split: option.splits)
    then show ?thesis using m'(2) by (intro exI [of _ 1]) (auto simp: forward_def)
  qed
qed simp

lemma handed_out_distinct_up:
  assumes "counters_saved m" and "list_all written evs" and "length evs < 2 ^ 64"
  shows "distinct (handed_out lib evs (KUp m))"
  using assms
proof (induction evs arbitrary: m)
  case (Cons ev evs)
  obtain p' out where run: "key_run lib ev (KUp m) = (p', out)" by force
  obtain m' where m': "p' = KUp m'" "forward m out m'"
    using key_run_forward [OF Cons.prems(1) _ run] Cons.prems(2) by auto
  have saved: "counters_saved m'" using m'(2) by (simp add: forward_def)
  have rest: "distinct (handed_out lib evs (KUp m'))"
    using Cons.IH [OF saved] Cons.prems(2,3) by simp
  show ?case
  proof (cases out)
    case None
    then show ?thesis using run m'(1) rest by simp
  next
    case (Some o')
    obtain sc n where o': "o' = (sc, n)" by force
    have n: "n = counter sc m'" using m'(2) Some o' by (simp add: forward_def)
    have "(sc, n) \<notin> set (handed_out lib evs (KUp m'))"
    proof
      assume "(sc, n) \<in> set (handed_out lib evs (KUp m'))"
      then obtain i where i: "1 \<le> i" "i \<le> length evs" "n = counter sc m' + of_nat i"
        using handed_out_ahead [OF saved] Cons.prems(2) by fastforce
      have "(of_nat i :: uint64) \<noteq> 0"
        using i(1,2) Cons.prems(3) nat_dvd_not_less [of i "2 ^ 64"] by (simp add: word_of_nat_eq_0_iff)
      then show False using i(3) n by simp
    qed
    then show ?thesis using run m'(1) rest Some o' by simp
  qed
qed simp

lemma LoadOrCreate_saved:
  assumes "LoadOrCreate True rnd None src = (r, src')" and "utf8_file src"
  shows "(\<exists>m. r = Inr m \<and> counters_saved m) \<or> (\<exists>e. r = Inl e \<and> src' = src)"
proof (cases src)
  case (Decoded st)
  have "keys_utf8 (read_members Some (dk_SeqSession st) [])"
    by (rule keys_utf8_read) (use assms(2) Decoded in \<open>simp_all add: keys_utf8_def\<close>)
  then show ?thesis
    using assms Decoded by (auto simp: LoadOrCreate_def Let_def counters_saved_def split: option.splits if_splits)
next
  case NotJSON
  then show ?thesis using assms by (auto simp: LoadOrCreate_def)
qed (use assms in \<open>auto simp: LoadOrCreate_def Let_def RandomKey_def persistKeys_def counters_saved_def
      encodeManager_def keys_utf8_def json_members_def dest: ReadFull_length split: sum.splits prod.splits\<close>)+


section \<open>When a write fails\<close>

lemma SealCatalog_seq:
  assumes "SealCatalog lib rnd fault sender recipient aad pt m = (m', Inr w)"
  shows "ws_Sequence w = mg_seqCatalog m + 1" and "ws_KeyScope w = ''device_catalog''"
    and "m' = fst (persistKeys fault (bump_catalog m))"
  using assms by (auto simp: SealCatalog_def Let_def SealWire_def and_then_Inr)

text \<open>Sealing ignores a failed write of the counter: after a restart from the file, the next catalog
  frame carries the number of a frame that was already sent.\<close>

theorem lost_write_repeats_sequence:
  assumes "LoadOrCreate True rnd None src = (Inr m, src')" and "utf8_file src"
    and "SealCatalog lib rn1 (Some OpenFileFailed) sender recipient aad pt m = (m1, Inr w1)"
    and "LoadOrCreate True rnd' None (mg_file m1) = (Inr m2, src2)"
    and "SealCatalog lib rn2 fault sender recipient aad' pt' m2 = (m3, Inr w2)"
  shows "ws_Sequence w2 = ws_Sequence w1 \<and> ws_KeyScope w2 = ws_KeyScope w1"
proof -
  have saved: "counters_saved m" using LoadOrCreate_saved [OF assms(1,2)] by auto
  have "mg_file m1 = mg_file m"
    using SealCatalog_seq(3) [OF assms(3)] by (simp add: persistKeys_def bump_catalog_def)
  then obtain m' where "LoadOrCreate True rnd' None (mg_file m1) = (Inr m', mg_file m)"
    "\<forall>sc. counter sc m' = counter sc m"
    using load_saved [OF saved, of rnd'] by auto
  then have "mg_seqCatalog m2 = mg_seqCatalog m"
    using assms(4) by (metis Pair_inject counter.simps(1) sum.inject(2))
  then show ?thesis using SealCatalog_seq(1,2) [OF assms(3)] SealCatalog_seq(1,2) [OF assms(5)] by simp
qed

text \<open>A key file that exists but cannot be read is overwritten with a fresh catalog key; the session
  keys it held are gone.\<close>

theorem unreadable_keys_replaced:
  "LoadOrCreate True (Some g) None Unreadable
   = (Inr \<lparr>mg_path = True, mg_catalogKey = map g [0..<32], mg_catalogEpoch = 1, mg_sessions = [],
           mg_seqCatalog = 0, mg_seqSession = [],
           mg_file = Decoded \<lparr>dk_CatalogKeyB64 = B64 (map g [0..<32]), dk_CatalogEpoch = 1,
                              dk_Sessions = [], dk_SeqCatalog = 0, dk_SeqSession = []\<rparr>\<rparr>,
      Decoded \<lparr>dk_CatalogKeyB64 = B64 (map g [0..<32]), dk_CatalogEpoch = 1,
               dk_Sessions = [], dk_SeqCatalog = 0, dk_SeqSession = []\<rparr>)"
  unfolding LoadOrCreate_def RandomKey_def ReadFull_def KeySize_def
  by (simp add: persistKeys_def encodeManager_def json_members_def del: upt_Suc upt_rec_numeral)

section \<open>Concrete runs\<close>

text \<open>A cipher that prefixes the text with its key, nonce and authenticated data shows that the
  hypothesis on AES-GCM can hold.\<close>

definition demo_lib :: crypto_lib where
  "demo_lib =
     \<lparr>gcm_seal = (\<lambda>key nonce plaintext aad. key @ nonce @ aad @ plaintext),
      gcm_open = (\<lambda>key nonce ciphertext aad.
         if prefix (key @ nonce @ aad) ciphertext then Some (drop (length (key @ nonce @ aad)) ciphertext)
         else None),
      json_aad = aad_ClientMsgID\<rparr>"

lemma gcm_correct_demo: "gcm_correct demo_lib"
  by (simp add: gcm_correct_def demo_lib_def flip: append_assoc)

definition demo_random :: random where
  "demo_random = Some (\<lambda>i. CHR ''x'')"

definition demo_aad :: AADFields where
  "demo_aad = \<lparr>aad_ProtocolVersion = ''1.0'', aad_TransportMode = ''sealed'', aad_Type = ''session_message'',
     aad_DeviceID = ''d'', aad_SessionID = [], aad_ClientMsgID = ''c'', aad_KeyScope = [], aad_KeyEpoch = 0,
     aad_SenderID = [], aad_Sequence = 0, aad_Timestamp = 7\<rparr>"

definition demo_manager :: Manager where
  "demo_manager =
     fst (persistKeys None
       \<lparr>mg_path = True, mg_catalogKey = replicate 32 (CHR ''x''), mg_catalogEpoch = 1, mg_sessions = [],
        mg_seqCatalog = 0, mg_seqSession = [], mg_file = NoFile\<rparr>)"

lemma RandomKey_demo: "RandomKey demo_random = Inr (replicate 32 (CHR ''x''))"
  by (simp add: RandomKey_def ReadFull_def demo_random_def KeySize_def map_replicate_const del: upt_Suc upt_rec_numeral)

lemma demo_manager_load:
  "LoadOrCreate True demo_random None NoFile = (Inr demo_manager, mg_file demo_manager)"
  by (simp add: LoadOrCreate_def RandomKey_demo demo_manager_def persistKeys_def Let_def)

lemma SealWire_total:
  "length key = KeySize \<Longrightarrow>
   \<exists>w. SealWire lib demo_random key epoch scope sender recipient n aad pt = Inr w"
  by (simp add: SealWire_def RandomNonce_def ReadFull_def demo_random_def Seal_def)

lemma SealCatalog_total:
  assumes "counters_saved m"
  shows "\<exists>m' w. SealCatalog lib demo_random fault sender recipient aad pt m = (m', Inr w)"
  using assms SealWire_total [of "mg_catalogKey m"] by (simp add: SealCatalog_def Let_def counters_saved_def)

theorem sealed_session_opens_witness:
  "\<exists>m' w. SealSession demo_lib demo_random demo_random None (Some TornWrite) ''s'' ''d'' ''phones''
        demo_aad ''hi'' demo_manager = (m', Inr w) \<and>
     OpenSession demo_lib ''s'' (Some w)
       (demo_aad\<lparr>aad_KeyScope := ws_KeyScope w, aad_KeyEpoch := ws_Epoch w, aad_SenderID := ws_SenderID w,
                 aad_Sequence := ws_Sequence w, aad_SessionID := ''s''\<rparr>)
       (fst (NextSessionSeq None ''s'' m')) = Inr ''hi''"
proof -
  have "map_of (mg_sessions demo_manager) ''s'' = None" by (simp add: demo_manager_def)
  then obtain m1 where "SessionKey demo_random None ''s'' demo_manager = (m1, Inr (replicate 32 (CHR ''x''), 1))"
    by (simp add: SessionKey_def RandomKey_demo persistKeys_def demo_manager_def)
  then obtain m' w where w: "SealSession demo_lib demo_random demo_random None (Some TornWrite) ''s'' ''d''
      ''phones'' demo_aad ''hi'' demo_manager = (m', Inr w)"
    using SealWire_total [of "replicate 32 (CHR ''x'')"]
    by (simp add: SealSession_def Let_def KeySize_def) metis
  from sealed_session_opens [OF gcm_correct_demo w r_into_rtranclp, OF next_session] w
  show ?thesis by blast
qed


theorem lost_write_repeats_sequence_witness:
  "\<exists>m1 w1 m2 src2 m3 w2.
     SealCatalog demo_lib demo_random (Some OpenFileFailed) ''d'' ''phones'' demo_aad ''a'' demo_manager = (m1, Inr w1)
     \<and> LoadOrCreate True None None (mg_file m1) = (Inr m2, src2)
     \<and> SealCatalog demo_lib demo_random None ''d'' ''phones'' demo_aad ''b'' m2 = (m3, Inr w2)
     \<and> ws_Sequence w2 = ws_Sequence w1"
proof -
  have saved: "counters_saved demo_manager"
    using LoadOrCreate_saved [OF demo_manager_load] by simp
  obtain m1 w1 where s1: "SealCatalog demo_lib demo_random (Some OpenFileFailed) ''d'' ''phones'' demo_aad ''a''
      demo_manager = (m1, Inr w1)" using SealCatalog_total [OF saved] by blast
  then have "mg_file m1 = mg_file demo_manager"
    by (simp add: SealCatalog_seq(3) [OF s1] persistKeys_def bump_catalog_def)
  then obtain m2 src2 where l: "LoadOrCreate True None None (mg_file m1) = (Inr m2, src2)" "counters_saved m2"
    using load_saved [OF saved, of None] by auto
  obtain m3 w2 where s2: "SealCatalog demo_lib demo_random None ''d'' ''phones'' demo_aad ''b'' m2 = (m3, Inr w2)"
    using SealCatalog_total [OF l(2)] by blast
  show ?thesis
    using lost_write_repeats_sequence [OF demo_manager_load _ s1 l(1) s2] s1 l(1) s2 by fastforce
qed

end
