(* ===== verification/Daemon_Inbound.thy ===== *)
theory Daemon_Inbound
  imports Relay_Payload Sealed_Keys Prompt_Queue
begin

text \<open>
  How the daemon reads what the relay sends it (\<open>daemon/cmd/daemon/main.go\<close>): the check of routing
  frames, the decoding of application commands in open and sealed mode, the readers of prompts,
  attachments and collaboration modes, and the choice of the adapter that owns a session.

  A frame is the JSON object as Go decodes it into a map, \<open>None\<close> being nil.  The JSON decoder and the
  decoder of \<open>sealed_payload\<close> are the parameter \<open>inbound_lib\<close>.  Adapters are values of a record with
  the answers of their interface.
\<close>

section \<open>Routing frames\<close>

datatype inbound_error =
    MessageRequired | VersionMismatch | ModeMismatch | TypeMismatch | UnexpectedType
  | BothPayloads | SealedInOpenMode | PayloadNotObject | SealedOnly | SealedKeysUnavailable
  | SealedNotObject | SealedNotDecoded | VersionRequired | CannotOpen sealed_error
  | PlaintextNotObject | ClientMsgIDMismatch | OperationIDMismatch

definition daemonInboundApplicationType :: "string \<Rightarrow> bool" where
  "daemonInboundApplicationType t \<longleftrightarrow>
     t \<in> {''send_prompt'', ''approve'', ''deny'', ''respond_user_input'', ''interrupt'', ''steer'',
          ''cancel_prompt'', ''resume_prompt_queue'', ''skip_prompt_queue_item'', ''start_thread'',
          ''fetch_history''}"

definition routing_type :: "string \<Rightarrow> bool" where
  "routing_type t \<longleftrightarrow>
     t \<in> {''refresh_sessions'', ''pair_ready'', ''prompt_status_query'', ''prompt_committed'',
          ''heartbeat'', ''key_package'', ''phone_revoked'', ''attention_event'', ''error''}"

definition safeInboundMessageTypeForLog :: "string \<Rightarrow> string" where
  "safeInboundMessageTypeForLog t =
     (if daemonInboundApplicationType t then t else if routing_type t then t else ''unknown'')"

definition validateInboundRoutingFrame :: "string \<Rightarrow> payload \<Rightarrow> inbound_error option" where
  "validateInboundRoutingFrame mode msg =
     (if msg = None then Some MessageRequired
      else if \<not> prefix ''1.'' (string_or_empty (field msg ''protocol_version'')) then Some VersionMismatch
      else if string_or_empty (field msg ''transport_mode'') \<noteq> mode then Some ModeMismatch
      else if routing_type (string_or_empty (field msg ''type'')) then None
      else Some UnexpectedType)"

section \<open>Application commands\<close>

record inbound_lib =
  in_crypto :: crypto_lib
  wire_of_json :: "(string, json) gomap \<Rightarrow> WireSealed option"
  json_of_bytes :: "string \<Rightarrow> json option"

text \<open>\<open>json.Unmarshal\<close> into a map.\<close>

definition unmarshal_map :: "inbound_lib \<Rightarrow> string \<Rightarrow> payload option" where
  "unmarshal_map lib bytes =
     (case json_of_bytes lib bytes of
        Some (JObject m) \<Rightarrow> Some (Some m)
      | Some JNull \<Rightarrow> Some None
      | _ \<Rightarrow> None)"

definition float_or_zero :: "json option \<Rightarrow> rat" where
  "float_or_zero v = (case v of Some (JNumber x) \<Rightarrow> x | _ \<Rightarrow> 0)"

definition outer_client_msg_id :: "payload \<Rightarrow> string" where
  "outer_client_msg_id msg =
     (let c = string_or_empty (field msg ''client_msg_id'')
      in if c = []
         then (case as_object (field msg ''payload'') of
                 None \<Rightarrow> []
               | Some p \<Rightarrow> string_or_empty (map_of p ''client_msg_id''))
         else c)"

definition command_aad :: "string \<Rightarrow> string \<Rightarrow> payload \<Rightarrow> string \<Rightarrow> WireSealed \<Rightarrow> AADFields" where
  "command_aad deviceID sessionID msg messageType w =
     \<lparr>aad_ProtocolVersion = string_or_empty (field msg ''protocol_version''),
      aad_TransportMode = ''sealed'', aad_Type = messageType, aad_DeviceID = deviceID,
      aad_SessionID = sessionID, aad_ClientMsgID = outer_client_msg_id msg,
      aad_KeyScope = ws_KeyScope w, aad_KeyEpoch = ws_Epoch w, aad_SenderID = ws_SenderID w,
      aad_Sequence = ws_Sequence w,
      aad_Timestamp = float_to_int64 (float_or_zero (field msg ''timestamp''))\<rparr>"

definition openSealedCommand ::
  "inbound_lib \<Rightarrow> Manager \<Rightarrow> string \<Rightarrow> string \<Rightarrow> payload \<Rightarrow> (string, json) gomap \<Rightarrow> string
   \<Rightarrow> inbound_error + payload" where
  "openSealedCommand lib keys deviceID sessionID msg sealedObj messageType =
     (case wire_of_json lib sealedObj of
        None \<Rightarrow> Inl SealedNotDecoded
      | Some w \<Rightarrow>
          if string_or_empty (field msg ''protocol_version'') = [] then Inl VersionRequired
          else (let aad = command_aad deviceID sessionID msg messageType w
                in (case (if ws_KeyScope w = ''session''
                          then OpenSession (in_crypto lib) sessionID (Some w) aad keys
                          else OpenCatalog (in_crypto lib) (Some w) aad keys) of
                      Inl e \<Rightarrow> Inl (CannotOpen e)
                    | Inr pt \<Rightarrow>
                        (case unmarshal_map lib pt of
                           None \<Rightarrow> Inl PlaintextNotObject
                         | Some out \<Rightarrow> Inr out))))"

definition openSealedPrompt ::
  "inbound_lib \<Rightarrow> Manager \<Rightarrow> string \<Rightarrow> string \<Rightarrow> payload \<Rightarrow> (string, json) gomap \<Rightarrow> inbound_error + payload" where
  "openSealedPrompt lib keys deviceID sessionID msg sealedObj =
     openSealedCommand lib keys deviceID sessionID msg sealedObj ''send_prompt''"

definition has_key :: "payload \<Rightarrow> string \<Rightarrow> bool" where
  "has_key p k \<longleftrightarrow> field p k \<noteq> None"

definition decodeInboundApplicationCommand ::
  "inbound_lib \<Rightarrow> string \<Rightarrow> Manager option \<Rightarrow> string \<Rightarrow> string \<Rightarrow> payload \<Rightarrow> string
   \<Rightarrow> inbound_error + payload" where
  "decodeInboundApplicationCommand lib mode keys deviceID sessionID msg expectedType =
     (if msg = None then Inl MessageRequired
      else if \<not> prefix ''1.'' (string_or_empty (field msg ''protocol_version'')) then Inl VersionMismatch
      else if string_or_empty (field msg ''transport_mode'') \<noteq> mode then Inl ModeMismatch
      else if string_or_empty (field msg ''type'') \<noteq> expectedType then Inl TypeMismatch
      else if has_key msg ''payload'' \<and> has_key msg ''sealed_payload'' then Inl BothPayloads
      else if mode = ''open''
      then (if has_key msg ''sealed_payload'' then Inl SealedInOpenMode
            else (case field msg ''payload'' of
                    None \<Rightarrow> Inr (Some [])
                  | Some JNull \<Rightarrow> Inr (Some [])
                  | Some (JObject p) \<Rightarrow> Inr (Some p)
                  | Some _ \<Rightarrow> Inl PayloadNotObject))
      else if \<not> has_key msg ''sealed_payload'' \<or> has_key msg ''payload'' then Inl SealedOnly
      else (case keys of
              None \<Rightarrow> Inl SealedKeysUnavailable
            | Some m \<Rightarrow>
                (case as_object (field msg ''sealed_payload'') of
                   None \<Rightarrow> Inl SealedNotObject
                 | Some sealedObj \<Rightarrow>
                     and_then (openSealedCommand lib m deviceID sessionID msg sealedObj expectedType) (\<lambda>payload.
                       let outer = string_or_empty (field msg ''client_msg_id'');
                           inner = string_or_empty (field payload ''client_msg_id'');
                           operation = string_or_empty (field payload ''operation_id'')
                       in if inner \<noteq> [] \<and> inner \<noteq> outer then Inl ClientMsgIDMismatch
                          else if expectedType = ''start_thread'' \<and> operation \<noteq> [] \<and> operation \<noteq> outer
                          then Inl OperationIDMismatch
                          else Inr payload))))"

section \<open>Prompts\<close>

definition maxPromptAttachments :: nat where
  "maxPromptAttachments = 5"

definition attach_mark :: string where
  "attach_mark =
     [CHR 0x0A, CHR 0x0A] @ ''[NekoNest attachments '' @ [CHR 0xE2, CHR 0x80, CHR 0x94]
     @ '' local files on this PC]'' @ [CHR 0x0A]"

fun text_before :: "string \<Rightarrow> string \<Rightarrow> string option" where
  "text_before mark [] = (if mark = [] then Some [] else None)"
| "text_before mark (c # s) =
     (if prefix mark (c # s) then Some [] else map_option (Cons c) (text_before mark s))"

definition stripNekoAttachSuffix :: "string \<Rightarrow> string" where
  "stripNekoAttachSuffix prompt =
     (case text_before attach_mark prompt of None \<Rightarrow> prompt | Some s \<Rightarrow> TrimSpace s)"

record attach_ref =
  ref_URL :: string
  ref_Name :: string
  ref_MIME :: string
  ref_ID :: string

definition parse_ref :: "json \<Rightarrow> attach_ref option" where
  "parse_ref item =
     (case item of
        JObject m \<Rightarrow>
          if string_or_empty (map_of m ''url'') = [] then None
          else Some \<lparr>ref_URL = string_or_empty (map_of m ''url''),
                     ref_Name = string_or_empty (map_of m ''name''),
                     ref_MIME = string_or_empty (map_of m ''mime''),
                     ref_ID = string_or_empty (map_of m ''id'')\<rparr>
      | _ \<Rightarrow> None)"

definition parseAttachmentRefs :: "json option \<Rightarrow> attach_ref list" where
  "parseAttachmentRefs raw = (case raw of Some (JArray arr) \<Rightarrow> List.map_filter parse_ref arr | _ \<Rightarrow> [])"

datatype prompt_reject =
    ModeNotString | UnsupportedMode string | PayloadEmpty | TooManyAttachments | SavedPromptEmpty
  | SavedAttachmentsInvalid | SavedSealedInvalid | SavedSealedUnopenable | SavedSealedRejected inbound_error

definition normalizeCollaborationMode :: "json option \<Rightarrow> prompt_reject + string" where
  "normalizeCollaborationMode raw =
     (case raw of
        None \<Rightarrow> Inr []
      | Some JNull \<Rightarrow> Inr []
      | Some (JString s) \<Rightarrow>
          let mode = TrimSpace s
          in if mode = [] then Inr []
             else if mode \<noteq> ''plan'' then Inl (UnsupportedMode mode)
             else Inr mode
      | Some _ \<Rightarrow> Inl ModeNotString)"

definition queuedPromptPayloadFromMap ::
  "payload \<Rightarrow> prompt_reject + (string \<times> attach_ref list \<times> string)" where
  "queuedPromptPayloadFromMap payload =
     (if payload = None then Inl PayloadEmpty
      else and_then (normalizeCollaborationMode (field payload ''collaboration_mode'')) (\<lambda>mode.
        let prompt = string_or_empty (field payload ''prompt'');
            refs = parseAttachmentRefs (field payload ''attachments'')
        in if maxPromptAttachments < length refs then Inl TooManyAttachments
           else if prompt = [] \<and> refs = [] then Inl SavedPromptEmpty
           else Inr (stripNekoAttachSuffix prompt, refs, mode)))"

fun raw_bytes :: "raw_message \<Rightarrow> string" where
  "raw_bytes NoBytes = []"
| "raw_bytes (Document s) = s"
| "raw_bytes (NotADocument s) = s"

definition queuedPromptPayload ::
  "inbound_lib \<Rightarrow> Manager option \<Rightarrow> string \<Rightarrow> string \<Rightarrow> promptQueueItem
   \<Rightarrow> prompt_reject + (string \<times> attach_ref list \<times> string)" where
  "queuedPromptPayload lib keys deviceID sessionID item =
     (if qi_SealedEnvelope item \<noteq> []
      then (case unmarshal_map lib (qi_SealedEnvelope item) of
              None \<Rightarrow> Inl SavedSealedInvalid
            | Some wire \<Rightarrow>
                (case (as_object (field wire ''sealed_payload''), keys) of
                   (Some sealedObj, Some m) \<Rightarrow>
                     (case openSealedPrompt lib m deviceID sessionID wire sealedObj of
                        Inl e \<Rightarrow> Inl (SavedSealedRejected e)
                      | Inr payload \<Rightarrow> queuedPromptPayloadFromMap payload)
                 | _ \<Rightarrow> Inl SavedSealedUnopenable))
      else (let raw = (if qi_Attachments item = NoBytes then Some None
                       else map_option Some (json_of_bytes lib (raw_bytes (qi_Attachments item))))
            in (case raw of
                  None \<Rightarrow> Inl SavedAttachmentsInvalid
                | Some v \<Rightarrow>
                    let refs = parseAttachmentRefs v
                    in if maxPromptAttachments < length refs then Inl TooManyAttachments
                       else Inr (stripNekoAttachSuffix (qi_Prompt item), refs, qi_CollaborationMode item))))"

section \<open>Adapters\<close>

text \<open>What the daemon asks of an adapter: its name, whether its store has a session, the history of
  a session; for the Codex adapter, whether its app server is healthy and a turn is active.\<close>

record history_message =
  hm_ID :: string
  hm_Role :: string
  hm_Content :: string

record adapter =
  ad_Name :: string
  ad_OwnsSession :: "string \<Rightarrow> bool"
  ad_FetchHistory :: "string \<Rightarrow> int \<Rightarrow> string + history_message list"
  ad_Codex :: bool
  ad_AppServerHealthy :: bool
  ad_HasActiveTurn :: "string \<Rightarrow> bool"

fun pick_loop :: "string \<Rightarrow> adapter list \<Rightarrow> adapter option \<Rightarrow> adapter option" where
  "pick_loop sessionID [] found = found"
| "pick_loop sessionID (a # rest) found =
     (if \<not> ad_OwnsSession a sessionID then pick_loop sessionID rest found
      else if found \<noteq> None then None
      else pick_loop sessionID rest (Some a))"

definition pickAdapterForSession :: "string \<Rightarrow> adapter list \<Rightarrow> adapter option" where
  "pickAdapterForSession sessionID adapters = pick_loop sessionID adapters None"

text \<open>The history, its source, and the first error met.\<close>

definition fetchHistoryForSession ::
  "string \<Rightarrow> int \<Rightarrow> adapter option \<Rightarrow> adapter list
   \<Rightarrow> (history_message list \<times> string) option \<times> string option" where
  "fetchHistoryForSession sessionID limit preferred adapters =
     (let ask = (\<lambda>a. ad_FetchHistory a sessionID limit);
          owner = pickAdapterForSession sessionID adapters;
          fallback = (\<lambda>firstErr.
            (case owner of
               None \<Rightarrow> (None, firstErr)
             | Some a \<Rightarrow>
                 if (case preferred of None \<Rightarrow> False | Some p \<Rightarrow> ad_Name a = ad_Name p) then (None, firstErr)
                 else (case ask a of
                         Inr h \<Rightarrow> (Some (h, ad_Name a), None)
                       | Inl e \<Rightarrow> (None, if firstErr = None then Some e else firstErr))))
      in (case preferred of
            None \<Rightarrow> fallback None
          | Some p \<Rightarrow>
              (case ask p of
                 Inr h \<Rightarrow> (Some (h, ad_Name p), None)
               | Inl e \<Rightarrow> fallback (Some e))))"

section \<open>What a decoded command is\<close>

lemma routing_not_application: "routing_type t \<Longrightarrow> \<not> daemonInboundApplicationType t"
  by (auto simp: routing_type_def daemonInboundApplicationType_def)

text \<open>The only frames the handler acts on: an application command that decodes or one of the routing
  frames.\<close>

lemma decode_sealed_Inr:
  assumes "decodeInboundApplicationCommand lib mode keys dev sid msg typ = Inr p" and "mode \<noteq> ''open''"
  obtains m obj w pt where "keys = Some m" "field msg ''sealed_payload'' = Some (JObject obj)"
    "field msg ''payload'' = None" "wire_of_json lib obj = Some w"
    "(if ws_KeyScope w = ''session''
      then OpenSession (in_crypto lib) sid (Some w) (command_aad dev sid msg typ w) m
      else OpenCatalog (in_crypto lib) (Some w) (command_aad dev sid msg typ w) m) = Inr pt"
    "unmarshal_map lib pt = Some p" "string_or_empty (field msg ''type'') = typ"
    "string_or_empty (field p ''client_msg_id'') \<in> {[], string_or_empty (field msg ''client_msg_id'')}"
proof -
  obtain m obj where keys: "keys = Some m" and obj: "as_object (field msg ''sealed_payload'') = Some obj"
    and plain: "field msg ''payload'' = None" and tp: "string_or_empty (field msg ''type'') = typ"
    and opened: "openSealedCommand lib m dev sid msg obj typ = Inr p"
    and inner: "string_or_empty (field p ''client_msg_id'') \<in> {[], string_or_empty (field msg ''client_msg_id'')}"
    using assms by (auto simp: decodeInboundApplicationCommand_def has_key_def Let_def and_then_Inr
        split: if_splits option.splits)
  obtain w pt where "wire_of_json lib obj = Some w" "unmarshal_map lib pt = Some p"
    "(if ws_KeyScope w = ''session''
      then OpenSession (in_crypto lib) sid (Some w) (command_aad dev sid msg typ w) m
      else OpenCatalog (in_crypto lib) (Some w) (command_aad dev sid msg typ w) m) = Inr pt"
    using opened by (auto simp: openSealedCommand_def Let_def split: option.splits if_splits sum.splits)
  moreover have "field msg ''sealed_payload'' = Some (JObject obj)"
    using obj by (auto simp: as_object_def split: option.splits json.splits)
  ultimately show ?thesis using that keys plain tp inner by blast
qed

text \<open>What the daemon relies on: opening with other authenticated data than was sealed fails, and
  different authenticated fields have different JSON.\<close>

definition gcm_authentic :: "crypto_lib \<Rightarrow> bool" where
  "gcm_authentic lib \<longleftrightarrow>
     (\<forall>key nonce pt aad aad' pt'. length key = 32 \<longrightarrow> length nonce = 12 \<longrightarrow>
        gcm_open lib key nonce (gcm_seal lib key nonce pt aad) aad' = Some pt' \<longrightarrow> aad' = aad)"

definition aad_utf8 :: "AADFields \<Rightarrow> bool" where
  "aad_utf8 f \<longleftrightarrow>
     list_all ValidString [aad_ProtocolVersion f, aad_TransportMode f, aad_Type f, aad_DeviceID f,
       aad_SessionID f, aad_ClientMsgID f, aad_KeyScope f, aad_SenderID f]"

definition aad_injective :: "crypto_lib \<Rightarrow> bool" where
  "aad_injective lib \<longleftrightarrow>
     (\<forall>f g. aad_utf8 f \<longrightarrow> aad_utf8 g \<longrightarrow> json_aad lib f = json_aad lib g \<longrightarrow> f = g)"

lemma open_needs_aad:
  assumes "SealWire lib rnd key epoch scope sender recipient n aad pt = Inr w"
    and "OpenWire lib key (Some w) aad' = Inr pt'"
    and "gcm_authentic lib" and "aad_injective lib" and "aad_utf8 aad" and "aad_utf8 aad'"
  shows "aad' = aad"
proof -
  obtain nonce where nonce: "RandomNonce rnd = Inr nonce"
    and w: "ws_Nonce w = B64 nonce"
      "ws_Ciphertext w = B64 (gcm_seal lib key nonce pt (json_aad lib aad))"
    and key: "length key = KeySize"
    using assms(1) by (auto simp: SealWire_def Seal_def EncodeAAD_def and_then_Inr split: if_splits)
  have len: "length nonce = 12"
    using nonce by (auto simp: RandomNonce_def NonceSize_def dest: ReadFull_length)
  have "gcm_open lib key nonce (gcm_seal lib key nonce pt (json_aad lib aad)) (json_aad lib aad') = Some pt'"
    using assms(2) by (auto simp: OpenWire_def w Open_def EncodeAAD_def split: if_splits option.splits)
  then have "json_aad lib aad' = json_aad lib aad"
    using assms(3) key len unfolding gcm_authentic_def KeySize_def by blast
  then show ?thesis using assms(4-6) unfolding aad_injective_def by blast
qed


section \<open>The owner of a session\<close>

lemma pick_loop_eq:
  "pick_loop sid xs found =
     (case (found, filter (\<lambda>a. ad_OwnsSession a sid) xs) of
        (found, []) \<Rightarrow> found | (None, [a]) \<Rightarrow> Some a | _ \<Rightarrow> None)"
  by (induction xs arbitrary: found) (auto split: option.splits list.splits)

text \<open>An adapter is chosen exactly when it is the only one whose store has the session.\<close>

theorem owner_is_unique:
  "pickAdapterForSession sid adapters = Some a \<longleftrightarrow> filter (\<lambda>b. ad_OwnsSession b sid) adapters = [a]"
  by (auto simp: pickAdapterForSession_def pick_loop_eq split: list.splits)

text \<open>The text before the first mark is a prefix that ends where the mark begins.\<close>

lemma text_before_Some:
  "text_before mark s = Some t \<Longrightarrow> \<exists>rest. s = t @ mark @ rest \<and> text_before mark t = (if mark = [] then Some [] else None)"
proof (induction s arbitrary: t)
  case (Cons c s)
  show ?case
  proof (cases "prefix mark (c # s)")
    case True
    then show ?thesis using Cons.prems by (auto simp: prefix_def)
  next
    case False
    then obtain t' where t: "text_before mark s = Some t'" "t = c # t'" using Cons.prems by auto
    obtain rest where s: "s = t' @ mark @ rest" "text_before mark t' = (if mark = [] then Some [] else None)"
      using Cons.IH [OF t(1)] by blast
    have "\<not> prefix mark (c # t')"
      using False s(1) prefix_prefix [of mark "c # t'" "mark @ rest"] by auto
    then show ?thesis using t s False by auto
  qed
qed (auto split: if_splits)

section \<open>A concrete command\<close>

text \<open>Length-prefixed fields are told apart, which gives a cipher and an encoder with the properties
  assumed of AES-GCM and JSON.\<close>

definition tally :: "nat \<Rightarrow> string" where
  "tally n = replicate n (CHR ''1'') @ ''0''"

definition enc_str :: "string \<Rightarrow> string" where
  "enc_str s = tally (length s) @ s"

definition enc_int :: "int \<Rightarrow> string" where
  "enc_int i = tally (if i < 0 then 1 else 0) @ tally (nat \<bar>i\<bar>)"

lemma tally_inject: "tally m @ x = tally n @ y \<longleftrightarrow> m = n \<and> x = y"
proof (induction m arbitrary: n)
  case 0
  then show ?case by (cases n) (simp_all add: tally_def)
next
  case (Suc m)
  then show ?case by (cases n) (simp_all add: tally_def)
qed

lemma enc_str_inject: "enc_str s @ x = enc_str t @ y \<longleftrightarrow> s = t \<and> x = y"
  by (auto simp: enc_str_def tally_inject)

lemma enc_int_inject: "enc_int i @ x = enc_int j @ y \<longleftrightarrow> i = j \<and> x = y"
  by (auto simp: enc_int_def tally_inject split: if_splits)

definition tagged_lib :: crypto_lib where
  "tagged_lib =
     \<lparr>gcm_seal = (\<lambda>key nonce pt aad. enc_str aad @ pt),
      gcm_open = (\<lambda>key nonce ct aad.
         if prefix (enc_str aad) ct then Some (drop (length (enc_str aad)) ct) else None),
      json_aad = (\<lambda>f. enc_str (aad_ProtocolVersion f) @ enc_str (aad_TransportMode f) @ enc_str (aad_Type f)
         @ enc_str (aad_DeviceID f) @ enc_str (aad_SessionID f) @ enc_str (aad_ClientMsgID f)
         @ enc_str (aad_KeyScope f) @ tally (unat (aad_KeyEpoch f)) @ enc_str (aad_SenderID f)
         @ tally (unat (aad_Sequence f)) @ enc_int (aad_Timestamp f))\<rparr>"

lemma tagged_authentic: "gcm_authentic tagged_lib"
  by (auto simp: gcm_authentic_def tagged_lib_def prefix_def enc_str_inject split: if_splits)

lemma tagged_injective: "aad_injective tagged_lib"
  unfolding aad_injective_def tagged_lib_def
  using enc_int_inject [where x = "[]" and y = "[]"]
  by (auto simp: enc_str_inject tally_inject word_unat_eq_iff intro!: AADFields.equality)

definition demo_key :: sessionKey where
  "demo_key = \<lparr>sk_Key = replicate 32 (CHR ''k''), sk_Epoch = 1\<rparr>"

definition demo_command_aad :: AADFields where
  "demo_command_aad =
     \<lparr>aad_ProtocolVersion = ''1.0'', aad_TransportMode = ''sealed'', aad_Type = ''send_prompt'',
      aad_DeviceID = ''d'', aad_SessionID = ''s'', aad_ClientMsgID = ''c'', aad_KeyScope = ''session'',
      aad_KeyEpoch = 1, aad_SenderID = ''phone'', aad_Sequence = 1, aad_Timestamp = 7\<rparr>"

definition demo_wire :: WireSealed where
  "demo_wire =
     \<lparr>ws_Alg = AlgAES256GCM, ws_Version = SealedFormatVersion, ws_KeyScope = ''session'', ws_Epoch = 1,
      ws_SenderID = ''phone'', ws_RecipientID = ''d'', ws_Sequence = 1,
      ws_Nonce = B64 (replicate 12 (CHR ''n'')),
      ws_Ciphertext = B64 (gcm_seal tagged_lib (sk_Key demo_key) (replicate 12 (CHR ''n''))
         ''body'' (json_aad tagged_lib demo_command_aad))\<rparr>"

definition demo_inbound :: inbound_lib where
  "demo_inbound =
     \<lparr>in_crypto = tagged_lib, wire_of_json = (\<lambda>obj. Some demo_wire),
      json_of_bytes = (\<lambda>bytes. Some (JObject [(''client_msg_id'', JString ''c'')]))\<rparr>"

definition demo_keys :: Manager where
  "demo_keys =
     \<lparr>mg_path = True, mg_catalogKey = [], mg_catalogEpoch = 1, mg_sessions = [(''s'', demo_key)],
      mg_seqCatalog = 0, mg_seqSession = [], mg_file = NoFile\<rparr>"

definition demo_frame :: payload where
  "demo_frame =
     Some [(''protocol_version'', JString ''1.0''), (''transport_mode'', JString ''sealed''),
           (''type'', JString ''send_prompt''), (''client_msg_id'', JString ''c''),
           (''timestamp'', JNumber 7), (''sealed_payload'', JObject [])]"

lemma demo_frame_aad: "command_aad ''d'' ''s'' demo_frame ''send_prompt'' demo_wire = demo_command_aad"
  by (simp add: command_aad_def demo_command_aad_def demo_frame_def demo_wire_def field_def
      string_or_empty_def as_string_def outer_client_msg_id_def float_or_zero_def float_to_int64_def Let_def)

lemma demo_sealed_wire:
  "SealWire tagged_lib (Some (\<lambda>i. CHR ''n'')) (sk_Key demo_key) (sk_Epoch demo_key) ''session'' ''phone'' ''d'' 1
     demo_command_aad ''body'' = Inr demo_wire"
  unfolding demo_wire_def SealWire_def RandomNonce_def ReadFull_def NonceSize_def Seal_def KeySize_def EncodeAAD_def
  by (simp add: map_replicate_const demo_key_def del: upt_Suc upt_rec_numeral)

lemma demo_opens:
  "OpenSession tagged_lib ''s'' (Some demo_wire) demo_command_aad demo_keys = Inr ''body''"
  unfolding OpenSession_def OpenWire_def Open_def EncodeAAD_def demo_keys_def
  by (simp add: demo_wire_def demo_key_def KeySize_def NonceSize_def tagged_lib_def del: B64.simps)

lemma demo_accepted:
  "decodeInboundApplicationCommand demo_inbound ''sealed'' (Some demo_keys) ''d'' ''s'' demo_frame ''send_prompt''
   = Inr (Some [(''client_msg_id'', JString ''c'')])"
proof -
  have "openSealedCommand demo_inbound demo_keys ''d'' ''s'' demo_frame [] ''send_prompt''
      = Inr (Some [(''client_msg_id'', JString ''c'')])"
    using demo_opens demo_frame_aad
    by (simp add: openSealedCommand_def demo_inbound_def Let_def demo_frame_def field_def string_or_empty_def
        as_string_def unmarshal_map_def demo_wire_def)
  then show ?thesis
    by (simp add: decodeInboundApplicationCommand_def demo_frame_def field_def string_or_empty_def as_string_def
        has_key_def as_object_def)
qed


end
