(* ===== verification/Daemon_Prompts.thy ===== *)
theory Daemon_Prompts
  imports Daemon_Inbound Prompt_Journal Active_Turn
begin

text \<open>
  The daemon's prompt path (\<open>daemon/cmd/daemon/main.go\<close>): the handlers of \<open>send_prompt\<close>,
  \<open>prompt_status_query\<close>, \<open>prompt_committed\<close>, \<open>cancel_prompt\<close>, \<open>resume_prompt_queue\<close>,
  \<open>skip_prompt_queue_item\<close> and \<open>interrupt\<close>, the queue dispatcher, \<open>dispatchQueuedPrompt\<close> and the control
  events of the agents, over the journal, the queue, the acceptance cache and the turn registry of
  the other theories.

  A handler runs under the lock of its session and is one step up to the point where it waits: for
  the agent's answer to a prompt, or, in the dispatcher, for the download of attachments.  The two
  halves around such a wait are separate definitions; between them agent events, other sessions
  and a crash can come.  \<open>dn_flight\<close> lists the calls under way, which hold the lock of their session,
  \<open>dn_claims\<close> the claimed items whose attachments are being fetched.  \<open>dn_calls\<close> and \<open>dn_commits\<close>
  record, for the theorems, the prompts handed to an agent with what became of them and the commits
  applied; \<open>dn_sent\<close> the frames handed to the connection.

  The agent's answer to a prompt is an argument: an error has the three marks the code asks for
  with \<open>errors.Is\<close>.
\<close>

section \<open>State\<close>

datatype fail_reason =
    ClientMsgIDNeeded | Rejected prompt_reject | EmptyPrompt | SessionNotFound
  | NotQueued queue_error | DownloadFailed | NotJournaled journal_error | TurnActive
  | StillRunning | PromptNotStarted | QueueUnavailable | QueuedPromptNotFound
  | QueueRefused queue_error | NotResumed queue_error | BlockerRequired | CommandNotDecoded
  | OutcomeUnknown | TurnConflict | AgentError | AcceptanceNotSaved | DispatchUnclear

text \<open>\<open>FFailed\<close> is \<open>prompt_failed\<close> with outcome rejected and a permission to retry, \<open>FIndeterminate\<close> the one
  with outcome indeterminate and none.\<close>

datatype daemon_frame =
    FAccepted string string string
  | FFailed string string fail_reason
  | FIndeterminate string string fail_reason
  | FQueued string string nat
  | FCancelled string string
  | FNotSeen string string
  | FQueueUpdate string bool "(string \<times> nat \<times> promptQueueStatus) list"
  | FTurn string "ActiveTurnBinding option"
  | FControl ControlEvent bool
  | FError string fail_reason

datatype call_outcome = Calling | Accepted | Refused | Unclear

record flight =
  fl_session :: string
  fl_client :: string
  fl_generation :: uint64
  fl_prompt :: string
  fl_queued :: "promptQueueItem option"
  fl_call :: nat

record claim =
  cl_item :: promptQueueItem
  cl_payload :: "prompt_reject + (string \<times> attach_ref list)"

record daemon =
  dn_journal :: promptJournal
  dn_queue :: "queue_source + promptQueue"
  dn_cache :: promptAcceptanceCache
  dn_turns :: activeTurnRegistry
  dn_generation :: uint64
  dn_flight :: "flight list"
  dn_claims :: "claim list"
  dn_sent :: "daemon_frame list"
  dn_calls :: "(string \<times> string \<times> call_outcome) list"
  dn_commits :: "(string \<times> string) list"

record send_error =
  se_Busy :: bool
  se_NotStarted :: bool
  se_BoundaryIndeterminate :: bool

text \<open>The surroundings of a handler: the clock, the fault of its \<open>n\<close>-th durable write, the digest, the
  keys and decoders, the adapters, the adapter discovery has for a session, whether discovery
  reports a session busy, and the download of attachments, which yields the suffix for the prompt.\<close>

record daemon_env =
  de_now :: nanos
  de_fault :: "nat \<Rightarrow> persist_step option"
  de_sha :: "string \<Rightarrow> string"
  de_lib :: inbound_lib
  de_keys :: "Manager option"
  de_device :: string
  de_adapters :: "adapter list"
  de_cached :: "string \<Rightarrow> adapter option"
  de_busy :: "string \<Rightarrow> bool"
  de_materialize :: "attach_ref list \<Rightarrow> string option"
  de_json :: "json \<Rightarrow> string"
  de_update :: "ControlEvent \<Rightarrow> bool"

definition send_frames :: "daemon_frame list \<Rightarrow> daemon \<Rightarrow> daemon" where
  "send_frames fs d = d\<lparr>dn_sent := dn_sent d @ fs\<rparr>"

definition queue_available :: "daemon \<Rightarrow> bool" where
  "queue_available d = (case dn_queue d of Inl src \<Rightarrow> False | Inr q \<Rightarrow> True)"

definition queue_update :: "promptQueue \<Rightarrow> string \<Rightarrow> daemon_frame" where
  "queue_update q sessionID =
     (let items = filter (\<lambda>i. \<not> isPromptQueueTerminal (qi_Status i)) (queue_list q sessionID)
      in FQueueUpdate sessionID (list_ex (\<lambda>i. isPromptQueueBlocked (qi_Status i)) items)
           (map (\<lambda>i. (qi_ClientMsgID i, position q sessionID (qi_ClientMsgID i), qi_Status i)) items))"

definition sendQueueUpdate :: "string \<Rightarrow> daemon \<Rightarrow> daemon" where
  "sendQueueUpdate sessionID d =
     (case dn_queue d of Inl src \<Rightarrow> d | Inr q \<Rightarrow> send_frames [queue_update q sessionID] d)"

text \<open>An operation on the queue, when there is one.\<close>

definition with_queue ::
  "(promptQueue \<Rightarrow> promptQueue \<times> queue_error option) \<Rightarrow> daemon \<Rightarrow> daemon \<times> queue_error option" where
  "with_queue f d =
     (case dn_queue d of
        Inl src \<Rightarrow> (d, None)
      | Inr q \<Rightarrow> (case f q of (q', e) \<Rightarrow> (d\<lparr>dn_queue := Inr q'\<rparr>, e)))"

definition with_journal ::
  "(promptJournal \<Rightarrow> promptJournal \<times> journal_error option) \<Rightarrow> daemon \<Rightarrow> daemon \<times> journal_error option" where
  "with_journal f d = (case f (dn_journal d) of (j, e) \<Rightarrow> (d\<lparr>dn_journal := j\<rparr>, e))"

section \<open>Control events\<close>

definition event_lifecycle :: "ControlEvent \<Rightarrow> string" where
  "event_lifecycle ev =
     (if ce_Lifecycle ev \<noteq> [] then ce_Lifecycle ev
      else if ce_Class ev = ''completed'' then ''terminal_success''
      else if ce_Class ev = ''failed'' then ''terminal_failure''
      else if ce_Class ev \<in> {''interrupted'', ''cancelled'', ''canceled''} then ''interrupted''
      else [])"

definition terminal_lifecycle :: "string \<Rightarrow> bool" where
  "terminal_lifecycle l \<longleftrightarrow> l \<in> {''terminal_success'', ''terminal_failure'', ''interrupted'', ''indeterminate''}"

definition sendControlEvent :: "daemon_env \<Rightarrow> ControlEvent \<Rightarrow> bool \<Rightarrow> daemon \<Rightarrow> daemon" where
  "sendControlEvent env ev clear d =
     (if ce_SessionID ev = [] then d
      else if de_update env ev \<or> clear \<or> ce_EventID ev \<noteq> [] \<and> ce_Class ev \<noteq> []
      then send_frames [FControl ev clear] d else d)"

definition settle_running :: "daemon_env \<Rightarrow> ControlEvent \<Rightarrow> daemon \<Rightarrow> daemon" where
  "settle_running env ev d =
     (case dn_queue d of
        Inl src \<Rightarrow> d
      | Inr q \<Rightarrow>
          if ce_SessionID ev = [] then d
          else (case queue_running q (ce_SessionID ev) of
                  None \<Rightarrow> d
                | Some item \<Rightarrow>
                    if ce_ClientMsgID ev \<noteq> [] \<and> ce_ClientMsgID ev \<noteq> qi_ClientMsgID item then d
                    else let s = ce_SessionID ev; c = qi_ClientMsgID item; f = de_fault env 0;
                             l = ce_Lifecycle ev;
                             q' = (if l = ''terminal_success'' then fst (complete f s c q)
                                   else if l = ''terminal_failure'' then fst (block f s c promptQueueBlockedFailed q)
                                   else if l = ''interrupted'' then fst (block f s c promptQueueBlockedInterrupted q)
                                   else if l = ''indeterminate''
                                   then fst (block f s c promptQueueBlockedIndeterminate q)
                                   else q)
                         in sendQueueUpdate s (d\<lparr>dn_queue := Inr q'\<rparr>)))"

definition handleControlEvent :: "daemon_env \<Rightarrow> ControlEvent \<Rightarrow> daemon \<Rightarrow> daemon" where
  "handleControlEvent env event d =
     (let ev = event\<lparr>ce_Lifecycle := event_lifecycle event\<rparr>
      in if \<not> terminal_lifecycle (ce_Lifecycle ev) then settle_running env ev (sendControlEvent env ev False d)
         else (case terminalForEvent ev (dn_turns d) of
                 (turns, None, _, _) \<Rightarrow> d\<lparr>dn_turns := turns\<rparr>
               | (turns, Some b, ready, matched) \<Rightarrow>
                   if \<not> matched \<or> \<not> ready then d\<lparr>dn_turns := turns\<rparr>
                   else let ev = ev\<lparr>ce_Generation := tb_Generation b, ce_ClientMsgID := tb_ClientMsgID b,
                                    ce_NativeRequestID := (if ce_NativeRequestID ev = [] then tb_NativeRequestID b
                                                           else ce_NativeRequestID ev)\<rparr>
                        in (case clearMatching (ce_SessionID ev) (tb_Generation b) (tb_ClientMsgID b)
                                   (tb_NativeRequestID b) turns of
                              (turns, cleared) \<Rightarrow>
                                settle_running env ev
                                  (sendControlEvent env ev cleared (d\<lparr>dn_turns := turns\<rparr>)))))"

section \<open>Handing a prompt to an agent\<close>

text \<open>\<open>start_call\<close> is the call of \<open>SendPrompt\<close> up to its return; \<open>finish_call\<close> records the answer.\<close>

definition start_call ::
  "string \<Rightarrow> string \<Rightarrow> string \<Rightarrow> promptQueueItem option \<Rightarrow> daemon \<Rightarrow> daemon" where
  "start_call s c prompt item d =
     d\<lparr>dn_flight := dn_flight d
         @ [\<lparr>fl_session = s, fl_client = c, fl_generation = dn_generation d, fl_prompt = prompt,
             fl_queued = item, fl_call = length (dn_calls d)\<rparr>],
       dn_calls := dn_calls d @ [(s, c, Calling)]\<rparr>"

definition finish_call :: "flight \<Rightarrow> call_outcome \<Rightarrow> daemon \<Rightarrow> daemon" where
  "finish_call fl outcome d =
     d\<lparr>dn_flight := filter (\<lambda>f. f \<noteq> fl) (dn_flight d),
       dn_calls := (dn_calls d)[fl_call fl := (fl_session fl, fl_client fl, outcome)]\<rparr>"

definition call_result :: "send_error option \<Rightarrow> call_outcome" where
  "call_result err =
     (case err of
        None \<Rightarrow> Accepted
      | Some e \<Rightarrow> if se_Busy e \<or> se_NotStarted e then Refused else Unclear)"

text \<open>The steps both paths share after an agent took the prompt.\<close>

definition turn_frame :: "string \<Rightarrow> daemon \<Rightarrow> daemon" where
  "turn_frame s d =
     (case current (dn_turns d) s of
        None \<Rightarrow> d
      | Some b \<Rightarrow> if s = [] then d else send_frames [FTurn s (Some b)] d)"

definition clear_frame :: "string \<Rightarrow> bool \<Rightarrow> daemon \<Rightarrow> daemon" where
  "clear_frame s cleared d = (if cleared \<and> s \<noteq> [] then send_frames [FTurn s None] d else d)"

definition abandon_turn :: "flight \<Rightarrow> daemon \<Rightarrow> daemon" where
  "abandon_turn fl d =
     (case abandonAcceptance (fl_session fl) (fl_generation fl) (fl_client fl) (dn_turns d) of
        (turns, cleared) \<Rightarrow> clear_frame (fl_session fl) cleared (d\<lparr>dn_turns := turns\<rparr>))"

definition accept_turn :: "daemon_env \<Rightarrow> flight \<Rightarrow> daemon \<Rightarrow> daemon" where
  "accept_turn env fl d =
     (case accept (fl_session fl) (fl_generation fl) (fl_client fl) (dn_turns d) of
        (turns, pending, completed) \<Rightarrow>
          let d = clear_frame (fl_session fl) completed (d\<lparr>dn_turns := turns\<rparr>);
              d = (case pending of None \<Rightarrow> d | Some ev \<Rightarrow> handleControlEvent env ev d);
              accepted = \<lparr>ap_prompt = boundedPromptEcho (fl_prompt fl)\<rparr>
          in send_frames [FAccepted (fl_session fl) (fl_client fl) (ap_prompt accepted)]
               (d\<lparr>dn_cache := cache_add (de_sha env) (fl_session fl) (fl_client fl) accepted (dn_cache d)\<rparr>))"

definition clear_turn :: "flight \<Rightarrow> daemon \<Rightarrow> daemon" where
  "clear_turn fl d =
     d\<lparr>dn_turns := fst (clearMatching (fl_session fl) (fl_generation fl) (fl_client fl) [] (dn_turns d))\<rparr>"

definition next_generation :: "daemon \<Rightarrow> daemon" where
  "next_generation d = d\<lparr>dn_generation := dn_generation d + 1\<rparr>"

definition bind_turn :: "string \<Rightarrow> string \<Rightarrow> daemon \<Rightarrow> daemon \<times> bool" where
  "bind_turn s c d =
     (case Active_Turn.bind s (dn_generation d) c (dn_turns d) of
        (turns, ok) \<Rightarrow> (d\<lparr>dn_turns := turns\<rparr>, ok))"

section \<open>Sending a prompt\<close>

definition payload_client_id :: "payload \<Rightarrow> string" where
  "payload_client_id p =
     (let c = string_or_empty (field p ''client_msg_id'')
      in if c = [] then string_or_empty (field p ''message_id'') else c)"

text \<open>The answer for a prompt the queue knows.\<close>

definition queue_answer :: "string \<Rightarrow> string \<Rightarrow> daemon \<Rightarrow> daemon_frame list option" where
  "queue_answer s c d =
     (case dn_queue d of
        Inl src \<Rightarrow> None
      | Inr q \<Rightarrow>
          (case queue_item q s c of
             None \<Rightarrow> None
           | Some item \<Rightarrow>
               Some (if qi_Status item = promptQueueCancelled then [FCancelled s c]
                     else [FQueued s c (position q s c), queue_update q s])))"

text \<open>The answer for a prompt the journal knows.\<close>

definition journal_answer :: "daemon_env \<Rightarrow> string \<Rightarrow> string \<Rightarrow> daemon \<Rightarrow> daemon_frame list option" where
  "journal_answer env s c d =
     (case journal_state (de_sha env) (dn_journal d) s c of
        None \<Rightarrow> None
      | Some r \<Rightarrow>
          Some (if jr_Status r = promptJournalAccepted \<or> jr_Status r = promptJournalCommitted
                then [FAccepted s c (case cache_get (de_sha env) (dn_cache d) s c of
                                       Some a \<Rightarrow> ap_prompt a | None \<Rightarrow> jr_PromptEcho r)]
                else [FIndeterminate s c OutcomeUnknown]))"

definition target_adapter :: "daemon_env \<Rightarrow> string \<Rightarrow> adapter option" where
  "target_adapter env s =
     (case de_cached env s of Some a \<Rightarrow> Some a | None \<Rightarrow> pickAdapterForSession s (de_adapters env))"

definition queue_capable :: "adapter \<Rightarrow> daemon \<Rightarrow> bool" where
  "queue_capable a d \<longleftrightarrow> queue_available d \<and> (ad_Codex a \<longrightarrow> ad_AppServerHealthy a)"

definition new_item :: "daemon_env \<Rightarrow> adapter \<Rightarrow> string \<Rightarrow> string \<Rightarrow> string \<Rightarrow> payload \<Rightarrow> string \<Rightarrow> promptQueueItem" where
  "new_item env a s c mode p sealedWire =
     \<lparr>qi_SessionID = s, qi_ClientMsgID = c, qi_AgentType = ad_Name a,
      qi_Prompt = (if sealedWire \<noteq> [] then [] else string_or_empty (field p ''prompt'')),
      qi_Attachments = (if sealedWire \<noteq> [] then NoBytes
                        else (case field p ''attachments'' of
                                None \<Rightarrow> NoBytes | Some JNull \<Rightarrow> NoBytes
                              | Some v \<Rightarrow> Document (de_json env v))),
      qi_SealedEnvelope = sealedWire, qi_CollaborationMode = mode, qi_CreatedAt = 0, qi_Order = 0,
      qi_Status = promptQueueQueued\<rparr>"

definition enqueue_prompt :: "daemon_env \<Rightarrow> promptQueueItem \<Rightarrow> daemon \<Rightarrow> daemon" where
  "enqueue_prompt env item d =
     (case dn_queue d of
        Inl src \<Rightarrow> d
      | Inr q \<Rightarrow>
          let s = qi_SessionID item; c = qi_ClientMsgID item
          in (case enqueue (de_now env) (de_fault env 0) item q of
                (q', Inl e) \<Rightarrow> send_frames [FFailed s c (NotQueued e)] (d\<lparr>dn_queue := Inr q'\<rparr>)
              | (q', Inr (stored, fresh)) \<Rightarrow>
                  send_frames [FQueued s c (position q' s (qi_ClientMsgID stored)), queue_update q' s]
                    (d\<lparr>dn_queue := Inr q'\<rparr>)))"

text \<open>Without the queue: journal the dispatch, bind the turn, call the agent.\<close>

definition dispatch_direct :: "daemon_env \<Rightarrow> string \<Rightarrow> string \<Rightarrow> string \<Rightarrow> daemon \<Rightarrow> daemon" where
  "dispatch_direct env s c original d =
     (case with_journal (markDispatching (de_sha env) (de_now env) (de_fault env 0) s c original) d of
        (d, Some e) \<Rightarrow> send_frames [FFailed s c (NotJournaled e)] d
      | (d, None) \<Rightarrow>
          (case bind_turn s c (next_generation d) of
             (d, False) \<Rightarrow>
               (case with_journal (rollbackDispatching (de_sha env) (de_fault env 1) s c) d of
                  (d, Some e) \<Rightarrow> send_frames [FIndeterminate s c TurnConflict] d
                | (d, None) \<Rightarrow> send_frames [FFailed s c TurnActive] d)
           | (d, True) \<Rightarrow> start_call s c original None d))"

definition fresh_prompt :: "daemon_env \<Rightarrow> string \<Rightarrow> string \<Rightarrow> payload \<Rightarrow> string \<Rightarrow> daemon \<Rightarrow> daemon" where
  "fresh_prompt env s c p sealedWire d =
     (let original = string_or_empty (field p ''prompt'')
      in (case normalizeCollaborationMode (field p ''collaboration_mode'') of
            Inl e \<Rightarrow> send_frames [FFailed s c (Rejected e)] d
          | Inr mode \<Rightarrow>
              let prompt = stripNekoAttachSuffix original;
                  refs = parseAttachmentRefs (field p ''attachments'')
              in if maxPromptAttachments < length refs then send_frames [FFailed s c (Rejected TooManyAttachments)] d
                 else if prompt = [] \<and> refs = [] then send_frames [FFailed s c EmptyPrompt] d
                 else (case target_adapter env s of
                         None \<Rightarrow> send_frames [FFailed s c SessionNotFound] d
                       | Some a \<Rightarrow>
                           if queue_capable a d then enqueue_prompt env (new_item env a s c mode p sealedWire) d
                           else if refs \<noteq> [] \<and> de_materialize env refs = None
                           then send_frames [FFailed s c DownloadFailed] d
                           else dispatch_direct env s c original d)))"

definition handle_send_prompt :: "daemon_env \<Rightarrow> string \<Rightarrow> payload \<Rightarrow> string \<Rightarrow> daemon \<Rightarrow> daemon" where
  "handle_send_prompt env s p sealedWire d =
     (let c = payload_client_id p
      in if c = [] then send_frames [FFailed s [] ClientMsgIDNeeded] d
         else (case journal_answer env s c d of
                 Some fs \<Rightarrow> send_frames fs d
               | None \<Rightarrow>
                   (case cache_get (de_sha env) (dn_cache d) s c of
                      Some a \<Rightarrow> send_frames [FAccepted s c (ap_prompt a)] d
                    | None \<Rightarrow>
                        (case queue_answer s c d of
                           Some fs \<Rightarrow> send_frames fs d
                         | None \<Rightarrow> fresh_prompt env s c p sealedWire d))))"

text \<open>The rest of the handler once the agent answered.\<close>

definition direct_accepted :: "daemon_env \<Rightarrow> flight \<Rightarrow> daemon \<Rightarrow> daemon" where
  "direct_accepted env fl d =
     (let s = fl_session fl; c = fl_client fl
      in (case with_journal (markAccepted (de_sha env) (de_now env) (de_fault env 0) s c) (turn_frame s d) of
            (d, Some e) \<Rightarrow> send_frames [FIndeterminate s c AcceptanceNotSaved] (abandon_turn fl d)
          | (d, None) \<Rightarrow> accept_turn env fl d))"

definition direct_refused :: "daemon_env \<Rightarrow> flight \<Rightarrow> send_error \<Rightarrow> daemon \<Rightarrow> daemon" where
  "direct_refused env fl err d =
     (let s = fl_session fl; c = fl_client fl; d = clear_turn fl d;
          rollback = (\<lambda>n. with_journal (rollbackDispatching (de_sha env) (de_fault env n) s c));
          unclear = (\<lambda>d. send_frames [FIndeterminate s c AgentError]
             (fst (with_journal (markIndeterminate (de_sha env) (de_now env) (de_fault env 2) s c) d)));
          not_started = (\<lambda>d.
             if se_NotStarted err
             then (case rollback 1 d of
                     (d, None) \<Rightarrow> send_frames [FFailed s c PromptNotStarted] d
                   | (d, Some e) \<Rightarrow> unclear d)
             else unclear d)
      in if se_Busy err
         then (case rollback 0 d of
                 (d, None) \<Rightarrow> send_frames [FFailed s c StillRunning] d
               | (d, Some e) \<Rightarrow> not_started d)
         else not_started d)"

definition direct_returned :: "daemon_env \<Rightarrow> flight \<Rightarrow> send_error option \<Rightarrow> daemon \<Rightarrow> daemon" where
  "direct_returned env fl err d =
     (let d = finish_call fl (call_result err) d
      in (case err of None \<Rightarrow> direct_accepted env fl d | Some e \<Rightarrow> direct_refused env fl e d))"

section \<open>Dispatching queued prompts\<close>

text \<open>\<open>dispatchQueued\<close> up to the download of the attachments.\<close>

definition claim_queued :: "daemon_env \<Rightarrow> string \<Rightarrow> daemon \<Rightarrow> daemon" where
  "claim_queued env s d =
     (case dn_queue d of
        Inl src \<Rightarrow> d
      | Inr q \<Rightarrow>
          if de_busy env s then d
          else (case pickAdapterForSession s (de_adapters env) of
                  None \<Rightarrow> d
                | Some a \<Rightarrow>
                    if ad_Codex a \<and> (\<not> ad_AppServerHealthy a \<or> ad_HasActiveTurn a s) then d
                    else (case claimNext (de_fault env 0) s q of
                            (q', Inl e) \<Rightarrow> d\<lparr>dn_queue := Inr q'\<rparr>
                          | (q', Inr None) \<Rightarrow> d\<lparr>dn_queue := Inr q'\<rparr>
                          | (q', Inr (Some item)) \<Rightarrow>
                              let d = send_frames [queue_update q' s] (d\<lparr>dn_queue := Inr q'\<rparr>)
                              in if ad_Name a \<noteq> qi_AgentType item
                                 then sendQueueUpdate s
                                        (fst (with_queue (block (de_fault env 1) s (qi_ClientMsgID item)
                                           promptQueueBlockedIndeterminate) d))
                                 else (case queuedPromptPayload (de_lib env) (de_keys env) (de_device env) s item of
                                         Inl e \<Rightarrow> d\<lparr>dn_claims := dn_claims d
                                           @ [\<lparr>cl_item = item\<lparr>qi_CollaborationMode := []\<rparr>, cl_payload = Inl e\<rparr>]\<rparr>
                                       | Inr (prompt, refs, mode) \<Rightarrow> d\<lparr>dn_claims := dn_claims d
                                           @ [\<lparr>cl_item = item\<lparr>qi_CollaborationMode := mode\<rparr>,
                                               cl_payload = Inr (prompt, refs)\<rparr>]\<rparr>))))"

datatype dispatch_error = DispatchBusy | DispatchNotStarted | DispatchOther

definition dispatch_failed :: "daemon_env \<Rightarrow> promptQueueItem \<Rightarrow> dispatch_error \<Rightarrow> daemon \<Rightarrow> daemon" where
  "dispatch_failed env item err d =
     (let s = qi_SessionID item; c = qi_ClientMsgID item; f = de_fault env 9
      in (case err of
            DispatchBusy \<Rightarrow> sendQueueUpdate s (fst (with_queue (releaseClaim f s c) d))
          | DispatchNotStarted \<Rightarrow>
              send_frames [FFailed s c PromptNotStarted]
                (sendQueueUpdate s (fst (with_queue (block f s c promptQueueBlockedFailed) d)))
          | DispatchOther \<Rightarrow>
              send_frames [FIndeterminate s c DispatchUnclear]
                (sendQueueUpdate s (fst (with_queue (block f s c promptQueueBlockedIndeterminate) d)))))"

text \<open>\<open>dispatchQueuedPrompt\<close> up to the call of the agent.\<close>

definition dispatchQueuedPrompt :: "daemon_env \<Rightarrow> promptQueueItem \<Rightarrow> daemon \<Rightarrow> daemon" where
  "dispatchQueuedPrompt env item d =
     (let s = qi_SessionID item; c = qi_ClientMsgID item
      in (case with_journal (markDispatching (de_sha env) (de_now env) (de_fault env 0) s c (qi_Prompt item)) d of
            (d, Some e) \<Rightarrow> dispatch_failed env item DispatchOther d
          | (d, None) \<Rightarrow>
              (case bind_turn s c d of
                 (d, False) \<Rightarrow>
                   (case with_journal (rollbackDispatching (de_sha env) (de_fault env 1) s c) d of
                      (d, Some e) \<Rightarrow> dispatch_failed env item DispatchOther d
                    | (d, None) \<Rightarrow> dispatch_failed env item DispatchBusy d)
               | (d, True) \<Rightarrow> start_call s c (qi_Prompt item) (Some item) d)))"

definition dispatch_claim :: "daemon_env \<Rightarrow> claim \<Rightarrow> daemon \<Rightarrow> daemon" where
  "dispatch_claim env cl d =
     (let d = d\<lparr>dn_claims := filter (\<lambda>x. x \<noteq> cl) (dn_claims d)\<rparr>
      in (case cl_payload cl of
            Inl e \<Rightarrow> dispatch_failed env (cl_item cl) DispatchOther d
          | Inr (prompt, refs) \<Rightarrow>
              if refs \<noteq> [] \<and> de_materialize env refs = None
              then dispatch_failed env (cl_item cl) DispatchOther d
              else dispatchQueuedPrompt env (cl_item cl) (next_generation d)))"

text \<open>\<open>dispatchQueuedPrompt\<close> and the end of \<open>dispatchQueued\<close> once the agent answered.\<close>

definition queued_accepted :: "daemon_env \<Rightarrow> flight \<Rightarrow> promptQueueItem \<Rightarrow> daemon \<Rightarrow> daemon" where
  "queued_accepted env fl item d =
     (let s = fl_session fl; c = fl_client fl
      in (case with_journal (markAccepted (de_sha env) (de_now env) (de_fault env 0) s c) (turn_frame s d) of
            (d, Some e) \<Rightarrow> dispatch_failed env item DispatchOther (abandon_turn fl d)
          | (d, None) \<Rightarrow> accept_turn env fl d))"

definition queued_refused :: "daemon_env \<Rightarrow> flight \<Rightarrow> promptQueueItem \<Rightarrow> send_error \<Rightarrow> daemon \<Rightarrow> daemon" where
  "queued_refused env fl item err d =
     (let s = fl_session fl; c = fl_client fl; d = clear_turn fl d;
          rollback = with_journal (rollbackDispatching (de_sha env) (de_fault env 0) s c)
      in if se_Busy err \<or> se_NotStarted err
         then (case rollback d of
                 (d, Some e) \<Rightarrow> dispatch_failed env item DispatchOther d
               | (d, None) \<Rightarrow> dispatch_failed env item (if se_Busy err then DispatchBusy else DispatchNotStarted) d)
         else dispatch_failed env item DispatchOther
                (fst (with_journal (markIndeterminate (de_sha env) (de_now env) (de_fault env 0) s c) d)))"

definition queued_returned :: "daemon_env \<Rightarrow> flight \<Rightarrow> promptQueueItem \<Rightarrow> send_error option \<Rightarrow> daemon \<Rightarrow> daemon" where
  "queued_returned env fl item err d =
     (let d = finish_call fl (call_result err) d
      in (case err of None \<Rightarrow> queued_accepted env fl item d | Some e \<Rightarrow> queued_refused env fl item e d))"

definition agent_returned :: "daemon_env \<Rightarrow> flight \<Rightarrow> send_error option \<Rightarrow> daemon \<Rightarrow> daemon" where
  "agent_returned env fl err d =
     (case fl_queued fl of
        None \<Rightarrow> direct_returned env fl err d
      | Some item \<Rightarrow> queued_returned env fl item err d)"

section \<open>Status, commit and queue commands\<close>

text \<open>Routing frames carry the id in the payload or in the envelope.\<close>

definition routing_client_id :: "payload \<Rightarrow> payload \<Rightarrow> string" where
  "routing_client_id msg p =
     (let c = string_or_empty (field p ''client_msg_id'')
      in if c = [] then string_or_empty (field msg ''client_msg_id'') else c)"

definition handle_prompt_status_query :: "daemon_env \<Rightarrow> string \<Rightarrow> string \<Rightarrow> daemon \<Rightarrow> daemon" where
  "handle_prompt_status_query env s c d =
     (if c = [] then send_frames [FFailed s [] ClientMsgIDNeeded] d
      else (case queue_answer s c d of
              Some fs \<Rightarrow> send_frames fs d
            | None \<Rightarrow>
                (case journal_answer env s c d of
                   Some fs \<Rightarrow> send_frames fs d
                 | None \<Rightarrow> send_frames [FNotSeen s c] d)))"

definition handle_prompt_committed :: "daemon_env \<Rightarrow> string \<Rightarrow> string \<Rightarrow> daemon \<Rightarrow> daemon" where
  "handle_prompt_committed env s c d =
     (if c = [] then d
      else (case journal_state (de_sha env) (dn_journal d) s c of
              None \<Rightarrow> d
            | Some r \<Rightarrow>
                if jr_Status r = promptJournalCommitted then d
                else if jr_Status r \<noteq> promptJournalAccepted then d
                else fst (with_journal (markCommitted (de_sha env) (de_now env) (de_fault env 0) s c)
                            (d\<lparr>dn_commits := dn_commits d @ [(s, c)]\<rparr>))))"

definition handle_cancel_prompt :: "daemon_env \<Rightarrow> string \<Rightarrow> payload \<Rightarrow> daemon \<Rightarrow> daemon" where
  "handle_cancel_prompt env s p d =
     (let c = string_or_empty (field p ''client_msg_id'')
      in if c = [] then send_frames [FFailed s [] ClientMsgIDNeeded] d
         else (case dn_queue d of
                 Inl src \<Rightarrow> send_frames [FFailed s c QueueUnavailable] d
               | Inr q \<Rightarrow>
                   (case queue_item q s c of
                      None \<Rightarrow> send_frames [FFailed s c QueuedPromptNotFound] d
                    | Some item \<Rightarrow>
                        (case with_queue (cancel (de_fault env 0) s c) d of
                           (d, Some e) \<Rightarrow> send_frames [FFailed s c (QueueRefused e)] d
                         | (d, None) \<Rightarrow> sendQueueUpdate s (send_frames [FCancelled s c] d)))))"

definition handle_resume_prompt_queue :: "daemon_env \<Rightarrow> string \<Rightarrow> daemon \<Rightarrow> daemon" where
  "handle_resume_prompt_queue env s d =
     (if \<not> queue_available d then send_frames [FFailed s [] QueueUnavailable] d
      else (case with_queue (resumeSession (de_fault env 0) s) d of
              (d, Some e) \<Rightarrow> send_frames [FFailed s [] (NotResumed e)] d
            | (d, None) \<Rightarrow> sendQueueUpdate s d))"

definition handle_skip_prompt_queue_item :: "daemon_env \<Rightarrow> string \<Rightarrow> payload \<Rightarrow> daemon \<Rightarrow> daemon" where
  "handle_skip_prompt_queue_item env s p d =
     (let c = string_or_empty (field p ''client_msg_id'')
      in if \<not> queue_available d \<or> TrimSpace c = [] then send_frames [FFailed s c BlockerRequired] d
         else (case with_queue (skipIndeterminate (de_fault env 0) s c) d of
                 (d, Some e) \<Rightarrow> send_frames [FFailed s c (QueueRefused e)] d
               | (d, None) \<Rightarrow> sendQueueUpdate s d))"

text \<open>\<open>interrupt\<close>, with the adapter's answer and the parsed binding as arguments.\<close>

definition handle_interrupt ::
  "daemon_env \<Rightarrow> string \<Rightarrow> turn_error + (uint64 \<times> string) \<Rightarrow> bool \<Rightarrow> daemon \<Rightarrow> daemon" where
  "handle_interrupt env s binding ok d =
     (case binding of
        Inl e \<Rightarrow> send_frames [FError s TurnConflict] d
      | Inr (generation, c) \<Rightarrow>
          if \<not> matches (dn_turns d) s generation c then send_frames [FError s TurnConflict] d
          else if de_cached env s = None then send_frames [FError s SessionNotFound] d
          else if \<not> ok then send_frames [FError s AgentError] d
          else (case dn_queue d of
                  Inl src \<Rightarrow> d
                | Inr q \<Rightarrow>
                    let q' = (case queue_running q s of
                                None \<Rightarrow> q
                              | Some item \<Rightarrow>
                                  fst (block (de_fault env 0) s (qi_ClientMsgID item) promptQueueBlockedInterrupted q))
                    in sendQueueUpdate s (d\<lparr>dn_queue := Inr q'\<rparr>)))"

text \<open>A prompt command that does not decode is refused under the id of its envelope.  The results of
  user input and of thread starts are frames outside this state.\<close>

definition refuse_undecoded :: "string \<Rightarrow> payload \<Rightarrow> string \<Rightarrow> daemon \<Rightarrow> daemon" where
  "refuse_undecoded s msg msgType d =
     (if msgType \<in> {''send_prompt'', ''cancel_prompt'', ''resume_prompt_queue'', ''skip_prompt_queue_item''}
      then send_frames [FFailed s (string_or_empty (field msg ''client_msg_id'')) CommandNotDecoded] d
      else if msgType \<in> {''respond_user_input'', ''start_thread''} then d
      else send_frames [FError s CommandNotDecoded] d)"

section \<open>Messages from the relay\<close>

definition turn_field :: "json \<Rightarrow> payload_value" where
  "turn_field v = (case v of JNumber x \<Rightarrow> PFloat x | JString s \<Rightarrow> PString s | _ \<Rightarrow> POther)"

definition turn_payload :: "payload \<Rightarrow> (string, payload_value) gomap option" where
  "turn_payload p = map_option (map (\<lambda>(k, v). (k, turn_field v))) p"

text \<open>Arguments beside the environment: the transport mode, the bytes of the frame, the conversion of
  a float to an unsigned integer and the adapter's answer to an interrupt.  Commands without effect
  on this state (approvals, answers, steering, history, thread starts) leave it alone.\<close>

definition handle_command ::
  "daemon_env \<Rightarrow> string \<Rightarrow> (rat \<Rightarrow> uint64) \<Rightarrow> bool \<Rightarrow> payload \<Rightarrow> string \<Rightarrow> payload \<Rightarrow> daemon \<Rightarrow> daemon" where
  "handle_command env data conv ok msg t p d =
     (let s = string_or_empty (field msg ''session_id'')
      in if t = ''send_prompt''
         then handle_send_prompt env s p (if has_key msg ''sealed_payload'' then data else []) d
         else if t = ''cancel_prompt'' then handle_cancel_prompt env s p d
         else if t = ''resume_prompt_queue'' then handle_resume_prompt_queue env s d
         else if t = ''skip_prompt_queue_item'' then handle_skip_prompt_queue_item env s p d
         else if t = ''interrupt'' then handle_interrupt env s (parseActiveTurnCommand conv (turn_payload p)) ok d
         else d)"

definition on_message ::
  "daemon_env \<Rightarrow> string \<Rightarrow> string \<Rightarrow> (rat \<Rightarrow> uint64) \<Rightarrow> bool \<Rightarrow> payload \<Rightarrow> daemon \<Rightarrow> daemon" where
  "on_message env mode data conv ok msg d =
     (let t = string_or_empty (field msg ''type'');
          s = string_or_empty (field msg ''session_id'');
          p = as_object (field msg ''payload'')
      in if daemonInboundApplicationType t
         then (case decodeInboundApplicationCommand (de_lib env) mode (de_keys env) (de_device env) s msg t of
                 Inl e \<Rightarrow> refuse_undecoded s msg t d
               | Inr p \<Rightarrow> handle_command env data conv ok msg t p d)
         else if validateInboundRoutingFrame mode msg \<noteq> None then d
         else if t = ''prompt_status_query'' then handle_prompt_status_query env s (routing_client_id msg p) d
         else if t = ''prompt_committed'' then handle_prompt_committed env s (routing_client_id msg p) d
         else d)"

section \<open>The daemon over time\<close>

definition session_locked :: "string \<Rightarrow> daemon \<Rightarrow> bool" where
  "session_locked s d \<longleftrightarrow> list_ex (\<lambda>fl. fl_session fl = s) (dn_flight d)"

text \<open>The callbacks of a prompt request: the native id of the turn and its completion.\<close>

definition native_bound :: "string \<Rightarrow> uint64 \<Rightarrow> string \<Rightarrow> string \<Rightarrow> daemon \<Rightarrow> daemon" where
  "native_bound s generation c nativeID d =
     d\<lparr>dn_turns := fst (setNativeRequestID s generation c nativeID (dn_turns d))\<rparr>"

definition run_completed :: "string \<Rightarrow> uint64 \<Rightarrow> string \<Rightarrow> daemon \<Rightarrow> daemon" where
  "run_completed s generation c d =
     (case completeMatching s generation c (dn_turns d) of
        (turns, cleared) \<Rightarrow> clear_frame s cleared (d\<lparr>dn_turns := turns\<rparr>))"

record daemon_log =
  lg_sent :: "daemon_frame list"
  lg_calls :: "(string \<times> string \<times> call_outcome) list"
  lg_commits :: "(string \<times> string) list"

datatype daemon_proc = Running daemon | Stopped journal_source queue_source daemon_log

fun proc_files :: "daemon_proc \<Rightarrow> journal_source \<times> queue_source \<times> daemon_log" where
  "proc_files (Running d) =
     (Decoded (disk (pj_data (dn_journal d))),
      (case dn_queue d of Inl src \<Rightarrow> src | Inr q \<Rightarrow> Decoded (disk (pq_data q))),
      \<lparr>lg_sent = dn_sent d, lg_calls = dn_calls d, lg_commits = dn_commits d\<rparr>)"
| "proc_files (Stopped js qs lg) = (js, qs, lg)"

text \<open>Start on what the files hold: without a journal the daemon exits, without a queue it runs on.\<close>

definition start_daemon ::
  "(string \<Rightarrow> string) \<Rightarrow> string \<Rightarrow> persist_step option \<Rightarrow> persist_step option \<Rightarrow> daemon_proc \<Rightarrow> daemon_proc" where
  "start_daemon sha dev jfault qfault p =
     (case proc_files p of (js, qs, lg) \<Rightarrow>
        (case loadPromptJournal sha dev maxAcceptedPromptIDs js jfault of
           (Inl e, js) \<Rightarrow> Stopped js qs lg
         | (Inr j, js) \<Rightarrow>
             Running \<lparr>dn_journal = j,
                      dn_queue = (case loadPromptQueue qs qfault of (Inl e, qs) \<Rightarrow> Inl qs | (Inr q, qs) \<Rightarrow> Inr q),
                      dn_cache = newPromptAcceptanceCache maxAcceptedPromptIDs,
                      dn_turns = newActiveTurnRegistry, dn_generation = 0, dn_flight = [], dn_claims = [],
                      dn_sent = lg_sent lg, dn_calls = lg_calls lg, dn_commits = lg_commits lg\<rparr>))"

inductive daemon_step :: "(string \<Rightarrow> string) \<Rightarrow> string \<Rightarrow> daemon_proc \<Rightarrow> daemon_proc \<Rightarrow> bool"
  for sha :: "string \<Rightarrow> string" and dev :: string where
  message: "de_sha env = sha \<Longrightarrow> \<not> session_locked (string_or_empty (field msg ''session_id'')) d \<Longrightarrow>
     daemon_step sha dev (Running d) (Running (on_message env mode data conv ok msg d))"
| claimed: "de_sha env = sha \<Longrightarrow> \<not> session_locked s d \<Longrightarrow>
     daemon_step sha dev (Running d) (Running (claim_queued env s d))"
| dispatched: "de_sha env = sha \<Longrightarrow> cl \<in> set (dn_claims d) \<Longrightarrow> \<not> session_locked (qi_SessionID (cl_item cl)) d \<Longrightarrow>
     daemon_step sha dev (Running d) (Running (dispatch_claim env cl d))"
| returned: "de_sha env = sha \<Longrightarrow> fl \<in> set (dn_flight d) \<Longrightarrow>
     daemon_step sha dev (Running d) (Running (agent_returned env fl err d))"
| control: "de_sha env = sha \<Longrightarrow>
     daemon_step sha dev (Running d) (Running (handleControlEvent env ev d))"
| bound: "daemon_step sha dev (Running d) (Running (native_bound s g c n d))"
| completed: "daemon_step sha dev (Running d) (Running (run_completed s g c d))"
| restarted: "daemon_step sha dev p (start_daemon sha dev jfault qfault p)"

section \<open>The core of the state\<close>

text \<open>What decides whether a prompt runs: the journal, the calls under way, the calls made and the
  commits applied.  Most of the code leaves it alone.\<close>

definition core :: "daemon \<Rightarrow> promptJournal \<times> flight list \<times> (string \<times> string \<times> call_outcome) list \<times> (string \<times> string) list" where
  "core d = (dn_journal d, dn_flight d, dn_calls d, dn_commits d)"

lemma core_update [simp]:
  "core (d\<lparr>dn_queue := q\<rparr>) = core d" "core (d\<lparr>dn_cache := ca\<rparr>) = core d" "core (d\<lparr>dn_turns := tu\<rparr>) = core d"
  "core (d\<lparr>dn_generation := g\<rparr>) = core d" "core (d\<lparr>dn_claims := cl\<rparr>) = core d" "core (d\<lparr>dn_sent := se\<rparr>) = core d"
  by (simp_all add: core_def)

lemma core_frames [simp]:
  "core (send_frames fs d) = core d" "core (sendQueueUpdate s d) = core d" "core (fst (with_queue f d)) = core d"
  "core (clear_turn fl d) = core d" "core (next_generation d) = core d" "core (fst (bind_turn s c d)) = core d"
  "core (turn_frame s d) = core d" "core (clear_frame s b d) = core d" "core (abandon_turn fl d) = core d"
  "core (native_bound s g c n d) = core d" "core (run_completed s g c d) = core d"
  by (auto simp: send_frames_def sendQueueUpdate_def with_queue_def clear_turn_def next_generation_def bind_turn_def
      turn_frame_def clear_frame_def abandon_turn_def native_bound_def run_completed_def
      split: sum.splits prod.splits option.splits)

lemma core_with_queue: "with_queue f d = (d', e) \<Longrightarrow> core d' = core d"
  using core_frames(3) [of f d] by simp

lemma core_bind_turn: "bind_turn s c d = (d', ok) \<Longrightarrow> core d' = core d"
  using core_frames(6) [of s c d] by simp

lemma core_control_parts [simp]:
  "core (sendControlEvent env ev clear d) = core d" "core (settle_running env ev d) = core d"
  by (simp_all add: sendControlEvent_def settle_running_def Let_def split: sum.split option.split)

lemma core_control [simp]: "core (handleControlEvent env ev d) = core d"
  by (simp add: handleControlEvent_def Let_def split: prod.split option.split)

lemma core_accept_turn [simp]: "core (accept_turn env fl d) = core d"
  by (auto simp: accept_turn_def Let_def split: prod.splits option.splits)

lemma core_dispatch_failed [simp]: "core (dispatch_failed env item err d) = core d"
  by (cases err) (simp_all add: dispatch_failed_def Let_def)

lemma core_claim_queued [simp]: "core (claim_queued env s d) = core d"
  by (auto simp: claim_queued_def Let_def split: sum.splits prod.splits option.splits)

lemma core_enqueue_prompt [simp]: "core (enqueue_prompt env item d) = core d"
  by (auto simp: enqueue_prompt_def Let_def split: sum.splits prod.splits)

lemma core_queue_commands [simp]:
  "core (handle_cancel_prompt env s p d) = core d" "core (handle_resume_prompt_queue env s d) = core d"
  "core (handle_skip_prompt_queue_item env s p d) = core d" "core (handle_interrupt env s b ok d) = core d"
  "core (handle_prompt_status_query env s c d) = core d" "core (refuse_undecoded s msg t d) = core d"
  by (simp_all add: handle_cancel_prompt_def handle_resume_prompt_queue_def handle_skip_prompt_queue_item_def
      handle_interrupt_def handle_prompt_status_query_def refuse_undecoded_def Let_def core_with_queue
      split: sum.split prod.split option.split)

section \<open>Running a prompt at most once\<close>

definition prompt_key :: "(string \<Rightarrow> string) \<Rightarrow> string \<Rightarrow> string \<Rightarrow> string \<Rightarrow> string" where
  "prompt_key sha dev s c = promptJournalKeyFromHash sha (deviceHash sha dev) s c"

text \<open>The calls of a command that may have reached the agent, and its commits.\<close>

definition agent_runs :: "(string \<Rightarrow> string) \<Rightarrow> string \<Rightarrow> string \<Rightarrow> (string \<times> string \<times> call_outcome) list \<Rightarrow> nat" where
  "agent_runs sha dev key calls =
     length (filter (\<lambda>(s, c, outcome). prompt_key sha dev s c = key \<and> outcome \<noteq> Refused) calls)"

definition commits_of :: "(string \<Rightarrow> string) \<Rightarrow> string \<Rightarrow> string \<Rightarrow> (string \<times> string) list \<Rightarrow> nat" where
  "commits_of sha dev key commits = length (filter (\<lambda>(s, c). prompt_key sha dev s c = key) commits)"

definition flights_ok :: "flight list \<Rightarrow> (string \<times> string \<times> call_outcome) list \<Rightarrow> bool" where
  "flights_ok fls calls \<longleftrightarrow>
     distinct (map fl_call fls) \<and>
     (\<forall>fl \<in> set fls. fl_call fl < length calls \<and> calls ! fl_call fl = (fl_session fl, fl_client fl, Calling) \<and>
        (\<forall>item. fl_queued fl = Some item \<longrightarrow>
           qi_SessionID item = fl_session fl \<and> qi_ClientMsgID item = fl_client fl))"

definition settled :: "(string \<Rightarrow> string) \<Rightarrow> string \<Rightarrow> string \<Rightarrow> daemon \<Rightarrow> bool" where
  "settled sha dev key d \<longleftrightarrow> agent_runs sha dev key (dn_calls d) \<le> commits_of sha dev key (dn_commits d)"

definition run_inv :: "(string \<Rightarrow> string) \<Rightarrow> string \<Rightarrow> string \<Rightarrow> daemon \<Rightarrow> bool" where
  "run_inv sha dev key d \<longleftrightarrow>
     proc_ok (deviceHash sha dev) (Up (dn_journal d)) \<and> flights_ok (dn_flight d) (dn_calls d) \<and>
     (settled sha dev key d \<or>
      guarded key (Up (dn_journal d)) \<and>
      agent_runs sha dev key (dn_calls d) = Suc (commits_of sha dev key (dn_commits d)))"

lemma run_inv_core: "core d = core d' \<Longrightarrow> run_inv sha dev key d = run_inv sha dev key d'"
  by (simp add: run_inv_def settled_def core_def)

lemma settled_core: "core d = core d' \<Longrightarrow> settled sha dev key d = settled sha dev key d'"
  by (simp add: settled_def core_def)

lemma op_keeps_guard:
  assumes "run_op sha op fault j = (j', e)" and "proc_ok (deviceHash sha dev) (Up j)" and "validJournalKey key"
  shows "proc_ok (deviceHash sha dev) (Up j')"
    and "guarded key (Up j) \<Longrightarrow> released_key sha (deviceHash sha dev) op \<noteq> Some key \<Longrightarrow> guarded key (Up j')"
    and "e = None \<Longrightarrow> dispatched_key sha (deviceHash sha dev) op = Some key \<Longrightarrow>
         \<not> guarded key (Up j) \<and> guarded key (Up j')"
proof -
  have run: "journal_run sha dev maxAcceptedPromptIDs (JCall op fault) (Up j)
      = (Up j', if e = None then dispatched_key sha (deviceHash sha dev) op else None)"
    using assms(1,2) by (simp split: option.splits)
  note k = call_keeps_guard [OF run assms(2)]
  show "proc_ok (deviceHash sha dev) (Up j')" by (rule k(1))
  show "guarded key (Up j')"
    if "guarded key (Up j)" "released_key sha (deviceHash sha dev) op \<noteq> Some key"
    using k(2) [OF assms(3)] that by blast
  show "\<not> guarded key (Up j) \<and> guarded key (Up j')"
    if "e = None" "dispatched_key sha (deviceHash sha dev) op = Some key"
    using k(3) [OF _ assms(3)] that by simp
qed

text \<open>An operation of the journal keeps the invariant when it does not release the command, or when
  the command has no call that is not paid for by a commit.\<close>

lemma with_journal_fields:
  assumes "with_journal f d = (d', e)"
  shows "dn_flight d' = dn_flight d" "dn_calls d' = dn_calls d" "dn_commits d' = dn_commits d"
    "f (dn_journal d) = (dn_journal d', e)"
  using assms by (auto simp: with_journal_def split: prod.splits)

lemma with_journal_inv:
  assumes "with_journal (run_op sha op fault) d = (d', e)" and "run_inv sha dev key d" and "validJournalKey key"
    and "released_key sha (deviceHash sha dev) op \<noteq> Some key \<or> settled sha dev key d"
  shows "run_inv sha dev key d'" and "settled sha dev key d \<Longrightarrow> settled sha dev key d'"
proof -
  note f = with_journal_fields [OF assms(1)]
  have ok: "proc_ok (deviceHash sha dev) (Up (dn_journal d))" using assms(2) by (simp add: run_inv_def)
  note g = op_keeps_guard [OF f(4) ok assms(3)]
  show "run_inv sha dev key d'"
    using assms(2,4) f(1-3) g(1,2) unfolding run_inv_def settled_def by auto
  show "settled sha dev key d \<Longrightarrow> settled sha dev key d'" using f(1-3) by (simp add: settled_def)
qed

lemma run_op_forms:
  "markDispatching sha now fault s c p = run_op sha (JDispatch now s c p) fault"
  "markAccepted sha now fault s c = run_op sha (JAccept now s c) fault"
  "markIndeterminate sha now fault s c = run_op sha (JIndeterminate now s c) fault"
  "markCommitted sha now fault s c = run_op sha (JCommit now s c) fault"
  "rollbackDispatching sha fault s c = run_op sha (JRollback s c) fault"
  by (simp_all add: fun_eq_iff)

lemma rollback_inv:
  assumes "with_journal (rollbackDispatching sha fault s c) d = (d', e)" and "run_inv sha dev key d"
    and "validJournalKey key" and "prompt_key sha dev s c = key \<longrightarrow> settled sha dev key d"
  shows "run_inv sha dev key d'" and "settled sha dev key d \<Longrightarrow> settled sha dev key d'"
    and "core d' = (dn_journal d', dn_flight d, dn_calls d, dn_commits d)"
  using with_journal_inv [OF assms(1) [unfolded run_op_forms] assms(2,3)] assms(4)
    with_journal_fields [OF assms(1)] by (auto simp: prompt_key_def core_def)

lemma status_inv:
  assumes "with_journal (markAccepted sha now fault s c) d = (d', e)
      \<or> with_journal (markIndeterminate sha now fault s c) d = (d', e)"
    and "run_inv sha dev key d" and "validJournalKey key"
  shows "run_inv sha dev key d'"
  using assms(1)
proof
  assume "with_journal (markAccepted sha now fault s c) d = (d', e)"
  from with_journal_inv(1) [OF this [unfolded run_op_forms] assms(2,3)] show ?thesis by simp
next
  assume "with_journal (markIndeterminate sha now fault s c) d = (d', e)"
  from with_journal_inv(1) [OF this [unfolded run_op_forms] assms(2,3)] show ?thesis by simp
qed

lemma mark_inv:
  assumes "with_journal (markDispatching sha now fault s c p) d = (d', e)" and "run_inv sha dev key d"
    and "validJournalKey key"
  shows "run_inv sha dev key d'"
    and "e = None \<Longrightarrow> prompt_key sha dev s c = key \<Longrightarrow> settled sha dev key d' \<and> guarded key (Up (dn_journal d'))"
proof -
  show "run_inv sha dev key d'"
    using with_journal_inv(1) [OF assms(1) [unfolded run_op_forms] assms(2,3)] by simp
  have f: "run_op sha (JDispatch now s c p) fault (dn_journal d) = (dn_journal d', e)"
    "dn_calls d' = dn_calls d" "dn_commits d' = dn_commits d"
    using with_journal_fields [OF assms(1)] by simp_all
  have ok: "proc_ok (deviceHash sha dev) (Up (dn_journal d))" using assms(2) by (simp add: run_inv_def)
  show "settled sha dev key d' \<and> guarded key (Up (dn_journal d'))"
    if "e = None" "prompt_key sha dev s c = key"
    using op_keeps_guard(3) [OF f(1) ok assms(3)] that assms(2) f(2,3)
    by (auto simp: prompt_key_def run_inv_def settled_def)
qed

text \<open>A call starts only on a fresh journal record.\<close>

lemma start_call_inv:
  assumes "run_inv sha dev key d"
    and "prompt_key sha dev s c = key \<longrightarrow> settled sha dev key d \<and> guarded key (Up (dn_journal d))"
    and "\<forall>i. item = Some i \<longrightarrow> qi_SessionID i = s \<and> qi_ClientMsgID i = c"
  shows "run_inv sha dev key (start_call s c p item d)"
proof -
  have "flights_ok (dn_flight (start_call s c p item d)) (dn_calls (start_call s c p item d))"
    using assms(1,3) by (auto simp: run_inv_def flights_ok_def start_call_def nth_append)
  moreover have "agent_runs sha dev key (dn_calls (start_call s c p item d))
      = agent_runs sha dev key (dn_calls d) + (if prompt_key sha dev s c = key then 1 else 0)"
    by (simp add: agent_runs_def start_call_def)
  moreover have "dn_journal (start_call s c p item d) = dn_journal d" "dn_commits (start_call s c p item d) = dn_commits d"
    by (simp_all add: start_call_def)
  ultimately show ?thesis using assms(1,2) unfolding run_inv_def settled_def by auto
qed

text \<open>Both ways to an agent have the same shape: journal the dispatch, bind the turn, undo the
  record when the turn is taken.\<close>

lemma dispatch_shape_inv:
  assumes "run_inv sha dev key d" and "validJournalKey key"
    and "\<And>d e. core (g1 e d) = core d" "\<And>d e. core (g2 e d) = core d" "\<And>d. core (g3 d) = core d" "\<And>d. core (h d) = core d"
    and "\<forall>i. item = Some i \<longrightarrow> qi_SessionID i = s \<and> qi_ClientMsgID i = c"
  shows "run_inv sha dev key
     (case with_journal (markDispatching sha now fault s c p) d of
        (d, Some e) \<Rightarrow> g1 e d
      | (d, None) \<Rightarrow>
          (case bind_turn s c (h d) of
             (d, False) \<Rightarrow>
               (case with_journal (rollbackDispatching sha fault' s c) d of
                  (d, Some e) \<Rightarrow> g2 e d | (d, None) \<Rightarrow> g3 d)
           | (d, True) \<Rightarrow> start_call s c p item d))"
proof -
  obtain d1 e where m: "with_journal (markDispatching sha now fault s c p) d = (d1, e)" by force
  note i = mark_inv [OF m assms(1,2)]
  obtain d2 ok where b: "bind_turn s c (h d1) = (d2, ok)" by force
  have c2: "core d2 = core d1" using core_bind_turn [OF b] assms(6) by simp
  then have j2: "dn_journal d2 = dn_journal d1" by (simp add: core_def)
  obtain d3 e3 where r: "with_journal (rollbackDispatching sha fault' s c) d2 = (d3, e3)" by force
  have i2: "run_inv sha dev key d2" using i(1) run_inv_core [OF c2] by simp
  show ?thesis
  proof (cases "e = None")
    case False
    then show ?thesis using m i(1) by (auto simp: run_inv_core [OF assms(3)])
  next
    case True
    have s2: "prompt_key sha dev s c = key \<longrightarrow> settled sha dev key d2 \<and> guarded key (Up (dn_journal d2))"
      using i(2) [OF True] settled_core [OF c2] j2 by auto
    then have "run_inv sha dev key d3" using rollback_inv(1) [OF r i2 assms(2)] by blast
    then show ?thesis
      using m b r True start_call_inv [OF i2 s2 assms(7)]
      by (auto simp: run_inv_core [OF assms(4)] run_inv_core [OF assms(5)] split: option.splits bool.splits)
  qed
qed

lemma dispatch_direct_inv:
  "run_inv sha dev key d \<Longrightarrow> validJournalKey key \<Longrightarrow> de_sha env = sha \<Longrightarrow>
   run_inv sha dev key (dispatch_direct env s c p d)"
  unfolding dispatch_direct_def by (erule ssubst, rule dispatch_shape_inv) simp_all

lemma dispatchQueuedPrompt_inv:
  "run_inv sha dev key d \<Longrightarrow> validJournalKey key \<Longrightarrow> de_sha env = sha \<Longrightarrow>
   run_inv sha dev key (dispatchQueuedPrompt env item d)"
  unfolding dispatchQueuedPrompt_def Let_def
  by (erule ssubst, rule dispatch_shape_inv [where h = "\<lambda>d. d"]) simp_all

lemma dispatch_claim_inv:
  assumes "run_inv sha dev key d" and "validJournalKey key" and "de_sha env = sha"
  shows "run_inv sha dev key (dispatch_claim env cl d)"
proof -
  have eq: "core (d\<lparr>dn_claims := x\<rparr>) = core d" "core (next_generation (d\<lparr>dn_claims := x\<rparr>)) = core d" for x
    by simp_all
  have "run_inv sha dev key (dispatchQueuedPrompt env (cl_item cl) (next_generation (d\<lparr>dn_claims := x\<rparr>)))" for x
    using dispatchQueuedPrompt_inv [OF _ assms(2,3)] run_inv_core [OF eq(2)] assms(1) by blast
  moreover have "run_inv sha dev key (dispatch_failed env item err (d\<lparr>dn_claims := x\<rparr>))" for x item err
    using run_inv_core [OF core_dispatch_failed] run_inv_core [OF eq(1)] assms(1) by blast
  ultimately show ?thesis by (simp add: dispatch_claim_def Let_def split: sum.split prod.split)
qed

lemma handle_send_prompt_inv:
  assumes "run_inv sha dev key d" and "validJournalKey key" and "de_sha env = sha"
  shows "run_inv sha dev key (handle_send_prompt env s p w d)"
proof -
  have "run_inv sha dev key (send_frames fs d)" "run_inv sha dev key (enqueue_prompt env item d)" for fs item
    using assms(1) run_inv_core [OF core_frames(1)] run_inv_core [OF core_enqueue_prompt] by blast+
  then show ?thesis
    using dispatch_direct_inv [OF assms]
    by (simp add: handle_send_prompt_def fresh_prompt_def Let_def split: option.split sum.split)
qed

text \<open>A commit pays for one call.\<close>

lemma handle_prompt_committed_inv:
  assumes "run_inv sha dev key d" and "validJournalKey key" and "de_sha env = sha"
  shows "run_inv sha dev key (handle_prompt_committed env s c d)"
proof -
  let ?d = "d\<lparr>dn_commits := dn_commits d @ [(s, c)]\<rparr>"
  have "commits_of sha dev key (dn_commits ?d)
      = commits_of sha dev key (dn_commits d) + (if prompt_key sha dev s c = key then 1 else 0)"
    by (simp add: commits_of_def)
  then have i: "run_inv sha dev key ?d" "prompt_key sha dev s c = key \<longrightarrow> settled sha dev key ?d"
    using assms(1) by (auto simp: run_inv_def settled_def)
  obtain d' e where m: "with_journal (markCommitted sha (de_now env) (de_fault env 0) s c) ?d = (d', e)" by force
  from with_journal_inv(1) [OF m [unfolded run_op_forms] i(1) assms(2)] i(2)
  have "run_inv sha dev key d'" by (auto simp: prompt_key_def)
  then show ?thesis
    using assms(1,3) m by (simp add: handle_prompt_committed_def split: option.split)
qed

section \<open>The agent's answer\<close>

lemma finish_call_inv:
  assumes "run_inv sha dev key d" and "fl \<in> set (dn_flight d)"
  shows "run_inv sha dev key (finish_call fl outcome d)"
    and "outcome = Refused \<Longrightarrow> prompt_key sha dev (fl_session fl) (fl_client fl) = key \<Longrightarrow>
         settled sha dev key (finish_call fl outcome d)"
proof -
  let ?d = "finish_call fl outcome d" and ?i = "fl_call fl" and ?n = "(fl_session fl, fl_client fl, outcome)"
  have fl: "flights_ok (dn_flight d) (dn_calls d)" using assms(1) by (simp add: run_inv_def)
  then have i: "?i < length (dn_calls d)" "dn_calls d ! ?i = (fl_session fl, fl_client fl, Calling)"
    using assms(2) by (auto simp: flights_ok_def)
  have "flights_ok (dn_flight ?d) (dn_calls ?d)"
  proof -
    have "?i \<noteq> fl_call f" if "f \<in> set (dn_flight d)" "f \<noteq> fl" for f
      using fl assms(2) that by (auto simp: flights_ok_def distinct_map inj_on_def)
    then show ?thesis
      using fl by (auto simp: flights_ok_def finish_call_def distinct_map_filter)
  qed
  moreover have runs: "agent_runs sha dev key (dn_calls ?d)
      + (if prompt_key sha dev (fl_session fl) (fl_client fl) = key \<and> outcome = Refused then 1 else 0)
      = agent_runs sha dev key (dn_calls d)"
  proof -
    have split: "dn_calls d = take ?i (dn_calls d) @ (fl_session fl, fl_client fl, Calling) # drop (Suc ?i) (dn_calls d)"
      using id_take_nth_drop [OF i(1)] i(2) by simp
    have "dn_calls ?d = take ?i (dn_calls d) @ ?n # drop (Suc ?i) (dn_calls d)"
      using upd_conv_take_nth_drop [OF i(1)] by (simp add: finish_call_def)
    then show ?thesis
      using arg_cong [OF split, of "agent_runs sha dev key"] by (simp add: agent_runs_def)
  qed
  moreover have same: "dn_journal ?d = dn_journal d" "dn_commits ?d = dn_commits d" by (simp_all add: finish_call_def)
  ultimately show "run_inv sha dev key ?d"
    using assms(1) unfolding run_inv_def settled_def by (auto split: if_splits)
  show "settled sha dev key ?d" if "outcome = Refused" "prompt_key sha dev (fl_session fl) (fl_client fl) = key"
    using assms(1) runs same that unfolding run_inv_def settled_def by (auto split: if_splits)
qed

lemma accepted_shape_inv:
  assumes "run_inv sha dev key d" and "validJournalKey key"
    and "\<And>d e. core (g1 e d) = core d" "\<And>d. core (g2 d) = core d"
  shows "run_inv sha dev key
     (case with_journal (markAccepted sha now fault s c) d of (d, Some e) \<Rightarrow> g1 e d | (d, None) \<Rightarrow> g2 d)"
proof -
  obtain d' e where m: "with_journal (markAccepted sha now fault s c) d = (d', e)" by force
  have "run_inv sha dev key d'" using status_inv assms(1,2) m by blast
  then show ?thesis
    using m by (simp add: run_inv_core [OF assms(3)] run_inv_core [OF assms(4)] split: option.split)
qed

lemma rollback_shape_inv:
  assumes "run_inv sha dev key d" and "validJournalKey key"
    and "prompt_key sha dev s c = key \<longrightarrow> settled sha dev key d"
    and "\<And>d e. run_inv sha dev key d \<Longrightarrow> (prompt_key sha dev s c = key \<longrightarrow> settled sha dev key d) \<Longrightarrow>
      run_inv sha dev key (g1 e d)"
    and "\<And>d. core (g2 d) = core d"
  shows "run_inv sha dev key
     (case with_journal (rollbackDispatching sha fault s c) d of (d, Some e) \<Rightarrow> g1 e d | (d, None) \<Rightarrow> g2 d)"
proof -
  obtain d' e where m: "with_journal (rollbackDispatching sha fault s c) d = (d', e)" by force
  note r = rollback_inv(1,2) [OF m assms(1-3)]
  then have "run_inv sha dev key (g1 e d')" for e using assms(3,4) by blast
  then show ?thesis using m r(1) by (simp add: run_inv_core [OF assms(5)] split: option.split)
qed

lemma indeterminate_inv:
  assumes "run_inv sha dev key d" and "validJournalKey key" and "\<And>d. core (g d) = core d"
  shows "run_inv sha dev key (g (fst (with_journal (markIndeterminate sha now fault s c) d)))"
proof -
  obtain d' e where m: "with_journal (markIndeterminate sha now fault s c) d = (d', e)" by force
  have "run_inv sha dev key d'" using status_inv assms(1,2) m by blast
  then show ?thesis using m by (simp add: run_inv_core [OF assms(3)])
qed

lemma direct_refused_inv:
  assumes "run_inv sha dev key d" and "validJournalKey key" and "de_sha env = sha"
    and "se_Busy err \<or> se_NotStarted err \<Longrightarrow> prompt_key sha dev (fl_session fl) (fl_client fl) = key \<Longrightarrow>
      settled sha dev key d"
  shows "run_inv sha dev key (direct_refused env fl err d)"
proof -
  let ?s = "fl_session fl" and ?c = "fl_client fl"
  have c: "core (clear_turn fl d) = core d" by simp
  have i: "run_inv sha dev key (clear_turn fl d)"
    "se_Busy err \<or> se_NotStarted err \<Longrightarrow> prompt_key sha dev ?s ?c = key \<longrightarrow> settled sha dev key (clear_turn fl d)"
    using assms(1,4) run_inv_core [OF c] settled_core [OF c] by auto
  have u: "run_inv sha dev key (send_frames [FIndeterminate ?s ?c AgentError]
      (fst (with_journal (markIndeterminate sha now fault ?s ?c) x)))" if "run_inv sha dev key x" for x now fault
    by (rule indeterminate_inv [OF that assms(2)]) simp
  have n: "run_inv sha dev key
      (case with_journal (rollbackDispatching sha (de_fault env 1) ?s ?c) x of
         (d, None) \<Rightarrow> send_frames [FFailed ?s ?c PromptNotStarted] d
       | (d, Some e) \<Rightarrow> send_frames [FIndeterminate ?s ?c AgentError]
           (fst (with_journal (markIndeterminate sha (de_now env) (de_fault env 2) ?s ?c) d)))"
    if "run_inv sha dev key x" "prompt_key sha dev ?s ?c = key \<longrightarrow> settled sha dev key x" for x
    by (rule rollback_shape_inv [OF that(1) assms(2) that(2)]) (simp_all add: u)
  have b: "run_inv sha dev key
      (case with_journal (rollbackDispatching sha (de_fault env 0) ?s ?c) (clear_turn fl d) of
         (d, None) \<Rightarrow> send_frames [FFailed ?s ?c StillRunning] d
       | (d, Some e) \<Rightarrow>
           (if se_NotStarted err
            then (case with_journal (rollbackDispatching sha (de_fault env 1) ?s ?c) d of
                    (d, None) \<Rightarrow> send_frames [FFailed ?s ?c PromptNotStarted] d
                  | (d, Some e) \<Rightarrow> send_frames [FIndeterminate ?s ?c AgentError]
                      (fst (with_journal (markIndeterminate sha (de_now env) (de_fault env 2) ?s ?c) d)))
            else send_frames [FIndeterminate ?s ?c AgentError]
                   (fst (with_journal (markIndeterminate sha (de_now env) (de_fault env 2) ?s ?c) d))))"
    if "se_Busy err"
    by (rule rollback_shape_inv [OF i(1) assms(2) i(2)]) (use that n u in simp_all)
  show ?thesis
    using b n [OF i] u [OF i(1)] assms(3) by (simp add: direct_refused_def Let_def)
qed

lemma queued_refused_inv:
  assumes "run_inv sha dev key d" and "validJournalKey key" and "de_sha env = sha"
    and "se_Busy err \<or> se_NotStarted err \<Longrightarrow> prompt_key sha dev (fl_session fl) (fl_client fl) = key \<Longrightarrow>
      settled sha dev key d"
  shows "run_inv sha dev key (queued_refused env fl item err d)"
proof -
  let ?s = "fl_session fl" and ?c = "fl_client fl"
  have c: "core (clear_turn fl d) = core d" by simp
  have i: "run_inv sha dev key (clear_turn fl d)"
    "se_Busy err \<or> se_NotStarted err \<Longrightarrow> prompt_key sha dev ?s ?c = key \<longrightarrow> settled sha dev key (clear_turn fl d)"
    using assms(1,4) run_inv_core [OF c] settled_core [OF c] by auto
  have u: "run_inv sha dev key (dispatch_failed env item DispatchOther
      (fst (with_journal (markIndeterminate sha (de_now env) (de_fault env 0) ?s ?c) (clear_turn fl d))))"
    by (rule indeterminate_inv [OF i(1) assms(2)]) simp
  have r: "run_inv sha dev key
      (case with_journal (rollbackDispatching sha (de_fault env 0) ?s ?c) (clear_turn fl d) of
         (d, Some e) \<Rightarrow> dispatch_failed env item DispatchOther d
       | (d, None) \<Rightarrow> dispatch_failed env item (if se_Busy err then DispatchBusy else DispatchNotStarted) d)"
    if "se_Busy err \<or> se_NotStarted err"
    by (rule rollback_shape_inv [OF i(1) assms(2) i(2) [OF that]]) (simp_all add: run_inv_core [OF core_dispatch_failed])
  show ?thesis using u r assms(3) by (simp add: queued_refused_def Let_def)
qed

lemma accepted_inv:
  assumes "run_inv sha dev key d" and "validJournalKey key" and "de_sha env = sha"
  shows "run_inv sha dev key (direct_accepted env fl d)" and "run_inv sha dev key (queued_accepted env fl item d)"
proof -
  have i: "run_inv sha dev key (turn_frame (fl_session fl) d)" using assms(1) run_inv_core [OF core_frames(7)] by blast
  show "run_inv sha dev key (direct_accepted env fl d)"
    unfolding direct_accepted_def Let_def assms(3) by (rule accepted_shape_inv [OF i assms(2)]) simp_all
  show "run_inv sha dev key (queued_accepted env fl item d)"
    unfolding queued_accepted_def Let_def assms(3) by (rule accepted_shape_inv [OF i assms(2)]) simp_all
qed

lemma agent_returned_inv:
  assumes "run_inv sha dev key d" and "validJournalKey key" and "de_sha env = sha" and "fl \<in> set (dn_flight d)"
  shows "run_inv sha dev key (agent_returned env fl err d)"
proof -
  note f = finish_call_inv [OF assms(1,4)]
  note a = accepted_inv [OF f(1) assms(2,3)]
  have r: "run_inv sha dev key (direct_refused env fl e (finish_call fl (call_result (Some e)) d))"
    "run_inv sha dev key (queued_refused env fl item e (finish_call fl (call_result (Some e)) d))" for e item
    using f direct_refused_inv [OF f(1) assms(2,3)] queued_refused_inv [OF f(1) assms(2,3)]
    by (auto simp: call_result_def)
  show ?thesis
    using a r by (simp add: agent_returned_def direct_returned_def queued_returned_def Let_def split: option.split)
qed

section \<open>Over restarts\<close>

lemma on_message_inv:
  assumes "run_inv sha dev key d" and "validJournalKey key" and "de_sha env = sha"
  shows "run_inv sha dev key (on_message env mode data conv ok msg d)"
proof -
  have "run_inv sha dev key (handle_command env data conv ok msg t p d)" for t p
    using assms(1) handle_send_prompt_inv [OF assms] core_queue_commands [THEN run_inv_core]
    by (simp add: handle_command_def Let_def)
  then show ?thesis
    using assms(1) handle_prompt_committed_inv [OF assms] core_queue_commands [THEN run_inv_core]
    by (simp add: on_message_def Let_def split: sum.split)
qed

fun proc_inv :: "(string \<Rightarrow> string) \<Rightarrow> string \<Rightarrow> string \<Rightarrow> daemon_proc \<Rightarrow> bool" where
  "proc_inv sha dev key (Running d) \<longleftrightarrow> run_inv sha dev key d"
| "proc_inv sha dev key (Stopped js qs lg) \<longleftrightarrow>
     agent_runs sha dev key (lg_calls lg) \<le> commits_of sha dev key (lg_commits lg)
     \<or> guarded key (Down js)
       \<and> agent_runs sha dev key (lg_calls lg) = Suc (commits_of sha dev key (lg_commits lg))"

lemma stopped_inv:
  assumes "proc_inv sha dev key p" and "proc_files p = (js, qs, lg)"
  shows "proc_inv sha dev key (Stopped js qs lg)"
  using assms by (cases p) (auto simp: run_inv_def settled_def)

lemma start_daemon_inv:
  assumes "proc_inv sha dev key p" and "hex_digest sha" and "validJournalKey key"
  shows "proc_inv sha dev key (start_daemon sha dev jfault qfault p)"
proof -
  obtain js qs lg where files: "proc_files p = (js, qs, lg)" by (cases "proc_files p")
  have inv: "proc_inv sha dev key (Stopped js qs lg)" by (rule stopped_inv [OF assms(1) files])
  obtain p' out where run: "journal_run sha dev maxAcceptedPromptIDs (JRestart jfault) (Down js) = (p', out)" by force
  have k: "proc_ok (deviceHash sha dev) p'" "guarded key (Down js) \<Longrightarrow> guarded key p'"
    using journal_run_keeps_guard(1,2) [OF run _ assms(2,3)] by simp_all
  obtain r js' where load: "loadPromptJournal sha dev maxAcceptedPromptIDs js jfault = (r, js')" by force
  show ?thesis
  proof (cases r)
    case (Inl e)
    then have "p' = Down js'" using run load by simp
    then show ?thesis using k inv files load Inl by (auto simp: start_daemon_def)
  next
    case (Inr j)
    then have "p' = Up j" using run load by simp
    then show ?thesis
      using k inv files load Inr by (auto simp: start_daemon_def run_inv_def settled_def flights_ok_def simp del: guarded.simps)
  qed
qed

lemma daemon_step_inv:
  assumes "hex_digest sha" and "validJournalKey key" and "proc_inv sha dev key p" and "daemon_step sha dev p p'"
  shows "proc_inv sha dev key p'"
  using assms(4,3)
proof cases
  case (restarted jfault qfault)
  then show ?thesis using start_daemon_inv assms(1-3) by simp
qed (use assms(2) on_message_inv dispatch_claim_inv agent_returned_inv run_inv_core [OF core_claim_queued]
      run_inv_core [OF core_control] run_inv_core [OF core_frames(10)] run_inv_core [OF core_frames(11)]
      in \<open>fastforce\<close>)+

definition hex_sha :: "(string \<Rightarrow> string) \<Rightarrow> string \<Rightarrow> bool" where
  "hex_sha sha key \<longleftrightarrow> hex_digest sha \<and> validJournalKey key"

interpretation daemon_runs: step_invariant "daemon_step sha dev" "\<lambda>p. hex_sha sha key \<and> proc_inv sha dev key p"
  by unfold_locales (auto simp: hex_sha_def intro: daemon_step_inv)

fun proc_log :: "daemon_proc \<Rightarrow> daemon_log" where
  "proc_log p = snd (snd (proc_files p))"

text \<open>C1. A prompt runs once.  Start the daemon on any files and let relay frames, agent events, queue
  dispatches, failing writes and restarts come in any order.  The calls of an agent for one command that
  may have reached it (it accepted, gave an unclear error, or the daemon died before the answer)
  exceed the commits of the server for that command by at most one: without a commit the prompt
  runs at most once, and it never runs again before the server has recorded it.\<close>

theorem prompt_runs_once:
  assumes "hex_digest sha"
    and "(daemon_step sha dev)\<^sup>*\<^sup>* (Stopped js qs \<lparr>lg_sent = [], lg_calls = [], lg_commits = []\<rparr>) p"
  shows "agent_runs sha dev (prompt_key sha dev s c) (lg_calls (proc_log p))
    \<le> Suc (commits_of sha dev (prompt_key sha dev s c) (lg_commits (proc_log p)))"
proof -
  let ?key = "prompt_key sha dev s c"
  have "validJournalKey ?key"
    using assms(1) by (simp add: hex_digest_def prompt_key_def promptJournalKeyFromHash_def)
  then have "proc_inv sha dev ?key p"
    using daemon_runs.steps_keep [OF assms(2), of ?key] assms(1) by (simp add: hex_sha_def agent_runs_def)
  then show ?thesis by (cases p) (auto simp: run_inv_def settled_def)
qed

section \<open>Rejections\<close>

text \<open>Between \<open>d\<close> and \<open>d'\<close> a \<open>prompt_failed\<close> with outcome rejected was sent for the command.\<close>

definition rejected :: "string \<Rightarrow> string \<Rightarrow> daemon \<Rightarrow> daemon \<Rightarrow> bool" where
  "rejected s c d d' \<longleftrightarrow> (\<exists>fs r. dn_sent d' = dn_sent d @ fs \<and> FFailed s c r \<in> set fs)"

text \<open>Frames that are no rejections.\<close>

definition soft :: "daemon \<Rightarrow> daemon \<Rightarrow> bool" where
  "soft d d' \<longleftrightarrow> (\<exists>fs. dn_sent d' = dn_sent d @ fs \<and> (\<forall>s c r. FFailed s c r \<notin> set fs))"

lemma soft_refl [simp]: "soft d d"
  by (auto simp: soft_def)

lemma soft_trans: "soft d d1 \<Longrightarrow> soft d1 d2 \<Longrightarrow> soft d d2"
  by (auto simp: soft_def)

lemma soft_same: "dn_sent d' = dn_sent d \<Longrightarrow> soft d d'"
  by (simp add: soft_def)

lemma soft_not_rejected: "soft d d' \<Longrightarrow> \<not> rejected s c d d'"
  by (auto simp: soft_def rejected_def)

lemma rejected_after_soft: "soft d d1 \<Longrightarrow> rejected s c d d2 \<Longrightarrow> \<exists>fs. dn_sent d2 = dn_sent d1 @ fs \<Longrightarrow> rejected s c d1 d2"
  by (auto simp: soft_def rejected_def)

lemma soft_send: "\<forall>s c r. FFailed s c r \<notin> set fs \<Longrightarrow> soft d (send_frames fs d)"
  by (auto simp: soft_def send_frames_def)

lemma rejected_send: "rejected s c d (send_frames fs d) \<longleftrightarrow> (\<exists>r. FFailed s c r \<in> set fs)"
  by (auto simp: rejected_def send_frames_def)

lemma queue_update_frame [simp]: "queue_update q s \<noteq> FFailed s' c r" "FFailed s' c r \<noteq> queue_update q s"
  by (simp_all add: queue_update_def Let_def)

lemma sent_update [simp]:
  "dn_sent (next_generation d) = dn_sent d" "dn_sent (clear_turn fl d) = dn_sent d"
  "dn_sent (start_call s c p item d) = dn_sent d" "dn_sent (finish_call fl oc d) = dn_sent d"
  by (simp_all add: next_generation_def clear_turn_def start_call_def finish_call_def)

lemma sent_with_journal: "with_journal f d = (d', e) \<Longrightarrow> dn_sent d' = dn_sent d"
  by (auto simp: with_journal_def split: prod.splits)

lemma sent_with_queue: "with_queue f d = (d', e) \<Longrightarrow> dn_sent d' = dn_sent d"
  by (auto simp: with_queue_def split: prod.splits sum.splits)

lemma sent_bind_turn: "bind_turn s c d = (d', ok) \<Longrightarrow> dn_sent d' = dn_sent d"
  by (auto simp: bind_turn_def split: prod.splits)

lemma soft_frames:
  "soft d (sendQueueUpdate s d)" "soft d (turn_frame s d)" "soft d (clear_frame s b d)"
  "soft d (sendControlEvent env ev clear d)"
  by (auto simp: sendQueueUpdate_def turn_frame_def clear_frame_def sendControlEvent_def intro!: soft_send
      split: sum.split option.split)

lemma soft_settle: "soft d (settle_running env ev d)"
proof -
  have "soft d (sendQueueUpdate s (d\<lparr>dn_queue := q\<rparr>))" for s q
    using soft_frames(1) [of "d\<lparr>dn_queue := q\<rparr>" s] by (simp add: soft_def)
  then show ?thesis by (simp add: settle_running_def Let_def split: sum.split option.split)
qed

lemma soft_control: "soft d (handleControlEvent env ev d)"
proof -
  have "soft d (settle_running env e (sendControlEvent env e b (d\<lparr>dn_turns := tu\<rparr>)))" for e b tu
    by (rule soft_trans [OF soft_trans [OF soft_same soft_frames(4)] soft_settle]) simp
  moreover have "soft d (settle_running env e (sendControlEvent env e b d))" for e b
    by (rule soft_trans [OF soft_frames(4) soft_settle])
  moreover have "soft d (d\<lparr>dn_turns := tu\<rparr>)" for tu by (rule soft_same) simp
  ultimately show ?thesis by (simp add: handleControlEvent_def Let_def split: prod.split option.split)
qed

lemma soft_turns: "soft d (abandon_turn fl d)" "soft d (accept_turn env fl d)"
proof -
  have c: "soft d (clear_frame s b (d\<lparr>dn_turns := tu\<rparr>))" for s b tu
    by (rule soft_trans [OF soft_same soft_frames(3)]) simp
  then show "soft d (abandon_turn fl d)" by (simp add: abandon_turn_def split: prod.split)
  have e: "soft x (send_frames [FAccepted s c p] (x\<lparr>dn_cache := ca\<rparr>))" for x s c p ca
    by (auto simp: soft_def send_frames_def)
  show "soft d (accept_turn env fl d)"
    unfolding accept_turn_def Let_def
    by (auto split: prod.split option.split intro!: soft_trans [OF _ e] soft_trans [OF _ soft_control] c)
qed

lemma soft_queue_step: "soft d (sendQueueUpdate s (fst (with_queue f d)))"
  by (rule soft_trans [OF soft_same soft_frames(1)]) (simp add: with_queue_def split: sum.split prod.split)

lemma soft_indeterminate: "soft d (send_frames [FIndeterminate s c r] d)"
  by (rule soft_send) simp

lemma dispatch_failed_soft: "err \<noteq> DispatchNotStarted \<Longrightarrow> soft d (dispatch_failed env item err d)"
  by (cases err) (simp_all add: dispatch_failed_def Let_def soft_queue_step soft_trans [OF soft_queue_step soft_indeterminate])

lemma dispatch_failed_rejects:
  "rejected s c d (dispatch_failed env item err d) \<Longrightarrow>
   s = qi_SessionID item \<and> c = qi_ClientMsgID item \<and> err = DispatchNotStarted"
proof (cases "err = DispatchNotStarted")
  case True
  assume r: "rejected s c d (dispatch_failed env item err d)"
  let ?d = "sendQueueUpdate (qi_SessionID item)
      (fst (with_queue (block (de_fault env 9) (qi_SessionID item) (qi_ClientMsgID item) promptQueueBlockedFailed) d))"
  have "rejected s c ?d (send_frames [FFailed (qi_SessionID item) (qi_ClientMsgID item) PromptNotStarted] ?d)"
    by (rule rejected_after_soft [OF soft_queue_step])
      (use r True in \<open>simp_all add: dispatch_failed_def Let_def send_frames_def\<close>)
  then show ?thesis using True by (simp add: rejected_send)
qed (use dispatch_failed_soft soft_not_rejected in blast)

lemma rejected_same_start: "dn_sent d1 = dn_sent d \<Longrightarrow> rejected s c d d2 \<longleftrightarrow> rejected s c d1 d2"
  by (simp add: rejected_def)

text \<open>When \<open>send_prompt\<close> is rejected, the journal does not know the command and no call was made.\<close>

lemma dispatch_direct_rejects:
  assumes "rejected s' c' d (dispatch_direct env s c p d)"
  shows "s' = s \<and> c' = c \<and> dn_calls (dispatch_direct env s c p d) = dn_calls d
    \<and> dn_commits (dispatch_direct env s c p d) = dn_commits d"
proof -
  obtain d1 e where m: "with_journal (markDispatching (de_sha env) (de_now env) (de_fault env 0) s c p) d = (d1, e)"
    by force
  obtain d2 ok where b: "bind_turn s c (next_generation d1) = (d2, ok)" by force
  obtain d3 e3 where r: "with_journal (rollbackDispatching (de_sha env) (de_fault env 1) s c) d2 = (d3, e3)" by force
  have sent: "dn_sent d1 = dn_sent d" "dn_sent d2 = dn_sent d" "dn_sent d3 = dn_sent d"
    using sent_with_journal [OF m] sent_bind_turn [OF b] sent_with_journal [OF r] by simp_all
  have "core d2 = core d1" using core_bind_turn [OF b] by simp
  then have calls: "dn_calls d1 = dn_calls d" "dn_calls d3 = dn_calls d" "dn_commits d1 = dn_commits d"
    "dn_commits d3 = dn_commits d"
    using with_journal_fields(2,3) [OF m] with_journal_fields(2,3) [OF r] by (auto simp: core_def)
  have sf: "rejected s' c' d (send_frames fs x) \<longleftrightarrow> (\<exists>r. FFailed s' c' r \<in> set fs)" if "dn_sent x = dn_sent d" for x fs
    using that by (auto simp: rejected_def send_frames_def)
  have no: "\<not> rejected s' c' d (start_call s c p None d2)" using sent by (auto simp: rejected_def)
  show ?thesis
  proof (cases e)
    case None
    show ?thesis
    proof (cases ok)
      case True
      then show ?thesis using assms m b None no by (simp add: dispatch_direct_def)
    next
      case False
      then show ?thesis
        using assms m b r None calls sf [OF sent(3)]
        by (cases e3) (auto simp: dispatch_direct_def, auto simp: send_frames_def)
    qed
  next
    case (Some err)
    then show ?thesis
      using assms m calls sf [OF sent(1)] by (auto simp: dispatch_direct_def, auto simp: send_frames_def)
  qed
qed

lemma answer_frames:
  "queue_answer s c d = Some fs \<Longrightarrow> FFailed s' c' r \<notin> set fs"
  "journal_answer env s c d = Some fs \<Longrightarrow> FFailed s' c' r \<notin> set fs"
  by (auto simp: queue_answer_def journal_answer_def split: sum.splits option.splits if_splits)

lemma enqueue_rejects:
  "rejected s' c' d (enqueue_prompt env item d) \<Longrightarrow> s' = qi_SessionID item \<and> c' = qi_ClientMsgID item"
  by (auto simp: enqueue_prompt_def rejected_def send_frames_def Let_def split: sum.splits prod.splits)

lemma fresh_prompt_rejects:
  assumes "rejected s' c' d (fresh_prompt env s c p w d)"
  shows "s' = s \<and> c' = c \<and> dn_calls (fresh_prompt env s c p w d) = dn_calls d
    \<and> dn_commits (fresh_prompt env s c p w d) = dn_commits d"
proof -
  have e: "rejected s' c' d (enqueue_prompt env (new_item env a s c mode p w) d) \<Longrightarrow> s' = s \<and> c' = c" for a mode
    using enqueue_rejects by (fastforce simp: new_item_def)
  have core: "dn_calls (enqueue_prompt env item d) = dn_calls d" "dn_commits (enqueue_prompt env item d) = dn_commits d"
    "dn_calls (send_frames fs d) = dn_calls d" "dn_commits (send_frames fs d) = dn_commits d" for item fs
    using core_enqueue_prompt [of env item d] core_frames(1) [of fs d] by (simp_all add: core_def)
  show ?thesis
    using assms e core dispatch_direct_rejects [of s' c' d env s c]
    by (auto simp: fresh_prompt_def Let_def rejected_send split: sum.splits option.splits if_splits)
qed

lemma send_prompt_rejects:
  assumes "rejected s' c' d (handle_send_prompt env s p w d)" and "c' \<noteq> []"
  shows "s' = s \<and> journal_state (de_sha env) (dn_journal d) s c' = None
    \<and> dn_calls (handle_send_prompt env s p w d) = dn_calls d
    \<and> dn_commits (handle_send_prompt env s p w d) = dn_commits d"
proof -
  let ?c = "payload_client_id p"
  have c: "?c \<noteq> []" and none: "journal_answer env s ?c d = None"
    and d': "handle_send_prompt env s p w d = fresh_prompt env s ?c p w d"
    using assms answer_frames
    by (auto simp: handle_send_prompt_def Let_def rejected_send split: option.splits if_splits)
  have "journal_state (de_sha env) (dn_journal d) s ?c = None"
    using none by (auto simp: journal_answer_def split: option.splits)
  then show ?thesis using fresh_prompt_rejects [of s' c' d env s ?c p w] assms(1) d' by auto
qed

text \<open>What the rest of a handler does to the two logs and when it rejects.\<close>

definition logs :: "daemon \<Rightarrow> (string \<times> string \<times> call_outcome) list \<times> (string \<times> string) list" where
  "logs d = (dn_calls d, dn_commits d)"

lemma logs_core: "core d = core d' \<Longrightarrow> logs d = logs d'"
  by (simp add: core_def logs_def)

lemma logs_with_journal: "with_journal f d = (d', e) \<Longrightarrow> logs d' = logs d"
  using with_journal_fields(2,3) [of f d d' e] by (simp add: logs_def)

lemmas logs_simps = logs_core [OF core_frames(1)] logs_core [OF core_frames(4)] logs_core [OF core_frames(7)]
  logs_core [OF core_frames(9)] logs_core [OF core_accept_turn] logs_core [OF core_dispatch_failed]

lemma rejected_send_from:
  "dn_sent x = dn_sent d \<Longrightarrow> rejected s c d (send_frames fs x) \<longleftrightarrow> (\<exists>r. FFailed s c r \<in> set fs)"
  by (auto simp: rejected_def send_frames_def)

definition rejects_only :: "flight \<Rightarrow> bool \<Rightarrow> daemon \<Rightarrow> daemon \<Rightarrow> bool" where
  "rejects_only fl refused d d' \<longleftrightarrow>
     logs d' = logs d \<and>
     (\<forall>s c. rejected s c d d' \<longrightarrow> refused \<and> s = fl_session fl \<and> c = fl_client fl)"

lemma rejects_only_start:
  "dn_sent d1 = dn_sent d \<Longrightarrow> logs d1 = logs d \<Longrightarrow> rejects_only fl b d1 d2 \<Longrightarrow> rejects_only fl b d d2"
  by (simp add: rejects_only_def rejected_def)

lemma rejects_only_journal:
  assumes "\<And>d1. rejects_only fl b d1 (g d1)" and "\<And>d1 e. rejects_only fl b d1 (h e d1)"
  shows "rejects_only fl b d (case with_journal f d of (d, None) \<Rightarrow> g d | (d, Some e) \<Rightarrow> h e d)"
proof -
  obtain d1 e where m: "with_journal f d = (d1, e)" by force
  note s = rejects_only_start [OF sent_with_journal [OF m] logs_with_journal [OF m]]
  show ?thesis using m s assms by (cases e) simp_all
qed

lemma rejects_only_fst:
  assumes "\<And>d1. rejects_only fl b d1 (g d1)"
  shows "rejects_only fl b d (g (fst (with_journal f d)))"
proof -
  obtain d1 e where m: "with_journal f d = (d1, e)" by force
  show ?thesis
    using rejects_only_start [OF sent_with_journal [OF m] logs_with_journal [OF m]] m assms by simp
qed

lemma rejects_only_soft: "soft d d' \<Longrightarrow> core d' = core d \<Longrightarrow> rejects_only fl b d d'"
  by (simp add: rejects_only_def soft_not_rejected logs_def core_def)

lemma rejects_only_frames:
  "rejects_only fl b d (send_frames [FIndeterminate s c r] d)"
  "rejects_only fl True d (send_frames [FFailed (fl_session fl) (fl_client fl) r] d)"
  by (auto simp: rejects_only_def rejected_send logs_simps)

lemma direct_refused_rejects:
  "rejects_only fl (se_Busy err \<or> se_NotStarted err) d (direct_refused env fl err d)"
proof -
  note f = rejects_only_frames
  have u: "rejects_only fl b x (send_frames [FIndeterminate (fl_session fl) (fl_client fl) AgentError]
      (fst (with_journal g x)))" for b x g
    by (rule rejects_only_fst) (rule f(1))
  have r: "rejects_only fl True x (case with_journal g x of
         (d, None) \<Rightarrow> send_frames [FFailed (fl_session fl) (fl_client fl) re] d
       | (d, Some e) \<Rightarrow> h d)" if "\<And>y. rejects_only fl True y (h y)" for x g h re
    by (rule rejects_only_journal) (rule f(2) that)+
  have "rejects_only fl (se_Busy err \<or> se_NotStarted err) (clear_turn fl d) (direct_refused env fl err d)"
    using u r by (simp add: direct_refused_def Let_def)
  then show ?thesis by (rule rejects_only_start [rotated 2]) (simp_all add: logs_simps)
qed

lemma soft_with_journal:
  assumes "\<And>d1. soft d1 (g d1) \<and> logs (g d1) = logs d1" and "\<And>d1 e. soft d1 (h e d1) \<and> logs (h e d1) = logs d1"
  shows "soft d (case with_journal f d of (d, None) \<Rightarrow> g d | (d, Some e) \<Rightarrow> h e d)
    \<and> logs (case with_journal f d of (d, None) \<Rightarrow> g d | (d, Some e) \<Rightarrow> h e d) = logs d"
proof -
  obtain d1 e where m: "with_journal f d = (d1, e)" by force
  have "soft d d1" by (rule soft_same [OF sent_with_journal [OF m]])
  then show ?thesis using m assms logs_with_journal [OF m] soft_trans [of d d1] by (cases e) auto
qed

lemma soft_logs_rejects: "soft d d' \<and> logs d' = logs d \<Longrightarrow> rejects_only fl b d d'"
  by (simp add: rejects_only_def soft_not_rejected)

lemma turn_frame_then:
  "soft (turn_frame s d) d' \<and> logs d' = logs (turn_frame s d) \<Longrightarrow> soft d d' \<and> logs d' = logs d"
  using soft_trans [OF soft_frames(2)] logs_simps(3) by metis

lemma accepted_rejects:
  "rejects_only fl b d (direct_accepted env fl d)" "rejects_only fl b d (queued_accepted env fl item d)"
proof -
  have a: "soft x (accept_turn env fl x) \<and> logs (accept_turn env fl x) = logs x" for x
    by (simp add: soft_turns logs_simps)
  have i: "soft x (send_frames [FIndeterminate s c r] (abandon_turn fl x))
      \<and> logs (send_frames [FIndeterminate s c r] (abandon_turn fl x)) = logs x" for x s c r
    using soft_trans [OF soft_turns(1) soft_indeterminate] by (simp add: logs_simps)
  have q: "soft x (dispatch_failed env item DispatchOther (abandon_turn fl x))
      \<and> logs (dispatch_failed env item DispatchOther (abandon_turn fl x)) = logs x" for x
    using soft_trans [OF soft_turns(1) dispatch_failed_soft] by (simp add: logs_simps)
  show "rejects_only fl b d (direct_accepted env fl d)"
    unfolding direct_accepted_def Let_def
    by (rule soft_logs_rejects [OF turn_frame_then], rule soft_with_journal) (rule a i)+
  show "rejects_only fl b d (queued_accepted env fl item d)"
    unfolding queued_accepted_def Let_def
    by (rule soft_logs_rejects [OF turn_frame_then], rule soft_with_journal) (rule a q)+
qed

lemma queued_refused_rejects:
  assumes "qi_SessionID item = fl_session fl" and "qi_ClientMsgID item = fl_client fl"
  shows "rejects_only fl (se_Busy err \<or> se_NotStarted err) d (queued_refused env fl item err d)"
proof -
  have o: "rejects_only fl b x (dispatch_failed env item DispatchOther x)" for b x
    by (rule rejects_only_soft) (simp_all add: dispatch_failed_soft)
  have n: "rejects_only fl True x (dispatch_failed env item e x)" for x e
    using dispatch_failed_rejects [of _ _ x env item e] assms by (auto simp: rejects_only_def logs_simps)
  have r: "rejects_only fl True x (case with_journal g x of
         (d, None) \<Rightarrow> dispatch_failed env item e1 d | (d, Some e) \<Rightarrow> dispatch_failed env item DispatchOther d)" for x g e1
    by (rule rejects_only_journal) (rule n)+
  have u: "rejects_only fl b x (dispatch_failed env item DispatchOther (fst (with_journal g x)))" for b x g
    by (rule rejects_only_fst) (rule o)
  have "rejects_only fl (se_Busy err \<or> se_NotStarted err) (clear_turn fl d) (queued_refused env fl item err d)"
    using u r by (simp add: queued_refused_def Let_def)
  then show ?thesis by (rule rejects_only_start [rotated 2]) (simp_all add: logs_simps)
qed

lemma returned_rejects:
  assumes "rejected s c d (agent_returned env fl err d)" and "flights_ok (dn_flight d) (dn_calls d)"
    and "fl \<in> set (dn_flight d)"
  shows "s = fl_session fl \<and> c = fl_client fl \<and> call_result err = Refused
    \<and> logs (agent_returned env fl err d) = logs (finish_call fl Refused d)"
proof -
  let ?d = "finish_call fl (call_result err) d"
  have item: "qi_SessionID it = fl_session fl" "qi_ClientMsgID it = fl_client fl" if "fl_queued fl = Some it" for it
    using assms(2,3) that by (auto simp: flights_ok_def)
  have "rejects_only fl (call_result err = Refused) ?d (agent_returned env fl err d)"
  proof (cases err)
    case None
    then show ?thesis
      using accepted_rejects
      by (simp add: agent_returned_def direct_returned_def queued_returned_def Let_def split: option.split)
  next
    case (Some e)
    have "(call_result err = Refused) = (se_Busy e \<or> se_NotStarted e)" by (simp add: Some call_result_def)
    then show ?thesis
      using Some direct_refused_rejects queued_refused_rejects [OF item]
      by (simp add: agent_returned_def direct_returned_def queued_returned_def Let_def split: option.split)
  qed
  moreover have "rejected s c ?d (agent_returned env fl err d)"
    using assms(1) by (simp add: rejected_def)
  ultimately show ?thesis unfolding rejects_only_def by metis
qed

text \<open>C3. A rejection is safe to retry.  Whenever the daemon answers a \<open>send_prompt\<close>, at once or after the
  agent refused it, with an outcome of rejected and the permission to retry, then every call of an
  agent for that command that may have run is one the server has already committed: without commits,
  the prompt has not run.\<close>

theorem rejection_is_safe:
  assumes "hex_digest sha"
    and "(daemon_step sha dev)\<^sup>*\<^sup>* (Stopped js qs \<lparr>lg_sent = [], lg_calls = [], lg_commits = []\<rparr>) (Running d)"
    and "de_sha env = sha" and "c \<noteq> []"
    and "d' = handle_send_prompt env s' p w d \<or> fl \<in> set (dn_flight d) \<and> d' = agent_returned env fl err d"
    and "rejected s c d d'"
  shows "agent_runs sha dev (prompt_key sha dev s c) (dn_calls d')
    \<le> commits_of sha dev (prompt_key sha dev s c) (dn_commits d')"
proof -
  let ?key = "prompt_key sha dev s c"
  have "validJournalKey ?key"
    using assms(1) by (simp add: hex_digest_def prompt_key_def promptJournalKeyFromHash_def)
  then have inv: "run_inv sha dev ?key d"
    using daemon_runs.steps_keep [OF assms(2), of ?key] assms(1) by (simp add: hex_sha_def agent_runs_def)
  from assms(5) show ?thesis
  proof
    assume d': "d' = handle_send_prompt env s' p w d"
    have r: "s = s'" "journal_state sha (dn_journal d) s c = None" "dn_calls d' = dn_calls d"
      "dn_commits d' = dn_commits d"
      using send_prompt_rejects [of s c d env s' p w] assms(3,4,6) d' by auto
    have "pj_deviceHash (dn_journal d) = deviceHash sha dev" using inv by (simp add: run_inv_def)
    then have "\<not> guarded ?key (Up (dn_journal d))"
      using r(2) assms(4) by (simp add: journal_state_def guards_def prompt_key_def)
    then show ?thesis using inv r(3,4) by (auto simp: run_inv_def settled_def)
  next
    assume a: "fl \<in> set (dn_flight d) \<and> d' = agent_returned env fl err d"
    have "flights_ok (dn_flight d) (dn_calls d)" using inv by (simp add: run_inv_def)
    then have "s = fl_session fl" "c = fl_client fl" "logs d' = logs (finish_call fl Refused d)"
      using returned_rejects [of s c d env fl err] a assms(6) by auto
    then show ?thesis
      using finish_call_inv(2) [OF inv, of fl Refused] a by (simp add: settled_def logs_def)
  qed
qed

section \<open>Rejections that are not safe\<close>


section \<open>Concrete runs\<close>

definition demo_adapter :: adapter where
  "demo_adapter =
     \<lparr>ad_Name = ''claude'', ad_OwnsSession = (\<lambda>s. True), ad_FetchHistory = (\<lambda>s n. Inr []), ad_Codex = False,
      ad_AppServerHealthy = False, ad_HasActiveTurn = (\<lambda>s. False)\<rparr>"

definition demo_env :: daemon_env where
  "demo_env =
     \<lparr>de_now = 1, de_fault = (\<lambda>n. None), de_sha = demo_sha, de_lib = demo_inbound, de_keys = None, de_device = ''d'',
      de_adapters = [demo_adapter], de_cached = (\<lambda>s. None), de_busy = (\<lambda>s. False),
      de_materialize = (\<lambda>refs. None), de_json = (\<lambda>v. ''{}''), de_update = (\<lambda>ev. False)\<rparr>"

definition demo_log :: daemon_log where
  "demo_log = \<lparr>lg_sent = [], lg_calls = [], lg_commits = []\<rparr>"

definition demo_daemon :: daemon where
  "demo_daemon =
     \<lparr>dn_journal = projr (fst (loadPromptJournal demo_sha ''d'' maxAcceptedPromptIDs NoFile None)),
      dn_queue = Inl Unreadable, dn_cache = newPromptAcceptanceCache maxAcceptedPromptIDs, dn_turns = [],
      dn_generation = 0, dn_flight = [], dn_claims = [], dn_sent = [], dn_calls = [], dn_commits = []\<rparr>"

lemma demo_start:
  "start_daemon demo_sha ''d'' None None (Stopped NoFile Unreadable demo_log) = Running demo_daemon"
  by (simp add: start_daemon_def loadPromptJournal_def persist_def loadPromptQueue_def demo_log_def demo_daemon_def
      newActiveTurnRegistry_def Let_def)

lemma demo_daemon_reachable:
  "(daemon_step demo_sha ''d'')\<^sup>*\<^sup>* (Stopped NoFile Unreadable \<lparr>lg_sent = [], lg_calls = [], lg_commits = []\<rparr>) (Running demo_daemon)"
  using restarted [of demo_sha "''d''" "Stopped NoFile Unreadable demo_log" None None] demo_start
  by (auto simp: demo_log_def)

definition demo_prompt :: payload where
  "demo_prompt =
     Some [(''protocol_version'', JString ''1.0''), (''transport_mode'', JString ''open''),
           (''type'', JString ''send_prompt''), (''session_id'', JString ''s''),
           (''payload'', JObject [(''client_msg_id'', JString ''c''), (''prompt'', JString ''hi'')])]"

definition demo_sent_prompt :: daemon where
  "demo_sent_prompt = on_message demo_env ''open'' [] (\<lambda>x. 0) True demo_prompt demo_daemon"

lemma demo_daemon_fields:
  "mem (pj_data (dn_journal demo_daemon)) = []" "pj_max (dn_journal demo_daemon) = maxAcceptedPromptIDs"
  "dn_queue demo_daemon = Inl Unreadable" "dn_turns demo_daemon = []" "dn_generation demo_daemon = 0"
  "dn_calls demo_daemon = []" "dn_flight demo_daemon = []" "dn_sent demo_daemon = []" "pc_entries (dn_cache demo_daemon) = []"
  by (simp_all add: demo_daemon_def loadPromptJournal_def persist_def Let_def newPromptAcceptanceCache_def
      maxAcceptedPromptIDs_def)

lemma demo_strings:
  "validateJournalIdentifiers ''s'' ''c'' = None" "TrimSpace ''s'' = ''s''" "TrimSpace ''c'' = ''c''"
  "stripNekoAttachSuffix ''hi'' = ''hi''" "stripNekoAttachSuffix [] = []"
  by code_simp+

lemma demo_answers:
  "journal_answer demo_env ''s'' ''c'' demo_daemon = None" "queue_answer ''s'' ''c'' demo_daemon = None"
  "cache_get (de_sha demo_env) (dn_cache demo_daemon) ''s'' ''c'' = None"
  by (simp_all add: journal_answer_def queue_answer_def journal_state_def cache_get_def demo_daemon_fields)

lemma demo_fresh:
  "handle_send_prompt demo_env ''s'' (Some ((''client_msg_id'', JString ''c'') # p)) [] demo_daemon
   = fresh_prompt demo_env ''s'' ''c'' (Some ((''client_msg_id'', JString ''c'') # p)) [] demo_daemon"
  by (simp add: handle_send_prompt_def payload_client_id_def field_def string_or_empty_def as_string_def Let_def demo_answers)

definition demo_flight :: flight where
  "demo_flight =
     \<lparr>fl_session = ''s'', fl_client = ''c'', fl_generation = 1, fl_prompt = ''hi'', fl_queued = None, fl_call = 0\<rparr>"

lemma demo_dispatch:
  obtains r where "dn_calls (dispatch_direct demo_env ''s'' ''c'' ''hi'' demo_daemon) = [(''s'', ''c'', Calling)]"
    and "dn_flight (dispatch_direct demo_env ''s'' ''c'' ''hi'' demo_daemon) = [demo_flight]"
    and "journal_state demo_sha (dn_journal (dispatch_direct demo_env ''s'' ''c'' ''hi'' demo_daemon)) ''s'' ''c'' = Some r"
    and "jr_Status r = promptJournalDispatching"
proof -
  obtain d1 e where m: "with_journal (markDispatching (de_sha demo_env) (de_now demo_env) (de_fault demo_env 0) ''s'' ''c'' ''hi'')
      demo_daemon = (d1, e)" by force
  have e: "e = None" and t: "dn_turns d1 = []" "dn_calls d1 = []" "dn_generation d1 = 0" "dn_flight d1 = []"
    and r: "\<exists>r. journal_state demo_sha (dn_journal d1) ''s'' ''c'' = Some r \<and> jr_Status r = promptJournalDispatching"
    using m by (auto simp: with_journal_def markDispatching_def demo_strings demo_daemon_fields persistRecords_def
        maxAcceptedPromptIDs_def demo_env_def journal_state_def Let_def split: prod.splits)
  obtain d2 where b: "bind_turn ''s'' ''c'' (next_generation d1) = (d2, True)" and g: "dn_generation d2 = 1"
    by (simp add: bind_turn_def next_generation_def t Active_Turn.bind_def demo_strings Let_def)
  have "dn_calls d2 = []" "dn_flight d2 = []" "dn_journal d2 = dn_journal d1"
    using core_bind_turn [OF b] t(2,4) by (simp_all add: core_def next_generation_def)
  then show thesis
    using m e b g r that by (auto simp: dispatch_direct_def start_call_def demo_flight_def)
qed

lemma demo_prompt_dispatched:
  "demo_sent_prompt = dispatch_direct demo_env ''s'' ''c'' ''hi'' demo_daemon"
proof -
  have "target_adapter demo_env ''s'' = Some demo_adapter"
    by (simp add: target_adapter_def demo_env_def pickAdapterForSession_def demo_adapter_def)
  then have "fresh_prompt demo_env ''s'' ''c'' (Some [(''client_msg_id'', JString ''c''), (''prompt'', JString ''hi'')]) []
      demo_daemon = dispatch_direct demo_env ''s'' ''c'' ''hi'' demo_daemon"
    by (simp add: fresh_prompt_def field_def string_or_empty_def as_string_def normalizeCollaborationMode_def
        demo_strings parseAttachmentRefs_def queue_capable_def queue_available_def demo_daemon_fields)
  then show ?thesis
    using demo_fresh
    by (simp add: demo_sent_prompt_def on_message_def demo_prompt_def field_def string_or_empty_def as_string_def
        daemonInboundApplicationType_def decodeInboundApplicationCommand_def has_key_def handle_command_def)
qed

lemma demo_prompt_calls: "dn_calls demo_sent_prompt = [(''s'', ''c'', Calling)]"
  by (rule demo_dispatch) (simp add: demo_prompt_dispatched)

lemma demo_prompt_step: "daemon_step demo_sha ''d'' (Running demo_daemon) (Running demo_sent_prompt)"
  unfolding demo_sent_prompt_def
  by (rule message) (simp_all add: demo_env_def session_locked_def demo_daemon_def)

theorem prompt_runs_once_witness:
  "dn_calls demo_sent_prompt = [(''s'', ''c'', Calling)] \<and>
   agent_runs demo_sha ''d'' (prompt_key demo_sha ''d'' ''s'' ''c'') (lg_calls (proc_log (Running demo_sent_prompt)))
   \<le> Suc (commits_of demo_sha ''d'' (prompt_key demo_sha ''d'' ''s'' ''c'')
            (lg_commits (proc_log (Running demo_sent_prompt))))"
proof
  show "agent_runs demo_sha ''d'' (prompt_key demo_sha ''d'' ''s'' ''c'')
      (lg_calls (proc_log (Running demo_sent_prompt)))
   \<le> Suc (commits_of demo_sha ''d'' (prompt_key demo_sha ''d'' ''s'' ''c'')
            (lg_commits (proc_log (Running demo_sent_prompt))))"
    by (rule prompt_runs_once
        [OF hex_digest_demo rtranclp.rtrancl_into_rtrancl [OF demo_daemon_reachable demo_prompt_step]])
qed (rule demo_prompt_calls)

theorem rejection_is_safe_witness:
  "let d' = handle_send_prompt demo_env ''s'' (Some [(''client_msg_id'', JString ''c'')]) [] demo_daemon
   in rejected ''s'' ''c'' demo_daemon d' \<and>
      agent_runs demo_sha ''d'' (prompt_key demo_sha ''d'' ''s'' ''c'') (dn_calls d')
      \<le> commits_of demo_sha ''d'' (prompt_key demo_sha ''d'' ''s'' ''c'') (dn_commits d')"
proof -
  let ?d' = "handle_send_prompt demo_env ''s'' (Some [(''client_msg_id'', JString ''c'')]) [] demo_daemon"
  have "dn_sent ?d' = [FFailed ''s'' ''c'' EmptyPrompt]"
    by (simp add: demo_fresh fresh_prompt_def field_def string_or_empty_def as_string_def normalizeCollaborationMode_def
        demo_strings parseAttachmentRefs_def send_frames_def demo_daemon_fields)
  then have r: "rejected ''s'' ''c'' demo_daemon ?d'" by (simp add: rejected_def demo_daemon_def)
  have "de_sha demo_env = demo_sha" by (simp add: demo_env_def)
  from rejection_is_safe [OF hex_digest_demo demo_daemon_reachable this _ disjI1 r] r show ?thesis by (simp add: Let_def)
qed

definition demo_running :: daemon where
  "demo_running =
     demo_daemon\<lparr>dn_queue := Inr (demo_queue [demo_item ''c'' 1 promptQueueRunning] 1),
                 dn_calls := [(''s'', ''c'', Accepted)]\<rparr>"


end
