(* ===== verification/Daemon_Acks.thy ===== *)
theory Daemon_Acks
  imports Daemon_Prompts
begin

text \<open>
  Acknowledgements of the daemon: \<open>prompt_accepted\<close> goes out only for a command an agent accepted.
  The invariant follows the accepted and committed records of the journal and its file, the entries of
  the acceptance cache and the frames sent, over the machine of \<open>Daemon_Prompts\<close>.
\<close>

section \<open>Accepted records\<close>

definition acknowledged :: "promptJournalStatus \<Rightarrow> bool" where
  "acknowledged st \<longleftrightarrow> st = promptJournalAccepted \<or> st = promptJournalCommitted"

definition acked_keys :: "promptJournalRecord set \<Rightarrow> string set" where
  "acked_keys R = jr_Key ` {r \<in> R. acknowledged (jr_Status r)}"

text \<open>The accepted records of memory and file have keys in \<open>A\<close>.\<close>

definition acks_in :: "string set \<Rightarrow> promptJournal \<Rightarrow> bool" where
  "acks_in A j \<longleftrightarrow>
     acked_keys (snd ` set (mem (pj_data j))) \<subseteq> A \<and> acked_keys (set (jd_Records (disk (pj_data j)))) \<subseteq> A"

lemma acked_keys_mono: "R \<subseteq> S \<Longrightarrow> acked_keys R \<subseteq> acked_keys S"
  by (auto simp: acked_keys_def)

lemma encode_acked:
  assumes "acked_keys (snd ` set m) \<subseteq> A" and "\<forall>k \<in> A. validJournalKey k"
  shows "acked_keys (set (jd_Records (encodeRecords hash m))) \<subseteq> A"
proof
  fix k
  assume "k \<in> acked_keys (set (jd_Records (encodeRecords hash m)))"
  then obtain r where r: "r \<in> snd ` set m" "acknowledged (jr_Status r)" "k = json_coerce (jr_Key r)"
    by (fastforce simp: acked_keys_def encodeRecords_def json_record_def)
  then have "jr_Key r \<in> A" using assms(1) by (auto simp: acked_keys_def)
  then show "k \<in> A" using r(3) assms(2) by (simp add: validJournalKey_coerce)
qed

lemma persist_acks:
  assumes "(j', e) = persistRecords fault m' j" and "acks_in A j" and "acked_keys (snd ` set m') \<subseteq> A"
    and "\<forall>k \<in> A. validJournalKey k"
  shows "acks_in A j'"
proof -
  have d: "pj_data j' = fst (commit (encodeRecords (pj_deviceHash j)) fault m' (pj_data j))"
    using assms(1) persistRecords_data [of fault m' j] by (metis fst_conv)
  show ?thesis
    using assms(2,3) d encode_acked [OF assms(3,4)]
    by (cases rule: commit_cases [of fault "encodeRecords (pj_deviceHash j)" m' "pj_data j"])
      (auto simp: acks_in_def)
qed

lemma acked_update:
  assumes "acked_keys (snd ` set m) \<subseteq> A" and "acknowledged (jr_Status r) \<longrightarrow> jr_Key r \<in> A"
  shows "acked_keys (snd ` set (AList.update k r m)) \<subseteq> A"
proof -
  have "snd ` set (AList.update k r m) \<subseteq> insert r (snd ` set m)"
    by (induction m) auto
  then show ?thesis using assms by (auto simp: acked_keys_def)
qed

lemma acked_delete: "acked_keys (snd ` set m) \<subseteq> A \<Longrightarrow> acked_keys (snd ` set (AList.delete k m)) \<subseteq> A"
  by (rule order_trans [OF acked_keys_mono]) (auto simp: AList.delete_eq)

lemma transition_acks:
  assumes "transition sha now fault s c st j = (j', e)" and "acks_in A j" and "keyed (mem (pj_data j))"
    and "\<forall>k \<in> A. validJournalKey k"
    and "st = promptJournalAccepted \<longrightarrow> promptJournalKeyFromHash sha (pj_deviceHash j) s c \<in> A"
  shows "acks_in A j'"
  using assms(1)
proof (cases rule: transition_cases)
  case (written key current r)
  have rk: "jr_Key r = key" using written(3,5) keyed_lookup [OF assms(3)] by simp
  have "acknowledged (jr_Status r) \<longrightarrow> jr_Key r \<in> A"
  proof
    assume a: "acknowledged (jr_Status r)"
    have st: "jr_Status r = st" using written(5) by simp
    show "jr_Key r \<in> A"
    proof (cases "st = promptJournalAccepted")
      case False
      then have "st = promptJournalCommitted" using a st by (simp add: acknowledged_def)
      then have "jr_Status current = promptJournalAccepted"
        using written(4) by (simp add: transition_guard_def split: if_splits)
      then have "jr_Key current \<in> acked_keys (snd ` set (mem (pj_data j)))"
        using map_of_SomeD [OF written(3)] by (force simp: acked_keys_def acknowledged_def)
      then show ?thesis
        using assms(2) rk keyed_lookup [OF assms(3) written(3)] by (auto simp: acks_in_def)
    qed (use assms(5) rk written(2) in simp)
  qed
  then have "acked_keys (snd ` set (AList.update key r (mem (pj_data j)))) \<subseteq> A"
    using assms(2) by (intro acked_update) (simp_all add: acks_in_def)
  then show ?thesis by (rule persist_acks [OF written(6) assms(2) _ assms(4)])
qed (use assms(2) in simp)

lemma markDispatching_acks:
  assumes "markDispatching sha now fault s c p j = (j', e)" and "acks_in A j" and "keyed (mem (pj_data j))"
    and "\<forall>k \<in> A. validJournalKey k"
  shows "acks_in A j'"
  using assms(1)
proof (cases rule: markDispatching_cases)
  case (written key nxt)
  have m: "acked_keys (snd ` set (mem (pj_data j))) \<subseteq> A" using assms(2) by (simp add: acks_in_def)
  have "acked_keys (snd ` set nxt) \<subseteq> A"
    using written(4)
  proof
    assume "evictOldestCommitted (mem (pj_data j)) = Inr nxt"
    then show ?thesis by (rule evict_Inr) (simp add: acked_delete [OF m])
  qed (use m in simp)
  then show ?thesis
    by (intro persist_acks [OF written(5) assms(2) acked_update assms(4)]) (simp_all add: acknowledged_def)
qed (use assms(2) in simp)

lemma run_op_acks:
  assumes "run_op sha op fault j = (j', e)" and "acks_in A j" and "keyed (mem (pj_data j))"
    and "\<forall>k \<in> A. validJournalKey k"
    and "\<forall>now s c. op = JAccept now s c \<longrightarrow> promptJournalKeyFromHash sha (pj_deviceHash j) s c \<in> A"
  shows "acks_in A j'"
proof (cases op)
  case (JDispatch now s c p)
  then show ?thesis using markDispatching_acks assms by simp
next
  case (JRollback s c)
  then have "rollbackDispatching sha fault s c j = (j', e)" using assms(1) by simp
  then show ?thesis
  proof (cases rule: rollback_cases)
    case (written key current)
    have "acked_keys (snd ` set (AList.delete key (mem (pj_data j)))) \<subseteq> A"
      using assms(2) by (intro acked_delete) (simp add: acks_in_def)
    then show ?thesis by (rule persist_acks [OF written(4) assms(2) _ assms(4)])
  qed (use assms(2) in simp)
qed (use assms transition_acks in \<open>fastforce simp: markAccepted_def markIndeterminate_def markCommitted_def\<close>)+

section \<open>Restarts\<close>

lemma load_acked:
  assumes "loadRecords sha hash v rs [] ch = Inr (m, ch')" and "trimCommitted mx m = Inr m'"
  shows "acked_keys (snd ` set m') \<subseteq> acked_keys (set rs)"
proof -
  note t = trimCommitted_Inr [OF assms(2) loadRecords_keyed(1) [OF assms(1)]]
  obtain rs' where m: "m = map (\<lambda>r. (jr_Key r, r)) rs'"
    and l: "list_all2 (\<lambda>r r'. \<exists>c. normalizeRecord sha hash v r = Inr (r', c) \<and> (c \<longrightarrow> ch')) rs rs'"
    using loadRecords_Inr [OF assms(1)] by auto
  have "acked_keys (set rs') \<subseteq> acked_keys (set rs)"
  proof
    fix k
    assume "k \<in> acked_keys (set rs')"
    then obtain i where i: "i < length rs'" "acknowledged (jr_Status (rs' ! i))" "k = jr_Key (rs' ! i)"
      by (auto simp: acked_keys_def in_set_conv_nth)
    have n: "i < length rs" using i(1) list_all2_lengthD [OF l] by simp
    obtain c where c: "normalizeRecord sha hash v (rs ! i) = Inr (rs' ! i, c)"
      using list_all2_nthD [OF l n] by blast
    have "acknowledged (jr_Status (rs ! i))" "k = jr_Key (rs ! i)"
      using normalizeRecord_Inr(1,2) [OF c] i by (auto simp: acknowledged_def recovered_status_def split: if_splits)
    then show "k \<in> acked_keys (set rs)" using nth_mem [OF n] by (auto simp: acked_keys_def)
  qed
  moreover have "snd ` set m' \<subseteq> set rs'" using t m by auto
  ultimately show ?thesis using acked_keys_mono by blast
qed

fun file_acks_in :: "string set \<Rightarrow> journal_source \<Rightarrow> bool" where
  "file_acks_in A (Decoded d) \<longleftrightarrow> acked_keys (set (jd_Records d)) \<subseteq> A"
| "file_acks_in A _ \<longleftrightarrow> True"

lemma load_acks:
  assumes "loadPromptJournal sha dev mx src fault = (r, now)" and "file_acks_in A src"
    and "\<forall>k \<in> A. validJournalKey k"
  shows "case r of Inl e \<Rightarrow> file_acks_in A now
    | Inr j \<Rightarrow> acks_in A j \<and> keyed (mem (pj_data j)) \<and> pj_deviceHash j = deviceHash sha dev"
proof (cases r)
  case (Inr j)
  then have "loadPromptJournal sha dev mx src fault = (Inr j, now)" using assms(1) by simp
  then show ?thesis
  proof (cases rule: load_Inr_cases)
    case fresh
    have "acked_keys (set (jd_Records (encodeRecords (deviceHash sha dev) []))) \<subseteq> A"
      by (rule encode_acked) (simp_all add: acked_keys_def assms(3))
    then show ?thesis using fresh Inr by (simp add: acks_in_def acked_keys_def keyed_def)
  next
    case (loaded d records ch)
    have "acked_keys (snd ` set (mem (pj_data j))) \<subseteq> A"
      using load_acked [OF loaded(4,5)] assms(2) loaded(1) by simp
    then show ?thesis
      using loaded Inr assms(2) encode_acked [OF _ assms(3)] load_guards(1) [OF loaded(4,5)]
      by (simp add: acks_in_def)
  qed
next
  case (Inl e)
  show ?thesis
  proof (cases src)
    case (Decoded d)
    then have "loadPromptJournal sha dev mx (Decoded d) fault = (Inl e, now)" using assms(1) Inl by simp
    then show ?thesis
    proof (cases rule: load_error_cases)
      case (replaced records ch m)
      have "acked_keys (snd ` set m) \<subseteq> A" using load_acked [OF replaced(1,2)] assms(2) Decoded by simp
      then show ?thesis using Inl replaced(3) encode_acked [OF _ assms(3)] by simp
    qed (use Inl Decoded assms(2) in simp)
  next
    case NoFile
    have "acked_keys (set (jd_Records (encodeRecords (deviceHash sha dev) []))) \<subseteq> A"
      by (rule encode_acked) (simp_all add: acked_keys_def assms(3))
    then show ?thesis
      using Inl NoFile assms(1)
      by (auto simp: loadPromptJournal_def Let_def persist_def split: option.splits if_splits)
  qed (use assms(1) Inl in \<open>auto simp: loadPromptJournal_def Let_def\<close>)
qed

section \<open>What the invariant looks at\<close>

fun is_ack :: "daemon_frame \<Rightarrow> bool" where
  "is_ack (FAccepted s c e) = True"
| "is_ack _ = False"

definition view :: "daemon \<Rightarrow> promptJournal \<times> flight list \<times> (string \<times> string \<times> call_outcome) list \<times> promptAcceptanceCache \<times> daemon_frame list" where
  "view d = (dn_journal d, dn_flight d, dn_calls d, dn_cache d, filter is_ack (dn_sent d))"

lemma is_ack_queue_update [simp]: "\<not> is_ack (queue_update q s)"
  by (simp add: queue_update_def Let_def)

lemma view_update [simp]:
  "view (d\<lparr>dn_queue := q\<rparr>) = view d" "view (d\<lparr>dn_turns := tu\<rparr>) = view d" "view (d\<lparr>dn_commits := co\<rparr>) = view d"
  "view (d\<lparr>dn_generation := g\<rparr>) = view d" "view (d\<lparr>dn_claims := cl\<rparr>) = view d"
  by (simp_all add: view_def)

lemma view_send: "filter is_ack fs = [] \<Longrightarrow> view (send_frames fs d) = view d"
  by (simp add: view_def send_frames_def)

lemma view_frames [simp]:
  "view (sendQueueUpdate s d) = view d" "view (fst (with_queue f d)) = view d"
  "view (clear_turn fl d) = view d" "view (next_generation d) = view d"
  "view (turn_frame s d) = view d" "view (clear_frame s b d) = view d" "view (abandon_turn fl d) = view d"
  "view (native_bound s g c n d) = view d" "view (run_completed s g c d) = view d"
  "view (send_frames [FFailed s c r] d) = view d" "view (send_frames [FIndeterminate s c r] d) = view d"
  by (simp_all add: sendQueueUpdate_def with_queue_def clear_turn_def next_generation_def view_send
      turn_frame_def clear_frame_def abandon_turn_def native_bound_def run_completed_def
      split: sum.split prod.split option.split)

lemma view_bind_turn: "bind_turn s c d = (d', ok) \<Longrightarrow> view d' = view d"
  by (auto simp: bind_turn_def split: prod.splits)

lemma view_with_queue: "with_queue f d = (d', e) \<Longrightarrow> view d' = view d"
  using view_frames(2) [of f d] by simp

lemma view_control_parts [simp]:
  "view (sendControlEvent env ev clear d) = view d" "view (settle_running env ev d) = view d"
  by (simp_all add: sendControlEvent_def settle_running_def view_send Let_def split: sum.split option.split)

lemma view_control [simp]: "view (handleControlEvent env ev d) = view d"
  by (simp add: handleControlEvent_def Let_def split: prod.split option.split)

lemma view_dispatch_failed [simp]: "view (dispatch_failed env item err d) = view d"
  by (cases err) (simp_all add: dispatch_failed_def Let_def)

lemma view_claim_queued [simp]: "view (claim_queued env s d) = view d"
  by (simp add: claim_queued_def view_send Let_def split: sum.split prod.split option.split)

lemma view_enqueue_prompt [simp]: "view (enqueue_prompt env item d) = view d"
  by (simp add: enqueue_prompt_def view_send Let_def split: sum.split prod.split)

lemma view_queue_commands [simp]:
  "view (handle_cancel_prompt env s p d) = view d" "view (handle_resume_prompt_queue env s d) = view d"
  "view (handle_skip_prompt_queue_item env s p d) = view d" "view (handle_interrupt env s b ok d) = view d"
  "view (refuse_undecoded s msg t d) = view d"
  by (simp_all add: handle_cancel_prompt_def handle_resume_prompt_queue_def handle_skip_prompt_queue_item_def
      handle_interrupt_def refuse_undecoded_def Let_def view_send view_with_queue
      split: sum.split prod.split option.split)

section \<open>The invariant\<close>

definition accepted_as :: "(string \<Rightarrow> string \<Rightarrow> string) \<Rightarrow> (string \<times> string \<times> call_outcome) list \<Rightarrow> string set" where
  "accepted_as key calls = {key s c | s c. (s, c, Accepted) \<in> set calls}"

text \<open>An agent accepted the command, or one with the same cache key.\<close>

definition agent_accepted :: "(string \<Rightarrow> string) \<Rightarrow> string \<Rightarrow> (string \<times> string \<times> call_outcome) list \<Rightarrow> string \<Rightarrow> string \<Rightarrow> bool" where
  "agent_accepted sha dev calls s c \<longleftrightarrow>
     prompt_key sha dev s c \<in> accepted_as (prompt_key sha dev) calls
     \<or> promptCacheKey sha s c \<in> accepted_as (promptCacheKey sha) calls"

definition acks_true :: "(string \<Rightarrow> string) \<Rightarrow> string \<Rightarrow> (string \<times> string \<times> call_outcome) list \<Rightarrow> daemon_frame list \<Rightarrow> bool" where
  "acks_true sha dev calls sent \<longleftrightarrow>
     (\<forall>s c e. FAccepted s c e \<in> set sent \<longrightarrow> agent_accepted sha dev calls s c)"

definition ack_ok :: "(string \<Rightarrow> string) \<Rightarrow> string \<Rightarrow> daemon \<Rightarrow> bool" where
  "ack_ok sha dev d \<longleftrightarrow>
     proc_ok (deviceHash sha dev) (Up (dn_journal d)) \<and>
     acks_in (accepted_as (prompt_key sha dev) (dn_calls d)) (dn_journal d) \<and>
     fst ` set (pc_entries (dn_cache d)) \<subseteq> accepted_as (promptCacheKey sha) (dn_calls d) \<and>
     acks_true sha dev (dn_calls d) (filter is_ack (dn_sent d))"

lemma ack_view: "view d = view d' \<Longrightarrow> ack_ok sha dev d = ack_ok sha dev d'"
  by (simp add: ack_ok_def view_def)

lemma accepted_mono: "set calls \<subseteq> set calls' \<Longrightarrow> accepted_as key calls \<subseteq> accepted_as key calls'"
  by (auto simp: accepted_as_def)

lemma accepted_valid: "hex_digest sha \<Longrightarrow> \<forall>k \<in> accepted_as (prompt_key sha dev) calls. validJournalKey k"
  by (auto simp: accepted_as_def prompt_key_def promptJournalKeyFromHash_def hex_digest_def)

lemma ack_send:
  "ack_ok sha dev d \<Longrightarrow> (\<forall>s c e. FAccepted s c e \<in> set fs \<longrightarrow> agent_accepted sha dev (dn_calls d) s c) \<Longrightarrow>
   ack_ok sha dev (send_frames fs d)"
  by (simp add: ack_ok_def acks_true_def send_frames_def) blast

lemma ack_journal:
  assumes "with_journal (run_op sha op fault) d = (d', e)" and "ack_ok sha dev d" and "hex_digest sha"
    and "\<forall>now s c. op = JAccept now s c \<longrightarrow> prompt_key sha dev s c \<in> accepted_as (prompt_key sha dev) (dn_calls d)"
  shows "ack_ok sha dev d'" and "dn_calls d' = dn_calls d" and "dn_cache d' = dn_cache d"
proof -
  note f = with_journal_fields [OF assms(1)]
  have p: "proc_ok (deviceHash sha dev) (Up (dn_journal d))" using assms(2) by (simp add: ack_ok_def)
  have key: "validJournalKey (prompt_key sha dev [] [])"
    using assms(3) by (simp add: prompt_key_def promptJournalKeyFromHash_def hex_digest_def)
  have "proc_ok (deviceHash sha dev) (Up (dn_journal d'))" by (rule op_keeps_guard(1) [OF f(4) p key])
  moreover have "acks_in (accepted_as (prompt_key sha dev) (dn_calls d)) (dn_journal d')"
    by (rule run_op_acks [OF f(4)]) (use assms(2,4) p accepted_valid [OF assms(3)] in \<open>auto simp: ack_ok_def prompt_key_def\<close>)
  moreover have "dn_cache d' = dn_cache d" "dn_sent d' = dn_sent d"
    using assms(1) by (auto simp: with_journal_def split: prod.splits)
  ultimately show "ack_ok sha dev d'" and "dn_calls d' = dn_calls d" and "dn_cache d' = dn_cache d"
    using assms(2) f(2) by (auto simp: ack_ok_def)
qed

text \<open>The shape of all uses: an operation of the journal and two continuations.\<close>

lemma ack_journal_case:
  assumes "ack_ok sha dev d" and "hex_digest sha"
    and "\<forall>now s c. op = JAccept now s c \<longrightarrow> prompt_key sha dev s c \<in> accepted_as (prompt_key sha dev) (dn_calls d)"
    and "\<And>d1. ack_ok sha dev d1 \<Longrightarrow> dn_calls d1 = dn_calls d \<Longrightarrow> ack_ok sha dev (g d1)"
    and "\<And>d1 e. ack_ok sha dev d1 \<Longrightarrow> dn_calls d1 = dn_calls d \<Longrightarrow> ack_ok sha dev (h e d1)"
  shows "ack_ok sha dev (case with_journal (run_op sha op fault) d of (d, None) \<Rightarrow> g d | (d, Some e) \<Rightarrow> h e d)"
proof -
  obtain d1 e where m: "with_journal (run_op sha op fault) d = (d1, e)" by force
  show ?thesis using m ack_journal(1,2) [OF m assms(1-3)] assms(4,5) by (cases e) auto
qed

lemma ack_start_call: "ack_ok sha dev d \<Longrightarrow> ack_ok sha dev (start_call s c p item d)"
  by (simp add: ack_ok_def start_call_def accepted_as_def acks_true_def agent_accepted_def)

lemma finish_call_accepted:
  assumes "flights_ok (dn_flight d) (dn_calls d)" and "fl \<in> set (dn_flight d)"
  shows "accepted_as key (dn_calls d) \<subseteq> accepted_as key (dn_calls (finish_call fl oc d))"
    and "oc = Accepted \<Longrightarrow> key (fl_session fl) (fl_client fl) \<in> accepted_as key (dn_calls (finish_call fl oc d))"
proof -
  have i: "fl_call fl < length (dn_calls d)" "dn_calls d ! fl_call fl = (fl_session fl, fl_client fl, Calling)"
    using assms by (auto simp: flights_ok_def)
  have "(s, c, Accepted) \<in> set (dn_calls (finish_call fl oc d))" if "(s, c, Accepted) \<in> set (dn_calls d)" for s c
  proof -
    obtain n where n: "n < length (dn_calls d)" "dn_calls d ! n = (s, c, Accepted)"
      using \<open>(s, c, Accepted) \<in> set (dn_calls d)\<close> by (auto simp: in_set_conv_nth)
    then have "dn_calls (finish_call fl oc d) ! n = (s, c, Accepted)"
      using i(2) by (cases "n = fl_call fl") (auto simp: finish_call_def)
    then show ?thesis using n(1) nth_mem [of n "dn_calls (finish_call fl oc d)"] by (simp add: finish_call_def)
  qed
  then show "accepted_as key (dn_calls d) \<subseteq> accepted_as key (dn_calls (finish_call fl oc d))"
    by (auto simp: accepted_as_def)
  show "key (fl_session fl) (fl_client fl) \<in> accepted_as key (dn_calls (finish_call fl oc d))" if "oc = Accepted"
    using that set_update_memI [OF i(1), of "(fl_session fl, fl_client fl, Accepted)"]
    by (auto simp: accepted_as_def finish_call_def)
qed

lemma acks_in_mono: "acks_in A j \<Longrightarrow> A \<subseteq> B \<Longrightarrow> acks_in B j"
  by (auto simp: acks_in_def)

lemma acks_true_mono:
  assumes "acks_true sha dev calls sent" and "\<And>key. accepted_as key calls \<subseteq> accepted_as key calls'"
  shows "acks_true sha dev calls' sent"
  using assms(1) assms(2) [of "prompt_key sha dev"] assms(2) [of "promptCacheKey sha"]
  unfolding acks_true_def agent_accepted_def by blast

lemma ack_finish_call:
  assumes "ack_ok sha dev d" and "flights_ok (dn_flight d) (dn_calls d)" and "fl \<in> set (dn_flight d)"
  shows "ack_ok sha dev (finish_call fl oc d)"
proof -
  let ?d = "finish_call fl oc d"
  note a = finish_call_accepted(1) [OF assms(2,3), of _ oc]
  have same: "dn_journal ?d = dn_journal d" "dn_cache ?d = dn_cache d" by (simp_all add: finish_call_def)
  have "acks_in (accepted_as (prompt_key sha dev) (dn_calls ?d)) (dn_journal ?d)"
    using assms(1) a acks_in_mono same unfolding ack_ok_def by metis
  moreover have "acks_true sha dev (dn_calls ?d) (filter is_ack (dn_sent ?d))"
    using assms(1) acks_true_mono [OF _ a] by (simp add: ack_ok_def)
  moreover have "fst ` set (pc_entries (dn_cache ?d)) \<subseteq> accepted_as (promptCacheKey sha) (dn_calls ?d)"
    using assms(1) a [of "promptCacheKey sha"] same unfolding ack_ok_def by auto
  ultimately show ?thesis using assms(1) same by (simp add: ack_ok_def)
qed

lemma cache_add_keys:
  "fst ` set (pc_entries (cache_add h s c r ca)) \<subseteq> insert (promptCacheKey h s c) (fst ` set (pc_entries ca))"
proof -
  have "fst ` set (AList.delete k m) \<subseteq> fst ` set m" for k and m :: "(string, acceptedPrompt) gomap"
    by (auto simp: AList.delete_eq)
  then show ?thesis by (auto simp: cache_add_def Let_def dom_update)
qed

section \<open>Handlers keep it\<close>

lemma ack_accept_turn:
  assumes "ack_ok sha dev d" and "de_sha env = sha" and "(fl_session fl, fl_client fl, Accepted) \<in> set (dn_calls d)"
  shows "ack_ok sha dev (accept_turn env fl d)"
proof -
  have acc: "agent_accepted sha dev (dn_calls d) (fl_session fl) (fl_client fl)"
    "promptCacheKey sha (fl_session fl) (fl_client fl) \<in> accepted_as (promptCacheKey sha) (dn_calls d)"
    using assms(3) by (auto simp: agent_accepted_def accepted_as_def)
  have last: "ack_ok sha dev (send_frames [FAccepted (fl_session fl) (fl_client fl) e]
      (x\<lparr>dn_cache := cache_add sha (fl_session fl) (fl_client fl) r (dn_cache x)\<rparr>))" if "view x = view d" for x e r
  proof -
    have x: "ack_ok sha dev x" "dn_calls x = dn_calls d" using ack_view [OF that] assms(1) that by (simp_all add: view_def)
    have "ack_ok sha dev (x\<lparr>dn_cache := cache_add sha (fl_session fl) (fl_client fl) r (dn_cache x)\<rparr>)"
      using x acc(2) order_trans [OF cache_add_keys [of sha "fl_session fl" "fl_client fl" r "dn_cache x"]]
      by (simp add: ack_ok_def del: proc_ok.simps)
    then show ?thesis by (rule ack_send) (use acc(1) x(2) in auto)
  qed
  show ?thesis
    unfolding accept_turn_def Let_def assms(2)
    by (auto split: prod.split option.split intro!: last)
qed

lemma ack_dispatch_shape:
  assumes "ack_ok sha dev d" and "hex_digest sha"
    and "\<And>d e. view (g1 e d) = view d" "\<And>d e. view (g2 e d) = view d" "\<And>d. view (g3 d) = view d" "\<And>d. view (h d) = view d"
  shows "ack_ok sha dev
     (case with_journal (markDispatching sha now fault s c p) d of
        (d, Some e) \<Rightarrow> g1 e d
      | (d, None) \<Rightarrow>
          (case bind_turn s c (h d) of
             (d, False) \<Rightarrow>
               (case with_journal (rollbackDispatching sha fault' s c) d of
                  (d, Some e) \<Rightarrow> g2 e d | (d, None) \<Rightarrow> g3 d)
           | (d, True) \<Rightarrow> start_call s c p item d))"
proof -
  have "ack_ok sha dev (case bind_turn s c (h x) of
      (d, False) \<Rightarrow> (case with_journal (rollbackDispatching sha fault' s c) d of (d, Some e) \<Rightarrow> g2 e d | (d, None) \<Rightarrow> g3 d)
    | (d, True) \<Rightarrow> start_call s c p item d)" if x: "ack_ok sha dev x" for x
  proof -
    obtain y ok where b: "bind_turn s c (h x) = (y, ok)" by force
    have y: "ack_ok sha dev y" using x ack_view [of y x] view_bind_turn [OF b] assms(6) by simp
    have "ack_ok sha dev (case with_journal (rollbackDispatching sha fault' s c) y of (d, Some e) \<Rightarrow> g2 e d | (d, None) \<Rightarrow> g3 d)"
      unfolding run_op_forms
      by (rule ack_journal_case [OF y assms(2)]) (simp_all add: ack_view [OF assms(4)] ack_view [OF assms(5)])
    then show ?thesis using b ack_start_call [OF y] by (cases ok) simp_all
  qed
  then show ?thesis
    unfolding run_op_forms(1)
    by (intro ack_journal_case [OF assms(1,2)]) (simp_all add: ack_view [OF assms(3)])
qed

lemma ack_dispatch:
  assumes "ack_ok sha dev d" and "hex_digest sha" and "de_sha env = sha"
  shows "ack_ok sha dev (dispatch_direct env s c p d)" and "ack_ok sha dev (dispatchQueuedPrompt env item d)"
    and "ack_ok sha dev (dispatch_claim env cl d)"
proof -
  show "ack_ok sha dev (dispatch_direct env s c p d)"
    unfolding dispatch_direct_def assms(3) by (rule ack_dispatch_shape [OF assms(1,2)]) simp_all
  have q: "ack_ok sha dev (dispatchQueuedPrompt env i x)" if "ack_ok sha dev x" for x i
    unfolding dispatchQueuedPrompt_def Let_def assms(3)
    by (rule ack_dispatch_shape [OF that assms(2), where h = "\<lambda>d. d"]) simp_all
  then show "ack_ok sha dev (dispatchQueuedPrompt env item d)" using assms(1) .
  have v: "ack_ok sha dev x" if "view x = view d" for x using ack_view [OF that] assms(1) by simp
  have "ack_ok sha dev (dispatch_failed env i er (d\<lparr>dn_claims := x\<rparr>))"
    "ack_ok sha dev (dispatchQueuedPrompt env i (next_generation (d\<lparr>dn_claims := x\<rparr>)))" for i er x
    by (rule v, simp) (rule q, rule v, simp)
  then show "ack_ok sha dev (dispatch_claim env cl d)"
    by (simp add: dispatch_claim_def Let_def split: sum.split prod.split)
qed

lemma ack_answers:
  assumes "ack_ok sha dev d" and "de_sha env = sha"
  shows "journal_answer env s c d = Some fs \<Longrightarrow> ack_ok sha dev (send_frames fs d)"
    and "queue_answer s c d = Some fs \<Longrightarrow> ack_ok sha dev (send_frames fs d)"
    and "cache_get sha (dn_cache d) s c = Some a \<Longrightarrow> ack_ok sha dev (send_frames [FAccepted s c e] d)"
proof -
  show "ack_ok sha dev (send_frames fs d)" if ja: "journal_answer env s c d = Some fs"
  proof (rule ack_send [OF assms(1)], intro allI impI)
    fix s' c' e
    assume f: "FAccepted s' c' e \<in> set fs"
    then obtain r where r: "journal_state sha (dn_journal d) s c = Some r" "acknowledged (jr_Status r)" "s' = s" "c' = c"
      using ja by (auto simp: assms(2) [symmetric] journal_answer_def acknowledged_def split: option.splits if_splits)
    have k: "keyed (mem (pj_data (dn_journal d)))" "pj_deviceHash (dn_journal d) = deviceHash sha dev"
      using assms(1) by (simp_all add: ack_ok_def)
    have m: "map_of (mem (pj_data (dn_journal d))) (prompt_key sha dev s c) = Some r"
      using r(1) k(2) by (simp add: journal_state_def prompt_key_def split: if_splits)
    then have "prompt_key sha dev s c \<in> acked_keys (snd ` set (mem (pj_data (dn_journal d))))"
      using r(2) keyed_lookup [OF k(1) m] map_of_SomeD [OF m] by (force simp: acked_keys_def)
    then show "agent_accepted sha dev (dn_calls d) s' c'"
      using assms(1) r(3,4) by (auto simp: ack_ok_def acks_in_def agent_accepted_def)
  qed
  show "ack_ok sha dev (send_frames fs d)" if "queue_answer s c d = Some fs"
    using that assms(1) by (intro ack_send)
      (auto simp: queue_answer_def queue_update_def Let_def split: sum.splits option.splits if_splits)
  show "ack_ok sha dev (send_frames [FAccepted s c e] d)" if "cache_get sha (dn_cache d) s c = Some a"
  proof (rule ack_send [OF assms(1)])
    have "promptCacheKey sha s c \<in> fst ` set (pc_entries (dn_cache d))"
      using that by (force simp: cache_get_def split: if_splits dest: map_of_SomeD)
    then show "\<forall>s' c' e'. FAccepted s' c' e' \<in> set [FAccepted s c e] \<longrightarrow> agent_accepted sha dev (dn_calls d) s' c'"
      using assms(1) by (auto simp: ack_ok_def agent_accepted_def)
  qed
qed

lemma ack_messages:
  assumes "ack_ok sha dev d" and "hex_digest sha" and "de_sha env = sha"
  shows "ack_ok sha dev (on_message env mode data conv ok msg d)"
proof -
  have v: "ack_ok sha dev x" if "view x = view d" for x using ack_view [OF that] assms(1) by simp
  have f: "ack_ok sha dev (fresh_prompt env s c p w d)" for s c p w
    using ack_dispatch(1) [OF assms] v [OF view_frames(10)] v [OF view_enqueue_prompt]
    by (simp add: fresh_prompt_def Let_def split: sum.split option.split)
  have sp: "ack_ok sha dev (handle_send_prompt env s p w d)" for s p w
    using ack_answers [OF assms(1,3)] f v [OF view_frames(10)] assms(3)
    by (simp add: handle_send_prompt_def Let_def split: option.split)
  have sq: "ack_ok sha dev (handle_prompt_status_query env s c d)" for s c
    using ack_answers [OF assms(1,3)] v [OF view_frames(10)] v [OF view_send [of "[FNotSeen s c]"]]
    by (simp add: handle_prompt_status_query_def split: option.split)
  have pc: "ack_ok sha dev (handle_prompt_committed env s c d)" for s c
  proof -
    have c: "ack_ok sha dev (d\<lparr>dn_commits := dn_commits d @ [(s, c)]\<rparr>)" by (rule v) simp
    obtain d' e where m: "with_journal (run_op sha (JCommit (de_now env) s c) (de_fault env 0))
        (d\<lparr>dn_commits := dn_commits d @ [(s, c)]\<rparr>) = (d', e)" by force
    have "ack_ok sha dev d'" by (rule ack_journal(1) [OF m c assms(2)]) simp
    then show ?thesis
      using assms(1,3) m by (simp add: handle_prompt_committed_def run_op_forms(4) split: option.split)
  qed
  have hc: "ack_ok sha dev (handle_command env data conv ok msg t p d)" for t p
    using sp assms(1) view_queue_commands [THEN v] by (simp add: handle_command_def Let_def)
  show ?thesis
    using hc sq pc assms(1) v [OF view_queue_commands(5)] by (simp add: on_message_def Let_def split: sum.split)
qed

lemma ack_accepted:
  assumes "ack_ok sha dev d" and "hex_digest sha" and "de_sha env = sha"
    and "(fl_session fl, fl_client fl, Accepted) \<in> set (dn_calls d)"
  shows "ack_ok sha dev (direct_accepted env fl d)" and "ack_ok sha dev (queued_accepted env fl item d)"
proof -
  have t: "ack_ok sha dev (turn_frame (fl_session fl) d)" "dn_calls (turn_frame (fl_session fl) d) = dn_calls d"
    using ack_view [OF view_frames(5)] assms(1) view_frames(5) [of "fl_session fl" d] by (simp_all add: view_def)
  have key: "prompt_key sha dev (fl_session fl) (fl_client fl) \<in> accepted_as (prompt_key sha dev) (dn_calls d)"
    using assms(4) by (auto simp: accepted_as_def)
  have a: "ack_ok sha dev (accept_turn env fl x)" if "ack_ok sha dev x" "dn_calls x = dn_calls d" for x
    using ack_accept_turn [OF that(1) assms(3)] that(2) assms(4) by simp
  have v: "ack_ok sha dev (send_frames [FIndeterminate s c r] (abandon_turn fl x)) = ack_ok sha dev x"
    "ack_ok sha dev (dispatch_failed env item er (abandon_turn fl x)) = ack_ok sha dev x" for s c r er x
    by (rule ack_view, simp)+
  show "ack_ok sha dev (direct_accepted env fl d)"
    unfolding direct_accepted_def Let_def assms(3) run_op_forms(2)
    by (rule ack_journal_case [OF t(1) assms(2)]) (use t(2) key a v in auto)
  show "ack_ok sha dev (queued_accepted env fl item d)"
    unfolding queued_accepted_def Let_def assms(3) run_op_forms(2)
    by (rule ack_journal_case [OF t(1) assms(2)]) (use t(2) key a v in auto)
qed

lemma ack_indeterminate:
  assumes "ack_ok sha dev d" and "hex_digest sha" and "\<And>d. view (g d) = view d"
  shows "ack_ok sha dev (g (fst (with_journal (markIndeterminate sha now fault s c) d)))"
proof -
  obtain d' e where m: "with_journal (run_op sha (JIndeterminate now s c) fault) d = (d', e)" by force
  have "ack_ok sha dev d'" by (rule ack_journal(1) [OF m assms(1,2)]) simp
  then show ?thesis using m by (simp add: run_op_forms(3) ack_view [OF assms(3)])
qed

lemma ack_rollback_case:
  assumes "ack_ok sha dev d" and "hex_digest sha"
    and "\<And>d1. ack_ok sha dev d1 \<Longrightarrow> ack_ok sha dev (g d1)" and "\<And>d1 e. ack_ok sha dev d1 \<Longrightarrow> ack_ok sha dev (h e d1)"
  shows "ack_ok sha dev (case with_journal (rollbackDispatching sha fault s c) d of (d, None) \<Rightarrow> g d | (d, Some e) \<Rightarrow> h e d)"
  unfolding run_op_forms(5) by (rule ack_journal_case [OF assms(1,2)]) (use assms(3,4) in auto)

lemma ack_refused:
  assumes "ack_ok sha dev d" and "hex_digest sha" and "de_sha env = sha"
  shows "ack_ok sha dev (direct_refused env fl err d)" and "ack_ok sha dev (queued_refused env fl item err d)"
proof -
  have t: "ack_ok sha dev (clear_turn fl d)" using ack_view [OF view_frames(3)] assms(1) by simp
  have v: "ack_ok sha dev x \<Longrightarrow> ack_ok sha dev (send_frames [FFailed s c r] x)"
    "ack_ok sha dev x \<Longrightarrow> ack_ok sha dev (dispatch_failed env item er x)" for s c r er x
    using ack_view [OF view_frames(10)] ack_view [OF view_dispatch_failed] by blast+
  have u: "ack_ok sha dev x \<Longrightarrow> ack_ok sha dev (send_frames [FIndeterminate (fl_session fl) (fl_client fl) r]
      (fst (with_journal (markIndeterminate sha now fault (fl_session fl) (fl_client fl)) x)))" for x r now fault
    by (rule ack_indeterminate [OF _ assms(2)]) simp_all
  have n: "ack_ok sha dev x \<Longrightarrow> ack_ok sha dev
      (case with_journal (rollbackDispatching sha (de_fault env 1) (fl_session fl) (fl_client fl)) x of
         (d, None) \<Rightarrow> send_frames [FFailed (fl_session fl) (fl_client fl) PromptNotStarted] d
       | (d, Some e) \<Rightarrow> send_frames [FIndeterminate (fl_session fl) (fl_client fl) AgentError]
           (fst (with_journal (markIndeterminate sha (de_now env) (de_fault env 2) (fl_session fl) (fl_client fl)) d)))" for x
    by (rule ack_rollback_case [OF _ assms(2)]) (simp_all add: u v(1))
  show "ack_ok sha dev (direct_refused env fl err d)"
    unfolding direct_refused_def Let_def assms(3)
    by (auto intro!: ack_rollback_case [OF t assms(2)] simp: u v(1) n [unfolded One_nat_def] t)
  have qi: "ack_ok sha dev (dispatch_failed env item DispatchOther
      (fst (with_journal (markIndeterminate sha (de_now env) (de_fault env 0) (fl_session fl) (fl_client fl)) (clear_turn fl d))))"
    by (rule ack_indeterminate [OF t assms(2)]) simp
  have qr: "ack_ok sha dev
      (case with_journal (rollbackDispatching sha (de_fault env 0) (fl_session fl) (fl_client fl)) (clear_turn fl d) of
         (d, None) \<Rightarrow> dispatch_failed env item (if se_Busy err then DispatchBusy else DispatchNotStarted) d
       | (d, Some e) \<Rightarrow> dispatch_failed env item DispatchOther d)"
    by (rule ack_rollback_case [OF t assms(2)]) (rule v(2), assumption)+
  show "ack_ok sha dev (queued_refused env fl item err d)"
    using qi qr by (simp add: queued_refused_def Let_def assms(3))
qed

lemma ack_returned:
  assumes "ack_ok sha dev d" and "hex_digest sha" and "de_sha env = sha"
    and "flights_ok (dn_flight d) (dn_calls d)" and "fl \<in> set (dn_flight d)"
  shows "ack_ok sha dev (agent_returned env fl err d)"
proof -
  note f = ack_finish_call [OF assms(1,4,5)]
  have "fl_call fl < length (dn_calls d)" using assms(4,5) by (auto simp: flights_ok_def)
  then have "(fl_session fl, fl_client fl, Accepted) \<in> set (dn_calls (finish_call fl Accepted d))"
    using set_update_memI by (fastforce simp: finish_call_def)
  note a = ack_accepted [OF f assms(2,3) this]
  show ?thesis
    using a ack_refused [OF f assms(2,3)]
    by (simp add: agent_returned_def direct_returned_def queued_returned_def Let_def call_result_def split: option.split)
qed

section \<open>Over restarts\<close>

fun ack_proc :: "(string \<Rightarrow> string) \<Rightarrow> string \<Rightarrow> daemon_proc \<Rightarrow> bool" where
  "ack_proc sha dev (Running d) \<longleftrightarrow> ack_ok sha dev d"
| "ack_proc sha dev (Stopped js qs lg) \<longleftrightarrow>
     file_acks_in (accepted_as (prompt_key sha dev) (lg_calls lg)) js \<and>
     acks_true sha dev (lg_calls lg) (filter is_ack (lg_sent lg))"

lemma ack_start:
  assumes "ack_proc sha dev p" and "hex_digest sha"
  shows "ack_proc sha dev (start_daemon sha dev jfault qfault p)"
proof -
  obtain js qs lg where files: "proc_files p = (js, qs, lg)" by (cases "proc_files p")
  have s: "file_acks_in (accepted_as (prompt_key sha dev) (lg_calls lg)) js"
    "acks_true sha dev (lg_calls lg) (filter is_ack (lg_sent lg))"
    using assms(1) files by (cases p; auto simp: ack_ok_def acks_in_def)+
  obtain r js' where load: "loadPromptJournal sha dev maxAcceptedPromptIDs js jfault = (r, js')" by force
  note l = load_acks [OF load s(1) accepted_valid [OF assms(2)]]
  show ?thesis
  proof (cases r)
    case (Inl e)
    then show ?thesis using files load l s(2) by (simp add: start_daemon_def)
  next
    case (Inr j)
    then show ?thesis
      using files load l s(2) by (simp add: start_daemon_def ack_ok_def newPromptAcceptanceCache_def)
  qed
qed

lemma daemon_step_ack:
  assumes "hex_digest sha" and "validJournalKey key" and "proc_inv sha dev key p" and "ack_proc sha dev p"
    and "daemon_step sha dev p p'"
  shows "ack_proc sha dev p'"
  using assms(5,4,3)
proof cases
  case (restarted jfault qfault)
  then show ?thesis using ack_start assms(1,4) by simp
next
  case (returned env fl d err)
  then show ?thesis using ack_returned assms(1,3,4) by (simp add: run_inv_def)
qed (use assms(1) ack_messages ack_dispatch(3) ack_view [OF view_claim_queued] ack_view [OF view_control]
      ack_view [OF view_frames(8)] ack_view [OF view_frames(9)] in \<open>fastforce\<close>)+

interpretation daemon_acks: step_invariant "daemon_step sha dev"
  "\<lambda>p. hex_sha sha key \<and> proc_inv sha dev key p \<and> ack_proc sha dev p"
  by unfold_locales (auto simp: hex_sha_def intro: daemon_step_inv daemon_step_ack)


definition demo_acked :: daemon where
  "demo_acked = agent_returned demo_env demo_flight None demo_sent_prompt"

lemma demo_acked_frame: "FAccepted ''s'' ''c'' (boundedPromptEcho ''hi'') \<in> set (dn_sent demo_acked)"
proof -
  obtain r where r: "journal_state demo_sha (dn_journal demo_sent_prompt) ''s'' ''c'' = Some r"
    "jr_Status r = promptJournalDispatching"
    by (rule demo_dispatch) (simp add: demo_prompt_dispatched)
  have j: "dn_journal (turn_frame x (finish_call fl oc d)) = dn_journal d" for x fl oc d
    using core_frames(7) [of x "finish_call fl oc d"] by (simp add: core_def finish_call_def)
  obtain d1 e where m: "with_journal (markAccepted demo_sha 1 None ''s'' ''c'')
      (turn_frame ''s'' (finish_call demo_flight Accepted demo_sent_prompt)) = (d1, e)" by force
  have "e = None"
    using r m by (auto simp: with_journal_def j markAccepted_def transition_def demo_strings journal_state_def
        transition_guard_def persistRecords_def Let_def split: prod.splits)
  then have "demo_acked = accept_turn demo_env demo_flight d1"
    using m by (simp add: demo_acked_def agent_returned_def direct_returned_def direct_accepted_def demo_flight_def
        demo_env_def call_result_def)
  moreover have "FAccepted (fl_session fl) (fl_client fl) (boundedPromptEcho (fl_prompt fl))
      \<in> set (dn_sent (accept_turn env fl d))" for env fl d
    by (simp add: accept_turn_def send_frames_def Let_def split: prod.split)
  from this [of demo_flight] have "FAccepted ''s'' ''c'' (boundedPromptEcho ''hi'')
      \<in> set (dn_sent (accept_turn demo_env demo_flight d1))" by (simp add: demo_flight_def)
  ultimately show ?thesis by simp
qed


end
