(* ===== verification/Spec2Isabelle.thy ===== *)
theory Spec2Isabelle
  imports Prompt_Journal Prompt_Queue Start_Journal Active_Turn Protocol Prompt_Commands
    Phone_Outbound Daemon_Registry Phone_Registry Session_Catalog Rate_Limits Principals Server_Store Relay_Modes
    Phone_Sockets Daemon_Acks
begin

text \<open>
  NekoNest lets a phone drive coding agents that run on a user's machine.  Three programs talk
  over web sockets: the phone (a web application under \<open>src/pwa\<close>), the nest server
  (\<open>src/relaycore\<close>, with the SQLite store of \<open>src/server\<close>) and the daemon
  (\<open>src/daemon\<close>) next to the agents.  A phone pairs with a device, is granted access to it,
  and sends prompts; the relay records each prompt in a durable command table and forwards it to
  the device's daemon; the daemon records it in its own journal and queue, dispatches it to an
  agent, and reports acceptance, commit and agent events back through the relay to every
  subscribed phone.  In sealed mode the relay only ever carries ciphertext.

  What makes the program hard is that a prompt must not run twice although every hop can crash,
  retry, time out or be replaced by a newer connection.  The development therefore models the
  stores and registries as state with explicit operations, lets every durable write fail at each
  of its failure points, lets processes restart from the file at any moment, and lets concurrent
  operations interleave at the granularity of the code's critical sections or SQL statements.

  \<^bold>\<open>Foundations.\<close>  \<open>Go_Strings\<close>: Go strings as byte lists, \<open>strings.TrimSpace\<close>, UTF-8 validity, the
  JSON encoder's replacement of invalid bytes, decimal printing and parsing.  \<open>Prelude\<close>: Go maps
  as association lists with distinct keys, results as sums, the atomic file write with its
  failure points, and the two interfaces shared by the components: the locale
  \<open>step_invariant\<close> (an invariant kept by every step holds in all reachable states) and
  \<open>write_ahead\<close> (a store that writes its file before it publishes the new memory; memory and file
  together satisfy \<open>step_invariant\<close>, which is a sublocale).  Both are interpreted on the components
  below.

  \<^bold>\<open>Daemon.\<close>
  \<^item> \<open>Prompt_State\<close> (\<open>daemon/cmd/daemon/prompt_state.go\<close>): the ring-buffer acceptance cache, which
    refines a bounded FIFO map, and the reference-counted per-session locks, mutually exclusive
    and without leaked entries in every interleaving.
  \<^item> \<open>Prompt_Journal\<close> (\<open>prompt_journal.go\<close>): \<open>markDispatching\<close>, the transitions, rollback, eviction,
    encoding, loading.  Invariant of memory and file, round trip of the file, and that a command
    is dispatched at most once over calls, faults and restarts.
  \<^item> \<open>Prompt_Queue\<close> (\<open>prompt_queue.go\<close>): enqueue, claim, completion, cancellation, blocking,
    compaction, loading.  Invariant of memory and file, FIFO order, progress of \<open>claimNext\<close>, round
    trip.
  \<^item> \<open>Start_Journal\<close> (\<open>daemon/internal/startjournal/journal.go\<close>): a thread start is granted at most
    once per operation, settled outcomes are final, records stay valid.
  \<^item> \<open>Active_Turn\<close> (\<open>active_turn.go\<close>): the registry of running native turns; acceptance and
    completion commute and a terminal event is passed on once.
  \<^item> \<open>Sealed_Keys\<close> (\<open>daemon/internal/sealed/sealed.go\<close>, \<open>internal/sealedkeys/manager.go\<close>): base64, the
    sealed wire format, and the manager of the device's catalog and session keys with its key file.
    What is sealed for a session opens to the same text, no sequence number is used twice over
    restarts as long as writes succeed, and what a lost write or an unreadable file does.
  \<^item> \<open>Daemon_Inbound\<close> (\<open>daemon/cmd/daemon/main.go\<close>): decoding of the frames that arrive from the relay,
    plaintext or sealed, the choice of the adapter that owns a session, and the readers of prompt
    payloads.  A sealed command acts only on the session and command it was sealed for.
  \<^item> \<open>Daemon_Prompts\<close> (\<open>main.go\<close>): the handlers for prompts, status queries, commits, cancel, resume,
    skip and interrupt, the dispatch of queued prompts and the control events, over the journal,
    queue, acceptance cache and active-turn registry together.  A handler is one step up to the
    point where it waits for the agent; the agent's return is another step.  A prompt is handed to
    an agent at most once before the server commits it, over every interleaving, fault and restart,
    and the answers of the send handler that allow a retry are sent only when the prompt has not run.
  \<^item> \<open>Daemon_Acks\<close>: an acknowledgement is sent only for a prompt that an agent has accepted.

  \<^bold>\<open>Relay.\<close>
  \<^item> \<open>Protocol\<close> (\<open>relaycore/protocol/types.go\<close>): message types and their confidentiality policy,
    frame validation, version negotiation.
  \<^item> \<open>Phone_Outbound\<close>, \<open>Daemon_Registry\<close>, \<open>Phone_Registry\<close>, \<open>Session_Catalog\<close>
    (\<open>relaycore/connections.go\<close>): the bounded queue and writer of a phone socket, the daemon
    connections with their mutexes, subscriptions and broadcasts, the session snapshots.
  \<^item> \<open>Rate_Limits\<close> (\<open>relaycore/websocket.go\<close>): admission windows.
  \<^item> \<open>Principals\<close> (\<open>relaycore/principals.go\<close>, \<open>ports.go\<close>, part of \<open>engine.go\<close>): credentials by digest.
  \<^item> \<open>Relay_Payload\<close> (\<open>relaycore/websocket.go\<close>, \<open>engine.go\<close>): the readers that take identifiers, texts
    and prompt payloads out of a frame's JSON value.
  \<^item> \<open>Relay_Prompts\<close> (\<open>relaycore/websocket.go\<close>): the handlers of the frames a phone or a daemon sends,
    as transformers of one relay state (registries, catalog, command table, history) that list the
    frames written; registration, forwarding, acceptance, commit, replay and history.
  \<^item> \<open>Relay_Safety\<close>, \<open>Relay_Modes\<close>: the theorems on those handlers.  A phone sees an acknowledgement
    only for a command its row records as accepted, the relay forwards only registered commands, a
    failed write is never reported as safe to retry, the sealed relay stores no text, and the replay
    of commits after a reconnect ends.
  \<^item> \<open>Push_Delivery\<close> (\<open>relaycore/webpush/webpush.go\<close>): endpoint checks, the guarded dialer and the
    delivery loop; the address filter equals a list of network blocks, no address in a block is
    dialled, and an endpoint reported gone is removed.
  \<^item> \<open>Relay_Api\<close> (\<open>relaycore/engine.go\<close>, \<open>errors.go\<close>): the HTTP handlers, from pairing and revocation
    to history and push subscriptions, over the tables of the server store; data of a device is
    served only with a grant, and revocation ends access.
  \<^item> \<open>Phone_Sockets\<close> (\<open>relaycore/websocket.go\<close>): \<open>ServePhoneConn\<close> and \<open>phoneReadLoop\<close> with
    authentication, the later registration of the socket and the read loop as separate steps that
    interleave with the HTTP handlers.

  \<^bold>\<open>Server store.\<close>
  \<^item> \<open>Prompt_Commands\<close> (\<open>server/internal/db/prompt_commands.go\<close>): the durable command table.
  \<^item> \<open>Server_Store\<close> (\<open>db.go\<close>, \<open>phone.go\<close>, \<open>push.go\<close>): devices, pair codes, phones, grants, push
    subscriptions, attention events.
  \<^item> \<open>Message_Store\<close> (\<open>messages.go\<close>): the message history with its sequence numbers and pages.

  \<^bold>\<open>Parameters.\<close>  SHA-256 (\<open>sha\<close>), the random source, JSON codecs and the order in which Go visits
  a map or SQLite returns ties are arguments of the definitions that use them.  Hypotheses on
  them (a digest printed as 64 hexadecimal digits, a permutation of the rows) are named in the
  statements that need them.  AES-GCM, the key wrap and the JSON text of the associated data are
  arguments too, with the hypotheses that decryption inverts encryption (\<open>gcm_correct\<close>), that only
  what was encrypted under the same nonce and data decrypts (\<open>gcm_authentic\<close>) and that different
  fields give different associated data (\<open>aad_injective\<close>).  In the daemon the agents, the adapters'
  session lists, attachment downloads and the encoding of journal and queue files are arguments.

  \<^bold>\<open>Bounds and fuel.\<close>  Loops are structural recursions or functions with a measure (the length of the
  table an eviction loop shrinks), with one exception: \<open>replayPromptCommits\<close> pages through the
  command table and takes a number of rounds as fuel; \<open>replay_terminates\<close> shows that one round more
  than the table has rows is enough.  Bounds are those of the code: 32 push
  subscriptions per device, the sizes of caches, journals, queues and identifiers.  The order
  counter of the queue is a 64-bit word.

  \<^bold>\<open>Not modelled.\<close>  The handlers of socket frames and HTTP requests are modelled as functions on the
  state whose writes are values; the upgrade of a connection, its origin check, deadlines and pings,
  and the routing of requests to handlers belong to the HTTP libraries.  Attachments are files
  passed through.  The agent executors and adapters (\<open>daemon/internal/agentexec\<close>, \<open>adapters\<close>) mostly
  start processes, follow their output and read files in formats defined elsewhere.  Of the daemon's
  main program, session discovery, history reads, the publication of the catalog and its keys, the
  coordination of thread starts (\<open>start_thread.go\<close>, above the modelled journal) and the command
  line are left out.  The daemon's reconnecting client, service installation (\<open>hostsvc\<close>),
  configuration, identity files and logs (\<open>opslog\<close>) are glue around the operating system; the web
  application is not Go.
\<close>

end
